(* ===== verification/Prelude.thy ===== *)
theory Prelude
  imports Main "HOL-Library.Word"
begin

text \<open>
  Shared ground of the development: the C integer types as words, C strings and byte
  buffers as byte lists, the big-endian helpers that \<^verbatim>\<open>softether_pack.c\<close>,
  \<^verbatim>\<open>softether_rudp.c\<close> and \<^verbatim>\<open>rudp_transport.c\<close> each write out by hand, and the
  interface every fixed-width wire field satisfies. The collections \<open>wire_simps\<close> and
  \<open>buf_simps\<close> carry the encoder/decoder proofs of the components.
\<close>

unbundle bit_operations_syntax

named_theorems wire_simps \<open>length and round-trip facts of the wire encodings\<close>
named_theorems buf_simps \<open>reading and writing byte buffers at an offset\<close>

section \<open>Types\<close>

type_synonym byte = "8 word"
type_synonym u16 = "16 word"
type_synonym u32 = "32 word"
type_synonym u64 = "64 word"
type_synonym bytes = "byte list"

text \<open>
  A C string is its bytes before the terminating NUL; \<open>lit\<close> reads a literal. Code that
  calls \<^verbatim>\<open>strlen\<close> sees \<open>length\<close>, under \<open>cstring\<close>.
\<close>

definition lit :: "string \<Rightarrow> bytes" where
  "lit s = map of_char s"

definition cstring :: "bytes \<Rightarrow> bool" where
  "cstring s \<longleftrightarrow> 0 \<notin> set s"

text \<open>The string a NUL-terminated buffer holds, as \<^verbatim>\<open>strcmp\<close> and \<^verbatim>\<open>strlen\<close> read it.\<close>

definition cstr_of :: "bytes \<Rightarrow> bytes" where
  "cstr_of b = takeWhile (\<lambda>c. c \<noteq> 0) b"

lemma cstr_of_cstring [simp]: "cstring s \<Longrightarrow> cstr_of s = s"
  by (auto simp: cstr_of_def cstring_def takeWhile_eq_all_conv)

lemma cstr_of_take: "cstring s \<Longrightarrow> cstr_of (take n s) = take n s"
  by (auto simp: cstr_of_def cstring_def takeWhile_eq_all_conv dest: in_set_takeD)

lemma cstring_cstr_of [simp]: "cstring (cstr_of b)"
  by (auto simp: cstr_of_def cstring_def dest: set_takeWhileD)

text \<open>Decimal digits, as \<^verbatim>\<open>%u\<close> prints them, and the lower-case digits of hexadecimal text.\<close>

fun decimal :: "nat \<Rightarrow> bytes" where
  "decimal n = (if n < 10 then [48 + word_of_nat n] else decimal (n div 10) @ [48 + word_of_nat (n mod 10)])"

declare decimal.simps [simp del]

definition hex_digit :: "byte \<Rightarrow> byte" where
  "hex_digit n = lit ''0123456789abcdef'' ! unat n"

text \<open>The value of a \<^verbatim>\<open>uint32_t\<close> expression computed over mathematical sizes.\<close>

definition u32n :: "nat \<Rightarrow> nat" where
  "u32n n = n mod 2 ^ 32"

lemma u32n_small [simp]: "n < 2 ^ 32 \<Longrightarrow> u32n n = n"
  by (simp add: u32n_def)

lemma u32n_less [simp]: "u32n n < 4294967296"
  by (simp add: u32n_def)

text \<open>
  What a C function that may fail ends in: its result, its error code (-1), or undefined
  behaviour because it left a buffer or overflowed a signed integer. That no operation ends
  in \<open>Fault\<close> is memory safety.
\<close>

datatype 'a outcome = Ret 'a | Fail | Fault

text \<open>
  The allocator: which request sizes succeed, and what the fresh bytes happen to hold.
  \<^verbatim>\<open>realloc\<close> keeps the old contents up to the new size.
\<close>

record heap_env =
  can_alloc :: "nat \<Rightarrow> bool"
  junk :: "nat \<Rightarrow> byte"

definition malloc :: "heap_env \<Rightarrow> nat \<Rightarrow> bytes option" where
  "malloc env n = (if can_alloc env n then Some (map (junk env) [0..<n]) else None)"

definition calloc :: "heap_env \<Rightarrow> nat \<Rightarrow> bytes option" where
  "calloc env n = (if can_alloc env n then Some (replicate n 0) else None)"

definition realloc :: "heap_env \<Rightarrow> bytes \<Rightarrow> nat \<Rightarrow> bytes option" where
  "realloc env b n = (if can_alloc env n
     then Some (take n b @ map (junk env) [0..<n - length b]) else None)"

lemma malloc_length [buf_simps]: "malloc env n = Some b \<Longrightarrow> length b = n"
  by (auto simp: malloc_def split: if_splits)

lemma calloc_length [buf_simps]: "calloc env n = Some b \<Longrightarrow> length b = n"
  by (auto simp: calloc_def split: if_splits)

lemma realloc_SomeD:
  assumes "realloc env b n = Some b'"
  shows "length b' = n" "length b \<le> n \<Longrightarrow> take (length b) b' = b"
  using assms by (auto simp: realloc_def split: if_splits)

section \<open>Big-endian integers\<close>

definition put_be16 :: "u16 \<Rightarrow> bytes" where
  "put_be16 v = [ucast (drop_bit 8 v), ucast v]"

definition put_be32 :: "u32 \<Rightarrow> bytes" where
  "put_be32 v = [ucast (drop_bit 24 v), ucast (drop_bit 16 v), ucast (drop_bit 8 v), ucast v]"

definition put_be64 :: "u64 \<Rightarrow> bytes" where
  "put_be64 v = [ucast (drop_bit 56 v), ucast (drop_bit 48 v), ucast (drop_bit 40 v),
     ucast (drop_bit 32 v), ucast (drop_bit 24 v), ucast (drop_bit 16 v),
     ucast (drop_bit 8 v), ucast v]"

fun get_be16 :: "bytes \<Rightarrow> u16" where
  "get_be16 (a # b # _) = push_bit 8 (ucast a) OR ucast b"
| "get_be16 _ = 0"

fun get_be32 :: "bytes \<Rightarrow> u32" where
  "get_be32 (a # b # c # d # _) =
     push_bit 24 (ucast a) OR push_bit 16 (ucast b) OR push_bit 8 (ucast c) OR ucast d"
| "get_be32 _ = 0"

fun get_be64 :: "bytes \<Rightarrow> u64" where
  "get_be64 (a # b # c # d # e # f # g # h # _) =
     push_bit 56 (ucast a) OR push_bit 48 (ucast b) OR push_bit 40 (ucast c) OR
     push_bit 32 (ucast d) OR push_bit 24 (ucast e) OR push_bit 16 (ucast f) OR
     push_bit 8 (ucast g) OR ucast h"
| "get_be64 _ = 0"

lemma length_put_be [simp]:
  "length (put_be16 u) = 2" "length (put_be32 v) = 4" "length (put_be64 w) = 8"
  by (simp_all add: put_be16_def put_be32_def put_be64_def)

lemma bit_byte_high: "bit (b :: byte) (k + n) \<longleftrightarrow> False" if "8 \<le> k"
  using that bit_imp_le_length [of b "k + n"] by auto

lemma bit_byte_ge: "8 \<le> n \<Longrightarrow> \<not> bit (b :: byte) n"
  using bit_imp_le_length [of b n] by auto

lemma get_put_be16 [simp]: "get_be16 (put_be16 v @ r) = v"
proof (rule bit_word_eqI)
  fix n assume "n < LENGTH(16)"
  then consider "n < 8" | "8 \<le> n" "n < 16" by (simp, linarith)
  then show "bit (get_be16 (put_be16 v @ r)) n = bit v n"
    by cases (auto simp: put_be16_def bit_simps bit_byte_ge)
qed

lemma get_put_be32 [simp]: "get_be32 (put_be32 v @ r) = v"
proof (rule bit_word_eqI)
  fix n assume "n < LENGTH(32)"
  then consider "n < 8" | "8 \<le> n" "n < 16" | "16 \<le> n" "n < 24" | "24 \<le> n" "n < 32"
    by (simp, linarith)
  then show "bit (get_be32 (put_be32 v @ r)) n = bit v n"
    by cases (simp_all add: put_be32_def bit_simps bit_byte_ge less_diff_conv2)
qed

lemma get_put_be64 [simp]: "get_be64 (put_be64 v @ r) = v"
proof (rule bit_word_eqI)
  fix n assume "n < LENGTH(64)"
  then consider "n < 8" | "8 \<le> n" "n < 16" | "16 \<le> n" "n < 24" | "24 \<le> n" "n < 32"
    | "32 \<le> n" "n < 40" | "40 \<le> n" "n < 48" | "48 \<le> n" "n < 56" | "56 \<le> n" "n < 64"
    by (simp, linarith)
  then show "bit (get_be64 (put_be64 v @ r)) n = bit v n"
    by cases (simp_all add: put_be64_def bit_simps bit_byte_ge less_diff_conv2)
qed

lemma put_get_be16: "2 \<le> length bs \<Longrightarrow> put_be16 (get_be16 bs) = take 2 bs"
  by (cases bs rule: get_be16.cases)
    (auto simp: put_be16_def intro!: bit_word_eqI simp: bit_simps bit_byte_high)

lemma put_get_be32: "4 \<le> length bs \<Longrightarrow> put_be32 (get_be32 bs) = take 4 bs"
  by (cases bs rule: get_be32.cases)
    (auto simp: put_be32_def intro!: bit_word_eqI simp: bit_simps bit_byte_high)

lemma put_get_be64: "8 \<le> length bs \<Longrightarrow> put_be64 (get_be64 bs) = take 8 bs"
  by (cases bs rule: get_be64.cases)
    (auto simp: put_be64_def intro!: bit_word_eqI simp: bit_simps bit_byte_high)

section \<open>The interface of a wire field\<close>

text \<open>
  A field of the wire formats occupies a fixed number of bytes, is read back as written
  whatever follows it, and every run of that many bytes is the encoding of what it is
  read as. Encodings are then injective and a parser that reads one field at a time
  cannot confuse two messages.
\<close>

locale wire_field =
  fixes width :: nat
    and enc :: "'v \<Rightarrow> bytes"
    and dec :: "bytes \<Rightarrow> 'v"
  assumes enc_length: "length (enc v) = width"
    and dec_enc: "dec (enc v @ r) = v"
    and enc_dec: "width \<le> length bs \<Longrightarrow> enc (dec bs) = take width bs"
begin

lemma dec_enc_alone: "dec (enc v) = v"
  using dec_enc [of v "[]"] by simp

lemma enc_append_inject: "enc v @ r = enc w @ s \<longleftrightarrow> v = w \<and> r = s"
proof
  assume eq: "enc v @ r = enc w @ s"
  then have "v = w" by (metis dec_enc)
  with eq show "v = w \<and> r = s" by simp
qed simp

lemma enc_inject: "enc v = enc w \<longleftrightarrow> v = w"
  using enc_append_inject [of v "[]" w "[]"] by simp

lemma dec_take: "width \<le> length bs \<Longrightarrow> dec (take width bs) = dec bs"
  by (metis dec_enc_alone enc_dec)

lemma split_field: "width \<le> length bs \<Longrightarrow> bs = enc (dec bs) @ drop width bs"
  by (simp add: enc_dec)

lemma drop_enc: "drop width (enc v @ r) = r"
  by (simp add: enc_length)

end

interpretation be16: wire_field 2 put_be16 get_be16
  by unfold_locales (simp_all add: put_get_be16)

interpretation be32: wire_field 4 put_be32 get_be32
  by unfold_locales (simp_all add: put_get_be32)

interpretation be64: wire_field 8 put_be64 get_be64
  by unfold_locales (simp_all add: put_get_be64)

lemmas be_alone [simp] = be16.dec_enc_alone be32.dec_enc_alone be64.dec_enc_alone
lemmas be_drop [simp] = be16.drop_enc be32.drop_enc be64.drop_enc

section \<open>Buffers\<close>

text \<open>
  A write of \<open>bs\<close> at offset \<open>off\<close> of a buffer, \<^verbatim>\<open>memcpy(buf + off, bs, n)\<close>:
  \<open>None\<close> when it leaves the buffer.
\<close>

definition write_at :: "bytes \<Rightarrow> nat \<Rightarrow> bytes \<Rightarrow> bytes option" where
  "write_at buf off bs =
     (if off + length bs \<le> length buf
      then Some (take off buf @ bs @ drop (off + length bs) buf) else None)"

text \<open>A read of \<open>n\<close> bytes at \<open>off\<close>: \<open>None\<close> when it leaves the buffer.\<close>

definition read_at :: "bytes \<Rightarrow> nat \<Rightarrow> nat \<Rightarrow> bytes option" where
  "read_at buf off n = (if off + n \<le> length buf then Some (take n (drop off buf)) else None)"

lemma write_at_SomeD [buf_simps]:
  "write_at buf off bs = Some buf' \<Longrightarrow> length buf' = length buf"
  by (auto simp: write_at_def split: if_splits)

lemma read_write_at [buf_simps]:
  "write_at buf off bs = Some buf' \<Longrightarrow> read_at buf' off (length bs) = Some bs"
  by (auto simp: write_at_def read_at_def split: if_splits)

lemma write_at_take:
  assumes "write_at buf off bs = Some buf'" and "n \<le> off"
  shows "take n buf' = take n buf"
proof -
  have "n \<le> length (take off buf)"
    using assms by (auto simp: write_at_def split: if_splits)
  with assms show ?thesis
    by (auto simp: write_at_def min_def split: if_splits)
qed

lemma take_eq_mono: "take m xs = take m ys \<Longrightarrow> n \<le> m \<Longrightarrow> take n xs = take n ys"
  by (metis min.absorb1 take_take)

text \<open>
  A write cursor: the buffer and the offset of \<^verbatim>\<open>*buf\<close>. \<open>emit\<close> writes and moves past what
  it wrote.
\<close>

type_synonym cursor = "bytes \<times> nat"

definition emit :: "bytes \<Rightarrow> cursor \<Rightarrow> cursor option" where
  "emit bs c = (case write_at (fst c) (snd c) bs of
     None \<Rightarrow> None | Some b \<Rightarrow> Some (b, snd c + length bs))"

text \<open>
  The writing discipline the serialisers follow, as a predicate: from any cursor with room
  for them, \<open>w\<close> writes exactly the bytes \<open>bs\<close>.
\<close>

definition writes :: "(cursor \<Rightarrow> cursor option) \<Rightarrow> bytes \<Rightarrow> bool" where
  "writes w bs \<longleftrightarrow> (\<forall>b off. off + length bs \<le> length b \<longrightarrow>
     w (b, off) = Some (take off b @ bs @ drop (off + length bs) b, off + length bs))"

lemma writes_emit: "writes (emit bs) bs"
  by (simp add: writes_def emit_def write_at_def)

lemma writes_comp:
  assumes "writes v xs" "writes w ys"
  shows "writes (\<lambda>c. Option.bind (v c) w) (xs @ ys)"
  unfolding writes_def
proof (intro allI impI)
  fix b :: bytes and off
  assume room: "off + length (xs @ ys) \<le> length b"
  let ?b = "take off b @ xs @ drop (off + length xs) b"
  have "length ?b = length b" using room by simp
  with room have "w (?b, off + length xs) = Some (take (off + length xs) ?b @ ys @
      drop (off + length xs + length ys) ?b, off + length xs + length ys)"
    using assms(2) by (simp add: writes_def)
  with room show "Option.bind (v (b, off)) w = Some (take off b @ (xs @ ys) @
      drop (off + length (xs @ ys)) b, off + length (xs @ ys))"
    using assms(1) by (simp add: writes_def add.assoc ac_simps)
qed

lemma writesD:
  "writes w bs \<Longrightarrow> off + length bs \<le> length b \<Longrightarrow>
   w (b, off) = Some (take off b @ bs @ drop (off + length bs) b, off + length bs)"
  by (simp add: writes_def)

section \<open>Lists\<close>

lemma drop_drop_length: "n \<le> length xs \<Longrightarrow> length (drop n xs) = length xs - n"
  by simp

lemma takeWhile_app_neq: "x \<notin> set xs \<Longrightarrow> takeWhile (\<lambda>c. c \<noteq> x) (xs @ x # ys) = xs"
  by (induction xs) auto

section \<open>The interface of a running system\<close>

text \<open>
  The stateful components are step relations: every operation, and every event of the
  network and of other threads, is one step. A property that each step keeps holds after
  every sequence of them.
\<close>

locale step_invariant =
  fixes step :: "'s \<Rightarrow> 's \<Rightarrow> bool"
    and good :: "'s \<Rightarrow> bool"
  assumes step_keeps: "step s s' \<Longrightarrow> good s \<Longrightarrow> good s'"
begin

lemma run_keeps: "step\<^sup>*\<^sup>* s s' \<Longrightarrow> good s \<Longrightarrow> good s'"
  by (induction rule: rtranclp_induct) (auto intro: step_keeps)

end

end
