(* ===== verification/Ring_Queue.thy ===== *)
theory Ring_Queue
  imports Prelude
begin

text \<open>
  The frame queues. \<^verbatim>\<open>softether_connection_t\<close> keeps decoded Ethernet frames in
  \<^verbatim>\<open>recv_queue[64]\<close>, \<^verbatim>\<open>rudp_context_t\<close> keeps decoded blocks in \<^verbatim>\<open>recv_queue[256]\<close>;
  both are a slot array with a read index, a write index and a count, updated by the
  same three statements at every use. A slot is modelled by the bytes it holds
  (\<^verbatim>\<open>data[0..len)\<close>: no reader looks past \<^verbatim>\<open>len\<close>). The interface \<open>bounded_queue\<close> is what
  the code above the queues relies on; both queues are interpretations of it.
\<close>

section \<open>The slot array\<close>

record 'a ring =
  slots :: "'a list"
  rhead :: nat
  rtail :: nat
  rcount :: nat

text \<open>All slots and indices zeroed by \<^verbatim>\<open>calloc\<close>.\<close>

definition ring_new :: "nat \<Rightarrow> 'a \<Rightarrow> 'a ring" where
  "ring_new N x = \<lparr>slots = replicate N x, rhead = 0, rtail = 0, rcount = 0\<rparr>"

definition ring_enq :: "nat \<Rightarrow> 'a \<Rightarrow> 'a ring \<Rightarrow> 'a ring" where
  "ring_enq N x r = r\<lparr>slots := (slots r)[rtail r := x],
     rtail := (rtail r + 1) mod N, rcount := rcount r + 1\<rparr>"

definition ring_front :: "'a ring \<Rightarrow> 'a" where
  "ring_front r = slots r ! rhead r"

definition ring_deq :: "nat \<Rightarrow> 'a ring \<Rightarrow> 'a ring" where
  "ring_deq N r = r\<lparr>rhead := (rhead r + 1) mod N, rcount := rcount r - 1\<rparr>"

definition ring_inv :: "nat \<Rightarrow> 'a ring \<Rightarrow> bool" where
  "ring_inv N r \<longleftrightarrow> 0 < N \<and> length (slots r) = N \<and> rhead r < N \<and> rcount r \<le> N \<and>
     rtail r = (rhead r + rcount r) mod N"

definition ring_contents :: "'a ring \<Rightarrow> 'a list" where
  "ring_contents r = map (\<lambda>i. slots r ! ((rhead r + i) mod length (slots r))) [0..<rcount r]"

lemma ring_contents_length [simp]: "length (ring_contents r) = rcount r"
  by (simp add: ring_contents_def)

lemma ring_inv_new: "0 < N \<Longrightarrow> ring_inv N (ring_new N x)"
  by (simp add: ring_inv_def ring_new_def)

lemma ring_contents_new [simp]: "ring_contents (ring_new N x) = []"
  by (simp add: ring_contents_def ring_new_def)

text \<open>The write index never meets a live slot: distinct offsets below \<open>N\<close> stay distinct.\<close>

lemma mod_offset_inject:
  assumes "i < N" "j < N" "(h + i) mod N = (h + j) mod N"
  shows "i = (j::nat)"
proof -
  have *: "a = b" if "a \<le> b" "b < N" "(h + a) mod N = (h + b) mod N" for a b
  proof -
    have "N dvd (h + b) - (h + a)"
      using that by (metis mod_eq_dvd_iff_nat nat_add_left_cancel_le)
    then have "N dvd b - a" by simp
    with that(2) show ?thesis
      using that(1) by (metis diff_is_0_eq' diff_le_self dvd_imp_le le_antisym le_trans
          not_le zero_less_diff)
  qed
  show ?thesis
    using *[of i j] *[of j i] assms by (cases "i \<le> j") auto
qed

lemma ring_enq_contents:
  assumes inv: "ring_inv N r" and room: "rcount r < N"
  shows "ring_contents (ring_enq N x r) = ring_contents r @ [x]"
proof (rule nth_equalityI)
  show "length (ring_contents (ring_enq N x r)) = length (ring_contents r @ [x])"
    by (simp add: ring_enq_def)
next
  fix i assume "i < length (ring_contents (ring_enq N x r))"
  then have i: "i < Suc (rcount r)" by (simp add: ring_enq_def)
  from inv have N: "0 < N" "length (slots r) = N" "rtail r = (rhead r + rcount r) mod N"
    by (auto simp: ring_inv_def)
  then have tl: "rtail r < N" by simp
  show "ring_contents (ring_enq N x r) ! i = (ring_contents r @ [x]) ! i"
  proof (cases "i = rcount r")
    case True
    with i N tl show ?thesis
      by (simp add: ring_contents_def ring_enq_def nth_append del: upt_Suc)
  next
    case False
    with i have lt: "i < rcount r" by simp
    then have "(rhead r + i) mod N \<noteq> rtail r"
      using mod_offset_inject [of i N "rcount r" "rhead r"] N room by auto
    with lt i N show ?thesis
      by (simp add: ring_contents_def ring_enq_def nth_append del: upt_Suc)
  qed
qed

lemma ring_enq_inv: "ring_inv N r \<Longrightarrow> rcount r < N \<Longrightarrow> ring_inv N (ring_enq N x r)"
  by (auto simp: ring_inv_def ring_enq_def mod_Suc_eq)

lemma ring_deq_inv:
  assumes "ring_inv N r" and "0 < rcount r"
  shows "ring_inv N (ring_deq N r)"
proof -
  have "((rhead r + 1) mod N + (rcount r - 1)) mod N = (rhead r + 1 + (rcount r - 1)) mod N"
    by (rule mod_add_left_eq)
  with assms show ?thesis by (auto simp: ring_inv_def ring_deq_def)
qed

lemma ring_deq_contents:
  assumes inv: "ring_inv N r" and ne: "0 < rcount r"
  shows "ring_contents r = ring_front r # ring_contents (ring_deq N r)"
proof (rule nth_equalityI)
  show "length (ring_contents r) = length (ring_front r # ring_contents (ring_deq N r))"
    using ne by (simp add: ring_deq_def)
next
  fix i assume "i < length (ring_contents r)"
  then have i: "i < rcount r" by simp
  from inv have N: "0 < N" "length (slots r) = N" "rhead r < N" by (auto simp: ring_inv_def)
  show "ring_contents r ! i = (ring_front r # ring_contents (ring_deq N r)) ! i"
  proof (cases i)
    case 0
    with i N show ?thesis by (simp add: ring_contents_def ring_front_def)
  next
    case (Suc k)
    have "((rhead r + 1) mod N + k) mod N = (rhead r + 1 + k) mod N"
      by (rule mod_add_left_eq)
    with i N Suc show ?thesis by (simp add: ring_contents_def ring_deq_def)
  qed
qed

section \<open>The interface of a bounded queue\<close>

locale bounded_queue =
  fixes capacity :: nat
    and inv :: "'q \<Rightarrow> bool"
    and contents :: "'q \<Rightarrow> 'a list"
    and count :: "'q \<Rightarrow> nat"
    and enq :: "'a \<Rightarrow> 'q \<Rightarrow> 'q"
    and front :: "'q \<Rightarrow> 'a"
    and deq :: "'q \<Rightarrow> 'q"
  assumes count_contents: "inv q \<Longrightarrow> count q = length (contents q)"
    and count_le: "inv q \<Longrightarrow> count q \<le> capacity"
    and enq_contents: "inv q \<Longrightarrow> count q < capacity \<Longrightarrow> contents (enq x q) = contents q @ [x]"
    and enq_inv: "inv q \<Longrightarrow> count q < capacity \<Longrightarrow> inv (enq x q)"
    and front_deq: "inv q \<Longrightarrow> 0 < count q \<Longrightarrow> contents q = front q # contents (deq q)"
    and deq_inv: "inv q \<Longrightarrow> 0 < count q \<Longrightarrow> inv (deq q)"
begin

lemma deq_contents: "inv q \<Longrightarrow> 0 < count q \<Longrightarrow> contents (deq q) = tl (contents q)"
  by (metis front_deq list.sel(3))

lemma front_contents: "inv q \<Longrightarrow> 0 < count q \<Longrightarrow> front q = hd (contents q)"
  by (metis front_deq list.sel(1))

lemma deq_count: "inv q \<Longrightarrow> 0 < count q \<Longrightarrow> count (deq q) = count q - 1"
  by (metis count_contents deq_contents deq_inv length_tl)

lemma enq_count: "inv q \<Longrightarrow> count q < capacity \<Longrightarrow> count (enq x q) = count q + 1"
  by (simp add: count_contents enq_contents enq_inv)

lemma empty_iff: "inv q \<Longrightarrow> count q = 0 \<longleftrightarrow> contents q = []"
  by (simp add: count_contents)

text \<open>Bulk insertion while there is room keeps the order of arrival.\<close>

lemma enq_fold:
  "inv q \<Longrightarrow> count q + length xs \<le> capacity \<Longrightarrow>
   inv (fold enq xs q) \<and> contents (fold enq xs q) = contents q @ xs"
proof (induction xs arbitrary: q)
  case Nil
  then show ?case by simp
next
  case (Cons x xs)
  then have "inv (enq x q)" and "count (enq x q) + length xs \<le> capacity"
    by (auto simp: enq_inv enq_count)
  with Cons show ?case by (simp add: enq_contents)
qed

end

lemma ring_count_le: "ring_inv N r \<Longrightarrow> rcount r \<le> N"
  by (simp add: ring_inv_def)

lemma ring_is_bounded_queue:
  "bounded_queue N (ring_inv N) ring_contents rcount (ring_enq N) ring_front (ring_deq N)"
  by unfold_locales
    (simp_all add: ring_enq_contents ring_enq_inv ring_deq_inv ring_deq_contents [symmetric]
      ring_count_le)

interpretation conn_q: bounded_queue 64 "ring_inv 64" ring_contents rcount
  "ring_enq 64" ring_front "ring_deq 64"
  by (rule ring_is_bounded_queue)

interpretation rudp_q: bounded_queue 256 "ring_inv 256" ring_contents rcount
  "ring_enq 256" ring_front "ring_deq 256"
  by (rule ring_is_bounded_queue)

end
