(* ===== verification/Byte_Fifo.thy ===== *)
theory Byte_Fifo
  imports Prelude
begin

text \<open>
  The byte FIFO of the R-UDP transport (\<^verbatim>\<open>rt_fifo_t\<close> of \<^verbatim>\<open>rudp_transport.c\<close>): a ring
  buffer of \<^verbatim>\<open>cap\<close> bytes written and read in runs that may wrap round the end of the
  buffer. Index arithmetic is \<^verbatim>\<open>uint32_t\<close> arithmetic. The interface \<open>byte_stream\<close> says
  what the pumps of the transport rely on: the FIFO is a queue of bytes.
\<close>

record rt_fifo_t =
  fbuf :: bytes
  fcap :: nat
  fhead :: nat
  fsize :: nat

text \<open>\<open>mem\<close> is what \<^verbatim>\<open>malloc(cap)\<close> returned: \<open>None\<close> when it failed.\<close>

definition rt_fifo_init :: "bytes option \<Rightarrow> nat \<Rightarrow> rt_fifo_t" where
  "rt_fifo_init mem cap = (case mem of
     None \<Rightarrow> \<lparr>fbuf = [], fcap = 0, fhead = 0, fsize = 0\<rparr>
   | Some b \<Rightarrow> \<lparr>fbuf = b, fcap = cap, fhead = 0, fsize = 0\<rparr>)"

definition rt_fifo_free :: "rt_fifo_t \<Rightarrow> rt_fifo_t" where
  "rt_fifo_free f = \<lparr>fbuf = [], fcap = 0, fhead = 0, fsize = 0\<rparr>"

definition rt_fifo_avail :: "rt_fifo_t \<Rightarrow> nat" where
  "rt_fifo_avail f = fcap f - fsize f"

text \<open>The two \<^verbatim>\<open>memcpy\<close> calls of a write at offset \<open>off\<close> of a buffer of \<open>cap\<close> bytes.\<close>

definition wrap_copy :: "nat \<Rightarrow> bytes \<Rightarrow> nat \<Rightarrow> bytes \<Rightarrow> bytes" where
  "wrap_copy cap b off data = (let len = length data;
       n1 = (if cap - off > len then len else cap - off);
       b1 = take off b @ take n1 data @ drop (off + n1) b
     in if len > n1 then drop n1 data @ drop (len - n1) b1 else b1)"

text \<open>\<open>None\<close> is the return value -1, which leaves the FIFO unchanged.\<close>

definition rt_fifo_write :: "rt_fifo_t \<Rightarrow> bytes \<Rightarrow> rt_fifo_t option" where
  "rt_fifo_write f data = (let len = length data in
     if len > rt_fifo_avail f then None
     else let off = u32n (fhead f + fsize f) mod fcap f
          in Some (f\<lparr>fbuf := wrap_copy (fcap f) (fbuf f) off data, fsize := fsize f + len\<rparr>))"

definition rt_fifo_peek :: "rt_fifo_t \<Rightarrow> nat \<Rightarrow> bytes" where
  "rt_fifo_peek f len0 = (let len = min len0 (fsize f);
       n1 = min (fcap f - fhead f) len;
       d1 = take n1 (drop (fhead f) (fbuf f))
     in if len > n1 then d1 @ take (len - n1) (fbuf f) else d1)"

definition rt_fifo_advance :: "rt_fifo_t \<Rightarrow> nat \<Rightarrow> rt_fifo_t" where
  "rt_fifo_advance f len0 = (let len = min len0 (fsize f)
     in f\<lparr>fhead := u32n (fhead f + len) mod fcap f, fsize := fsize f - len\<rparr>)"

text \<open>
  The transport only uses FIFOs of \<^verbatim>\<open>RUDP_T_MAX_FIFO_SIZE\<close> bytes; the invariant asks for
  no more than what makes the \<^verbatim>\<open>uint32_t\<close> index sums exact.
\<close>

definition fifo_inv :: "rt_fifo_t \<Rightarrow> bool" where
  "fifo_inv f \<longleftrightarrow> 0 < fcap f \<and> fcap f \<le> 2 ^ 31 \<and> length (fbuf f) = fcap f \<and>
     fhead f < fcap f \<and> fsize f \<le> fcap f"

definition fifo_bytes :: "rt_fifo_t \<Rightarrow> bytes" where
  "fifo_bytes f = map (\<lambda>i. fbuf f ! ((fhead f + i) mod fcap f)) [0..<fsize f]"

lemma fifo_bytes_length [simp]: "length (fifo_bytes f) = fsize f"
  by (simp add: fifo_bytes_def)

lemma fifo_index_exact:
  "fifo_inv f \<Longrightarrow> n \<le> fsize f \<Longrightarrow> u32n (fhead f + n) = fhead f + n"
  by (simp add: fifo_inv_def)

lemma mod_once: "(a::nat) < 2 * n \<Longrightarrow> a mod n = (if a < n then a else a - n)"
  by (auto simp: le_mod_geq)

lemma wrap_copy_length:
  "off < length b \<Longrightarrow> length data \<le> length b \<Longrightarrow> length (wrap_copy (length b) b off data) = length b"
  by (auto simp: wrap_copy_def Let_def)

lemma wrap_copy_nth:
  assumes "off < length b" "length data \<le> length b" "j < length b"
    and n1: "n1 = min (length b - off) (length data)"
  shows "wrap_copy (length b) b off data ! j =
     (if off \<le> j \<and> j < off + n1 then data ! (j - off)
      else if j < length data - n1 then data ! (n1 + j) else b ! j)"
proof -
  have n1': "(if length b - off > length data then length data else length b - off) = n1"
    using n1 by auto
  define b1 where "b1 = take off b @ take n1 data @ drop (off + n1) b"
  have l1: "length b1 = length b" using assms by (simp add: b1_def)
  have b1: "b1 ! j = (if off \<le> j \<and> j < off + n1 then data ! (j - off) else b ! j)"
    using assms by (auto simp: b1_def nth_append min_def)
  show ?thesis
  proof (cases "length data > n1")
    case True
    then have "n1 = length b - off" using n1 by auto
    with True assms(1-3) l1 b1 show ?thesis
      unfolding wrap_copy_def Let_def n1' b1_def [symmetric] by (auto simp: nth_append)
  next
    case False
    with b1 assms(3) l1 show ?thesis
      unfolding wrap_copy_def Let_def n1' b1_def [symmetric] by simp
  qed
qed

lemma rt_fifo_write_SomeD:
  assumes "fifo_inv f" "rt_fifo_write f data = Some f'"
  shows "length data \<le> fcap f - fsize f \<and> fsize f' = fsize f + length data \<and>
     fhead f' = fhead f \<and> fcap f' = fcap f \<and>
     fbuf f' = wrap_copy (fcap f) (fbuf f) ((fhead f + fsize f) mod fcap f) data"
  using assms fifo_index_exact [OF assms(1), of "fsize f"]
  by (auto simp: rt_fifo_write_def rt_fifo_avail_def Let_def split: if_splits)

lemma rt_fifo_write_inv:
  assumes inv: "fifo_inv f" and w: "rt_fifo_write f data = Some f'"
  shows "fifo_inv f'"
proof -
  note f' = rt_fifo_write_SomeD [OF inv w]
  then have "length data \<le> length (fbuf f)" using inv by (auto simp: fifo_inv_def)
  then have "length (fbuf f') = length (fbuf f)"
    using f' inv wrap_copy_length [of "(fhead f + fsize f) mod fcap f" "fbuf f" data]
    by (simp add: fifo_inv_def)
  with f' inv show ?thesis by (auto simp: fifo_inv_def)
qed

lemma rt_fifo_write_bytes:
  assumes inv: "fifo_inv f" and w: "rt_fifo_write f data = Some f'"
  shows "fifo_bytes f' = fifo_bytes f @ data"
proof -
  let ?N = "fcap f" and ?h = "fhead f" and ?s = "fsize f"
  let ?off = "(?h + ?s) mod ?N"
  let ?n1 = "min (?N - ?off) (length data)"
  note f' = rt_fifo_write_SomeD [OF inv w]
  then have len: "length data \<le> ?N - ?s" and sz: "fsize f' = ?s + length data"
    and hd: "fhead f' = ?h" and cp: "fcap f' = ?N" by simp_all
  from inv have N: "0 < ?N" "length (fbuf f) = ?N" "?h < ?N" "?s \<le> ?N"
    by (auto simp: fifo_inv_def)
  have off: "?off < length (fbuf f)" using N by simp
  have buf: "fbuf f' ! j = (if ?off \<le> j \<and> j < ?off + ?n1 then data ! (j - ?off)
      else if j < length data - ?n1 then data ! (?n1 + j) else fbuf f ! j)" if "j < ?N" for j
  proof -
    have "length data \<le> length (fbuf f)" "j < length (fbuf f)" "?n1 = min (length (fbuf f) - ?off) (length data)"
      using len N that by auto
    from wrap_copy_nth [OF off this] f' N show ?thesis by (simp only: )
  qed
  show ?thesis
  proof (rule nth_equalityI)
    show "length (fifo_bytes f') = length (fifo_bytes f @ data)" using sz by simp
  next
    fix i assume "i < length (fifo_bytes f')"
    then have i: "i < ?s + length data" using sz by simp
    let ?j = "(?h + i) mod ?N"
    have j: "?j < ?N" using N by simp
    have lhs: "fifo_bytes f' ! i = fbuf f' ! ?j"
      using i sz hd cp by (simp add: fifo_bytes_def)
    have js: "?j = (if ?h + i < ?N then ?h + i else ?h + i - ?N)"
      using mod_once [of "?h + i" ?N] i len N by linarith
    have os: "?off = (if ?h + ?s < ?N then ?h + ?s else ?h + ?s - ?N)"
      using mod_once [of "?h + ?s" ?N] N by linarith
    show "fifo_bytes f' ! i = (fifo_bytes f @ data) ! i"
    proof (cases "i < ?s")
      case True
      then have "\<not> (?off \<le> ?j \<and> ?j < ?off + ?n1)" "\<not> ?j < length data - ?n1"
        using js os len N by (auto split: if_splits)
      with lhs buf [OF j] True show ?thesis by (simp add: fifo_bytes_def nth_append)
    next
      case False
      have "fbuf f' ! ?j = data ! (i - ?s)"
      proof (cases "?off \<le> ?j \<and> ?j < ?off + ?n1")
        case True
        then have "?j - ?off = i - ?s"
          using js os len N False i by (auto split: if_splits)
        with buf [OF j] True show ?thesis by simp
      next
        case out: False
        have "?j < length data - ?n1" "?n1 + ?j = i - ?s"
          using out js os len N False i by (auto simp: min_def split: if_splits)
        with buf [OF j] out show ?thesis by (simp only: if_True if_False)
      qed
      with lhs False show ?thesis by (simp add: nth_append)
    qed
  qed
qed

lemma rt_fifo_peek_bytes:
  assumes inv: "fifo_inv f"
  shows "rt_fifo_peek f n = take n (fifo_bytes f)"
proof (rule nth_equalityI)
  from inv have N: "0 < fcap f" "length (fbuf f) = fcap f" "fhead f < fcap f" "fsize f \<le> fcap f"
    by (auto simp: fifo_inv_def)
  show len: "length (rt_fifo_peek f n) = length (take n (fifo_bytes f))"
    using N by (auto simp: rt_fifo_peek_def Let_def)
  fix i assume "i < length (rt_fifo_peek f n)"
  then have i: "i < n" "i < fsize f" using len by auto
  have "(fhead f + i) mod fcap f = (if fhead f + i < fcap f then fhead f + i else fhead f + i - fcap f)"
    using mod_once [of "fhead f + i" "fcap f"] i N by linarith
  with i N show "rt_fifo_peek f n ! i = take n (fifo_bytes f) ! i"
    by (auto simp: rt_fifo_peek_def Let_def fifo_bytes_def nth_append min_def add.commute)
qed

lemma rt_fifo_advance_inv: "fifo_inv f \<Longrightarrow> fifo_inv (rt_fifo_advance f n)"
  by (auto simp: fifo_inv_def rt_fifo_advance_def Let_def)

lemma rt_fifo_advance_bytes:
  assumes inv: "fifo_inv f"
  shows "fifo_bytes (rt_fifo_advance f n) = drop n (fifo_bytes f)"
proof (rule nth_equalityI)
  show "length (fifo_bytes (rt_fifo_advance f n)) = length (drop n (fifo_bytes f))"
    by (simp add: rt_fifo_advance_def Let_def)
next
  fix i assume "i < length (fifo_bytes (rt_fifo_advance f n))"
  then have i: "n < fsize f" "i < fsize f - n"
    by (auto simp: rt_fifo_advance_def Let_def)
  have "((fhead f + n) mod fcap f + i) mod fcap f = (fhead f + n + i) mod fcap f"
    by (rule mod_add_left_eq)
  with i fifo_index_exact [OF inv, of n]
  show "fifo_bytes (rt_fifo_advance f n) ! i = drop n (fifo_bytes f) ! i"
    by (auto simp: rt_fifo_advance_def Let_def fifo_bytes_def add.assoc min_def)
qed

section \<open>The interface the pumps rely on\<close>

locale byte_stream =
  fixes sinv :: "'f \<Rightarrow> bool"
    and sbytes :: "'f \<Rightarrow> bytes"
    and room :: "'f \<Rightarrow> nat"
    and swrite :: "'f \<Rightarrow> bytes \<Rightarrow> 'f option"
    and speek :: "'f \<Rightarrow> nat \<Rightarrow> bytes"
    and sadvance :: "'f \<Rightarrow> nat \<Rightarrow> 'f"
  assumes write_ok: "sinv f \<Longrightarrow> length d \<le> room f \<Longrightarrow>
      \<exists>f'. swrite f d = Some f' \<and> sinv f' \<and> sbytes f' = sbytes f @ d"
    and write_full: "room f < length d \<Longrightarrow> swrite f d = None"
    and peek_ok: "sinv f \<Longrightarrow> speek f n = take n (sbytes f)"
    and advance_inv: "sinv f \<Longrightarrow> sinv (sadvance f n)"
    and advance_ok: "sinv f \<Longrightarrow> sbytes (sadvance f n) = drop n (sbytes f)"
begin

lemma write_SomeD:
  assumes "sinv f" "swrite f d = Some f'"
  shows "sinv f' \<and> sbytes f' = sbytes f @ d"
  using assms write_ok [of f d] write_full [of f d] by (cases "length d \<le> room f") auto

text \<open>Taking bytes off the front and forwarding them loses and reorders nothing.\<close>

lemma peek_advance: "sinv f \<Longrightarrow> speek f n @ sbytes (sadvance f n) = sbytes f"
  by (simp add: peek_ok advance_ok)

text \<open>Whatever is written behind the bytes already queued comes out behind them.\<close>

lemma write_then_read:
  assumes "sinv f" "swrite f d = Some f'"
  shows "speek (sadvance f' (length (sbytes f))) (length d) = d"
  using write_SomeD [OF assms] by (simp add: peek_ok advance_inv advance_ok)

end

lemma rt_fifo_write_room:
  "length d \<le> rt_fifo_avail f \<Longrightarrow> \<exists>f'. rt_fifo_write f d = Some f'"
  by (simp add: rt_fifo_write_def Let_def)

interpretation fifo: byte_stream fifo_inv fifo_bytes rt_fifo_avail
  rt_fifo_write rt_fifo_peek rt_fifo_advance
proof unfold_locales
  fix f and d :: bytes assume inv: "fifo_inv f" and len: "length d \<le> rt_fifo_avail f"
  then obtain f' where "rt_fifo_write f d = Some f'"
    using rt_fifo_write_room by blast
  then show "\<exists>f'. rt_fifo_write f d = Some f' \<and> fifo_inv f' \<and> fifo_bytes f' = fifo_bytes f @ d"
    using rt_fifo_write_inv [OF inv] rt_fifo_write_bytes [OF inv] by blast
next
  fix f and d :: bytes assume "rt_fifo_avail f < length d"
  then show "rt_fifo_write f d = None" by (simp add: rt_fifo_write_def Let_def)
qed (simp_all add: rt_fifo_peek_bytes rt_fifo_advance_inv rt_fifo_advance_bytes)

lemma fifo_inv_init: "length b = cap \<Longrightarrow> 0 < cap \<Longrightarrow> cap \<le> 2 ^ 31 \<Longrightarrow> fifo_inv (rt_fifo_init (Some b) cap)"
  by (simp add: fifo_inv_def rt_fifo_init_def)

lemma fifo_bytes_init [simp]: "fifo_bytes (rt_fifo_init mem cap) = []"
  by (cases mem) (simp_all add: fifo_bytes_def rt_fifo_init_def)

end
