(* ===== verification/Crypto.thy ===== *)
theory Crypto
  imports Prelude
begin

text \<open>
  The two primitives \<^verbatim>\<open>aes_wrapper.c\<close> implements itself: the RC4 stream cipher
  (\<^verbatim>\<open>rc4_crypt\<close>, kept native because OpenSSL 3 hides RC4 behind the legacy provider) and
  SHA-0 (\<^verbatim>\<open>sha0_hash\<close>, the hash of the SoftEther password chain). Everything else of that
  file calls OpenSSL: its digests and the AEAD are parameters of the theories that use
  them. The interface \<open>stream_cipher\<close> is what the datagram formats rely on.
\<close>

section \<open>RC4\<close>

definition swap :: "nat \<Rightarrow> nat \<Rightarrow> bytes \<Rightarrow> bytes" where
  "swap i j s = s[i := s ! j, j := s ! i]"

definition rc4_sbox0 :: bytes where
  "rc4_sbox0 = map word_of_nat [0..<256]"

text \<open>One step of the key schedule: the loop variable \<open>i\<close>, the box and \<open>j\<close>.\<close>

definition rc4_ksa_step :: "bytes \<Rightarrow> nat \<Rightarrow> bytes \<times> nat \<Rightarrow> bytes \<times> nat" where
  "rc4_ksa_step key i = (\<lambda>(s, j).
     let j' = (j + unat (s ! i) + unat (key ! (i mod length key))) mod 256
     in (swap i j' s, j'))"

definition rc4_ksa :: "bytes \<Rightarrow> bytes" where
  "rc4_ksa key = fst (fold (rc4_ksa_step key) [0..<256] (rc4_sbox0, 0))"

fun rc4_stream :: "bytes \<Rightarrow> nat \<Rightarrow> nat \<Rightarrow> bytes \<Rightarrow> bytes" where
  "rc4_stream s i j [] = []"
| "rc4_stream s i j (d # ds) =
     (let i' = (i + 1) mod 256;
          j' = (j + unat (s ! i')) mod 256;
          s' = swap i' j' s
      in (d XOR s' ! ((unat (s' ! i') + unat (s' ! j')) mod 256)) # rc4_stream s' i' j' ds)"

definition rc4_crypt :: "bytes \<Rightarrow> bytes \<Rightarrow> bytes" where
  "rc4_crypt key data = (if key = [] then data else rc4_stream (rc4_ksa key) 0 0 data)"

lemma rc4_stream_length [simp]: "length (rc4_stream s i j ds) = length ds"
  by (induction s i j ds rule: rc4_stream.induct) (simp_all add: Let_def)

lemma rc4_crypt_length [simp]: "length (rc4_crypt k d) = length d"
  by (simp add: rc4_crypt_def)

lemma rc4_stream_involutive: "rc4_stream s i j (rc4_stream s i j ds) = ds"
  by (induction s i j ds rule: rc4_stream.induct) (simp_all add: Let_def xor.assoc)

text \<open>The key stream does not depend on the data, so a prefix encrypts to a prefix.\<close>

lemma rc4_stream_take: "rc4_stream s i j (take n ds) = take n (rc4_stream s i j ds)"
proof (induction s i j ds arbitrary: n rule: rc4_stream.induct)
  case (2 s i j d ds)
  then show ?case by (cases n) (simp_all add: Let_def)
qed simp

section \<open>The box stays a permutation\<close>

text \<open>
  Every index the cipher forms is below 256 and the box always holds each byte once:
  no access leaves \<^verbatim>\<open>sbox[256]\<close>.
\<close>

definition sbox_ok :: "bytes \<Rightarrow> bool" where
  "sbox_ok s \<longleftrightarrow> length s = 256 \<and> distinct s"

lemma swap_length [simp]: "length (swap i j s) = length s"
  by (simp add: swap_def)

lemma sbox_ok_swap: "sbox_ok s \<Longrightarrow> i < 256 \<Longrightarrow> j < 256 \<Longrightarrow> sbox_ok (swap i j s)"
  by (simp add: sbox_ok_def swap_def distinct_swap)

lemma sbox_ok_initial: "sbox_ok rc4_sbox0"
proof -
  have "inj_on (word_of_nat :: nat \<Rightarrow> byte) {0..<256}"
    by (rule inj_onI) (auto simp: word_of_nat_eq_iff take_bit_nat_eq_self)
  then show ?thesis
    by (simp add: sbox_ok_def rc4_sbox0_def distinct_map)
qed

lemma rc4_ksa_step_ok:
  "sbox_ok (fst st) \<Longrightarrow> i < 256 \<Longrightarrow> sbox_ok (fst (rc4_ksa_step key i st))"
  by (cases st) (simp add: rc4_ksa_step_def Let_def sbox_ok_swap)

lemma rc4_ksa_fold_ok:
  "sbox_ok (fst st) \<Longrightarrow> \<forall>i \<in> set is. i < 256 \<Longrightarrow> sbox_ok (fst (fold (rc4_ksa_step key) is st))"
proof (induction "is" arbitrary: st)
  case (Cons i "is")
  then show ?case using rc4_ksa_step_ok by simp
qed simp

lemma rc4_ksa_ok: "sbox_ok (rc4_ksa key)"
  unfolding rc4_ksa_def by (rule rc4_ksa_fold_ok) (simp_all add: sbox_ok_initial)

section \<open>The interface of a stream cipher\<close>

locale stream_cipher =
  fixes crypt :: "bytes \<Rightarrow> bytes \<Rightarrow> bytes"
  assumes crypt_involutive: "crypt k (crypt k d) = d"
    and crypt_length: "length (crypt k d) = length d"
begin

text \<open>
  A datagram carries a clear prefix (the IV, or signature and IV) and the encrypted rest:
  whoever derives the same key from the prefix gets the rest back.
\<close>

lemma open_sealed:
  "length pre = n \<Longrightarrow> crypt k (drop n (pre @ crypt k d)) = d"
  by (simp add: crypt_involutive)

lemma crypt_inject: "crypt k d = crypt k e \<longleftrightarrow> d = e"
  by (metis crypt_involutive)

end

lemma rc4_crypt_involutive: "rc4_crypt k (rc4_crypt k d) = d"
  by (simp add: rc4_crypt_def rc4_stream_involutive)

interpretation rc4: stream_cipher rc4_crypt
  by unfold_locales (simp_all add: rc4_crypt_involutive)

section \<open>SHA-0\<close>

definition sha0_padded :: "nat \<Rightarrow> nat" where
  "sha0_padded mlen = ((mlen + 8) div 64 + 1) * 64"

text \<open>\<^verbatim>\<open>calloc\<close>, \<^verbatim>\<open>memcpy\<close>, the 0x80 byte, and the bit count written backwards from the end.\<close>

definition sha0_buf :: "bytes \<Rightarrow> bytes" where
  "sha0_buf data = (let mlen = length data; padded = sha0_padded mlen;
       b0 = data @ replicate (padded - mlen) 0;
       b1 = b0[mlen := 0x80];
       bits = (word_of_nat mlen * 8 :: u64)
     in fold (\<lambda>i b. b[padded - 1 - i := ucast (drop_bit (8 * i) bits)]) [0..<8] b1)"

definition sha0_w16 :: "bytes \<Rightarrow> u32 list" where
  "sha0_w16 blk = map (\<lambda>i. get_be32 (drop (4 * i) blk)) [0..<16]"

text \<open>The message schedule without SHA-1's rotation.\<close>

definition sha0_schedule :: "bytes \<Rightarrow> u32 list" where
  "sha0_schedule blk = fold (\<lambda>i w. w @ [w ! (i - 3) XOR w ! (i - 8) XOR w ! (i - 14) XOR w ! (i - 16)])
     [16..<80] (sha0_w16 blk)"

definition rotl32 :: "nat \<Rightarrow> u32 \<Rightarrow> u32" where
  "rotl32 n x = push_bit n x OR drop_bit (32 - n) x"

type_synonym sha_state = "u32 \<times> u32 \<times> u32 \<times> u32 \<times> u32"

definition sha0_round :: "u32 list \<Rightarrow> nat \<Rightarrow> sha_state \<Rightarrow> sha_state" where
  "sha0_round w i = (\<lambda>(a, b, c, d, e).
     let (f, k) = (if i < 20 then ((b AND c) OR (NOT b AND d), 0x5A827999)
                   else if i < 40 then (b XOR c XOR d, 0x6ED9EBA1)
                   else if i < 60 then ((b AND c) OR (b AND d) OR (c AND d), 0x8F1BBCDC)
                   else (b XOR c XOR d, 0xCA62C1D6));
         t = rotl32 5 a + f + e + k + w ! i
     in (t, a, rotl32 30 b, c, d))"

definition sha0_block :: "bytes \<Rightarrow> sha_state \<Rightarrow> sha_state" where
  "sha0_block blk = (\<lambda>(h0, h1, h2, h3, h4).
     let w = sha0_schedule blk;
         (a, b, c, d, e) = fold (sha0_round w) [0..<80] (h0, h1, h2, h3, h4)
     in (h0 + a, h1 + b, h2 + c, h3 + d, h4 + e))"

definition sha0_init :: sha_state where
  "sha0_init = (0x67452301, 0xEFCDAB89, 0x98BADCFE, 0x10325476, 0xC3D2E1F0)"

definition sha0_hash :: "bytes \<Rightarrow> bytes" where
  "sha0_hash data = (let buf = sha0_buf data;
       (h0, h1, h2, h3, h4) = fold (\<lambda>n. sha0_block (take 64 (drop (64 * n) buf)))
         [0..<sha0_padded (length data) div 64] sha0_init
     in put_be32 h0 @ put_be32 h1 @ put_be32 h2 @ put_be32 h3 @ put_be32 h4)"

lemma sha0_hash_length [simp]: "length (sha0_hash d) = 20"
  by (simp add: sha0_hash_def Let_def split: prod.split)

text \<open>The buffer has room for the 0x80 byte and the count, and less than one spare block.\<close>

lemma sha0_padded_bounds: "mlen + 9 \<le> sha0_padded mlen \<and> sha0_padded mlen < mlen + 9 + 64"
  by (simp add: sha0_padded_def) (use div_mult_mod_eq [of "mlen + 8" 64] in presburger)

end
