(* ===== verification/Checksum.thy ===== *)
theory Checksum
  imports Prelude
begin

text \<open>
  The Internet checksum, which the code computes twice: over the DHCP client's IP header
  (\<^verbatim>\<open>ip_checksum\<close> of \<^verbatim>\<open>dhcp_client.c\<close>, 16-bit loads in host order, two fixed folds) and
  over ICMP echo frames (\<^verbatim>\<open>rt_send_udp\<close> of \<^verbatim>\<open>rudp_transport.c\<close>, big-endian words, folded
  until the carry is gone). The build targets (arm, arm64, x86, x86-64 Android) are all
  little-endian.
\<close>

section \<open>Sums of 16-bit words\<close>

fun sum_be :: "bytes \<Rightarrow> nat" where
  "sum_be [] = 0"
| "sum_be [a] = 256 * unat a"
| "sum_be (a # b # r) = 256 * unat a + unat b + sum_be r"

fun sum_le :: "bytes \<Rightarrow> nat" where
  "sum_le [] = 0"
| "sum_le [a] = unat a"
| "sum_le (a # b # r) = unat a + 256 * unat b + sum_le r"

lemma sum_be_append: "even (length xs) \<Longrightarrow> sum_be (xs @ ys) = sum_be xs + sum_be ys"
  by (induction xs rule: sum_be.induct) auto

lemma sum_le_append: "even (length xs) \<Longrightarrow> sum_le (xs @ ys) = sum_le xs + sum_le ys"
  by (induction xs rule: sum_le.induct) auto

lemma unat_byte_le: "unat (a::byte) \<le> 255"
proof -
  have "unat a < 2 ^ LENGTH(8)" by (rule unsigned_less)
  then show ?thesis by simp
qed

lemma byte_word_le: "256 * unat (a::byte) + unat (b::byte) \<le> 65535"
  using unat_byte_le [of a] unat_byte_le [of b] by linarith

lemma sum_be_le: "sum_be xs \<le> 65535 * ((length xs + 1) div 2)"
proof (induction xs rule: sum_be.induct)
  case (2 a)
  then show ?case using unat_byte_le [of a] by simp
next
  case (3 a b r)
  then show ?case using byte_word_le [of a b] by simp
qed simp

lemma sum_le_le: "sum_le xs \<le> 65535 * ((length xs + 1) div 2)"
proof (induction xs rule: sum_le.induct)
  case (2 a)
  then show ?case using unat_byte_le [of a] by simp
next
  case (3 a b r)
  then show ?case using byte_word_le [of b a] by simp
qed simp

section \<open>Folding the carries\<close>

text \<open>One fold, \<^verbatim>\<open>(sum & 0xFFFF) + (sum >> 16)\<close>, keeps the sum modulo 65535.\<close>

definition fold16 :: "nat \<Rightarrow> nat" where
  "fold16 s = s mod 65536 + s div 65536"

lemma fold16_mod: "fold16 s mod 65535 = s mod 65535"
proof -
  have "s = fold16 s + 65535 * (s div 65536)"
    using mod_mult_div_eq [of s 65536] by (simp add: fold16_def)
  then have "s mod 65535 = (fold16 s + 65535 * (s div 65536)) mod 65535" by (rule arg_cong)
  then show ?thesis by (simp only: mod_mult_self2)
qed

lemma fold16_pos: "0 < s \<Longrightarrow> 0 < fold16 s"
  by (auto simp: fold16_def div_eq_0_iff)

lemma fold16_less:
  assumes "65536 \<le> s"
  shows "fold16 s < s"
proof -
  have "s = s mod 65536 + 65536 * (s div 65536)" by (simp only: mod_mult_div_eq)
  moreover have "1 \<le> s div 65536" using div_le_mono [OF assms, of 65536] by simp
  ultimately show ?thesis unfolding fold16_def by linarith
qed

text \<open>The ICMP loop: \<^verbatim>\<open>while (sum >> 16) sum = (sum & 0xFFFF) + (sum >> 16)\<close>.\<close>

function fold_carry :: "nat \<Rightarrow> nat" where
  "fold_carry s = (if s div 65536 \<noteq> 0 then fold_carry (fold16 s) else s)"
  by pat_completeness auto
termination
  by (relation "measure id") (auto simp: fold16_less div_eq_0_iff)

declare fold_carry.simps [simp del]

lemma fold_carry_props:
  "fold_carry s \<le> 65535 \<and> fold_carry s mod 65535 = s mod 65535 \<and> (0 < s \<longrightarrow> 0 < fold_carry s)"
proof (induction s rule: fold_carry.induct)
  case (1 s)
  show ?case
  proof (cases "s div 65536 \<noteq> 0")
    case True
    with 1 show ?thesis
      by (simp add: fold_carry.simps [of s] fold16_mod fold16_pos)
  next
    case False
    then have "s < 65536" by (simp add: div_eq_0_iff)
    with False show ?thesis by (simp add: fold_carry.simps [of s])
  qed
qed

text \<open>
  A header whose checksum field holds the complement of the folded sum of the rest adds
  up to a positive multiple of 65535: the receiver's check succeeds.
\<close>

lemma complement_check:
  assumes "c \<le> 65535" "c mod 65535 = s mod 65535"
  shows "(s + (65535 - c)) mod 65535 = (0::nat)"
proof -
  have "(s + (65535 - c)) mod 65535 = (c + (65535 - c)) mod 65535"
    using assms(2) by (metis mod_add_left_eq)
  also have "\<dots> = 0" using assms(1) by simp
  finally show ?thesis .
qed

lemma mod_65535_folded:
  assumes "n mod 65535 = 0" "0 < n"
  shows "fold_carry n = 65535"
proof -
  from fold_carry_props [of n] assms
  have "fold_carry n \<le> 65535" "fold_carry n mod 65535 = 0" "0 < fold_carry n" by auto
  then show ?thesis by (metis less_numeral_extra(3) mod_less nat_less_le)
qed

section \<open>The checksum as a word\<close>

lemma unat_not16: "unat (NOT (w :: u16)) = 65535 - unat w"
proof -
  have "NOT w = - 1 - w" by (simp add: not_eq_complement)
  moreover have "unat (- 1 - w) = unat (- 1 :: u16) - unat w" by (rule unat_sub) (rule word_n1_ge)
  moreover have "unat (- 1 :: u16) = 65535" by (simp add: unsigned_minus_1_eq_mask mask_eq_exp_minus_1)
  ultimately show ?thesis by simp
qed

lemma be16_value: "256 * unat (ucast (drop_bit 8 v) :: byte) + unat (ucast v :: byte) = unat (v :: u16)"
proof -
  have "unat v < 65536" using unsigned_less [of v, where ?'a = nat] by simp
  then have "unat v div 256 < 256" by (simp add: less_mult_imp_div_less)
  then have "unat (ucast (drop_bit 8 v) :: byte) = unat v div 256"
    by (simp add: unsigned_ucast_eq drop_bit_eq_div take_bit_eq_mod unat_div)
  moreover have "unat (ucast v :: byte) = unat v mod 256" by (simp add: unsigned_ucast_eq take_bit_eq_mod)
  ultimately show ?thesis by simp
qed

text \<open>
  Two fixed folds do as well as the loop as long as the sum is a 32-bit one of words.
\<close>

lemma fold16_twice:
  assumes "s < 2 ^ 32"
  shows "(fold16 s + fold16 s div 65536) mod 65536 = fold16 (fold16 s)" "fold16 (fold16 s) \<le> 65535"
    "fold16 (fold16 s) mod 65535 = s mod 65535"
proof -
  have "s div 65536 < 65536" using assms by (simp add: less_mult_imp_div_less)
  then have f: "fold16 s \<le> 131070" unfolding fold16_def using mod_less_divisor [of 65536 s] by linarith
  then have d: "fold16 s div 65536 = (if fold16 s < 65536 then 0 else 1)"
    by (cases "fold16 s < 65536") (simp_all add: div_nat_eqI)
  show "(fold16 s + fold16 s div 65536) mod 65536 = fold16 (fold16 s)" "fold16 (fold16 s) \<le> 65535"
    using f d by (auto simp: fold16_def [of "fold16 s"] mod_if)
  show "fold16 (fold16 s) mod 65535 = s mod 65535" by (simp only: fold16_mod)
qed

end
