(* ===== verification/Pack.thy ===== *)
theory Pack
  imports Prelude "HOL-Library.Monad_Syntax"
begin

text \<open>
  The PACK container (\<^verbatim>\<open>softether_pack.c\<close>): the growable writer, whose buffer starts with
  an element count patched after every addition, and the bounds-safe readers. A buffer is
  a byte list as long as its allocation; every store goes through the checked write of the
  prelude, so an out-of-bounds store is the outcome \<open>Fault\<close>. A reader's position is the
  suffix it has still to read. Pointer arguments are never NULL in the model: the guards
  that return -1 on NULL have no counterpart. Offsets have no upper limit: the bound checks of
  the source compare pointer sums (\<^verbatim>\<open>*p + len > end\<close>), which in a 32-bit address space can wrap for
  a length near the top; the model is that of an address space in which they do not.

  The abstract PACK is the list of its elements; \<open>ser_pack\<close> is its serialisation, the
  writer refines appending to that list and the readers refine searching it.
\<close>

section \<open>Types and sizes\<close>

definition PACK_TYPE_INT :: u32 where "PACK_TYPE_INT = 0"
definition PACK_TYPE_DATA :: u32 where "PACK_TYPE_DATA = 1"
definition PACK_TYPE_STR :: u32 where "PACK_TYPE_STR = 2"
definition PACK_TYPE_UNISTR :: u32 where "PACK_TYPE_UNISTR = 3"
definition PACK_TYPE_INT64 :: u32 where "PACK_TYPE_INT64 = 4"

lemmas pack_types = PACK_TYPE_INT_def PACK_TYPE_DATA_def PACK_TYPE_STR_def
  PACK_TYPE_UNISTR_def PACK_TYPE_INT64_def

definition PACK_INITIAL_CAP :: nat where "PACK_INITIAL_CAP = 256"
definition PACK_MAX_ELEMENTS :: nat where "PACK_MAX_ELEMENTS = 4096"
definition PACK_MAX_VALUES :: nat where "PACK_MAX_VALUES = 65535"
definition UINT32_MAX :: nat where "UINT32_MAX = 4294967295"

text \<open>The size macros are \<^verbatim>\<open>uint32_t\<close> expressions.\<close>

definition PACK_NAME_SZ :: "bytes \<Rightarrow> nat" where
  "PACK_NAME_SZ n = u32n (4 + u32n (length n))"

definition PACK_ELEM_HDR_SZ :: "bytes \<Rightarrow> nat" where
  "PACK_ELEM_HDR_SZ n = u32n (PACK_NAME_SZ n + 8)"

definition PACK_INT_SZ :: "bytes \<Rightarrow> nat" where
  "PACK_INT_SZ n = u32n (PACK_ELEM_HDR_SZ n + 4)"

definition PACK_INT64_SZ :: "bytes \<Rightarrow> nat" where
  "PACK_INT64_SZ n = u32n (PACK_ELEM_HDR_SZ n + 8)"

definition PACK_STR_SZ :: "bytes \<Rightarrow> bytes \<Rightarrow> nat" where
  "PACK_STR_SZ n v = u32n (PACK_ELEM_HDR_SZ n + 4 + u32n (length v))"

definition PACK_DATA_SZ :: "bytes \<Rightarrow> nat \<Rightarrow> nat" where
  "PACK_DATA_SZ n d = u32n (PACK_ELEM_HDR_SZ n + 4 + d)"

lemmas pack_sizes = PACK_NAME_SZ_def PACK_ELEM_HDR_SZ_def PACK_INT_SZ_def PACK_INT64_SZ_def
  PACK_STR_SZ_def PACK_DATA_SZ_def

section \<open>The writer\<close>

record softether_pack_t =
  pdata :: bytes
  plen :: nat
  pcap :: nat
  num_elements :: nat

definition pack_write_uint32 :: "u32 \<Rightarrow> cursor \<Rightarrow> cursor option" where
  "pack_write_uint32 v = emit (put_be32 v)"

text \<open>The loop of the 64-bit writer stores one byte per iteration, high byte first.\<close>

definition pack_write_uint64 :: "u64 \<Rightarrow> cursor \<Rightarrow> cursor option" where
  "pack_write_uint64 v c =
     fold (\<lambda>i oc. oc \<bind> emit [ucast (drop_bit (i * 8) v)]) [7, 6, 5, 4, 3, 2, 1, 0] (Some c)"

definition pack_write_elem_name :: "bytes \<Rightarrow> cursor \<Rightarrow> cursor option" where
  "pack_write_elem_name name c = (let len = u32n (length name) in
     do { c \<leftarrow> pack_write_uint32 (word_of_nat (len + 1)) c; emit (take len name) c })"

definition pack_write_str_val :: "bytes \<Rightarrow> cursor \<Rightarrow> cursor option" where
  "pack_write_str_val str c = (let len = u32n (length str) in
     do { c \<leftarrow> pack_write_uint32 (word_of_nat len) c; emit (take len str) c })"

text \<open>\<open>data = None\<close> is the NULL pointer: the cursor moves over bytes that are not written.\<close>

definition pack_write_data_val :: "bytes option \<Rightarrow> nat \<Rightarrow> cursor \<Rightarrow> cursor option" where
  "pack_write_data_val data len c = do {
     (b, off) \<leftarrow> pack_write_uint32 (word_of_nat len) c;
     (case data of
        Some d \<Rightarrow> if len > 0 then emit (take len d) (b, off) else Some (b, off)
      | None \<Rightarrow> Some (b, off + len)) }"

text \<open>
  The doubling loop of \<^verbatim>\<open>pack_reserve\<close>. It is entered with a positive capacity; 0 stops it
  here only so that the recursion is defined everywhere.
\<close>

function grow_cap :: "nat \<Rightarrow> nat \<Rightarrow> nat" where
  "grow_cap new_cap need =
     (if new_cap < need \<and> 0 < new_cap
      then if new_cap > UINT32_MAX div 2 then need else grow_cap (new_cap * 2) need
      else new_cap)"
  by pat_completeness auto
termination
  by (relation "measure (\<lambda>(c, need). need - c)") auto

declare grow_cap.simps [simp del]

definition pack_reserve :: "heap_env \<Rightarrow> softether_pack_t \<Rightarrow> nat \<Rightarrow> softether_pack_t option" where
  "pack_reserve env p add =
     (if add > UINT32_MAX - plen p then None
      else let need = plen p + add in
        if need \<le> pcap p then Some p
        else let new_cap = grow_cap (if pcap p \<noteq> 0 then pcap p else PACK_INITIAL_CAP) need in
          case realloc env (pdata p) new_cap of
            None \<Rightarrow> None
          | Some nd \<Rightarrow> Some (p\<lparr>pdata := nd, pcap := new_cap\<rparr>))"

definition pack_commit_element :: "softether_pack_t \<Rightarrow> nat \<Rightarrow> softether_pack_t outcome" where
  "pack_commit_element p elem_size = (let n = u32n (num_elements p + 1) in
     case pack_write_uint32 (word_of_nat n) (pdata p, 0) of
       None \<Rightarrow> Fault
     | Some (b, _) \<Rightarrow> Ret (p\<lparr>pdata := b, plen := u32n (plen p + elem_size), num_elements := n\<rparr>))"

definition pack_new :: "heap_env \<Rightarrow> softether_pack_t option" where
  "pack_new env = (case malloc env PACK_INITIAL_CAP of
     None \<Rightarrow> None
   | Some d \<Rightarrow> Some \<lparr>pdata = d, plen = 4, pcap = PACK_INITIAL_CAP, num_elements = 0\<rparr>)"

text \<open>
  The body every \<^verbatim>\<open>pack_add_*\<close> has: reserve, write the element at \<^verbatim>\<open>data + len\<close>, commit.
\<close>

definition pack_add_with ::
  "heap_env \<Rightarrow> softether_pack_t \<Rightarrow> nat \<Rightarrow> (cursor \<Rightarrow> cursor option) \<Rightarrow> softether_pack_t outcome" where
  "pack_add_with env p elem_size wr = (case pack_reserve env p elem_size of
     None \<Rightarrow> Fail
   | Some p \<Rightarrow> (case wr (pdata p, plen p) of
       None \<Rightarrow> Fault
     | Some (b, _) \<Rightarrow> pack_commit_element (p\<lparr>pdata := b\<rparr>) elem_size))"

definition pack_add_int :: "heap_env \<Rightarrow> softether_pack_t \<Rightarrow> bytes \<Rightarrow> u32 \<Rightarrow> softether_pack_t outcome" where
  "pack_add_int env p name val = pack_add_with env p (PACK_INT_SZ name) (\<lambda>c. do {
     c \<leftarrow> pack_write_elem_name name c;
     c \<leftarrow> pack_write_uint32 PACK_TYPE_INT c;
     c \<leftarrow> pack_write_uint32 1 c;
     pack_write_uint32 val c })"

definition pack_add_int64 :: "heap_env \<Rightarrow> softether_pack_t \<Rightarrow> bytes \<Rightarrow> u64 \<Rightarrow> softether_pack_t outcome" where
  "pack_add_int64 env p name val = pack_add_with env p (PACK_INT64_SZ name) (\<lambda>c. do {
     c \<leftarrow> pack_write_elem_name name c;
     c \<leftarrow> pack_write_uint32 PACK_TYPE_INT64 c;
     c \<leftarrow> pack_write_uint32 1 c;
     pack_write_uint64 val c })"

definition pack_add_str :: "heap_env \<Rightarrow> softether_pack_t \<Rightarrow> bytes \<Rightarrow> bytes \<Rightarrow> softether_pack_t outcome" where
  "pack_add_str env p name val = pack_add_with env p (PACK_STR_SZ name val) (\<lambda>c. do {
     c \<leftarrow> pack_write_elem_name name c;
     c \<leftarrow> pack_write_uint32 PACK_TYPE_STR c;
     c \<leftarrow> pack_write_uint32 1 c;
     pack_write_str_val val c })"

text \<open>The pointer and the length are one list here, so \<^verbatim>\<open>dlen > 0 && data == NULL\<close> cannot arise.\<close>

definition pack_add_data :: "heap_env \<Rightarrow> softether_pack_t \<Rightarrow> bytes \<Rightarrow> bytes \<Rightarrow> softether_pack_t outcome" where
  "pack_add_data env p name d = pack_add_with env p (PACK_DATA_SZ name (length d)) (\<lambda>c. do {
     c \<leftarrow> pack_write_elem_name name c;
     c \<leftarrow> pack_write_uint32 PACK_TYPE_DATA c;
     c \<leftarrow> pack_write_uint32 1 c;
     pack_write_data_val (Some d) (length d) c })"

definition pack_length :: "softether_pack_t \<Rightarrow> nat" where
  "pack_length p = plen p"

definition pack_body :: "softether_pack_t \<Rightarrow> bytes" where
  "pack_body p = take (plen p) (pdata p)"

section \<open>The readers\<close>

definition pack_read_uint32_safe :: "bytes \<Rightarrow> (u32 \<times> bytes) option" where
  "pack_read_uint32_safe p = (if length p < 4 then None else Some (get_be32 p, drop 4 p))"

definition pack_read_uint64_safe :: "bytes \<Rightarrow> (u64 \<times> bytes) option" where
  "pack_read_uint64_safe p = (if length p < 8 then None
     else Some (foldl (\<lambda>v b. push_bit 8 v OR ucast b) 0 (take 8 p), drop 8 p))"

definition pack_skip_bytes_safe :: "bytes \<Rightarrow> nat \<Rightarrow> bytes option" where
  "pack_skip_bytes_safe p len = (if length p < len then None else Some (drop len p))"

text \<open>The text stored in \<^verbatim>\<open>out\<close>, before its terminator, and the new position.\<close>

definition pack_read_string_safe :: "bytes \<Rightarrow> nat \<Rightarrow> (bytes \<times> bytes) option" where
  "pack_read_string_safe p out_size = do {
     (len, p) \<leftarrow> pack_read_uint32_safe p;
     if length p < unat len then None
     else let copy_len = (if unat len < out_size - 1 then unat len else out_size - 1)
          in Some (take copy_len p, drop (unat len) p) }"

definition pack_skip_value_safe :: "u32 \<Rightarrow> bytes \<Rightarrow> bytes option" where
  "pack_skip_value_safe type p =
     (if type = PACK_TYPE_INT then pack_skip_bytes_safe p 4
      else if type = PACK_TYPE_INT64 then pack_skip_bytes_safe p 8
      else if type = PACK_TYPE_STR \<or> type = PACK_TYPE_UNISTR \<or> type = PACK_TYPE_DATA then
        do { (len, p) \<leftarrow> pack_read_uint32_safe p; pack_skip_bytes_safe p (unat len) }
      else None)"

text \<open>The loop \<^verbatim>\<open>for (v = 0; v < num_values; v++)\<close> over the values of an element.\<close>

fun pack_skip_values :: "nat \<Rightarrow> u32 \<Rightarrow> bytes \<Rightarrow> bytes option" where
  "pack_skip_values 0 type p = Some p"
| "pack_skip_values (Suc n) type p = pack_skip_value_safe type p \<bind> pack_skip_values n type"

text \<open>
  \<open>Some (True, p)\<close> is the return value 1 with the position at the first value,
  \<open>Some (False, p)\<close> is 0 with the position behind the element, \<open>None\<close> is -1.
\<close>

definition pack_match_element :: "bytes \<Rightarrow> bytes \<Rightarrow> u32 \<Rightarrow> (bool \<times> bytes) option" where
  "pack_match_element p field_name type = do {
     (name_len_plus1, p) \<leftarrow> pack_read_uint32_safe p;
     if name_len_plus1 = 0 then None else do {
       let name_len = unat (name_len_plus1 - 1);
       if length p < name_len then None else do {
         let cp = (if name_len < 63 then name_len else 63);
         let elem = cstr_of (take cp p);
         let p = drop name_len p;
         (elem_type, p) \<leftarrow> pack_read_uint32_safe p;
         (num_values, p) \<leftarrow> pack_read_uint32_safe p;
         if unat num_values > PACK_MAX_VALUES then None
         else if elem = field_name \<and> elem_type = type \<and> num_values \<ge> 1 then Some (True, p)
         else do { p \<leftarrow> pack_skip_values (unat num_values) elem_type p; Some (False, p) } } } }"

text \<open>The element loop of the four readers, ending at the first match.\<close>

fun pack_find :: "nat \<Rightarrow> bytes \<Rightarrow> bytes \<Rightarrow> u32 \<Rightarrow> bytes option" where
  "pack_find 0 p field_name type = None"
| "pack_find (Suc n) p field_name type = do {
     (m, p) \<leftarrow> pack_match_element p field_name type;
     if m then Some p else pack_find n p field_name type }"

definition pack_seek :: "bytes \<Rightarrow> bytes \<Rightarrow> u32 \<Rightarrow> bytes option" where
  "pack_seek body field_name type = (if length body < 4 then None else do {
     (n, p) \<leftarrow> pack_read_uint32_safe body;
     if unat n > PACK_MAX_ELEMENTS then None else pack_find (unat n) p field_name type })"

definition pack_get_int :: "bytes \<Rightarrow> bytes \<Rightarrow> u32 option" where
  "pack_get_int body field_name = do {
     p \<leftarrow> pack_seek body field_name PACK_TYPE_INT;
     (v, _) \<leftarrow> pack_read_uint32_safe p;
     Some v }"

definition pack_get_int64 :: "bytes \<Rightarrow> bytes \<Rightarrow> u64 option" where
  "pack_get_int64 body field_name = do {
     p \<leftarrow> pack_seek body field_name PACK_TYPE_INT64;
     (v, _) \<leftarrow> pack_read_uint64_safe p;
     Some v }"

definition pack_get_str :: "bytes \<Rightarrow> bytes \<Rightarrow> nat \<Rightarrow> bytes option" where
  "pack_get_str body field_name out_size = (if out_size = 0 then None else do {
     p \<leftarrow> pack_seek body field_name PACK_TYPE_STR;
     (s, _) \<leftarrow> pack_read_string_safe p out_size;
     Some s })"

text \<open>The bytes copied to \<^verbatim>\<open>out_data\<close>; their number is \<^verbatim>\<open>*out_len\<close>.\<close>

definition pack_get_data :: "bytes \<Rightarrow> bytes \<Rightarrow> nat \<Rightarrow> bytes option" where
  "pack_get_data body field_name out_size = (if out_size = 0 then None else do {
     p \<leftarrow> pack_seek body field_name PACK_TYPE_DATA;
     (data_len, p) \<leftarrow> pack_read_uint32_safe p;
     if length p < unat data_len then None
     else Some (take (if unat data_len < out_size then unat data_len else out_size) p) })"

section \<open>The abstract PACK\<close>

datatype pvalue = VInt u32 | VInt64 u64 | VStr bytes | VData bytes

type_synonym pelem = "bytes \<times> pvalue"

fun ptype :: "pvalue \<Rightarrow> u32" where
  "ptype (VInt _) = PACK_TYPE_INT"
| "ptype (VInt64 _) = PACK_TYPE_INT64"
| "ptype (VStr _) = PACK_TYPE_STR"
| "ptype (VData _) = PACK_TYPE_DATA"

fun ser_value :: "pvalue \<Rightarrow> bytes" where
  "ser_value (VInt i) = put_be32 i"
| "ser_value (VInt64 i) = put_be64 i"
| "ser_value (VStr s) = put_be32 (word_of_nat (length s)) @ s"
| "ser_value (VData d) = put_be32 (word_of_nat (length d)) @ d"

definition ser_elem :: "pelem \<Rightarrow> bytes" where
  "ser_elem e = put_be32 (word_of_nat (length (fst e) + 1)) @ fst e @
     put_be32 (ptype (snd e)) @ put_be32 1 @ ser_value (snd e)"

definition ser_elems :: "pelem list \<Rightarrow> bytes" where
  "ser_elems es = concat (map ser_elem es)"

definition ser_pack :: "pelem list \<Rightarrow> bytes" where
  "ser_pack es = put_be32 (word_of_nat (length es)) @ ser_elems es"

text \<open>An element whose serialised size is a \<^verbatim>\<open>uint32_t\<close>: the size macros are exact on it.\<close>

definition elem_ok :: "pelem \<Rightarrow> bool" where
  "elem_ok e \<longleftrightarrow> length (ser_elem e) < 2 ^ 32"

definition pack_add :: "heap_env \<Rightarrow> softether_pack_t \<Rightarrow> pelem \<Rightarrow> softether_pack_t outcome" where
  "pack_add env p e = (case snd e of
     VInt i \<Rightarrow> pack_add_int env p (fst e) i
   | VInt64 i \<Rightarrow> pack_add_int64 env p (fst e) i
   | VStr s \<Rightarrow> pack_add_str env p (fst e) s
   | VData d \<Rightarrow> pack_add_data env p (fst e) d)"

text \<open>
  The representation: the buffer is as long as its capacity and holds the serialised
  elements; the count in front of them is right as soon as there is one (a new PACK has
  only an unset placeholder there).
\<close>

definition pack_rep :: "softether_pack_t \<Rightarrow> pelem list \<Rightarrow> bool" where
  "pack_rep p es \<longleftrightarrow> length (pdata p) = pcap p \<and> 4 \<le> pcap p \<and> pcap p < 2 ^ 32 \<and>
     plen p = 4 + length (ser_elems es) \<and> plen p \<le> pcap p \<and> num_elements p = length es \<and>
     take (length (ser_elems es)) (drop 4 (pdata p)) = ser_elems es \<and>
     (es \<noteq> [] \<longrightarrow> take 4 (pdata p) = put_be32 (word_of_nat (length es)))"

section \<open>The writer refines appending\<close>

lemma ser_elems_simps [simp]:
  "ser_elems [] = []" "ser_elems (e # es) = ser_elem e @ ser_elems es"
  "ser_elems (es @ fs) = ser_elems es @ ser_elems fs"
  by (simp_all add: ser_elems_def)

lemma ser_elem_length_ge: "16 \<le> length (ser_elem e)"
  by (cases "snd e") (simp_all add: ser_elem_def)

lemma elem_count_le: "length es \<le> length (ser_elems es)"
proof (induction es)
  case (Cons e es)
  then show ?case using ser_elem_length_ge [of e] by simp
qed simp

lemma writes_uint32: "writes (pack_write_uint32 v) (put_be32 v)"
  by (simp add: pack_write_uint32_def writes_emit)

lemma writes_uint64: "writes (pack_write_uint64 v) (put_be64 v)"
proof -
  have "writes (\<lambda>c. emit [ucast (drop_bit 56 v)] c \<bind> emit [ucast (drop_bit 48 v)] \<bind>
      emit [ucast (drop_bit 40 v)] \<bind> emit [ucast (drop_bit 32 v)] \<bind> emit [ucast (drop_bit 24 v)] \<bind>
      emit [ucast (drop_bit 16 v)] \<bind> emit [ucast (drop_bit 8 v)] \<bind> emit [ucast v])
    ((((((([ucast (drop_bit 56 v)] @ [ucast (drop_bit 48 v)]) @ [ucast (drop_bit 40 v)]) @
      [ucast (drop_bit 32 v)]) @ [ucast (drop_bit 24 v)]) @ [ucast (drop_bit 16 v)]) @
      [ucast (drop_bit 8 v)]) @ [ucast v])"
    by (intro writes_comp writes_emit)
  then show ?thesis by (simp add: pack_write_uint64_def [abs_def] put_be64_def)
qed

lemma writes_elem_name:
  assumes "length n + 1 < 2 ^ 32"
  shows "writes (pack_write_elem_name n) (put_be32 (word_of_nat (length n + 1)) @ n)"
proof -
  have "u32n (length n) = length n" using assms by simp
  then have "pack_write_elem_name n =
      (\<lambda>c. pack_write_uint32 (word_of_nat (length n + 1)) c \<bind> emit n)"
    by (simp add: pack_write_elem_name_def fun_eq_iff)
  then show ?thesis by (simp only: writes_comp writes_uint32 writes_emit)
qed

lemma writes_str_val:
  assumes "length v < 2 ^ 32"
  shows "writes (pack_write_str_val v) (put_be32 (word_of_nat (length v)) @ v)"
proof -
  have "pack_write_str_val v = (\<lambda>c. pack_write_uint32 (word_of_nat (length v)) c \<bind> emit v)"
    using assms by (simp add: pack_write_str_val_def fun_eq_iff)
  then show ?thesis by (simp only: writes_comp writes_uint32 writes_emit)
qed

lemma emit_Nil: "snd c \<le> length (fst c) \<Longrightarrow> emit [] c = Some c"
  by (simp add: emit_def write_at_def)

lemma writes_data_val:
  "writes (pack_write_data_val (Some d) (length d)) (put_be32 (word_of_nat (length d)) @ d)"
proof (cases "d = []")
  case True
  then show ?thesis
    using writes_uint32 [of 0] by (simp add: pack_write_data_val_def writes_def)
next
  case False
  then have "pack_write_data_val (Some d) (length d) =
      (\<lambda>c. pack_write_uint32 (word_of_nat (length d)) c \<bind> emit d)"
    by (simp add: pack_write_data_val_def fun_eq_iff split: prod.split)
  then show ?thesis by (simp only: writes_comp writes_uint32 writes_emit)
qed

text \<open>The four element writers, each with the size it reserves.\<close>

definition elem_writer :: "pelem \<Rightarrow> cursor \<Rightarrow> cursor option" where
  "elem_writer e c = do {
     c \<leftarrow> pack_write_elem_name (fst e) c;
     c \<leftarrow> pack_write_uint32 (ptype (snd e)) c;
     c \<leftarrow> pack_write_uint32 1 c;
     (case snd e of VInt i \<Rightarrow> pack_write_uint32 i c | VInt64 i \<Rightarrow> pack_write_uint64 i c
      | VStr s \<Rightarrow> pack_write_str_val s c | VData d \<Rightarrow> pack_write_data_val (Some d) (length d) c) }"

lemma pack_add_eq:
  assumes "elem_ok e"
  shows "pack_add env p e = pack_add_with env p (length (ser_elem e)) (elem_writer e)"
  using assms
  by (cases "snd e")
    (simp_all add: pack_add_def pack_add_int_def pack_add_int64_def pack_add_str_def
      pack_add_data_def elem_writer_def [abs_def] pack_sizes elem_ok_def ser_elem_def add.assoc)

lemma elem_writer_writes:
  assumes "elem_ok e"
  shows "writes (elem_writer e) (ser_elem e)"
proof -
  let ?val = "\<lambda>c. case snd e of VInt i \<Rightarrow> pack_write_uint32 i c | VInt64 i \<Rightarrow> pack_write_uint64 i c
      | VStr s \<Rightarrow> pack_write_str_val s c | VData d \<Rightarrow> pack_write_data_val (Some d) (length d) c"
  from assms have n: "length (fst e) + 1 < 2 ^ 32" by (simp add: elem_ok_def ser_elem_def)
  have val: "writes ?val (ser_value (snd e))"
  proof (cases "snd e")
    case (VStr s)
    with assms have "length s < 2 ^ 32" by (simp add: elem_ok_def ser_elem_def)
    with VStr show ?thesis using writes_str_val [of s] by simp
  qed (simp_all add: writes_uint32 writes_uint64 writes_data_val)
  have "writes (\<lambda>c. pack_write_elem_name (fst e) c \<bind>
      (\<lambda>c. pack_write_uint32 (ptype (snd e)) c \<bind> (\<lambda>c. pack_write_uint32 1 c \<bind> ?val)))
      ((put_be32 (word_of_nat (length (fst e) + 1)) @ fst e) @
        put_be32 (ptype (snd e)) @ put_be32 1 @ ser_value (snd e))"
    by (intro writes_comp writes_elem_name [OF n] writes_uint32 val)
  then show ?thesis by (simp add: elem_writer_def [abs_def] ser_elem_def)
qed

lemma grow_cap_bounds:
  "0 < c \<Longrightarrow> need \<le> grow_cap c need \<and> c \<le> grow_cap c need \<and>
     (c < 2 ^ 32 \<longrightarrow> need < 2 ^ 32 \<longrightarrow> grow_cap c need < 2 ^ 32)"
proof (induction c need rule: grow_cap.induct)
  case (1 c need)
  show ?case
  proof (cases "c < need \<and> c \<le> UINT32_MAX div 2")
    case True
    then have "c * 2 < 2 ^ 32" by (simp add: UINT32_MAX_def)
    with True 1 show ?thesis
      by (subst (1 2 3) grow_cap.simps) (auto simp: not_less)
  next
    case False
    then show ?thesis using 1 by (subst (1 2 3) grow_cap.simps) auto
  qed
qed

text \<open>\<^verbatim>\<open>pack_reserve\<close> gives the room asked for and keeps everything already written.\<close>

lemma pack_reserve_ok:
  assumes rep: "pack_rep p es" and r: "pack_reserve env p add = Some p'"
  shows "pack_rep p' es \<and> plen p' + add \<le> pcap p'"
proof -
  have lim: "plen p + add < 2 ^ 32" and rm: "plen p \<le> length (pdata p)"
    using rep r by (auto simp: pack_reserve_def UINT32_MAX_def pack_rep_def split: if_splits)
  show ?thesis
  proof (cases "plen p + add \<le> pcap p")
    case True
    with rep r show ?thesis by (auto simp: pack_reserve_def Let_def split: if_splits)
  next
    case False
    let ?c = "grow_cap (pcap p) (plen p + add)"
    have b: "plen p + add \<le> ?c" "pcap p \<le> ?c" "?c < 2 ^ 32"
      using grow_cap_bounds [of "pcap p" "plen p + add"] rep lim by (auto simp: pack_rep_def)
    from False r rep obtain nd where nd: "realloc env (pdata p) ?c = Some nd"
      and p': "p' = p\<lparr>pdata := nd, pcap := ?c\<rparr>"
      by (auto simp: pack_reserve_def Let_def pack_rep_def split: if_splits option.splits)
    have len: "length nd = ?c" and pre: "take (length (pdata p)) nd = pdata p"
      using realloc_SomeD [OF nd] rep b by (auto simp: pack_rep_def)
    have t: "take n (drop m nd) = take n (drop m (pdata p))" if "m + n \<le> length (pdata p)" for m n
      by (metis pre take_drop take_eq_mono take_take min.absorb1 that add.commute)
    show ?thesis
      using rep b len p' t [of 4 "length (ser_elems es)"] t [of 0 4] by (auto simp: pack_rep_def)
  qed
qed

lemma pack_commit_ok:
  assumes "length b = pcap p" "4 \<le> pcap p"
  shows "pack_commit_element (p\<lparr>pdata := b\<rparr>) sz =
     Ret (p\<lparr>pdata := put_be32 (word_of_nat (u32n (num_elements p + 1))) @ drop 4 b,
            plen := u32n (plen p + sz), num_elements := u32n (num_elements p + 1)\<rparr>)"
  using assms writesD [OF writes_uint32, of 0 _ b]
  by (simp add: pack_commit_element_def Let_def)

lemma pack_add_with_ok:
  assumes rep: "pack_rep p es" and ok: "elem_ok e"
    and r: "pack_reserve env p (length (ser_elem e)) = Some q"
  shows "\<exists>p'. pack_add env p e = Ret p' \<and> pack_rep p' (es @ [e])"
proof -
  let ?s = "ser_elem e"
  have q: "pack_rep q es" "plen q + length ?s \<le> pcap q"
    using pack_reserve_ok [OF rep r] by auto
  let ?b = "take (plen q) (pdata q) @ ?s @ drop (plen q + length ?s) (pdata q)"
  have w: "elem_writer e (pdata q, plen q) = Some (?b, plen q + length ?s)"
    using writesD [OF elem_writer_writes [OF ok]] q by (simp add: pack_rep_def)
  have lb: "length ?b = pcap q" "4 \<le> pcap q" using q by (auto simp: pack_rep_def)
  have cnt: "num_elements q + 1 < 2 ^ 32" "plen q + length ?s < 2 ^ 32"
    using q elem_count_le [of es] ser_elem_length_ge [of e] by (auto simp: pack_rep_def)
  have pl: "plen q = 4 + length (ser_elems es)" using q by (simp add: pack_rep_def)
  have body: "take (length (ser_elems es) + length ?s) (drop 4 ?b) = ser_elems es @ ?s"
  proof -
    have "drop 4 (take (plen q) (pdata q)) = ser_elems es"
      using q(1) pl by (simp add: pack_rep_def drop_take)
    then show ?thesis using q pl by (simp add: pack_rep_def)
  qed
  have "pack_add env p e = pack_commit_element (q\<lparr>pdata := ?b\<rparr>) (length ?s)"
    using w r by (simp add: pack_add_eq [OF ok] pack_add_with_def)
  also have "\<dots> = Ret (q\<lparr>pdata := put_be32 (word_of_nat (num_elements q + 1)) @ drop 4 ?b,
      plen := plen q + length ?s, num_elements := num_elements q + 1\<rparr>)"
    using pack_commit_ok [OF lb] cnt by simp
  finally show ?thesis
    using q body lb by (auto simp: pack_rep_def add.commute)
qed

lemma pack_new_rep: "pack_new env = Some p \<Longrightarrow> pack_rep p []"
  by (auto simp: pack_new_def pack_rep_def PACK_INITIAL_CAP_def buf_simps split: option.splits)

lemma pack_rep_body: "pack_rep p es \<Longrightarrow> es \<noteq> [] \<Longrightarrow> pack_body p = ser_pack es"
  by (auto simp: pack_rep_def pack_body_def ser_pack_def take_add)

section \<open>The readers refine searching\<close>

text \<open>The element a reader looks for: names are compared in a 64-byte buffer.\<close>

definition elem_matches :: "bytes \<Rightarrow> u32 \<Rightarrow> pelem \<Rightarrow> bool" where
  "elem_matches f t e \<longleftrightarrow> cstr_of (take 63 (fst e)) = f \<and> ptype (snd e) = t"

definition pack_lookup :: "pelem list \<Rightarrow> bytes \<Rightarrow> u32 \<Rightarrow> pvalue option" where
  "pack_lookup es f t = map_option snd (find (elem_matches f t) es)"

lemma read_uint32_put [simp]: "pack_read_uint32_safe (put_be32 v @ r) = Some (v, r)"
  by (simp add: pack_read_uint32_safe_def)

lemma foldl_be64: "foldl (\<lambda>v b. push_bit 8 v OR ucast b) (0::u64) [a, b, c, d, e, f, g, h] =
    get_be64 [a, b, c, d, e, f, g, h]"
  by (simp add: push_bit_or push_bit_push_bit or.assoc)

lemma read_uint64_put [simp]: "pack_read_uint64_safe (put_be64 v @ r) = Some (v, r)"
proof -
  have "foldl (\<lambda>v b. push_bit 8 v OR ucast b) (0::u64) (put_be64 v) = v"
    unfolding put_be64_def foldl_be64 by (simp only: put_be64_def [symmetric] be_alone)
  then show ?thesis by (simp add: pack_read_uint64_safe_def)
qed

lemma skip_value_ser:
  "elem_ok (n, v) \<Longrightarrow> pack_skip_value_safe (ptype v) (ser_value v @ r) = Some r"
  by (cases v) (simp_all add: pack_skip_value_safe_def pack_skip_bytes_safe_def pack_types
      elem_ok_def ser_elem_def unat_of_nat)

lemma match_ser_elem:
  assumes "elem_ok e"
  shows "pack_match_element (ser_elem e @ r) f t =
     (if elem_matches f t e then Some (True, ser_value (snd e) @ r) else Some (False, r))"
proof -
  obtain n v where e: "e = (n, v)" by (cases e)
  have len: "length n + 1 < 2 ^ 32" using assms e by (simp add: elem_ok_def ser_elem_def)
  have "unat (word_of_nat (length n + 1) :: u32) = length n + 1"
    unfolding unat_of_nat using len by simp
  then have nz: "(word_of_nat (length n + 1) :: u32) \<noteq> 0"
    by (metis Suc_eq_plus1 Zero_not_Suc unat_0)
  have un: "unat (word_of_nat (length n + 1) - 1 :: u32) = length n"
    using len by (simp add: unat_of_nat)
  show ?thesis
    using skip_value_ser [OF assms [unfolded e], of r] nz un
    by (auto simp: pack_match_element_def Let_def e ser_elem_def elem_matches_def
        PACK_MAX_VALUES_def min_def)
qed

lemma pack_find_ser:
  assumes "\<forall>e \<in> set es. elem_ok e"
  shows "pack_find (length es) (ser_elems es @ r) f t =
     (case dropWhile (\<lambda>e. \<not> elem_matches f t e) es of
        [] \<Rightarrow> None | e # es' \<Rightarrow> Some (ser_value (snd e) @ ser_elems es' @ r))"
  using assms by (induction es) (simp_all add: match_ser_elem)

lemma find_dropWhile: "find P xs = (case dropWhile (\<lambda>x. \<not> P x) xs of [] \<Rightarrow> None | x # _ \<Rightarrow> Some x)"
  by (induction xs) auto

lemma pack_seek_ser:
  assumes "\<forall>e \<in> set es. elem_ok e" "length es \<le> PACK_MAX_ELEMENTS"
  shows "(\<exists>rest. pack_seek (ser_pack es @ r) f t =
     map_option (\<lambda>v. ser_value v @ rest) (pack_lookup es f t))"
proof -
  have "unat (word_of_nat (length es) :: u32) = length es"
    using assms(2) by (simp add: PACK_MAX_ELEMENTS_def unat_of_nat)
  then have "pack_seek (ser_pack es @ r) f t = pack_find (length es) (ser_elems es @ r) f t"
    using assms(2) by (simp add: pack_seek_def ser_pack_def)
  then show ?thesis
    unfolding pack_find_ser [OF assms(1)] pack_lookup_def find_dropWhile
    by (cases "dropWhile (\<lambda>e. \<not> elem_matches f t e) es") (auto simp del: dropWhile_eq_Nil_conv)
qed

lemma pack_lookup_SomeD:
  assumes "pack_lookup es f t = Some v"
  shows "ptype v = t" "\<exists>n. (n, v) \<in> set es"
proof -
  from assms obtain e where "find (elem_matches f t) es = Some e" and v: "snd e = v"
    by (auto simp: pack_lookup_def)
  then have "elem_matches f t e" "e \<in> set es" by (auto simp: find_Some_iff)
  with v show "ptype v = t" "\<exists>n. (n, v) \<in> set es"
    by (auto simp: elem_matches_def intro: exI [of _ "fst e"])
qed

text \<open>
  What the four readers return on the serialisation of a list of elements, whatever
  follows it in the receive buffer.
\<close>

definition lookup_int :: "pelem list \<Rightarrow> bytes \<Rightarrow> u32 option" where
  "lookup_int es f = (case pack_lookup es f PACK_TYPE_INT of Some (VInt i) \<Rightarrow> Some i | _ \<Rightarrow> None)"

definition lookup_int64 :: "pelem list \<Rightarrow> bytes \<Rightarrow> u64 option" where
  "lookup_int64 es f = (case pack_lookup es f PACK_TYPE_INT64 of Some (VInt64 i) \<Rightarrow> Some i | _ \<Rightarrow> None)"

definition lookup_str :: "pelem list \<Rightarrow> bytes \<Rightarrow> bytes option" where
  "lookup_str es f = (case pack_lookup es f PACK_TYPE_STR of Some (VStr s) \<Rightarrow> Some s | _ \<Rightarrow> None)"

definition lookup_data :: "pelem list \<Rightarrow> bytes \<Rightarrow> bytes option" where
  "lookup_data es f = (case pack_lookup es f PACK_TYPE_DATA of Some (VData d) \<Rightarrow> Some d | _ \<Rightarrow> None)"

lemmas lookups = lookup_int_def lookup_int64_def lookup_str_def lookup_data_def

lemma ptype_cases:
  "ptype v = PACK_TYPE_INT \<longleftrightarrow> (\<exists>i. v = VInt i)"
  "ptype v = PACK_TYPE_INT64 \<longleftrightarrow> (\<exists>j. v = VInt64 j)"
  "ptype v = PACK_TYPE_STR \<longleftrightarrow> (\<exists>s. v = VStr s)"
  "ptype v = PACK_TYPE_DATA \<longleftrightarrow> (\<exists>d. v = VData d)"
  by (cases v; simp add: pack_types)+

lemma elem_ok_len:
  "elem_ok (n, VStr s) \<Longrightarrow> unat (word_of_nat (length s) :: u32) = length s"
  "elem_ok (n, VData s) \<Longrightarrow> unat (word_of_nat (length s) :: u32) = length s"
  unfolding unat_of_nat by (simp_all add: elem_ok_def ser_elem_def)

lemma pack_get_ser:
  assumes ok: "\<forall>e \<in> set es. elem_ok e" and le: "length es \<le> PACK_MAX_ELEMENTS"
  shows "pack_get_int (ser_pack es @ r) f = lookup_int es f \<and>
     pack_get_int64 (ser_pack es @ r) f = lookup_int64 es f \<and>
     (0 < n \<longrightarrow> pack_get_str (ser_pack es @ r) f n = map_option (take (n - 1)) (lookup_str es f)) \<and>
     (0 < n \<longrightarrow> pack_get_data (ser_pack es @ r) f n = map_option (take n) (lookup_data es f))"
proof (intro conjI impI)
  note D = pack_lookup_SomeD
  obtain r1 where 1: "pack_seek (ser_pack es @ r) f PACK_TYPE_INT =
      map_option (\<lambda>v. ser_value v @ r1) (pack_lookup es f PACK_TYPE_INT)"
    using pack_seek_ser [OF assms] by blast
  then show "pack_get_int (ser_pack es @ r) f = lookup_int es f"
    by (cases "pack_lookup es f PACK_TYPE_INT")
      (auto simp: pack_get_int_def lookup_int_def ptype_cases dest!: D(1))
  obtain r2 where 2: "pack_seek (ser_pack es @ r) f PACK_TYPE_INT64 =
      map_option (\<lambda>v. ser_value v @ r2) (pack_lookup es f PACK_TYPE_INT64)"
    using pack_seek_ser [OF assms] by blast
  then show "pack_get_int64 (ser_pack es @ r) f = lookup_int64 es f"
    by (cases "pack_lookup es f PACK_TYPE_INT64")
      (auto simp: pack_get_int64_def lookup_int64_def ptype_cases dest!: D(1))
  obtain r3 where 3: "pack_seek (ser_pack es @ r) f PACK_TYPE_STR =
      map_option (\<lambda>v. ser_value v @ r3) (pack_lookup es f PACK_TYPE_STR)"
    using pack_seek_ser [OF assms] by blast
  obtain r4 where 4: "pack_seek (ser_pack es @ r) f PACK_TYPE_DATA =
      map_option (\<lambda>v. ser_value v @ r4) (pack_lookup es f PACK_TYPE_DATA)"
    using pack_seek_ser [OF assms] by blast
  assume "0 < n"
  then show "pack_get_str (ser_pack es @ r) f n = map_option (take (n - 1)) (lookup_str es f)"
    using 3 D [of es f PACK_TYPE_STR] ok
    by (cases "pack_lookup es f PACK_TYPE_STR")
      (auto simp: pack_get_str_def lookup_str_def ptype_cases pack_read_string_safe_def Let_def
        dest!: bspec elem_ok_len)
  show "pack_get_data (ser_pack es @ r) f n = map_option (take n) (lookup_data es f)"
    using 4 D [of es f PACK_TYPE_DATA] ok \<open>0 < n\<close>
    by (cases "pack_lookup es f PACK_TYPE_DATA")
      (auto simp: pack_get_data_def lookup_data_def ptype_cases dest!: bspec elem_ok_len)
qed

text \<open>
  C3: round trip of the PACK format. The integer, 64-bit integer, string and data readers
  find in a serialised PACK exactly the first element of that name and type, whatever
  bytes follow the PACK; strings and data come back cut to the caller's buffer.
\<close>

theorem pack_get_ser_pack:
  assumes ok: "\<forall>e \<in> set es. elem_ok e" and le: "length es \<le> PACK_MAX_ELEMENTS"
  shows "pack_get_int (ser_pack es @ r) f = lookup_int es f \<and>
     pack_get_int64 (ser_pack es @ r) f = lookup_int64 es f \<and>
     (0 < n \<longrightarrow> pack_get_str (ser_pack es @ r) f n = map_option (take (n - 1)) (lookup_str es f)) \<and>
     (0 < n \<longrightarrow> pack_get_data (ser_pack es @ r) f n = map_option (take n) (lookup_data es f))"
  by (rule pack_get_ser [OF assms])

theorem pack_get_ser_pack_witness:
  "pack_get_str (ser_pack [(lit ''method'', VStr (lit ''login'')), (lit ''qos'', VInt 1)] @ [7])
     (lit ''method'') 4 = Some (lit ''log'')"
  using pack_get_ser_pack [of "[(lit ''method'', VStr (lit ''login'')), (lit ''qos'', VInt 1)]"
      "[7]" "lit ''method''" 4]
  by (simp add: elem_ok_def ser_elem_def PACK_MAX_ELEMENTS_def lookup_str_def pack_lookup_def
      elem_matches_def lit_def cstr_of_def)

text \<open>
  C4: the PACK writer is memory safe and refines appending to the list of elements. From a
  PACK that represents \<open>es\<close>, adding an element whose size fits in 32 bits never writes
  outside the buffer: it either returns -1, and then the size overflows or the allocator
  refused, or the result represents \<open>es\<close> with the element at the end.
\<close>

theorem pack_add_refines:
  assumes "pack_rep p es" "elem_ok e"
  shows "case pack_add env p e of
       Ret p' \<Rightarrow> pack_rep p' (es @ [e]) \<and> pack_body p' = ser_pack (es @ [e])
     | Fail \<Rightarrow> plen p + length (ser_elem e) > UINT32_MAX \<or> (\<exists>n. \<not> can_alloc env n)
     | Fault \<Rightarrow> False"
proof (cases "pack_reserve env p (length (ser_elem e))")
  case None
  then have "pack_add env p e = Fail"
    by (simp add: pack_add_eq [OF assms(2)] pack_add_with_def)
  with None show ?thesis
    by (auto simp: pack_reserve_def Let_def realloc_def split: if_splits)
next
  case (Some q)
  from pack_add_with_ok [OF assms this] show ?thesis
    by (auto simp: pack_rep_body)
qed

theorem pack_add_refines_witness:
  "case pack_add \<lparr>can_alloc = (\<lambda>n. n < 100), junk = (\<lambda>_. 7)\<rparr>
      \<lparr>pdata = [9, 9, 9, 9], plen = 4, pcap = 4, num_elements = 0\<rparr> (lit ''qos'', VInt 1) of
       Ret p' \<Rightarrow> pack_rep p' [(lit ''qos'', VInt 1)] \<and> pack_body p' = ser_pack [(lit ''qos'', VInt 1)]
     | Fail \<Rightarrow> 4 + length (ser_elem (lit ''qos'', VInt 1)) > UINT32_MAX \<or> (\<exists>n. \<not> n < (100::nat))
     | Fault \<Rightarrow> False"
  using pack_add_refines [of "\<lparr>pdata = [9, 9, 9, 9], plen = 4, pcap = 4, num_elements = 0\<rparr>" "[]"
      "(lit ''qos'', VInt 1)" "\<lparr>can_alloc = (\<lambda>n. n < 100), junk = (\<lambda>_. 7)\<rparr>"]
  by (simp add: pack_rep_def [of "\<lparr>pdata = [9, 9, 9, 9], plen = 4, pcap = 4, num_elements = 0\<rparr>"]
      elem_ok_def ser_elem_def lit_def split: outcome.splits)

section \<open>Building and reading back a whole PACK\<close>

fun pack_add_all :: "heap_env \<Rightarrow> softether_pack_t \<Rightarrow> pelem list \<Rightarrow> softether_pack_t outcome" where
  "pack_add_all env p [] = Ret p"
| "pack_add_all env p (e # es) = (case pack_add env p e of
     Ret p' \<Rightarrow> pack_add_all env p' es | Fail \<Rightarrow> Fail | Fault \<Rightarrow> Fault)"

lemma pack_add_all_total:
  assumes "pack_rep p ds" "\<forall>n. can_alloc env n"
    and "4 + length (ser_elems (ds @ es)) \<le> UINT32_MAX"
  shows "\<exists>p'. pack_add_all env p es = Ret p' \<and> pack_rep p' (ds @ es)"
  using assms
proof (induction es arbitrary: p ds)
  case Nil
  then show ?case by simp
next
  case (Cons e es)
  have ok: "elem_ok e" and pl: "plen p + length (ser_elem e) \<le> UINT32_MAX"
    using Cons.prems by (auto simp: elem_ok_def UINT32_MAX_def pack_rep_def)
  obtain p' where "pack_add env p e = Ret p'" "pack_rep p' (ds @ [e])"
  proof (cases "pack_reserve env p (length (ser_elem e))")
    case None
    with pl Cons.prems(2) show ?thesis
      by (auto simp: pack_reserve_def Let_def realloc_def split: if_splits)
  next
    case (Some q)
    from pack_add_with_ok [OF Cons.prems(1) ok this] that show ?thesis by blast
  qed
  with Cons.IH [of p' "ds @ [e]"] Cons.prems show ?case by simp
qed

text \<open>
  A PACK whose total size fits in 32 bits can always be built when memory is available,
  from a fresh PACK and whatever its uninitialised bytes hold, and its body is the
  serialisation of the elements in the order they were added.
\<close>

theorem pack_build_total:
  assumes "\<forall>n. can_alloc env n" "es \<noteq> []" "length (ser_pack es) \<le> UINT32_MAX"
  shows "\<exists>p0 p. pack_new env = Some p0 \<and> pack_add_all env p0 es = Ret p \<and>
     pack_body p = ser_pack es \<and> pack_length p = length (ser_pack es)"
proof -
  obtain p0 where p0: "pack_new env = Some p0"
    using assms(1) by (simp add: pack_new_def malloc_def)
  obtain p where "pack_add_all env p0 es = Ret p" "pack_rep p ([] @ es)"
    using pack_add_all_total [OF pack_new_rep [OF p0] assms(1), of es] assms(3)
    by (auto simp: ser_pack_def)
  moreover from this assms(2) have "pack_body p = ser_pack es" by (simp add: pack_rep_body)
  ultimately show ?thesis
    using p0 by (auto simp: pack_length_def pack_rep_def ser_pack_def)
qed

theorem pack_build_total_witness:
  "\<exists>p0 p. pack_new \<lparr>can_alloc = (\<lambda>_. True), junk = (\<lambda>_. 170)\<rparr> = Some p0 \<and>
     pack_add_all \<lparr>can_alloc = (\<lambda>_. True), junk = (\<lambda>_. 170)\<rparr> p0
       [(lit ''a'', VInt 1), (lit ''b'', VStr [65])] = Ret p \<and>
     pack_body p = ser_pack [(lit ''a'', VInt 1), (lit ''b'', VStr [65])] \<and> pack_length p = 39"
  using pack_build_total [of "\<lparr>can_alloc = (\<lambda>_. True), junk = (\<lambda>_. 170)\<rparr>"
      "[(lit ''a'', VInt 1), (lit ''b'', VStr [65])]"]
  by (simp add: ser_pack_def ser_elem_def lit_def UINT32_MAX_def)

section \<open>The readers on arbitrary input\<close>

text \<open>
  C11: whatever bytes a server sends, the string reader stores at most \<^verbatim>\<open>out_size - 1\<close> bytes
  and a terminator, the data reader at most \<^verbatim>\<open>out_size\<close> bytes.
\<close>

theorem pack_get_bounds:
  "(case pack_get_str body f n of Some s \<Rightarrow> length s < n | None \<Rightarrow> True) \<and>
   (case pack_get_data body f n of Some d \<Rightarrow> length d \<le> n | None \<Rightarrow> True)"
  by (auto simp: pack_get_str_def pack_get_data_def pack_read_string_safe_def Let_def
      min_def split: option.splits if_splits Option.bind_splits)

end
