(* ===== verification/Net_Io.thy ===== *)
theory Net_Io
  imports Prelude
begin

text \<open>
  Reading and writing byte streams. A TLS or TCP read returns at least one and at most the
  requested number of bytes, how many being up to the peer and the record layer: \<open>chunk\<close>
  says what the \<open>n\<close>-th call offers. A stream that has run dry is the error return (closed,
  timed out or failed: the callers do not tell them apart). Writes are symmetric:
  \<open>room\<close> bytes are accepted before the socket fails. The retry on \<^verbatim>\<open>EAGAIN\<close> of the raw
  socket loops is the call that does return.
\<close>

section \<open>Reads\<close>

record instream =
  avail :: bytes
  chunk :: "nat \<Rightarrow> nat"
  calls :: nat

definition sock_read :: "nat \<Rightarrow> instream \<Rightarrow> bytes \<times> instream" where
  "sock_read n s = (let r = min n (Suc (chunk s (calls s)))
     in (take r (avail s), s\<lparr>avail := drop r (avail s), calls := calls s + 1\<rparr>))"

text \<open>
  The read-exactly loop: \<^verbatim>\<open>while (total < len) { ret = read(len - total); if (ret <= 0) return -1; ... }\<close>.
\<close>

function read_all :: "nat \<Rightarrow> instream \<Rightarrow> bytes option \<times> instream" where
  "read_all n s = (if n = 0 then (Some [], s)
     else let (bs, s') = sock_read n s in
       if bs = [] then (None, s')
       else let (r, s'') = read_all (n - length bs) s' in (map_option ((@) bs) r, s''))"
  by pat_completeness auto
termination
  by (relation "measure fst") (auto simp: sock_read_def Let_def)

declare read_all.simps [simp del]

lemma read_all_0 [simp]: "read_all 0 s = (Some [], s)"
  by (simp add: read_all.simps)

text \<open>
  The loop gets exactly the bytes asked for, however the stream is cut up, and stops
  behind them; when the stream is too short it fails having used it up.
\<close>

lemma read_all_exact:
  "fst (read_all n s) = (if n \<le> length (avail s) then Some (take n (avail s)) else None) \<and>
   avail (snd (read_all n s)) = drop n (avail s)"
proof (induction n s rule: read_all.induct)
  case (1 n s)
  show ?case
  proof (cases "n = 0 \<or> avail s = []")
    case True
    then show ?thesis
      by (cases "n = 0") (auto simp: read_all.simps [of n s] sock_read_def Let_def)
  next
    case False
    obtain bs s' where r: "sock_read n s = (bs, s')" by fastforce
    let ?k = "min n (Suc (chunk s (calls s)))"
    have bs: "bs = take ?k (avail s)" and s': "avail s' = drop ?k (avail s)"
      using r by (auto simp: sock_read_def Let_def)
    have ne: "bs \<noteq> []" using False bs by (cases "avail s") auto
    have ih: "fst (read_all (n - length bs) s') =
        (if n - length bs \<le> length (avail s') then Some (take (n - length bs) (avail s')) else None) \<and>
        avail (snd (read_all (n - length bs) s')) = drop (n - length bs) (avail s')"
      using 1 False r ne by auto
    have step: "read_all n s = (map_option ((@) bs) (fst (read_all (n - length bs) s')),
        snd (read_all (n - length bs) s'))"
      using False r ne by (simp add: read_all.simps [of n s] split: prod.split)
    show ?thesis
    proof (cases "?k \<le> length (avail s)")
      case True
      then have "length bs = ?k" using bs by simp
      then have "n - length bs + ?k = n" by simp
      moreover have "take n (avail s) = bs @ take (n - length bs) (avail s')"
        using True bs s' \<open>length bs = ?k\<close> take_add [of ?k "n - ?k" "avail s"] by simp
      ultimately show ?thesis
        using ih step True \<open>length bs = ?k\<close> s' by (auto simp: add.commute)
    next
      case short: False
      then have "bs = avail s" "avail s' = []" "length (avail s) < n" using bs s' by auto
      then show ?thesis using ih step by simp
    qed
  qed
qed

lemma read_all_ok:
  assumes "avail s = d @ r" "length d = n"
  obtains s' where "read_all n s = (Some d, s')" "avail s' = r"
  using assms read_all_exact [of n s] by (metis append_eq_conv_conj le_add1 length_append prod.collapse)

lemma read_all_short: "length (avail s) < n \<Longrightarrow> fst (read_all n s) = None"
  using read_all_exact [of n s] by simp

lemma read_all_SomeD:
  "read_all n s = (Some d, s') \<Longrightarrow> avail s = d @ avail s' \<and> length d = n"
  using read_all_exact [of n s] by (auto split: if_splits)

section \<open>Writes\<close>

text \<open>What was accepted so far, and how much more will be.\<close>

record outstream =
  written :: bytes
  wroom :: nat
  wchunk :: "nat \<Rightarrow> nat"
  wcalls :: nat

definition sock_write :: "bytes \<Rightarrow> outstream \<Rightarrow> nat \<times> outstream" where
  "sock_write bs s = (let r = min (min (length bs) (Suc (wchunk s (wcalls s)))) (wroom s)
     in (r, s\<lparr>written := written s @ take r bs, wroom := wroom s - r, wcalls := wcalls s + 1\<rparr>))"

function write_all :: "bytes \<Rightarrow> outstream \<Rightarrow> bool \<times> outstream" where
  "write_all bs s = (if bs = [] then (True, s)
     else let (r, s') = sock_write bs s in
       if r = 0 then (False, s') else write_all (drop r bs) s')"
  by pat_completeness auto
termination
  by (relation "measure (length o fst)") (auto simp: sock_write_def Let_def)

declare write_all.simps [simp del]

lemma write_all_Nil [simp]: "write_all [] s = (True, s)"
  by (simp add: write_all.simps)

lemma write_all_exact:
  "fst (write_all bs s) = (length bs \<le> wroom s) \<and>
   written (snd (write_all bs s)) = written s @ take (wroom s) bs \<and>
   wroom (snd (write_all bs s)) = wroom s - length bs"
proof (induction bs s rule: write_all.induct)
  case (1 bs s)
  show ?case
  proof (cases "bs = [] \<or> wroom s = 0")
    case True
    then show ?thesis
      by (cases "bs = []") (auto simp: write_all.simps [of bs s] sock_write_def Let_def)
  next
    case False
    obtain r s' where r: "sock_write bs s = (r, s')" by fastforce
    have r1: "0 < r" "r \<le> length bs" "r \<le> wroom s" and
      s': "written s' = written s @ take r bs" "wroom s' = wroom s - r"
      using r False by (auto simp: sock_write_def Let_def min_def)
    have step: "write_all bs s = write_all (drop r bs) s'"
      using False r r1 by (simp add: write_all.simps [of bs s])
    have "take (wroom s) bs = take r bs @ take (wroom s - r) (drop r bs)"
      using r1 take_add [of r "wroom s - r" bs] by simp
    with step 1 False r r1 s' show ?thesis by auto
  qed
qed

end
