(* ===== verification/Http.thy ===== *)
theory Http
  imports Net_Io
begin

text \<open>
  The HTTP exchange that carries the login (\<^verbatim>\<open>read_http_response\<close> and the request of
  \<^verbatim>\<open>send_vpnconnect_watermark\<close>, \<^verbatim>\<open>softether_protocol.c\<close>). The response is read from the
  same TLS stream the data channel uses afterwards, so it must be read exactly. The libc
  calls on the header text are written out: \<^verbatim>\<open>strstr\<close> and \<^verbatim>\<open>atoi\<close>. \<^verbatim>\<open>atoi\<close> out of the
  range of \<^verbatim>\<open>int\<close> is undefined in C; here it saturates at 64 bits and is then reduced to 32,
  as bionic's cast of \<^verbatim>\<open>strtol\<close> does on the 64-bit targets. The sum of the header length
  and the announced length is an \<^verbatim>\<open>int\<close>: where it overflows the model ends in \<open>Fault\<close>.
\<close>

section \<open>libc\<close>

definition is_prefix :: "bytes \<Rightarrow> bytes \<Rightarrow> bool" where
  "is_prefix t s \<longleftrightarrow> take (length t) s = t"

text \<open>The suffix that starts at the first occurrence.\<close>

fun strstr :: "bytes \<Rightarrow> bytes \<Rightarrow> bytes option" where
  "strstr [] t = (if t = [] then Some [] else None)"
| "strstr (c # s) t = (if is_prefix t (c # s) then Some (c # s) else strstr s t)"

definition is_space :: "byte \<Rightarrow> bool" where
  "is_space c \<longleftrightarrow> c = 32 \<or> (9 \<le> c \<and> c \<le> 13)"

definition is_digit :: "byte \<Rightarrow> bool" where
  "is_digit c \<longleftrightarrow> 48 \<le> c \<and> c \<le> 57"

definition digits_value :: "bytes \<Rightarrow> int" where
  "digits_value ds = foldl (\<lambda>v d. 10 * v + int (unat (d - 48))) 0 ds"

text \<open>A decimal number behind optional blanks and sign, with what follows it; \<open>None\<close> without digits.\<close>

definition scan_int :: "bytes \<Rightarrow> (int \<times> bytes) option" where
  "scan_int s = (let t = dropWhile is_space s;
       (neg, u) = (case t of c # r \<Rightarrow> if c = 45 then (True, r) else if c = 43 then (False, r) else (False, t)
                   | [] \<Rightarrow> (False, t));
       ds = takeWhile is_digit u
     in if ds = [] then None
        else Some (if neg then - digits_value ds else digits_value ds, dropWhile is_digit u))"

definition atoi :: "bytes \<Rightarrow> int" where
  "atoi s = (case scan_int s of Some (v, _) \<Rightarrow> max (- (2 ^ 63)) (min (2 ^ 63 - 1) v) | None \<Rightarrow> 0)"

text \<open>The value of a 32-bit pattern as \<^verbatim>\<open>int\<close>.\<close>

definition as_int :: "u32 \<Rightarrow> int" where
  "as_int w = sint w"

section \<open>Reading a response\<close>

definition CRLF2 :: bytes where
  "CRLF2 = [13, 10, 13, 10]"

definition ends_crlf2 :: "bytes \<Rightarrow> bool" where
  "ends_crlf2 h \<longleftrightarrow> 4 \<le> length h \<and> drop (length h - 4) h = CRLF2"

text \<open>
  The header loop, one byte per read; \<open>k\<close> is the room left (\<^verbatim>\<open>buf_size - 1 - hdr_len\<close>) and
  \<open>h\<close> what \<^verbatim>\<open>buf\<close> holds.
\<close>

fun read_headers :: "nat \<Rightarrow> bytes \<Rightarrow> instream \<Rightarrow> bytes option \<times> instream" where
  "read_headers 0 h s = (None, s)"
| "read_headers (Suc k) h s = (let (b, s') = sock_read 1 s in
     if b = [] then (None, s')
     else if ends_crlf2 (h @ b) then (Some (h @ b), s')
     else read_headers k (h @ b) s')"

definition content_length_of :: "bytes \<Rightarrow> u32" where
  "content_length_of h = (let txt = cstr_of h in
     case (case strstr txt (lit ''Content-Length: '') of
             Some p \<Rightarrow> Some p | None \<Rightarrow> strstr txt (lit ''content-length: '')) of
       Some cl \<Rightarrow> word_of_int (atoi (drop 16 cl))
     | None \<Rightarrow> 0)"

text \<open>
  \<^verbatim>\<open>hdr_len + (int)content_length\<close> is computed in a 32-bit \<^verbatim>\<open>int\<close> before it is compared with
  the size of the buffer. The header length is not negative, so only the upper bound can be
  passed: a length close to \<^verbatim>\<open>INT_MAX\<close> overflows, which C leaves undefined (where the sum wraps,
  the check passes and the body is read past the array).
\<close>

definition length_overflows :: "bytes \<Rightarrow> u32 \<Rightarrow> bool" where
  "length_overflows h cl \<longleftrightarrow> int (length h) + as_int cl \<ge> 2 ^ 31"

text \<open>
  The contents of \<^verbatim>\<open>buf\<close> up to \<^verbatim>\<open>body_offset\<close> and the body. A negative length passes the
  \<^verbatim>\<open>int\<close> comparison with \<^verbatim>\<open>buf_size\<close> and is then handed to \<^verbatim>\<open>SSL_read\<close>, which rejects it.
\<close>

definition read_http_response :: "nat \<Rightarrow> instream \<Rightarrow> (bytes \<times> bytes) outcome \<times> instream" where
  "read_http_response buf_size s = (case read_headers (buf_size - 1) [] s of
     (None, s') \<Rightarrow> (Fail, s')
   | (Some h, s') \<Rightarrow> (let cl = content_length_of h in
       if cl > 0 then
         if length_overflows h cl then (Fault, s')
         else if int (length h) + as_int cl > int buf_size then (Fail, s')
         else if as_int cl < 0 then (Fail, s')
         else (case read_all (unat cl) s' of
             (None, s'') \<Rightarrow> (Fail, s'')
           | (Some b, s'') \<Rightarrow> (Ret (h, b), s''))
       else (Ret (h, []), s')))"

section \<open>The watermark request\<close>

definition vpnconnect_head :: "bytes \<Rightarrow> bytes" where
  "vpnconnect_head server_ip = lit ''POST /vpnsvc/connect.cgi HTTP/1.1'' @ [13, 10] @
     lit ''Host: '' @ server_ip @ [13, 10] @
     lit ''Content-Type: image/jpeg'' @ [13, 10] @
     lit ''Connection: Keep-Alive'' @ [13, 10] @
     lit ''Content-Length: 10'' @ [13, 10] @ [13, 10]"

text \<open>
  The combined buffer: \<^verbatim>\<open>snprintf\<close> returns the length the text would have had, and that many
  bytes are copied out of the 1024-byte array.
\<close>

definition watermark_request :: "bytes \<Rightarrow> bytes outcome" where
  "watermark_request server_ip = (let full = vpnconnect_head server_ip; post_len = length full;
       http_post = take 1023 full @ [0] @ replicate (1023 - length full) 0
     in case read_at http_post 0 post_len of
          None \<Rightarrow> Fault
        | Some hdr \<Rightarrow> Ret (hdr @ lit ''VPNCONNECT''))"

section \<open>The response is read exactly\<close>

text \<open>A header block: it ends in an empty line and has none before.\<close>

definition http_head :: "bytes \<Rightarrow> bool" where
  "http_head h \<longleftrightarrow> ends_crlf2 h \<and> list_all (\<lambda>k. \<not> ends_crlf2 (take k h)) [0..<length h]"

lemma sock_read_1:
  "avail s = c # r \<Longrightarrow> sock_read 1 s = ([c], s\<lparr>avail := r, calls := calls s + 1\<rparr>)"
  by (simp add: sock_read_def)

lemma read_headers_exact:
  assumes "http_head (h @ t)" "t \<noteq> []" "avail s = t @ r" "length t \<le> k"
  shows "\<exists>s'. read_headers k h s = (Some (h @ t), s') \<and> avail s' = r"
  using assms
proof (induction t arbitrary: k h s)
  case (Cons c t)
  then obtain k' where k: "k = Suc k'" by (cases k) auto
  let ?s = "s\<lparr>avail := t @ r, calls := calls s + 1\<rparr>"
  have rd: "sock_read 1 s = ([c], ?s)" using sock_read_1 [of s c "t @ r"] Cons.prems by simp
  show ?case
  proof (cases "t = []")
    case True
    with Cons.prems rd k show ?thesis by (simp add: http_head_def)
  next
    case False
    have "\<not> ends_crlf2 (h @ [c])"
    proof -
      have "take (Suc (length h)) (h @ c # t) = h @ [c]" by simp
      moreover have "Suc (length h) < length (h @ c # t)" using False by (cases t) auto
      ultimately show ?thesis using Cons.prems(1)
        unfolding http_head_def list_all_iff by (metis atLeastLessThan_iff set_upt zero_le)
    qed
    with rd k have "read_headers k h s = read_headers k' (h @ [c]) ?s" by simp
    with Cons.IH [of "h @ [c]" ?s k'] Cons.prems False k show ?thesis by simp
  qed
qed simp

lemma http_response_exact:
  assumes "http_head h" "avail s = h @ b @ r"
    and "content_length_of h = word_of_nat (length b)"
    and "length h + length b < N" "N < 2 ^ 31"
  shows "fst (read_http_response N s) = Ret (h, b) \<and> avail (snd (read_http_response N s)) = r"
proof -
  have ne: "h \<noteq> []" using assms(1) by (auto simp: http_head_def ends_crlf2_def)
  obtain s1 where h: "read_headers (N - 1) [] s = (Some h, s1)" and s1: "avail s1 = b @ r"
    using read_headers_exact [of "[]" h s "b @ r" "N - 1"] assms ne by fastforce
  have lb: "length b < 2 ^ 31" using assms(4,5) by simp
  then have un: "unat (word_of_nat (length b) :: u32) = length b"
    and si: "sint (word_of_nat (length b) :: u32) = int (length b)"
    by (simp_all add: unat_of_nat signed_of_nat signed_take_bit_int_eq_self)
  obtain s2 where b: "read_all (length b) s1 = (Some b, s2)" and s2: "avail s2 = r"
    using read_all_ok [OF s1, of "length b"] by auto
  show ?thesis
  proof (cases "b = []")
    case True
    with h s1 assms(3) show ?thesis by (simp add: read_http_response_def)
  next
    case False
    with un have "(word_of_nat (length b) :: u32) > 0"
      by (metis length_0_conv unat_0 word_gt_0)
    with h b s2 un si assms(3-5) show ?thesis
      by (simp add: read_http_response_def as_int_def length_overflows_def)
  qed
qed

lemma read_headers_length:
  "read_headers k h s = (Some h', s') \<Longrightarrow> length h' \<le> length h + k \<and> ends_crlf2 h'"
proof (induction k arbitrary: h s)
  case (Suc k)
  obtain b s1 where r: "sock_read 1 s = (b, s1)" by (rule prod.exhaust)
  then have "length b \<le> 1" by (auto simp: sock_read_def Let_def)
  with Suc.prems Suc.IH [of "h @ b" s1] r show ?case
    by (auto simp: Let_def split: if_splits)
qed simp

lemma as_int_unat: "0 \<le> as_int cl \<Longrightarrow> as_int cl = int (unat cl)"
  using sint_lt [of cl] uint_sint [of cl] by (simp add: as_int_def take_bit_int_eq_self)

lemma read_http_response_cases:
  assumes "read_headers (N - 1) [] s = (Some h, s1)"
  shows "fst (read_http_response N s) = Fault \<longleftrightarrow>
      0 < content_length_of h \<and> length_overflows h (content_length_of h)"
    "fst (read_http_response N s) = Ret (h', b) \<Longrightarrow>
      h' = h \<and> length b = unat (content_length_of h) \<and> length h + length b \<le> N"
proof -
  let ?cl = "content_length_of h"
  show "fst (read_http_response N s) = Fault \<longleftrightarrow> 0 < ?cl \<and> length_overflows h ?cl"
    using assms by (simp add: read_http_response_def Let_def split: prod.split option.split)
  assume r: "fst (read_http_response N s) = Ret (h', b)"
  have h: "length h \<le> N" using read_headers_length [OF assms] by auto
  show "h' = h \<and> length b = unat ?cl \<and> length h + length b \<le> N"
  proof (cases "?cl > 0")
    case True
    with assms r have cl: "0 \<le> as_int ?cl" "int (length h) + as_int ?cl \<le> int N" "h' = h"
      and b: "fst (read_all (unat ?cl) s1) = Some b"
      by (auto simp: read_http_response_def Let_def split: prod.splits option.splits if_splits)
    have "length b = unat ?cl" using b read_all_exact [of "unat ?cl" s1] by (auto split: if_splits)
    moreover have "as_int ?cl = int (unat ?cl)"
      using cl(1) as_int_unat by blast
    ultimately show ?thesis using cl(2,3) by linarith
  next
    case False
    then have "?cl = 0" by (simp add: word_gt_0)
    with assms r h show ?thesis by (simp add: read_http_response_def)
  qed
qed

text \<open>
  An HTTP response is read exactly. For a header block \<open>h\<close> announcing the length of the
  body \<open>b\<close>, both fitting the buffer, the reader returns \<open>h\<close> and \<open>b\<close> and leaves in the stream
  precisely the bytes \<open>r\<close> that follow, however the records cut the stream up: nothing of
  the data channel is consumed.
\<close>

theorem read_http_response_exact:
  assumes "http_head h" "avail s = h @ b @ r"
    and "content_length_of h = word_of_nat (length b)"
    and "length h + length b < N" "N < 2 ^ 31"
  shows "fst (read_http_response N s) = Ret (h, b) \<and> avail (snd (read_http_response N s)) = r"
  by (rule http_response_exact [OF assms])

theorem read_http_response_exact_witness:
  "fst (read_http_response 64 \<lparr>avail = lit ''Content-Length: 2'' @ CRLF2 @ [7, 8, 9],
     chunk = (\<lambda>n. n), calls = 0\<rparr>) = Ret (lit ''Content-Length: 2'' @ CRLF2, [7, 8])"
proof -
  have "http_head (lit ''Content-Length: 2'' @ CRLF2)" by code_simp
  moreover have "content_length_of (lit ''Content-Length: 2'' @ CRLF2) = word_of_nat (length [7, 8 :: byte])"
    by code_simp
  moreover have "length (lit ''Content-Length: 2'' @ CRLF2) + length [7, 8 :: byte] < 64"
    by (simp add: lit_def CRLF2_def)
  ultimately show ?thesis
    using read_http_response_exact [of "lit ''Content-Length: 2'' @ CRLF2"
      "\<lparr>avail = lit ''Content-Length: 2'' @ CRLF2 @ [7, 8, 9], chunk = (\<lambda>n. n), calls = 0\<rparr>"
      "[7, 8]" "[9]" 64] by simp
qed

text \<open>
  What the reader may do to its buffer, for any bytes the server sends. A response it
  returns lies within the \<open>N\<close> bytes of the array, header block, terminator and body, and the
  body has the announced length. It runs into undefined behaviour for exactly one reason: a
  header block whose announced length, added to its own, is not an \<^verbatim>\<open>int\<close>. A server can send
  one: the comparison that should refuse a large body is the one that overflows.
\<close>

theorem http_reader_bounds:
  assumes "N < 2 ^ 31"
  shows "(\<forall>h b. fst (read_http_response N s) = Ret (h, b) \<longrightarrow>
      length h < N \<and> length h + length b \<le> N \<and> length b = unat (content_length_of h)) \<and>
   (fst (read_http_response N s) = Fault \<longleftrightarrow>
      (\<exists>h. fst (read_headers (N - 1) [] s) = Some h \<and>
         int (length h) + sint (content_length_of h) \<ge> 2 ^ 31))"
proof (cases "fst (read_headers (N - 1) [] s)")
  case None
  then show ?thesis by (cases "read_headers (N - 1) [] s") (simp add: read_http_response_def)
next
  case (Some h)
  then obtain s1 where r: "read_headers (N - 1) [] s = (Some h, s1)" by (cases "read_headers (N - 1) [] s") simp
  have l: "length h \<le> N - 1" "4 \<le> length h"
    using read_headers_length [OF r] by (auto simp: ends_crlf2_def)
  have ov: "0 < content_length_of h" if "length_overflows h (content_length_of h)"
  proof (rule ccontr)
    assume "\<not> 0 < content_length_of h"
    then have "content_length_of h = 0" by (simp add: word_gt_0)
    with that l assms show False by (simp add: length_overflows_def as_int_def)
  qed
  show ?thesis
    using Some l ov read_http_response_cases [OF r] by (auto simp: length_overflows_def as_int_def)
qed

theorem http_reader_bounds_witness:
  "fst (read_http_response 4096 \<lparr>avail = lit ''Content-Length: 2147483647'' @ CRLF2,
     chunk = (\<lambda>n. n), calls = 0\<rparr>) = Fault"
proof -
  let ?h = "lit ''Content-Length: 2147483647'' @ CRLF2"
  let ?s = "\<lparr>avail = ?h, chunk = (\<lambda>n. n), calls = 0\<rparr>"
  have "http_head ?h" by code_simp
  then have "fst (read_headers 4095 [] ?s) = Some ?h"
    using read_headers_exact [of "[]" ?h ?s "[]" 4095] by (auto simp: lit_def CRLF2_def)
  moreover have "int (length ?h) + sint (content_length_of ?h) \<ge> 2 ^ 31" by code_simp
  ultimately show ?thesis using http_reader_bounds [of 4096 ?s] by simp
qed

text \<open>
  The watermark request. For host names of up to 908 characters the request sent is the
  complete header followed by the watermark; with 909 its last character is the terminator;
  from 910 characters on the copy reads beyond the 1024-byte array that \<^verbatim>\<open>snprintf\<close>
  truncated the header into.
\<close>

theorem watermark_request_bounds:
  "watermark_request host =
     (if length host \<le> 908 then Ret (vpnconnect_head host @ lit ''VPNCONNECT'')
      else if length host = 909 then Ret (take 1023 (vpnconnect_head host) @ [0] @ lit ''VPNCONNECT'')
      else Fault)"
proof -
  have "length (vpnconnect_head host) = 115 + length host"
    by (simp add: vpnconnect_head_def lit_def)
  then show ?thesis by (auto simp: watermark_request_def Let_def read_at_def)
qed

end
