(* ===== verification/Login.thy ===== *)
theory Login
  imports Pack Crypto Http
begin

text \<open>
  The login exchange of \<^verbatim>\<open>softether_protocol.c\<close>: its own copies of the PACK helpers, the
  parser of the server Hello, the login PACK with its hand-computed element count and
  buffer size, the password chain, and what a Welcome PACK sets in the connection.
  OpenSSL's SHA-1, \<^verbatim>\<open>inet_addr\<close>, \<^verbatim>\<open>rand\<close> and \<^verbatim>\<open>getsockname\<close> are parameters.
\<close>

section \<open>The local PACK helpers\<close>

definition softether_endian32 :: "u32 \<Rightarrow> u32" where
  "softether_endian32 x = (case put_be32 x of [a, b, c, d] \<Rightarrow> get_be32 [d, c, b, a] | _ \<Rightarrow> 0)"

text \<open>The bytes copied to \<^verbatim>\<open>out\<close> and the position behind the value.\<close>

definition pack_read_data_safe :: "bytes \<Rightarrow> nat \<Rightarrow> (bytes \<times> bytes) option" where
  "pack_read_data_safe p out_size = do {
     (data_len, p) \<leftarrow> pack_read_uint32_safe p;
     if length p < unat data_len then None
     else Some (take (if unat data_len < out_size then unat data_len else out_size) p,
                drop (unat data_len) p) }"

definition buffer_contains_token :: "bytes \<Rightarrow> bytes \<Rightarrow> bool" where
  "buffer_contains_token buf token =
     (if token = [] \<or> length buf < length token then False
      else list_ex (\<lambda>i. take (length token) (drop i buf) = token) [0..<length buf - length token + 1])"

text \<open>
  The element header as this file reads it: name (cut to 63 bytes), type, value count and
  the position of the first value.
\<close>

definition proto_elem_header :: "bytes \<Rightarrow> (bytes \<times> u32 \<times> nat \<times> bytes) option" where
  "proto_elem_header p = do {
     (name_len_plus1, p) \<leftarrow> pack_read_uint32_safe p;
     if name_len_plus1 = 0 then None else do {
       let name_len = unat (name_len_plus1 - 1);
       if length p < name_len then None else do {
         let elem = cstr_of (take (if name_len < 63 then name_len else 63) p);
         (type, p) \<leftarrow> pack_read_uint32_safe (drop name_len p);
         (num_values, p) \<leftarrow> pack_read_uint32_safe p;
         if unat num_values > 65535 then None else Some (elem, type, unat num_values, p) } } }"

text \<open>The element loop of the local \<^verbatim>\<open>pack_get_*\<close>, up to the first value of the match.\<close>

fun proto_find :: "nat \<Rightarrow> bytes \<Rightarrow> bytes \<Rightarrow> u32 \<Rightarrow> bytes option" where
  "proto_find 0 p field_name t = None"
| "proto_find (Suc n) p field_name t = do {
     (elem, type, num_values, p) \<leftarrow> proto_elem_header p;
     if elem = field_name \<and> type = t \<and> num_values \<ge> 1 then Some p
     else do { p \<leftarrow> pack_skip_values num_values type p; proto_find n p field_name t } }"

definition proto_seek :: "bytes \<Rightarrow> bytes \<Rightarrow> u32 \<Rightarrow> bytes option" where
  "proto_seek body field_name t = (if length body < 4 then None else do {
     (n, p) \<leftarrow> pack_read_uint32_safe body;
     if unat n > 4096 then None else proto_find (unat n) p field_name t })"

definition proto_get_int :: "bytes \<Rightarrow> bytes \<Rightarrow> u32 option" where
  "proto_get_int body field_name = do {
     p \<leftarrow> proto_seek body field_name PACK_TYPE_INT;
     (v, _) \<leftarrow> pack_read_uint32_safe p;
     Some v }"

definition proto_get_str :: "bytes \<Rightarrow> bytes \<Rightarrow> nat \<Rightarrow> bytes option" where
  "proto_get_str body field_name out_size = (if out_size = 0 then None else do {
     p \<leftarrow> proto_seek body field_name PACK_TYPE_STR;
     (str_len, p) \<leftarrow> pack_read_uint32_safe p;
     if length p < unat str_len then None
     else Some (take (if unat str_len < out_size - 1 then unat str_len else out_size - 1) p) })"

definition proto_get_data :: "bytes \<Rightarrow> bytes \<Rightarrow> nat \<Rightarrow> bytes option" where
  "proto_get_data body field_name out_size = (if out_size = 0 then None else do {
     p \<leftarrow> proto_seek body field_name PACK_TYPE_DATA;
     (data_len, p) \<leftarrow> pack_read_uint32_safe p;
     if length p < unat data_len then None
     else Some (take (if unat data_len < out_size then unat data_len else out_size) p) })"

section \<open>The server Hello\<close>

record server_hello_info_t =
  sh_version :: u32
  sh_build :: u32
  sh_random :: bytes
  sh_hello :: bytes
  has_hello :: bool
  has_version :: bool
  has_random :: bool

definition hello0 :: server_hello_info_t where
  "hello0 = \<lparr>sh_version = 0, sh_build = 0, sh_random = replicate 20 0, sh_hello = [],
     has_hello = False, has_version = False, has_random = False\<rparr>"

text \<open>One element with at least one value: the fields of interest, else all values skipped.\<close>

definition hello_element ::
  "bytes \<Rightarrow> u32 \<Rightarrow> nat \<Rightarrow> bytes \<Rightarrow> server_hello_info_t \<Rightarrow> (server_hello_info_t \<times> bytes) option" where
  "hello_element name type num_values p info =
     (if num_values = 0 then Some (info, p)
      else if name = lit ''hello'' \<and> type = PACK_TYPE_STR then do {
        (s, p) \<leftarrow> pack_read_string_safe p 64;
        p \<leftarrow> pack_skip_values (num_values - 1) type p;
        Some (info\<lparr>sh_hello := s, has_hello := True\<rparr>, p) }
      else if name = lit ''version'' \<and> type = PACK_TYPE_INT then do {
        (v, p) \<leftarrow> pack_read_uint32_safe p;
        p \<leftarrow> pack_skip_values (num_values - 1) type p;
        Some (info\<lparr>sh_version := v, has_version := True\<rparr>, p) }
      else if name = lit ''random'' \<and> type = PACK_TYPE_DATA then do {
        (d, p) \<leftarrow> pack_read_data_safe p 20;
        p \<leftarrow> pack_skip_values (num_values - 1) type p;
        Some (info\<lparr>sh_random := d @ drop (length d) (sh_random info), has_random := True\<rparr>, p) }
      else do { p \<leftarrow> pack_skip_values num_values type p; Some (info, p) })"

fun hello_elements :: "nat \<Rightarrow> bytes \<Rightarrow> server_hello_info_t \<Rightarrow> server_hello_info_t option" where
  "hello_elements 0 p info = Some info"
| "hello_elements (Suc n) p info = do {
     (name, type, num_values, p) \<leftarrow> proto_elem_header p;
     (info, p) \<leftarrow> hello_element name type num_values p info;
     hello_elements n p info }"

definition parse_server_hello :: "bytes \<Rightarrow> server_hello_info_t option" where
  "parse_server_hello body = (if length body < 4 then None else do {
     (n, p) \<leftarrow> pack_read_uint32_safe body;
     if unat n > 4096 then None else hello_elements (unat n) p hello0 })"

section \<open>The password chain\<close>

definition upper_byte :: "byte \<Rightarrow> byte" where
  "upper_byte c = (if 97 \<le> c \<and> c \<le> 122 then c - 32 else c)"

text \<open>
  \<open>secure_password\<close> stays zeroed when one of the two allocations fails. The server random is
  \<open>None\<close> when no Hello supplied one.
\<close>

definition secure_password_of :: "heap_env \<Rightarrow> bytes \<Rightarrow> bytes \<Rightarrow> bytes option \<Rightarrow> bytes" where
  "secure_password_of env password username server_random =
     (if can_alloc env (length username + 1) \<and> can_alloc env (length password + length username) then
        let hashed_pw = sha0_hash (password @ map upper_byte username)
        in (case server_random of
              Some r \<Rightarrow> sha0_hash (hashed_pw @ r)
            | None \<Rightarrow> hashed_pw)
      else replicate 20 0)"

definition CLIENT_AUTHTYPE_ANONYMOUS :: nat where "CLIENT_AUTHTYPE_ANONYMOUS = 0"
definition CLIENT_AUTHTYPE_PASSWORD :: nat where "CLIENT_AUTHTYPE_PASSWORD = 1"
definition CLIENT_AUTHTYPE_PLAIN_PASSWORD :: nat where "CLIENT_AUTHTYPE_PLAIN_PASSWORD = 2"

lemmas authtypes = CLIENT_AUTHTYPE_ANONYMOUS_def CLIENT_AUTHTYPE_PASSWORD_def
  CLIENT_AUTHTYPE_PLAIN_PASSWORD_def

definition choose_auth_type :: "nat \<Rightarrow> bytes \<Rightarrow> nat" where
  "choose_auth_type forced password =
     (if forced = CLIENT_AUTHTYPE_PLAIN_PASSWORD then CLIENT_AUTHTYPE_PLAIN_PASSWORD
      else if forced = CLIENT_AUTHTYPE_PASSWORD then CLIENT_AUTHTYPE_PASSWORD
      else if length password > 0 then CLIENT_AUTHTYPE_PASSWORD else CLIENT_AUTHTYPE_ANONYMOUS)"

section \<open>The login PACK\<close>

text \<open>The fields of \<^verbatim>\<open>softether_connection_t\<close> the login reports, and of the UDP context.\<close>

record client_info =
  client_product_name :: bytes
  client_product_version :: bytes
  client_product_build :: int
  client_os_name :: bytes
  client_os_version :: bytes
  client_os_product_id :: bytes
  client_host_name :: bytes
  client_ip_address :: bytes
  client_port :: int
  server_host_name :: bytes
  server_ip_address :: bytes
  server_port_reported :: int
  client_ip_v6 :: bytes
  ci_half_connection :: bool
  ci_socket_fd :: int

record login_rudp =
  my_key :: bytes
  my_key_v2 :: bytes
  my_cookie :: u32
  my_port :: u32

text \<open>The outside world of the builder.\<close>

record login_env =
  lheap :: heap_env
  rand :: "nat \<Rightarrow> nat"
  lsha1 :: "bytes \<Rightarrow> bytes"
  inet_addr :: "bytes \<Rightarrow> u32"
  local_port :: "u32 option"

text \<open>\<^verbatim>\<open>sscanf(s, "%d.%d.%d", ...)\<close>: conversion stops at the first mismatch.\<close>

definition scan_version :: "bytes \<Rightarrow> int \<times> int \<times> int" where
  "scan_version s = (case scan_int s of
     Some (a, d # r) \<Rightarrow> if d \<noteq> 46 then (a, 0, 0) else (case scan_int r of
       Some (b, d' # r') \<Rightarrow> if d' \<noteq> 46 then (a, b, 0) else (case scan_int r' of
         Some (c, _) \<Rightarrow> (a, b, c)
       | None \<Rightarrow> (a, b, 0))
     | Some (b, []) \<Rightarrow> (a, b, 0)
     | None \<Rightarrow> (a, 0, 0))
   | Some (a, []) \<Rightarrow> (a, 0, 0)
   | None \<Rightarrow> (0, 0, 0))"

definition product_ver_int :: "bytes \<Rightarrow> u32" where
  "product_ver_int v = (if v = [] then 0
     else case scan_version v of (major, minor, patch) \<Rightarrow> word_of_int (major * 100 + minor * 10 + patch))"

text \<open>One local \<^verbatim>\<open>pack_add_*\<close> call; the data pointer may be NULL.\<close>

datatype pack_call = AddInt bytes u32 | AddStr bytes bytes | AddData bytes "bytes option" nat

fun proto_pack_add :: "pack_call \<Rightarrow> cursor \<Rightarrow> cursor option" where
  "proto_pack_add (AddInt name val) c = do {
     c \<leftarrow> pack_write_elem_name name c;
     c \<leftarrow> pack_write_uint32 PACK_TYPE_INT c;
     c \<leftarrow> pack_write_uint32 1 c;
     pack_write_uint32 val c }"
| "proto_pack_add (AddStr name val) c = do {
     c \<leftarrow> pack_write_elem_name name c;
     c \<leftarrow> pack_write_uint32 PACK_TYPE_STR c;
     c \<leftarrow> pack_write_uint32 1 c;
     pack_write_str_val val c }"
| "proto_pack_add (AddData name d dlen) c = do {
     c \<leftarrow> pack_write_elem_name name c;
     c \<leftarrow> pack_write_uint32 PACK_TYPE_DATA c;
     c \<leftarrow> pack_write_uint32 1 c;
     pack_write_data_val d dlen c }"

fun proto_pack_calls :: "pack_call list \<Rightarrow> cursor \<Rightarrow> cursor option" where
  "proto_pack_calls [] c = Some c"
| "proto_pack_calls (a # as) c = proto_pack_add a c \<bind> proto_pack_calls as"

definition client_hello :: bytes where
  "client_hello = lit ''SoftEther VPN Client''"

record login_args =
  hub_name :: bytes
  login_user :: bytes
  auth_type :: nat
  secure_password :: "bytes option"
  plain_password :: "bytes option"
  login_udp :: "login_rudp option"
  info :: client_info

text \<open>The element count as the code adds it up.\<close>

definition login_num_elems :: "login_args \<Rightarrow> nat" where
  "login_num_elems a = 20 + 12 +
     (if client_ip_v6 (info a) \<noteq> [] then 1 else 0) +
     (if login_udp a \<noteq> None then 5 else 0) +
     (if login_udp a \<noteq> None then 8 else 0) +
     (if auth_type a = 1 \<and> secure_password a \<noteq> None then 1 else 0) +
     (if auth_type a = 2 \<and> plain_password a \<noteq> None then 1 else 0)"

text \<open>The sizes the code adds up, a \<^verbatim>\<open>uint32_t\<close> sum that starts at 4.\<close>

definition login_sizes :: "login_args \<Rightarrow> nat \<Rightarrow> nat list" where
  "login_sizes a pencore_size = (let ci = info a in [
     PACK_STR_SZ (lit ''method'') (lit ''login''),
     PACK_STR_SZ (lit ''hubname'') (hub_name a),
     PACK_STR_SZ (lit ''username'') (login_user a),
     PACK_INT_SZ (lit ''authtype''),
     PACK_STR_SZ (lit ''hello'') client_hello,
     PACK_INT_SZ (lit ''version''),
     PACK_INT_SZ (lit ''build''),
     PACK_STR_SZ (lit ''client_str'') client_hello,
     PACK_INT_SZ (lit ''client_ver''),
     PACK_INT_SZ (lit ''client_build''),
     PACK_INT_SZ (lit ''client_id''),
     PACK_INT_SZ (lit ''protocol''),
     PACK_INT_SZ (lit ''max_connection''),
     PACK_INT_SZ (lit ''use_encrypt''),
     PACK_INT_SZ (lit ''use_compress''),
     PACK_INT_SZ (lit ''half_connection''),
     PACK_INT_SZ (lit ''require_bridge_routing_mode''),
     PACK_INT_SZ (lit ''require_monitor_mode''),
     PACK_INT_SZ (lit ''qos''),
     PACK_DATA_SZ (lit ''pencore'') pencore_size,
     PACK_STR_SZ (lit ''ClientProductName'') (client_product_name ci),
     PACK_INT_SZ (lit ''ClientProductVer''),
     PACK_INT_SZ (lit ''ClientProductBuild''),
     PACK_STR_SZ (lit ''ClientOsName'') (client_os_name ci),
     PACK_STR_SZ (lit ''ClientOsVer'') (client_os_version ci),
     PACK_STR_SZ (lit ''ClientOsProductId'') (client_os_product_id ci),
     PACK_STR_SZ (lit ''ClientHostName'') (client_host_name ci),
     PACK_INT_SZ (lit ''ClientIpAddress''),
     PACK_INT_SZ (lit ''ClientPort''),
     PACK_STR_SZ (lit ''ServerHostName'') (server_host_name ci),
     PACK_INT_SZ (lit ''ServerIpAddress''),
     PACK_INT_SZ (lit ''ServerPort2'')] @
     (if client_ip_v6 ci \<noteq> [] then [PACK_STR_SZ (lit ''ClientIpv6Address'') (client_ip_v6 ci)] else []) @
     (if login_udp a \<noteq> None then [
        PACK_INT_SZ (lit ''support_bulk_on_rudp''),
        PACK_INT_SZ (lit ''support_hmac_on_bulk_of_rudp''),
        PACK_INT_SZ (lit ''support_udp_recovery''),
        PACK_DATA_SZ (lit ''unique_id'') 20,
        PACK_INT_SZ (lit ''rudp_bulk_max_version'')] else []) @
     (if login_udp a \<noteq> None then [
        PACK_INT_SZ (lit ''use_udp_acceleration''),
        PACK_DATA_SZ (lit ''udp_acceleration_client_key'') 20,
        PACK_DATA_SZ (lit ''udp_acceleration_client_key_v2'') 128,
        PACK_INT_SZ (lit ''udp_acceleration_client_cookie''),
        PACK_INT_SZ (lit ''udp_acceleration_max_version''),
        PACK_INT_SZ (lit ''support_hmac_on_udp_acceleration''),
        PACK_INT_SZ (lit ''udp_acceleration_client_ip''),
        PACK_INT_SZ (lit ''udp_acceleration_client_port'')] else []) @
     (if auth_type a = 1 \<and> secure_password a \<noteq> None then [PACK_DATA_SZ (lit ''secure_password'') 20] else []) @
     (if auth_type a = 2 then (case plain_password a of
        Some pw \<Rightarrow> [PACK_STR_SZ (lit ''plain_password'') pw] | None \<Rightarrow> []) else []))"

definition login_size :: "login_args \<Rightarrow> nat \<Rightarrow> nat" where
  "login_size a pencore_size = u32n (4 + sum_list (login_sizes a pencore_size))"

text \<open>The \<^verbatim>\<open>pack_add_*\<close> calls in the order they are made.\<close>

definition login_calls :: "login_env \<Rightarrow> login_args \<Rightarrow> bytes option \<Rightarrow> nat \<Rightarrow> pack_call list" where
  "login_calls env a pencore pencore_size = (let ci = info a; udp = login_udp a;
       port = (if client_port ci = 0 \<and> ci_socket_fd ci \<ge> 0
               then (case local_port env of Some p \<Rightarrow> p | None \<Rightarrow> 0) else word_of_int (client_port ci));
       ip = (\<lambda>t. if t \<noteq> [] then inet_addr env t else 0)
     in [AddStr (lit ''method'') (lit ''login''),
     AddStr (lit ''hubname'') (hub_name a),
     AddStr (lit ''username'') (login_user a),
     AddInt (lit ''authtype'') (word_of_nat (auth_type a)),
     AddStr (lit ''hello'') client_hello,
     AddInt (lit ''version'') 420,
     AddInt (lit ''build'') 9699,
     AddStr (lit ''client_str'') client_hello,
     AddInt (lit ''client_ver'') 420,
     AddInt (lit ''client_build'') 9699,
     AddInt (lit ''client_id'') 0,
     AddInt (lit ''protocol'') (if udp \<noteq> None then 1 else 0),
     AddInt (lit ''max_connection'') 4,
     AddInt (lit ''use_encrypt'') 1,
     AddInt (lit ''use_compress'') 0,
     AddInt (lit ''half_connection'') (if ci_half_connection ci then 1 else 0),
     AddInt (lit ''require_bridge_routing_mode'') 0,
     AddInt (lit ''require_monitor_mode'') 0,
     AddInt (lit ''qos'') 1,
     AddData (lit ''pencore'') pencore pencore_size,
     AddStr (lit ''ClientProductName'') (client_product_name ci),
     AddInt (lit ''ClientProductVer'') (softether_endian32 (product_ver_int (client_product_version ci))),
     AddInt (lit ''ClientProductBuild'') (softether_endian32 (word_of_int (client_product_build ci))),
     AddStr (lit ''ClientOsName'') (client_os_name ci),
     AddStr (lit ''ClientOsVer'') (client_os_version ci),
     AddStr (lit ''ClientOsProductId'') (client_os_product_id ci),
     AddStr (lit ''ClientHostName'') (client_host_name ci),
     AddInt (lit ''ClientIpAddress'') (ip (client_ip_address ci)),
     AddInt (lit ''ClientPort'') (softether_endian32 port),
     AddStr (lit ''ServerHostName'') (server_host_name ci),
     AddInt (lit ''ServerIpAddress'') (ip (server_ip_address ci)),
     AddInt (lit ''ServerPort2'') (softether_endian32 (word_of_int (server_port_reported ci)))] @
     (if client_ip_v6 ci \<noteq> [] then [AddStr (lit ''ClientIpv6Address'') (client_ip_v6 ci)] else []) @
     (case udp of None \<Rightarrow> [] | Some u \<Rightarrow> [
     AddInt (lit ''support_bulk_on_rudp'') 1,
     AddInt (lit ''support_hmac_on_bulk_of_rudp'') 1,
     AddInt (lit ''support_udp_recovery'') 1,
     AddData (lit ''unique_id'') (Some (lsha1 env (lit ''SoftEtherVPN_Android_Client''))) 20,
     AddInt (lit ''rudp_bulk_max_version'') 2]) @
     (case udp of None \<Rightarrow> [] | Some u \<Rightarrow> [
     AddInt (lit ''use_udp_acceleration'') 1,
     AddData (lit ''udp_acceleration_client_key'') (Some (my_key u)) 20,
     AddData (lit ''udp_acceleration_client_key_v2'') (Some (my_key_v2 u)) 128,
     AddInt (lit ''udp_acceleration_client_cookie'') (my_cookie u),
     AddInt (lit ''udp_acceleration_max_version'') 2,
     AddInt (lit ''support_hmac_on_udp_acceleration'') 1,
     AddInt (lit ''udp_acceleration_client_ip'') 0,
     AddInt (lit ''udp_acceleration_client_port'') (my_port u)]) @
     (if auth_type a = 1 then (case secure_password a of
        Some h \<Rightarrow> [AddData (lit ''secure_password'') (Some h) 20] | None \<Rightarrow> []) else []) @
     (if auth_type a = 2 then (case plain_password a of
        Some pw \<Rightarrow> [AddStr (lit ''plain_password'') pw] | None \<Rightarrow> []) else []))"

text \<open>The finished PACK is the written part of the buffer, \<^verbatim>\<open>buf[0..p - buf)\<close>.\<close>

definition build_login_pack :: "login_env \<Rightarrow> login_args \<Rightarrow> bytes outcome" where
  "build_login_pack env a = (let
       pencore_size = rand env 0 mod 1000;
       pencore = map_option (\<lambda>_. map (\<lambda>i. word_of_nat (rand env (1 + i))) [0..<pencore_size])
         (malloc (lheap env) (if pencore_size > 0 then pencore_size else 1))
     in case calloc (lheap env) (login_size a pencore_size + 64) of
          None \<Rightarrow> Fail
        | Some buf \<Rightarrow>
           (case pack_write_uint32 (word_of_nat (login_num_elems a)) (buf, 0) \<bind>
               proto_pack_calls (login_calls env a pencore pencore_size) of
              None \<Rightarrow> Fault
            | Some (b, off) \<Rightarrow> Ret (take off b)))"

section \<open>The Welcome PACK\<close>

datatype err = ERR_NONE | ERR_TCP_CONNECT | ERR_TLS_HANDSHAKE | ERR_PROTOCOL_VERSION
  | ERR_AUTHENTICATION | ERR_SESSION | ERR_DATA_TRANSMISSION | ERR_TIMEOUT | ERR_UNKNOWN

text \<open>
  The fields of \<^verbatim>\<open>softether_connection_t\<close> the login response sets; fixed arrays as byte lists
  of their size, \<^verbatim>\<open>char\<close> arrays as the string they hold. \<open>udp_compress\<close> is the flag of the
  UDP context (\<open>None\<close> without one).
\<close>

record session_t =
  sess_server_ip :: bytes
  session_name :: bytes
  connection_name :: bytes
  session_key :: bytes
  session_key_32 :: u32
  server_max_connection :: u32
  server_use_encrypt :: u32
  server_use_compress :: u32
  server_use_fast_rc4 :: u32
  server_timeout :: u32
  half_connection :: u32
  use_ssl_data :: bool
  udp_compress :: "bool option"
  rudp_enabled :: bool
  rudp_version :: u32
  rudp_server_ip :: bytes
  rudp_server_port :: u16
  rudp_server_key :: bytes
  rudp_server_key_size :: nat
  rudp_server_key_v2 :: bytes
  rudp_server_key_v2_size :: nat
  rudp_server_cookie :: u32
  rudp_client_cookie :: u32
  session_established :: bool

text \<open>A reader that leaves its output variable alone when the field is missing.\<close>

definition get_int_or :: "bytes \<Rightarrow> string \<Rightarrow> u32 \<Rightarrow> u32" where
  "get_int_or body f old = (case proto_get_int body (lit f) of Some v \<Rightarrow> v | None \<Rightarrow> old)"

definition get_str_or :: "bytes \<Rightarrow> string \<Rightarrow> nat \<Rightarrow> bytes \<Rightarrow> bytes" where
  "get_str_or body f n old = (case proto_get_str body (lit f) n of Some v \<Rightarrow> cstr_of v | None \<Rightarrow> old)"

text \<open>The copy overwrites the front of the array only.\<close>

definition get_data_or :: "bytes \<Rightarrow> string \<Rightarrow> nat \<Rightarrow> bytes \<Rightarrow> bytes" where
  "get_data_or body f n old =
     (case proto_get_data body (lit f) n of Some d \<Rightarrow> d @ drop (length d) old | None \<Rightarrow> old)"

definition parse_session_fields :: "bytes \<Rightarrow> session_t \<Rightarrow> session_t" where
  "parse_session_fields body c = (let c = c\<lparr>
       session_name := get_str_or body ''session_name'' 128 (session_name c),
       connection_name := get_str_or body ''connection_name'' 128 (connection_name c),
       session_key := get_data_or body ''session_key'' 20 (session_key c),
       session_key_32 := get_int_or body ''session_key_32'' (session_key_32 c),
       server_max_connection := get_int_or body ''max_connection'' (server_max_connection c),
       server_use_encrypt := get_int_or body ''use_encrypt'' (server_use_encrypt c),
       server_use_compress := get_int_or body ''use_compress'' (server_use_compress c),
       server_use_fast_rc4 := get_int_or body ''use_fast_rc4'' (server_use_fast_rc4 c),
       server_timeout := get_int_or body ''timeout'' (server_timeout c),
       half_connection := get_int_or body ''half_connection'' (half_connection c)\<rparr>
     in c\<lparr>use_ssl_data := server_use_encrypt c \<noteq> 0 \<and> server_use_fast_rc4 c = 0,
          udp_compress := map_option (\<lambda>_. server_use_compress c \<noteq> 0) (udp_compress c)\<rparr>)"

definition parse_udp_fields :: "bytes \<Rightarrow> session_t \<Rightarrow> session_t" where
  "parse_udp_fields body c =
     (if get_int_or body ''use_udp_acceleration'' 0 = 0 then c
      else let port = get_int_or body ''udp_acceleration_server_port'' 0;
          k1 = proto_get_data body (lit ''udp_acceleration_server_key'') 128;
          k2 = proto_get_data body (lit ''udp_acceleration_server_key_v2'') 128
        in c\<lparr>rudp_version := get_int_or body ''udp_acceleration_version'' 1,
          rudp_server_ip := get_str_or body ''udp_acceleration_server_ip'' 64 (take 63 (sess_server_ip c)),
          rudp_server_port := (if port > 0 \<and> port \<le> 65535 then ucast port else rudp_server_port c),
          rudp_server_key := get_data_or body ''udp_acceleration_server_key'' 128 (rudp_server_key c),
          rudp_server_key_size := (case k1 of Some d \<Rightarrow> if length d > 0 then length d
             else rudp_server_key_size c | None \<Rightarrow> rudp_server_key_size c),
          rudp_server_key_v2 := get_data_or body ''udp_acceleration_server_key_v2'' 128 (rudp_server_key_v2 c),
          rudp_server_key_v2_size := (case k2 of Some d \<Rightarrow> if length d > 0 then length d
             else rudp_server_key_v2_size c | None \<Rightarrow> rudp_server_key_v2_size c),
          rudp_server_cookie := get_int_or body ''udp_acceleration_server_cookie'' (rudp_server_cookie c),
          rudp_client_cookie := get_int_or body ''udp_acceleration_client_cookie'' (rudp_client_cookie c),
          rudp_enabled := True\<rparr>)"

text \<open>
  The part of \<^verbatim>\<open>perform_authentication_http\<close> behind \<^verbatim>\<open>read_http_response\<close>, for header block
  \<open>h\<close> and body. The body overwrites the terminator behind the header, so the status line is
  searched in header and body up to the first NUL.
\<close>

definition process_login_response :: "bytes \<Rightarrow> bytes \<Rightarrow> session_t \<Rightarrow> err \<times> session_t" where
  "process_login_response h body c = (let txt = cstr_of (h @ body) in
     if strstr txt (lit ''HTTP/1.1 200'') = None \<and> strstr txt (lit ''HTTP/1.0 200'') = None
     then (ERR_AUTHENTICATION, c)
     else if length body < 4 then (ERR_AUTHENTICATION, c)
     else if (case proto_get_int body (lit ''error'') of
          Some e \<Rightarrow> e \<noteq> 0
        | None \<Rightarrow> \<not> buffer_contains_token body (lit ''session_key'') \<and>
            \<not> buffer_contains_token body (lit ''session_name'') \<and>
            \<not> buffer_contains_token body (lit ''connection_name''))
     then (ERR_AUTHENTICATION, c)
     else (ERR_NONE, (parse_udp_fields body (parse_session_fields body c))\<lparr>session_established := True\<rparr>))"

section \<open>The two sets of readers agree\<close>

lemma match_header:
  "pack_match_element p f t = do {
     (elem, type, num_values, p) \<leftarrow> proto_elem_header p;
     if elem = f \<and> type = t \<and> num_values \<ge> 1 then Some (True, p)
     else do { p \<leftarrow> pack_skip_values num_values type p; Some (False, p) } }"
proof -
  have "(1 \<le> w) = (1 \<le> unat w)" for w :: u32
    by (simp add: word_le_nat_alt)
  then show ?thesis
    by (auto simp: pack_match_element_def proto_elem_header_def Let_def PACK_MAX_VALUES_def
        intro!: Option.bind_cong)
qed

lemma proto_find_eq: "proto_find n p f t = pack_find n p f t"
proof (induction n p f t rule: proto_find.induct)
  case (2 n p f t)
  then show ?case
    by (cases "proto_elem_header p") (auto simp: match_header split: prod.splits Option.bind_split)
qed simp

lemma proto_seek_eq: "proto_seek body f t = pack_seek body f t"
  unfolding proto_seek_def pack_seek_def proto_find_eq PACK_MAX_ELEMENTS_def ..

text \<open>
  C20: the PACK readers that \<^verbatim>\<open>softether_protocol.c\<close> duplicates return, on every input, what
  those of \<^verbatim>\<open>softether_pack.c\<close> return.
\<close>

theorem proto_readers_agree:
  "proto_get_int body f = pack_get_int body f \<and>
   proto_get_str body f n = pack_get_str body f n \<and>
   proto_get_data body f n = pack_get_data body f n"
  by (auto simp: proto_get_int_def pack_get_int_def proto_get_str_def pack_get_str_def
      proto_get_data_def pack_get_data_def proto_seek_eq pack_read_string_safe_def Let_def
      intro!: Option.bind_cong split: Option.bind_split)

section \<open>The login PACK is what it should be\<close>

fun call_elem :: "pack_call \<Rightarrow> pelem" where
  "call_elem (AddInt n v) = (n, VInt v)"
| "call_elem (AddStr n v) = (n, VStr v)"
| "call_elem (AddData n d len) = (n, VData (case d of Some b \<Rightarrow> take len b | None \<Rightarrow> []))"

fun call_ok :: "pack_call \<Rightarrow> bool" where
  "call_ok (AddData n d len) = (case d of Some b \<Rightarrow> len \<le> length b | None \<Rightarrow> False)"
| "call_ok _ = True"

fun call_size :: "pack_call \<Rightarrow> nat" where
  "call_size (AddInt n v) = PACK_INT_SZ n"
| "call_size (AddStr n v) = PACK_STR_SZ n v"
| "call_size (AddData n d len) = PACK_DATA_SZ n len"

definition call_elems :: "pack_call list \<Rightarrow> pelem list" where
  "call_elems cs = map call_elem cs"

lemma call_size_exact:
  "call_ok c \<Longrightarrow> elem_ok (call_elem c) \<Longrightarrow> call_size c = length (ser_elem (call_elem c))"
  by (cases c) (auto simp: pack_sizes elem_ok_def ser_elem_def split: option.splits)

lemma proto_pack_add_writer:
  "call_ok c \<Longrightarrow> proto_pack_add c = elem_writer (call_elem c)"
  by (cases c) (auto simp: elem_writer_def pack_write_data_val_def fun_eq_iff min_def
      split: option.splits intro!: Option.bind_cong)

lemma proto_pack_calls_writes:
  assumes "\<forall>c \<in> set cs. call_ok c \<and> elem_ok (call_elem c)"
  shows "writes (proto_pack_calls cs) (ser_elems (call_elems cs))"
  using assms
proof (induction cs)
  case Nil
  then show ?case by (simp add: writes_def call_elems_def)
next
  case (Cons c cs)
  then have "writes (\<lambda>x. proto_pack_add c x \<bind> proto_pack_calls cs)
      (ser_elem (call_elem c) @ ser_elems (call_elems cs))"
    by (intro writes_comp) (simp_all add: proto_pack_add_writer elem_writer_writes)
  then show ?case by (simp add: call_elems_def fun_eq_iff [symmetric])
qed

lemma ser_elems_sum:
  assumes "\<forall>c \<in> set cs. call_ok c \<and> elem_ok (call_elem c)"
  shows "sum_list (map call_size cs) = length (ser_elems (call_elems cs))"
  using assms by (induction cs) (simp_all add: call_size_exact call_elems_def)

text \<open>The bytes of \<^verbatim>\<open>pencore\<close> when its buffer could be allocated.\<close>

definition pencore_of :: "login_env \<Rightarrow> bytes" where
  "pencore_of env = map (\<lambda>i. word_of_nat (rand env (1 + i))) [0..<rand env 0 mod 1000]"

definition login_elems :: "login_env \<Rightarrow> login_args \<Rightarrow> pelem list" where
  "login_elems env a = call_elems (login_calls env a (Some (pencore_of env)) (rand env 0 mod 1000))"

lemma login_num_elems_ok: "login_num_elems a = length (login_calls env a pc n)"
  by (simp add: login_num_elems_def login_calls_def Let_def split: option.splits)

lemma login_sizes_ok: "login_sizes a n = map call_size (login_calls env a pc n)"
  by (cases "login_udp a"; cases "secure_password a"; cases "plain_password a")
    (simp_all add: login_sizes_def login_calls_def Let_def)

text \<open>
  What the callers guarantee: the arrays of the UDP context and of the hashes have their
  declared sizes, and the strings are not gigabytes long.
\<close>

definition login_args_ok :: "login_env \<Rightarrow> login_args \<Rightarrow> bool" where
  "login_args_ok env a \<longleftrightarrow>
     (case login_udp a of None \<Rightarrow> True | Some u \<Rightarrow> length (my_key u) = 20 \<and> length (my_key_v2 u) = 128) \<and>
     (case secure_password a of None \<Rightarrow> True | Some h \<Rightarrow> length h = 20) \<and>
     length (lsha1 env (lit ''SoftEtherVPN_Android_Client'')) = 20 \<and>
     length (ser_pack (login_elems env a)) + 64 < 2 ^ 32"

lemma login_calls_ok:
  assumes "login_args_ok env a"
  shows "list_all call_ok (login_calls env a (Some (pencore_of env)) (rand env 0 mod 1000))"
proof -
  have "case login_udp a of None \<Rightarrow> True | Some u \<Rightarrow> length (my_key u) = 20 \<and> length (my_key_v2 u) = 128"
    "case secure_password a of None \<Rightarrow> True | Some h \<Rightarrow> length h = 20"
    "length (lsha1 env (lit ''SoftEtherVPN_Android_Client'')) = 20"
    using assms unfolding login_args_ok_def by blast+
  moreover have "length (pencore_of env) = rand env 0 mod 1000"
    by (simp add: pencore_of_def)
  ultimately show ?thesis
    by (cases "login_udp a"; cases "secure_password a"; cases "plain_password a")
      (simp_all add: login_calls_def Let_def)
qed

lemma elem_in_ser_elems: "e \<in> set es \<Longrightarrow> length (ser_elem e) \<le> length (ser_elems es)"
  by (induction es) auto

lemma login_elems_ok:
  "login_args_ok env a \<Longrightarrow> \<forall>e \<in> set (login_elems env a). elem_ok e"
  using elem_in_ser_elems [of _ "login_elems env a"]
  by (fastforce simp: login_args_ok_def elem_ok_def ser_pack_def)

lemma login_elems_count: "length (login_elems env a) = login_num_elems a"
  by (simp add: login_elems_def call_elems_def login_num_elems_ok [symmetric])

lemma login_calls_fit:
  assumes "login_args_ok env a"
  shows "\<forall>c \<in> set (login_calls env a (Some (pencore_of env)) (rand env 0 mod 1000)). call_ok c \<and> elem_ok (call_elem c)"
  using login_calls_ok [OF assms] login_elems_ok [OF assms] by (simp add: login_elems_def call_elems_def list_all_iff)

lemma login_size_exact:
  assumes "login_args_ok env a"
  shows "login_size a (rand env 0 mod 1000) = length (ser_pack (login_elems env a))"
  using assms ser_elems_sum [OF login_calls_fit [OF assms]]
  by (simp add: login_size_def login_sizes_ok [of a _ env "Some (pencore_of env)"]
      login_args_ok_def ser_pack_def login_elems_def)

lemma build_login_pack_ser:
  assumes ok: "login_args_ok env a" and mem: "\<forall>n. can_alloc (lheap env) n"
  shows "build_login_pack env a = Ret (ser_pack (login_elems env a))"
proof -
  let ?n = "rand env 0 mod 1000" and ?cs = "login_calls env a (Some (pencore_of env)) (rand env 0 mod 1000)"
  note cs = login_calls_fit [OF ok] and sz = login_size_exact [OF ok]
  let ?buf = "replicate (login_size a ?n + 64) (0 :: byte)"
  have w: "writes (\<lambda>c. pack_write_uint32 (word_of_nat (login_num_elems a)) c \<bind> proto_pack_calls ?cs)
      (put_be32 (word_of_nat (login_num_elems a)) @ ser_elems (call_elems ?cs))"
    by (intro writes_comp writes_uint32 proto_pack_calls_writes [OF cs])
  have eq: "put_be32 (word_of_nat (login_num_elems a)) @ ser_elems (call_elems ?cs) =
      ser_pack (login_elems env a)"
    by (simp add: ser_pack_def login_elems_count) (simp add: login_elems_def)
  have "pack_write_uint32 (word_of_nat (login_num_elems a)) (?buf, 0) \<bind> proto_pack_calls ?cs =
      Some (ser_pack (login_elems env a) @ drop (length (ser_pack (login_elems env a))) ?buf,
        length (ser_pack (login_elems env a)))"
    using writesD [OF w, of 0 ?buf] sz unfolding eq by simp
  then show ?thesis
    using mem unfolding build_login_pack_def Let_def calloc_def malloc_def pencore_of_def
    by simp
qed

text \<open>
  C19: the login PACK. The element count and the size that the code adds up by hand, branch
  by branch, agree with the elements it then writes: the result is the serialisation of
  exactly those elements, the count in front of them is right, and the size is the number of
  bytes written, so that the builder stays within its buffer without using any of the 64
  bytes of margin that are allocated on top.
\<close>

theorem build_login_pack_exact:
  assumes "login_args_ok env a" "\<forall>n. can_alloc (lheap env) n"
  shows "build_login_pack env a = Ret (ser_pack (login_elems env a)) \<and>
     length (login_elems env a) = login_num_elems a \<and>
     login_size a (rand env 0 mod 1000) = length (ser_pack (login_elems env a))"
  using build_login_pack_ser [OF assms] login_elems_count login_size_exact [OF assms(1)] by blast

definition env0 :: login_env where
  "env0 = \<lparr>lheap = \<lparr>can_alloc = (\<lambda>_. True), junk = (\<lambda>_. 0)\<rparr>, rand = (\<lambda>n. n),
     lsha1 = (\<lambda>_. replicate 20 1), inet_addr = (\<lambda>_. 0), local_port = Some 443\<rparr>"

definition info0 :: client_info where
  "info0 = \<lparr>client_product_name = [65], client_product_version = [], client_product_build = 1,
     client_os_name = [66], client_os_version = [], client_os_product_id = [], client_host_name = [],
     client_ip_address = [], client_port = 0, server_host_name = [], server_ip_address = [],
     server_port_reported = 443, client_ip_v6 = [], ci_half_connection = True, ci_socket_fd = 3\<rparr>"

definition args0 :: login_args where
  "args0 = \<lparr>hub_name = lit ''vpngate'', login_user = lit ''vpn'', auth_type = 1,
     secure_password = Some (replicate 20 7), plain_password = None, login_udp = None, info = info0\<rparr>"

lemma login_args_ok_example: "login_args_ok env0 args0"
  by (simp add: login_args_ok_def env0_def args0_def info0_def login_elems_def call_elems_def
      login_calls_def pencore_of_def ser_pack_def ser_elem_def lit_def client_hello_def)

theorem build_login_pack_exact_witness:
  "build_login_pack env0 args0 = Ret (ser_pack (login_elems env0 args0)) \<and>
     length (login_elems env0 args0) = login_num_elems args0 \<and>
     login_size args0 0 = length (ser_pack (login_elems env0 args0))"
  using build_login_pack_exact [OF login_args_ok_example] by (simp add: env0_def)

section \<open>What the server reads\<close>

lemma byte_of_char_eq [simp]: "(of_char c :: byte) = of_char d \<longleftrightarrow> c = d"
proof
  assume "(of_char c :: byte) = of_char d"
  then have "(of_nat (of_char c) :: byte) = of_nat (of_char d)" by (simp only: of_nat_of_char)
  then have "(of_char c :: nat) mod 2 ^ 8 = of_char d mod 2 ^ 8"
    by (simp add: word_of_nat_eq_iff take_bit_eq_mod)
  then show "c = d" by simp
qed simp

lemma lit_eq_iff [simp]: "lit s = lit t \<longleftrightarrow> s = t"
  by (simp add: lit_def inj_map_eq_map inj_def)

lemma elem_matches_lit [simp]:
  assumes "length n \<le> 63" "CHR 0x00 \<notin> set n"
  shows "elem_matches (lit f) t (lit n, v) \<longleftrightarrow> n = f \<and> ptype v = t"
proof -
  have z: "(of_char c :: byte) = 0 \<longleftrightarrow> c = CHR 0x00" for c
    using byte_of_char_eq [of c "CHR 0x00"] by simp
  have "cstr_of (lit n) = lit n"
    using assms(2) by (auto simp: cstr_of_def lit_def takeWhile_eq_all_conv z)
  moreover have "take 63 (lit n) = lit n" using assms(1) by (simp add: lit_def)
  ultimately show ?thesis by (simp add: elem_matches_def)
qed

text \<open>
  The password chain. With a password and the random of the server Hello, the data
  field \<^verbatim>\<open>secure_password\<close> the server reads out of the login PACK is
  SHA-0 of SHA-0 of the password and the upper-cased user name, followed by that random.
\<close>

theorem login_secure_password:
  assumes "login_args_ok env a" "\<forall>n. can_alloc (lheap env) n" "auth_type a = CLIENT_AUTHTYPE_PASSWORD"
    and "secure_password a = Some (secure_password_of (lheap env) pw (login_user a) (Some rnd))"
  shows "\<exists>p. build_login_pack env a = Ret p \<and>
     pack_get_data p (lit ''secure_password'') 20 =
       Some (sha0_hash (sha0_hash (pw @ map upper_byte (login_user a)) @ rnd)) \<and>
     pack_get_int p (lit ''authtype'') = Some 1"
proof -
  let ?h = "sha0_hash (sha0_hash (pw @ map upper_byte (login_user a)) @ rnd)"
  have h: "secure_password a = Some ?h"
    using assms(2,4) by (simp add: secure_password_of_def)
  have "lookup_data (login_elems env a) (lit ''secure_password'') = Some ?h"
    using h assms(3)
    by (cases "login_udp a") (simp_all add: lookup_data_def pack_lookup_def login_elems_def
        call_elems_def login_calls_def Let_def authtypes pack_types)
  moreover have "lookup_int (login_elems env a) (lit ''authtype'') = Some 1"
    using assms(3)
    by (simp add: lookup_int_def pack_lookup_def login_elems_def call_elems_def login_calls_def
        Let_def authtypes pack_types)
  moreover have "length (login_elems env a) \<le> PACK_MAX_ELEMENTS"
    by (simp add: login_elems_count login_num_elems_def PACK_MAX_ELEMENTS_def)
  ultimately show ?thesis
    using build_login_pack_ser [OF assms(1,2)] pack_get_ser [OF login_elems_ok [OF assms(1)], of "[]"]
    by (simp add: sha0_hash_length)
qed

definition args1 :: login_args where
  "args1 = args0\<lparr>secure_password :=
     Some (secure_password_of (lheap env0) (lit ''secret'') (lit ''vpn'') (Some (replicate 20 3)))\<rparr>"

lemma login_args_ok_example1: "login_args_ok env0 args1"
  by (simp add: login_args_ok_def env0_def args1_def args0_def info0_def login_elems_def call_elems_def
      login_calls_def pencore_of_def ser_pack_def ser_elem_def lit_def client_hello_def
      secure_password_of_def)

theorem login_secure_password_witness:
  "\<exists>p. build_login_pack env0 args1 = Ret p \<and>
     pack_get_data p (lit ''secure_password'') 20 =
       Some (sha0_hash (sha0_hash (lit ''secret'' @ map upper_byte (lit ''vpn'')) @ replicate 20 3)) \<and>
     pack_get_int p (lit ''authtype'') = Some 1"
  using login_secure_password [OF login_args_ok_example1, of "lit ''secret''" "replicate 20 3"]
  by (simp add: env0_def args1_def args0_def authtypes)

section \<open>The server Hello, and responses in general\<close>

text \<open>What one element of the Hello contributes.\<close>

definition hello_step :: "pelem \<Rightarrow> server_hello_info_t \<Rightarrow> server_hello_info_t" where
  "hello_step e i = (case e of (n, v) \<Rightarrow> let name = cstr_of (take 63 n) in
     (case v of
        VStr s \<Rightarrow> if name = lit ''hello'' then i\<lparr>sh_hello := take 63 s, has_hello := True\<rparr> else i
      | VInt w \<Rightarrow> if name = lit ''version'' then i\<lparr>sh_version := w, has_version := True\<rparr> else i
      | VData d \<Rightarrow> if name = lit ''random'' then i\<lparr>sh_random := take 20 d @ drop (min 20 (length d)) (sh_random i),
          has_random := True\<rparr> else i
      | VInt64 _ \<Rightarrow> i))"

lemma header_ser_elem:
  assumes "elem_ok (n, v)"
  shows "proto_elem_header (ser_elem (n, v) @ r) =
     Some (cstr_of (take 63 n), ptype v, 1, ser_value v @ r)"
proof -
  have len: "length n + 1 < 2 ^ 32" using assms by (simp add: elem_ok_def ser_elem_def)
  have "unat (word_of_nat (length n + 1) :: u32) = length n + 1"
    unfolding unat_of_nat using len by simp
  then have nz: "(word_of_nat (length n + 1) :: u32) \<noteq> 0"
    by (metis Suc_eq_plus1 Zero_not_Suc unat_0)
  have "unat (word_of_nat (length n + 1) - 1 :: u32) = length n"
    using len by (simp add: unat_of_nat)
  with nz show ?thesis
    by (auto simp: proto_elem_header_def Let_def ser_elem_def min_def)
qed

lemma hello_element_ser:
  assumes "elem_ok (n, v)"
  shows "hello_element (cstr_of (take 63 n)) (ptype v) 1 (ser_value v @ r) i = Some (hello_step (n, v) i, r)"
  using assms skip_value_ser [OF assms, of r] elem_ok_len [of n]
  by (cases v) (auto simp: hello_element_def hello_step_def pack_read_string_safe_def
      pack_read_data_safe_def Let_def pack_types min_def)

lemma hello_elements_ser:
  assumes "\<forall>e \<in> set es. elem_ok e"
  shows "hello_elements (length es) (ser_elems es @ r) i = Some (fold hello_step es i)"
  using assms
proof (induction es arbitrary: i)
  case (Cons e es)
  then show ?case by (cases e) (simp add: header_ser_elem hello_element_ser [unfolded One_nat_def])
qed simp

text \<open>
  The server Hello. Parsing a serialised Hello PACK succeeds and collects exactly what
  its elements say, in order: greeting cut to 63 bytes, version, and the random, of which
  20 bytes are kept and missing ones stay zero.
\<close>

theorem parse_server_hello_ser:
  assumes "\<forall>e \<in> set es. elem_ok e" "length es \<le> 4096"
  shows "parse_server_hello (ser_pack es @ r) = Some (fold hello_step es hello0)"
proof -
  have "unat (word_of_nat (length es) :: u32) = length es"
    using assms(2) by (simp add: unat_of_nat)
  with assms show ?thesis
    by (simp add: parse_server_hello_def ser_pack_def hello_elements_ser)
qed

theorem parse_server_hello_ser_witness:
  "parse_server_hello (ser_pack [(lit ''random'', VData [1, 2]), (lit ''version'', VInt 443)] @ [5]) =
     Some (hello0\<lparr>sh_random := [1, 2] @ replicate 18 0, has_random := True,
                   sh_version := 443, has_version := True\<rparr>)"
proof -
  have ok: "\<forall>e \<in> set [(lit ''random'', VData [1, 2]), (lit ''version'', VInt 443)]. elem_ok e"
    by (simp add: elem_ok_def ser_elem_def lit_def)
  have c: "cstr_of (take 63 (lit n)) = lit n" if "n = ''random'' \<or> n = ''version''" for n
    using that by (auto simp: cstr_of_def lit_def)
  show ?thesis
    using parse_server_hello_ser [OF ok, of "[5]"]
    by (simp add: hello_step_def hello0_def c)
qed

text \<open>The arrays the responses are parsed into.\<close>

definition session_bufs_ok :: "session_t \<Rightarrow> bool" where
  "session_bufs_ok c \<longleftrightarrow> length (session_name c) < 128 \<and> length (connection_name c) < 128 \<and>
     length (session_key c) = 20 \<and> length (rudp_server_ip c) < 64 \<and>
     length (rudp_server_key c) = 128 \<and> rudp_server_key_size c \<le> 128 \<and>
     length (rudp_server_key_v2 c) = 128 \<and> rudp_server_key_v2_size c \<le> 128"

lemma proto_get_lengths:
  "proto_get_str body f n = Some s \<Longrightarrow> length s < n"
  "proto_get_data body f n = Some d \<Longrightarrow> length d \<le> n"
  by (auto simp: proto_get_str_def proto_get_data_def split: if_splits Option.bind_splits)

lemma get_str_or_length: "length old < n \<Longrightarrow> length (get_str_or body f n old) < n"
  by (auto simp: get_str_or_def cstr_of_def split: option.splits
      dest!: proto_get_lengths(1) intro: le_less_trans [OF length_takeWhile_le])

lemma get_data_or_length: "length old = n \<Longrightarrow> length (get_data_or body f n old) = n"
  by (auto simp: get_data_or_def split: option.splits dest!: proto_get_lengths(2))

text \<open>
  Whatever bytes a server answers the login with, no array of the connection is
  overrun: names stay terminated, the session key keeps its 20 bytes, and the key sizes
  recorded for UDP acceleration never exceed the 128-byte key arrays.
\<close>

theorem login_response_bufs:
  assumes "session_bufs_ok c"
  shows "session_bufs_ok (snd (process_login_response h body c))"
proof -
  have key: "(case proto_get_data body f 128 of Some d \<Rightarrow> if 0 < length d then length d else k
      | None \<Rightarrow> k) \<le> 128" if "k \<le> 128" for f k
    using that by (auto split: option.splits dest!: proto_get_lengths(2))
  have "session_bufs_ok (parse_session_fields body c)"
    using assms by (simp add: parse_session_fields_def Let_def session_bufs_ok_def
        get_str_or_length get_data_or_length)
  then have "session_bufs_ok (parse_udp_fields body (parse_session_fields body c))"
    by (simp add: parse_udp_fields_def Let_def session_bufs_ok_def get_str_or_length
        get_data_or_length key)
  with assms show ?thesis by (simp add: process_login_response_def Let_def session_bufs_ok_def)
qed

definition session0 :: session_t where
  "session0 = \<lparr>sess_server_ip = [], session_name = [], connection_name = [],
     session_key = replicate 20 0, session_key_32 = 0, server_max_connection = 0,
     server_use_encrypt = 0, server_use_compress = 0, server_use_fast_rc4 = 0, server_timeout = 0,
     half_connection = 0, use_ssl_data = False, udp_compress = None, rudp_enabled = False,
     rudp_version = 0, rudp_server_ip = [], rudp_server_port = 0, rudp_server_key = replicate 128 0,
     rudp_server_key_size = 0, rudp_server_key_v2 = replicate 128 0, rudp_server_key_v2_size = 0,
     rudp_server_cookie = 0, rudp_client_cookie = 0, session_established = False\<rparr>"

theorem login_response_bufs_witness:
  "session_bufs_ok (snd (process_login_response (lit ''HTTP/1.1 200'') (lit ''session_key'') session0))"
  by (rule login_response_bufs) (simp add: session_bufs_ok_def session0_def)

lemma cstring_prefix: "cstring h \<Longrightarrow> \<exists>t. cstr_of (h @ body) = h @ t"
  by (auto simp: cstr_of_def cstring_def takeWhile_append)

lemma strstr_prefix: "is_prefix t s \<Longrightarrow> strstr s t \<noteq> None"
  by (cases s) (auto simp: is_prefix_def)

lemma is_prefix_append: "is_prefix t h \<Longrightarrow> is_prefix t (h @ r)"
  by (metis append.assoc append_eq_conv_conj append_take_drop_id is_prefix_def)

text \<open>Reading the UDP fields leaves the session parameters alone.\<close>

lemma parse_udp_fields_other [simp]:
  "server_use_encrypt (parse_udp_fields b c) = server_use_encrypt c"
  "server_max_connection (parse_udp_fields b c) = server_max_connection c"
  "server_use_fast_rc4 (parse_udp_fields b c) = server_use_fast_rc4 c"
  "use_ssl_data (parse_udp_fields b c) = use_ssl_data c"
  by (simp_all add: parse_udp_fields_def Let_def)

lemma parse_session_fields_get:
  "server_use_encrypt (parse_session_fields b c) = get_int_or b ''use_encrypt'' (server_use_encrypt c)"
  "server_max_connection (parse_session_fields b c) = get_int_or b ''max_connection'' (server_max_connection c)"
  "server_use_fast_rc4 (parse_session_fields b c) = get_int_or b ''use_fast_rc4'' (server_use_fast_rc4 c)"
  "use_ssl_data (parse_session_fields b c) \<longleftrightarrow> get_int_or b ''use_encrypt'' (server_use_encrypt c) \<noteq> 0 \<and>
     get_int_or b ''use_fast_rc4'' (server_use_fast_rc4 c) = 0"
  by (simp_all add: parse_session_fields_def Let_def)

lemma proto_get_int_ser:
  assumes "\<forall>e \<in> set es. elem_ok e" "length es \<le> PACK_MAX_ELEMENTS"
  shows "proto_get_int (ser_pack es) f = lookup_int es f"
  using pack_get_ser [OF assms, of "[]" f] by (simp add: proto_get_int_def pack_get_int_def proto_seek_eq)

lemma login_response_cases:
  assumes ok: "\<forall>e \<in> set es. elem_ok e" "length es \<le> PACK_MAX_ELEMENTS"
    and http: "cstring h" "is_prefix (lit ''HTTP/1.1 200'') h"
    and err: "lookup_int es (lit ''error'') = Some e"
  shows "process_login_response h (ser_pack es) c = (if e \<noteq> 0 then (ERR_AUTHENTICATION, c)
      else (ERR_NONE, (parse_udp_fields (ser_pack es) (parse_session_fields (ser_pack es) c))
        \<lparr>session_established := True\<rparr>))"
proof -
  obtain t where "cstr_of (h @ ser_pack es) = h @ t" using cstring_prefix [OF http(1)] by blast
  then have "strstr (cstr_of (h @ ser_pack es)) (lit ''HTTP/1.1 200'') \<noteq> None"
    using strstr_prefix is_prefix_append [OF http(2)] by simp
  moreover have "length (ser_pack es) \<ge> 4" by (simp add: ser_pack_def)
  ultimately show ?thesis using err by (auto simp: process_login_response_def Let_def proto_get_int_ser [OF ok])
qed

text \<open>
  The outcome of the login. On a 200 response whose body is a PACK with an \<^verbatim>\<open>error\<close>
  field, authentication succeeds exactly when that field is 0, whatever else the PACK
  holds; on failure the connection is untouched; on success the negotiated parameters are
  those of the PACK, and the data channel stays in TLS exactly when encryption is on and
  not the RC4 variant.
\<close>

theorem login_response_outcome:
  assumes ok: "\<forall>e \<in> set es. elem_ok e" "length es \<le> PACK_MAX_ELEMENTS"
    and http: "cstring h" "is_prefix (lit ''HTTP/1.1 200'') h"
    and err: "lookup_int es (lit ''error'') = Some e"
    and r: "process_login_response h (ser_pack es) c = (rc, c')"
  shows "(if e = 0 then rc = ERR_NONE else rc = ERR_AUTHENTICATION \<and> c' = c) \<and>
     (e = 0 \<longrightarrow> session_established c' \<and>
        server_use_encrypt c' = (case lookup_int es (lit ''use_encrypt'') of Some v \<Rightarrow> v | None \<Rightarrow> server_use_encrypt c) \<and>
        server_max_connection c' = (case lookup_int es (lit ''max_connection'') of Some v \<Rightarrow> v | None \<Rightarrow> server_max_connection c) \<and>
        use_ssl_data c' = (server_use_encrypt c' \<noteq> 0 \<and> server_use_fast_rc4 c' = 0))"
  using r login_response_cases [OF ok http err] proto_get_int_ser [OF ok]
  by (cases "e = 0") (auto simp: parse_session_fields_get get_int_or_def)

theorem login_response_outcome_witness:
  "fst (process_login_response (lit ''HTTP/1.1 200'') (ser_pack [(lit ''error'', VInt 9)]) session0) =
     ERR_AUTHENTICATION"
proof -
  have 1: "\<forall>e \<in> set [(lit ''error'', VInt 9)]. elem_ok e" by (simp add: elem_ok_def ser_elem_def lit_def)
  have 2: "length [(lit ''error'', VInt 9)] \<le> PACK_MAX_ELEMENTS" by (simp add: PACK_MAX_ELEMENTS_def)
  have 3: "cstring (lit ''HTTP/1.1 200'')" "is_prefix (lit ''HTTP/1.1 200'') (lit ''HTTP/1.1 200'')"
    by (simp_all add: cstring_def lit_def is_prefix_def)
  have 4: "lookup_int [(lit ''error'', VInt 9)] (lit ''error'') = Some 9"
    by (simp add: lookup_int_def pack_lookup_def)
  show ?thesis
    using login_response_outcome [OF 1 2 3 4 surjective_pairing, of session0] by simp
qed

end
