(* ===== verification/Rudp_Accel.thy ===== *)
theory Rudp_Accel
  imports Ring_Queue Crypto
begin

text \<open>
  UDP acceleration (\<^verbatim>\<open>softether_rudp.c\<close>, \<^verbatim>\<open>compress.c\<close>): the datagram format in its two
  versions, the receive window and queue, the send window, and the fallback to TCP. Ticks
  and counters are 64-bit words because the peer's ticks arrive off the wire. The context
  record carries, beside the fields of \<^verbatim>\<open>rudp_context_t\<close>, the state of its surroundings:
  the datagrams waiting in the socket, those sent, and how often the clock, \<^verbatim>\<open>rand\<close> and
  \<^verbatim>\<open>sendto\<close> have been used. \<open>lk\<close> is the depth of the recursive mutex.

  SHA-1, zlib and ChaCha20-Poly1305 are parameters; RC4 is the native implementation.
\<close>

section \<open>Surroundings\<close>

datatype sockaddr = Inet bytes u16 | Inet6 bytes u16

fun is_inet6 :: "sockaddr \<Rightarrow> bool" where
  "is_inet6 (Inet _ _) = False"
| "is_inet6 (Inet6 _ _) = True"

text \<open>
  \<open>zcomp cap src\<close> and \<open>zuncomp cap src\<close> are \<^verbatim>\<open>compress2\<close> and \<^verbatim>\<open>uncompress\<close> into a buffer of
  \<open>cap\<close> bytes; \<open>seal\<close> yields ciphertext and tag, \<open>unseal\<close> checks the tag.
\<close>

record rudp_env =
  sha1 :: "bytes \<Rightarrow> bytes"
  zcomp :: "nat \<Rightarrow> bytes \<Rightarrow> bytes option"
  zuncomp :: "nat \<Rightarrow> bytes \<Rightarrow> bytes option"
  seal :: "bytes \<Rightarrow> bytes \<Rightarrow> bytes \<Rightarrow> bytes"
  unseal :: "bytes \<Rightarrow> bytes \<Rightarrow> bytes \<Rightarrow> bytes option"
  tick64 :: "nat \<Rightarrow> u64"
  rnd :: "nat \<Rightarrow> nat"
  sendto_ok :: "nat \<Rightarrow> bool"

text \<open>\<^verbatim>\<open>compress.c\<close>: the empty input is passed through.\<close>

definition compress_data :: "rudp_env \<Rightarrow> nat \<Rightarrow> bytes \<Rightarrow> bytes option" where
  "compress_data env cap src = (if src = [] then Some [] else zcomp env cap src)"

definition uncompress_data :: "rudp_env \<Rightarrow> nat \<Rightarrow> bytes \<Rightarrow> bytes option" where
  "uncompress_data env cap src = (if src = [] then Some [] else zuncomp env cap src)"

section \<open>The context\<close>

definition RUDP_TMP_BUF_SIZE :: nat where "RUDP_TMP_BUF_SIZE = 2048"
definition RUDP_WINDOW_SIZE_MSEC :: u64 where "RUDP_WINDOW_SIZE_MSEC = 30000"
definition RUDP_MAX_PAYLOAD_SIZE :: nat where "RUDP_MAX_PAYLOAD_SIZE = 1600"
definition RUDP_MAX_PADDING_SIZE :: nat where "RUDP_MAX_PADDING_SIZE = 32"
definition RUDP_REQUIRE_CONTINUOUS :: u64 where "RUDP_REQUIRE_CONTINUOUS = 10000"
definition RUDP_KA_TIMEOUT :: u64 where "RUDP_KA_TIMEOUT = 9000"
definition RUDP_KA_TIMEOUT_FAST :: u64 where "RUDP_KA_TIMEOUT_FAST = 2100"
definition RUDP_OVERFLOW_SUSPEND_THRESHOLD :: nat where "RUDP_OVERFLOW_SUSPEND_THRESHOLD = 8"
definition RUDP_UDP_SUSPEND_MS :: u64 where "RUDP_UDP_SUSPEND_MS = 30000"
definition RUDP_PEER_TICK_LOSS_GAP :: u64 where "RUDP_PEER_TICK_LOSS_GAP = 10000"
definition RUDP_CWIN_START :: u64 where "RUDP_CWIN_START = 262144"
definition RUDP_CWIN_MIN :: u64 where "RUDP_CWIN_MIN = 32768"
definition RUDP_CWIN_MAX :: u64 where "RUDP_CWIN_MAX = 8388608"
definition RUDP_CWIN_GROW_BPS :: u64 where "RUDP_CWIN_GROW_BPS = 4194304"
definition RUDP_SUSPEND_BACKOFF_MAX_SHIFT :: nat where "RUDP_SUSPEND_BACKOFF_MAX_SHIFT = 3"
definition RUDP_CLEAN_RESET_MS :: u64 where "RUDP_CLEAN_RESET_MS = 300000"

lemmas rudp_consts = RUDP_TMP_BUF_SIZE_def RUDP_WINDOW_SIZE_MSEC_def RUDP_MAX_PAYLOAD_SIZE_def
  RUDP_MAX_PADDING_SIZE_def RUDP_REQUIRE_CONTINUOUS_def RUDP_KA_TIMEOUT_def RUDP_KA_TIMEOUT_FAST_def
  RUDP_OVERFLOW_SUSPEND_THRESHOLD_def RUDP_UDP_SUSPEND_MS_def RUDP_PEER_TICK_LOSS_GAP_def
  RUDP_CWIN_START_def RUDP_CWIN_MIN_def RUDP_CWIN_MAX_def RUDP_CWIN_GROW_BPS_def
  RUDP_SUSPEND_BACKOFF_MAX_SHIFT_def RUDP_CLEAN_RESET_MS_def

record rudp_context_t =
  udp_fd :: int
  inited :: bool
  version :: nat
  ru_my_key :: bytes
  ru_your_key :: bytes
  ru_my_key_v2 :: bytes
  ru_your_key_v2 :: bytes
  next_iv :: bytes
  next_iv_v2 :: bytes
  v2_cipher_inited :: bool
  ru_my_cookie :: u32
  ru_your_cookie :: u32
  peer_addr :: sockaddr
  peer_addr_set :: bool
  is_ipv6 :: bool
  now :: u64
  last_recv_tick :: u64
  last_recv_your_tick :: u64
  last_recv_my_tick :: u64
  next_send_keepalive :: u64
  first_stable_receive_tick :: u64
  fast_detect :: bool
  mss :: nat
  max_udp_packet_size :: nat
  use_compress :: bool
  ru_queue :: "bytes ring"
  fatal_error :: bool
  recv_queue_overflow_count :: u64
  udp_rx_packets :: u64
  peer_tick_gap_events :: u64
  last_peer_tick_seen :: u64
  recent_overflows :: nat
  udp_data_suspended :: bool
  udp_data_resume_tick :: u64
  suspension_count :: nat
  last_loss_event_tick :: u64
  cwin_bytes :: u64
  cwin_last_refill_tick :: u64
  cwin_inited :: bool
  lk :: nat
  inbox :: "(sockaddr \<times> bytes) list"
  outbox :: "(sockaddr \<times> bytes) list"
  clk_i :: nat
  rnd_i :: nat
  snd_i :: nat

text \<open>\<open>fast_detect\<close> is the top bit of \<^verbatim>\<open>mss\<close>, which the code uses as a flag.\<close>

definition read_clock :: "rudp_env \<Rightarrow> rudp_context_t \<Rightarrow> rudp_context_t" where
  "read_clock env c = c\<lparr>now := tick64 env (clk_i c), clk_i := clk_i c + 1\<rparr>"

definition calc_key :: "rudp_env \<Rightarrow> bytes \<Rightarrow> bytes \<Rightarrow> bytes" where
  "calc_key env common_key iv = sha1 env (take 20 common_key @ take 20 iv)"

section \<open>Accessors\<close>

definition rudp_set_tick :: "rudp_context_t \<Rightarrow> u64 \<Rightarrow> rudp_context_t" where
  "rudp_set_tick c t = c\<lparr>now := t\<rparr>"

definition rudp_set_version :: "rudp_context_t \<Rightarrow> int \<Rightarrow> rudp_context_t" where
  "rudp_set_version c v = c\<lparr>version := (if v \<ge> 2 \<and> v2_cipher_inited c then 2 else 1)\<rparr>"

definition rudp_set_compress :: "rudp_context_t \<Rightarrow> bool \<Rightarrow> rudp_context_t" where
  "rudp_set_compress c e = c\<lparr>use_compress := e\<rparr>"

definition rudp_set_fast_detect :: "rudp_context_t \<Rightarrow> bool \<Rightarrow> rudp_context_t" where
  "rudp_set_fast_detect c f = c\<lparr>fast_detect := f\<rparr>"

definition rudp_get_udp_fd :: "rudp_context_t \<Rightarrow> int" where
  "rudp_get_udp_fd c = udp_fd c"

definition rudp_is_active :: "rudp_context_t \<Rightarrow> bool" where
  "rudp_is_active c \<longleftrightarrow> inited c \<and> peer_addr_set c \<and> \<not> fatal_error c \<and> first_stable_receive_tick c \<noteq> 0"

definition rudp_calc_mss :: "rudp_context_t \<Rightarrow> nat" where
  "rudp_calc_mss c = (if is_ipv6 c then if version c \<ge> 2 then 1343 else 1335
     else if version c \<ge> 2 then 1363 else 1355)"

record rudp_stats_t =
  st_overflow :: u64
  st_rx_packets :: u64
  st_gap_events :: u64
  st_suspended :: bool

definition rudp_get_stats :: "rudp_context_t \<Rightarrow> rudp_stats_t" where
  "rudp_get_stats c = \<lparr>st_overflow = recv_queue_overflow_count c, st_rx_packets = udp_rx_packets c,
     st_gap_events = peer_tick_gap_events c, st_suspended = udp_data_suspended c\<rparr>"

section \<open>The send window\<close>

definition rudp_cwin_refill :: "rudp_context_t \<Rightarrow> rudp_context_t" where
  "rudp_cwin_refill c =
     (if \<not> cwin_inited c then
        c\<lparr>cwin_bytes := RUDP_CWIN_START, cwin_last_refill_tick := now c, cwin_inited := True\<rparr>
      else if now c \<le> cwin_last_refill_tick c then c
      else let dt = now c - cwin_last_refill_tick c;
               w = cwin_bytes c + (RUDP_CWIN_GROW_BPS * dt) div 1000
           in c\<lparr>cwin_last_refill_tick := now c,
                cwin_bytes := (if w > RUDP_CWIN_MAX then RUDP_CWIN_MAX else w)\<rparr>)"

definition rudp_cwin_on_loss :: "rudp_context_t \<Rightarrow> rudp_context_t" where
  "rudp_cwin_on_loss c = (let w = cwin_bytes c div 2
     in c\<lparr>last_loss_event_tick := now c, cwin_bytes := (if w < RUDP_CWIN_MIN then RUDP_CWIN_MIN else w)\<rparr>)"

definition ka_timeout :: "rudp_context_t \<Rightarrow> u64" where
  "ka_timeout c = (if fast_detect c then RUDP_KA_TIMEOUT_FAST else RUDP_KA_TIMEOUT)"

text \<open>A long clean stretch resets the backoff.\<close>

definition clean_reset :: "rudp_context_t \<Rightarrow> rudp_context_t" where
  "clean_reset c = (if \<not> udp_data_suspended c \<and> last_loss_event_tick c \<noteq> 0 \<and>
       now c > last_loss_event_tick c \<and> now c - last_loss_event_tick c \<ge> RUDP_CLEAN_RESET_MS
     then c\<lparr>suspension_count := 0, recent_overflows := 0\<rparr> else c)"

text \<open>The keep-alive part of the readiness test.\<close>

definition ka_ready :: "bool \<Rightarrow> rudp_context_t \<Rightarrow> bool \<times> rudp_context_t" where
  "ka_ready check_keepalive c =
     (if check_keepalive then
        if last_recv_tick c = 0 \<or> last_recv_tick c + ka_timeout c < now c
        then (False, c\<lparr>first_stable_receive_tick := 0\<rparr>)
        else if first_stable_receive_tick c + RUDP_REQUIRE_CONTINUOUS \<le> now c
        then (cwin_bytes c \<noteq> 0, c)
        else (False, c)
      else (True, c))"

definition rudp_is_send_ready_nolock :: "bool \<Rightarrow> rudp_context_t \<Rightarrow> bool \<times> rudp_context_t" where
  "rudp_is_send_ready_nolock check_keepalive c = (let c = clean_reset (rudp_cwin_refill c) in
     if udp_data_suspended c \<and> now c < udp_data_resume_tick c then (False, c)
     else let c = (if udp_data_suspended c then c\<lparr>udp_data_suspended := False, recent_overflows := 0\<rparr> else c) in
       if recent_overflows c \<ge> RUDP_OVERFLOW_SUSPEND_THRESHOLD then
         let shift = min (suspension_count c) RUDP_SUSPEND_BACKOFF_MAX_SHIFT
         in (False, c\<lparr>suspension_count := suspension_count c + 1, udp_data_suspended := True,
              udp_data_resume_tick := now c + push_bit shift RUDP_UDP_SUSPEND_MS\<rparr>)
       else ka_ready check_keepalive c)"

text \<open>Taking and releasing the recursive mutex around an operation.\<close>

definition locked :: "(rudp_context_t \<Rightarrow> 'a \<times> rudp_context_t) \<Rightarrow> rudp_context_t \<Rightarrow> 'a \<times> rudp_context_t" where
  "locked f c = (let (r, c') = f (c\<lparr>lk := lk c + 1\<rparr>) in (r, c'\<lparr>lk := lk c' - 1\<rparr>))"

definition rudp_is_send_ready :: "rudp_context_t \<Rightarrow> bool \<Rightarrow> bool \<times> rudp_context_t" where
  "rudp_is_send_ready c check_keepalive =
     (if \<not> inited c \<or> \<not> peer_addr_set c then (False, c)
      else locked (rudp_is_send_ready_nolock check_keepalive) c)"

section \<open>Receiving\<close>

text \<open>The inner fields behind the IV: cookie, the peer's tick, our tick echoed, flag, data, rest.\<close>

definition parse_inner :: "bytes \<Rightarrow> (u32 \<times> u64 \<times> u64 \<times> byte \<times> bytes \<times> bytes) option" where
  "parse_inner buf = (if length buf < 23 then None
     else let cookie = get_be32 buf; my_tick = get_be64 (drop 4 buf); your_tick = get_be64 (drop 12 buf);
            inner_size = unat (get_be16 (drop 20 buf)); flag = buf ! 22; rest = drop 23 buf
          in if length rest < inner_size then None
             else Some (cookie, my_tick, your_tick, flag, take inner_size rest, drop inner_size rest))"

text \<open>The trailing verify field of version 1: 20 zero bytes behind the padding.\<close>

definition verify_zero :: "bytes \<Rightarrow> bool" where
  "verify_zero rest \<longleftrightarrow> 20 \<le> length rest \<and> list_all (\<lambda>b. b = 0) (drop (length rest - 20) rest)"

text \<open>The bookkeeping of an accepted packet, up to the queueing of its data.\<close>

definition note_packet :: "u64 \<Rightarrow> u64 \<Rightarrow> sockaddr \<Rightarrow> rudp_context_t \<Rightarrow> rudp_context_t" where
  "note_packet my_tick your_tick from c = (let
     c = c\<lparr>last_recv_my_tick := max your_tick (last_recv_my_tick c),
          last_recv_your_tick := max my_tick (last_recv_your_tick c)\<rparr>;
     c = (if last_peer_tick_seen c \<noteq> 0 \<and> my_tick > last_peer_tick_seen c + RUDP_PEER_TICK_LOSS_GAP
          then rudp_cwin_on_loss (c\<lparr>peer_tick_gap_events := peer_tick_gap_events c + 1\<rparr>) else c);
     c = c\<lparr>last_peer_tick_seen := my_tick, udp_rx_packets := udp_rx_packets c + 1,
          peer_addr := from, peer_addr_set := True, is_ipv6 := is_inet6 from\<rparr>
   in if last_recv_my_tick c \<noteq> 0 \<and> last_recv_my_tick c + RUDP_WINDOW_SIZE_MSEC \<ge> now c
      then c\<lparr>last_recv_tick := now c, first_stable_receive_tick :=
             (if first_stable_receive_tick c = 0 then now c else first_stable_receive_tick c)\<rparr>
      else c)"

text \<open>Queue a decoded block, count an overflow, or drop an oversized one.\<close>

definition queue_block :: "bytes \<Rightarrow> rudp_context_t \<Rightarrow> rudp_context_t" where
  "queue_block d c =
     (if length d \<le> RUDP_MAX_PAYLOAD_SIZE \<and> rcount (ru_queue c) < 256
      then c\<lparr>ru_queue := ring_enq 256 d (ru_queue c)\<rparr>
      else if length d \<le> RUDP_MAX_PAYLOAD_SIZE
      then rudp_cwin_on_loss (c\<lparr>recv_queue_overflow_count := recv_queue_overflow_count c + 1,
             recent_overflows := recent_overflows c + 1\<rparr>)
      else c)"

definition rudp_process_inner ::
  "rudp_env \<Rightarrow> bool \<Rightarrow> bytes \<Rightarrow> sockaddr \<Rightarrow> rudp_context_t \<Rightarrow> bool \<times> rudp_context_t" where
  "rudp_process_inner env verify_padding buf from c = (case parse_inner buf of
     None \<Rightarrow> (False, c)
   | Some (cookie, my_tick, your_tick, flag, data, rest) \<Rightarrow>
       if cookie \<noteq> ru_my_cookie c then (False, c)
       else if verify_padding \<and> \<not> verify_zero rest then (False, c)
       else if my_tick < last_recv_your_tick c \<and>
               last_recv_your_tick c - my_tick \<ge> RUDP_WINDOW_SIZE_MSEC then (False, c)
       else let c = note_packet my_tick your_tick from c in
         if data = [] then (True, c)
         else if bit flag 0 then
           (case uncompress_data env 1856 data of
              None \<Rightarrow> (False, c)
            | Some d \<Rightarrow> (True, queue_block d c))
         else (True, queue_block data c))"

text \<open>One datagram of the receive loop.\<close>

definition rudp_datagram :: "rudp_env \<Rightarrow> sockaddr \<Rightarrow> bytes \<Rightarrow> rudp_context_t \<Rightarrow> rudp_context_t" where
  "rudp_datagram env from pkt0 c = (let pkt = take RUDP_TMP_BUF_SIZE pkt0 in
     if length pkt < 25 then c
     else let c = read_clock env c in
       if version c = 1 then
         snd (rudp_process_inner env True
           (rc4_crypt (calc_key env (ru_your_key c) (take 20 pkt)) (drop 20 pkt)) from c)
       else if version c = 2 then
         if length pkt < 33 then c
         else (case unseal env (ru_your_key_v2 c) (take 12 pkt) (drop 12 pkt) of
                 None \<Rightarrow> c
               | Some buf \<Rightarrow> snd (rudp_process_inner env False buf from c))
       else c)"

text \<open>The loop over everything waiting in the socket; an empty datagram ends it.\<close>

fun rudp_drain :: "rudp_env \<Rightarrow> (sockaddr \<times> bytes) list \<Rightarrow> rudp_context_t \<Rightarrow> rudp_context_t" where
  "rudp_drain env [] c = c\<lparr>inbox := []\<rparr>"
| "rudp_drain env ((from, pkt) # ps) c =
     (if pkt = [] then c\<lparr>inbox := ps\<rparr> else rudp_drain env ps (rudp_datagram env from pkt c))"

section \<open>Sending\<close>

definition wire_tick :: "u64 \<Rightarrow> u64" where
  "wire_tick t = (if t = 0 then 1 else t)"

text \<open>Payload and flag after the optional compression.\<close>

definition send_payload :: "rudp_env \<Rightarrow> rudp_context_t \<Rightarrow> bytes \<Rightarrow> byte \<Rightarrow> bytes \<times> byte" where
  "send_payload env c data flag =
     (if use_compress c \<and> length data > 1
      then (case compress_data env 1856 data of Some z \<Rightarrow> (z, flag OR 1) | None \<Rightarrow> (data, flag))
      else (data, flag))"

text \<open>Cookie, ticks, size, flag and data: what is encrypted, without padding.\<close>

definition inner_fields :: "rudp_context_t \<Rightarrow> bytes \<Rightarrow> byte \<Rightarrow> bytes" where
  "inner_fields c payload flag = put_be32 (ru_your_cookie c) @ put_be64 (wire_tick (now c)) @
     put_be64 (last_recv_your_tick c) @ put_be16 (word_of_nat (length payload)) @ [flag] @ payload"

definition pad_size :: "rudp_env \<Rightarrow> rudp_context_t \<Rightarrow> nat \<Rightarrow> nat" where
  "pad_size env c current_size = (if current_size < max_udp_packet_size c
     then rnd env (rnd_i c) mod (min (max_udp_packet_size c - current_size) RUDP_MAX_PADDING_SIZE + 1) else 0)"

definition use_rand :: "rudp_context_t \<Rightarrow> nat \<Rightarrow> rudp_context_t" where
  "use_rand c current_size =
     (if current_size < max_udp_packet_size c then c\<lparr>rnd_i := rnd_i c + 1\<rparr> else c)"

text \<open>The datagram and the next IV; \<open>None\<close> when the payload is refused as too large.\<close>

definition build_v1 :: "rudp_env \<Rightarrow> rudp_context_t \<Rightarrow> bytes \<Rightarrow> byte \<Rightarrow> bytes" where
  "build_v1 env c payload flag = next_iv c @
     rc4_crypt (calc_key env (ru_my_key c) (next_iv c))
       (inner_fields c payload flag @ replicate (pad_size env c (43 + length payload + 20)) 0 @ replicate 20 0)"

definition build_v2 :: "rudp_env \<Rightarrow> rudp_context_t \<Rightarrow> bytes \<Rightarrow> byte \<Rightarrow> bytes" where
  "build_v2 env c payload flag = next_iv_v2 c @
     seal env (ru_my_key_v2 c) (next_iv_v2 c)
       (inner_fields c payload flag @ replicate (pad_size env c (35 + length payload + 16)) 0)"

text \<open>The bookkeeping after \<^verbatim>\<open>sendto\<close>: data (not keep-alives) is charged to the window.\<close>

definition charge :: "nat \<Rightarrow> rudp_context_t \<Rightarrow> rudp_context_t" where
  "charge data_size c = (if data_size > 0 then
       let c = rudp_cwin_refill c
       in c\<lparr>cwin_bytes := (if unat (cwin_bytes c) \<ge> data_size then cwin_bytes c - word_of_nat data_size else 0)\<rparr>
     else c)"

definition udp_transmit :: "rudp_env \<Rightarrow> bytes \<Rightarrow> nat \<Rightarrow> rudp_context_t \<Rightarrow> nat option \<times> rudp_context_t" where
  "udp_transmit env pkt data_size c = (let ok = sendto_ok env (snd_i c); c = c\<lparr>snd_i := snd_i c + 1\<rparr> in
     if \<not> ok then (None, c)
     else (Some (length pkt), charge data_size (c\<lparr>outbox := outbox c @ [(peer_addr c, pkt)]\<rparr>)))"

text \<open>
  \<open>None\<close> is -1. The size test is made against the buffer for both versions before the data
  is copied; version 2 tests the whole packet again.
\<close>

definition rudp_send_nolock ::
  "rudp_env \<Rightarrow> bytes \<Rightarrow> byte \<Rightarrow> rudp_context_t \<Rightarrow> nat option \<times> rudp_context_t" where
  "rudp_send_nolock env data flag c0 = (let c = read_clock env c0;
       (payload, fl) = send_payload env c data flag;
       hdr = (if version c = 1 then 20 else 12) + 23
     in if payload \<noteq> [] \<and> hdr + length payload > RUDP_TMP_BUF_SIZE - 20 - 8 then (None, c)
        else if version c = 1 then
          let pkt = build_v1 env c payload fl;
              c' = use_rand c (43 + length payload + 20)
          in udp_transmit env pkt (length data)
               (c'\<lparr>next_iv := drop (length pkt - 20) pkt\<rparr>)
        else let pkt = build_v2 env c payload fl; c' = use_rand c (35 + length payload + 16) in
          if 35 + length payload + 16 + pad_size env c (35 + length payload + 16) > RUDP_TMP_BUF_SIZE
          then (None, c')
          else udp_transmit env pkt (length data) (c'\<lparr>next_iv_v2 := take 12 (drop 12 pkt)\<rparr>))"

definition rudp_send :: "rudp_env \<Rightarrow> rudp_context_t \<Rightarrow> bytes \<Rightarrow> byte \<Rightarrow> nat option \<times> rudp_context_t" where
  "rudp_send env c data flag = (if \<not> inited c \<or> \<not> peer_addr_set c then (None, c)
     else locked (rudp_send_nolock env data flag) c)"

definition rudp_send_keepalive :: "rudp_env \<Rightarrow> rudp_context_t \<Rightarrow> rudp_context_t" where
  "rudp_send_keepalive env c = snd (rudp_send env c [] 0)"

section \<open>Polling and reading\<close>

definition ka_schedule :: "rudp_env \<Rightarrow> rudp_context_t \<Rightarrow> rudp_context_t" where
  "ka_schedule env c = (let (ka_min, ka_max) = (if fast_detect c then (500, 1000) else (1000, 3000))
     in c\<lparr>next_send_keepalive := now c + word_of_nat (ka_min + rnd env (rnd_i c) mod (ka_max - ka_min)),
          rnd_i := rnd_i c + 1\<rparr>)"

definition rudp_poll_nolock :: "rudp_env \<Rightarrow> rudp_context_t \<Rightarrow> rudp_context_t" where
  "rudp_poll_nolock env c = (let c = read_clock env c;
     c = (if last_recv_tick c \<noteq> 0 \<and> last_recv_tick c + ka_timeout c < now c
          then c\<lparr>first_stable_receive_tick := 0, last_loss_event_tick := now c\<rparr> else c);
     c = (if next_send_keepalive c = 0 \<or> next_send_keepalive c \<le> now c
          then ka_schedule env (if peer_addr_set c then rudp_send_keepalive env c else c) else c)
   in rudp_drain env (inbox c) c)"

definition rudp_poll :: "rudp_env \<Rightarrow> rudp_context_t \<Rightarrow> rudp_context_t" where
  "rudp_poll env c = (if \<not> inited c then c else snd (locked (\<lambda>c. ((), rudp_poll_nolock env c)) c))"

text \<open>
  \<open>Some d\<close> is a positive return with the block, \<open>Some []\<close> is 0, \<open>None\<close> is -1. The last
  return leaves the mutex locked.
\<close>

definition rudp_recv :: "rudp_context_t \<Rightarrow> nat \<Rightarrow> bytes option \<times> rudp_context_t" where
  "rudp_recv c max_len = (let c1 = c\<lparr>lk := lk c + 1\<rparr> in
     if rcount (ru_queue c1) = 0 then (Some [], c1\<lparr>lk := lk c1 - 1\<rparr>)
     else let entry = ring_front (ru_queue c1) in
       if length entry > max_len then (None, c1)
       else (Some entry, c1\<lparr>ru_queue := ring_deq 256 (ru_queue c1), lk := lk c1 - 1\<rparr>))"

section \<open>Invariants\<close>

definition rudp_inv :: "rudp_context_t \<Rightarrow> bool" where
  "rudp_inv c \<longleftrightarrow> ring_inv 256 (ru_queue c) \<and>
     list_all (\<lambda>d. length d \<le> RUDP_MAX_PAYLOAD_SIZE) (ring_contents (ru_queue c)) \<and>
     cwin_bytes c \<le> RUDP_CWIN_MAX \<and> length (next_iv c) = 20 \<and> length (next_iv_v2 c) = 12"

text \<open>The laws of the AEAD: a 16-byte tag, and what was sealed opens under the same key and IV.\<close>

definition aead_ok :: "rudp_env \<Rightarrow> bool" where
  "aead_ok env \<longleftrightarrow> (\<forall>k iv p. length (seal env k iv p) = length p + 16 \<and> unseal env k iv (seal env k iv p) = Some p)"

lemma cwin_refill_le: "cwin_bytes c \<le> RUDP_CWIN_MAX \<Longrightarrow> cwin_bytes (rudp_cwin_refill c) \<le> RUDP_CWIN_MAX"
  by (auto simp: rudp_cwin_refill_def Let_def rudp_consts)

lemma cwin_on_loss_le: "cwin_bytes c \<le> RUDP_CWIN_MAX \<Longrightarrow> cwin_bytes (rudp_cwin_on_loss c) \<le> RUDP_CWIN_MAX"
proof -
  assume a: "cwin_bytes c \<le> RUDP_CWIN_MAX"
  have "cwin_bytes c div 2 \<le> cwin_bytes c"
    by (simp add: word_le_nat_alt unat_div)
  with a show ?thesis by (auto simp: rudp_cwin_on_loss_def Let_def rudp_consts)
qed

lemma cwin_frame [simp]:
  "ru_queue (rudp_cwin_refill c) = ru_queue c" "next_iv (rudp_cwin_refill c) = next_iv c"
  "next_iv_v2 (rudp_cwin_refill c) = next_iv_v2 c" "lk (rudp_cwin_refill c) = lk c"
  "ru_queue (rudp_cwin_on_loss c) = ru_queue c" "next_iv (rudp_cwin_on_loss c) = next_iv c"
  "next_iv_v2 (rudp_cwin_on_loss c) = next_iv_v2 c" "lk (rudp_cwin_on_loss c) = lk c"
  by (simp_all add: rudp_cwin_refill_def rudp_cwin_on_loss_def Let_def)

lemma rudp_inv_refill: "rudp_inv c \<Longrightarrow> rudp_inv (rudp_cwin_refill c)"
  by (simp add: rudp_inv_def cwin_refill_le)

lemma rudp_inv_on_loss: "rudp_inv c \<Longrightarrow> rudp_inv (rudp_cwin_on_loss c)"
  by (simp add: rudp_inv_def cwin_on_loss_le)

lemma rudp_inv_note: "rudp_inv c \<Longrightarrow> rudp_inv (note_packet mt yt from c)"
  unfolding note_packet_def Let_def by (auto simp: rudp_inv_def cwin_on_loss_le)

lemma rudp_inv_queue:
  assumes "rudp_inv c"
  shows "rudp_inv (queue_block d c)"
proof (cases "length d \<le> RUDP_MAX_PAYLOAD_SIZE \<and> rcount (ru_queue c) < 256")
  case True
  with assms show ?thesis
    by (simp add: rudp_inv_def queue_block_def rudp_q.enq_contents rudp_q.enq_inv)
next
  case False
  with assms show ?thesis
    by (auto simp: rudp_inv_def queue_block_def cwin_on_loss_le)
qed

lemma rudp_inv_clock: "rudp_inv c \<Longrightarrow> rudp_inv (read_clock env c)"
  by (simp add: rudp_inv_def read_clock_def)

lemma rudp_inv_inner: "rudp_inv c \<Longrightarrow> rudp_inv (snd (rudp_process_inner env v buf from c))"
  by (auto simp: rudp_process_inner_def Let_def rudp_inv_note rudp_inv_queue
      split: option.splits prod.splits)

lemma rudp_inv_datagram: "rudp_inv c \<Longrightarrow> rudp_inv (rudp_datagram env from pkt c)"
  by (auto simp: rudp_datagram_def Let_def rudp_inv_inner rudp_inv_clock split: option.splits)

lemma rudp_inv_drain: "rudp_inv c \<Longrightarrow> rudp_inv (rudp_drain env ps c)"
proof (induction env ps c rule: rudp_drain.induct)
  case (2 env a pkt ps c)
  then show ?case using rudp_inv_datagram by (auto simp: rudp_inv_def)
qed (simp add: rudp_inv_def)


lemma rudp_inv_charge:
  assumes "rudp_inv c"
  shows "rudp_inv (charge n c)"
proof -
  let ?c = "rudp_cwin_refill c"
  have i: "rudp_inv ?c" using assms by (rule rudp_inv_refill)
  have "cwin_bytes ?c - word_of_nat n \<le> cwin_bytes ?c" if "n \<le> unat (cwin_bytes ?c)"
  proof -
    have "unat (word_of_nat n :: u64) \<le> unat (cwin_bytes ?c)"
      unfolding unat_of_nat using that by (meson le_trans mod_less_eq_dividend)
    then show ?thesis by (simp add: word_le_nat_alt unat_sub)
  qed
  then show ?thesis
    using i assms by (auto simp: charge_def Let_def rudp_inv_def)
qed


lemma inner_fields_length [simp]: "length (inner_fields c p f) = 23 + length p"
  by (simp add: inner_fields_def)

lemma build_v1_length:
  "length (next_iv c) = 20 \<Longrightarrow>
   length (build_v1 env c p f) = 63 + length p + pad_size env c (63 + length p)"
  by (simp add: build_v1_def)

lemma build_v2_length:
  "length (next_iv_v2 c) = 12 \<Longrightarrow> aead_ok env \<Longrightarrow>
   length (build_v2 env c p f) = 51 + length p + pad_size env c (51 + length p)"
  by (simp add: build_v2_def aead_ok_def)

lemma rudp_inv_transmit: "rudp_inv c \<Longrightarrow> rudp_inv (snd (udp_transmit env pkt n c))"
proof -
  assume "rudp_inv c"
  then have "rudp_inv (c\<lparr>snd_i := snd_i c + 1\<rparr>)"
    "rudp_inv (c\<lparr>snd_i := snd_i c + 1, outbox := outbox c @ [(peer_addr c, pkt)]\<rparr>)"
    by (simp_all add: rudp_inv_def)
  then show ?thesis by (simp add: udp_transmit_def Let_def rudp_inv_charge)
qed

lemma rudp_inv_iv:
  "rudp_inv c \<Longrightarrow> length iv = 20 \<Longrightarrow> rudp_inv (use_rand c n\<lparr>next_iv := iv\<rparr>)"
  "rudp_inv c \<Longrightarrow> length iv2 = 12 \<Longrightarrow> rudp_inv (use_rand c n\<lparr>next_iv_v2 := iv2\<rparr>)"
  "rudp_inv c \<Longrightarrow> rudp_inv (use_rand c n)"
  by (simp_all add: rudp_inv_def use_rand_def)

lemma rudp_inv_send_nolock:
  assumes "rudp_inv c0" "aead_ok env"
  shows "rudp_inv (snd (rudp_send_nolock env data flag c0))"
proof -
  obtain payload fl where p: "send_payload env (read_clock env c0) data flag = (payload, fl)" by fastforce
  have i: "rudp_inv (read_clock env c0)" using assms(1) by (rule rudp_inv_clock)
  then have "length (next_iv (read_clock env c0)) = 20" "length (next_iv_v2 (read_clock env c0)) = 12"
    by (simp_all add: rudp_inv_def)
  then show ?thesis
    using i p assms(2) by (auto simp: rudp_send_nolock_def Let_def build_v1_length build_v2_length
        intro!: rudp_inv_transmit rudp_inv_iv)
qed

lemma rudp_inv_frame [simp]:
  "rudp_inv (c\<lparr>lk := n\<rparr>) \<longleftrightarrow> rudp_inv c"
  "rudp_inv (c\<lparr>udp_data_suspended := b, recent_overflows := n\<rparr>) \<longleftrightarrow> rudp_inv c"
  "rudp_inv (c\<lparr>suspension_count := n, udp_data_suspended := b, udp_data_resume_tick := t\<rparr>) \<longleftrightarrow> rudp_inv c"
  "rudp_inv (c\<lparr>udp_data_suspended := b, recent_overflows := n, suspension_count := m, udp_data_resume_tick := t\<rparr>) \<longleftrightarrow> rudp_inv c"
  by (simp_all add: rudp_inv_def)

lemma rudp_inv_send: "rudp_inv c \<Longrightarrow> aead_ok env \<Longrightarrow> rudp_inv (snd (rudp_send env c data flag))"
  by (simp add: rudp_send_def locked_def Let_def rudp_inv_send_nolock split: prod.split)
    (metis rudp_inv_frame(1) rudp_inv_send_nolock snd_conv)

lemma rudp_inv_poll_nolock:
  assumes "rudp_inv c" "aead_ok env"
  shows "rudp_inv (rudp_poll_nolock env c)"
proof -
  have ka: "rudp_inv (ka_schedule env d)" if "rudp_inv d" for d
    using that by (simp add: ka_schedule_def rudp_inv_def)
  let ?c1 = "read_clock env c"
  define c2 where "c2 = (if last_recv_tick ?c1 \<noteq> 0 \<and> last_recv_tick ?c1 + ka_timeout ?c1 < now ?c1
     then ?c1\<lparr>first_stable_receive_tick := 0, last_loss_event_tick := now ?c1\<rparr> else ?c1)"
  have "rudp_inv c2" using rudp_inv_clock [OF assms(1)] by (simp add: c2_def rudp_inv_def)
  then have "rudp_inv (if next_send_keepalive c2 = 0 \<or> next_send_keepalive c2 \<le> now c2
     then ka_schedule env (if peer_addr_set c2 then rudp_send_keepalive env c2 else c2) else c2)"
    by (simp add: ka rudp_send_keepalive_def rudp_inv_send assms(2))
  then show ?thesis
    unfolding rudp_poll_nolock_def Let_def c2_def [symmetric] by (rule rudp_inv_drain)
qed

lemma rudp_inv_ready: "rudp_inv c \<Longrightarrow> rudp_inv (snd (rudp_is_send_ready c chk))"
proof -
  have 1: "rudp_inv (clean_reset d)" if "rudp_inv d" for d
    using that by (simp add: clean_reset_def rudp_inv_def)
  have 2: "rudp_inv (snd (ka_ready chk d))" if "rudp_inv d" for d
    using that by (simp add: ka_ready_def rudp_inv_def)
  have 3: "rudp_inv (snd (rudp_is_send_ready_nolock chk d))" if "rudp_inv d" for d
  proof -
    have "rudp_inv (clean_reset (rudp_cwin_refill d))" using that 1 rudp_inv_refill by blast
    then show ?thesis
      unfolding rudp_is_send_ready_nolock_def Let_def
      by (auto intro!: 2)
  qed
  assume "rudp_inv c"
  then show ?thesis
    using 3 [of "c\<lparr>lk := lk c + 1\<rparr>"]
    by (simp add: rudp_is_send_ready_def locked_def split: prod.split) (metis rudp_inv_frame(1) snd_conv)
qed


section \<open>Sequences of operations\<close>

text \<open>
  What can happen to a context: a datagram arrives, and the receive and send threads call
  the operations in any order (each holds the mutex throughout).
\<close>

datatype rudp_op = Arrive sockaddr bytes | Poll | Send bytes byte | Ready bool | Recv nat

fun rudp_run :: "rudp_env \<Rightarrow> rudp_op \<Rightarrow> rudp_context_t \<Rightarrow> rudp_context_t" where
  "rudp_run env (Arrive a pkt) c = c\<lparr>inbox := inbox c @ [(a, pkt)]\<rparr>"
| "rudp_run env Poll c = rudp_poll env c"
| "rudp_run env (Send data flag) c = snd (rudp_send env c data flag)"
| "rudp_run env (Ready chk) c = snd (rudp_is_send_ready c chk)"
| "rudp_run env (Recv n) c = snd (rudp_recv c n)"

lemma rudp_inv_poll: "rudp_inv c \<Longrightarrow> aead_ok env \<Longrightarrow> rudp_inv (rudp_poll env c)"
  using rudp_inv_poll_nolock [of "c\<lparr>lk := lk c + 1\<rparr>" env]
  by (simp add: rudp_poll_def locked_def)

lemma rudp_inv_recv:
  assumes "rudp_inv c"
  shows "rudp_inv (snd (rudp_recv c n))"
proof (cases "rcount (ru_queue c) = 0 \<or> length (ring_front (ru_queue c)) > n")
  case True
  with assms show ?thesis by (auto simp: rudp_recv_def Let_def)
next
  case False
  then have "0 < rcount (ru_queue c)" by simp
  moreover have inv: "ring_inv 256 (ru_queue c)" using assms by (simp add: rudp_inv_def)
  ultimately have "list_all (\<lambda>d. length d \<le> RUDP_MAX_PAYLOAD_SIZE) (ring_contents (ring_deq 256 (ru_queue c)))"
    "ring_inv 256 (ring_deq 256 (ru_queue c))"
    using assms rudp_q.front_deq [OF inv] rudp_q.deq_inv [OF inv] by (auto simp: rudp_inv_def)
  with False assms show ?thesis by (simp add: rudp_recv_def Let_def rudp_inv_def)
qed

lemma rudp_inv_run: "rudp_inv c \<Longrightarrow> aead_ok env \<Longrightarrow> rudp_inv (rudp_run env op c)"
  by (cases op) (simp_all add: rudp_inv_poll rudp_inv_send rudp_inv_ready rudp_inv_recv,
      simp add: rudp_inv_def)

text \<open>
  C13: invariant of the UDP context. Under any sequence of arriving datagrams, polls, sends,
  readiness tests and reads, the receive queue stays a well-formed ring of at most 256
  blocks of at most 1600 bytes, the send window never exceeds its ceiling, and both IVs
  keep their sizes.
\<close>

theorem rudp_ops_invariant:
  assumes "rudp_inv c" "aead_ok env"
  shows "rudp_inv (fold (rudp_run env) ops c)"
  using assms(1)
proof (induction ops arbitrary: c)
  case (Cons op ops)
  then show ?case using rudp_inv_run [OF Cons.prems assms(2)] by simp
qed simp

text \<open>A concrete environment: no compression, an AEAD that appends a constant tag.\<close>

definition rudp_env0 :: rudp_env where
  "rudp_env0 = \<lparr>sha1 = (\<lambda>x. take 20 (x @ replicate 20 0)), zcomp = (\<lambda>_ _. None), zuncomp = (\<lambda>_ _. None),
     seal = (\<lambda>k iv p. p @ replicate 16 1), unseal = (\<lambda>k iv c. Some (take (length c - 16) c)),
     tick64 = (\<lambda>n. word_of_nat (100000 + n)), rnd = (\<lambda>n. n), sendto_ok = (\<lambda>_. True)\<rparr>"

definition rudp_ctx0 :: rudp_context_t where
  "rudp_ctx0 = \<lparr>udp_fd = 5, inited = True, version = 1, ru_my_key = replicate 20 1, ru_your_key = replicate 20 1,
     ru_my_key_v2 = replicate 128 1, ru_your_key_v2 = replicate 128 1, next_iv = replicate 20 5,
     next_iv_v2 = replicate 12 5, v2_cipher_inited = True, ru_my_cookie = 9, ru_your_cookie = 9,
     peer_addr = Inet [127, 0, 0, 1] 443, peer_addr_set = True, is_ipv6 = False, now = 100000,
     last_recv_tick = 0, last_recv_your_tick = 0, last_recv_my_tick = 0, next_send_keepalive = 0,
     first_stable_receive_tick = 0, fast_detect = False, mss = 1355, max_udp_packet_size = 1472,
     use_compress = False, ru_queue = ring_new 256 [], fatal_error = False,
     recv_queue_overflow_count = 0, udp_rx_packets = 0, peer_tick_gap_events = 0,
     last_peer_tick_seen = 0, recent_overflows = 0, udp_data_suspended = False,
     udp_data_resume_tick = 0, suspension_count = 0, last_loss_event_tick = 0, cwin_bytes = 0,
     cwin_last_refill_tick = 0, cwin_inited = False, lk = 0, inbox = [], outbox = [],
     clk_i = 0, rnd_i = 0, snd_i = 0\<rparr>"

lemma rudp_inv_ctx0: "rudp_inv rudp_ctx0"
  by (simp add: rudp_inv_def rudp_ctx0_def ring_inv_new rudp_consts)

lemma aead_ok_env0: "aead_ok rudp_env0"
  by (simp add: aead_ok_def rudp_env0_def)

theorem rudp_ops_invariant_witness:
  "rudp_inv (fold (rudp_run rudp_env0)
     [Arrive (Inet [1, 2, 3, 4] 5) [1, 2, 3], Poll, Send [7] 0, Ready True, Recv 100] rudp_ctx0)"
  by (rule rudp_ops_invariant [OF rudp_inv_ctx0 aead_ok_env0])

section \<open>Round trips\<close>

lemma parse_inner_fields:
  assumes "length p < 65536"
  shows "parse_inner (inner_fields c p f @ r) =
     Some (ru_your_cookie c, wire_tick (now c), last_recv_your_tick c, f, p, r)"
proof -
  let ?h = "put_be32 (ru_your_cookie c) @ put_be64 (wire_tick (now c)) @ put_be64 (last_recv_your_tick c) @
     put_be16 (word_of_nat (length p))"
  have "unat (word_of_nat (length p) :: u16) = length p"
    unfolding unat_of_nat using assms by simp
  moreover have "drop 23 (inner_fields c p f @ r) = p @ r"
    by (simp add: inner_fields_def)
  moreover have "(inner_fields c p f @ r) ! 22 = f"
    by (simp add: inner_fields_def nth_append)
  ultimately show ?thesis
    by (simp add: parse_inner_def Let_def) (simp add: inner_fields_def)
qed

text \<open>The receiver's view of a sender: it knows the key and the cookie, and the tick is in its window.\<close>

definition rudp_peer :: "rudp_context_t \<Rightarrow> rudp_context_t \<Rightarrow> bool" where
  "rudp_peer s r \<longleftrightarrow> version r = version s \<and> ru_my_cookie r = ru_your_cookie s \<and>
     (if version s = 1 then ru_your_key r = ru_my_key s else ru_your_key_v2 r = ru_my_key_v2 s)"

definition in_window :: "u64 \<Rightarrow> rudp_context_t \<Rightarrow> bool" where
  "in_window t r \<longleftrightarrow> \<not> (t < last_recv_your_tick r \<and> last_recv_your_tick r - t \<ge> RUDP_WINDOW_SIZE_MSEC)"

lemma note_packet_queue [simp]: "ru_queue (note_packet a b f c) = ru_queue c"
  by (simp add: note_packet_def Let_def)

lemma inner_accepts:
  assumes "length p \<le> RUDP_MAX_PAYLOAD_SIZE" "p \<noteq> []" "rcount (ru_queue r) < 256" "ring_inv 256 (ru_queue r)"
    and "ru_my_cookie r = ru_your_cookie s" "in_window (wire_tick (now s)) r" "v \<longrightarrow> verify_zero rest"
  shows "ring_contents (ru_queue (snd (rudp_process_inner env v (inner_fields s p 0 @ rest) a r))) =
     ring_contents (ru_queue r) @ [p]"
proof -
  have "length p < 65536" using assms(1) by (simp add: rudp_consts)
  from parse_inner_fields [OF this, of s 0 rest] assms show ?thesis
    by (simp add: rudp_process_inner_def in_window_def Let_def queue_block_def rudp_q.enq_contents)
qed

lemma pad_fits: "n + pad_size env c n \<le> max n (max_udp_packet_size c)"
proof (cases "n < max_udp_packet_size c")
  case True
  let ?m = "min (max_udp_packet_size c - n) RUDP_MAX_PADDING_SIZE"
  have "rnd env (rnd_i c) mod (?m + 1) \<le> ?m" using mod_less_divisor [of "?m + 1"] by (simp add: less_Suc_eq_le)
  with True show ?thesis unfolding pad_size_def by (simp add: le_diff_conv2)
qed (simp add: pad_size_def)


lemma charge_outbox [simp]: "outbox (charge n c) = outbox c"
  by (simp add: charge_def Let_def rudp_cwin_refill_def)

lemma transmit_ok:
  "sendto_ok env (snd_i c) \<Longrightarrow> \<exists>c'. udp_transmit env pkt n c = (Some (length pkt), c') \<and>
     outbox c' = outbox c @ [(peer_addr c, pkt)]"
  by (simp add: udp_transmit_def Let_def)

lemma verify_zero_pad: "verify_zero (replicate n 0 @ replicate 20 0)"
  by (simp add: verify_zero_def list_all_iff)

lemma datagram_v1:
  assumes "length (next_iv s) = 20" "version r = 1" "ru_your_key r = ru_my_key s"
    "length (build_v1 env s p f) \<le> RUDP_TMP_BUF_SIZE"
  shows "rudp_datagram env a (build_v1 env s p f) r = snd (rudp_process_inner env True
     (inner_fields s p f @ replicate (pad_size env s (63 + length p)) 0 @ replicate 20 0) a (read_clock env r))"
  using assms build_v1_length [OF assms(1), of env p f]
  by (simp add: rudp_datagram_def Let_def read_clock_def)
    (simp add: build_v1_def rc4.crypt_involutive)

lemma datagram_v2:
  assumes "length (next_iv_v2 s) = 12" "version r = 2" "ru_your_key_v2 r = ru_my_key_v2 s"
    "length (build_v2 env s p f) \<le> RUDP_TMP_BUF_SIZE" "aead_ok env"
  shows "rudp_datagram env a (build_v2 env s p f) r = snd (rudp_process_inner env False
     (inner_fields s p f @ replicate (pad_size env s (51 + length p)) 0) a (read_clock env r))"
  using assms build_v2_length [OF assms(1,5), of p f]
  by (simp add: rudp_datagram_def Let_def read_clock_def)
    (simp add: build_v2_def aead_ok_def)

text \<open>The packet a send builds, and that it fits the 2048-byte buffer.\<close>

definition sent_packet :: "rudp_env \<Rightarrow> rudp_context_t \<Rightarrow> bytes \<Rightarrow> bytes" where
  "sent_packet env s data = (let c = read_clock env s in
     if version s = 1 then build_v1 env c data 0 else build_v2 env c data 0)"

lemma sent_packet_fits:
  assumes "rudp_inv s" "aead_ok env" "length data \<le> 1977" "max_udp_packet_size s \<le> RUDP_TMP_BUF_SIZE"
  shows "length (sent_packet env s data) \<le> RUDP_TMP_BUF_SIZE"
  using assms pad_fits [of "63 + length data" env "read_clock env s"]
    pad_fits [of "51 + length data" env "read_clock env s"]
  by (auto simp: sent_packet_def Let_def build_v1_length build_v2_length rudp_inv_def
      read_clock_def rudp_consts)

lemma clock_frame [simp]:
  "version (read_clock env c) = version c" "snd_i (read_clock env c) = snd_i c"
  "outbox (read_clock env c) = outbox c" "peer_addr (read_clock env c) = peer_addr c"
  "max_udp_packet_size (read_clock env c) = max_udp_packet_size c"
  "use_compress (read_clock env c) = use_compress c"
  by (simp_all add: read_clock_def)

lemma use_rand_frame [simp]:
  "snd_i (use_rand c n) = snd_i c" "outbox (use_rand c n) = outbox c" "peer_addr (use_rand c n) = peer_addr c"
  by (simp_all add: use_rand_def)

lemma sent_packet_lk [simp]: "sent_packet env (s\<lparr>lk := n\<rparr>) data = sent_packet env s data"
  by (simp add: sent_packet_def Let_def build_v1_def build_v2_def inner_fields_def pad_size_def read_clock_def)

lemma rudp_send_nolock_ok:
  assumes "sendto_ok env (snd_i s)" "\<not> use_compress s" "length data \<le> 1977"
    "max_udp_packet_size s \<le> RUDP_TMP_BUF_SIZE"
  shows "\<exists>s'. rudp_send_nolock env data 0 s = (Some (length (sent_packet env s data)), s') \<and>
     outbox s' = outbox s @ [(peer_addr s, sent_packet env s data)]"
proof -
  have pay: "send_payload env (read_clock env s) data 0 = (data, 0)"
    using assms(2) by (simp add: send_payload_def)
  have hdr: "\<not> (if version s = 1 then 20 else 12) + 23 + length data > RUDP_TMP_BUF_SIZE - 20 - 8"
    using assms(3) by (simp add: rudp_consts)
  have lim: "\<not> 35 + length data + 16 + pad_size env (read_clock env s) (35 + length data + 16) > RUDP_TMP_BUF_SIZE"
    using pad_fits [of "51 + length data" env "read_clock env s"] assms(3,4) by (simp add: rudp_consts)
  show ?thesis
    using assms(1) hdr lim
    by (cases "version s = 1")
      (simp_all add: rudp_send_nolock_def Let_def pay sent_packet_def udp_transmit_def)
qed

lemma rudp_send_ok:
  assumes "inited s" "peer_addr_set s" "sendto_ok env (snd_i s)"
    and "\<not> use_compress s" "length data \<le> 1977" "max_udp_packet_size s \<le> RUDP_TMP_BUF_SIZE"
  shows "\<exists>s'. rudp_send env s data 0 = (Some (length (sent_packet env s data)), s') \<and>
     outbox s' = outbox s @ [(peer_addr s, sent_packet env s data)]"
  using rudp_send_nolock_ok [of env "s\<lparr>lk := lk s + 1\<rparr>" data] assms
  by (auto simp: rudp_send_def locked_def)

lemma send_delivers:
  assumes inv: "rudp_inv s" "rudp_inv r" and env: "aead_ok env"
    and up: "inited s" "peer_addr_set s" "sendto_ok env (snd_i s)" "\<not> use_compress s"
    and data: "data \<noteq> []" "length data \<le> RUDP_MAX_PAYLOAD_SIZE"
    and fmt: "version s = 1 \<or> version s = 2" "max_udp_packet_size s \<le> RUDP_TMP_BUF_SIZE"
    and peer: "rudp_peer s r" "in_window (wire_tick (tick64 env (clk_i s))) r" "rcount (ru_queue r) < 256"
  shows "\<exists>pkt s'. rudp_send env s data 0 = (Some (length pkt), s') \<and>
     outbox s' = outbox s @ [(peer_addr s, pkt)] \<and> length pkt \<le> RUDP_TMP_BUF_SIZE \<and>
     ring_contents (ru_queue (rudp_datagram env a pkt r)) = ring_contents (ru_queue r) @ [data]"
proof -
  let ?pkt = "sent_packet env s data" and ?c = "read_clock env s" and ?r = "read_clock env r"
  have d: "length data \<le> 1977" using data(2) by (simp add: rudp_consts)
  note fits = sent_packet_fits [OF inv(1) env d fmt(2)]
  have iv: "length (next_iv ?c) = 20" "length (next_iv_v2 ?c) = 12"
    using inv(1) by (auto simp: rudp_inv_def read_clock_def)
  have k: "version s = 1 \<Longrightarrow> ru_your_key r = ru_my_key ?c" "version s \<noteq> 1 \<Longrightarrow> ru_your_key_v2 r = ru_my_key_v2 ?c"
    "ru_my_cookie ?r = ru_your_cookie ?c"
    "version r = version s" "in_window (wire_tick (now ?c)) ?r" "ru_queue ?r = ru_queue r"
    using peer by (auto simp: rudp_peer_def read_clock_def in_window_def)
  have q: "rcount (ru_queue ?r) < 256" "ring_inv 256 (ru_queue ?r)"
    using peer inv(2) k by (auto simp: rudp_inv_def)
  have "ring_contents (ru_queue (rudp_datagram env a ?pkt r)) = ring_contents (ru_queue r) @ [data]"
  proof (cases "version s = 1")
    case True
    then have "rudp_datagram env a ?pkt r = snd (rudp_process_inner env True (inner_fields ?c data 0 @
        replicate (pad_size env ?c (63 + length data)) 0 @ replicate 20 0) a ?r)"
      using datagram_v1 [OF iv(1), of r env data 0 a] k fits by (simp add: sent_packet_def Let_def)
    then show ?thesis
      using inner_accepts [OF data(2,1) q k(3,5), of True] verify_zero_pad k(6) by simp
  next
    case False
    then have "rudp_datagram env a ?pkt r = snd (rudp_process_inner env False (inner_fields ?c data 0 @
        replicate (pad_size env ?c (51 + length data)) 0) a ?r)"
      using datagram_v2 [OF iv(2), of r env data 0 a] k fits fmt env by (simp add: sent_packet_def Let_def)
    then show ?thesis
      using inner_accepts [OF data(2,1) q k(3,5), of False] k(6) by simp
  qed
  with rudp_send_ok [OF up d fmt(2)] fits show ?thesis by blast
qed

text \<open>
  C12: UDP acceleration round trip. For both versions of the format, a block of 1 to 1600
  bytes sent by one side is, when its datagram reaches a peer that holds the matching key
  and cookie and has it inside its time window, appended unchanged to the peer's receive
  queue; the datagram fits the 2048-byte buffers of both sides.
\<close>

theorem rudp_send_delivers:
  assumes inv: "rudp_inv s" "rudp_inv r" and env: "aead_ok env"
    and up: "inited s" "peer_addr_set s" "sendto_ok env (snd_i s)" "\<not> use_compress s"
    and data: "data \<noteq> []" "length data \<le> RUDP_MAX_PAYLOAD_SIZE"
    and fmt: "version s = 1 \<or> version s = 2" "max_udp_packet_size s \<le> RUDP_TMP_BUF_SIZE"
    and peer: "rudp_peer s r" "in_window (wire_tick (tick64 env (clk_i s))) r" "rcount (ru_queue r) < 256"
  shows "\<exists>pkt s'. rudp_send env s data 0 = (Some (length pkt), s') \<and>
     outbox s' = outbox s @ [(peer_addr s, pkt)] \<and> length pkt \<le> RUDP_TMP_BUF_SIZE \<and>
     ring_contents (ru_queue (rudp_datagram env a pkt r)) = ring_contents (ru_queue r) @ [data]"
  by (rule send_delivers [OF assms])

theorem rudp_send_delivers_witness:
  "\<exists>pkt s'. rudp_send rudp_env0 rudp_ctx0 [1, 2, 3] 0 = (Some (length pkt), s') \<and>
     outbox s' = [(Inet [127, 0, 0, 1] 443, pkt)] \<and> length pkt \<le> RUDP_TMP_BUF_SIZE \<and>
     ring_contents (ru_queue (rudp_datagram rudp_env0 (Inet [1, 2, 3, 4] 9) pkt rudp_ctx0)) = [[1, 2, 3]]"
  using rudp_send_delivers [OF rudp_inv_ctx0 rudp_inv_ctx0 aead_ok_env0, of "[1, 2, 3]" "Inet [1, 2, 3, 4] 9"]
  by (simp add: rudp_ctx0_def rudp_env0_def rudp_consts rudp_peer_def in_window_def ring_new_def
      ring_contents_def)

section \<open>Rejected packets\<close>

text \<open>
  A packet that is too short, carries another cookie, fails the verify field or lies
  outside the time window changes nothing: neither the peer address nor the ticks nor the
  queue. Only the clock reading is new.
\<close>

theorem rudp_reject_unchanged:
  assumes "case parse_inner buf of None \<Rightarrow> True | Some (cookie, my_tick, _, _, _, rest) \<Rightarrow>
     cookie \<noteq> ru_my_cookie c \<or> (v \<and> \<not> verify_zero rest) \<or> \<not> in_window my_tick c"
  shows "rudp_process_inner env v buf a c = (False, c)"
  using assms by (auto simp: rudp_process_inner_def in_window_def split: option.splits)

theorem rudp_reject_unchanged_witness:
  "rudp_process_inner rudp_env0 True (replicate 43 0) (Inet [1] 2) rudp_ctx0 = (False, rudp_ctx0)"
proof (rule rudp_reject_unchanged)
  have "get_be32 (replicate 43 0) = 0" by (simp add: numeral_eq_Suc)
  then show "case parse_inner (replicate 43 0) of None \<Rightarrow> True | Some (cookie, my_tick, _, _, _, rest) \<Rightarrow>
     cookie \<noteq> ru_my_cookie rudp_ctx0 \<or> (True \<and> \<not> verify_zero rest) \<or> \<not> in_window my_tick rudp_ctx0"
    by (simp add: parse_inner_def Let_def rudp_ctx0_def)
qed

section \<open>Readiness and the fallback to TCP\<close>

text \<open>
  UDP carries session data only over a proven path. When the readiness test with
  keep-alive checking says yes, data is not suspended, a packet arrived within the
  keep-alive timeout, reception has been continuous for ten seconds, and there is budget
  left in the send window.
\<close>

theorem rudp_ready_sound:
  assumes "rudp_is_send_ready c True = (True, c')"
  shows "\<not> udp_data_suspended c' \<and> last_recv_tick c' \<noteq> 0 \<and>
     now c' \<le> last_recv_tick c' + ka_timeout c' \<and>
     first_stable_receive_tick c' + RUDP_REQUIRE_CONTINUOUS \<le> now c' \<and> cwin_bytes c' \<noteq> 0 \<and>
     recent_overflows c' < RUDP_OVERFLOW_SUSPEND_THRESHOLD"
proof -
  have ka: "ka_ready True d = (True, d') \<Longrightarrow> d' = d \<and> last_recv_tick d \<noteq> 0 \<and>
      now d \<le> last_recv_tick d + ka_timeout d \<and>
      first_stable_receive_tick d + RUDP_REQUIRE_CONTINUOUS \<le> now d \<and> cwin_bytes d \<noteq> 0" for d d'
    by (auto simp: ka_ready_def not_less split: if_splits)
  obtain d where n: "rudp_is_send_ready_nolock True (c\<lparr>lk := lk c + 1\<rparr>) = (True, d)"
    and c': "c' = d\<lparr>lk := lk d - 1\<rparr>"
    using assms by (auto simp: rudp_is_send_ready_def locked_def Let_def split: if_splits prod.splits)
  then show ?thesis
    by (auto simp: rudp_is_send_ready_nolock_def Let_def ka_timeout_def not_le split: if_splits dest!: ka)
qed

definition rudp_ctx1 :: rudp_context_t where
  "rudp_ctx1 = rudp_ctx0\<lparr>last_recv_tick := 99000, first_stable_receive_tick := 50000\<rparr>"

theorem rudp_ready_sound_witness:
  "\<exists>c'. rudp_is_send_ready rudp_ctx1 True = (True, c') \<and> cwin_bytes c' \<noteq> 0"
proof -
  have "fst (rudp_is_send_ready rudp_ctx1 True)"
    by (simp add: rudp_is_send_ready_def locked_def rudp_is_send_ready_nolock_def rudp_cwin_refill_def
        clean_reset_def ka_ready_def ka_timeout_def rudp_ctx1_def rudp_ctx0_def rudp_consts)
  then obtain c' where "rudp_is_send_ready rudp_ctx1 True = (True, c')"
    by (metis prod.collapse)
  with rudp_ready_sound [OF this] show ?thesis by blast
qed

text \<open>
  Backoff of the fallback. When eight or more receive overflows have accumulated (and
  no five clean minutes have passed), the readiness test refuses and suspends UDP data for
  30 seconds doubled once per earlier suspension, at most eightfold; until then every
  readiness test refuses.
\<close>

theorem rudp_suspend_backoff:
  assumes "inited c" "peer_addr_set c" "\<not> udp_data_suspended c"
    and "RUDP_OVERFLOW_SUSPEND_THRESHOLD \<le> recent_overflows c"
    and "now c \<le> last_loss_event_tick c \<or> now c - last_loss_event_tick c < RUDP_CLEAN_RESET_MS"
  shows "\<exists>c'. rudp_is_send_ready c chk = (False, c') \<and> udp_data_suspended c' \<and>
     suspension_count c' = suspension_count c + 1 \<and>
     udp_data_resume_tick c' = now c + 30000 * 2 ^ min (suspension_count c) 3 \<and>
     (\<forall>t < udp_data_resume_tick c'. fst (rudp_is_send_ready (c'\<lparr>now := t\<rparr>) chk2) = False)"
proof -
  let ?c = "rudp_cwin_refill (c\<lparr>lk := lk c + 1\<rparr>)"
  have keep: "udp_data_suspended ?c = udp_data_suspended c" "recent_overflows ?c = recent_overflows c"
    "now ?c = now c" "last_loss_event_tick ?c = last_loss_event_tick c" "suspension_count ?c = suspension_count c"
    by (simp_all add: rudp_cwin_refill_def Let_def)
  then have cr: "clean_reset ?c = ?c"
    using assms(5) by (auto simp: clean_reset_def)
  let ?d = "?c\<lparr>suspension_count := suspension_count c + 1, udp_data_suspended := True,
     udp_data_resume_tick := now c + push_bit (min (suspension_count c) 3) RUDP_UDP_SUSPEND_MS\<rparr>"
  have r: "rudp_is_send_ready c chk = (False, ?d\<lparr>lk := lk ?d - 1\<rparr>)"
    using assms cr keep
    by (simp add: rudp_is_send_ready_def locked_def rudp_is_send_ready_nolock_def Let_def
        RUDP_SUSPEND_BACKOFF_MAX_SHIFT_def)
  have later: "fst (rudp_is_send_ready d chk2) = False"
    if "udp_data_suspended d" "now d < udp_data_resume_tick d" for d
    using that by (simp add: rudp_is_send_ready_def locked_def rudp_is_send_ready_nolock_def Let_def
        clean_reset_def rudp_cwin_refill_def)
  show ?thesis
    using r later by (auto simp: push_bit_eq_mult RUDP_UDP_SUSPEND_MS_def mult.commute)
qed

theorem rudp_suspend_backoff_witness:
  "\<exists>c'. rudp_is_send_ready (rudp_ctx0\<lparr>recent_overflows := 8, suspension_count := 1, last_loss_event_tick := 99999\<rparr>) True =
     (False, c') \<and> udp_data_resume_tick c' = 160000"
proof -
  let ?c = "rudp_ctx0\<lparr>recent_overflows := 8, suspension_count := 1, last_loss_event_tick := 99999\<rparr>"
  have "inited ?c" "peer_addr_set ?c" "\<not> udp_data_suspended ?c"
    "RUDP_OVERFLOW_SUSPEND_THRESHOLD \<le> recent_overflows ?c"
    "now ?c \<le> last_loss_event_tick ?c \<or> now ?c - last_loss_event_tick ?c < RUDP_CLEAN_RESET_MS"
    by (simp_all add: rudp_ctx0_def rudp_consts)
  from rudp_suspend_backoff [OF this, of True True] show ?thesis
    by (auto simp: rudp_ctx0_def)
qed

section \<open>Reading, and the mutex\<close>

text \<open>
  Reading a block. With a buffer that holds any block (1600 bytes) reads return the
  queued blocks in the order they were queued and release the mutex. With a smaller buffer
  a longer block at the head is never removed, and each such call returns -1 with the
  mutex still held: the other thread can never enter the context again.
\<close>

theorem rudp_recv_fifo:
  assumes inv: "rudp_inv c"
  shows "(RUDP_MAX_PAYLOAD_SIZE \<le> n \<longrightarrow> (case ring_contents (ru_queue c) of
       [] \<Rightarrow> rudp_recv c n = (Some [], c)
     | d # ds \<Rightarrow> (\<exists>c'. rudp_recv c n = (Some d, c') \<and> ring_contents (ru_queue c') = ds \<and> lk c' = lk c))) \<and>
     (\<forall>d ds. ring_contents (ru_queue c) = d # ds \<longrightarrow> n < length d \<longrightarrow>
       rudp_recv c n = (None, c\<lparr>lk := lk c + 1\<rparr>))"
proof -
  have q: "ring_inv 256 (ru_queue c)" using inv by (simp add: rudp_inv_def)
  have fr: "ring_front (ru_queue c) = d \<and> ring_contents (ring_deq 256 (ru_queue c)) = ds \<and> 0 < rcount (ru_queue c)"
    if "ring_contents (ru_queue c) = d # ds" for d ds
    using that rudp_q.front_deq [OF q] rudp_q.count_contents [OF q] by fastforce
  have le: "length d \<le> RUDP_MAX_PAYLOAD_SIZE" if "ring_contents (ru_queue c) = d # ds" for d ds
    using that inv by (simp add: rudp_inv_def)
  show ?thesis
  proof (cases "ring_contents (ru_queue c)")
    case Nil
    then have "rcount (ru_queue c) = 0" using rudp_q.empty_iff [OF q] by simp
    with Nil show ?thesis by (simp add: rudp_recv_def Let_def)
  next
    case (Cons d ds)
    with fr [OF Cons] le [OF Cons] show ?thesis by (auto simp: rudp_recv_def Let_def)
  qed
qed

theorem rudp_recv_fifo_witness:
  "\<exists>c'. rudp_recv (rudp_ctx0\<lparr>ru_queue := ring_enq 256 [1, 2, 3] (ring_new 256 [])\<rparr>) 2 = (None, c') \<and> lk c' = 1"
proof -
  let ?q = "ring_enq 256 [1, 2, 3] (ring_new 256 []) :: bytes ring"
  have q: "ring_inv 256 ?q" "ring_contents ?q = [[1, 2, 3]]"
    using rudp_q.enq_inv [of "ring_new 256 []"] rudp_q.enq_contents [of "ring_new 256 []"]
    by (simp_all add: ring_inv_new) (simp_all add: ring_new_def)
  then have "rudp_inv (rudp_ctx0\<lparr>ru_queue := ?q\<rparr>)"
    using rudp_inv_ctx0 by (simp add: rudp_inv_def rudp_consts)
  from rudp_recv_fifo [OF this, of 2] q show ?thesis by (simp add: rudp_ctx0_def)
qed

end
