(* ===== verification/Data_Channel.thy ===== *)
theory Data_Channel
  imports Net_Io Rudp_Accel
begin

text \<open>
  The data channel over one or more TCP connections (\<^verbatim>\<open>packet_handler.c\<close>, and the socket
  selection of \<^verbatim>\<open>softether_protocol.c\<close>): blocks with a count and lengths in front, the
  keep-alive message, the receive queue filled from whichever socket has data, the
  transmission with failover, and the retirement of failed sockets. The connection record
  holds the fields of \<^verbatim>\<open>softether_connection_t\<close> these use, and the state of its surroundings:
  the byte streams by file descriptor, the descriptors closed, the TLS contexts destroyed
  and the number of clock, \<^verbatim>\<open>rand\<close> and \<^verbatim>\<open>poll\<close> calls made. A TLS context is a number, NULL is
  \<open>None\<close>. One operation runs at a time, as under \<^verbatim>\<open>write_mutex\<close> and \<^verbatim>\<open>ssl_lifetime_lock\<close>.
\<close>

section \<open>State\<close>

datatype softether_state_t = STATE_DISCONNECTED | STATE_CONNECTING | STATE_TLS_HANDSHAKE
  | STATE_PROTOCOL_HANDSHAKE | STATE_AUTHENTICATING | STATE_SESSION_SETUP | STATE_CONNECTED
  | STATE_DISCONNECTING

definition TCP_DIRECTION_BOTH :: nat where "TCP_DIRECTION_BOTH = 0"
definition TCP_DIRECTION_SERVER_TO_CLIENT :: nat where "TCP_DIRECTION_SERVER_TO_CLIENT = 1"
definition TCP_DIRECTION_CLIENT_TO_SERVER :: nat where "TCP_DIRECTION_CLIENT_TO_SERVER = 2"
definition MAX_SE_CONNECTIONS :: nat where "MAX_SE_CONNECTIONS = 8"
definition MAX_BLOCK_SIZE :: nat where "MAX_BLOCK_SIZE = 1600 * 1600"
definition MAX_QUEUED_FRAME :: nat where "MAX_QUEUED_FRAME = 2048"
definition KEEP_ALIVE_MAGIC :: u32 where "KEEP_ALIVE_MAGIC = 0xFFFFFFFF"
definition COMPRESS_MAGIC :: u64 where "COMPRESS_MAGIC = 0xDEADBEEFCAFEFACE"

lemmas dc_consts = TCP_DIRECTION_BOTH_def TCP_DIRECTION_SERVER_TO_CLIENT_def
  TCP_DIRECTION_CLIENT_TO_SERVER_def MAX_SE_CONNECTIONS_def MAX_BLOCK_SIZE_def MAX_QUEUED_FRAME_def
  KEEP_ALIVE_MAGIC_def

record tcp_sock =
  ts_fd :: int
  ts_ctx :: "nat option"
  ts_ssl :: "nat option"
  ts_dir :: nat
  ts_last_recv :: nat
  ts_late :: nat
  ts_active :: bool

record conn_t =
  cstate :: softether_state_t
  socket_fd :: int
  conn_ssl :: "nat option"
  conn_ssl_ctx :: "nat option"
  primary_direction :: nat
  additional :: "tcp_sock list"
  num_additional :: int
  send_rr_idx :: nat
  recv_queue :: "bytes ring"
  rx_skipped_blocks :: u32
  conn_compress :: bool
  conn_ssl_data :: bool
  send_block_cap :: nat
  conn_timeout :: nat
  next_tcp_keepalive_time :: nat
  conn_rudp :: "rudp_context_t option"
  conn_rudp_enabled :: bool
  conn_session_established :: bool
  rxs :: "int \<Rightarrow> instream"
  txs :: "int \<Rightarrow> outstream"
  closed_fds :: "int list"
  destroyed :: "nat list"
  cclk_i :: nat
  crnd_i :: nat
  poll_i :: nat

text \<open>What \<^verbatim>\<open>poll\<close> reports of a descriptor.\<close>

record revents =
  pollin :: bool
  pollbad :: bool
  pollnval :: bool

datatype poll_result = Poll_timeout | Poll_error | Poll_ready "int \<Rightarrow> revents"

record conn_env =
  renv :: rudp_env
  cheap :: heap_env
  tick_ms :: "nat \<Rightarrow> nat"
  crand :: "nat \<Rightarrow> nat"
  polls :: "nat \<Rightarrow> poll_result"
  ssl_pending :: "nat \<Rightarrow> nat \<Rightarrow> bool"

section \<open>Reading and writing a socket\<close>

text \<open>The stream behind a descriptor moves on.\<close>

definition set_rx :: "int \<Rightarrow> instream \<Rightarrow> conn_t \<Rightarrow> conn_t" where
  "set_rx fd s c = c\<lparr>rxs := (rxs c)(fd := s)\<rparr>"

definition data_read_all_sock :: "int \<Rightarrow> nat \<Rightarrow> conn_t \<Rightarrow> bytes option \<times> conn_t" where
  "data_read_all_sock fd n c = (let (r, s) = read_all n (rxs c fd) in (r, set_rx fd s c))"

definition read_uint32_sock :: "int \<Rightarrow> conn_t \<Rightarrow> u32 option \<times> conn_t" where
  "read_uint32_sock fd c = (let (r, c') = data_read_all_sock fd 4 c in (map_option get_be32 r, c'))"

definition data_write_all_sock :: "int \<Rightarrow> bytes \<Rightarrow> conn_t \<Rightarrow> bool \<times> conn_t" where
  "data_write_all_sock fd bs c = (let (ok, s) = write_all bs (txs c fd) in (ok, c\<lparr>txs := (txs c)(fd := s)\<rparr>))"

definition state_down :: "conn_t \<Rightarrow> bool" where
  "state_down c \<longleftrightarrow> cstate c = STATE_DISCONNECTED \<or> cstate c = STATE_DISCONNECTING"

text \<open>The primary socket's loops also look at the connection state before every call.\<close>

definition data_write_all :: "bytes \<Rightarrow> conn_t \<Rightarrow> bool \<times> conn_t" where
  "data_write_all bs c = (if bs \<noteq> [] \<and> state_down c then (False, c) else data_write_all_sock (socket_fd c) bs c)"

definition data_read_all :: "nat \<Rightarrow> conn_t \<Rightarrow> bytes option \<times> conn_t" where
  "data_read_all n c = (if n \<noteq> 0 \<and> state_down c then (None, c) else data_read_all_sock (socket_fd c) n c)"

definition read_uint32 :: "conn_t \<Rightarrow> u32 option \<times> conn_t" where
  "read_uint32 c = (let (r, c') = data_read_all 4 c in (map_option get_be32 r, c'))"

section \<open>Retiring a socket\<close>

text \<open>The claim of a context slot: whoever swaps it to NULL destroys it.\<close>

definition take_ssl_ctx_slot :: "nat option \<Rightarrow> nat option \<times> nat option" where
  "take_ssl_ctx_slot slot = (slot, None)"

definition retire_additional :: "nat \<Rightarrow> conn_t \<Rightarrow> conn_t" where
  "retire_additional i c = (let ts = additional c ! i; (doomed, slot) = take_ssl_ctx_slot (ts_ctx ts)
     in c\<lparr>additional := (additional c)[i := ts\<lparr>ts_active := False, ts_ssl := None, ts_fd := -1, ts_ctx := slot\<rparr>],
          closed_fds := closed_fds c @ (if ts_fd ts \<ge> 0 then [ts_fd ts] else []),
          destroyed := destroyed c @ (case doomed of Some x \<Rightarrow> [x] | None \<Rightarrow> []),
          num_additional := num_additional c - 1\<rparr>)"

section \<open>Choosing a socket to send on\<close>

definition can_send :: "nat \<Rightarrow> bool" where
  "can_send d \<longleftrightarrow> d = TCP_DIRECTION_BOTH \<or> d = TCP_DIRECTION_CLIENT_TO_SERVER"

definition can_receive :: "nat \<Rightarrow> bool" where
  "can_receive d \<longleftrightarrow> d = TCP_DIRECTION_BOTH \<or> d = TCP_DIRECTION_SERVER_TO_CLIENT"

definition primary_sendable :: "conn_t \<Rightarrow> bool" where
  "primary_sendable c \<longleftrightarrow> socket_fd c \<ge> 0 \<and> conn_ssl c \<noteq> None \<and> can_send (primary_direction c)"

text \<open>Indices of the additional sockets open for sending, counted from 1.\<close>

definition send_slots :: "conn_t \<Rightarrow> nat list" where
  "send_slots c = map Suc (filter (\<lambda>i. ts_active (additional c ! i) \<and> can_send (ts_dir (additional c ! i)))
     [0..<MAX_SE_CONNECTIONS])"

definition send_candidates :: "conn_t \<Rightarrow> nat list" where
  "send_candidates c = (if primary_sendable c then [0] else []) @ send_slots c"

definition softether_select_send_socket :: "conn_t \<Rightarrow> nat \<times> conn_t" where
  "softether_select_send_socket c = (let cs = send_candidates c; count = length cs in
     if count = 0 then (0, c)
     else (cs ! (send_rr_idx c mod count), c\<lparr>send_rr_idx := (send_rr_idx c + 1) mod count\<rparr>))"

section \<open>Transmitting a block with failover\<close>

definition transmit_candidates :: "nat \<Rightarrow> conn_t \<Rightarrow> nat list" where
  "transmit_candidates best c = (if best \<noteq> 0 then [best] else []) @
     (if primary_sendable c then [0] else []) @ filter (\<lambda>i. i \<noteq> best) (send_slots c)"

fun try_candidates :: "bytes \<Rightarrow> nat list \<Rightarrow> conn_t \<Rightarrow> bool \<times> conn_t" where
  "try_candidates block [] c = (False, c)"
| "try_candidates block (0 # is) c =
     (if conn_ssl c = None \<or> socket_fd c < 0 then try_candidates block is c
      else let (ok, c') = data_write_all block c in
        if ok then (True, c') else try_candidates block is c')"
| "try_candidates block (Suc i # is) c = (let ts = additional c ! i in
     if \<not> ts_active ts \<or> ts_ssl ts = None \<or> ts_fd ts < 0 then try_candidates block is c
     else let (ok, c') = data_write_all_sock (ts_fd ts) block c in
       if ok then (True, c') else try_candidates block is (retire_additional i c'))"

definition softether_transmit_block_nolock :: "bytes \<Rightarrow> conn_t \<Rightarrow> bool \<times> conn_t" where
  "softether_transmit_block_nolock block c =
     (if length block < 8 then (False, c)
      else if cstate c = STATE_DISCONNECTING \<or> conn_ssl c = None then (False, c)
      else let (best, c) = softether_select_send_socket c
           in try_candidates block (transmit_candidates best c) c)"

section \<open>Messages\<close>

datatype command = CMD_DATA | CMD_KEEPALIVE | CMD_KEEPALIVE_ACK

definition tick_now :: "conn_env \<Rightarrow> conn_t \<Rightarrow> nat \<times> conn_t" where
  "tick_now env c = (tick_ms env (cclk_i c), c\<lparr>cclk_i := cclk_i c + 1\<rparr>)"

text \<open>Magic, size and random bytes, 64 at most.\<close>

definition ka_message :: "conn_env \<Rightarrow> conn_t \<Rightarrow> bytes" where
  "ka_message env c = (let ka_size = crand env (crnd_i c) mod 64
     in put_be32 KEEP_ALIVE_MAGIC @ put_be32 (word_of_nat ka_size) @
        map (\<lambda>i. word_of_nat (crand env (crnd_i c + 1 + i))) [0..<ka_size])"

definition softether_send_keepalive_sock ::
  "conn_env \<Rightarrow> nat option \<Rightarrow> int \<Rightarrow> conn_t \<Rightarrow> nat option \<times> conn_t" where
  "softether_send_keepalive_sock env ssl fd c =
     (if ssl = None \<or> cstate c \<noteq> STATE_CONNECTED then (None, c)
      else let msg = ka_message env c; c = c\<lparr>crnd_i := crnd_i c + length msg - 7\<rparr>;
               (ok, c) = data_write_all_sock fd msg c
           in (if ok then Some (length msg) else None, c))"

definition softether_send_keepalive :: "conn_env \<Rightarrow> conn_t \<Rightarrow> nat option \<times> conn_t" where
  "softether_send_keepalive env c = (if conn_ssl c = None then (None, c)
     else softether_send_keepalive_sock env (conn_ssl c) (socket_fd c) c)"

text \<open>Keep-alives on every socket open for sending, at a third of the server's timeout.\<close>

definition ka_interval :: "conn_t \<Rightarrow> nat" where
  "ka_interval c = (let t = (if conn_timeout c \<noteq> 0 then conn_timeout c else 30000) div 3
     in if t < 2000 then 2000 else if t > 12000 then 12000 else t)"

fun keepalive_slots :: "conn_env \<Rightarrow> nat list \<Rightarrow> conn_t \<Rightarrow> conn_t" where
  "keepalive_slots env [] c = c"
| "keepalive_slots env (i # is) c = (let ts = additional c ! i in
     keepalive_slots env is
       (if ts_active ts \<and> can_send (ts_dir ts) \<and> ts_ssl ts \<noteq> None \<and> ts_fd ts \<ge> 0
        then snd (softether_send_keepalive_sock env (ts_ssl ts) (ts_fd ts) c) else c))"

definition softether_send_keepalive_all :: "conn_env \<Rightarrow> conn_t \<Rightarrow> bool \<times> conn_t" where
  "softether_send_keepalive_all env c =
     (if conn_ssl c = None \<or> cstate c \<noteq> STATE_CONNECTED then (False, c)
      else let (now, c) = tick_now env c in
        if next_tcp_keepalive_time c = 0 then (True, c\<lparr>next_tcp_keepalive_time := now\<rparr>)
        else if now < next_tcp_keepalive_time c then (True, c)
        else let c = c\<lparr>next_tcp_keepalive_time := now + ka_interval c\<rparr>;
                 c = (if primary_sendable c
                      then snd (softether_send_keepalive_sock env (conn_ssl c) (socket_fd c) c) else c)
             in (True, keepalive_slots env [0..<MAX_SE_CONNECTIONS] c))"

text \<open>
  One data block on the socket selected, without failover; \<open>None\<close> is -1. \<open>bound\<close> is
  \<^verbatim>\<open>compressBound\<close>.
\<close>

definition compressed_payload :: "conn_env \<Rightarrow> (nat \<Rightarrow> nat) \<Rightarrow> conn_t \<Rightarrow> bytes \<Rightarrow> bytes" where
  "compressed_payload env bound c payload =
     (if conn_compress c \<and> length payload > 1 \<and> can_alloc (cheap env) (bound (length payload))
      then (case compress_data (renv env) (bound (length payload)) payload of
              Some z \<Rightarrow> z | None \<Rightarrow> payload)
      else payload)"

definition block_of :: "bytes \<Rightarrow> bytes" where
  "block_of payload = put_be32 1 @ put_be32 (word_of_nat (length payload)) @ payload"

definition softether_send_packet ::
  "conn_env \<Rightarrow> (nat \<Rightarrow> nat) \<Rightarrow> command \<Rightarrow> bytes \<Rightarrow> conn_t \<Rightarrow> nat option \<times> conn_t" where
  "softether_send_packet env bound cmd payload c =
     (if state_down c then (None, c)
      else if cmd = CMD_KEEPALIVE \<or> cmd = CMD_KEEPALIVE_ACK then softether_send_keepalive env c
      else if conn_ssl c = None then (None, c)
      else let pl = compressed_payload env bound c payload; total_size = 8 + length pl in
        if total_size > send_block_cap c then (None, c)
        else let (i, c) = softether_select_send_socket c in
          if i = 0 then (let (ok, c) = data_write_all (block_of pl) c
                         in (if ok then Some total_size else None, c))
          else let ts = additional c ! (i - 1) in
            if \<not> ts_active ts \<or> ts_ssl ts = None then (None, c)
            else let (ok, c) = data_write_all_sock (ts_fd ts) (block_of pl) c
                 in (if ok then Some total_size else None, c))"

section \<open>Receiving\<close>

definition enqueue_frame :: "bytes \<Rightarrow> conn_t \<Rightarrow> conn_t" where
  "enqueue_frame d c = c\<lparr>recv_queue := ring_enq 64 d (recv_queue c)\<rparr>"

text \<open>A block of a compressed session: raw zlib, zlib behind the magic, or not compressed.\<close>

definition decode_block :: "conn_env \<Rightarrow> nat \<Rightarrow> bytes \<Rightarrow> bytes" where
  "decode_block env cap b = (case uncompress_data (renv env) cap b of
     Some d \<Rightarrow> d
   | None \<Rightarrow> if length b > 8 \<and> get_be64 b = COMPRESS_MAGIC
             then (case uncompress_data (renv env) cap (drop 8 b) of Some d \<Rightarrow> d | None \<Rightarrow> b)
             else b)"

text \<open>Skipping a block reads it through a 2048-byte buffer.\<close>

function skip_data :: "int \<Rightarrow> nat \<Rightarrow> conn_t \<Rightarrow> bool \<times> conn_t" where
  "skip_data fd remaining c = (if remaining = 0 then (True, c)
     else let ch = min remaining 2048; (r, c') = data_read_all_sock fd ch c in
       case r of None \<Rightarrow> (False, c') | Some _ \<Rightarrow> skip_data fd (remaining - ch) c')"
  by pat_completeness auto
termination
  by (relation "measure (\<lambda>(_, n, _). n)") auto

declare skip_data.simps [simp del]

datatype fill_end = Fill_done | Fill_read_error | Fill_fatal

text \<open>The loop over the blocks of one message.\<close>

fun fill_blocks :: "conn_env \<Rightarrow> int \<Rightarrow> nat \<Rightarrow> conn_t \<Rightarrow> fill_end \<times> conn_t" where
  "fill_blocks env fd 0 c = (Fill_done, c)"
| "fill_blocks env fd (Suc n) c = (case read_uint32_sock fd c of
     (None, c) \<Rightarrow> (Fill_read_error, c)
   | (Some w, c) \<Rightarrow> (let size = unat w in
       if size > MAX_BLOCK_SIZE then (Fill_fatal, c)
       else if size = 0 then fill_blocks env fd n c
       else if size \<le> MAX_QUEUED_FRAME \<and> rcount (recv_queue c) < 64 then
         if conn_compress c \<and> \<not> can_alloc (cheap env) size then (Fill_fatal, c)
         else (case data_read_all_sock fd size c of
             (None, c) \<Rightarrow> (Fill_read_error, c)
           | (Some b, c) \<Rightarrow> fill_blocks env fd n
               (enqueue_frame (if conn_compress c then decode_block env MAX_QUEUED_FRAME b else b) c))
       else (case skip_data fd size c of
           (False, c) \<Rightarrow> (Fill_read_error, c)
         | (True, c) \<Rightarrow> fill_blocks env fd n (c\<lparr>rx_skipped_blocks := rx_skipped_blocks c + 1\<rparr>))))"

text \<open>
  One message from the chosen socket; \<open>sel\<close> is the slot of an additional socket. The result
  is the return value; a failed additional socket is retired and the connection lives on.
\<close>

definition read_failed :: "nat option \<Rightarrow> conn_t \<Rightarrow> int \<times> conn_t" where
  "read_failed sel c = (case sel of Some i \<Rightarrow> (0, retire_additional i c) | None \<Rightarrow> (-1, c))"

definition fill_message :: "conn_env \<Rightarrow> int \<Rightarrow> nat option \<Rightarrow> conn_t \<Rightarrow> int \<times> conn_t" where
  "fill_message env fd sel c = (case read_uint32_sock fd c of
     (None, c) \<Rightarrow> read_failed sel c
   | (Some count, c) \<Rightarrow>
     if count = KEEP_ALIVE_MAGIC then (case read_uint32_sock fd c of
         (None, c) \<Rightarrow> read_failed sel c
       | (Some ka, c) \<Rightarrow> (case data_read_all_sock fd (min (unat ka) 512) c of
             (None, c) \<Rightarrow> read_failed sel c
           | (Some _, c) \<Rightarrow> (0, snd (softether_send_keepalive env c))))
     else if count = 0 then (0, c)
     else (case fill_blocks env fd (unat count) c of
         (Fill_read_error, c) \<Rightarrow> read_failed sel c
       | (Fill_fatal, c) \<Rightarrow> (-1, c)
       | (Fill_done, c) \<Rightarrow> (if rcount (recv_queue c) > 0 then 1 else 0, c)))"

text \<open>Moving decoded UDP blocks into the queue; the first argument is \<^verbatim>\<open>max_frames - moved\<close>.\<close>

fun drain_rudp_loop :: "nat \<Rightarrow> nat \<Rightarrow> conn_t \<Rightarrow> nat \<times> conn_t" where
  "drain_rudp_loop 0 moved c = (moved, c)"
| "drain_rudp_loop (Suc k) moved c = (case conn_rudp c of None \<Rightarrow> (moved, c) | Some ru \<Rightarrow>
     if rcount (recv_queue c) \<ge> 64 then (moved, c)
     else (case rudp_recv ru MAX_QUEUED_FRAME of
         (Some d, ru') \<Rightarrow> (if d = [] then (moved, c\<lparr>conn_rudp := Some ru'\<rparr>)
             else drain_rudp_loop k (moved + 1) (enqueue_frame d (c\<lparr>conn_rudp := Some ru'\<rparr>)))
       | (None, ru') \<Rightarrow> (moved, c\<lparr>conn_rudp := Some ru'\<rparr>)))"

definition drain_rudp_into_recv_queue :: "conn_env \<Rightarrow> conn_t \<Rightarrow> nat \<times> conn_t" where
  "drain_rudp_into_recv_queue env c = (case conn_rudp c of
     None \<Rightarrow> (0, c)
   | Some ru \<Rightarrow> if \<not> conn_rudp_enabled c then (0, c)
       else drain_rudp_loop 64 0 (c\<lparr>conn_rudp := Some (rudp_poll (renv env) ru)\<rparr>))"

text \<open>The sockets to poll: descriptor, TLS context and slot.\<close>

definition recv_sockets :: "conn_t \<Rightarrow> (int \<times> nat option \<times> nat option) list" where
  "recv_sockets c =
     (if socket_fd c \<ge> 0 \<and> can_receive (primary_direction c) then [(socket_fd c, conn_ssl c, None)] else []) @
     map (\<lambda>i. (ts_fd (additional c ! i), ts_ssl (additional c ! i), Some i))
       (filter (\<lambda>i. let ts = additional c ! i in ts_active ts \<and> ts_fd ts \<ge> 0 \<and> can_receive (ts_dir ts) \<and>
          ts_ssl ts \<noteq> None) [0..<MAX_SE_CONNECTIONS])"

definition udp_fds :: "conn_t \<Rightarrow> int list" where
  "udp_fds c = (case conn_rudp c of Some ru \<Rightarrow>
     if conn_rudp_enabled c \<and> rudp_get_udp_fd ru \<ge> 0 then [rudp_get_udp_fd ru] else [] | None \<Rightarrow> [])"

text \<open>An error on a descriptor that is not an additional socket ends the receive.\<close>

definition poll_fatal :: "conn_t \<Rightarrow> (int \<Rightarrow> revents) \<Rightarrow> bool" where
  "poll_fatal c re \<longleftrightarrow> (let socks = recv_sockets c in
     list_ex (\<lambda>fd. pollnval (re fd) \<or> (pollbad (re fd) \<and> \<not> pollin (re fd) \<and>
        \<not> list_ex (\<lambda>(f, _, sel). f = fd \<and> sel \<noteq> None) socks)) (udp_fds c @ map fst socks))"

definition fill_selected :: "conn_env \<Rightarrow> int \<times> nat option \<times> nat option \<Rightarrow> conn_t \<Rightarrow> int \<times> conn_t" where
  "fill_selected env s c = (case s of (fd, ssl, sel) \<Rightarrow>
     if ssl = None then (0, c)
     else case sel of
         None \<Rightarrow> fill_message env fd None c
       | Some i \<Rightarrow> let (now, c) = tick_now env c
           in fill_message env fd (Some i)
                (c\<lparr>additional := (additional c)[i := (additional c ! i)\<lparr>ts_last_recv := now\<rparr>]\<rparr>))"

text \<open>After a successful \<^verbatim>\<open>poll\<close>: UDP first, then the first TCP socket with data.\<close>

definition fill_ready :: "conn_env \<Rightarrow> (int \<Rightarrow> revents) \<Rightarrow> conn_t \<Rightarrow> int \<times> conn_t" where
  "fill_ready env re c =
     (if poll_fatal c re then (-1, c)
      else let (moved, c) = (if list_ex (\<lambda>fd. pollin (re fd)) (udp_fds c)
                             then drain_rudp_into_recv_queue env c else (0, c)) in
        if moved > 0 then (1, c)
        else (case find (\<lambda>(fd, _, _). pollin (re fd)) (recv_sockets c) of
            None \<Rightarrow> (0, c)
          | Some s \<Rightarrow> fill_selected env s c))"

definition poll_sockets :: "conn_env \<Rightarrow> conn_t \<Rightarrow> int \<times> conn_t" where
  "poll_sockets env c = (let r = polls env (poll_i c); c = c\<lparr>poll_i := poll_i c + 1\<rparr> in
     case r of Poll_timeout \<Rightarrow> (0, c) | Poll_error \<Rightarrow> (-1, c) | Poll_ready re \<Rightarrow> fill_ready env re c)"

text \<open>A socket with data already decrypted is read without polling.\<close>

definition pending_socket :: "conn_env \<Rightarrow> conn_t \<Rightarrow> (int \<times> nat option \<times> nat option) option" where
  "pending_socket env c = find (\<lambda>(_, ssl, _). conn_ssl_data c \<and>
     (case ssl of Some x \<Rightarrow> ssl_pending env (poll_i c) x | None \<Rightarrow> False)) (recv_sockets c)"

definition softether_fill_recv_queue :: "conn_env \<Rightarrow> conn_t \<Rightarrow> int \<times> conn_t" where
  "softether_fill_recv_queue env c =
     (if conn_ssl c = None \<or> state_down c then (-1, c)
      else let (moved, c) = drain_rudp_into_recv_queue env c in
        if moved > 0 then (1, c)
        else if udp_fds c = [] \<and> recv_sockets c = [] then (-1, c)
        else (case pending_socket env c of
            Some s \<Rightarrow> fill_selected env s c
          | None \<Rightarrow> poll_sockets env c))"

section \<open>The one-block reader\<close>

text \<open>
  \<^verbatim>\<open>softether_receive_packet\<close> reads a whole message from the primary socket and hands out
  its first block that fits; the return value counts the bytes read.
\<close>

datatype packet_result = Packet_error | Packet_keepalive nat | Packet_data "bytes option" nat

fun recv_blocks :: "conn_env \<Rightarrow> nat \<Rightarrow> nat \<Rightarrow> bytes option \<Rightarrow> nat \<Rightarrow> conn_t \<Rightarrow> packet_result \<times> conn_t" where
  "recv_blocks env max_payload 0 stored nread c = (Packet_data stored nread, c)"
| "recv_blocks env max_payload (Suc n) stored nread c = (case read_uint32 c of
     (None, c) \<Rightarrow> (Packet_error, c)
   | (Some w, c) \<Rightarrow> (let size = unat w in
       if size > MAX_BLOCK_SIZE then (Packet_error, c)
       else if stored = None \<and> size \<le> max_payload then
         if size = 0 then recv_blocks env max_payload n (Some []) (nread + 4) c
         else if \<not> can_alloc (cheap env) size then (Packet_error, c)
         else (case data_read_all size c of
             (None, c) \<Rightarrow> (Packet_error, c)
           | (Some b, c) \<Rightarrow> recv_blocks env max_payload n
               (Some (if conn_compress c then decode_block env max_payload b else b)) (nread + 4 + size) c)
       else (case skip_data (socket_fd c) size c of
           (False, c) \<Rightarrow> (Packet_error, c)
         | (True, c) \<Rightarrow> recv_blocks env max_payload n stored (nread + 4 + size) c)))"

definition softether_receive_packet :: "conn_env \<Rightarrow> nat \<Rightarrow> conn_t \<Rightarrow> packet_result \<times> conn_t" where
  "softether_receive_packet env max_payload c =
     (if conn_ssl c = None \<or> socket_fd c < 0 \<or> state_down c then (Packet_error, c)
      else (case read_uint32 c of
          (None, c) \<Rightarrow> (Packet_error, c)
        | (Some count, c) \<Rightarrow>
            if count = KEEP_ALIVE_MAGIC then (case read_uint32 c of
                (None, c) \<Rightarrow> (Packet_error, c)
              | (Some ka, c) \<Rightarrow> (let n = min (unat ka) 512 in case data_read_all n c of
                    (None, c) \<Rightarrow> (Packet_error, c)
                  | (Some _, c) \<Rightarrow> (Packet_keepalive (8 + n), c)))
            else if count = 0 then (Packet_data (Some []) 4, c)
            else recv_blocks env max_payload (unat count) None 4 c))"

definition softether_process_keepalive :: "conn_env \<Rightarrow> conn_t \<Rightarrow> int \<times> conn_t" where
  "softether_process_keepalive env c = (case softether_receive_packet env 256 c of
     (Packet_error, c) \<Rightarrow> (-1, c)
   | (Packet_keepalive _, c) \<Rightarrow> (0, snd (softether_send_keepalive env c))
   | (Packet_data _ _, c) \<Rightarrow> (0, c))"

section \<open>What a message delivers\<close>

definition enc_blk :: "bytes \<Rightarrow> bytes" where
  "enc_blk b = put_be32 (word_of_nat (length b)) @ b"

definition enc_blks :: "bytes list \<Rightarrow> bytes" where
  "enc_blks bs = concat (map enc_blk bs)"

definition enc_message :: "bytes list \<Rightarrow> bytes" where
  "enc_message bs = put_be32 (word_of_nat (length bs)) @ enc_blks bs"

text \<open>
  The abstract receiver: \<open>dec\<close> decodes a block, \<open>room\<close> is the space in the queue; the
  result is the frames queued and the number of blocks skipped.
\<close>

fun deliver :: "(bytes \<Rightarrow> bytes) \<Rightarrow> nat \<Rightarrow> bytes list \<Rightarrow> bytes list \<times> nat" where
  "deliver dec room [] = ([], 0)"
| "deliver dec room (b # bs) =
     (if b = [] then deliver dec room bs
      else if length b \<le> MAX_QUEUED_FRAME \<and> 0 < room
      then (let (fs, k) = deliver dec (room - 1) bs in (dec b # fs, k))
      else (let (fs, k) = deliver dec room bs in (fs, k + 1)))"

definition conn_dec :: "conn_env \<Rightarrow> conn_t \<Rightarrow> bytes \<Rightarrow> bytes" where
  "conn_dec env c b = (if conn_compress c then decode_block env MAX_QUEUED_FRAME b else b)"

lemma enc_blks_simps [simp]: "enc_blks [] = []" "enc_blks (b # bs) = enc_blk b @ enc_blks bs"
  by (simp_all add: enc_blks_def)

lemma set_rx_frame [simp]:
  "rxs (set_rx fd s c) = (rxs c)(fd := s)" "set_rx fd s (set_rx fd t c) = set_rx fd s c"
  "set_rx fd (rxs c fd) c = c"
  "recv_queue (set_rx fd s c) = recv_queue c" "rx_skipped_blocks (set_rx fd s c) = rx_skipped_blocks c"
  "conn_compress (set_rx fd s c) = conn_compress c" "additional (set_rx fd s c) = additional c"
  "num_additional (set_rx fd s c) = num_additional c" "conn_ssl (set_rx fd s c) = conn_ssl c"
  "conn_ssl_ctx (set_rx fd s c) = conn_ssl_ctx c"
  "socket_fd (set_rx fd s c) = socket_fd c" "cstate (set_rx fd s c) = cstate c"
  "destroyed (set_rx fd s c) = destroyed c" "conn_rudp (set_rx fd s c) = conn_rudp c"
  by (simp_all add: set_rx_def)

lemma read_sock_ok:
  assumes "avail (rxs c fd) = d @ r" "length d = n"
  shows "\<exists>s. data_read_all_sock fd n c = (Some d, set_rx fd s c) \<and> avail s = r"
proof -
  obtain s where "read_all n (rxs c fd) = (Some d, s)" "avail s = r"
    using read_all_ok [OF assms] by blast
  then show ?thesis by (auto simp: data_read_all_sock_def)
qed

lemma read_u32_ok:
  assumes "avail (rxs c fd) = put_be32 w @ r"
  shows "\<exists>s. read_uint32_sock fd c = (Some w, set_rx fd s c) \<and> avail s = r"
  using read_sock_ok [OF assms, of 4] by (auto simp: read_uint32_sock_def)

lemma skip_data_ok:
  "n \<le> length (avail (rxs c fd)) \<Longrightarrow>
   \<exists>s. skip_data fd n c = (True, set_rx fd s c) \<and> avail s = drop n (avail (rxs c fd))"
proof (induction fd n c rule: skip_data.induct)
  case (1 fd n c)
  show ?case
  proof (cases "n = 0")
    case True
    then show ?thesis by (intro exI [of _ "rxs c fd"]) (simp add: skip_data.simps [of fd 0 c])
  next
    case False
    let ?k = "min n 2048"
    have "avail (rxs c fd) = take ?k (avail (rxs c fd)) @ drop ?k (avail (rxs c fd))" by simp
    from read_sock_ok [OF this, of ?k] 1(2) obtain s where
      s: "data_read_all_sock fd ?k c = (Some (take ?k (avail (rxs c fd))), set_rx fd s c)"
      "avail s = drop ?k (avail (rxs c fd))" by auto
    have "n - ?k \<le> length (avail (rxs (set_rx fd s c) fd))" using s(2) 1(2) by simp
    with 1(1) [OF False refl s(1) [symmetric]] s obtain s' where
      "skip_data fd (n - ?k) (set_rx fd s c) = (True, set_rx fd s' c)"
      "avail s' = drop (n - ?k) (avail s)" by auto
    with s False show ?thesis
      by (intro exI [of _ s']) (simp add: skip_data.simps [of fd n c] Let_def)
  qed
qed

lemma enqueue_frame_ok:
  assumes "ring_inv 64 (recv_queue c)" "rcount (recv_queue c) < 64"
  shows "ring_inv 64 (recv_queue (enqueue_frame d c))"
    "ring_contents (recv_queue (enqueue_frame d c)) = ring_contents (recv_queue c) @ [d]"
    "rcount (recv_queue (enqueue_frame d c)) = rcount (recv_queue c) + 1"
  using assms by (simp_all add: enqueue_frame_def conn_q.enq_inv conn_q.enq_contents conn_q.enq_count)

lemma enqueue_frame_other [simp]:
  "rxs (enqueue_frame d c) = rxs c" "rx_skipped_blocks (enqueue_frame d c) = rx_skipped_blocks c"
  "conn_compress (enqueue_frame d c) = conn_compress c" "additional (enqueue_frame d c) = additional c"
  "num_additional (enqueue_frame d c) = num_additional c" "destroyed (enqueue_frame d c) = destroyed c"
  "conn_rudp (enqueue_frame d c) = conn_rudp c" "conn_ssl_ctx (enqueue_frame d c) = conn_ssl_ctx c"
  "conn_ssl (enqueue_frame d c) = conn_ssl c"
  by (simp_all add: enqueue_frame_def)

lemma unat_len32: "n < 2 ^ 32 \<Longrightarrow> unat (word_of_nat n :: u32) = n"
  by (simp add: unat_of_nat)

lemma conn_dec_cong: "conn_compress c' = conn_compress c \<Longrightarrow> conn_dec env c' = conn_dec env c"
  by (simp add: conn_dec_def [abs_def])

lemma fill_blocks_ok:
  assumes "ring_inv 64 (recv_queue c)" "\<forall>n. can_alloc (cheap env) n"
    "\<forall>b \<in> set bs. length b \<le> MAX_BLOCK_SIZE" "avail (rxs c fd) = enc_blks bs @ r"
  shows "\<exists>c'. fill_blocks env fd (length bs) c = (Fill_done, c') \<and> avail (rxs c' fd) = r \<and>
     ring_inv 64 (recv_queue c') \<and>
     ring_contents (recv_queue c') = ring_contents (recv_queue c) @
       fst (deliver (conn_dec env c) (64 - rcount (recv_queue c)) bs) \<and>
     rx_skipped_blocks c' = rx_skipped_blocks c +
       word_of_nat (snd (deliver (conn_dec env c) (64 - rcount (recv_queue c)) bs))"
  using assms
proof (induction bs arbitrary: c)
  case Nil
  then show ?case by simp
next
  case (Cons b bs)
  have lb: "length b \<le> MAX_BLOCK_SIZE" "unat (word_of_nat (length b) :: u32) = length b"
    using Cons.prems(3) by (auto simp: MAX_BLOCK_SIZE_def intro!: unat_len32)
  obtain s1 where s1: "read_uint32_sock fd c = (Some (word_of_nat (length b)), set_rx fd s1 c)"
    "avail s1 = b @ enc_blks bs @ r"
    using read_u32_ok [of c fd "word_of_nat (length b)" "b @ enc_blks bs @ r"] Cons.prems(4)
    by (auto simp: enc_blk_def)
  let ?c1 = "set_rx fd s1 c"
  have cl: "rcount (recv_queue c) \<le> 64" using Cons.prems(1) by (simp add: ring_count_le)
  consider "b = []" | "b \<noteq> []" "length b \<le> MAX_QUEUED_FRAME \<and> rcount (recv_queue c) < 64"
    | "b \<noteq> []" "\<not> (length b \<le> MAX_QUEUED_FRAME \<and> rcount (recv_queue c) < 64)" by blast
  then show ?case
  proof cases
    case 1
    with s1 lb Cons.IH [of ?c1] Cons.prems show ?thesis
      by (simp add: conn_dec_cong [of ?c1 c])
  next
    case 2
    obtain s2 where s2: "data_read_all_sock fd (length b) ?c1 = (Some b, set_rx fd s2 c)"
      "avail s2 = enc_blks bs @ r"
      using read_sock_ok [of ?c1 fd b "enc_blks bs @ r" "length b"] s1(2) by auto
    let ?c2 = "enqueue_frame (conn_dec env c b) (set_rx fd s2 c)"
    have st: "fill_blocks env fd (length (b # bs)) c = fill_blocks env fd (length bs) ?c2"
      using 2 s1 s2 lb Cons.prems(2) by (simp add: conn_dec_def Let_def)
    note q = enqueue_frame_ok [of "set_rx fd s2 c" "conn_dec env c b"]
    from Cons.IH [of ?c2] q Cons.prems 2 s2 show ?thesis
      unfolding st by (auto simp: conn_dec_cong [of ?c2 c] split: prod.split)
  next
    case 3
    obtain s2 where s2: "skip_data fd (length b) ?c1 = (True, set_rx fd s2 c)" "avail s2 = enc_blks bs @ r"
      using skip_data_ok [of "length b" ?c1 fd] s1(2) by auto
    let ?c2 = "(set_rx fd s2 c)\<lparr>rx_skipped_blocks := rx_skipped_blocks c + 1\<rparr>"
    have st: "fill_blocks env fd (length (b # bs)) c = fill_blocks env fd (length bs) ?c2"
      using 3 s1 s2 lb by (auto simp: Let_def)
    have dc: "conn_dec env ?c2 = conn_dec env c" by (rule conn_dec_cong) simp
    from Cons.IH [of ?c2, unfolded dc] Cons.prems 3 s2 cl show ?thesis
      unfolding st by (auto split: prod.split)
  qed
qed


lemma len_not_magic:
  "n < 2 ^ 32 - 1 \<Longrightarrow> (word_of_nat n :: u32) \<noteq> KEEP_ALIVE_MAGIC"
proof
  assume n: "n < 2 ^ 32 - 1" and "(word_of_nat n :: u32) = KEEP_ALIVE_MAGIC"
  then have "unat (word_of_nat n :: u32) = 4294967295" by (simp add: KEEP_ALIVE_MAGIC_def)
  with n show False by (simp add: unat_of_nat)
qed

lemma fill_message_ok:
  assumes "ring_inv 64 (recv_queue c)" "\<forall>n. can_alloc (cheap env) n"
    and "\<forall>b \<in> set bs. length b \<le> MAX_BLOCK_SIZE" "length bs < 2 ^ 32 - 1"
    and "avail (rxs c fd) = enc_message bs @ r"
  shows "\<exists>c'. snd (fill_message env fd sel c) = c' \<and> avail (rxs c' fd) = r \<and> ring_inv 64 (recv_queue c') \<and>
     ring_contents (recv_queue c') = ring_contents (recv_queue c) @
       fst (deliver (conn_dec env c) (64 - rcount (recv_queue c)) bs) \<and>
     rx_skipped_blocks c' = rx_skipped_blocks c +
       word_of_nat (snd (deliver (conn_dec env c) (64 - rcount (recv_queue c)) bs))"
proof -
  obtain s where s: "read_uint32_sock fd c = (Some (word_of_nat (length bs)), set_rx fd s c)"
    "avail s = enc_blks bs @ r"
    using read_u32_ok [of c fd "word_of_nat (length bs)" "enc_blks bs @ r"] assms(5)
    by (auto simp: enc_message_def)
  have un: "unat (word_of_nat (length bs) :: u32) = length bs"
    using assms(4) by (intro unat_len32) simp
  show ?thesis
  proof (cases "bs = []")
    case True
    with s assms(1) show ?thesis by (simp add: fill_message_def KEEP_ALIVE_MAGIC_def)
  next
    case False
    then have nz: "(word_of_nat (length bs) :: u32) \<noteq> 0" using un by (metis length_0_conv unat_0)
    have "avail (rxs (set_rx fd s c) fd) = enc_blks bs @ r" using s by simp
    from fill_blocks_ok [OF _ assms(2,3) this] assms(1) show ?thesis
      using s un nz len_not_magic [OF assms(4)]
      by (auto simp: fill_message_def conn_dec_cong [of "set_rx fd s c" c])
  qed
qed

section \<open>Example states\<close>

definition tcp0 :: tcp_sock where
  "tcp0 = \<lparr>ts_fd = -1, ts_ctx = None, ts_ssl = None, ts_dir = 0, ts_last_recv = 0, ts_late = 0, ts_active = False\<rparr>"

definition conn0 :: conn_t where
  "conn0 = \<lparr>cstate = STATE_CONNECTED, socket_fd = 3, conn_ssl = Some 1, conn_ssl_ctx = Some 1,
     primary_direction = 0, additional = replicate 8 tcp0, num_additional = 0, send_rr_idx = 0,
     recv_queue = ring_new 64 [], rx_skipped_blocks = 0, conn_compress = False, conn_ssl_data = True,
     send_block_cap = 65557, conn_timeout = 0, next_tcp_keepalive_time = 0, conn_rudp = None,
     conn_rudp_enabled = False, conn_session_established = True,
     rxs = (\<lambda>_. \<lparr>avail = [], chunk = (\<lambda>n. n), calls = 0\<rparr>),
     txs = (\<lambda>_. \<lparr>written = [], wroom = 100, wchunk = (\<lambda>n. n), wcalls = 0\<rparr>),
     closed_fds = [], destroyed = [], cclk_i = 0, crnd_i = 0, poll_i = 0\<rparr>"

definition conn_env0 :: conn_env where
  "conn_env0 = \<lparr>renv = rudp_env0, cheap = \<lparr>can_alloc = (\<lambda>_. True), junk = (\<lambda>_. 0)\<rparr>, tick_ms = (\<lambda>n. n),
     crand = (\<lambda>n. n), polls = (\<lambda>_. Poll_timeout), ssl_pending = (\<lambda>_ _. False)\<rparr>"

text \<open>
  C1: the block stream stays in step. A message of any number of blocks, each within the
  protocol's limit, is consumed to its last byte, leaving exactly the bytes that follow it,
  however the TLS records cut it up; the frames queued are those of the message in order
  (decompressed in a compressed session), except that blocks over 2048 bytes and blocks
  beyond the 64 queue places are dropped and counted, in a counter of 32 bits.
\<close>

theorem fill_message_in_step:
  assumes "ring_inv 64 (recv_queue c)" "\<forall>n. can_alloc (cheap env) n"
    and "\<forall>b \<in> set bs. length b \<le> MAX_BLOCK_SIZE" "length bs < 2 ^ 32 - 1"
    and "avail (rxs c fd) = enc_message bs @ r"
  shows "\<exists>c'. snd (fill_message env fd sel c) = c' \<and> avail (rxs c' fd) = r \<and> ring_inv 64 (recv_queue c') \<and>
     ring_contents (recv_queue c') = ring_contents (recv_queue c) @
       fst (deliver (conn_dec env c) (64 - rcount (recv_queue c)) bs) \<and>
     rx_skipped_blocks c' = rx_skipped_blocks c +
       word_of_nat (snd (deliver (conn_dec env c) (64 - rcount (recv_queue c)) bs))"
  by (rule fill_message_ok [OF assms])

theorem fill_message_in_step_witness:
  "\<exists>c'. snd (fill_message conn_env0 3 None
       (conn0\<lparr>rxs := (\<lambda>_. \<lparr>avail = enc_message [[1, 2], [], [3]] @ [9, 9], chunk = (\<lambda>n. n), calls = 0\<rparr>)\<rparr>)) = c' \<and>
     avail (rxs c' 3) = [9, 9] \<and> ring_contents (recv_queue c') = [[1, 2], [3]]"
proof -
  let ?c = "conn0\<lparr>rxs := (\<lambda>_. \<lparr>avail = enc_message [[1, 2], [], [3]] @ [9, 9], chunk = (\<lambda>n. n), calls = 0\<rparr>)\<rparr>"
  have "ring_inv 64 (recv_queue ?c)" "\<forall>n. can_alloc (cheap conn_env0) n"
    "\<forall>b \<in> set [[1, 2], [], [3 :: byte]]. length b \<le> MAX_BLOCK_SIZE"
    "length [[1, 2], [], [3 :: byte]] < 2 ^ 32 - 1" "avail (rxs ?c 3) = enc_message [[1, 2], [], [3]] @ [9, 9]"
    by (simp_all add: conn0_def conn_env0_def MAX_BLOCK_SIZE_def ring_inv_new)
  from fill_message_in_step [OF this, of None] show ?thesis
    by (simp add: conn0_def conn_dec_def ring_new_def ring_contents_def MAX_QUEUED_FRAME_def)
qed

text \<open>
  Keep-alives. Of a keep-alive message at most 512 payload bytes are read. Up to that
  size the stream is left exactly behind the message; the rest of a longer payload stays in
  the stream and is read as the next message.
\<close>

theorem fill_keepalive_stream:
  assumes "avail (rxs c fd) = put_be32 KEEP_ALIVE_MAGIC @ put_be32 (word_of_nat (length d)) @ d @ r"
    and "length d < 2 ^ 32"
  shows "fst (fill_message env fd sel c) = 0 \<and>
     avail (rxs (snd (fill_message env fd sel c)) fd) = drop 512 d @ r"
proof -
  obtain s1 where s1: "read_uint32_sock fd c = (Some KEEP_ALIVE_MAGIC, set_rx fd s1 c)"
    "avail s1 = put_be32 (word_of_nat (length d)) @ d @ r"
    using read_u32_ok [OF assms(1)] by auto
  obtain s2 where s2: "read_uint32_sock fd (set_rx fd s1 c) = (Some (word_of_nat (length d)), set_rx fd s2 c)"
    "avail s2 = d @ r"
    using read_u32_ok [of "set_rx fd s1 c" fd "word_of_nat (length d)" "d @ r"] s1(2) by auto
  obtain s3 where s3: "data_read_all_sock fd (min (length d) 512) (set_rx fd s2 c) = (Some (take 512 d), set_rx fd s3 c)"
    "avail s3 = drop 512 d @ r"
    using read_sock_ok [of "set_rx fd s2 c" fd "take 512 d" "drop 512 d @ r" "min (length d) 512"] s2(2)
    by (auto simp: min.commute)
  have "rxs (snd (softether_send_keepalive env e)) = rxs e" for e
    by (simp add: softether_send_keepalive_def softether_send_keepalive_sock_def Let_def
        data_write_all_sock_def split: prod.split)
  with s1 s2 s3 show ?thesis
    using unat_len32 [OF assms(2)] by (simp add: fill_message_def)
qed

theorem fill_keepalive_stream_witness:
  "avail (rxs (snd (fill_message conn_env0 3 None
     (conn0\<lparr>rxs := (\<lambda>_. \<lparr>avail = put_be32 KEEP_ALIVE_MAGIC @ put_be32 2 @ [7, 8] @ [5], chunk = (\<lambda>n. n), calls = 0\<rparr>)\<rparr>))) 3) = [5]"
  using fill_keepalive_stream [of "conn0\<lparr>rxs := (\<lambda>_. \<lparr>avail = put_be32 KEEP_ALIVE_MAGIC @ put_be32 2 @ [7, 8] @ [5],
      chunk = (\<lambda>n. n), calls = 0\<rparr>)\<rparr>" 3 "[7, 8]" "[5]" conn_env0 None]
  by simp

section \<open>Round robin\<close>

text \<open>The sockets picked by \<open>k\<close> selections in a row.\<close>

fun picks :: "nat \<Rightarrow> conn_t \<Rightarrow> nat list" where
  "picks 0 c = []"
| "picks (Suc k) c = (let (i, c') = softether_select_send_socket c in i # picks k c')"

lemma send_candidates_rr [simp]: "send_candidates (c\<lparr>send_rr_idx := n\<rparr>) = send_candidates c"
  by (simp add: send_candidates_def primary_sendable_def send_slots_def)

lemma picks_eq:
  assumes "send_candidates c = cs" "cs \<noteq> []"
  shows "picks k c = map (\<lambda>j. cs ! ((send_rr_idx c + j) mod length cs)) [0..<k]"
  using assms(1)
proof (induction k arbitrary: c)
  case (Suc k)
  let ?c = "c\<lparr>send_rr_idx := (send_rr_idx c + 1) mod length cs\<rparr>"
  have "picks (Suc k) c = cs ! (send_rr_idx c mod length cs) # picks k ?c"
    using Suc.prems assms(2) by (simp add: softether_select_send_socket_def Let_def)
  also have "picks k ?c = map (\<lambda>j. cs ! ((send_rr_idx c + Suc j) mod length cs)) [0..<k]"
    using Suc.IH [of ?c] Suc.prems by (simp add: mod_add_left_eq add.assoc)
  also have "cs ! (send_rr_idx c mod length cs) # \<dots> =
      map (\<lambda>j. cs ! ((send_rr_idx c + j) mod length cs)) [0..<Suc k]"
    by (simp add: upt_conv_Cons map_Suc_upt [symmetric] del: upt_Suc)
  finally show ?case .
qed simp

text \<open>
  Fair use of the connections. As long as the set of sockets open for sending does not
  change, as many consecutive selections as there are such sockets pick each of them exactly
  once, whatever the index left over from before; and a selection only ever picks an open
  one.
\<close>

theorem select_round_robin:
  assumes "send_candidates c \<noteq> []"
  shows "distinct (picks (length (send_candidates c)) c) \<and>
     set (picks (length (send_candidates c)) c) = set (send_candidates c)"
proof -
  let ?cs = "send_candidates c" and ?n = "length (send_candidates c)"
  have n: "0 < ?n" using assms by simp
  let ?f = "\<lambda>j. (send_rr_idx c + j) mod ?n"
  have p: "picks ?n c = map (\<lambda>j. ?cs ! ?f j) [0..<?n]"
    by (rule picks_eq [OF refl assms])
  have inj: "inj_on ?f {0..<?n}"
    by (rule inj_onI) (use mod_offset_inject in auto)
  then have im: "?f ` {0..<?n} = {0..<?n}"
    using n by (intro endo_inj_surj) auto
  have dc: "distinct ?cs"
    by (auto simp: send_candidates_def send_slots_def distinct_map)
  have "inj_on (\<lambda>j. ?cs ! ?f j) {0..<?n}"
  proof (rule inj_onI)
    fix i j assume ij: "i \<in> {0..<?n}" "j \<in> {0..<?n}" "?cs ! ?f i = ?cs ! ?f j"
    moreover have "?f i < ?n" "?f j < ?n" using n by auto
    ultimately have "?f i = ?f j" using dc by (simp add: nth_eq_iff_index_eq)
    with inj ij show "i = j" by (auto dest: inj_onD)
  qed
  moreover have "(\<lambda>j. ?cs ! ?f j) ` {0..<?n} = set ?cs"
  proof -
    have "(\<lambda>j. ?cs ! ?f j) ` {0..<?n} = (!) ?cs ` (?f ` {0..<?n})" by (rule image_image [symmetric])
    also have "\<dots> = (!) ?cs ` {0..<?n}" by (simp only: im)
    also have "\<dots> = set ?cs" using nth_image [of ?n ?cs] by simp
    finally show ?thesis .
  qed
  ultimately show ?thesis using p by (simp add: distinct_map)
qed

definition conn2 :: conn_t where
  "conn2 = conn0\<lparr>additional := (replicate 8 tcp0)[2 := \<lparr>ts_fd = 7, ts_ctx = Some 2, ts_ssl = Some 2, ts_dir = 2,
     ts_last_recv = 0, ts_late = 0, ts_active = True\<rparr>], num_additional := 1\<rparr>"

lemma upt_8: "[0..<8] = [0, 1, 2, 3, 4, 5, 6, 7::nat]"
  by code_simp

lemma conn2_candidates: "send_candidates conn2 = [0, 3]"
  by (simp add: upt_8 conn2_def conn0_def send_candidates_def primary_sendable_def send_slots_def can_send_def
      dc_consts tcp0_def nth_list_update)

theorem select_round_robin_witness: "set (picks 2 conn2) = {0, 3}"
  using select_round_robin [of conn2] by (simp add: conn2_candidates numeral_2_eq_2)

section \<open>Ownership of the TLS contexts\<close>

text \<open>
  No context is in two slots, none that is in a slot or the primary one has been destroyed,
  and none is destroyed twice; an inactive slot owns none. The count of additional
  connections is the number of active slots, and the primary context is the one used for I/O.
\<close>

definition ctx_owned :: "conn_t \<Rightarrow> bool" where
  "ctx_owned c \<longleftrightarrow> distinct (destroyed c) \<and>
     (\<forall>i < 8. \<forall>x. ts_ctx (additional c ! i) = Some x \<longrightarrow> ts_active (additional c ! i) \<and>
        x \<notin> set (destroyed c) \<and> conn_ssl_ctx c \<noteq> Some x \<and>
        (\<forall>j < 8. ts_ctx (additional c ! j) = Some x \<longrightarrow> j = i)) \<and>
     (\<forall>x. conn_ssl_ctx c = Some x \<longrightarrow> x \<notin> set (destroyed c))"

definition active_count :: "tcp_sock list \<Rightarrow> nat" where
  "active_count ts = length (filter ts_active ts)"

definition conn_inv :: "conn_t \<Rightarrow> bool" where
  "conn_inv c \<longleftrightarrow> length (additional c) = 8 \<and> num_additional c = int (active_count (additional c)) \<and>
     ring_inv 64 (recv_queue c) \<and> ctx_owned c \<and> conn_ssl c = conn_ssl_ctx c"

lemma active_count_off:
  assumes "i < length ts" "ts_active (ts ! i)" "\<not> ts_active s"
  shows "int (active_count (ts[i := s])) = int (active_count ts) - 1"
proof -
  have ts: "ts = take i ts @ ts ! i # drop (Suc i) ts" using assms(1) by (rule id_take_nth_drop)
  have "active_count ts = active_count (take i ts) + 1 + active_count (drop (Suc i) ts)"
    by (subst ts) (simp add: active_count_def assms(2))
  moreover have "active_count (ts[i := s]) = active_count (take i ts) + active_count (drop (Suc i) ts)"
    using assms(1,3) by (simp add: active_count_def upd_conv_take_nth_drop)
  ultimately show ?thesis by simp
qed

lemma ctx_ownedD:
  assumes "ctx_owned c"
  shows "distinct (destroyed c)"
    and "\<And>i x. i < 8 \<Longrightarrow> ts_ctx (additional c ! i) = Some x \<Longrightarrow> ts_active (additional c ! i)"
    and "\<And>i x. i < 8 \<Longrightarrow> ts_ctx (additional c ! i) = Some x \<Longrightarrow> x \<notin> set (destroyed c)"
    and "\<And>i x. i < 8 \<Longrightarrow> ts_ctx (additional c ! i) = Some x \<Longrightarrow> conn_ssl_ctx c \<noteq> Some x"
    and "\<And>i j x. i < 8 \<Longrightarrow> j < 8 \<Longrightarrow> ts_ctx (additional c ! i) = Some x \<Longrightarrow>
        ts_ctx (additional c ! j) = Some x \<Longrightarrow> j = i"
    and "\<And>x. conn_ssl_ctx c = Some x \<Longrightarrow> x \<notin> set (destroyed c)"
  using assms unfolding ctx_owned_def by blast+

lemma ctx_ownedI:
  assumes "distinct (destroyed c)"
    and "\<And>i x. i < 8 \<Longrightarrow> ts_ctx (additional c ! i) = Some x \<Longrightarrow>
        ts_active (additional c ! i) \<and> x \<notin> set (destroyed c) \<and> conn_ssl_ctx c \<noteq> Some x"
    and "\<And>i j x. i < 8 \<Longrightarrow> j < 8 \<Longrightarrow> ts_ctx (additional c ! i) = Some x \<Longrightarrow>
        ts_ctx (additional c ! j) = Some x \<Longrightarrow> j = i"
    and "\<And>x. conn_ssl_ctx c = Some x \<Longrightarrow> x \<notin> set (destroyed c)"
  shows "ctx_owned c"
  using assms unfolding ctx_owned_def by blast

lemma conn_inv_retire:
  assumes inv: "conn_inv c" and i: "i < 8" and act: "ts_active (additional c ! i)"
  shows "conn_inv (retire_additional i c)"
proof -
  let ?c = "retire_additional i c" and ?ts = "additional c ! i"
  have len: "length (additional c) = 8" using inv by (simp add: conn_inv_def)
  have add: "additional ?c = (additional c)[i := ?ts\<lparr>ts_active := False, ts_ssl := None, ts_fd := -1, ts_ctx := None\<rparr>]"
    and num: "num_additional ?c = num_additional c - 1" and q: "recv_queue ?c = recv_queue c"
    and des: "destroyed ?c = destroyed c @ (case ts_ctx ?ts of Some x \<Rightarrow> [x] | None \<Rightarrow> [])"
    and prim: "conn_ssl_ctx ?c = conn_ssl_ctx c" "conn_ssl ?c = conn_ssl c"
    by (simp_all add: retire_additional_def take_ssl_ctx_slot_def Let_def)
  have active: "ts_active (additional ?c ! j) = ts_active (additional c ! j)" if "j < 8" "j \<noteq> i" for j
    using that add by simp
  have ctx: "ts_ctx (additional ?c ! j) = (if j = i then None else ts_ctx (additional c ! j))" if "j < 8" for j
    using that i len add by (simp add: nth_list_update)
  have own: "ctx_owned c" using inv by (simp add: conn_inv_def)
  note o = ctx_ownedD [OF own]
  have "ctx_owned ?c"
  proof (rule ctx_ownedI)
    show "distinct (destroyed ?c)"
      using des o(1) o(3) [OF i] by (auto split: option.splits)
  next
    fix j x assume j: "j < 8" and x: "ts_ctx (additional ?c ! j) = Some x"
    then have ji: "j \<noteq> i" and x': "ts_ctx (additional c ! j) = Some x" using ctx [OF j] by (auto split: if_splits)
    then show "ts_active (additional ?c ! j) \<and> x \<notin> set (destroyed ?c) \<and> conn_ssl_ctx ?c \<noteq> Some x"
      using des o(3) [OF j x'] o(5) [OF i j] active [OF j ji] prim o(2,4) [OF j x'] by (auto split: option.splits)
  next
    fix j k x assume j: "j < 8" and k: "k < 8"
      and "ts_ctx (additional ?c ! j) = Some x" "ts_ctx (additional ?c ! k) = Some x"
    then show "k = j" using ctx [OF j] ctx [OF k] o(5) [OF j k] by (auto split: if_splits)
  next
    fix x assume "conn_ssl_ctx ?c = Some x"
    then show "x \<notin> set (destroyed ?c)"
      using prim des o(6) [of x] o(4) [OF i] by (auto split: option.splits)
  qed
  moreover have "int (active_count (additional ?c)) = int (active_count (additional c)) - 1"
    using active_count_off [of i "additional c"] add i len act by simp
  ultimately show ?thesis using inv len add num q prim by (simp add: conn_inv_def)
qed

lemma ctx_owned_cong:
  "additional c' = additional c \<Longrightarrow> destroyed c' = destroyed c \<Longrightarrow> conn_ssl_ctx c' = conn_ssl_ctx c \<Longrightarrow>
   ctx_owned c' = ctx_owned c"
  by (simp only: ctx_owned_def)

lemma ctx_owned_ctxs:
  "(\<And>j. ts_ctx (additional c' ! j) = ts_ctx (additional c ! j)) \<Longrightarrow>
   (\<And>j. ts_active (additional c' ! j) = ts_active (additional c ! j)) \<Longrightarrow> destroyed c' = destroyed c \<Longrightarrow>
   conn_ssl_ctx c' = conn_ssl_ctx c \<Longrightarrow> ctx_owned c' = ctx_owned c"
  by (simp only: ctx_owned_def)

lemma conn_inv_cong:
  "additional c' = additional c \<Longrightarrow> num_additional c' = num_additional c \<Longrightarrow> recv_queue c' = recv_queue c \<Longrightarrow>
   destroyed c' = destroyed c \<Longrightarrow> conn_ssl_ctx c' = conn_ssl_ctx c \<Longrightarrow>
   conn_ssl c' = conn_ssl c \<Longrightarrow> conn_inv c' \<longleftrightarrow> conn_inv c"
  by (simp add: conn_inv_def ctx_owned_def)

lemma write_sock_frame [simp]:
  "additional (snd (data_write_all_sock fd bs c)) = additional c"
  "num_additional (snd (data_write_all_sock fd bs c)) = num_additional c"
  "recv_queue (snd (data_write_all_sock fd bs c)) = recv_queue c"
  "destroyed (snd (data_write_all_sock fd bs c)) = destroyed c"
  "socket_fd (snd (data_write_all_sock fd bs c)) = socket_fd c"
  "conn_ssl (snd (data_write_all_sock fd bs c)) = conn_ssl c"
  "conn_ssl_ctx (snd (data_write_all_sock fd bs c)) = conn_ssl_ctx c"
  "cstate (snd (data_write_all_sock fd bs c)) = cstate c"
  "rxs (snd (data_write_all_sock fd bs c)) = rxs c"
  by (simp_all add: data_write_all_sock_def split: prod.split)

lemma conn_inv_write [simp]: "conn_inv (snd (data_write_all_sock fd bs c)) \<longleftrightarrow> conn_inv c"
  by (rule conn_inv_cong) simp_all

lemma write_all_conn_frame:
  "conn_inv (snd (data_write_all bs c)) \<longleftrightarrow> conn_inv c"
  "additional (snd (data_write_all bs c)) = additional c"
  by (simp_all add: data_write_all_def)

lemma conn_inv_try:
  "conn_inv c \<Longrightarrow> \<forall>i \<in> set is. i \<le> 8 \<Longrightarrow> conn_inv (snd (try_candidates block is c))"
proof (induction block "is" c rule: try_candidates.induct)
  case (2 block "is" c)
  obtain ok c' where w: "data_write_all block c = (ok, c')" by fastforce
  have "conn_inv c'" using 2(3) w write_all_conn_frame(1) [of block c] by simp
  then show ?case using 2 w by (cases ok) auto
next
  case (3 block i "is" c)
  obtain ok c' where w: "data_write_all_sock (ts_fd (additional c ! i)) block c = (ok, c')" by fastforce
  have c': "conn_inv c'" "additional c' = additional c"
    using 3(3) w conn_inv_write [of "ts_fd (additional c ! i)" block c]
      write_sock_frame(1) [of "ts_fd (additional c ! i)" block c] by simp_all
  have i8: "i < 8" using 3(4) by simp
  show ?case
  proof (cases "\<not> ts_active (additional c ! i) \<or> ts_ssl (additional c ! i) = None \<or> ts_fd (additional c ! i) < 0")
    case True
    with 3 show ?thesis by simp
  next
    case False
    have ret: "conn_inv (retire_additional i c')"
      using conn_inv_retire [OF c'(1) i8] c'(2) False by simp
    show ?thesis
      using False w c' ret 3(2) [OF refl False w [symmetric]] 3(4) by (cases ok) auto
  qed
qed simp


lemma send_slots_le: "i \<in> set (send_slots c) \<Longrightarrow> 1 \<le> i \<and> i \<le> 8"
  by (auto simp: send_slots_def MAX_SE_CONNECTIONS_def)

lemma select_candidate: "fst (softether_select_send_socket c) \<in> {0} \<union> set (send_slots c)"
proof (cases "send_candidates c = []")
  case False
  then have "send_candidates c ! (send_rr_idx c mod length (send_candidates c)) \<in> set (send_candidates c)"
    by simp
  with False show ?thesis
    by (auto simp: softether_select_send_socket_def Let_def send_candidates_def split: if_splits)
qed (simp add: softether_select_send_socket_def)

lemma select_frame:
  "additional (snd (softether_select_send_socket c)) = additional c"
  "conn_inv (snd (softether_select_send_socket c)) = conn_inv c"
  "txs (snd (softether_select_send_socket c)) = txs c" "socket_fd (snd (softether_select_send_socket c)) = socket_fd c"
  "conn_ssl (snd (softether_select_send_socket c)) = conn_ssl c" "cstate (snd (softether_select_send_socket c)) = cstate c"
  "primary_direction (snd (softether_select_send_socket c)) = primary_direction c"
  by (simp_all add: softether_select_send_socket_def Let_def conn_inv_def ctx_owned_def)

lemma send_slots_cong: "additional c' = additional c \<Longrightarrow> send_slots c' = send_slots c"
  by (simp add: send_slots_def)

lemma transmit_candidates_le:
  "best \<in> {0} \<union> set (send_slots c) \<Longrightarrow> \<forall>i \<in> set (transmit_candidates best c). i \<le> 8"
  using send_slots_le [of _ c] by (auto simp: transmit_candidates_def split: if_splits)

lemma transmit_candidates_set:
  assumes "best \<in> {0} \<union> set (send_slots c)"
  shows "set (transmit_candidates best c) = set (send_candidates c)" "distinct (transmit_candidates best c)"
proof -
  have z: "0 \<notin> set (send_slots c)" using send_slots_le [of 0 c] by auto
  show "set (transmit_candidates best c) = set (send_candidates c)"
    using assms z by (auto simp: transmit_candidates_def send_candidates_def)
  have "distinct (send_slots c)" by (simp add: send_slots_def distinct_map)
  then show "distinct (transmit_candidates best c)" using z by (auto simp: transmit_candidates_def)
qed

lemma conn_inv_transmit:
  assumes "conn_inv c"
  shows "conn_inv (snd (softether_transmit_block_nolock block c))"
proof -
  obtain best c1 where s: "softether_select_send_socket c = (best, c1)" by fastforce
  then have "conn_inv c1" "best \<in> {0} \<union> set (send_slots c1)"
    using assms select_frame [of c] select_candidate [of c] send_slots_cong [of c1 c] by auto
  then show ?thesis
    using conn_inv_try [of c1 "transmit_candidates best c1" block] transmit_candidates_le [of best c1] s assms
    by (auto simp: softether_transmit_block_nolock_def)
qed

text \<open>
  The candidate list of a transmission fits its array. At most nine sockets are tried,
  none of them twice, and every one is open for sending.
\<close>

theorem transmit_candidates_bound:
  assumes "softether_select_send_socket c = (best, c')"
  shows "length (transmit_candidates best c') \<le> MAX_SE_CONNECTIONS + 1 \<and>
     distinct (transmit_candidates best c') \<and> set (transmit_candidates best c') = set (send_candidates c')"
proof -
  have best: "best \<in> {0} \<union> set (send_slots c')"
    using select_candidate [of c] select_frame(1) [of c] send_slots_cong [of c' c] assms by auto
  note d = transmit_candidates_set(2) [OF best] and e = transmit_candidates_set(1) [OF best]
  have "length (transmit_candidates best c') = card (set (transmit_candidates best c'))"
    using d by (simp add: distinct_card)
  also have "\<dots> \<le> card {0..8::nat}"
    using transmit_candidates_le [OF best] by (intro card_mono) auto
  finally show ?thesis using d e by (simp add: MAX_SE_CONNECTIONS_def)
qed

theorem transmit_candidates_bound_witness:
  "length (transmit_candidates (fst (softether_select_send_socket conn2)) (snd (softether_select_send_socket conn2))) \<le> 9"
  using transmit_candidates_bound [of conn2 "fst (softether_select_send_socket conn2)"
      "snd (softether_select_send_socket conn2)"]
  by (simp add: MAX_SE_CONNECTIONS_def)

section \<open>Failover\<close>

definition cand_fd :: "conn_t \<Rightarrow> nat \<Rightarrow> int" where
  "cand_fd c i = (if i = 0 then socket_fd c else ts_fd (additional c ! (i - 1)))"

definition usable :: "conn_t \<Rightarrow> nat \<Rightarrow> bool" where
  "usable c i \<longleftrightarrow> cand_fd c i \<ge> 0 \<and> (if i = 0 then conn_ssl c \<noteq> None
     else ts_active (additional c ! (i - 1)) \<and> ts_ssl (additional c ! (i - 1)) \<noteq> None)"

text \<open>The whole block is accepted by the socket behind a candidate.\<close>

definition takes :: "conn_t \<Rightarrow> bytes \<Rightarrow> nat \<Rightarrow> bool" where
  "takes c block i \<longleftrightarrow> usable c i \<and> length block \<le> wroom (txs c (cand_fd c i))"

lemma write_sock_tx:
  "fst (data_write_all_sock fd bs c) = (length bs \<le> wroom (txs c fd))"
  "txs (snd (data_write_all_sock fd bs c)) f = (if f = fd then snd (write_all bs (txs c fd)) else txs c f)"
  using write_all_exact [of bs "txs c fd"]
  by (auto simp: data_write_all_sock_def case_prod_beta)

text \<open>One attempt: success writes the whole block, failure leaves the other candidates as they were.\<close>

lemma try_step:
  assumes "i \<le> 8" "length (additional c) = 8" "\<not> state_down c" "block \<noteq> []"
  shows "\<exists>c'. try_candidates block (i # is) c = (if takes c block i then (True, c') else try_candidates block is c') \<and>
     (takes c block i \<longrightarrow> written (txs c' (cand_fd c i)) = written (txs c (cand_fd c i)) @ block) \<and>
     \<not> state_down c' \<and> length (additional c') = 8 \<and>
     (\<forall>j \<le> 8. j \<noteq> i \<longrightarrow> cand_fd c' j = cand_fd c j \<and> usable c' j = usable c j) \<and>
     (\<forall>f. (usable c i \<longrightarrow> f \<noteq> cand_fd c i) \<longrightarrow> txs c' f = txs c f)"
proof (cases "usable c i")
  case False
  then have "try_candidates block (i # is) c = try_candidates block is c"
    by (cases i) (auto simp: usable_def cand_fd_def Let_def)
  with False assms show ?thesis by (intro exI [of _ c]) (simp add: takes_def)
next
  case True
  let ?fd = "cand_fd c i"
  let ?c1 = "snd (data_write_all_sock ?fd block c)"
  have wr: "written (txs ?c1 ?fd) = written (txs c ?fd) @ block" if "takes c block i"
    using that write_all_exact [of block "txs c ?fd"] by (simp add: takes_def write_sock_tx)
  have fr: "cand_fd ?c1 j = cand_fd c j" "usable ?c1 j = usable c j" "state_down ?c1 = state_down c" for j
    by (simp_all add: cand_fd_def usable_def state_down_def)
  show ?thesis
  proof (cases i)
    case 0
    have "try_candidates block (i # is) c = (if takes c block i then (True, ?c1) else try_candidates block is ?c1)"
      using True 0 assms write_sock_tx(1) [of ?fd block c]
      by (auto simp: usable_def cand_fd_def takes_def data_write_all_def Let_def not_less split: prod.split)
    with wr fr assms True show ?thesis by (intro exI [of _ ?c1]) (simp add: write_sock_tx)
  next
    case (Suc k)
    let ?c2 = "if takes c block i then ?c1 else retire_additional k ?c1"
    have st: "try_candidates block (i # is) c = (if takes c block i then (True, ?c2) else try_candidates block is ?c2)"
      using True Suc write_sock_tx(1) [of ?fd block c]
      by (auto simp: usable_def cand_fd_def takes_def Let_def not_less split: prod.split)
    have r: "cand_fd (retire_additional k ?c1) j = cand_fd c j \<and> usable (retire_additional k ?c1) j = usable c j"
      if "j \<le> 8" "j \<noteq> i" for j
      using that Suc assms(1,2) by (auto simp: cand_fd_def usable_def retire_additional_def take_ssl_ctx_slot_def
          Let_def nth_list_update)
    have r2: "txs (retire_additional k ?c1) = txs ?c1" "state_down (retire_additional k ?c1) = state_down c"
      "length (additional (retire_additional k ?c1)) = 8"
      using assms(2) by (simp_all add: retire_additional_def take_ssl_ctx_slot_def Let_def state_down_def)
    show ?thesis
      using st wr fr r r2 assms True by (intro exI [of _ ?c2]) (auto simp: write_sock_tx)
  qed
qed

lemma try_candidates_ok:
  assumes "distinct is" "\<forall>i \<in> set is. i \<le> 8" "length (additional c) = 8" "\<not> state_down c" "block \<noteq> []"
    and "\<forall>i \<in> set is. \<forall>j \<in> set is. usable c i \<longrightarrow> usable c j \<longrightarrow> cand_fd c i = cand_fd c j \<longrightarrow> i = j"
  shows "fst (try_candidates block is c) = (\<exists>i \<in> set is. takes c block i) \<and>
     (fst (try_candidates block is c) \<longrightarrow> (\<exists>i \<in> set is. takes c block i \<and>
        written (txs (snd (try_candidates block is c)) (cand_fd c i)) = written (txs c (cand_fd c i)) @ block))"
  using assms
proof (induction "is" arbitrary: c)
  case (Cons i "is")
  have i8: "i \<le> 8" using Cons.prems by simp
  obtain c' where
    st: "try_candidates block (i # is) c = (if takes c block i then (True, c') else try_candidates block is c')" and
    wr: "takes c block i \<longrightarrow> written (txs c' (cand_fd c i)) = written (txs c (cand_fd c i)) @ block" and
    down: "\<not> state_down c'" "length (additional c') = 8" and
    same: "\<forall>j \<le> 8. j \<noteq> i \<longrightarrow> cand_fd c' j = cand_fd c j \<and> usable c' j = usable c j" and
    tx: "\<forall>f. (usable c i \<longrightarrow> f \<noteq> cand_fd c i) \<longrightarrow> txs c' f = txs c f"
    using try_step [OF i8 Cons.prems(3-5)] by blast
  show ?case
  proof (cases "takes c block i")
    case True
    with st wr show ?thesis by auto
  next
    case False
    have other: "cand_fd c' j = cand_fd c j \<and> usable c' j = usable c j \<and>
        (usable c j \<longrightarrow> txs c' (cand_fd c j) = txs c (cand_fd c j))" if "j \<in> set is" for j
    proof -
      have "j \<noteq> i" "j \<le> 8" using that Cons.prems(1,2) by auto
      moreover have "txs c' (cand_fd c j) = txs c (cand_fd c j)" if "usable c j"
        using tx Cons.prems(6) that \<open>j \<in> set is\<close> \<open>j \<noteq> i\<close> by (metis list.set_intros)
      ultimately show ?thesis using same by blast
    qed
    then have tk: "takes c' block j = takes c block j" if "j \<in> set is" for j
      using that by (auto simp: takes_def)
    have inj: "\<forall>x \<in> set is. \<forall>y \<in> set is. usable c' x \<longrightarrow> usable c' y \<longrightarrow> cand_fd c' x = cand_fd c' y \<longrightarrow> x = y"
      using Cons.prems(6) other by auto
    have "fst (try_candidates block is c') = (\<exists>i \<in> set is. takes c' block i) \<and>
     (fst (try_candidates block is c') \<longrightarrow> (\<exists>i \<in> set is. takes c' block i \<and>
        written (txs (snd (try_candidates block is c')) (cand_fd c' i)) = written (txs c' (cand_fd c' i)) @ block))"
      using Cons.IH [of c'] Cons.prems inj down by simp
    then show ?thesis
      using st False tk other by (auto simp: takes_def)
  qed
qed simp

text \<open>Distinct sockets have distinct descriptors.\<close>

definition fds_distinct :: "conn_t \<Rightarrow> bool" where
  "fds_distinct c \<longleftrightarrow> (\<forall>i \<le> 8. \<forall>j \<le> 8. usable c i \<longrightarrow> usable c j \<longrightarrow> cand_fd c i = cand_fd c j \<longrightarrow> i = j)"

lemma transmit_block_ok:
  assumes "length (additional c) = 8" "cstate c = STATE_CONNECTED" "conn_ssl c \<noteq> None" "8 \<le> length block"
    and "fds_distinct c" and r: "softether_transmit_block_nolock block c = (ok, c')"
  shows "ok = (\<exists>i \<in> set (send_candidates c). takes c block i) \<and>
     (ok \<longrightarrow> (\<exists>i \<in> set (send_candidates c).
        written (txs c' (cand_fd c i)) = written (txs c (cand_fd c i)) @ block))"
proof -
  obtain best c1 where s: "softether_select_send_socket c = (best, c1)" by fastforce
  have fr: "additional c1 = additional c" "txs c1 = txs c" "socket_fd c1 = socket_fd c" "conn_ssl c1 = conn_ssl c"
    "cstate c1 = cstate c" "primary_direction c1 = primary_direction c"
    using select_frame [of c] s by simp_all
  then have eq: "cand_fd c1 = cand_fd c" "usable c1 = usable c" "takes c1 block = takes c block"
    "send_candidates c1 = send_candidates c"
    by (simp_all add: fun_eq_iff cand_fd_def usable_def takes_def send_candidates_def primary_sendable_def send_slots_def)
  have best: "best \<in> {0} \<union> set (send_slots c1)"
    using select_candidate [of c] s send_slots_cong [OF fr(1)] by auto
  let ?is = "transmit_candidates best c1"
  note dist = transmit_candidates_set(2) [OF best]
  have set_is: "set ?is = set (send_candidates c)" using transmit_candidates_set(1) [OF best] eq(4) by simp
  have "fst (try_candidates block ?is c1) = (\<exists>i \<in> set ?is. takes c1 block i) \<and>
     (fst (try_candidates block ?is c1) \<longrightarrow> (\<exists>i \<in> set ?is. takes c1 block i \<and>
        written (txs (snd (try_candidates block ?is c1)) (cand_fd c1 i)) = written (txs c1 (cand_fd c1 i)) @ block))"
    using assms(1,2,4,5) dist transmit_candidates_le [OF best] fr eq
    by (intro try_candidates_ok) (auto simp: state_down_def fds_distinct_def)
  moreover have "try_candidates block ?is c1 = (ok, c')"
    using r s assms(2-4) by (auto simp: softether_transmit_block_nolock_def)
  ultimately show ?thesis using set_is eq fr by auto
qed

text \<open>
  C2: transmission with failover. A block is sent successfully exactly when some socket open
  for sending still accepts it in full, whichever socket round robin proposes first and
  however many of the others fail; and on success one of them has received the complete
  block, with nothing in between.
\<close>

theorem transmit_failover:
  assumes "length (additional c) = 8" "cstate c = STATE_CONNECTED" "conn_ssl c \<noteq> None" "8 \<le> length block"
    and "fds_distinct c" and r: "softether_transmit_block_nolock block c = (ok, c')"
  shows "ok = (\<exists>i \<in> set (send_candidates c). takes c block i) \<and>
     (ok \<longrightarrow> (\<exists>i \<in> set (send_candidates c).
        written (txs c' (cand_fd c i)) = written (txs c (cand_fd c i)) @ block))"
  by (rule transmit_block_ok [OF assms])

theorem transmit_failover_witness:
  "fst (softether_transmit_block_nolock [0, 0, 0, 1, 0, 0, 0, 0]
     (conn2\<lparr>txs := (\<lambda>fd. \<lparr>written = [], wroom = (if fd = 3 then 0 else 100), wchunk = (\<lambda>n. n), wcalls = 0\<rparr>)\<rparr>))"
proof -
  let ?c = "conn2\<lparr>txs := (\<lambda>fd. \<lparr>written = [], wroom = (if fd = 3 then 0 else 100), wchunk = (\<lambda>n. n), wcalls = 0\<rparr>)\<rparr>"
  let ?b = "[0, 0, 0, 1, 0, 0, 0, 0] :: bytes"
  have cand: "send_candidates ?c = [0, 3]"
    using conn2_candidates by (simp add: send_candidates_def primary_sendable_def send_slots_def)
  have us: "usable ?c i \<longleftrightarrow> i = 0 \<or> i = 3" if "i \<le> 8" for i
    using that by (auto simp: usable_def cand_fd_def conn2_def conn0_def nth_list_update tcp0_def)
  have fd: "cand_fd ?c 0 = 3" "cand_fd ?c 3 = 7"
    by (simp_all add: cand_fd_def conn2_def conn0_def)
  have 1: "length (additional ?c) = 8" "cstate ?c = STATE_CONNECTED" "conn_ssl ?c \<noteq> None" "8 \<le> length ?b"
    by (simp_all add: conn2_def conn0_def)
  have 2: "fds_distinct ?c" using us fd by (auto simp: fds_distinct_def)
  have "takes ?c ?b 3" using us [of 3] fd by (simp add: takes_def)
  with transmit_failover [OF 1 2 surjective_pairing] cand show ?thesis by simp
qed

section \<open>The invariant under receiving\<close>

lemma conn_inv_set_rx [simp]: "conn_inv (set_rx fd s c) \<longleftrightarrow> conn_inv c"
  by (rule conn_inv_cong) simp_all

lemma read_sock_inv:
  "data_read_all_sock fd n c = (r, c') \<Longrightarrow> conn_inv c' = conn_inv c \<and> additional c' = additional c \<and>
     conn_compress c' = conn_compress c \<and> recv_queue c' = recv_queue c"
  by (auto simp: data_read_all_sock_def split: prod.splits)

lemma read_u32_inv:
  "read_uint32_sock fd c = (r, c') \<Longrightarrow> conn_inv c' = conn_inv c \<and> additional c' = additional c"
  by (auto simp: read_uint32_sock_def split: prod.splits dest!: read_sock_inv)

lemma skip_data_inv: "skip_data fd n c = (r, c') \<Longrightarrow> conn_inv c' = conn_inv c \<and> additional c' = additional c"
proof (induction fd n c arbitrary: r c' rule: skip_data.induct)
  case (1 fd n c)
  show ?case
  proof (cases "n = 0")
    case True
    then show ?thesis using 1(2) by (simp add: skip_data.simps [of fd 0 c])
  next
    case False
    obtain x c1 where x: "data_read_all_sock fd (min n 2048) c = (x, c1)" by fastforce
    note c1 = read_sock_inv [OF x]
    show ?thesis
    proof (cases x)
      case None
      then show ?thesis using 1(2) False x c1 by (auto simp: skip_data.simps [of fd n c])
    next
      case (Some d)
      then have "skip_data fd (n - min n 2048) c1 = (r, c')"
        using 1(2) False x by (simp add: skip_data.simps [of fd n c])
      from 1(1) [OF False refl refl x [symmetric] Some this] c1 show ?thesis by simp
    qed
  qed
qed

lemma conn_inv_enqueue: "conn_inv c \<Longrightarrow> rcount (recv_queue c) < 64 \<Longrightarrow> conn_inv (enqueue_frame d c)"
  unfolding conn_inv_def using ctx_owned_cong [of "enqueue_frame d c" c]
  by (auto simp: enqueue_frame_ok)

lemma fill_blocks_inv:
  "fill_blocks env fd n c = (r, c') \<Longrightarrow> conn_inv c \<Longrightarrow> conn_inv c' \<and> additional c' = additional c"
proof (induction n arbitrary: c)
  case (Suc n)
  obtain x c1 where x: "read_uint32_sock fd c = (x, c1)" by fastforce
  have c1: "conn_inv c1" "additional c1 = additional c" using read_u32_inv [OF x] Suc.prems by auto
  show ?case
  proof (cases x)
    case None
    then show ?thesis using Suc.prems x c1 by auto
  next
    case (Some w)
    let ?n = "unat w"
    obtain y c2 where y: "data_read_all_sock fd ?n c1 = (y, c2)" by fastforce
    have c2: "conn_inv c2" "additional c2 = additional c" "recv_queue c2 = recv_queue c1"
      using read_sock_inv [OF y] c1 by auto
    obtain z c3 where z: "skip_data fd ?n c1 = (z, c3)" by fastforce
    have "conn_inv c3" and c3a: "additional c3 = additional c" using skip_data_inv [OF z] c1 by auto
    then have c3: "conn_inv (c3\<lparr>rx_skipped_blocks := rx_skipped_blocks c3 + 1\<rparr>)"
      using conn_inv_cong [of "c3\<lparr>rx_skipped_blocks := rx_skipped_blocks c3 + 1\<rparr>" c3] by simp
    have enq: "conn_inv (enqueue_frame d c2)" if "rcount (recv_queue c1) < 64" for d
      using that c2 conn_inv_enqueue by simp
    consider "?n > MAX_BLOCK_SIZE" | "?n \<le> MAX_BLOCK_SIZE" "?n = 0"
      | "?n \<le> MAX_BLOCK_SIZE" "?n \<noteq> 0" "?n \<le> MAX_QUEUED_FRAME \<and> rcount (recv_queue c1) < 64"
      | "?n \<le> MAX_BLOCK_SIZE" "?n \<noteq> 0" "\<not> (?n \<le> MAX_QUEUED_FRAME \<and> rcount (recv_queue c1) < 64)" by linarith
    then show ?thesis
    proof cases
      case 1
      then show ?thesis using Suc.prems x Some c1 by (auto simp: Let_def)
    next
      case 2
      then have "fill_blocks env fd n c1 = (r, c')" using Suc.prems x Some by (simp add: Let_def)
      from Suc.IH [OF this c1(1)] c1 show ?thesis by simp
    next
      case 3
      show ?thesis
      proof (cases "(conn_compress c1 \<and> \<not> can_alloc (cheap env) ?n) \<or> y = None")
        case True
        then show ?thesis using Suc.prems x Some 3 y c1 c2 by (auto simp: Let_def split: if_splits)
      next
        case False
        then obtain d where "fill_blocks env fd n (enqueue_frame d c2) = (r, c')"
          using Suc.prems x Some 3 y by (auto simp: Let_def split: if_splits)
        from Suc.IH [OF this enq] 3 c2 show ?thesis by simp
      qed
    next
      case 4
      show ?thesis
      proof (cases z)
        case True
        then have "fill_blocks env fd n (c3\<lparr>rx_skipped_blocks := rx_skipped_blocks c3 + 1\<rparr>) = (r, c')"
          using Suc.prems x Some 4 z by (auto simp: Let_def split: if_splits)
        from Suc.IH [OF this c3] c3a show ?thesis by simp
      next
        case False
        then have "c' = c3" using Suc.prems x Some 4 z by (auto simp: Let_def split: if_splits)
        with \<open>conn_inv c3\<close> c3a show ?thesis by simp
      qed
    qed
  qed
qed simp

lemma conn_inv_keepalive: "conn_inv (snd (softether_send_keepalive env c)) = conn_inv c"
proof -
  have "conn_inv (c\<lparr>crnd_i := k\<rparr>) = conn_inv c" for k by (rule conn_inv_cong) simp_all
  then show ?thesis
    using conn_inv_write [of "socket_fd c" "ka_message env c"]
    by (simp add: softether_send_keepalive_def softether_send_keepalive_sock_def Let_def case_prod_beta)
qed

lemma conn_inv_failed:
  assumes "conn_inv c" "\<forall>i \<in> set_option sel. i < 8 \<and> ts_active (additional c ! i)"
  shows "conn_inv (snd (read_failed sel c))"
  using assms by (cases sel) (auto simp: read_failed_def intro!: conn_inv_retire)

lemma conn_inv_fill_message:
  assumes inv: "conn_inv c" and sel: "\<forall>i \<in> set_option sel. i < 8 \<and> ts_active (additional c ! i)"
  shows "conn_inv (snd (fill_message env fd sel c))"
proof -
  have fail: "conn_inv (snd (read_failed sel d))" if "conn_inv d" "additional d = additional c" for d
    using conn_inv_failed [OF that(1), of sel] sel that(2) by simp
  obtain x c1 where x: "read_uint32_sock fd c = (x, c1)" by fastforce
  have c1: "conn_inv c1" "additional c1 = additional c" using read_u32_inv [OF x] inv by auto
  obtain y c2 where y: "read_uint32_sock fd c1 = (y, c2)" by fastforce
  have c2: "conn_inv c2" "additional c2 = additional c" using read_u32_inv [OF y] c1 by auto
  obtain e c4 where e: "fill_blocks env fd (unat (the x)) c1 = (e, c4)" by fastforce
  have c4: "conn_inv c4" "additional c4 = additional c" using fill_blocks_inv [OF e c1(1)] c1 by auto
  have ka: "conn_inv (snd (case data_read_all_sock fd k c2 of (None, c) \<Rightarrow> read_failed sel c
      | (Some _, c) \<Rightarrow> (0, snd (softether_send_keepalive env c))))" for k
  proof -
    obtain z c3 where z: "data_read_all_sock fd k c2 = (z, c3)" by fastforce
    have "conn_inv c3" "additional c3 = additional c" using read_sock_inv [OF z] c2 by auto
    then show ?thesis using z fail conn_inv_keepalive by (cases z) auto
  qed
  show ?thesis
  proof (cases x)
    case None
    then show ?thesis using x fail [OF c1] by (simp add: fill_message_def)
  next
    case (Some w)
    then show ?thesis
      using x y e ka fail [OF c2] fail [OF c4] c1 c4
      by (cases y; cases e) (auto simp: fill_message_def)
  qed
qed

lemma drain_loop_inv:
  "conn_inv c \<Longrightarrow> conn_inv (snd (drain_rudp_loop k m c)) \<and> additional (snd (drain_rudp_loop k m c)) = additional c"
proof (induction k arbitrary: m c)
  case (Suc k)
  show ?case
  proof (cases "conn_rudp c")
    case None
    then show ?thesis using Suc.prems by simp
  next
    case (Some ru)
    obtain d ru' where d: "rudp_recv ru MAX_QUEUED_FRAME = (d, ru')" by fastforce
    let ?c = "c\<lparr>conn_rudp := Some ru'\<rparr>"
    have c': "conn_inv ?c" using Suc.prems conn_inv_cong [of ?c c] by simp
    show ?thesis
    proof (cases "rcount (recv_queue c) \<ge> 64 \<or> d = None \<or> d = Some []")
      case True
      then show ?thesis using Suc.prems Some d c' by (auto split: option.splits)
    next
      case False
      then obtain x where x: "d = Some x" "x \<noteq> []" by auto
      have "conn_inv (enqueue_frame x ?c)" using False c' conn_inv_enqueue [of ?c x] by simp
      from Suc.IH [OF this, of "m + 1"] show ?thesis using False Some d x by simp
    qed
  qed
qed simp

lemma conn_inv_drain:
  assumes "conn_inv c"
  shows "conn_inv (snd (drain_rudp_into_recv_queue env c))"
    "additional (snd (drain_rudp_into_recv_queue env c)) = additional c"
proof -
  have "conn_inv (c\<lparr>conn_rudp := r\<rparr>)" for r using assms conn_inv_cong [of "c\<lparr>conn_rudp := r\<rparr>" c] by simp
  from drain_loop_inv [OF this] assms
  show "conn_inv (snd (drain_rudp_into_recv_queue env c))"
    "additional (snd (drain_rudp_into_recv_queue env c)) = additional c"
    by (simp_all add: drain_rudp_into_recv_queue_def split: option.split)
qed

lemma recv_sockets_active:
  "(fd, ssl, sel) \<in> set (recv_sockets c) \<Longrightarrow> \<forall>i \<in> set_option sel. i < 8 \<and> ts_active (additional c ! i)"
  by (auto simp: recv_sockets_def MAX_SE_CONNECTIONS_def Let_def split: if_splits)

lemma active_count_map: "active_count ts = length (filter id (map ts_active ts))"
  by (simp add: active_count_def filter_map comp_def)

lemma active_count_cong: "map ts_active ts = map ts_active us \<Longrightarrow> active_count ts = active_count us"
  by (simp only: active_count_map)

lemma conn_inv_touch:
  assumes "conn_inv c" "i < 8"
  shows "conn_inv (c\<lparr>additional := (additional c)[i := (additional c ! i)\<lparr>ts_last_recv := t\<rparr>]\<rparr>)"
proof -
  let ?ts = "(additional c)[i := (additional c ! i)\<lparr>ts_last_recv := t\<rparr>]"
  let ?c = "c\<lparr>additional := ?ts\<rparr>"
  have len: "length (additional c) = 8" using assms(1) by (simp add: conn_inv_def)
  have "map ts_active ?ts = map ts_active (additional c)"
    using assms(2) len by (simp add: map_update list_update_same_conv)
  then have "active_count ?ts = active_count (additional c)" by (rule active_count_cong)
  moreover have "ts_ctx (additional ?c ! j) = ts_ctx (additional c ! j)"
    "ts_active (additional ?c ! j) = ts_active (additional c ! j)" for j
    using assms(2) len by (cases "j = i", simp_all)+
  then have "ctx_owned ?c = ctx_owned c" by (intro ctx_owned_ctxs) simp_all
  ultimately show ?thesis using assms by (simp add: conn_inv_def)
qed

lemma conn_inv_selected:
  assumes "conn_inv c" "s \<in> set (recv_sockets c')" "additional c' = additional c"
  shows "conn_inv (snd (fill_selected env s c))"
proof -
  obtain fd ssl sel where s: "s = (fd, ssl, sel)" by (cases s)
  have sel: "\<forall>i \<in> set_option sel. i < 8 \<and> ts_active (additional c ! i)"
    using recv_sockets_active [of fd ssl sel c'] assms s by simp
  show ?thesis
  proof (cases sel)
    case None
    then show ?thesis using s conn_inv_fill_message [OF assms(1), of None] assms(1) by (simp add: fill_selected_def)
  next
    case (Some i)
    let ?c = "c\<lparr>cclk_i := cclk_i c + 1\<rparr>"
    have "conn_inv ?c" using assms(1) conn_inv_cong [of ?c c] by simp
    from conn_inv_touch [OF this, of i "tick_ms env (cclk_i c)"] sel Some
    have i: "conn_inv (?c\<lparr>additional := (additional ?c)[i := (additional ?c ! i)\<lparr>ts_last_recv := tick_ms env (cclk_i c)\<rparr>]\<rparr>)"
      by simp
    have "length (additional c) = 8" using assms(1) by (simp add: conn_inv_def)
    with sel Some conn_inv_fill_message [OF i, of "Some i" env fd] assms(1) show ?thesis
      by (simp add: s fill_selected_def tick_now_def)
  qed
qed

lemma conn_inv_pick:
  "find P (recv_sockets c) = Some s \<Longrightarrow> conn_inv c \<Longrightarrow> conn_inv (snd (fill_selected env s c))"
  by (rule conn_inv_selected [of c s c]) (auto simp: find_Some_iff)

lemma conn_inv_ready:
  assumes "conn_inv c"
  shows "conn_inv (snd (fill_ready env re c))"
proof -
  let ?d = "if list_ex (\<lambda>fd. pollin (re fd)) (udp_fds c) then drain_rudp_into_recv_queue env c else (0, c)"
  obtain m c1 where d: "?d = (m, c1)" by fastforce
  then have c1: "conn_inv c1" using assms conn_inv_drain(1) [OF assms, of env] by (auto split: if_splits)
  show ?thesis
    unfolding fill_ready_def d using assms c1 conn_inv_pick
    by (auto simp: Let_def split: option.split)
qed

lemma conn_inv_poll: "conn_inv c \<Longrightarrow> conn_inv (snd (poll_sockets env c))"
proof -
  assume "conn_inv c"
  then have "conn_inv (c\<lparr>poll_i := poll_i c + 1\<rparr>)"
    using conn_inv_cong [of "c\<lparr>poll_i := poll_i c + 1\<rparr>" c] by simp
  then show ?thesis by (simp add: poll_sockets_def conn_inv_ready Let_def split: poll_result.split)
qed

lemma conn_inv_fill:
  assumes "conn_inv c"
  shows "conn_inv (snd (softether_fill_recv_queue env c))"
proof -
  obtain m c1 where d: "drain_rudp_into_recv_queue env c = (m, c1)" by fastforce
  then have c1: "conn_inv c1" using conn_inv_drain(1) [OF assms, of env] by simp
  have "conn_inv (snd (fill_selected env s c1))" if "pending_socket env c1 = Some s" for s
    using that c1 unfolding pending_socket_def by (rule conn_inv_pick)
  then show ?thesis
    using assms c1 d by (simp add: softether_fill_recv_queue_def conn_inv_poll split: option.split)
qed

lemma conn_inv_keepalive_sock: "conn_inv (snd (softether_send_keepalive_sock env ssl fd c)) = conn_inv c"
proof -
  have "conn_inv (c\<lparr>crnd_i := k\<rparr>) = conn_inv c" for k by (rule conn_inv_cong) simp_all
  then show ?thesis by (simp add: softether_send_keepalive_sock_def Let_def case_prod_beta)
qed

lemma conn_inv_keepalive_slots: "conn_inv (keepalive_slots env is c) = conn_inv c"
  by (induction "is" arbitrary: c) (simp_all add: Let_def conn_inv_keepalive_sock)

lemma conn_inv_keepalive_all: "conn_inv (snd (softether_send_keepalive_all env c)) = conn_inv c"
proof -
  have k: "conn_inv (c\<lparr>cclk_i := k, next_tcp_keepalive_time := t\<rparr>) = conn_inv c" "conn_inv (c\<lparr>cclk_i := k\<rparr>) = conn_inv c"
    for k t by (rule conn_inv_cong; simp)+
  show ?thesis
    by (simp add: softether_send_keepalive_all_def tick_now_def Let_def conn_inv_keepalive_slots
        conn_inv_keepalive_sock k)
qed

lemma conn_inv_send_packet: "conn_inv (snd (softether_send_packet env bound cmd payload c)) = conn_inv c"
  by (simp add: softether_send_packet_def Let_def case_prod_beta conn_inv_keepalive write_all_conn_frame
      select_frame)

lemma conn_inv_read_all: "data_read_all k c = (x, c') \<Longrightarrow> conn_inv c' = conn_inv c"
  using read_sock_inv by (auto simp: data_read_all_def split: if_splits)

lemma conn_inv_read_uint32: "read_uint32 c = (x, c') \<Longrightarrow> conn_inv c' = conn_inv c"
  by (auto simp: read_uint32_def split: prod.splits dest: conn_inv_read_all)

lemma conn_inv_skip: "skip_data fd k c = (x, c') \<Longrightarrow> conn_inv c' = conn_inv c"
  using skip_data_inv by blast

lemmas conn_inv_readers = conn_inv_read_all conn_inv_read_uint32 conn_inv_skip

lemma conn_inv_recv_blocks: "conn_inv (snd (recv_blocks env m n stored nread c)) = conn_inv c"
proof (induction n arbitrary: stored nread c)
  case (Suc n)
  have k: "conn_inv (c\<lparr>rx_skipped_blocks := k\<rparr>) = conn_inv c" for c k by (rule conn_inv_cong) simp_all
  show ?case
    by (auto simp: Let_def Suc.IH k split: prod.split option.split bool.split dest: conn_inv_readers)
qed simp

lemma conn_inv_receive_packet: "conn_inv (snd (softether_receive_packet env m c)) = conn_inv c"
  by (auto simp: softether_receive_packet_def Let_def conn_inv_recv_blocks
      split: prod.split option.split dest!: conn_inv_readers)

lemma conn_inv_process_keepalive: "conn_inv (snd (softether_process_keepalive env c)) = conn_inv c"
  using conn_inv_receive_packet [of env 256 c]
  by (auto simp: softether_process_keepalive_def conn_inv_keepalive split: prod.splits packet_result.splits)

end
