(* ===== verification/Links.thy ===== *)
theory Links
  imports Login Data_Channel
begin

text \<open>
  The life of the TCP connections of a session (\<^verbatim>\<open>softether_protocol.c\<close>): opening an
  additional connection with its two HTTP exchanges, launching that in the background,
  retiring dead sockets, closing all of them and disconnecting. \<open>tun_t\<close> wraps the data
  channel's record with the other fields of \<^verbatim>\<open>softether_connection_t\<close> used here. The
  background thread is a step of its own: its effects become visible at once, before or
  after an operation of the caller's threads, which is what \<^verbatim>\<open>pthread_join\<close> and the
  \<^verbatim>\<open>active\<close> flag stored last provide. Opening a socket, the TLS handshake, \<^verbatim>\<open>poll\<close> on one
  descriptor, \<^verbatim>\<open>pthread_create\<close> and the clock are the environment; bytes that no one wrote
  before they are read are the environment's, too.
\<close>

section \<open>State and environment\<close>

text \<open>
  One attempt to open a connection: the descriptor when \<^verbatim>\<open>socket_connect_timeout\<close> succeeds,
  the context when \<^verbatim>\<open>ssl_create_client\<close> does, whether the handshake does, the date printed,
  and what the uninitialised \<^verbatim>\<open>resp[4096]\<close> holds.
\<close>

record dial =
  d_fd :: "int option"
  d_ctx :: "nat option"
  d_tls :: bool
  d_date :: bytes
  d_junk :: bytes

record tun_env =
  cenv :: conn_env
  zbound :: "nat \<Rightarrow> nat"
  dials :: "nat \<Rightarrow> dial"
  link_polls :: "nat \<Rightarrow> revents option"
  thread_starts :: "nat \<Rightarrow> bool"

record tun_t =
  tc :: conn_t
  conn_server_ip :: bytes
  conn_session_key :: bytes
  client_mac :: bytes
  gateway_mac :: bytes
  gateway_mac_resolved :: bool
  gateway_ip :: u32
  assigned_ip :: u32
  max_connection :: int
  next_connect_time :: nat
  additional_failed_count :: nat
  additional_connecting :: bool
  additional_connect_slot :: int
  additional_connect_result :: int
  using_nat_t :: bool
  stats_tx_packets :: nat
  stats_tx_bytes :: nat
  stats_rx_packets :: nat
  stats_rx_bytes :: nat
  dial_i :: nat
  lpoll_i :: nat
  thread_i :: nat

definition ADDITIONAL_CONNECT_INTERVAL_MS :: nat where "ADDITIONAL_CONNECT_INTERVAL_MS = 1000"

section \<open>The exchanges of an additional connection\<close>

definition vpn_cgi_head :: "bytes \<Rightarrow> bytes \<Rightarrow> nat \<Rightarrow> bytes" where
  "vpn_cgi_head date server_ip len = lit ''POST /vpnsvc/vpn.cgi HTTP/1.1'' @ [13, 10] @
     lit ''Date: '' @ date @ [13, 10] @ lit ''Host: '' @ server_ip @ [13, 10] @
     lit ''Keep-Alive: timeout=15; max=19'' @ [13, 10] @ lit ''Connection: Keep-Alive'' @ [13, 10] @
     lit ''Content-Type: application/octet-stream'' @ [13, 10] @
     lit ''Content-Length: '' @ decimal len @ [13, 10] @ [13, 10]"

text \<open>
  A response of at most 4096 bytes: the header block byte by byte, then the body if it
  leaves room. \<open>behind\<close> is what follows the header in the array when the code does not
  terminate it before searching it (\<open>None\<close> where it does). Running off the end of the array
  is \<open>Fault\<close>, and so is a sum \<^verbatim>\<open>hdr_len + (int)content_length\<close> that is no \<^verbatim>\<open>int\<close>: the comparison
  with the size of the array is made on it.
\<close>

definition read_small_response :: "bytes option \<Rightarrow> instream \<Rightarrow> bytes outcome \<times> instream" where
  "read_small_response behind s = (case read_headers 4095 [] s of
     (None, s) \<Rightarrow> (Fail, s)
   | (Some h, s) \<Rightarrow> (let txt = (case behind of None \<Rightarrow> h @ [0] | Some j \<Rightarrow> h @ take (4096 - length h) j) in
       if 0 \<notin> set txt then (Fault, s)
       else let cl = content_length_of txt in
         if cl > 0 \<and> length_overflows h cl then (Fault, s)
         else if cl > 0 \<and> int (length h) + as_int cl < 4096 then
           if as_int cl < 0 then (Fail, s)
           else (case read_all (unat cl) s of (None, s) \<Rightarrow> (Fail, s) | (Some b, s) \<Rightarrow> (Ret b, s))
         else (Ret [], s)))"

text \<open>One \<^verbatim>\<open>ssl_write\<close>; only a return value of 0 or less is an error.\<close>

definition write_once :: "int \<Rightarrow> bytes \<Rightarrow> conn_t \<Rightarrow> bool \<times> conn_t" where
  "write_once fd bs c = (let (r, s) = sock_write bs (txs c fd) in (0 < r, c\<lparr>txs := (txs c)(fd := s)\<rparr>))"

definition read_response :: "bytes option \<Rightarrow> int \<Rightarrow> conn_t \<Rightarrow> bytes outcome \<times> conn_t" where
  "read_response behind fd c = (let (r, s) = read_small_response behind (rxs c fd) in (r, set_rx fd s c))"

text \<open>The signature and the Hello.\<close>

definition link_signature :: "tun_env \<Rightarrow> dial \<Rightarrow> bytes \<Rightarrow> int \<Rightarrow> conn_t \<Rightarrow> bytes outcome \<times> conn_t" where
  "link_signature env d server_ip fd c =
     (if \<not> can_alloc (cheap (cenv env)) (length (vpnconnect_head server_ip) + 10) then (Fail, c)
      else (case watermark_request server_ip of
          Ret req \<Rightarrow> (let (ok, c) = write_once fd req c in
            if \<not> ok then (Fail, c) else read_response (Some (d_junk d)) fd c)
        | Fail \<Rightarrow> (Fail, c)
        | Fault \<Rightarrow> (Fault, c)))"

definition additional_calls :: "bytes \<Rightarrow> pack_call list" where
  "additional_calls key = [AddStr (lit ''method'') (lit ''additional_connect''),
     AddData (lit ''session_key'') (Some key) 20]"

definition additional_pack :: "heap_env \<Rightarrow> bytes \<Rightarrow> bytes outcome" where
  "additional_pack h key =
     (case calloc h (4 + PACK_STR_SZ (lit ''method'') (lit ''additional_connect'') +
          PACK_DATA_SZ (lit ''session_key'') 20 + 64) of
        None \<Rightarrow> Fail
      | Some buf \<Rightarrow> (case pack_write_uint32 2 (buf, 0) \<bind> proto_pack_calls (additional_calls key) of
            None \<Rightarrow> Fault
          | Some (b, off) \<Rightarrow> Ret (take off b)))"

text \<open>The header is printed into \<^verbatim>\<open>auth_hdr[512]\<close> and copied by its full length.\<close>

definition additional_request :: "heap_env \<Rightarrow> bytes \<Rightarrow> bytes \<Rightarrow> bytes \<Rightarrow> bytes outcome" where
  "additional_request h date server_ip key = (case additional_pack h key of
     Ret pack \<Rightarrow> (let full = vpn_cgi_head date server_ip (length pack);
         auth_hdr = take 511 full @ [0] @ replicate (511 - length full) 0 in
       if \<not> can_alloc h (length full + length pack) then Fail
       else (case read_at auth_hdr 0 (length full) of
           None \<Rightarrow> Fault
         | Some hdr \<Rightarrow> Ret (hdr @ pack)))
   | Fail \<Rightarrow> Fail
   | Fault \<Rightarrow> Fault)"

definition link_auth :: "tun_env \<Rightarrow> dial \<Rightarrow> bytes \<Rightarrow> bytes \<Rightarrow> int \<Rightarrow> conn_t \<Rightarrow> bytes outcome \<times> conn_t" where
  "link_auth env d server_ip key fd c = (case additional_request (cheap (cenv env)) (d_date d) server_ip key of
     Ret req \<Rightarrow> (let (ok, c) = write_once fd req c in
       if \<not> ok then (Fail, c) else read_response None fd c)
   | Fail \<Rightarrow> (Fail, c)
   | Fault \<Rightarrow> (Fault, c))"

text \<open>\<open>None\<close> is a refusal, otherwise the direction of the new connection.\<close>

definition link_verdict :: "bytes \<Rightarrow> u32 option" where
  "link_verdict body = (if length body < 4 then Some 0
     else if (case proto_get_int body (lit ''error'') of Some e \<Rightarrow> e \<noteq> 0 | None \<Rightarrow> False) then None
     else Some (case proto_get_int body (lit ''direction'') of Some w \<Rightarrow> w | None \<Rightarrow> 0))"

section \<open>Opening an additional connection\<close>

definition free_slot :: "conn_t \<Rightarrow> nat option" where
  "free_slot c = find (\<lambda>i. \<not> ts_active (additional c ! i)) [0..<MAX_SE_CONNECTIONS]"

definition close_fd :: "int \<Rightarrow> conn_t \<Rightarrow> conn_t" where
  "close_fd fd c = c\<lparr>closed_fds := closed_fds c @ [fd]\<rparr>"

definition link_failed :: "tun_t \<Rightarrow> int \<times> tun_t" where
  "link_failed t = (-1, t\<lparr>additional_failed_count := additional_failed_count t + 1\<rparr>)"

definition drop_link :: "int \<Rightarrow> nat \<Rightarrow> tun_t \<Rightarrow> int \<times> tun_t" where
  "drop_link fd x t = (let c = tc t; c = c\<lparr>destroyed := destroyed c @ [x]\<rparr>
     in link_failed (t\<lparr>tc := close_fd fd c\<rparr>))"

definition adopt_link :: "tun_env \<Rightarrow> nat \<Rightarrow> int \<Rightarrow> nat \<Rightarrow> u32 \<Rightarrow> tun_t \<Rightarrow> int \<times> tun_t" where
  "adopt_link env slot fd x dir t = (let (now, c) = tick_now (cenv env) (tc t) in
     (0, t\<lparr>tc := c\<lparr>additional := (additional c)[slot :=
            \<lparr>ts_fd = fd, ts_ctx = Some x, ts_ssl = Some x, ts_dir = unat dir, ts_last_recv = now,
             ts_late = 0, ts_active = True\<rparr>], num_additional := num_additional c + 1\<rparr>,
          additional_failed_count := 0\<rparr>))"

definition link_handshake :: "tun_env \<Rightarrow> dial \<Rightarrow> nat \<Rightarrow> int \<Rightarrow> nat \<Rightarrow> tun_t \<Rightarrow> (int \<times> tun_t) outcome" where
  "link_handshake env d slot fd x t = (case link_signature env d (conn_server_ip t) fd (tc t) of
     (Fault, _) \<Rightarrow> Fault
   | (Fail, c) \<Rightarrow> Ret (drop_link fd x (t\<lparr>tc := c\<rparr>))
   | (Ret _, c) \<Rightarrow> (case link_auth env d (conn_server_ip t) (conn_session_key t) fd c of
         (Fault, _) \<Rightarrow> Fault
       | (Fail, c) \<Rightarrow> Ret (drop_link fd x (t\<lparr>tc := c\<rparr>))
       | (Ret body, c) \<Rightarrow> (case link_verdict body of
             None \<Rightarrow> Ret (drop_link fd x (t\<lparr>tc := c\<rparr>))
           | Some dir \<Rightarrow> Ret (adopt_link env slot fd x dir (t\<lparr>tc := c\<rparr>)))))"

definition softether_additional_connect :: "tun_env \<Rightarrow> tun_t \<Rightarrow> (int \<times> tun_t) outcome" where
  "softether_additional_connect env t =
     (if cstate (tc t) \<noteq> STATE_CONNECTED then Ret (-1, t)
      else (case free_slot (tc t) of
          None \<Rightarrow> Ret (-1, t)
        | Some slot \<Rightarrow> (let d = dials env (dial_i t); t = t\<lparr>dial_i := dial_i t + 1\<rparr> in
            case d_fd d of
              None \<Rightarrow> Ret (link_failed t)
            | Some fd \<Rightarrow> (case d_ctx d of
                None \<Rightarrow> Ret (link_failed (t\<lparr>tc := close_fd fd (tc t)\<rparr>))
              | Some x \<Rightarrow> if \<not> d_tls d then Ret (drop_link fd x t)
                          else link_handshake env d slot fd x t))))"

definition additional_connect_thread_routine :: "tun_env \<Rightarrow> tun_t \<Rightarrow> tun_t outcome" where
  "additional_connect_thread_routine env t = (case softether_additional_connect env t of
     Ret (r, t) \<Rightarrow> Ret (t\<lparr>additional_connect_result := r, additional_connecting := False\<rparr>)
   | Fail \<Rightarrow> Fail
   | Fault \<Rightarrow> Fault)"

text \<open>In half-connection mode the first additional connection turns the primary one round.\<close>

definition softether_establish_first_additional :: "tun_env \<Rightarrow> tun_t \<Rightarrow> (int \<times> tun_t) outcome" where
  "softether_establish_first_additional env t = (case softether_additional_connect env t of
     Ret (r, t) \<Rightarrow> Ret (r, if r = 0 \<and> list_ex (\<lambda>i. ts_active (additional (tc t) ! i) \<and>
           ts_dir (additional (tc t) ! i) = TCP_DIRECTION_SERVER_TO_CLIENT) [0..<MAX_SE_CONNECTIONS]
         then t\<lparr>tc := (tc t)\<lparr>primary_direction := TCP_DIRECTION_CLIENT_TO_SERVER\<rparr>\<rparr> else t)
   | Fail \<Rightarrow> Fail
   | Fault \<Rightarrow> Fault)"

section \<open>Housekeeping\<close>

definition launch_additional :: "tun_env \<Rightarrow> tun_t \<Rightarrow> tun_t" where
  "launch_additional env t =
     (if num_additional (tc t) < max_connection t - 1 \<and> additional_failed_count t < 16 \<and> \<not> additional_connecting t
      then let (now, c) = tick_now (cenv env) (tc t); t = t\<lparr>tc := c\<rparr> in
        if next_connect_time t = 0 \<or> now \<ge> next_connect_time t then
          let t = (case free_slot (tc t) of
              None \<Rightarrow> t
            | Some slot \<Rightarrow> let t = t\<lparr>additional_connect_result := -1, thread_i := thread_i t + 1\<rparr> in
                if thread_starts env (thread_i t - 1)
                then t\<lparr>additional_connect_slot := int slot, additional_connecting := True\<rparr>
                else t\<lparr>additional_connect_slot := -1, additional_connecting := False\<rparr>)
          in t\<lparr>next_connect_time := now + ADDITIONAL_CONNECT_INTERVAL_MS\<rparr>
        else t
      else t)"

definition reset_slot :: "nat \<Rightarrow> conn_t \<Rightarrow> conn_t" where
  "reset_slot i c = c\<lparr>additional := (additional c)[i := (additional c ! i)\<lparr>ts_late := 0, ts_last_recv := 0\<rparr>]\<rparr>"

definition link_dead :: "revents option \<Rightarrow> bool" where
  "link_dead r = (case r of None \<Rightarrow> False | Some e \<Rightarrow> pollbad e \<or> pollnval e)"

fun cleanup_links :: "tun_env \<Rightarrow> nat list \<Rightarrow> tun_t \<Rightarrow> tun_t" where
  "cleanup_links env [] t = t"
| "cleanup_links env (i # is) t =
     (if \<not> ts_active (additional (tc t) ! i) then cleanup_links env is t
      else if additional_connecting t \<and> int i = additional_connect_slot t then cleanup_links env is t
      else let r = link_polls env (lpoll_i t); t = t\<lparr>lpoll_i := lpoll_i t + 1\<rparr>
        in cleanup_links env is
             (if link_dead r then t\<lparr>tc := reset_slot i (retire_additional i (tc t))\<rparr> else t))"

definition softether_maintain_links :: "tun_env \<Rightarrow> tun_t \<Rightarrow> tun_t" where
  "softether_maintain_links env t =
     (let t = t\<lparr>tc := snd (softether_send_keepalive_all (cenv env) (tc t))\<rparr>
      in cleanup_links env [0..<MAX_SE_CONNECTIONS] (launch_additional env t))"

section \<open>Closing\<close>

text \<open>
  Joining the background thread. Both callers have left \<^verbatim>\<open>STATE_CONNECTED\<close>, where a thread
  that has not begun gives up at once.
\<close>

definition join_thread :: "tun_t \<Rightarrow> tun_t" where
  "join_thread t = (if additional_connecting t
     then t\<lparr>additional_connect_result := -1, additional_connecting := False\<rparr> else t)"

definition mark_inactive :: "tcp_sock \<Rightarrow> tcp_sock" where
  "mark_inactive ts = (if ts_active ts
     then ts\<lparr>ts_active := False, ts_ssl := None, ts_fd := -1, ts_late := 0, ts_last_recv := 0\<rparr> else ts)"

definition active_fds :: "tcp_sock list \<Rightarrow> int list" where
  "active_fds ss = filter (\<lambda>fd. fd \<ge> 0) (map ts_fd (filter ts_active ss))"

definition slot_ctxs :: "tcp_sock list \<Rightarrow> nat list" where
  "slot_ctxs ss = List.map_filter ts_ctx ss"

definition softether_close_additional :: "tun_t \<Rightarrow> tun_t" where
  "softether_close_additional t = (let t = join_thread t; c = tc t; saved = active_fds (additional c);
       marked = map mark_inactive (additional c);
       c = c\<lparr>additional := marked, closed_fds := closed_fds c @ saved\<rparr>;
       c = c\<lparr>additional := map (\<lambda>ts. ts\<lparr>ts_ctx := snd (take_ssl_ctx_slot (ts_ctx ts))\<rparr>) marked,
             destroyed := destroyed c @ slot_ctxs marked, num_additional := 0\<rparr>
     in t\<lparr>tc := c, additional_failed_count := 0\<rparr>)"

definition close_primary :: "conn_t \<Rightarrow> conn_t" where
  "close_primary c = (if socket_fd c \<ge> 0
     then c\<lparr>socket_fd := -1, closed_fds := closed_fds c @ [socket_fd c]\<rparr> else c)"

definition destroy_primary :: "conn_t \<Rightarrow> conn_t" where
  "destroy_primary c = (case conn_ssl c of
     Some x \<Rightarrow> if conn_ssl_ctx c \<noteq> None
       then c\<lparr>conn_ssl := None, conn_ssl_ctx := (if conn_ssl_ctx c = Some x then None else conn_ssl_ctx c),
              destroyed := destroyed c @ [x]\<rparr> else c
   | None \<Rightarrow> c)"

text \<open>
  The part of \<^verbatim>\<open>softether_disconnect\<close> on the TCP connections and the state; the transport and
  the UDP context are given back in \<open>Connect\<close>, where the whole of it is put together.
\<close>

definition close_links :: "tun_t \<Rightarrow> tun_t" where
  "close_links t =
     (if state_down (tc t) then t
      else let t = join_thread (t\<lparr>tc := (tc t)\<lparr>cstate := STATE_DISCONNECTING\<rparr>\<rparr>);
               t = softether_close_additional (t\<lparr>tc := close_primary (tc t)\<rparr>);
               c = destroy_primary (tc t)
           in t\<lparr>using_nat_t := False,
                tc := c\<lparr>conn_rudp := None, conn_rudp_enabled := False, cstate := STATE_DISCONNECTED\<rparr>\<rparr>)"

definition softether_get_num_connections :: "tun_t \<Rightarrow> int" where
  "softether_get_num_connections t = (if socket_fd (tc t) \<ge> 0 then 1 else 0) + num_additional (tc t)"

definition softether_get_active_socket_fds :: "nat \<Rightarrow> tun_t \<Rightarrow> int list" where
  "softether_get_active_socket_fds max_fds t =
     take max_fds ((if socket_fd (tc t) \<ge> 0 then [socket_fd (tc t)] else []) @ active_fds (additional (tc t)))"

section \<open>What the exchanges leave alone\<close>

definition same_links :: "conn_t \<Rightarrow> conn_t \<Rightarrow> bool" where
  "same_links c' c \<longleftrightarrow> additional c' = additional c \<and> num_additional c' = num_additional c \<and>
     recv_queue c' = recv_queue c \<and> destroyed c' = destroyed c \<and> conn_ssl_ctx c' = conn_ssl_ctx c \<and>
     closed_fds c' = closed_fds c \<and> cstate c' = cstate c \<and> conn_ssl c' = conn_ssl c \<and>
     socket_fd c' = socket_fd c \<and> primary_direction c' = primary_direction c"

lemma same_links_refl [simp]: "same_links c c"
  by (simp add: same_links_def)

lemma same_links_trans: "same_links a b \<Longrightarrow> same_links b c \<Longrightarrow> same_links a c"
  by (simp add: same_links_def)

lemma same_links_inv: "same_links c' c \<Longrightarrow> conn_inv c' \<longleftrightarrow> conn_inv c"
  by (rule conn_inv_cong) (simp_all add: same_links_def)

lemma same_links_rx [simp]: "same_links (set_rx fd s c) c"
  by (simp add: same_links_def set_rx_def)

lemma same_links_write: "write_once fd bs c = (r, c') \<Longrightarrow> same_links c' c"
  by (auto simp: write_once_def same_links_def split: prod.splits)

lemma same_links_read: "read_response b fd c = (r, c') \<Longrightarrow> same_links c' c"
  by (auto simp: read_response_def split: prod.splits)

lemma same_links_signature: "link_signature env d ip fd c = (r, c') \<Longrightarrow> same_links c' c"
  by (auto simp: link_signature_def split: if_splits outcome.splits prod.splits
      dest!: same_links_write same_links_read intro: same_links_trans)

lemma same_links_auth: "link_auth env d ip k fd c = (r, c') \<Longrightarrow> same_links c' c"
  by (auto simp: link_auth_def split: if_splits outcome.splits prod.splits
      dest!: same_links_write same_links_read intro: same_links_trans)

section \<open>Nothing leaks\<close>

text \<open>A context that \<^verbatim>\<open>ssl_create_client\<close> returns is neither in use nor was it destroyed before.\<close>

definition fresh_ctx :: "nat \<Rightarrow> conn_t \<Rightarrow> bool" where
  "fresh_ctx x c \<longleftrightarrow> x \<notin> set (destroyed c) \<and> conn_ssl_ctx c \<noteq> Some x \<and>
     list_all (\<lambda>ts. ts_ctx ts \<noteq> Some x) (additional c)"

lemma active_count_on:
  assumes "i < length ts" "\<not> ts_active (ts ! i)" "ts_active s"
  shows "int (active_count (ts[i := s])) = int (active_count ts) + 1"
  using active_count_off [of i "ts[i := s]" "ts ! i"] assms by simp

lemma conn_inv_adopt:
  assumes inv: "conn_inv c" and i: "i < 8" and off: "\<not> ts_active (additional c ! i)" and x: "fresh_ctx x c"
    and s: "ts_ctx s = Some x" "ts_active s"
    and c': "additional c' = (additional c)[i := s]" "num_additional c' = num_additional c + 1"
      "recv_queue c' = recv_queue c" "destroyed c' = destroyed c" "conn_ssl_ctx c' = conn_ssl_ctx c"
      "conn_ssl c' = conn_ssl c"
  shows "conn_inv c'"
proof -
  have len: "length (additional c) = 8" using inv by (simp add: conn_inv_def)
  have own: "ctx_owned c" using inv by (simp add: conn_inv_def)
  have nth: "additional c' ! j = (if j = i then s else additional c ! j)" if "j < 8" for j
    using that c'(1) len by simp
  have fx: "x \<notin> set (destroyed c)" "conn_ssl_ctx c \<noteq> Some x" "ts_ctx (additional c ! j) \<noteq> Some x" if "j < 8" for j
    using x that len by (auto simp: fresh_ctx_def list_all_length)
  note o = ctx_ownedD [OF own]
  have old: "j \<noteq> i \<and> ts_ctx (additional c ! j) = Some y \<and> y \<noteq> x \<or> j = i \<and> y = x"
    if "j < 8" "ts_ctx (additional c' ! j) = Some y" for j y
    using that nth [of j] s(1) fx(3) by (auto split: if_splits)
  have "ctx_owned c'"
  proof (rule ctx_ownedI)
    show "distinct (destroyed c')" using o(1) c'(4) by simp
  next
    fix j y assume j: "j < 8" and y: "ts_ctx (additional c' ! j) = Some y"
    show "ts_active (additional c' ! j) \<and> y \<notin> set (destroyed c') \<and> conn_ssl_ctx c' \<noteq> Some y"
      using old [OF j y] nth [OF j] o(2,3,4) [OF j, of y] fx(1,2) [OF i] s(2) c'(4,5) by auto
  next
    fix j k y assume "j < 8" "k < 8" "ts_ctx (additional c' ! j) = Some y" "ts_ctx (additional c' ! k) = Some y"
    then show "k = j" using old [of j y] old [of k y] o(5) [of j k y] by blast
  next
    fix y assume "conn_ssl_ctx c' = Some y"
    then show "y \<notin> set (destroyed c')" using o(6) c'(4,5) by simp
  qed
  moreover have "int (active_count (additional c')) = int (active_count (additional c)) + 1"
    using active_count_on [of i "additional c" s] c'(1) i len off s(2) by simp
  ultimately show ?thesis using inv c' len by (simp add: conn_inv_def)
qed

lemma conn_inv_destroyed:
  assumes "conn_inv c" "fresh_ctx x c"
  shows "conn_inv (close_fd fd (c\<lparr>destroyed := destroyed c @ [x]\<rparr>))"
proof -
  let ?c = "close_fd fd (c\<lparr>destroyed := destroyed c @ [x]\<rparr>)"
  have eq: "additional ?c = additional c" "destroyed ?c = destroyed c @ [x]" "conn_ssl_ctx ?c = conn_ssl_ctx c"
    "num_additional ?c = num_additional c" "recv_queue ?c = recv_queue c" "conn_ssl ?c = conn_ssl c"
    by (simp_all add: close_fd_def)
  have "ts_ctx (additional c ! j) \<noteq> Some x" if "j < 8" for j
    using assms that by (auto simp: fresh_ctx_def list_all_length conn_inv_def)
  moreover have x: "x \<notin> set (destroyed c)" "conn_ssl_ctx c \<noteq> Some x" "ctx_owned c"
    using assms by (simp_all add: fresh_ctx_def conn_inv_def)
  note o = ctx_ownedD [OF x(3)]
  ultimately have "ctx_owned ?c"
    using x o(1-4,6) by (intro ctx_ownedI) (auto simp: eq intro: o(5))
  then show ?thesis using assms(1) unfolding conn_inv_def eq by simp
qed

lemma free_slot_SomeD: "free_slot c = Some i \<Longrightarrow> i < 8 \<and> \<not> ts_active (additional c ! i)"
  by (auto simp: free_slot_def find_Some_iff MAX_SE_CONNECTIONS_def)

lemma link_handshake_cases:
  assumes "link_handshake env d slot fd x t = Ret (r, t')"
  obtains c where "same_links c (tc t)" "drop_link fd x (t\<lparr>tc := c\<rparr>) = (r, t')"
  | c dir where "same_links c (tc t)" "adopt_link env slot fd x dir (t\<lparr>tc := c\<rparr>) = (r, t')"
proof -
  obtain o1 c1 where s: "link_signature env d (conn_server_ip t) fd (tc t) = (o1, c1)" by fastforce
  note c1 = same_links_signature [OF s]
  obtain o2 c2 where a: "link_auth env d (conn_server_ip t) (conn_session_key t) fd c1 = (o2, c2)" by fastforce
  have c2: "same_links c2 (tc t)" using same_links_auth [OF a] c1 by (rule same_links_trans)
  show ?thesis
    using assms s a that(1) [OF c1] that(1,2) [OF c2]
    by (auto simp: link_handshake_def split: outcome.splits option.splits)
qed

lemma drop_link_facts:
  assumes "drop_link fd x (t\<lparr>tc := c\<rparr>) = (r, t')" "same_links c (tc t)"
  shows "r = -1" "additional (tc t') = additional (tc t)" "num_additional (tc t') = num_additional (tc t)"
    "closed_fds (tc t') = closed_fds (tc t) @ [fd]" "destroyed (tc t') = destroyed (tc t) @ [x]"
    "additional_failed_count t' = additional_failed_count t + 1"
    "tc t' = close_fd fd (c\<lparr>destroyed := destroyed c @ [x]\<rparr>)"
  using assms by (auto simp: drop_link_def link_failed_def close_fd_def same_links_def Let_def)

lemma adopt_link_facts:
  assumes "adopt_link env i fd x dir (t\<lparr>tc := c\<rparr>) = (r, t')" "same_links c (tc t)"
  shows "r = 0" "additional (tc t') = (additional (tc t))[i := \<lparr>ts_fd = fd, ts_ctx = Some x, ts_ssl = Some x,
      ts_dir = unat dir, ts_last_recv = tick_ms (cenv env) (cclk_i c), ts_late = 0, ts_active = True\<rparr>]"
    "num_additional (tc t') = num_additional (tc t) + 1"
    "closed_fds (tc t') = closed_fds (tc t)" "destroyed (tc t') = destroyed (tc t)"
    "conn_ssl_ctx (tc t') = conn_ssl_ctx (tc t)" "recv_queue (tc t') = recv_queue (tc t)"
    "conn_ssl (tc t') = conn_ssl (tc t)" "additional_failed_count t' = 0"
  using assms by (auto simp: adopt_link_def tick_now_def same_links_def Let_def)

lemma additional_connect_ok:
  assumes inv: "conn_inv (tc t)"
    and fresh: "\<forall>x \<in> set_option (d_ctx (dials env (dial_i t))). fresh_ctx x (tc t)"
    and st: "cstate (tc t) = STATE_CONNECTED" "free_slot (tc t) = Some i"
    and r: "softether_additional_connect env t = Ret (r, t')"
  shows "conn_inv (tc t') \<and>
     (if r = 0 then
        d_fd (dials env (dial_i t)) = Some (ts_fd (additional (tc t') ! i)) \<and>
        d_ctx (dials env (dial_i t)) = ts_ctx (additional (tc t') ! i) \<and> ts_active (additional (tc t') ! i) \<and>
        num_additional (tc t') = num_additional (tc t) + 1 \<and>
        closed_fds (tc t') = closed_fds (tc t) \<and> destroyed (tc t') = destroyed (tc t) \<and>
        additional_failed_count t' = 0
      else r = -1 \<and> additional (tc t') = additional (tc t) \<and> num_additional (tc t') = num_additional (tc t) \<and>
        closed_fds (tc t') = closed_fds (tc t) @
          (case d_fd (dials env (dial_i t)) of None \<Rightarrow> [] | Some fd \<Rightarrow> [fd]) \<and>
        destroyed (tc t') = destroyed (tc t) @ (case d_fd (dials env (dial_i t)) of None \<Rightarrow> [] | Some _ \<Rightarrow>
          (case d_ctx (dials env (dial_i t)) of None \<Rightarrow> [] | Some x \<Rightarrow> [x])) \<and>
        additional_failed_count t' = additional_failed_count t + 1)"
proof -
  let ?d = "dials env (dial_i t)" and ?t = "t\<lparr>dial_i := dial_i t + 1\<rparr>"
  have i: "i < 8" "\<not> ts_active (additional (tc t) ! i)" "length (additional (tc t)) = 8"
    using free_slot_SomeD [OF st(2)] inv by (simp_all add: conn_inv_def)
  have cl: "conn_inv (c\<lparr>closed_fds := k\<rparr>) = conn_inv c" for k c
    by (rule conn_inv_cong) simp_all
  have drop: ?thesis if "drop_link fd x (?t\<lparr>tc := c\<rparr>) = (r, t')" "same_links c (tc t)"
    "d_fd ?d = Some fd" "d_ctx ?d = Some x" for fd x c
  proof -
    have "conn_inv c" "fresh_ctx x c"
      using inv fresh that(4) same_links_inv [OF that(2)] that(2) by (auto simp: fresh_ctx_def same_links_def)
    then show ?thesis
      using drop_link_facts [OF that(1), simplified, OF that(2)] that(3,4) by (simp add: conn_inv_destroyed)
  qed
  have adopt: ?thesis if a: "adopt_link env i fd x dir (?t\<lparr>tc := c\<rparr>) = (r, t')" and "same_links c (tc t)"
    "d_fd ?d = Some fd" "d_ctx ?d = Some x" for fd x c dir
  proof -
    note f = adopt_link_facts [OF a, simplified, OF that(2)]
    have "fresh_ctx x (tc t)" using fresh that(4) by simp
    then have "conn_inv (tc t')" by (rule conn_inv_adopt [OF inv i(1,2)]) (simp_all add: f)
    then show ?thesis using f that(3,4) i(1,3) by simp
  qed
  show ?thesis
  proof (cases "d_fd ?d")
    case None
    then show ?thesis using r st inv by (auto simp: softether_additional_connect_def link_failed_def Let_def)
  next
    case fd: (Some fd)
    show ?thesis
    proof (cases "d_ctx ?d")
      case None
      then show ?thesis using r st inv fd cl
        by (auto simp: softether_additional_connect_def link_failed_def Let_def close_fd_def)
    next
      case x: (Some x)
      show ?thesis
      proof (cases "d_tls ?d")
        case False
        then show ?thesis using r st fd x drop [of fd x "tc t"]
          by (auto simp: softether_additional_connect_def Let_def)
      next
        case True
        then have h: "link_handshake env ?d i fd x ?t = Ret (r, t')"
          using r st fd x by (simp add: softether_additional_connect_def Let_def)
        show ?thesis by (rule link_handshake_cases [OF h]) (use drop adopt fd x in auto)
      qed
    qed
  qed
qed

text \<open>
  When an attempt runs into undefined behaviour: the host name does not fit the first
  request, the header of the second does not fit its array, or the server has sent, in one
  of its two responses, a length whose sum with the header is no \<^verbatim>\<open>int\<close>, or a first header
  block behind which the array holds no terminator.
\<close>

definition response_undefined :: "bytes option \<Rightarrow> instream \<Rightarrow> bool" where
  "response_undefined behind s = (case fst (read_headers 4095 [] s) of
     None \<Rightarrow> False
   | Some h \<Rightarrow> (let txt = (case behind of None \<Rightarrow> h @ [0] | Some j \<Rightarrow> h @ take (4096 - length h) j) in
       0 \<notin> set txt \<or> 2 ^ 31 \<le> int (length h) + as_int (content_length_of txt)))"

definition attempt_undefined :: "tun_env \<Rightarrow> dial \<Rightarrow> int \<Rightarrow> tun_t \<Rightarrow> bool" where
  "attempt_undefined env d fd t \<longleftrightarrow> (let s = rxs (tc t) fd in
     watermark_request (conn_server_ip t) = Fault \<or>
     additional_request (cheap (cenv env)) (d_date d) (conn_server_ip t) (conn_session_key t) = Fault \<or>
     response_undefined (Some (d_junk d)) s \<or>
     response_undefined None (snd (read_small_response (Some (d_junk d)) s)))"

lemma read_small_response_Fault:
  assumes "read_small_response behind s = (Fault, s')"
  shows "response_undefined behind s"
  using assms
  by (auto simp: read_small_response_def response_undefined_def length_overflows_def Let_def
      split: prod.splits option.splits if_splits)

lemma write_once_rxs: "write_once fd bs c = (ok, c') \<Longrightarrow> rxs c' = rxs c"
  by (auto simp: write_once_def split: prod.splits)

lemma link_handshake_Fault:
  assumes "link_handshake env d slot fd x t = Fault"
  shows "attempt_undefined env d fd t"
proof (rule ccontr)
  let ?s = "rxs (tc t) fd" and ?ip = "conn_server_ip t" and ?k = "conn_session_key t"
  assume u: "\<not> attempt_undefined env d fd t"
  have r1: "read_small_response (Some (d_junk d)) ?s \<noteq> (Fault, y)" for y
    using u read_small_response_Fault by (auto simp: attempt_undefined_def Let_def)
  have r2: "read_small_response None (snd (read_small_response (Some (d_junk d)) ?s)) \<noteq> (Fault, y)" for y
    using u read_small_response_Fault by (auto simp: attempt_undefined_def Let_def)
  obtain o1 c1 where s: "link_signature env d ?ip fd (tc t) = (o1, c1)" by fastforce
  have o1: "o1 \<noteq> Fault" "o1 = Ret b \<Longrightarrow> rxs c1 fd = snd (read_small_response (Some (d_junk d)) ?s)" for b
    using s u r1
    by (auto simp: link_signature_def read_response_def set_rx_def attempt_undefined_def Let_def
        split: if_splits outcome.splits prod.splits dest!: write_once_rxs)
  obtain o2 c2 where a: "link_auth env d ?ip ?k fd c1 = (o2, c2)" by fastforce
  have "o2 \<noteq> Fault" if "o1 = Ret b" for b
    using a u r2 o1(2) [OF that]
    by (auto simp: link_auth_def read_response_def attempt_undefined_def Let_def
        split: if_splits outcome.splits prod.splits dest!: write_once_rxs)
  with o1(1) s a assms show False
    by (auto simp: link_handshake_def split: outcome.splits option.splits)
qed

lemma additional_connect_undefined:
  assumes "softether_additional_connect env t = Fault"
  shows "\<exists>fd. d_fd (dials env (dial_i t)) = Some fd \<and> attempt_undefined env (dials env (dial_i t)) fd t"
  using assms link_handshake_Fault [of env "dials env (dial_i t)" _ _ _ "t\<lparr>dial_i := dial_i t + 1\<rparr>"]
  by (auto simp: softether_additional_connect_def attempt_undefined_def Let_def split: if_splits option.splits)

lemma additional_connect_no_Fail: "softether_additional_connect env t \<noteq> Fail"
  by (auto simp: softether_additional_connect_def link_handshake_def Let_def
      split: if_splits option.splits outcome.splits prod.splits)

text \<open>
  C24: opening an additional connection neither leaks nor frees twice. The attempt returns,
  unless it runs into undefined behaviour, for one of the reasons \<open>attempt_undefined\<close> lists (two
  of which a server can bring about). When it returns, wherever it failed, a failure has
  left the slots as they were, closed the socket it opened exactly once, destroyed the TLS
  context it created exactly once and counted one failure; a success has put both into the
  first free slot and reset the count. The ownership invariant holds then in every case.
\<close>

theorem additional_connect_accounting:
  assumes inv: "conn_inv (tc t)"
    and fresh: "\<forall>x \<in> set_option (d_ctx (dials env (dial_i t))). fresh_ctx x (tc t)"
    and st: "cstate (tc t) = STATE_CONNECTED" "free_slot (tc t) = Some i"
  shows "case softether_additional_connect env t of
     Ret (r, t') \<Rightarrow> conn_inv (tc t') \<and>
       (if r = 0 then
          d_fd (dials env (dial_i t)) = Some (ts_fd (additional (tc t') ! i)) \<and>
          d_ctx (dials env (dial_i t)) = ts_ctx (additional (tc t') ! i) \<and> ts_active (additional (tc t') ! i) \<and>
          num_additional (tc t') = num_additional (tc t) + 1 \<and>
          closed_fds (tc t') = closed_fds (tc t) \<and> destroyed (tc t') = destroyed (tc t) \<and>
          additional_failed_count t' = 0
        else r = -1 \<and> additional (tc t') = additional (tc t) \<and> num_additional (tc t') = num_additional (tc t) \<and>
          closed_fds (tc t') = closed_fds (tc t) @
            (case d_fd (dials env (dial_i t)) of None \<Rightarrow> [] | Some fd \<Rightarrow> [fd]) \<and>
          destroyed (tc t') = destroyed (tc t) @ (case d_fd (dials env (dial_i t)) of None \<Rightarrow> [] | Some _ \<Rightarrow>
            (case d_ctx (dials env (dial_i t)) of None \<Rightarrow> [] | Some x \<Rightarrow> [x])) \<and>
          additional_failed_count t' = additional_failed_count t + 1)
   | Fail \<Rightarrow> False
   | Fault \<Rightarrow> \<exists>fd. d_fd (dials env (dial_i t)) = Some fd \<and> attempt_undefined env (dials env (dial_i t)) fd t"
proof (cases "softether_additional_connect env t")
  case (Ret rt)
  obtain r t' where "rt = (r, t')" by fastforce
  with Ret additional_connect_ok [OF assms, of r t'] show ?thesis by simp
next
  case Fail
  then show ?thesis using additional_connect_no_Fail by simp
next
  case Fault
  then show ?thesis using additional_connect_undefined by simp
qed

section \<open>What a server decides\<close>

lemma read_small_response_exact:
  assumes "http_head h" "avail s = h @ b @ r" "length h + length b < 4096"
    and "txt = (case behind of None \<Rightarrow> h @ [0] | Some j \<Rightarrow> h @ take (4096 - length h) j)"
    and "0 \<in> set txt" "content_length_of txt = word_of_nat (length b)"
  shows "\<exists>s'. read_small_response behind s = (Ret b, s') \<and> avail s' = r"
proof -
  have ne: "h \<noteq> []" using assms(1) by (auto simp: http_head_def ends_crlf2_def)
  obtain s1 where s1: "read_headers 4095 [] s = (Some h, s1)" "avail s1 = b @ r"
    using read_headers_exact [of "[]" h s "b @ r" 4095] assms(1-3) ne by fastforce
  obtain s2 where s2: "read_all (length b) s1 = (Some b, s2)" "avail s2 = r"
    using read_all_ok [OF s1(2) refl] by blast
  let ?cl = "word_of_nat (length b) :: u32"
  have len: "length b < 2 ^ 31" using assms(3) by simp
  have un: "unat ?cl = length b" using len by (intro unat_len32) simp
  have si: "as_int ?cl = int (length b)"
    unfolding as_int_def using len by (simp add: signed_of_nat signed_take_bit_int_eq_self)
  have zero: "(?cl > 0) = (b \<noteq> [])"
    by (simp only: word_less_nat_alt un unat_0) simp
  have "read_small_response behind s = (if ?cl > 0 \<and> length_overflows h ?cl then (Fault, s1)
         else if ?cl > 0 \<and> int (length h) + as_int ?cl < 4096 then
           if as_int ?cl < 0 then (Fail, s1)
           else (case read_all (unat ?cl) s1 of (None, s) \<Rightarrow> (Fail, s) | (Some b, s) \<Rightarrow> (Ret b, s))
         else (Ret [], s1))"
    unfolding read_small_response_def s1(1) using assms(4-6) by (simp only: prod.case option.case Let_def) simp
  also have "\<dots> = (if b = [] then (Ret [], s1) else (Ret b, s2))"
    using zero un si s2(1) assms(3) by (simp add: length_overflows_def)
  finally show ?thesis using s1(2) s2(2) by auto
qed

lemma additional_pack_exact:
  assumes "\<forall>n. can_alloc h n" "length key = 20"
  shows "additional_pack h key = Ret (ser_pack [(lit ''method'', VStr (lit ''additional_connect'')),
     (lit ''session_key'', VData key)])"
proof -
  let ?cs = "additional_calls key"
  let ?es = "[(lit ''method'', VStr (lit ''additional_connect'')), (lit ''session_key'', VData key)]"
  have ce: "call_elems ?cs = ?es" using assms(2) by (simp add: call_elems_def additional_calls_def)
  have "\<forall>c \<in> set ?cs. call_ok c \<and> elem_ok (call_elem c)"
    using assms(2) by (simp add: additional_calls_def elem_ok_def ser_elem_def lit_def)
  from writes_comp [OF writes_uint32 proto_pack_calls_writes [OF this], of 2]
  have w: "writes (\<lambda>c. pack_write_uint32 2 c \<bind> proto_pack_calls ?cs) (ser_pack ?es)"
    by (simp add: ce ser_pack_def)
  let ?n = "4 + PACK_STR_SZ (lit ''method'') (lit ''additional_connect'') + PACK_DATA_SZ (lit ''session_key'') 20 + 64"
  have "length (ser_pack ?es) \<le> ?n"
    using assms(2) by (simp add: ser_pack_def ser_elems_def ser_elem_def pack_sizes lit_def)
  then show ?thesis
    using assms(1) writesD [OF w, of 0 "replicate ?n 0"]
    by (simp add: additional_pack_def calloc_def)
qed

lemma additional_request_ok:
  assumes "\<forall>n. can_alloc h n" "length key = 20" "length date \<le> 63" "length ip \<le> 63"
  shows "\<exists>req. additional_request h date ip key = Ret req \<and> req \<noteq> []"
proof -
  let ?p = "ser_pack [(lit ''method'', VStr (lit ''additional_connect'')), (lit ''session_key'', VData key)]"
  have p: "length ?p = 91" using assms(2) by (simp add: ser_pack_def ser_elems_def ser_elem_def lit_def)
  have "length (vpn_cgi_head date ip (length ?p)) \<le> 511"
    unfolding p vpn_cgi_head_def using assms(3,4) by (simp add: lit_def decimal.simps)
  then show ?thesis
    using assms(1) additional_pack_exact [OF assms(1,2)]
    by (simp add: additional_request_def read_at_def Let_def vpn_cgi_head_def)
qed

lemma write_once_ok:
  "bs \<noteq> [] \<Longrightarrow> 0 < wroom (txs c fd) \<Longrightarrow>
   \<exists>c'. write_once fd bs c = (True, c') \<and> rxs c' = rxs c \<and> wroom (txs c fd) - length bs \<le> wroom (txs c' fd) \<and>
     cclk_i c' = cclk_i c"
  by (auto simp: write_once_def sock_write_def Let_def)

lemma additional_connect_stream:
  assumes st: "cstate (tc t) = STATE_CONNECTED" "free_slot (tc t) = Some i" "length (additional (tc t)) = 8"
    and d: "dials env (dial_i t) = \<lparr>d_fd = Some fd, d_ctx = Some x, d_tls = True, d_date = date, d_junk = j\<rparr>"
    and args: "\<forall>n. can_alloc (cheap (cenv env)) n" "length (conn_session_key t) = 20" "length date \<le> 63"
      "length (conn_server_ip t) \<le> 63" "1024 \<le> wroom (txs (tc t) fd)"
    and stream: "avail (rxs (tc t) fd) = h1 @ b1 @ h2 @ b2 @ r" "http_head h1" "http_head h2"
    and hello: "length h1 + length b1 < 4096" "0 \<in> set (h1 @ take (4096 - length h1) j)"
      "content_length_of (h1 @ take (4096 - length h1) j) = word_of_nat (length b1)"
    and auth: "length h2 + length b2 < 4096" "content_length_of (h2 @ [0]) = word_of_nat (length b2)"
  shows "\<exists>t'. softether_additional_connect env t = Ret (if link_verdict b2 = None then -1 else 0, t') \<and>
     (\<forall>dir. link_verdict b2 = Some dir \<longrightarrow>
        ts_active (additional (tc t') ! i) \<and> ts_dir (additional (tc t') ! i) = unat dir \<and>
        avail (rxs (tc t') fd) = r)"
proof -
  let ?d = "dials env (dial_i t)" and ?t = "t\<lparr>dial_i := dial_i t + 1\<rparr>"
  have i: "i < 8" using free_slot_SomeD [OF st(2)] by simp
  have w1: "watermark_request (conn_server_ip t) = Ret (vpnconnect_head (conn_server_ip t) @ lit ''VPNCONNECT'')"
    and l1: "length (vpnconnect_head (conn_server_ip t) @ lit ''VPNCONNECT'') \<le> 188"
    using args(4) by (simp_all add: watermark_request_def vpnconnect_head_def lit_def Let_def read_at_def)
  have rm: "0 < wroom (txs (tc t) fd)" using args(5) by simp
  obtain c1 where c1: "write_once fd (vpnconnect_head (conn_server_ip t) @ lit ''VPNCONNECT'') (tc t) = (True, c1)"
    "rxs c1 = rxs (tc t)" "836 \<le> wroom (txs c1 fd)"
    using write_once_ok [OF _ rm, of "vpnconnect_head (conn_server_ip t) @ lit ''VPNCONNECT''"] l1 args(5)
    by (fastforce simp: lit_def)
  obtain s1 where s1: "read_small_response (Some j) (rxs c1 fd) = (Ret b1, s1)" "avail s1 = h2 @ b2 @ r"
    using read_small_response_exact [of h1 "rxs c1 fd" b1 "h2 @ b2 @ r" _ "Some j", OF stream(2) _ hello(1) refl]
      c1(2) stream(1) hello(2,3) by auto
  have sig: "link_signature env ?d (conn_server_ip t) fd (tc t) = (Ret b1, set_rx fd s1 c1)"
    using args(1) w1 c1(1) s1(1) d by (simp add: link_signature_def read_response_def)
  obtain req where req: "additional_request (cheap (cenv env)) date (conn_server_ip t) (conn_session_key t) = Ret req" "req \<noteq> []"
    using additional_request_ok [OF args(1-4)] by blast
  have "0 < wroom (txs (set_rx fd s1 c1) fd)" using c1(3) by (simp add: set_rx_def)
  from write_once_ok [OF req(2) this] obtain c2 where c2: "write_once fd req (set_rx fd s1 c1) = (True, c2)"
    "rxs c2 = rxs (set_rx fd s1 c1)" by blast
  obtain s2 where s2: "read_small_response None (rxs c2 fd) = (Ret b2, s2)" "avail s2 = r"
    using read_small_response_exact [of h2 "rxs c2 fd" b2 r _ None, OF stream(3) _ auth(1) refl]
      c2(2) s1(2) auth(2) by auto
  have au: "link_auth env ?d (conn_server_ip t) (conn_session_key t) fd (set_rx fd s1 c1) = (Ret b2, set_rx fd s2 c2)"
    using req c2(1) s2(1) d by (simp add: link_auth_def read_response_def)
  have len: "length (additional c2) = 8"
    using same_links_write [OF c2(1)] same_links_write [OF c1(1)] st(3) by (simp add: same_links_def)
  have h: "softether_additional_connect env t = link_handshake env ?d i fd x ?t"
    using st d by (simp add: softether_additional_connect_def Let_def)
  show ?thesis
    unfolding h link_handshake_def
    using sig au s2(2) i len
    by (cases "link_verdict b2") (auto simp: drop_link_def link_failed_def adopt_link_def tick_now_def Let_def set_rx_def)
qed

text \<open>
  The handshake of an additional connection. When both responses arrive complete, with
  correct lengths and within the 4096-byte arrays, the server's second answer alone decides:
  on a refusal the attempt fails, otherwise the connection is adopted with the direction the
  server names, and its stream stands exactly behind the answer, where the first block
  begins.
\<close>

theorem additional_connect_decision:
  assumes st: "cstate (tc t) = STATE_CONNECTED" "free_slot (tc t) = Some i" "length (additional (tc t)) = 8"
    and d: "dials env (dial_i t) = \<lparr>d_fd = Some fd, d_ctx = Some x, d_tls = True, d_date = date, d_junk = j\<rparr>"
    and args: "\<forall>n. can_alloc (cheap (cenv env)) n" "length (conn_session_key t) = 20" "length date \<le> 63"
      "length (conn_server_ip t) \<le> 63" "1024 \<le> wroom (txs (tc t) fd)"
    and stream: "avail (rxs (tc t) fd) = h1 @ b1 @ h2 @ b2 @ r" "http_head h1" "http_head h2"
    and hello: "length h1 + length b1 < 4096" "0 \<in> set (h1 @ take (4096 - length h1) j)"
      "content_length_of (h1 @ take (4096 - length h1) j) = word_of_nat (length b1)"
    and auth: "length h2 + length b2 < 4096" "content_length_of (h2 @ [0]) = word_of_nat (length b2)"
  shows "\<exists>t'. softether_additional_connect env t = Ret (if link_verdict b2 = None then -1 else 0, t') \<and>
     (\<forall>dir. link_verdict b2 = Some dir \<longrightarrow>
        ts_active (additional (tc t') ! i) \<and> ts_dir (additional (tc t') ! i) = unat dir \<and>
        avail (rxs (tc t') fd) = r)"
  by (rule additional_connect_stream [OF assms])

definition tun0 :: tun_t where
  "tun0 = \<lparr>tc = conn0, conn_server_ip = lit ''10.0.0.1'', conn_session_key = replicate 20 7,
     client_mac = [0x5E, 1, 2, 3, 4, 5], gateway_mac = [2, 0, 0, 0, 0, 1], gateway_mac_resolved = True,
     gateway_ip = 0x0A000001, assigned_ip = 0x0A000002, max_connection = 4, next_connect_time = 0,
     additional_failed_count = 0, additional_connecting = False, additional_connect_slot = -1,
     additional_connect_result = -1, using_nat_t = False, stats_tx_packets = 0,
     stats_tx_bytes = 0, stats_rx_packets = 0, stats_rx_bytes = 0, dial_i = 0, lpoll_i = 0, thread_i = 0\<rparr>"

definition tenv0 :: tun_env where
  "tenv0 = \<lparr>cenv = conn_env0, zbound = (\<lambda>n. n + 100),
     dials = (\<lambda>_. \<lparr>d_fd = Some 9, d_ctx = Some 5, d_tls = False, d_date = [], d_junk = [0]\<rparr>),
     link_polls = (\<lambda>_. None), thread_starts = (\<lambda>_. True)\<rparr>"

lemma conn_inv_conn0: "conn_inv conn0"
proof -
  have t: "ts_ctx (additional conn0 ! i) = None" if "i < 8" for i
    using that by (simp add: conn0_def tcp0_def)
  have "ctx_owned conn0" by (rule ctx_ownedI) (use t in \<open>auto simp: conn0_def\<close>)
  then show ?thesis by (simp add: conn_inv_def conn0_def active_count_def tcp0_def ring_inv_new)
qed

definition tenv1 :: tun_env where
  "tenv1 = tenv0\<lparr>dials := (\<lambda>_. \<lparr>d_fd = Some 9, d_ctx = Some 5, d_tls = True, d_date = [], d_junk = [0]\<rparr>)\<rparr>"

text \<open>A server that answers the second request with an error status and no body.\<close>

definition refusing :: bytes where
  "refusing = lit ''Content-Length: 1'' @ CRLF2 @ [7] @ lit ''HTTP/1.1 403'' @ CRLF2 @ [] @ [1, 2]"

lemma free_slot_conn0: "free_slot conn0 = Some 0"
  by (simp add: free_slot_def conn0_def tcp0_def MAX_SE_CONNECTIONS_def upt_8)

definition tun1 :: tun_t where
  "tun1 = tun0\<lparr>tc := conn0\<lparr>rxs := (\<lambda>_. \<lparr>avail = refusing, chunk = (\<lambda>n. n), calls = 0\<rparr>),
     txs := (\<lambda>_. \<lparr>written = [], wroom = 2000, wchunk = (\<lambda>n. n), wcalls = 0\<rparr>)\<rparr>\<rparr>"

lemma refusing_parts:
  "avail (rxs (tc tun1) fd) = (lit ''Content-Length: 1'' @ CRLF2) @ [7] @ (lit ''HTTP/1.1 403'' @ CRLF2) @ [] @ [1, 2]"
  "http_head (lit ''Content-Length: 1'' @ CRLF2)" "http_head (lit ''HTTP/1.1 403'' @ CRLF2)"
  "content_length_of ((lit ''Content-Length: 1'' @ CRLF2) @ [0]) = 1"
  "content_length_of ((lit ''HTTP/1.1 403'' @ CRLF2) @ [0]) = 0"
  by (simp add: tun1_def refusing_def) code_simp+

lemma tun1_parts:
  "cstate (tc tun1) = STATE_CONNECTED" "free_slot (tc tun1) = Some 0" "length (additional (tc tun1)) = 8"
  "dials tenv1 (dial_i tun1) = \<lparr>d_fd = Some 9, d_ctx = Some 5, d_tls = True, d_date = [], d_junk = [0]\<rparr>"
  "\<forall>n. can_alloc (cheap (cenv tenv1)) n" "length (conn_session_key tun1) = 20" "length ([] :: bytes) \<le> 63"
  "length (conn_server_ip tun1) \<le> 63" "1024 \<le> wroom (txs (tc tun1) 9)"
  using free_slot_conn0
  by (simp_all add: tun1_def tun0_def conn0_def tenv1_def tenv0_def conn_env0_def lit_def free_slot_def)

lemma tun1_answers:
  "length (lit ''Content-Length: 1'' @ CRLF2) + length [7 :: byte] < 4096"
  "0 \<in> set ((lit ''Content-Length: 1'' @ CRLF2) @ take (4096 - length (lit ''Content-Length: 1'' @ CRLF2)) [0])"
  "content_length_of ((lit ''Content-Length: 1'' @ CRLF2) @ take (4096 - length (lit ''Content-Length: 1'' @ CRLF2)) [0])
     = word_of_nat (length [7 :: byte])"
  "length (lit ''HTTP/1.1 403'' @ CRLF2) + length ([] :: bytes) < 4096"
  "content_length_of ((lit ''HTTP/1.1 403'' @ CRLF2) @ [0]) = word_of_nat (length ([] :: bytes))"
proof -
  have tk: "take (4096 - length (lit ''Content-Length: 1'' @ CRLF2)) [0] = [0 :: byte]"
    by (simp add: lit_def CRLF2_def)
  show "content_length_of ((lit ''Content-Length: 1'' @ CRLF2) @ take (4096 - length (lit ''Content-Length: 1'' @ CRLF2)) [0])
     = word_of_nat (length [7 :: byte])"
    unfolding tk refusing_parts(4) by simp
  show "content_length_of ((lit ''HTTP/1.1 403'' @ CRLF2) @ [0]) = word_of_nat (length ([] :: bytes))"
    unfolding refusing_parts(5) by simp
qed (simp_all add: lit_def CRLF2_def)

theorem additional_connect_decision_witness:
  "\<exists>t'. softether_additional_connect tenv1 tun1 = Ret (0, t') \<and>
     ts_active (additional (tc t') ! 0) \<and> avail (rxs (tc t') 9) = [1, 2]"
  using additional_connect_decision [OF tun1_parts refusing_parts(1-3) tun1_answers] by (auto simp: link_verdict_def)

lemma tun1_adopted: "\<exists>t'. softether_additional_connect tenv1 tun1 = Ret (0, t')"
  using additional_connect_stream [OF tun1_parts refusing_parts(1-3) tun1_answers] by (auto simp: link_verdict_def)

theorem additional_connect_accounting_witness:
  "\<exists>t'. softether_additional_connect tenv0 tun0 = Ret (-1, t') \<and> closed_fds (tc t') = [9] \<and> destroyed (tc t') = [5]"
proof -
  have sl: "free_slot (tc tun0) = Some 0"
    by (simp add: free_slot_def tun0_def conn0_def tcp0_def MAX_SE_CONNECTIONS_def upt_8)
  obtain r t' where r: "softether_additional_connect tenv0 tun0 = Ret (r, t')" "r = -1"
    using sl by (simp add: softether_additional_connect_def tun0_def conn0_def tenv0_def drop_link_def link_failed_def Let_def)
  have "\<forall>x \<in> set_option (d_ctx (dials tenv0 (dial_i tun0))). fresh_ctx x (tc tun0)"
    by (simp add: tenv0_def tun0_def fresh_ctx_def conn0_def tcp0_def list_all_iff)
  from additional_connect_accounting [OF _ this _ sl] r show ?thesis
    using conn_inv_conn0 by (simp add: tun0_def tenv0_def conn0_def)
qed

section \<open>Disconnecting\<close>

lemma distinct_map_filter:
  "(\<And>i j x. i < length ss \<Longrightarrow> j < length ss \<Longrightarrow> f (ss ! i) = Some x \<Longrightarrow> f (ss ! j) = Some x \<Longrightarrow> j = i) \<Longrightarrow>
   distinct (List.map_filter f ss)"
proof (induction ss)
  case (Cons a ss)
  have d: "distinct (List.map_filter f ss)"
    using Cons.prems [of "Suc _" "Suc _"] by (intro Cons.IH) fastforce
  have "y \<notin> set (List.map_filter f ss)" if "f a = Some y" for y
  proof
    assume "y \<in> set (List.map_filter f ss)"
    then obtain j where "j < length ss" "f (ss ! j) = Some y"
      by (auto simp: List.map_filter_def in_set_conv_nth)
    with that Cons.prems [of 0 "Suc j" y] show False by simp
  qed
  with d show ?case by (auto simp: List.map_filter_def)
qed (simp add: List.map_filter_def)

lemma slot_ctxs_set: "set (slot_ctxs ss) = {x. \<exists>ts \<in> set ss. ts_ctx ts = Some x}"
  by (force simp: slot_ctxs_def List.map_filter_def)

lemma slot_ctxs_nth:
  "length ss = 8 \<Longrightarrow> x \<in> set (slot_ctxs ss) \<longleftrightarrow> (\<exists>i < 8. ts_ctx (ss ! i) = Some x)"
  unfolding slot_ctxs_set mem_Collect_eq by (metis in_set_conv_nth)

lemma slot_ctxs_marked [simp]: "slot_ctxs (map mark_inactive ss) = slot_ctxs ss"
  by (induction ss) (simp_all add: slot_ctxs_def List.map_filter_def mark_inactive_def)

lemma slot_ctxs_owned:
  assumes "conn_inv c"
  shows "distinct (destroyed c @ slot_ctxs (additional c))"
    and "conn_ssl_ctx c = Some x \<Longrightarrow> x \<notin> set (destroyed c @ slot_ctxs (additional c))"
proof -
  have len: "length (additional c) = 8" and own: "ctx_owned c" using assms by (simp_all add: conn_inv_def)
  note o = ctx_ownedD [OF own]
  have "distinct (slot_ctxs (additional c))"
    unfolding slot_ctxs_def by (rule distinct_map_filter) (use len o(5) in auto)
  moreover have "set (destroyed c) \<inter> set (slot_ctxs (additional c)) = {}"
    using o(3) slot_ctxs_nth [OF len] by blast
  ultimately show "distinct (destroyed c @ slot_ctxs (additional c))" using o(1) by simp
  show "conn_ssl_ctx c = Some x \<Longrightarrow> x \<notin> set (destroyed c @ slot_ctxs (additional c))"
    using o(4,6) slot_ctxs_nth [OF len] by auto
qed

lemma close_additional_facts:
  "\<not> (\<exists>ts \<in> set (additional (tc (softether_close_additional t))). ts_active ts \<or> ts_ctx ts \<noteq> None)"
  "length (additional (tc (softether_close_additional t))) = length (additional (tc t))"
  "closed_fds (tc (softether_close_additional t)) = closed_fds (tc t) @ active_fds (additional (tc t))"
  "destroyed (tc (softether_close_additional t)) = destroyed (tc t) @ slot_ctxs (additional (tc t))"
  "num_additional (tc (softether_close_additional t)) = 0"
  "conn_ssl (tc (softether_close_additional t)) = conn_ssl (tc t)"
  "conn_ssl_ctx (tc (softether_close_additional t)) = conn_ssl_ctx (tc t)"
  "socket_fd (tc (softether_close_additional t)) = socket_fd (tc t)"
  "recv_queue (tc (softether_close_additional t)) = recv_queue (tc t)"
  by (auto simp: softether_close_additional_def join_thread_def Let_def mark_inactive_def take_ssl_ctx_slot_def)

lemma no_ctx_owned:
  assumes "length (additional c) = 8" "\<not> (\<exists>ts \<in> set (additional c). ts_active ts \<or> ts_ctx ts \<noteq> None)"
    "distinct (destroyed c)" "conn_ssl_ctx c = None"
  shows "ctx_owned c"
proof -
  have "ts_ctx (additional c ! i) = None" if "i < 8" for i
    using assms(1,2) that by (metis nth_mem)
  then show ?thesis using assms(3,4) by (intro ctx_ownedI) auto
qed

lemma disconnect_ok:
  assumes inv: "conn_inv (tc t)" and up: "\<not> state_down (tc t)"
    and t': "t' = close_links t"
  shows "cstate (tc t') = STATE_DISCONNECTED \<and> conn_inv (tc t') \<and> close_links t' = t' \<and>
     closed_fds (tc t') = closed_fds (tc t) @ softether_get_active_socket_fds 9 t \<and>
     distinct (destroyed (tc t')) \<and>
     set (destroyed (tc t')) = set (destroyed (tc t)) \<union> set_option (conn_ssl (tc t)) \<union>
       set (slot_ctxs (additional (tc t))) \<and>
     softether_get_num_connections t' = 0 \<and> send_candidates (tc t') = [] \<and> recv_sockets (tc t') = [] \<and>
     recv_queue (tc t') = recv_queue (tc t)"
proof -
  have len: "length (additional (tc t)) = 8" and prim: "conn_ssl (tc t) = conn_ssl_ctx (tc t)"
    using inv by (simp_all add: conn_inv_def)
  note d = slot_ctxs_owned [OF inv]
  let ?t1 = "join_thread (t\<lparr>tc := (tc t)\<lparr>cstate := STATE_DISCONNECTING\<rparr>\<rparr>)"
  let ?t2 = "?t1\<lparr>tc := close_primary (tc ?t1)\<rparr>"
  let ?t3 = "softether_close_additional ?t2"
  have j: "tc ?t1 = (tc t)\<lparr>cstate := STATE_DISCONNECTING\<rparr>" by (simp add: join_thread_def)
  have p: "additional (tc ?t2) = additional (tc t)" "destroyed (tc ?t2) = destroyed (tc t)"
    "conn_ssl (tc ?t2) = conn_ssl (tc t)" "conn_ssl_ctx (tc ?t2) = conn_ssl_ctx (tc t)" "socket_fd (tc ?t2) < 0"
    "closed_fds (tc ?t2) = closed_fds (tc t) @ (if socket_fd (tc t) \<ge> 0 then [socket_fd (tc t)] else [])"
    "recv_queue (tc ?t2) = recv_queue (tc t)"
    by (simp_all add: close_primary_def j)
  note c = close_additional_facts [of ?t2]
  have e: "additional (destroy_primary (tc ?t3)) = additional (tc ?t3)"
    "closed_fds (destroy_primary (tc ?t3)) = closed_fds (tc ?t3)"
    "destroyed (destroy_primary (tc ?t3)) = destroyed (tc t) @ slot_ctxs (additional (tc t)) @
        (case conn_ssl (tc t) of None \<Rightarrow> [] | Some x \<Rightarrow> [x])"
    "conn_ssl_ctx (destroy_primary (tc ?t3)) = None" "conn_ssl (destroy_primary (tc ?t3)) = None"
    "num_additional (destroy_primary (tc ?t3)) = 0" "socket_fd (destroy_primary (tc ?t3)) < 0"
    "recv_queue (destroy_primary (tc ?t3)) = recv_queue (tc t)"
    using c p prim by (auto simp: destroy_primary_def split: option.splits)
  have r: "tc t' = (destroy_primary (tc ?t3))\<lparr>conn_rudp := None, conn_rudp_enabled := False, cstate := STATE_DISCONNECTED\<rparr>"
    using up t' by (simp add: close_links_def Let_def)
  have "length (active_fds (additional (tc t))) \<le> 8"
    unfolding active_fds_def using len by (metis length_filter_le length_map le_trans)
  then have fds: "closed_fds (tc t') = closed_fds (tc t) @ softether_get_active_socket_fds 9 t"
    using c p e by (simp add: r softether_get_active_socket_fds_def)
  have dist: "distinct (destroyed (tc t'))"
    using d prim e by (auto simp: r split: option.splits)
  have off: "\<not> (\<exists>ts \<in> set (additional (tc t')). ts_active ts \<or> ts_ctx ts \<noteq> None)" "length (additional (tc t')) = 8"
    using c(1,2) p(1) e(1) len by (simp_all add: r)
  then have off_nth: "\<not> ts_active (additional (tc t') ! i)" if "i < 8" for i using that by (metis nth_mem)
  have "active_count (additional (tc t')) = 0"
    using off by (auto simp: active_count_def filter_empty_conv)
  then have "conn_inv (tc t')"
    using no_ctx_owned [OF off(2,1) dist] off(2) e inv by (simp add: r conn_inv_def)
  moreover have "send_candidates (tc t') = []" "recv_sockets (tc t') = []"
    using off_nth e by (simp_all add: r send_candidates_def primary_sendable_def send_slots_def recv_sockets_def
        MAX_SE_CONNECTIONS_def filter_empty_conv Let_def)
  moreover have "close_links t' = t'" "cstate (tc t') = STATE_DISCONNECTED"
    by (simp_all add: close_links_def state_down_def r)
  moreover have "softether_get_num_connections t' = 0"
    using e by (simp add: softether_get_num_connections_def r)
  moreover have "set (destroyed (tc t')) = set (destroyed (tc t)) \<union> set_option (conn_ssl (tc t)) \<union>
       set (slot_ctxs (additional (tc t)))"
    using e by (auto simp: r split: option.splits)
  moreover have "recv_queue (tc t') = recv_queue (tc t)" using e by (simp add: r)
  ultimately show ?thesis using fds dist by blast
qed

section \<open>What the answer means\<close>

text \<open>
  The verdict on an additional connection. Read from a serialised PACK it is a refusal
  exactly when the PACK has a nonzero \<^verbatim>\<open>error\<close>, and otherwise gives the \<^verbatim>\<open>direction\<close> of the
  PACK (both ways without one). An answer with no PACK at all is taken as acceptance.
\<close>

theorem link_verdict_ser:
  assumes "\<forall>e \<in> set es. elem_ok e" "length es \<le> PACK_MAX_ELEMENTS"
  shows "link_verdict (ser_pack es) =
      (if \<exists>e. lookup_int es (lit ''error'') = Some e \<and> e \<noteq> 0 then None
       else Some (case lookup_int es (lit ''direction'') of Some w \<Rightarrow> w | None \<Rightarrow> 0)) \<and>
     link_verdict [] = Some 0"
proof -
  have get: "proto_get_int (ser_pack es) f = lookup_int es f" for f
    using pack_get_ser [OF assms, of "[]" f] by (simp add: proto_get_int_def pack_get_int_def proto_seek_eq)
  have "length (ser_pack es) \<ge> 4" by (simp add: ser_pack_def)
  then show ?thesis by (auto simp: link_verdict_def get split: option.splits)
qed

theorem link_verdict_ser_witness:
  "link_verdict (ser_pack [(lit ''error'', VInt 0), (lit ''direction'', VInt 2)]) = Some 2"
proof -
  let ?es = "[(lit ''error'', VInt 0), (lit ''direction'', VInt 2)]"
  have 1: "\<forall>e \<in> set ?es. elem_ok e" by (simp add: elem_ok_def ser_elem_def lit_def)
  have 2: "length ?es \<le> PACK_MAX_ELEMENTS" by (simp add: PACK_MAX_ELEMENTS_def)
  have "lookup_int ?es (lit ''error'') = Some 0" "lookup_int ?es (lit ''direction'') = Some 2"
    by (simp_all add: lookup_int_def pack_lookup_def)
  with link_verdict_ser [OF 1 2] show ?thesis by simp
qed

section \<open>Half connections\<close>

text \<open>
  Half-connection mode. When the first additional connection of a session is
  established, the session can afterwards both send and receive: a connection from server to
  client makes the primary one carry the other direction, anything else leaves the primary
  one open both ways.
\<close>

theorem half_connection_duplex:
  assumes inv: "conn_inv (tc t)"
    and first: "\<forall>i < 8. \<not> ts_active (additional (tc t) ! i)"
    and prim: "socket_fd (tc t) \<ge> 0" "conn_ssl (tc t) \<noteq> None" "primary_direction (tc t) = TCP_DIRECTION_BOTH"
    and fd: "\<forall>fd \<in> set_option (d_fd (dials env (dial_i t))). fd \<ge> 0"
    and r: "softether_establish_first_additional env t = Ret (0, t')"
  shows "send_candidates (tc t') \<noteq> [] \<and> recv_sockets (tc t') \<noteq> []"
proof -
  let ?d = "dials env (dial_i t)" and ?t = "t\<lparr>dial_i := dial_i t + 1\<rparr>"
  obtain t1 where t1: "softether_additional_connect env t = Ret (0, t1)"
    using r by (auto simp: softether_establish_first_additional_def split: outcome.splits)
  then have st: "cstate (tc t) = STATE_CONNECTED" by (auto simp: softether_additional_connect_def split: if_splits)
  obtain i where i: "free_slot (tc t) = Some i" using t1 st
    by (auto simp: softether_additional_connect_def split: option.splits)
  obtain f x where d: "d_fd ?d = Some f" "d_ctx ?d = Some x" and h: "link_handshake env ?d i f x ?t = Ret (0, t1)"
    using t1 st i by (auto simp: softether_additional_connect_def link_failed_def drop_link_def Let_def
        split: option.splits if_splits)
  have i8: "i < 8" using free_slot_SomeD [OF i] by simp
  have len: "length (additional (tc t)) = 8" using inv by (simp add: conn_inv_def)
  obtain c dir where c: "same_links c (tc t)" "adopt_link env i f x dir (?t\<lparr>tc := c\<rparr>) = (0, t1)"
  proof (rule link_handshake_cases [OF h])
    fix c assume "drop_link f x (?t\<lparr>tc := c\<rparr>) = (0, t1)"
    then show thesis by (simp add: drop_link_def link_failed_def Let_def)
  next
    fix c dir assume "same_links c (tc ?t)" "adopt_link env i f x dir (?t\<lparr>tc := c\<rparr>) = (0, t1)"
    then show thesis using that by simp
  qed
  have a: "additional (tc t1) = (additional (tc t))[i := \<lparr>ts_fd = f, ts_ctx = Some x, ts_ssl = Some x,
      ts_dir = unat dir, ts_last_recv = tick_ms (cenv env) (cclk_i c), ts_late = 0, ts_active = True\<rparr>]"
    using adopt_link_facts(2) [OF c(2)] c(1) by simp
  have k: "socket_fd (tc t1) = socket_fd (tc t)" "conn_ssl (tc t1) = conn_ssl (tc t)"
    "primary_direction (tc t1) = TCP_DIRECTION_BOTH"
    using c prim(3) by (auto simp: adopt_link_def tick_now_def same_links_def Let_def)
  have s: "additional (tc t1) ! i = \<lparr>ts_fd = f, ts_ctx = Some x, ts_ssl = Some x, ts_dir = unat dir,
      ts_last_recv = tick_ms (cenv env) (cclk_i c), ts_late = 0, ts_active = True\<rparr>"
    using a i8 len by simp
  have only: "j = i" if "j < 8" "ts_active (additional (tc t1) ! j)" for j
    using that first a by (metis nth_list_update_neq)
  show ?thesis
  proof (cases "unat dir = TCP_DIRECTION_SERVER_TO_CLIENT")
    case True
    then have "\<exists>i \<in> {0..<8}. ts_active (additional (tc t1) ! i) \<and>
        ts_dir (additional (tc t1) ! i) = TCP_DIRECTION_SERVER_TO_CLIENT"
      using s i8 by (intro bexI [of _ i]) simp_all
    then have "t' = t1\<lparr>tc := (tc t1)\<lparr>primary_direction := TCP_DIRECTION_CLIENT_TO_SERVER\<rparr>\<rparr>"
      using r t1 by (simp add: softether_establish_first_additional_def list_ex_iff MAX_SE_CONNECTIONS_def)
    then show ?thesis using prim k s True i8 fd d
      by (auto simp: send_candidates_def primary_sendable_def can_send_def recv_sockets_def can_receive_def
          filter_empty_conv MAX_SE_CONNECTIONS_def Let_def intro!: bexI [of _ i])
  next
    case False
    then have "t' = t1"
      using r t1 s only by (auto simp: softether_establish_first_additional_def list_ex_iff MAX_SE_CONNECTIONS_def split: if_splits)
    then show ?thesis using prim k
      by (auto simp: send_candidates_def primary_sendable_def can_send_def recv_sockets_def can_receive_def)
  qed
qed

theorem half_connection_duplex_witness:
  "\<exists>t'. softether_establish_first_additional tenv1 tun1 = Ret (0, t') \<and> send_candidates (tc t') \<noteq> []"
proof -
  obtain t' where t': "softether_establish_first_additional tenv1 tun1 = Ret (0, t')"
    using tun1_adopted by (auto simp: softether_establish_first_additional_def)
  have "conn_inv (tc tun1)" using conn_inv_conn0 conn_inv_cong [of "tc tun1" conn0] by (simp add: tun1_def)
  moreover have "\<forall>i < 8. \<not> ts_active (additional (tc tun1) ! i)" by (simp add: tun1_def conn0_def tcp0_def)
  moreover have "socket_fd (tc tun1) \<ge> 0" "conn_ssl (tc tun1) \<noteq> None" "primary_direction (tc tun1) = TCP_DIRECTION_BOTH"
    "\<forall>fd \<in> set_option (d_fd (dials tenv1 (dial_i tun1))). fd \<ge> 0"
    by (simp_all add: tun1_def tun0_def conn0_def tenv1_def TCP_DIRECTION_BOTH_def)
  ultimately show ?thesis using half_connection_duplex [OF _ _ _ _ _ _ t'] t' by blast
qed

section \<open>Housekeeping keeps the invariant\<close>

lemma conn_inv_reset:
  assumes "conn_inv c" "i < 8"
  shows "conn_inv (reset_slot i c)"
proof -
  let ?c = "reset_slot i c"
  have len: "length (additional c) = 8" using assms(1) by (simp add: conn_inv_def)
  have a: "additional ?c = (additional c)[i := (additional c ! i)\<lparr>ts_late := 0, ts_last_recv := 0\<rparr>]"
    by (simp add: reset_slot_def)
  have "map ts_active (additional ?c) = map ts_active (additional c)"
    using assms(2) len by (simp add: a map_update list_update_same_conv)
  then have "active_count (additional ?c) = active_count (additional c)" by (rule active_count_cong)
  moreover have "ts_ctx (additional ?c ! j) = ts_ctx (additional c ! j)"
    "ts_active (additional ?c ! j) = ts_active (additional c ! j)" for j
    unfolding a using assms(2) len by (cases "j = i", simp_all)+
  then have "ctx_owned ?c = ctx_owned c" by (intro ctx_owned_ctxs) (simp_all add: reset_slot_def)
  ultimately show ?thesis using assms by (simp add: conn_inv_def) (simp add: reset_slot_def)
qed

lemma conn_inv_cleanup: "conn_inv (tc t) \<Longrightarrow> \<forall>i \<in> set is. i < 8 \<Longrightarrow> conn_inv (tc (cleanup_links env is t))"
proof (induction env "is" t rule: cleanup_links.induct)
  case (2 env i "is" t)
  have "conn_inv (reset_slot i (retire_additional i (tc t)))" if "ts_active (additional (tc t) ! i)"
    using that 2(4,5) by (auto intro!: conn_inv_reset conn_inv_retire)
  with 2 show ?case by (auto simp: Let_def)
qed simp

lemma conn_inv_launch: "conn_inv (tc (launch_additional env t)) = conn_inv (tc t)"
proof -
  have k: "conn_inv (c\<lparr>cclk_i := n\<rparr>) = conn_inv c" for c n by (rule conn_inv_cong) simp_all
  show ?thesis by (simp add: launch_additional_def tick_now_def Let_def k split: option.split)
qed

lemma conn_inv_maintain: "conn_inv (tc t) \<Longrightarrow> conn_inv (tc (softether_maintain_links env t))"
  unfolding softether_maintain_links_def Let_def
  by (rule conn_inv_cleanup) (simp_all add: conn_inv_launch conn_inv_keepalive_all MAX_SE_CONNECTIONS_def)

lemma conn_inv_thread:
  assumes "conn_inv (tc t)" "\<forall>x \<in> set_option (d_ctx (dials env (dial_i t))). fresh_ctx x (tc t)"
    "additional_connect_thread_routine env t = Ret t'"
  shows "conn_inv (tc t')"
proof -
  obtain r t1 where r: "softether_additional_connect env t = Ret (r, t1)" "tc t' = tc t1"
    using assms(3) by (auto simp: additional_connect_thread_routine_def split: outcome.splits prod.splits)
  show ?thesis
  proof (cases "cstate (tc t) = STATE_CONNECTED \<and> free_slot (tc t) \<noteq> None")
    case True
    then obtain i where "cstate (tc t) = STATE_CONNECTED" "free_slot (tc t) = Some i" by auto
    with additional_connect_ok [OF assms(1,2) this r(1)] r(2) show ?thesis by simp
  next
    case False
    then have "t1 = t" using r(1) by (auto simp: softether_additional_connect_def split: if_splits)
    then show ?thesis using r(2) assms(1) by simp
  qed
qed

lemma conn_inv_disconnect: "conn_inv (tc t) \<Longrightarrow> conn_inv (tc (close_links t))"
  using disconnect_ok [OF _ _ refl, of t] by (cases "state_down (tc t)") (simp_all add: close_links_def)

end
