(* ===== verification/Tunnel.thy ===== *)
theory Tunnel
  imports Links
begin

text \<open>
  The layer-2 tunnel seen by the application (\<^verbatim>\<open>softether_protocol.c\<close>): IP packets are
  wrapped in Ethernet frames and sent over UDP acceleration when that is ready and over TCP
  otherwise; received frames are taken from the queue, ARP requests answered, IP packets
  unwrapped, one at a time or in a batch. \<open>None\<close> stands for a negative return value.
\<close>

section \<open>Frames\<close>

definition ETH_HEADER_SIZE :: nat where "ETH_HEADER_SIZE = 14"
definition ETH_TYPE_IPV4 :: u16 where "ETH_TYPE_IPV4 = 0x0800"
definition ETH_TYPE_IPV6 :: u16 where "ETH_TYPE_IPV6 = 0x86DD"

lemmas eth_consts = ETH_HEADER_SIZE_def ETH_TYPE_IPV4_def ETH_TYPE_IPV6_def

definition ethertype_of :: "bytes \<Rightarrow> u16" where
  "ethertype_of data = (if drop_bit 4 (data ! 0) AND 0x0F = 6 then ETH_TYPE_IPV6 else ETH_TYPE_IPV4)"

definition eth_frame :: "tun_t \<Rightarrow> bytes \<Rightarrow> bytes" where
  "eth_frame t data = (if gateway_mac_resolved t then gateway_mac t else replicate 6 0xFF) @ client_mac t @
     put_be16 (ethertype_of data) @ data"

definition frame_type :: "bytes \<Rightarrow> u16" where
  "frame_type fr = get_be16 (drop 12 fr)"

definition is_arp :: "bytes \<Rightarrow> bool" where
  "is_arp fr \<longleftrightarrow> length fr \<ge> 42 \<and> fr ! 12 = 0x08 \<and> fr ! 13 = 0x06"

section \<open>Sending\<close>

text \<open>The attempt over UDP acceleration that both send paths make first.\<close>

definition try_rudp :: "conn_env \<Rightarrow> bytes \<Rightarrow> conn_t \<Rightarrow> bool \<times> conn_t" where
  "try_rudp env frame c = (case conn_rudp c of
     None \<Rightarrow> (False, c)
   | Some ru \<Rightarrow> if \<not> conn_rudp_enabled c then (False, c)
       else let ru = rudp_poll (renv env) ru;
                (ready, ru) = rudp_is_send_ready ru (conn_session_established c) in
         if ready then let (r, ru) = rudp_send (renv env) ru frame 0
           in (r \<noteq> None, c\<lparr>conn_rudp := Some ru\<rparr>)
         else (False, c\<lparr>conn_rudp := Some ru\<rparr>))"

definition softether_send_data_block :: "conn_env \<Rightarrow> bytes \<Rightarrow> bytes \<Rightarrow> conn_t \<Rightarrow> nat option \<times> conn_t" where
  "softether_send_data_block env block frame c = (let (ok, c) = try_rudp env frame c in
     if ok then (Some (length frame), c)
     else let (ok, c) = softether_transmit_block_nolock block c
          in (if ok then Some (length frame) else None, c))"

text \<open>A staging buffer that could not be allocated has capacity 0.\<close>

definition softether_send :: "tun_env \<Rightarrow> bytes \<Rightarrow> tun_t \<Rightarrow> nat option \<times> tun_t" where
  "softether_send env data t =
     (if data = [] then (None, t)
      else if cstate (tc t) \<noteq> STATE_CONNECTED then (None, t)
      else if send_block_cap (tc t) = 0 \<or> length data > send_block_cap (tc t) - 8 - ETH_HEADER_SIZE then (None, t)
      else if conn_ssl (tc t) = None then (None, t)
      else let frame = eth_frame t data;
               blk = put_be32 1 @ put_be32 (word_of_nat (ETH_HEADER_SIZE + length data)) @ frame;
               (r, c) = softether_send_data_block (cenv env) blk frame (tc t); t = t\<lparr>tc := c\<rparr> in
        case r of
          None \<Rightarrow> (None, t)
        | Some _ \<Rightarrow> (Some (length data), t\<lparr>stats_tx_packets := stats_tx_packets t + 1,
                                              stats_tx_bytes := stats_tx_bytes t + length data\<rparr>))"

definition softether_send_data :: "tun_env \<Rightarrow> bytes \<Rightarrow> tun_t \<Rightarrow> nat option \<times> tun_t" where
  "softether_send_data env data t =
     (if cstate (tc t) \<noteq> STATE_CONNECTED then (None, t)
      else let (ok, c) = try_rudp (cenv env) data (tc t) in
        if ok then (Some (length data), t\<lparr>tc := c\<rparr>)
        else let (r, c) = softether_send_packet (cenv env) (zbound env) CMD_DATA data c in (r, t\<lparr>tc := c\<rparr>))"

definition softether_send_raw :: "tun_env \<Rightarrow> bytes \<Rightarrow> tun_t \<Rightarrow> nat option \<times> tun_t" where
  "softether_send_raw env frame t =
     (if frame = [] then (None, t)
      else if cstate (tc t) \<noteq> STATE_CONNECTED then (None, t)
      else softether_send_data env frame t)"

section \<open>ARP\<close>

definition arp_request_for :: "u32 \<Rightarrow> bytes \<Rightarrow> bool" where
  "arp_request_for ip data \<longleftrightarrow> data ! 20 = 0 \<and> data ! 21 = 1 \<and> ip \<noteq> 0 \<and> get_be32 (drop 38 data) = ip"

definition arp_reply :: "tun_t \<Rightarrow> bytes \<Rightarrow> bytes" where
  "arp_reply t data = take 6 (drop 6 data) @ client_mac t @ [0x08, 0x06, 0, 1, 0x08, 0, 6, 4, 0, 2] @
     client_mac t @ put_be32 (assigned_ip t) @ take 6 (drop 22 data) @ take 4 (drop 28 data)"

definition softether_reply_arp_request :: "tun_env \<Rightarrow> bytes \<Rightarrow> tun_t \<Rightarrow> tun_t" where
  "softether_reply_arp_request env data t =
     (if arp_request_for (assigned_ip t) data then snd (softether_send_raw env (arp_reply t data) t) else t)"

section \<open>Receiving\<close>

definition dequeue :: "tun_t \<Rightarrow> tun_t" where
  "dequeue t = t\<lparr>tc := (tc t)\<lparr>recv_queue := ring_deq 64 (recv_queue (tc t))\<rparr>\<rparr>"

definition fill :: "tun_env \<Rightarrow> tun_t \<Rightarrow> int \<times> tun_t" where
  "fill env t = (let (rc, c) = softether_fill_recv_queue (cenv env) (tc t) in (rc, t\<lparr>tc := c\<rparr>))"

datatype rx = Rx_error | Rx_none | Rx_packet bytes

text \<open>One frame off the queue.\<close>

definition receive_frame :: "tun_env \<Rightarrow> nat \<Rightarrow> tun_t \<Rightarrow> rx \<times> tun_t" where
  "receive_frame env max_len t = (let fr = ring_front (recv_queue (tc t)) in
     if is_arp fr then (Rx_none, dequeue (softether_reply_arp_request env fr t))
     else if length fr \<le> ETH_HEADER_SIZE then (Rx_none, dequeue t)
     else if frame_type fr \<noteq> ETH_TYPE_IPV4 \<and> frame_type fr \<noteq> ETH_TYPE_IPV6 then (Rx_none, dequeue t)
     else if length fr - ETH_HEADER_SIZE > max_len then (Rx_error, dequeue t)
     else (Rx_packet (drop ETH_HEADER_SIZE fr), dequeue t))"

definition softether_receive :: "tun_env \<Rightarrow> nat \<Rightarrow> tun_t \<Rightarrow> rx \<times> tun_t" where
  "softether_receive env max_len t =
     (if max_len = 0 then (Rx_error, t)
      else if cstate (tc t) \<noteq> STATE_CONNECTED then (Rx_error, t)
      else let t = softether_maintain_links env t;
               (rc, t) = (if rcount (recv_queue (tc t)) = 0 then fill env t else (1, t)) in
        if rc < 0 then (Rx_error, t)
        else if rc = 0 then (Rx_none, t)
        else if rcount (recv_queue (tc t)) = 0 then (Rx_none, t)
        else receive_frame env max_len t)"

text \<open>The raw frame and its length; an empty frame is the return value 0.\<close>

definition softether_receive_raw :: "tun_env \<Rightarrow> nat \<Rightarrow> tun_t \<Rightarrow> bytes option \<times> tun_t" where
  "softether_receive_raw env max_len t =
     (if cstate (tc t) \<noteq> STATE_CONNECTED then (None, t)
      else let (rc, t) = (if rcount (recv_queue (tc t)) = 0 then fill env t else (1, t)) in
        if rc < 0 then (None, t)
        else if rc = 0 then (Some [], t)
        else if rcount (recv_queue (tc t)) = 0 then (Some [], t)
        else let fr = ring_front (recv_queue (tc t)) in
          if length fr > max_len then (Some [], dequeue t) else (Some fr, dequeue t))"

text \<open>
  The batch loop. The first argument is the number of frames queued when it starts: every
  round but the last takes one off, and nothing is added meanwhile.
\<close>

fun batch_loop :: "nat \<Rightarrow> tun_env \<Rightarrow> nat \<Rightarrow> nat \<Rightarrow> bytes list \<Rightarrow> tun_t \<Rightarrow> bytes list \<times> tun_t" where
  "batch_loop 0 env max_len max_packets ps t = (ps, t)"
| "batch_loop (Suc k) env max_len max_packets ps t =
     (if length ps \<ge> max_packets \<or> rcount (recv_queue (tc t)) = 0 then (ps, t)
      else let fr = ring_front (recv_queue (tc t)) in
        if is_arp fr
        then batch_loop k env max_len max_packets ps (dequeue (softether_reply_arp_request env fr t))
        else if length fr \<le> ETH_HEADER_SIZE then batch_loop k env max_len max_packets ps (dequeue t)
        else if frame_type fr \<noteq> ETH_TYPE_IPV4 \<and> frame_type fr \<noteq> ETH_TYPE_IPV6
        then batch_loop k env max_len max_packets ps (dequeue t)
        else if u32n (length (concat ps) + (length fr - ETH_HEADER_SIZE)) > max_len then (ps, t)
        else batch_loop k env max_len max_packets (ps @ [drop ETH_HEADER_SIZE fr]) (dequeue t))"

text \<open>The packets written, one behind the other, into the buffer, with their lengths.\<close>

definition softether_receive_batch :: "tun_env \<Rightarrow> nat \<Rightarrow> nat \<Rightarrow> tun_t \<Rightarrow> bytes list option \<times> tun_t" where
  "softether_receive_batch env max_len max_packets t =
     (if max_len = 0 \<or> max_packets = 0 then (Some [], t)
      else if cstate (tc t) \<noteq> STATE_CONNECTED then (None, t)
      else let t = softether_maintain_links env t;
               (rc, t) = (if rcount (recv_queue (tc t)) = 0 then fill env t else (1, t)) in
        if rc < 0 then (None, t)
        else let (ps, t) = batch_loop (rcount (recv_queue (tc t))) env max_len max_packets [] t
             in (Some ps, if ps = [] then t else
                   t\<lparr>stats_rx_packets := stats_rx_packets t + length ps,
                     stats_rx_bytes := stats_rx_bytes t + length (concat ps)\<rparr>))"

section \<open>Resolving the gateway\<close>

definition arp_request :: "tun_t \<Rightarrow> u32 \<Rightarrow> bytes" where
  "arp_request t ip = replicate 6 0xFF @ client_mac t @ [0x08, 0x06, 0, 1, 0x08, 0, 6, 4, 0, 1] @
     client_mac t @ put_be32 (assigned_ip t) @ replicate 6 0 @ put_be32 ip"

definition arp_reply_from :: "u32 \<Rightarrow> bytes \<Rightarrow> bool" where
  "arp_reply_from ip fr \<longleftrightarrow> length fr \<ge> 42 \<and> fr ! 12 = 0x08 \<and> fr ! 13 = 0x06 \<and> fr ! 20 = 0 \<and> fr ! 21 = 2 \<and>
     get_be32 (drop 28 fr) = ip"

fun resolve_poll :: "nat \<Rightarrow> tun_env \<Rightarrow> u32 \<Rightarrow> tun_t \<Rightarrow> bool \<times> tun_t" where
  "resolve_poll 0 env ip t = (False, t)"
| "resolve_poll (Suc i) env ip t = (case softether_receive_raw env 2048 t of
     (Some fr, t) \<Rightarrow> if arp_reply_from ip fr
       then (True, t\<lparr>gateway_mac := take 6 (drop 22 fr), gateway_mac_resolved := True\<rparr>)
       else resolve_poll i env ip t
   | (None, t) \<Rightarrow> resolve_poll i env ip t)"

fun resolve_attempts :: "nat \<Rightarrow> tun_env \<Rightarrow> u32 \<Rightarrow> bytes \<Rightarrow> tun_t \<Rightarrow> bool \<times> tun_t" where
  "resolve_attempts 0 env ip req t = (False, t)"
| "resolve_attempts (Suc n) env ip req t = (case resolve_poll 40 env ip t of
     (True, t) \<Rightarrow> (True, t)
   | (False, t) \<Rightarrow> resolve_attempts n env ip req (snd (softether_send_raw env req t)))"

definition softether_resolve_gateway :: "tun_env \<Rightarrow> u32 \<Rightarrow> tun_t \<Rightarrow> bool \<times> tun_t" where
  "softether_resolve_gateway env ip t =
     (if cstate (tc t) \<noteq> STATE_CONNECTED then (False, t)
      else let t = t\<lparr>gateway_ip := ip\<rparr>; req = arp_request t ip
           in resolve_attempts 3 env ip req (snd (softether_send_raw env req t)))"

section \<open>The one-block interface\<close>

text \<open>Payload and command of \<^verbatim>\<open>softether_receive_data\<close>; \<open>Some (p, None)\<close> is command 0.\<close>

definition rudp_take :: "conn_env \<Rightarrow> nat \<Rightarrow> conn_t \<Rightarrow> bytes option \<times> conn_t" where
  "rudp_take env max_len c = (case conn_rudp c of
     None \<Rightarrow> (None, c)
   | Some ru \<Rightarrow> (case rudp_recv (rudp_poll (renv env) ru) max_len of
         (Some d, ru) \<Rightarrow> (if d = [] then None else Some d, c\<lparr>conn_rudp := Some ru\<rparr>)
       | (None, ru) \<Rightarrow> (None, c\<lparr>conn_rudp := Some ru\<rparr>)))"

definition rudp_wait :: "conn_env \<Rightarrow> nat \<Rightarrow> conn_t \<Rightarrow> bytes option \<times> conn_t" where
  "rudp_wait env max_len c = (case conn_rudp c of
     None \<Rightarrow> (None, c)
   | Some ru \<Rightarrow> if \<not> conn_rudp_enabled c then (None, c)
       else (case rudp_take env max_len c of
           (Some d, c) \<Rightarrow> (Some d, c)
         | (None, c) \<Rightarrow> (let r = polls env (poll_i c); c = c\<lparr>poll_i := poll_i c + 1\<rparr> in
             case r of
               Poll_ready re \<Rightarrow> if rudp_get_udp_fd ru \<ge> 0 \<and> pollin (re (rudp_get_udp_fd ru))
                 then rudp_take env max_len c else (None, c)
             | _ \<Rightarrow> (None, c))))"

definition softether_receive_data ::
  "tun_env \<Rightarrow> nat \<Rightarrow> tun_t \<Rightarrow> (bytes \<times> command option) option \<times> tun_t" where
  "softether_receive_data env max_len t =
     (if cstate (tc t) \<noteq> STATE_CONNECTED then (None, t)
      else (case rudp_wait (cenv env) max_len (tc t) of
          (Some d, c) \<Rightarrow> (Some (d, Some CMD_DATA), t\<lparr>tc := c\<rparr>)
        | (None, c) \<Rightarrow> (case softether_receive_packet (cenv env) max_len c of
              (Packet_error, c) \<Rightarrow> (Some ([], None), t\<lparr>tc := c\<rparr>)
            | (Packet_keepalive _, c) \<Rightarrow>
                (Some ([], Some CMD_KEEPALIVE), t\<lparr>tc := snd (softether_send_keepalive (cenv env) c)\<rparr>)
            | (Packet_data b _, c) \<Rightarrow>
                (Some (case b of Some p \<Rightarrow> p | None \<Rightarrow> [], Some CMD_DATA), t\<lparr>tc := c\<rparr>))))"

text \<open>The result is that of the C function: 1 for a message, -1 for an error.\<close>

definition softether_check_connection :: "tun_env \<Rightarrow> tun_t \<Rightarrow> int \<times> tun_t" where
  "softether_check_connection env t =
     (if cstate (tc t) \<noteq> STATE_CONNECTED then (-1, t)
      else (case softether_receive_packet (cenv env) 512 (tc t) of
          (Packet_error, c) \<Rightarrow> (-1, t\<lparr>tc := c\<rparr>)
        | (_, c) \<Rightarrow> (1, t\<lparr>tc := c\<rparr>)))"

section \<open>Statistics\<close>

record softether_stats_t =
  st_tx_packets :: nat
  st_tx_bytes :: nat
  st_rx_packets :: nat
  st_rx_bytes :: nat
  st_rx_skipped_blocks :: u32
  st_rudp :: "rudp_stats_t option"

definition softether_get_stats :: "tun_t \<Rightarrow> softether_stats_t" where
  "softether_get_stats t = \<lparr>st_tx_packets = stats_tx_packets t, st_tx_bytes = stats_tx_bytes t,
     st_rx_packets = stats_rx_packets t, st_rx_bytes = stats_rx_bytes t,
     st_rx_skipped_blocks = rx_skipped_blocks (tc t), st_rudp = map_option rudp_get_stats (conn_rudp (tc t))\<rparr>"

section \<open>Framing\<close>

text \<open>The IP packet a frame carries.\<close>

definition deliver_ip :: "bytes \<Rightarrow> bytes option" where
  "deliver_ip fr = (if is_arp fr \<or> length fr \<le> ETH_HEADER_SIZE \<or>
       (frame_type fr \<noteq> ETH_TYPE_IPV4 \<and> frame_type fr \<noteq> ETH_TYPE_IPV6)
     then None else Some (drop ETH_HEADER_SIZE fr))"

definition macs_ok :: "tun_t \<Rightarrow> bool" where
  "macs_ok t \<longleftrightarrow> length (client_mac t) = 6 \<and> length (gateway_mac t) = 6"

lemma eth_frame_length: "macs_ok t \<Longrightarrow> length (eth_frame t data) = 14 + length data"
  by (simp add: eth_frame_def macs_ok_def)

lemma eth_frame_parts:
  assumes "macs_ok t"
  obtains a b where "eth_frame t data = a @ b @ put_be16 (ethertype_of data) @ data" "length a = 6" "length b = 6"
  using assms by (auto simp: eth_frame_def macs_ok_def)

lemma deliver_eth_frame:
  assumes "macs_ok t" "data \<noteq> []"
  shows "deliver_ip (eth_frame t data) = Some data"
proof -
  let ?ty = "ethertype_of data"
  obtain a b where f: "eth_frame t data = a @ b @ put_be16 ?ty @ data" "length a = 6" "length b = 6"
    using eth_frame_parts [OF assms(1)] by blast
  have d: "drop 12 (eth_frame t data) = put_be16 ?ty @ data" "drop 14 (eth_frame t data) = data"
    using f by simp_all
  have ty: "frame_type (eth_frame t data) = ?ty" by (simp add: frame_type_def d(1))
  have "\<not> is_arp (eth_frame t data)"
  proof -
    have "eth_frame t data ! 13 = ucast ?ty" using f by (simp add: nth_append put_be16_def)
    then show ?thesis by (simp add: is_arp_def ethertype_of_def eth_consts)
  qed
  moreover have "?ty = ETH_TYPE_IPV4 \<or> ?ty = ETH_TYPE_IPV6" by (simp add: ethertype_of_def)
  ultimately show ?thesis
    using ty d(2) eth_frame_length [OF assms(1), of data] assms(2)
    by (simp add: deliver_ip_def ETH_HEADER_SIZE_def)
qed

section \<open>What the receive paths do to the queue\<close>

lemma ctx_frame_rudp [simp]: "recv_queue (snd (try_rudp env fr c)) = recv_queue c"
  by (simp add: try_rudp_def Let_def case_prod_beta split: option.split)

lemma select_queue [simp]: "recv_queue (snd (softether_select_send_socket c)) = recv_queue c"
  by (simp add: softether_select_send_socket_def Let_def)

lemma write_all_queue [simp]: "recv_queue (snd (data_write_all bs c)) = recv_queue c"
  by (simp add: data_write_all_def)

lemma keepalive_sock_queue [simp]: "recv_queue (snd (softether_send_keepalive_sock env ssl fd c)) = recv_queue c"
  by (simp add: softether_send_keepalive_sock_def Let_def case_prod_beta)

lemma send_packet_queue [simp]: "recv_queue (snd (softether_send_packet env b cmd p c)) = recv_queue c"
  by (simp add: softether_send_packet_def softether_send_keepalive_def Let_def case_prod_beta)

lemma send_raw_queue [simp]: "recv_queue (tc (snd (softether_send_raw env fr t))) = recv_queue (tc t)"
  by (simp add: softether_send_raw_def softether_send_data_def Let_def case_prod_beta)

lemma reply_arp_queue [simp]: "recv_queue (tc (softether_reply_arp_request env d t)) = recv_queue (tc t)"
  by (simp add: softether_reply_arp_request_def)

lemma keepalive_slots_queue [simp]: "recv_queue (keepalive_slots env is c) = recv_queue c"
  by (induction "is" arbitrary: c) (simp_all add: Let_def)

lemma keepalive_all_queue [simp]: "recv_queue (snd (softether_send_keepalive_all env c)) = recv_queue c"
  by (simp add: softether_send_keepalive_all_def tick_now_def Let_def)

lemma launch_queue [simp]: "recv_queue (tc (launch_additional env t)) = recv_queue (tc t)"
  by (simp add: launch_additional_def tick_now_def Let_def split: option.split)

lemma cleanup_queue [simp]: "recv_queue (tc (cleanup_links env is t)) = recv_queue (tc t)"
  by (induction env "is" t rule: cleanup_links.induct)
    (simp_all add: Let_def reset_slot_def retire_additional_def take_ssl_ctx_slot_def)

lemma maintain_queue [simp]: "recv_queue (tc (softether_maintain_links env t)) = recv_queue (tc t)"
  by (simp add: softether_maintain_links_def Let_def)

text \<open>The queue as the list of its frames.\<close>

definition queued :: "tun_t \<Rightarrow> bytes list" where
  "queued t = ring_contents (recv_queue (tc t))"

definition queue_ok :: "tun_t \<Rightarrow> bool" where
  "queue_ok t \<longleftrightarrow> ring_inv 64 (recv_queue (tc t)) \<and> list_all (\<lambda>fr. length fr \<le> MAX_QUEUED_FRAME) (queued t)"

lemma queued_length [simp]: "length (queued t) = rcount (recv_queue (tc t))"
  by (simp add: queued_def)

lemma queued_count: "queued t = fr # q \<Longrightarrow> rcount (recv_queue (tc t)) = Suc (length q)"
  using queued_length [of t] by simp

lemma queued_front: "queue_ok t \<Longrightarrow> queued t = fr # q \<Longrightarrow> ring_front (recv_queue (tc t)) = fr"
  using conn_q.front_contents [of "recv_queue (tc t)"] queued_count [of t fr q]
  by (simp add: queue_ok_def queued_def)

lemma queued_dequeue:
  assumes "queue_ok t" "queued t = fr # q"
  shows "queued (dequeue t) = q" "queue_ok (dequeue t)"
proof -
  have r: "ring_inv 64 (recv_queue (tc t))" "0 < rcount (recv_queue (tc t))"
    using assms queued_count [OF assms(2)] by (simp_all add: queue_ok_def)
  then show q: "queued (dequeue t) = q"
    using conn_q.deq_contents [OF r] assms(2) by (simp add: dequeue_def queued_def)
  then show "queue_ok (dequeue t)"
    using assms conn_q.deq_inv [OF r] by (simp add: queue_ok_def) (simp add: dequeue_def)
qed

lemma queued_cong: "recv_queue (tc t') = recv_queue (tc t) \<Longrightarrow> queued t' = queued t \<and> queue_ok t' = queue_ok t"
  by (simp add: queued_def queue_ok_def)

lemma queued_reply [simp]:
  "queued (softether_reply_arp_request env d t) = queued t"
  "queue_ok (softether_reply_arp_request env d t) = queue_ok t"
  using queued_cong [of "softether_reply_arp_request env d t" t] by simp_all

text \<open>What one frame amounts to.\<close>

definition rx_of :: "nat \<Rightarrow> bytes \<Rightarrow> rx" where
  "rx_of max_len fr = (case deliver_ip fr of
     None \<Rightarrow> Rx_none | Some p \<Rightarrow> if length p > max_len then Rx_error else Rx_packet p)"

lemma receive_frame_spec:
  assumes "queue_ok t" "queued t = fr # q"
  shows "fst (receive_frame env max_len t) = rx_of max_len fr"
    "queued (snd (receive_frame env max_len t)) = q" "queue_ok (snd (receive_frame env max_len t))"
  using assms queued_front [OF assms] queued_dequeue [OF assms]
    queued_dequeue [of "softether_reply_arp_request env fr t" fr q]
  by (auto simp: receive_frame_def rx_of_def deliver_ip_def Let_def split: option.splits if_splits)

text \<open>
  The abstract batch: packets taken, and frames left, with \<open>room\<close> bytes and \<open>n\<close> packets to go.
\<close>

fun batch_spec :: "nat \<Rightarrow> nat \<Rightarrow> bytes list \<Rightarrow> bytes list \<times> bytes list" where
  "batch_spec room n [] = ([], [])"
| "batch_spec room n (fr # frs) = (if n = 0 then ([], fr # frs)
     else (case deliver_ip fr of
         None \<Rightarrow> batch_spec room n frs
       | Some p \<Rightarrow> if length p > room then ([], fr # frs)
           else let (ps, rest) = batch_spec (room - length p) (n - 1) frs in (p # ps, rest)))"

lemma batch_spec_bounds: "length (concat (fst (batch_spec room n frs))) \<le> room \<and> length (fst (batch_spec room n frs)) \<le> n"
proof (induction room n frs rule: batch_spec.induct)
  case (2 room n fr frs)
  then show ?case by (fastforce simp: Let_def split: option.splits prod.splits)
qed simp

lemma deliver_ip_length: "deliver_ip fr = Some p \<Longrightarrow> length p = length fr - 14 \<and> p = drop ETH_HEADER_SIZE fr"
  by (auto simp: deliver_ip_def ETH_HEADER_SIZE_def split: if_splits)

lemma batch_loop_step:
  assumes "queue_ok t" "queued t = fr # q" "length ps < n" "length (concat ps) \<le> m" "m < 2 ^ 31"
  shows "\<exists>t'. queue_ok t' \<and> queued t' = q \<and> batch_loop (Suc k) env m n ps t = (case deliver_ip fr of
       None \<Rightarrow> batch_loop k env m n ps t'
     | Some p \<Rightarrow> if length (concat ps) + length p > m then (ps, t) else batch_loop k env m n (ps @ [p]) t')"
proof -
  have le: "length fr \<le> 2048" using assms(1,2) by (simp add: queue_ok_def MAX_QUEUED_FRAME_def)
  have u: "u32n (length (concat ps) + length fr - 14) = length (concat ps) + length fr - 14"
    using assms(4,5) le by (simp add: u32n_def)
  note r = queued_front [OF assms(1,2)] queued_count [OF assms(2)]
  note d = queued_dequeue [OF assms(1,2)] queued_dequeue [of "softether_reply_arp_request env fr t" fr q]
  show ?thesis
  proof (cases "is_arp fr")
    case True
    then show ?thesis using assms r d
      by (intro exI [of _ "dequeue (softether_reply_arp_request env fr t)"]) (simp add: deliver_ip_def)
  next
    case False
    then show ?thesis using assms r d u
      by (intro exI [of _ "dequeue t"]) (simp add: deliver_ip_def ETH_HEADER_SIZE_def)
  qed
qed

lemma batch_loop_spec:
  assumes "queue_ok t" "queued t = frs" "length (concat ps) \<le> m" "m < 2 ^ 31"
    "length ps \<le> n" "batch_loop (length frs) env m n ps t = (ps', t')"
  shows "ps' = ps @ fst (batch_spec (m - length (concat ps)) (n - length ps) frs) \<and>
     queued t' = snd (batch_spec (m - length (concat ps)) (n - length ps) frs) \<and> queue_ok t'"
  using assms
proof (induction frs arbitrary: ps t)
  case (Cons fr frs)
  show ?case
  proof (cases "length ps = n")
    case True
    then show ?thesis using Cons.prems by simp
  next
    case False
    then have n: "length ps < n" using Cons.prems(5) by simp
    obtain t1 where t1: "queue_ok t1" "queued t1 = frs" and
      st: "batch_loop (Suc (length frs)) env m n ps t = (case deliver_ip fr of
         None \<Rightarrow> batch_loop (length frs) env m n ps t1
       | Some p \<Rightarrow> if length (concat ps) + length p > m then (ps, t) else batch_loop (length frs) env m n (ps @ [p]) t1)"
      using batch_loop_step [OF Cons.prems(1,2) n Cons.prems(3,4)] by blast
    show ?thesis
    proof (cases "deliver_ip fr")
      case None
      then show ?thesis using Cons.IH [OF t1 Cons.prems(3-5)] Cons.prems st n by simp
    next
      case (Some p)
      show ?thesis
      proof (cases "length (concat ps) + length p > m")
        case True
        then show ?thesis using Cons.prems st Some n by auto
      next
        case False
        then have b: "batch_loop (length frs) env m n (ps @ [p]) t1 = (ps', t')"
          using Cons.prems(6) st Some by simp
        have "length (concat (ps @ [p])) \<le> m" "length (ps @ [p]) \<le> n" using False n by simp_all
        from Cons.IH [OF t1 this(1) Cons.prems(4) this(2) b] False n Some show ?thesis
          by (simp add: Let_def case_prod_beta)
      qed
    qed
  qed
qed simp

text \<open>
  Receiving. With frames queued, a receive handles exactly the oldest one: it returns the
  IP packet of an IPv4 or IPv6 frame (an error if the buffer is too small for it), and
  nothing for ARP, other protocols and runts; the frame is gone from the queue in every
  case.
\<close>

theorem receive_takes_one:
  assumes ok: "queue_ok t" and q: "queued t = fr # q" and st: "cstate (tc t) = STATE_CONNECTED" and m: "0 < max_len"
  shows "fst (softether_receive env max_len t) = rx_of max_len fr \<and>
     queued (snd (softether_receive env max_len t)) = q"
proof -
  let ?t = "softether_maintain_links env t"
  have "queue_ok ?t" "queued ?t = fr # q" using ok q queued_cong [of ?t t] by simp_all
  note s = receive_frame_spec [OF this, of env max_len]
  have "rcount (recv_queue (tc ?t)) \<noteq> 0" using queued_count [OF q] by simp
  then have "softether_receive env max_len t = receive_frame env max_len ?t"
    using st m by (simp add: softether_receive_def Let_def)
  with s show ?thesis by simp
qed

lemma receive_batch_spec:
  assumes ok: "queue_ok t" "queued t \<noteq> []" and st: "cstate (tc t) = STATE_CONNECTED"
    and m: "0 < max_len" "max_len < 2 ^ 31" "0 < n"
  shows "\<exists>ps t'. softether_receive_batch env max_len n t = (Some ps, t') \<and>
     (ps, queued t') = batch_spec max_len n (queued t) \<and> queue_ok t' \<and>
     length (concat ps) \<le> max_len \<and> length ps \<le> n"
proof -
  let ?t = "softether_maintain_links env t"
  have q: "queue_ok ?t" "queued ?t = queued t" using ok(1) queued_cong [of ?t t] by simp_all
  have nz: "rcount (recv_queue (tc t)) \<noteq> 0" using ok(2) queued_length [of t] by (metis length_0_conv)
  obtain ps t1 where b: "batch_loop (length (queued t)) env max_len n [] ?t = (ps, t1)" by fastforce
  have s: "ps = fst (batch_spec max_len n (queued t)) \<and> queued t1 = snd (batch_spec max_len n (queued t)) \<and> queue_ok t1"
    using batch_loop_spec [OF q _ m(2) _ b] by simp
  have "softether_receive_batch env max_len n t = (Some ps, if ps = [] then t1 else
      t1\<lparr>stats_rx_packets := stats_rx_packets t1 + length ps, stats_rx_bytes := stats_rx_bytes t1 + length (concat ps)\<rparr>)"
    using st m nz b by (simp add: softether_receive_batch_def Let_def)
  moreover have "queued (if ps = [] then t1 else t1\<lparr>stats_rx_packets := k, stats_rx_bytes := l\<rparr>) = queued t1 \<and>
      queue_ok (if ps = [] then t1 else t1\<lparr>stats_rx_packets := k, stats_rx_bytes := l\<rparr>) = queue_ok t1" for k l
    by (rule queued_cong) simp
  moreover have "length (concat ps) \<le> max_len" "length ps \<le> n"
    using s batch_spec_bounds [of max_len n "queued t"] by simp_all
  ultimately show ?thesis using s by (simp del: if_split)
qed

text \<open>
  C23: the batched receive refines the abstract one. It hands out the packets of the longest
  run of queued frames that fits the buffer and the packet count, in order, skipping what
  carries no IP packet, and leaves the other frames queued; the buffer and the array of
  lengths are never overrun.
\<close>

theorem receive_batch_refines:
  assumes ok: "queue_ok t" "queued t \<noteq> []" and st: "cstate (tc t) = STATE_CONNECTED"
    and m: "0 < max_len" "max_len < 2 ^ 31" "0 < n"
  shows "\<exists>ps t'. softether_receive_batch env max_len n t = (Some ps, t') \<and>
     (ps, queued t') = batch_spec max_len n (queued t) \<and> queue_ok t' \<and>
     length (concat ps) \<le> max_len \<and> length ps \<le> n"
  by (rule receive_batch_spec [OF assms])

text \<open>
  A frame the caller's buffer cannot hold blocks the batched receive. When the packet of
  the oldest frame is longer than the whole buffer, a batch returns nothing and leaves the
  queue as it is, however often it is called, although the plain receive would drop the
  frame with an error.
\<close>

theorem batch_stuck:
  assumes ok: "queue_ok t" "queued t = fr # q" "deliver_ip fr = Some p" "length p > max_len"
    and st: "cstate (tc t) = STATE_CONNECTED" and m: "0 < max_len" "max_len < 2 ^ 31" "0 < n"
  shows "fst (softether_receive_batch env max_len n t) = Some [] \<and>
     queued (snd (softether_receive_batch env max_len n t)) = queued t \<and>
     fst (softether_receive env max_len t) = Rx_error"
proof -
  let ?t = "softether_maintain_links env t"
  have q: "queue_ok ?t" "queued ?t = fr # q" using ok(1,2) queued_cong [of ?t t] by simp_all
  obtain ps t1 where b: "batch_loop (length (fr # q)) env max_len n [] ?t = (ps, t1)" by fastforce
  have s: "ps = [] \<and> queued t1 = fr # q"
    using batch_loop_spec [OF q _ m(2) _ b] ok(3,4) m(3) by simp
  have nz: "rcount (recv_queue (tc t)) = length (fr # q)" using queued_count [OF ok(2)] by simp
  have "softether_receive_batch env max_len n t = (Some [], t1)"
    using st m nz b s by (simp add: softether_receive_batch_def Let_def)
  moreover have "softether_receive env max_len t = receive_frame env max_len ?t"
    using st m nz by (simp add: softether_receive_def Let_def)
  ultimately show ?thesis
    using receive_frame_spec(1) [OF q, of env max_len] s ok by (simp add: rx_of_def)
qed

text \<open>A session with one IPv4 frame queued.\<close>

definition tun2 :: tun_t where
  "tun2 = tun0\<lparr>tc := conn0\<lparr>recv_queue := ring_enq 64 (eth_frame tun0 [0x45, 1, 2]) (ring_new 64 [])\<rparr>\<rparr>"

lemma macs_ok_tun0: "macs_ok tun0"
  by (simp add: macs_ok_def tun0_def)

lemma tun2_queue: "queued tun2 = [eth_frame tun0 [0x45, 1, 2]]" "queue_ok tun2" "cstate (tc tun2) = STATE_CONNECTED"
  "deliver_ip (eth_frame tun0 [0x45, 1, 2]) = Some [0x45, 1, 2]"
proof -
  have r: "ring_inv 64 (ring_new 64 ([] :: bytes))" "rcount (ring_new 64 ([] :: bytes)) < 64"
    by (simp_all add: ring_inv_new) (simp add: ring_new_def)
  show q: "queued tun2 = [eth_frame tun0 [0x45, 1, 2]]"
    using conn_q.enq_contents [OF r] by (simp add: tun2_def queued_def)
  show "queue_ok tun2"
    using conn_q.enq_inv [OF r] q eth_frame_length [OF macs_ok_tun0]
    by (simp add: queue_ok_def MAX_QUEUED_FRAME_def) (simp add: tun2_def)
  show "cstate (tc tun2) = STATE_CONNECTED" by (simp add: tun2_def conn0_def)
  show "deliver_ip (eth_frame tun0 [0x45, 1, 2]) = Some [0x45, 1, 2]"
    by (rule deliver_eth_frame [OF macs_ok_tun0]) simp
qed

theorem receive_takes_one_witness:
  "fst (softether_receive tenv0 1500 tun2) = Rx_packet [0x45, 1, 2]"
  using receive_takes_one [OF tun2_queue(2,1,3), of 1500 tenv0] tun2_queue(4) by (simp add: rx_of_def)

theorem receive_batch_refines_witness:
  "fst (softether_receive_batch tenv0 65536 64 tun2) = Some [[0x45, 1, 2]]"
  using receive_batch_refines [OF tun2_queue(2) _ tun2_queue(3), of 65536 64 tenv0] tun2_queue(1,4) by auto

theorem batch_stuck_witness: "fst (softether_receive_batch tenv0 2 64 tun2) = Some []"
  using batch_stuck [OF tun2_queue(2,1,4) _ tun2_queue(3), of 2 64 tenv0] by simp

section \<open>From one end to the other\<close>

lemma send_over_tcp:
  assumes "macs_ok t" "data \<noteq> []" "conn_rudp (tc t) = None" "length (additional (tc t)) = 8" "fds_distinct (tc t)"
    and s: "softether_send env data t = (Some n, t')"
  shows "n = length data \<and> (\<exists>fd. written (txs (tc t') fd) = written (txs (tc t) fd) @ enc_message [eth_frame t data])"
proof -
  let ?fr = "eth_frame t data"
  let ?blk = "put_be32 1 @ put_be32 (word_of_nat (ETH_HEADER_SIZE + length data)) @ ?fr"
  have st: "cstate (tc t) = STATE_CONNECTED" "conn_ssl (tc t) \<noteq> None"
    using s assms(2) by (auto simp: softether_send_def split: if_splits)
  obtain ok c where b: "softether_transmit_block_nolock ?blk (tc t) = (ok, c)" by fastforce
  have r: "ok" "n = length data" "tc t' = c"
    using s b assms(2,3) st by (auto simp: softether_send_def softether_send_data_block_def try_rudp_def
        Let_def split: if_splits)
  have w: "\<exists>i \<in> set (send_candidates (tc t)). written (txs c (cand_fd (tc t) i)) = written (txs (tc t) (cand_fd (tc t) i)) @ ?blk"
    using transmit_block_ok [OF assms(4) st _ assms(5) b] r(1) by simp
  have "enc_message [?fr] = ?blk"
    using eth_frame_length [OF assms(1), of data] by (simp add: enc_message_def enc_blk_def ETH_HEADER_SIZE_def)
  then show ?thesis using w r by auto
qed

text \<open>
  C22: the tunnel carries IP packets unchanged over TCP. When a send of a packet of up to
  2034 bytes succeeds, some socket has been given bytes from which a receiving end in step
  with the stream, whose queue is empty, reads exactly that packet, whatever the TLS records
  look like and whatever follows.
\<close>

theorem tunnel_roundtrip:
  assumes "macs_ok t" "data \<noteq> []" "length data \<le> 2034" "conn_rudp (tc t) = None"
    and "length (additional (tc t)) = 8" "fds_distinct (tc t)"
    and "softether_send env data t = (Some n, t')"
  shows "\<exists>fd blk. written (txs (tc t') fd) = written (txs (tc t) fd) @ blk \<and>
     (\<forall>u f r max_len. avail (rxs (tc u) f) = blk @ r \<and> queued u = [] \<and> queue_ok u \<and> \<not> conn_compress (tc u) \<and>
        (\<forall>k. can_alloc (cheap (cenv env)) k) \<and> length data \<le> max_len \<longrightarrow>
        fst (receive_frame env max_len (u\<lparr>tc := snd (fill_message (cenv env) f None (tc u))\<rparr>)) = Rx_packet data)"
proof -
  let ?fr = "eth_frame t data"
  obtain fd where w: "written (txs (tc t') fd) = written (txs (tc t) fd) @ enc_message [?fr]"
    using send_over_tcp [OF assms(1,2,4-7)] by blast
  have len: "length ?fr = 14 + length data" by (rule eth_frame_length [OF assms(1)])
  have rcv: "fst (receive_frame env m (u\<lparr>tc := snd (fill_message (cenv env) f None (tc u))\<rparr>)) = Rx_packet data"
    if u: "avail (rxs (tc u) f) = enc_message [?fr] @ r" "queued u = []" "queue_ok u" "\<not> conn_compress (tc u)"
      "\<forall>k. can_alloc (cheap (cenv env)) k" "length data \<le> m" for u f r m
  proof -
    let ?c = "snd (fill_message (cenv env) f None (tc u))" and ?u = "u\<lparr>tc := snd (fill_message (cenv env) f None (tc u))\<rparr>"
    have q0: "ring_inv 64 (recv_queue (tc u))" "rcount (recv_queue (tc u)) = 0"
      using u(2,3) queued_length [of u] by (simp_all add: queue_ok_def)
    have "\<forall>b \<in> set [?fr]. length b \<le> MAX_BLOCK_SIZE" using len assms(3) by (simp add: MAX_BLOCK_SIZE_def)
    from fill_message_ok [OF q0(1) u(5) this _ u(1), of None]
    have f: "ring_inv 64 (recv_queue ?c)" "ring_contents (recv_queue ?c) = [?fr]"
      using u(2,4) q0(2) len assms(3) by (auto simp: queued_def conn_dec_def MAX_QUEUED_FRAME_def)
    have "queue_ok ?u" "queued ?u = [?fr]"
      using f len assms(3) by (simp_all add: queue_ok_def queued_def MAX_QUEUED_FRAME_def)
    from receive_frame_spec(1) [OF this] show ?thesis
      using u(6) by (simp add: rx_of_def deliver_eth_frame [OF assms(1,2)])
  qed
  show ?thesis by (intro exI [of _ fd] exI [of _ "enc_message [?fr]"]) (use w rcv in blast)
qed

lemma conn0_usable: "i \<le> 8 \<Longrightarrow> usable conn0 i \<longleftrightarrow> i = 0"
  by (cases i) (simp_all add: usable_def cand_fd_def conn0_def tcp0_def)

lemma fds_distinct_conn0: "fds_distinct conn0"
  using conn0_usable by (auto simp: fds_distinct_def)

lemma send_tun0: "\<exists>t'. softether_send tenv0 [0x45, 1, 2] tun0 = (Some 3, t')"
proof -
  let ?fr = "eth_frame tun0 [0x45, 1, 2]"
  let ?blk = "put_be32 1 @ put_be32 (word_of_nat (ETH_HEADER_SIZE + length [0x45, 1, 2 :: byte])) @ ?fr"
  obtain ok c where b: "softether_transmit_block_nolock ?blk conn0 = (ok, c)" by fastforce
  have c0: "length (additional conn0) = 8" "cstate conn0 = STATE_CONNECTED" "conn_ssl conn0 \<noteq> None" "8 \<le> length ?blk"
    by (simp_all add: conn0_def)
  have "takes conn0 ?blk 0"
    using conn0_usable [of 0] eth_frame_length [OF macs_ok_tun0] by (simp add: takes_def) (simp add: conn0_def)
  moreover have "0 \<in> set (send_candidates conn0)"
    by (simp add: send_candidates_def primary_sendable_def conn0_def can_send_def TCP_DIRECTION_BOTH_def)
  ultimately have "ok" using transmit_block_ok [OF c0 fds_distinct_conn0 b] by blast
  then show ?thesis
    using b by (simp add: softether_send_def softether_send_data_block_def try_rudp_def tun0_def conn0_def
        ETH_HEADER_SIZE_def)
qed

theorem tunnel_roundtrip_witness:
  "\<exists>t' fd blk. softether_send tenv0 [0x45, 1, 2] tun0 = (Some 3, t') \<and>
     written (txs (tc t') fd) = written (txs (tc tun0) fd) @ blk"
proof -
  obtain t' where t': "softether_send tenv0 [0x45, 1, 2] tun0 = (Some 3, t')" using send_tun0 by blast
  have "conn_rudp (tc tun0) = None" "length (additional (tc tun0)) = 8" "fds_distinct (tc tun0)"
    using fds_distinct_conn0 by (simp_all add: tun0_def) (simp_all add: conn0_def)
  from tunnel_roundtrip [OF macs_ok_tun0 _ _ this t'] t' show ?thesis by auto
qed

section \<open>ARP\<close>

text \<open>
  Address resolution between two clients. The request one side sends is recognised by
  the owner of the address as a request for it, and the reply goes to the asking side and is
  recognised there as coming from that address, with the owner's hardware address in it.
\<close>

theorem arp_roundtrip:
  assumes "macs_ok t" "macs_ok u" "assigned_ip u = ip" "ip \<noteq> 0" "q = arp_request t ip" "a = arp_reply u q"
  shows "is_arp q \<and> arp_request_for (assigned_ip u) q \<and> arp_reply_from ip a \<and>
     take 6 a = client_mac t \<and> take 6 (drop 22 a) = client_mac u \<and> get_be32 (drop 38 a) = assigned_ip t"
proof -
  have len: "length (client_mac t) = 6" "length (client_mac u) = 6" using assms(1,2) by (simp_all add: macs_ok_def)
  have q: "length q = 42" "take 6 (drop 6 q) = client_mac t" "drop 38 q = put_be32 ip"
    "take 6 (drop 22 q) = client_mac t" "take 4 (drop 28 q) = put_be32 (assigned_ip t)"
    "q ! 12 = 8" "q ! 13 = 6" "q ! 20 = 0" "q ! 21 = 1"
    using len assms(5) by (simp_all add: arp_request_def nth_append)
  have a: "length a = 42" "take 6 a = client_mac t" "take 6 (drop 22 a) = client_mac u"
    "drop 28 a = put_be32 ip @ client_mac t @ put_be32 (assigned_ip t)" "drop 38 a = put_be32 (assigned_ip t)"
    "a ! 12 = 8" "a ! 13 = 6" "a ! 20 = 0" "a ! 21 = 2"
    using len q assms(3,6) by (simp_all add: arp_reply_def nth_append)
  have g: "get_be32 (put_be32 v) = v" for v using get_put_be32 [of v "[]"] by simp
  show ?thesis
    using q a assms(3,4) g by (simp add: is_arp_def arp_request_for_def arp_reply_from_def)
qed

theorem arp_roundtrip_witness: "arp_reply_from (assigned_ip tun0) (arp_reply tun0 (arp_request tun0 (assigned_ip tun0)))"
  using arp_roundtrip [OF macs_ok_tun0 macs_ok_tun0 refl _ refl refl] by (simp add: tun0_def)

lemma try_rudp_state [simp]: "cstate (snd (try_rudp env fr c)) = cstate c"
  by (simp add: try_rudp_def Let_def case_prod_beta split: option.split)

lemma select_state [simp]: "cstate (snd (softether_select_send_socket c)) = cstate c"
  by (simp add: softether_select_send_socket_def Let_def)

lemma write_all_state [simp]: "cstate (snd (data_write_all bs c)) = cstate c"
  by (simp add: data_write_all_def)

lemma send_packet_state [simp]: "cstate (snd (softether_send_packet env b cmd p c)) = cstate c"
  by (simp add: softether_send_packet_def softether_send_keepalive_def softether_send_keepalive_sock_def
      Let_def case_prod_beta)

lemma send_raw_state [simp]: "cstate (tc (snd (softether_send_raw env fr t))) = cstate (tc t)"
  by (simp add: softether_send_raw_def softether_send_data_def Let_def case_prod_beta)

lemma receive_raw_queued:
  assumes "queue_ok t" "queued t = fr # q" "cstate (tc t) = STATE_CONNECTED"
  shows "softether_receive_raw env 2048 t = (Some fr, dequeue t)"
proof -
  have "length fr \<le> 2048" using assms(1,2) by (simp add: queue_ok_def MAX_QUEUED_FRAME_def)
  then show ?thesis
    using assms queued_front [OF assms(1,2)] queued_count [OF assms(2)]
    by (simp add: softether_receive_raw_def Let_def)
qed

lemma resolve_poll_queued:
  assumes "queue_ok t" "queued t = xs @ fr # ys" "cstate (tc t) = STATE_CONNECTED" "length xs < n"
    "\<forall>x \<in> set xs. \<not> arp_reply_from ip x" "arp_reply_from ip fr"
  shows "\<exists>t'. resolve_poll n env ip t = (True, t') \<and> gateway_mac t' = take 6 (drop 22 fr) \<and>
     gateway_mac_resolved t' \<and> queued t' = ys"
  using assms
proof (induction xs arbitrary: n t)
  case Nil
  then obtain k where k: "n = Suc k" by (cases n) auto
  have "queued (dequeue t) = ys" using queued_dequeue [OF Nil.prems(1), of fr ys] Nil.prems(2) by simp
  then show ?case
    using k Nil.prems receive_raw_queued [OF Nil.prems(1), of fr ys] by (simp add: queued_def)
next
  case (Cons x xs)
  then obtain k where k: "n = Suc k" by (cases n) auto
  have d: "queued (dequeue t) = xs @ fr # ys" "queue_ok (dequeue t)" "cstate (tc (dequeue t)) = STATE_CONNECTED"
    using queued_dequeue [OF Cons.prems(1), of x "xs @ fr # ys"] Cons.prems(2,3) by (simp_all add: dequeue_def)
  have "resolve_poll n env ip t = resolve_poll k env ip (dequeue t)"
    using k receive_raw_queued [OF Cons.prems(1), of x "xs @ fr # ys" env] Cons.prems by simp
  with Cons.IH [OF d(2,1,3), of k] Cons.prems k show ?case by simp
qed

text \<open>
  Resolving the gateway. If the gateway's reply is among the next forty frames, the
  resolution succeeds with the hardware address of the first such reply, all frames up to it
  are consumed and those behind it stay queued; frames from elsewhere do not mislead it.
\<close>

theorem resolve_gateway_finds:
  assumes "queue_ok t" "queued t = xs @ fr # ys" "cstate (tc t) = STATE_CONNECTED" "length xs < 40"
    "\<forall>x \<in> set xs. \<not> arp_reply_from ip x" "arp_reply_from ip fr"
  shows "\<exists>t'. softether_resolve_gateway env ip t = (True, t') \<and> gateway_mac_resolved t' \<and>
     gateway_mac t' = take 6 (drop 22 fr) \<and> queued t' = ys"
proof -
  let ?t = "t\<lparr>gateway_ip := ip\<rparr>"
  let ?t1 = "snd (softether_send_raw env (arp_request ?t ip) ?t)"
  have q: "queued ?t1 = queued t" "queue_ok ?t1" "cstate (tc ?t1) = STATE_CONNECTED"
    using queued_cong [of ?t1 t] assms(1,3) by simp_all
  obtain t' where "resolve_poll 40 env ip ?t1 = (True, t')" "gateway_mac t' = take 6 (drop 22 fr)"
    "gateway_mac_resolved t'" "queued t' = ys"
    using resolve_poll_queued [OF q(2) _ q(3) assms(4-6), of ys] q(1) assms(2) by auto
  then show ?thesis
    using assms(3) by (simp add: softether_resolve_gateway_def Let_def numeral_3_eq_3)
qed

definition tun3 :: tun_t where
  "tun3 = tun0\<lparr>tc := conn0\<lparr>recv_queue := ring_enq 64 (arp_reply (tun0\<lparr>assigned_ip := 0x0A000001\<rparr>)
     (arp_request tun0 0x0A000001)) (ring_new 64 [])\<rparr>\<rparr>"

theorem resolve_gateway_finds_witness:
  "\<exists>t'. softether_resolve_gateway tenv0 0x0A000001 tun3 = (True, t') \<and> gateway_mac t' = client_mac tun0"
proof -
  let ?a = "arp_reply (tun0\<lparr>assigned_ip := 0x0A000001\<rparr>) (arp_request tun0 0x0A000001)"
  have r: "ring_inv 64 (ring_new 64 ([] :: bytes))" "rcount (ring_new 64 ([] :: bytes)) < 64"
    by (simp_all add: ring_inv_new) (simp add: ring_new_def)
  have len: "length ?a = 42" by (simp add: arp_reply_def arp_request_def tun0_def)
  have q: "queued tun3 = [] @ ?a # []"
    using conn_q.enq_contents [OF r] by (simp add: tun3_def queued_def)
  have ok: "queue_ok tun3"
    using conn_q.enq_inv [OF r] q len by (simp add: queue_ok_def MAX_QUEUED_FRAME_def) (simp add: tun3_def)
  have st: "cstate (tc tun3) = STATE_CONNECTED" by (simp add: tun3_def conn0_def)
  have a: "arp_reply_from 0x0A000001 ?a" "take 6 (drop 22 ?a) = client_mac tun0"
    by (simp_all add: arp_reply_from_def arp_reply_def arp_request_def tun0_def nth_append)
  show ?thesis using resolve_gateway_finds [OF ok q st _ _ a(1), of tenv0] a(2) by auto
qed

section \<open>The session as a state machine\<close>

text \<open>
  A step of a session is one operation of the application's threads, or the completion of
  the background thread that opens an additional connection.
\<close>

inductive tun_step :: "tun_env \<Rightarrow> tun_t \<Rightarrow> tun_t \<Rightarrow> bool" for env where
  step_send: "tun_step env t (snd (softether_send env data t))"
| step_send_raw: "tun_step env t (snd (softether_send_raw env fr t))"
| step_receive: "tun_step env t (snd (softether_receive env m t))"
| step_receive_raw: "tun_step env t (snd (softether_receive_raw env m t))"
| step_batch: "tun_step env t (snd (softether_receive_batch env m n t))"
| step_receive_data: "tun_step env t (snd (softether_receive_data env m t))"
| step_check: "tun_step env t (snd (softether_check_connection env t))"
| step_resolve: "tun_step env t (snd (softether_resolve_gateway env ip t))"
| step_thread: "additional_connecting t \<Longrightarrow>
    \<forall>x \<in> set_option (d_ctx (dials env (dial_i t))). fresh_ctx x (tc t) \<Longrightarrow>
    additional_connect_thread_routine env t = Ret t' \<Longrightarrow> tun_step env t t'"
| step_disconnect: "tun_step env t (close_links t)"

inductive_cases tun_stepE: "tun_step env t t'"

definition tun_reach :: "tun_env \<Rightarrow> tun_t \<Rightarrow> tun_t \<Rightarrow> bool" where
  "tun_reach env = (tun_step env)\<^sup>*\<^sup>*"

lemma inv_rudp [simp]: "conn_inv (c\<lparr>conn_rudp := r\<rparr>) = conn_inv c"
  by (rule conn_inv_cong) simp_all

lemma inv_try_rudp [simp]: "conn_inv (snd (try_rudp env fr c)) = conn_inv c"
  by (simp add: try_rudp_def Let_def case_prod_beta split: option.split)

lemma inv_deq: "conn_inv (tc t) \<Longrightarrow> 0 < rcount (recv_queue (tc t)) \<Longrightarrow> conn_inv (tc (dequeue t))"
proof -
  assume a: "conn_inv (tc t)" "0 < rcount (recv_queue (tc t))"
  let ?c = "(tc t)\<lparr>recv_queue := ring_deq 64 (recv_queue (tc t))\<rparr>"
  have "ctx_owned ?c = ctx_owned (tc t)" by (rule ctx_owned_cong) simp_all
  then show ?thesis
    using a conn_q.deq_inv [of "recv_queue (tc t)"] by (simp add: dequeue_def conn_inv_def)
qed

lemma inv_send: "conn_inv (tc t) \<Longrightarrow> conn_inv (tc (snd (softether_send env data t)))"
  using conn_inv_transmit
  by (simp add: softether_send_def softether_send_data_block_def Let_def case_prod_beta split: option.split)

lemma inv_send_raw [simp]: "conn_inv (tc (snd (softether_send_raw env fr t))) = conn_inv (tc t)"
  by (simp add: softether_send_raw_def softether_send_data_def Let_def case_prod_beta conn_inv_send_packet)

lemma inv_reply [simp]: "conn_inv (tc (softether_reply_arp_request env d t)) = conn_inv (tc t)"
  by (simp add: softether_reply_arp_request_def)

lemma inv_fill: "conn_inv (tc t) \<Longrightarrow> conn_inv (tc (snd (fill env t)))"
  using conn_inv_fill [of "tc t" "cenv env"] by (simp add: fill_def Let_def case_prod_beta)

lemma inv_receive_frame:
  "conn_inv (tc t) \<Longrightarrow> 0 < rcount (recv_queue (tc t)) \<Longrightarrow> conn_inv (tc (snd (receive_frame env m t)))"
  using inv_deq [of t] inv_deq [of "softether_reply_arp_request env d t" for d]
  by (simp add: receive_frame_def Let_def)

text \<open>The common opening of the receive paths: read from the wire when the queue is empty.\<close>

definition refill :: "tun_env \<Rightarrow> tun_t \<Rightarrow> int \<times> tun_t" where
  "refill env t = (if rcount (recv_queue (tc t)) = 0 then fill env t else (1, t))"

lemma inv_refill: "conn_inv (tc t) \<Longrightarrow> conn_inv (tc (snd (refill env t)))"
  using inv_fill [of t env] by (simp add: refill_def)

lemma inv_receive: "conn_inv (tc t) \<Longrightarrow> conn_inv (tc (snd (softether_receive env m t)))"
proof -
  assume a: "conn_inv (tc t)"
  obtain rc t1 where f: "refill env (softether_maintain_links env t) = (rc, t1)" by fastforce
  then have "conn_inv (tc t1)" using inv_refill [OF conn_inv_maintain [OF a], of env] by (metis snd_conv)
  then show ?thesis
    using a f inv_receive_frame [of t1 env m]
    by (simp add: softether_receive_def refill_def [symmetric] Let_def)
qed

lemma inv_receive_raw: "conn_inv (tc t) \<Longrightarrow> conn_inv (tc (snd (softether_receive_raw env m t)))"
proof -
  assume a: "conn_inv (tc t)"
  obtain rc t1 where f: "refill env t = (rc, t1)" by fastforce
  then have "conn_inv (tc t1)" using inv_refill [OF a, of env] by (metis snd_conv)
  then show ?thesis
    using a f inv_deq [of t1] by (simp add: softether_receive_raw_def refill_def [symmetric] Let_def)
qed

lemma inv_batch_loop: "conn_inv (tc t) \<Longrightarrow> conn_inv (tc (snd (batch_loop k env m n ps t)))"
proof (induction k arbitrary: ps t)
  case (Suc k)
  have "conn_inv (tc (dequeue t))" "conn_inv (tc (dequeue (softether_reply_arp_request env d t)))"
    if "rcount (recv_queue (tc t)) \<noteq> 0" for d
    using inv_deq [of t] inv_deq [of "softether_reply_arp_request env d t"] that Suc.prems by simp_all
  then show ?case using Suc by (simp add: Let_def)
qed simp

lemma inv_batch: "conn_inv (tc t) \<Longrightarrow> conn_inv (tc (snd (softether_receive_batch env m n t)))"
proof -
  assume a: "conn_inv (tc t)"
  obtain rc t1 where f: "refill env (softether_maintain_links env t) = (rc, t1)" by fastforce
  then have t1: "conn_inv (tc t1)" using inv_refill [OF conn_inv_maintain [OF a], of env] by (metis snd_conv)
  obtain ps t2 where b: "batch_loop (rcount (recv_queue (tc t1))) env m n [] t1 = (ps, t2)" by fastforce
  then have "conn_inv (tc t2)" using inv_batch_loop [OF t1] by (metis snd_conv)
  then show ?thesis
    using a f t1 b by (simp add: softether_receive_batch_def refill_def [symmetric] Let_def)
qed

lemma inv_rudp_wait: "conn_inv (snd (rudp_wait env m c)) = conn_inv c"
proof -
  have k: "conn_inv (c\<lparr>poll_i := n\<rparr>) = conn_inv c" for c n by (rule conn_inv_cong) simp_all
  have t: "conn_inv (snd (rudp_take env m c)) = conn_inv c" for c
    by (simp add: rudp_take_def split: option.split prod.split)
  have t': "rudp_take env m c = (r, c') \<Longrightarrow> conn_inv c' = conn_inv c" for c r c'
    using t [of c] by simp
  show ?thesis
    by (auto simp: rudp_wait_def Let_def k t split: option.split prod.split poll_result.split dest: t')
qed

lemma inv_receive_data: "conn_inv (tc t) \<Longrightarrow> conn_inv (tc (snd (softether_receive_data env m t)))"
proof -
  assume a: "conn_inv (tc t)"
  obtain r c where w: "rudp_wait (cenv env) m (tc t) = (r, c)" by fastforce
  then have c: "conn_inv c" using inv_rudp_wait [of "cenv env" m "tc t"] a by simp
  obtain p c' where p: "softether_receive_packet (cenv env) m c = (p, c')" by fastforce
  then have "conn_inv c'" using conn_inv_receive_packet [of "cenv env" m c] c by simp
  then show ?thesis
    using a w c p by (auto simp: softether_receive_data_def conn_inv_keepalive split: option.split packet_result.split)
qed

lemma inv_check: "conn_inv (tc t) \<Longrightarrow> conn_inv (tc (snd (softether_check_connection env t)))"
  using conn_inv_receive_packet [of "cenv env" 512 "tc t"]
  by (auto simp: softether_check_connection_def split: prod.split packet_result.split)

lemma inv_resolve_poll: "conn_inv (tc t) \<Longrightarrow> conn_inv (tc (snd (resolve_poll n env ip t)))"
proof (induction n arbitrary: t)
  case (Suc n)
  obtain r t1 where r: "softether_receive_raw env 2048 t = (r, t1)" by fastforce
  then have "conn_inv (tc t1)" using inv_receive_raw [OF Suc.prems, of env 2048] by simp
  with Suc.IH r show ?case by (auto split: option.split)
qed simp

lemma inv_resolve: "conn_inv (tc t) \<Longrightarrow> conn_inv (tc (snd (softether_resolve_gateway env ip t)))"
proof -
  have at: "conn_inv (tc (snd (resolve_attempts n env ip req u)))" if "conn_inv (tc u)" for n req u
    using that
  proof (induction n arbitrary: u)
    case (Suc n)
    obtain b v where v: "resolve_poll 40 env ip u = (b, v)" by fastforce
    then have "conn_inv (tc v)" using inv_resolve_poll [OF Suc.prems, of 40 env ip] by simp
    with Suc.IH v show ?case by (cases b) simp_all
  qed simp
  assume "conn_inv (tc t)"
  then show ?thesis by (simp add: softether_resolve_gateway_def Let_def at)
qed

lemmas tun_inv_rules = inv_send inv_receive inv_receive_raw inv_batch inv_receive_data inv_check inv_resolve
  conn_inv_thread conn_inv_disconnect

lemma inv_step: "tun_step env t t' \<Longrightarrow> conn_inv (tc t) \<Longrightarrow> conn_inv (tc t')"
  by (induction rule: tun_step.induct) (simp_all add: tun_inv_rules)

interpretation session_life: step_invariant "tun_step env" "\<lambda>t. conn_inv (tc t)" for env
  by unfold_locales (rule inv_step)

text \<open>
  C21: the invariant of a session. In every state reached by any interleaving of sends,
  receives, batches, address resolution, completions of the background connection thread
  and disconnects, however often sockets fail on the way, no TLS context has been destroyed
  twice or is still in use after its destruction, none is in two slots, the connection count
  is the number of active slots, and the receive ring is well formed.
\<close>

theorem session_invariant:
  assumes "tun_reach env t t'" "conn_inv (tc t)"
  shows "conn_inv (tc t') \<and> distinct (destroyed (tc t')) \<and>
     (\<forall>i < 8. \<forall>x. ts_ctx (additional (tc t') ! i) = Some x \<longrightarrow> x \<notin> set (destroyed (tc t'))) \<and>
     (\<forall>x. conn_ssl (tc t') = Some x \<longrightarrow> x \<notin> set (destroyed (tc t'))) \<and>
     0 \<le> num_additional (tc t') \<and> num_additional (tc t') \<le> 8"
proof -
  have inv: "conn_inv (tc t')"
    using assms unfolding tun_reach_def by (rule session_life.run_keeps)
  then have own: "ctx_owned (tc t')" and p: "conn_ssl (tc t') = conn_ssl_ctx (tc t')"
    and n: "num_additional (tc t') = int (active_count (additional (tc t')))" "length (additional (tc t')) = 8"
    by (simp_all add: conn_inv_def)
  have "active_count (additional (tc t')) \<le> 8"
    using n(2) length_filter_le [of ts_active "additional (tc t')"] by (simp add: active_count_def)
  then show ?thesis using inv p n(1) ctx_ownedD(1,3,6) [OF own] by auto
qed

lemma conn_inv_tun2: "conn_inv (tc tun2)"
proof -
  have "ctx_owned (tc tun2) = ctx_owned conn0" by (rule ctx_owned_cong) (simp_all add: tun2_def)
  moreover have "ring_inv 64 (recv_queue (tc tun2))" using tun2_queue(2) by (simp add: queue_ok_def)
  moreover have "additional (tc tun2) = additional conn0" "num_additional (tc tun2) = num_additional conn0"
    "conn_ssl (tc tun2) = conn_ssl conn0" "conn_ssl_ctx (tc tun2) = conn_ssl_ctx conn0"
    by (simp_all add: tun2_def)
  ultimately show ?thesis using conn_inv_conn0 unfolding conn_inv_def by simp
qed

theorem session_invariant_witness:
  "distinct (destroyed (tc (close_links (snd (softether_receive tenv0 1500 tun2)))))"
proof -
  let ?t1 = "snd (softether_receive tenv0 1500 tun2)"
  have "tun_reach tenv0 tun2 (close_links ?t1)"
    unfolding tun_reach_def
    by (rule rtranclp.rtrancl_into_rtrancl [OF r_into_rtranclp [of "tun_step tenv0" tun2 ?t1]])
      (rule step_receive, rule step_disconnect)
  from session_invariant [OF this conn_inv_tun2] show ?thesis by blast
qed

end
