(* ===== verification/Rudp_Transport.thy ===== *)
theory Rudp_Transport
  imports Byte_Fifo Crypto Checksum
begin

text \<open>
  The R-UDP transport (\<^verbatim>\<open>rudp_transport.c\<close>): a byte stream over UDP, DNS or ICMP datagrams,
  which the rest of the client uses through one end of a socket pair as if it were a
  connected TCP socket. The theory has the segment format, the acknowledgement and window
  bookkeeping, the datagram handler, the periodic processing, one iteration of the worker
  thread and the connect call. Sequence numbers and ticks are 64-bit words, since the
  peer's arrive off the wire.

  The transport record carries the state of its surroundings too: the datagrams waiting in
  the UDP socket and those handed to \<^verbatim>\<open>sendto\<close> (whose failure is only logged), the two
  directions of the socket pair, the open descriptors, and how often each source of outside
  values (clock, \<^verbatim>\<open>rand\<close>, random bytes, socket-pair calls) has been used. SHA-1 is a
  parameter; RC4 is the native implementation.
\<close>

section \<open>Surroundings\<close>

text \<open>
  \<open>rt_rbytes i n\<close> is the \<open>i\<close>-th call of \<^verbatim>\<open>generate_random_bytes\<close>, for \<open>n\<close> bytes: whether it
  succeeds and what the buffer holds afterwards. \<open>pair_take\<close> says how many bytes a
  \<^verbatim>\<open>recv\<close> on the socket pair offers, \<open>pair_err\<close> whether it fails, \<open>pair_accept\<close> what a
  \<^verbatim>\<open>send\<close> comes to.
\<close>

datatype pair_send = Sent nat | Again | Broken
datatype pair_recv = Got bytes | Nothing_yet | Closed | Failed

record rt_env =
  rt_sha1 :: "bytes \<Rightarrow> bytes"
  rt_tick :: "nat \<Rightarrow> u64"
  rt_rand :: "nat \<Rightarrow> nat"
  rt_rbytes :: "nat \<Rightarrow> nat \<Rightarrow> bool \<times> bytes"
  pair_take :: "nat \<Rightarrow> nat"
  pair_err :: "nat \<Rightarrow> bool"
  pair_accept :: "nat \<Rightarrow> pair_send"

text \<open>The documented behaviour of the library calls the proofs rely on.\<close>

definition rt_env_ok :: "rt_env \<Rightarrow> bool" where
  "rt_env_ok env \<longleftrightarrow> (\<forall>d. length (rt_sha1 env d) = 20) \<and>
     (\<forall>i n. length (snd (rt_rbytes env i n)) = n)"

section \<open>State\<close>

definition RUDP_T_SHA1_SIZE :: nat where "RUDP_T_SHA1_SIZE = 20"
definition RUDP_T_RESEND_TIMER :: u64 where "RUDP_T_RESEND_TIMER = 200"
definition RUDP_T_RESEND_TIMER_MAX :: u64 where "RUDP_T_RESEND_TIMER_MAX = 4792"
definition RUDP_T_KEEPALIVE_MIN :: u64 where "RUDP_T_KEEPALIVE_MIN = 2500"
definition RUDP_T_KEEPALIVE_MAX :: u64 where "RUDP_T_KEEPALIVE_MAX = 4792"
definition RUDP_T_TIMEOUT_MS :: u64 where "RUDP_T_TIMEOUT_MS = 12000"
definition RUDP_T_LOOP_WAIT_MS :: u64 where "RUDP_T_LOOP_WAIT_MS = 100"
definition RUDP_T_MAX_SEGMENT_SIZE :: nat where "RUDP_T_MAX_SEGMENT_SIZE = 512"
definition RUDP_T_MAX_NUM_ACK :: nat where "RUDP_T_MAX_NUM_ACK = 64"
definition RUDP_T_MAX_FIFO_SIZE :: nat where "RUDP_T_MAX_FIFO_SIZE = 512 * 1024"
definition RUDP_T_MAX_PACKET_SIZE :: nat where
  "RUDP_T_MAX_PACKET_SIZE = RUDP_T_MAX_SEGMENT_SIZE + 8 * RUDP_T_MAX_NUM_ACK +
     RUDP_T_SHA1_SIZE * 2 + 8 * 4 + 4 + 255"

definition RUDP_T_ERR_OK :: nat where "RUDP_T_ERR_OK = 0"
definition RUDP_T_ERR_UNKNOWN :: nat where "RUDP_T_ERR_UNKNOWN = 1"
definition RUDP_T_ERR_TIMEOUT :: nat where "RUDP_T_ERR_TIMEOUT = 2"

definition RUDP_T_MODE_UDP :: nat where "RUDP_T_MODE_UDP = 0"
definition RUDP_T_MODE_DNS :: nat where "RUDP_T_MODE_DNS = 1"
definition RUDP_T_MODE_ICMP :: nat where "RUDP_T_MODE_ICMP = 2"

lemmas rt_consts = RUDP_T_SHA1_SIZE_def RUDP_T_RESEND_TIMER_def RUDP_T_RESEND_TIMER_MAX_def
  RUDP_T_KEEPALIVE_MIN_def RUDP_T_KEEPALIVE_MAX_def RUDP_T_TIMEOUT_MS_def
  RUDP_T_LOOP_WAIT_MS_def RUDP_T_MAX_SEGMENT_SIZE_def RUDP_T_MAX_NUM_ACK_def
  RUDP_T_MAX_FIFO_SIZE_def RUDP_T_MAX_PACKET_SIZE_def RUDP_T_ERR_OK_def
  RUDP_T_ERR_UNKNOWN_def RUDP_T_ERR_TIMEOUT_def RUDP_T_MODE_UDP_def RUDP_T_MODE_DNS_def
  RUDP_T_MODE_ICMP_def

datatype rt_status = RT_STATUS_CONNECT_SENT | RT_STATUS_ESTABLISHED | RT_STATUS_DISCONNECTED

text \<open>
  A segment's \<open>seg_data\<close> is the first \<^verbatim>\<open>size\<close> bytes of its 512-byte array; the three
  64-entry tables with their counters are lists.
\<close>

record rt_segment_t =
  seg_seq :: u64
  seg_data :: bytes
  next_send_tick :: u64
  num_sent :: u32

record rt_session_t =
  status :: rt_status
  key_init :: bytes
  key_send :: bytes
  key_recv :: bytes
  magic_req :: bytes
  magic_resp :: bytes
  magic_disconnect :: u64
  rt_next_iv :: bytes
  next_send_seq :: u64
  last_recv_complete_seq :: u64
  your_tick :: u64
  latest_recv_my_tick :: u64
  current_rtt :: u32
  last_sent_tick :: u64
  next_keepalive_interval :: u64
  created_tick :: u64
  your_ip :: u32
  your_port :: u16
  send_segments :: "rt_segment_t list"
  recv_segments :: "rt_segment_t list"
  reply_acks :: "u64 list"
  send_fifo :: rt_fifo_t
  recv_fifo :: rt_fifo_t

record rudp_transport =
  t_udp_fd :: int
  app_fd :: int
  worker_fd :: int
  error_code :: nat
  halt :: bool
  thread_started :: bool
  connect_timeout_ms :: u32
  result_ready :: bool
  result_ok :: bool
  transport_mode :: nat
  dns_tran_id :: u16
  client_icmp_id :: u16
  client_icmp_seq :: u16
  se :: rt_session_t
  udp_in :: "(u32 \<times> u16 \<times> bytes) list"
  udp_out :: "(u32 \<times> u16 \<times> bytes) list"
  pair_in :: bytes
  pair_eof :: bool
  pair_out :: bytes
  pair_shut :: bool
  open_fds :: "int list"
  tick_i :: nat
  rand_i :: nat
  rb_i :: nat
  rcv_i :: nat
  snd_i :: nat

definition rt_tick64 :: "rt_env \<Rightarrow> rudp_transport \<Rightarrow> u64 \<times> rudp_transport" where
  "rt_tick64 env t = (rt_tick env (tick_i t), t\<lparr>tick_i := tick_i t + 1\<rparr>)"

definition c_rand :: "rt_env \<Rightarrow> rudp_transport \<Rightarrow> nat \<times> rudp_transport" where
  "c_rand env t = (rt_rand env (rand_i t), t\<lparr>rand_i := rand_i t + 1\<rparr>)"

definition generate_random_bytes ::
  "rt_env \<Rightarrow> nat \<Rightarrow> rudp_transport \<Rightarrow> (bool \<times> bytes) \<times> rudp_transport" where
  "generate_random_bytes env n t = (rt_rbytes env (rb_i t) n, t\<lparr>rb_i := rb_i t + 1\<rparr>)"

text \<open>Changing the session inside the transport, \<^verbatim>\<open>se = &t->se\<close>.\<close>

definition on_se :: "(rt_session_t \<Rightarrow> rt_session_t) \<Rightarrow> rudp_transport \<Rightarrow> rudp_transport" where
  "on_se f t = t\<lparr>se := f (se t)\<rparr>"

section \<open>Framing a datagram\<close>

definition sendto :: "bytes \<Rightarrow> rudp_transport \<Rightarrow> rudp_transport" where
  "sendto pkt t = t\<lparr>udp_out := udp_out t @ [(your_ip (se t), your_port (se t), pkt)]\<rparr>"

definition hex_label :: "bytes \<Rightarrow> bytes" where
  "hex_label rd = concat (map (\<lambda>b. [hex_digit (drop_bit 4 b AND 15), hex_digit (b AND 15)]) rd)"

definition dns_qhdr :: bytes where
  "dns_qhdr = [1, 0, 0, 1, 0, 0, 0, 0, 0, 1, 8]"

definition dns_qtail :: bytes where
  "dns_qtail = [0, 0, 0x30, 0, 1, 0, 0x29, 0x10, 0, 0, 0, 0x80, 0]"

definition dns_frame :: "u16 \<Rightarrow> bytes \<Rightarrow> bytes \<Rightarrow> bytes" where
  "dns_frame tran_id rand_data data =
     put_be16 tran_id @ dns_qhdr @ hex_label rand_data @ dns_qtail @
     put_be16 (word_of_nat (length data)) @ data"

text \<open>The echo request with its checksum field cleared, and with the checksum filled in.\<close>

definition icmp_clear :: "rt_env \<Rightarrow> u16 \<Rightarrow> u16 \<Rightarrow> bytes \<Rightarrow> bytes" where
  "icmp_clear env ident sq data =
     [8, 0, 0, 0] @ put_be16 ident @ put_be16 sq @ rt_sha1 env data @ data"

definition icmp_checksum :: "bytes \<Rightarrow> u16" where
  "icmp_checksum pkt = NOT (word_of_nat (fold_carry (u32n (sum_be pkt))))"

definition icmp_frame :: "rt_env \<Rightarrow> u16 \<Rightarrow> u16 \<Rightarrow> bytes \<Rightarrow> bytes" where
  "icmp_frame env ident sq data = (let pkt = icmp_clear env ident sq data
     in take 2 pkt @ put_be16 (icmp_checksum pkt) @ drop 4 pkt)"

text \<open>The frame of the transport mode; DNS mode draws the label.\<close>

definition rt_transmit :: "rt_env \<Rightarrow> bytes \<Rightarrow> rudp_transport \<Rightarrow> rudp_transport" where
  "rt_transmit env data t =
     (if transport_mode t = RUDP_T_MODE_DNS then
        let ((_, rand_data), t) = generate_random_bytes env 4 t
        in sendto (dns_frame (dns_tran_id t) rand_data data) t
      else if transport_mode t = RUDP_T_MODE_ICMP then
        sendto (icmp_frame env (client_icmp_id t) (client_icmp_seq t) data) t
      else sendto data t)"

definition stamp_sent :: "rt_env \<Rightarrow> nat \<Rightarrow> rudp_transport \<Rightarrow> rudp_transport" where
  "stamp_sent env sz t = (if sz \<ge> 1 then
       let (tk, t) = rt_tick64 env t in on_se (\<lambda>s. s\<lparr>last_sent_tick := tk\<rparr>) t
     else t)"

definition rt_send_udp :: "rt_env \<Rightarrow> bytes \<Rightarrow> rudp_transport \<Rightarrow> rudp_transport" where
  "rt_send_udp env data t = (let sz = length data;
       t = stamp_sent env sz (rt_transmit env data t) in
     if transport_mode t = RUDP_T_MODE_UDP then
       let (r, t) = c_rand env t;
           pos = r mod (if sz > RUDP_T_SHA1_SIZE then sz - RUDP_T_SHA1_SIZE else 1)
       in on_se (\<lambda>s. s\<lparr>rt_next_iv := take RUDP_T_SHA1_SIZE (drop pos data)\<rparr>) t
     else
       let ((_, iv), t) = generate_random_bytes env RUDP_T_SHA1_SIZE t
       in on_se (\<lambda>s. s\<lparr>rt_next_iv := iv\<rparr>) t)"

section \<open>Segments\<close>

text \<open>
  A segment on the wire: signature, IV, and behind the IV, RC4-encrypted, the ticks, the
  cumulative and the selective acknowledgements, the sequence number, data and padding.
\<close>

definition segment_body ::
  "u64 \<Rightarrow> u64 \<Rightarrow> u64 \<Rightarrow> u64 list \<Rightarrow> u64 \<Rightarrow> bytes \<Rightarrow> nat \<Rightarrow> bytes" where
  "segment_body my_tick yr_tick max_ack acks sq data padlen =
     put_be64 my_tick @ put_be64 yr_tick @ put_be64 max_ack @
     put_be32 (word_of_nat (length acks)) @ concat (map put_be64 acks) @
     put_be64 sq @ data @ replicate padlen (word_of_nat padlen)"

definition rt_key :: "rt_env \<Rightarrow> bytes \<Rightarrow> bytes \<Rightarrow> bytes" where
  "rt_key env iv key = rt_sha1 env (iv @ key)"

definition seal_segment :: "rt_env \<Rightarrow> bytes \<Rightarrow> bytes \<Rightarrow> bytes \<Rightarrow> bytes" where
  "seal_segment env key iv body = (let enc = rc4_crypt (rt_key env iv key) body
     in rt_sha1 env (key @ iv @ enc) @ iv @ enc)"

definition rt_send_segment_now :: "rt_env \<Rightarrow> u64 \<Rightarrow> bytes \<Rightarrow> rudp_transport \<Rightarrow> rudp_transport" where
  "rt_send_segment_now env sq data t =
     (let (tk, t) = rt_tick64 env t; s = se t;
          acks = take RUDP_T_MAX_NUM_ACK (reply_acks s);
          t = on_se (\<lambda>s. s\<lparr>reply_acks := []\<rparr>) t;
          (r, t) = c_rand env t; padlen = r mod 255 + 1;
          pkt = seal_segment env (key_send s) (rt_next_iv s)
            (segment_body tk (your_tick s) (last_recv_complete_seq s) acks sq data padlen);
          t = stamp_sent env (length data) (rt_send_udp env pkt t);
          (r, t) = c_rand env t; pos = r mod (length pkt - RUDP_T_SHA1_SIZE)
      in on_se (\<lambda>s. s\<lparr>rt_next_iv := take RUDP_T_SHA1_SIZE (drop pos pkt)\<rparr>) t)"

definition rt_queue_segment :: "bytes \<Rightarrow> rt_session_t \<Rightarrow> rt_session_t" where
  "rt_queue_segment data s = (if length (send_segments s) \<ge> RUDP_T_MAX_NUM_ACK then s
     else s\<lparr>send_segments := send_segments s @
         [\<lparr>seg_seq = next_send_seq s, seg_data = data, next_send_tick = 0, num_sent = 0\<rparr>],
       next_send_seq := next_send_seq s + 1\<rparr>)"

fun delete_seq :: "u64 \<Rightarrow> rt_segment_t list \<Rightarrow> rt_segment_t list" where
  "delete_seq sq [] = []"
| "delete_seq sq (s # r) = (if seg_seq s = sq then r else s # delete_seq sq r)"

definition rt_process_ack :: "u64 \<Rightarrow> rt_session_t \<Rightarrow> rt_session_t" where
  "rt_process_ack sq s = s\<lparr>send_segments := delete_seq sq (send_segments s)\<rparr>"

text \<open>
  The cumulative acknowledgement, \<^verbatim>\<open>while (i < send_count)\<close>: what is at \<open>i\<close> is moved over when
  covered, passed otherwise.
\<close>

definition rt_process_ack2 :: "u64 \<Rightarrow> rt_session_t \<Rightarrow> rt_session_t" where
  "rt_process_ack2 max_seq s =
     s\<lparr>send_segments := filter (\<lambda>g. \<not> seg_seq g \<le> max_seq) (send_segments s)\<rparr>"

definition rt_add_ack :: "u64 \<Rightarrow> rt_session_t \<Rightarrow> rt_session_t" where
  "rt_add_ack sq s = (if sq \<in> set (reply_acks s) then s
     else if length (reply_acks s) < RUDP_T_MAX_NUM_ACK then s\<lparr>reply_acks := reply_acks s @ [sq]\<rparr>
     else s)"

definition rt_process_recv_payload :: "u64 \<Rightarrow> bytes \<Rightarrow> rt_session_t \<Rightarrow> rt_session_t" where
  "rt_process_recv_payload sq payload s =
     (if sq > last_recv_complete_seq s + word_of_nat RUDP_T_MAX_NUM_ACK then s
      else if sq \<le> last_recv_complete_seq s then rt_add_ack sq s
      else if sq \<in> set (map seg_seq (recv_segments s)) then rt_add_ack sq s
      else if length (recv_segments s) \<ge> RUDP_T_MAX_NUM_ACK then s
      else rt_add_ack sq (s\<lparr>recv_segments := recv_segments s @
        [\<lparr>seg_seq = sq, seg_data = payload, next_send_tick = 0, num_sent = 0\<rparr>]\<rparr>))"

section \<open>Ending the session\<close>

definition rt_signal_result :: "bool \<Rightarrow> rudp_transport \<Rightarrow> rudp_transport" where
  "rt_signal_result ok t = (if result_ready t then t else t\<lparr>result_ready := True, result_ok := ok\<rparr>)"

definition rt_set_disconnected :: "rt_env \<Rightarrow> bool \<Rightarrow> rudp_transport \<Rightarrow> rudp_transport" where
  "rt_set_disconnected env by_you t =
     (if status (se t) = RT_STATUS_DISCONNECTED then t
      else let
        t = (if \<not> by_you \<and> status (se t) = RT_STATUS_ESTABLISHED
             then (rt_send_segment_now env (magic_disconnect (se t)) [] ^^ 5) t else t);
        t = on_se (\<lambda>s. s\<lparr>status := RT_STATUS_DISCONNECTED\<rparr>) t;
        t = (if worker_fd t \<ge> 0 then t\<lparr>pair_shut := True\<rparr> else t)
      in rt_signal_result False t)"

section \<open>Receiving a datagram\<close>

text \<open>
  Checking the signature, decrypting and taking apart a datagram: \<open>None\<close> is every early
  return before the first effect. The fields are the peer's tick, our tick echoed, the
  cumulative and the selective acknowledgements, the sequence number and the data.
\<close>

type_synonym segment_fields = "u64 \<times> u64 \<times> u64 \<times> u64 list \<times> u64 \<times> bytes"

definition parse_segment :: "bytes \<Rightarrow> segment_fields option" where
  "parse_segment enc = (if enc = [] then None
     else let padlen = unat (last enc) in
       if padlen = 0 then None
       else if length enc < padlen then None
       else let enc = take (length enc - padlen) enc in
         if length enc < 8 + 8 + 8 + 4 + 8 then None
         else let num_ack = get_be32 (drop 24 enc); n = unat num_ack in
           if n > RUDP_T_MAX_NUM_ACK then None
           else if length enc < 8 + 8 + 8 + 4 + n * 8 + 8 then None
           else Some (get_be64 enc, get_be64 (drop 8 enc), get_be64 (drop 16 enc),
             map (\<lambda>i. get_be64 (drop (28 + 8 * i) enc)) [0..<n],
             get_be64 (drop (28 + 8 * n) enc), drop (36 + 8 * n) enc))"

definition open_segment :: "rt_env \<Rightarrow> bytes \<Rightarrow> bytes \<Rightarrow> segment_fields option" where
  "open_segment env key buf = (let pkt = take RUDP_T_MAX_PACKET_SIZE buf;
       sign = take RUDP_T_SHA1_SIZE pkt in
     if rt_sha1 env (key @ drop RUDP_T_SHA1_SIZE pkt) \<noteq> sign then None
     else if length pkt < RUDP_T_SHA1_SIZE * 2 then None
     else let iv = take RUDP_T_SHA1_SIZE (drop RUDP_T_SHA1_SIZE pkt)
       in parse_segment (rc4_crypt (rt_key env iv key) (drop (RUDP_T_SHA1_SIZE * 2) pkt)))"

definition note_ticks :: "u64 \<Rightarrow> u64 \<Rightarrow> rt_session_t \<Rightarrow> rt_session_t" where
  "note_ticks my_tick yr_tick s = (let my_tick = (if my_tick \<ge> 2 then my_tick - 1 else my_tick);
       s = (if my_tick > your_tick s then s\<lparr>your_tick := my_tick\<rparr> else s)
     in if yr_tick > latest_recv_my_tick s then s\<lparr>latest_recv_my_tick := yr_tick\<rparr> else s)"

definition process_acks :: "u64 \<Rightarrow> u64 list \<Rightarrow> rt_session_t \<Rightarrow> rt_session_t" where
  "process_acks max_ack acks s =
     fold rt_process_ack acks (if max_ack \<ge> 1 then rt_process_ack2 max_ack s else s)"

text \<open>The effects of a datagram that passed every check.\<close>

definition accept_segment ::
  "rt_env \<Rightarrow> u16 \<Rightarrow> segment_fields \<Rightarrow> rudp_transport \<Rightarrow> rudp_transport" where
  "accept_segment env src_port = (\<lambda>(my_tick, yr_tick, max_ack, acks, sq, payload) t.
     let t = on_se (note_ticks my_tick yr_tick \<circ> process_acks max_ack acks) t in
     if sq = 0 then t
     else if sq = magic_disconnect (se t) then rt_set_disconnected env True t
     else let
       payload = (if length payload > RUDP_T_MAX_SEGMENT_SIZE then [] else payload);
       t = (if length payload \<ge> 1 then on_se (rt_process_recv_payload sq payload) t else t);
       t = (if status (se t) = RT_STATUS_CONNECT_SENT
            then rt_signal_result True (on_se (\<lambda>s. s\<lparr>status := RT_STATUS_ESTABLISHED\<rparr>) t) else t)
     in on_se (\<lambda>s. s\<lparr>your_port := src_port\<rparr>) t)"

definition rt_handle_udp_packet ::
  "rt_env \<Rightarrow> u32 \<Rightarrow> u16 \<Rightarrow> bytes \<Rightarrow> rudp_transport \<Rightarrow> rudp_transport" where
  "rt_handle_udp_packet env src_ip src_port buf t =
     (if status (se t) = RT_STATUS_DISCONNECTED then t
      else if length buf < RUDP_T_SHA1_SIZE then t
      else if length buf < 20 then
        if status (se t) = RT_STATUS_CONNECT_SENT \<and> src_ip = your_ip (se t)
        then on_se (\<lambda>s. s\<lparr>your_port := src_port\<rparr>) t else t
      else case open_segment env (key_recv (se t)) buf of
        None \<Rightarrow> t
      | Some g \<Rightarrow> let (tk, t) = rt_tick64 env t in
          if fst (snd g) > tk then t else accept_segment env src_port g t)"

section \<open>The socket pair\<close>

text \<open>
  After \<^verbatim>\<open>shutdown\<close> a \<^verbatim>\<open>send\<close> fails and a \<^verbatim>\<open>recv\<close> yields what is still buffered, then
  end-of-file.
\<close>

definition send_pair :: "rt_env \<Rightarrow> rudp_transport \<Rightarrow> pair_send \<times> rudp_transport" where
  "send_pair env t = (if pair_shut t then Broken else pair_accept env (snd_i t),
     t\<lparr>snd_i := snd_i t + 1\<rparr>)"

definition recv_pair :: "rt_env \<Rightarrow> rudp_transport \<Rightarrow> pair_recv \<times> rudp_transport" where
  "recv_pair env t = (let t' = t\<lparr>rcv_i := rcv_i t + 1\<rparr> in
     if pair_err env (rcv_i t) then (Failed, t')
     else if pair_in t = [] then (if pair_eof t \<or> pair_shut t then Closed else Nothing_yet, t')
     else let k = min RUDP_T_MAX_SEGMENT_SIZE (Suc (pair_take env (rcv_i t)))
       in (Got (take k (pair_in t)), t'\<lparr>pair_in := drop k (pair_in t)\<rparr>))"

function rt_pump_recv_to_pair :: "rt_env \<Rightarrow> rudp_transport \<Rightarrow> rudp_transport" where
  "rt_pump_recv_to_pair env t = (let f = recv_fifo (se t) in
     if fsize f \<ge> 1 then
       let n = min (fsize f) RUDP_T_MAX_SEGMENT_SIZE; tmp = rt_fifo_peek f n in
       case send_pair env t of
         (Again, t1) \<Rightarrow> t1
       | (Broken, t1) \<Rightarrow> rt_set_disconnected env False t1
       | (Sent k, t1) \<Rightarrow> (let w = min k n in
           if w = 0 then t1
           else rt_pump_recv_to_pair env (on_se (\<lambda>s. s\<lparr>recv_fifo := rt_fifo_advance f w\<rparr>)
             (t1\<lparr>pair_out := pair_out t1 @ take w tmp\<rparr>)))
     else t)"
  by pat_completeness auto
termination
  by (relation "measure (\<lambda>(env, t). fsize (recv_fifo (se t)))")
    (auto simp: send_pair_def on_se_def rt_fifo_advance_def Let_def RUDP_T_MAX_SEGMENT_SIZE_def)

function rt_pump_pair_to_send :: "rt_env \<Rightarrow> rudp_transport \<Rightarrow> rudp_transport" where
  "rt_pump_pair_to_send env t =
     (if fsize (send_fifo (se t)) \<ge> RUDP_T_MAX_FIFO_SIZE then t
      else case recv_pair env t of
        (Nothing_yet, t1) \<Rightarrow> t1
      | (Failed, t1) \<Rightarrow> rt_set_disconnected env False t1
      | (Closed, t1) \<Rightarrow> rt_set_disconnected env False t1
      | (Got tmp, t1) \<Rightarrow> rt_pump_pair_to_send env (on_se (\<lambda>s.
          case rt_fifo_write (send_fifo s) tmp of None \<Rightarrow> s | Some f \<Rightarrow> s\<lparr>send_fifo := f\<rparr>) t1))"
  by pat_completeness auto
termination
  by (relation "measure (\<lambda>(env, t). length (pair_in t))")
    (auto simp: recv_pair_def on_se_def Let_def RUDP_T_MAX_SEGMENT_SIZE_def split: if_splits)

definition seq_min :: "rt_session_t \<Rightarrow> u64" where
  "seq_min s = (case send_segments s of [] \<Rightarrow> 0 | g # _ \<Rightarrow> seg_seq g)"

definition window_full :: "rt_session_t \<Rightarrow> bool" where
  "window_full s \<longleftrightarrow> seq_min s \<noteq> 0 \<and> seq_min s + word_of_nat RUDP_T_MAX_NUM_ACK - 1 < next_send_seq s"

function rt_segment_send_fifo :: "rt_session_t \<Rightarrow> rt_session_t" where
  "rt_segment_send_fifo s =
     (if window_full s then s
      else let f = send_fifo s in
        if fsize f = 0 then s
        else let n = min (fsize f) RUDP_T_MAX_SEGMENT_SIZE
          in rt_segment_send_fifo
            ((rt_queue_segment (rt_fifo_peek f n) s)\<lparr>send_fifo := rt_fifo_advance f n\<rparr>))"
  by pat_completeness auto
termination
  by (relation "measure (\<lambda>s. fsize (send_fifo s))")
    (auto simp: rt_fifo_advance_def Let_def RUDP_T_MAX_SEGMENT_SIZE_def)

declare rt_pump_recv_to_pair.simps [simp del] rt_pump_pair_to_send.simps [simp del]
  rt_segment_send_fifo.simps [simp del]

section \<open>Periodic processing\<close>

text \<open>One segment taken from the table, as the body of the drain loop does it: \<open>None\<close> is the \<^verbatim>\<open>break\<close> on a full FIFO.\<close>

definition drain_one :: "rt_segment_t \<Rightarrow> rt_session_t \<Rightarrow> rt_session_t option" where
  "drain_one g s = (if length (seg_data g) = RUDP_T_SHA1_SIZE \<and> seg_data g = magic_req s then
       Some (if send_segments s = [] then rt_queue_segment (magic_resp s) s else s)
     else if length (seg_data g) = RUDP_T_SHA1_SIZE \<and> seg_data g = magic_resp s then Some s
     else map_option (\<lambda>f. s\<lparr>recv_fifo := f\<rparr>) (rt_fifo_write (recv_fifo s) (seg_data g)))"

text \<open>
  Moving in-order segments into the receive FIFO: the loop over \<^verbatim>\<open>recv_segments\<close> from index
  0, with the number of segments drained and the session; the caller then drops them from
  the front of the table.
\<close>

fun drain_loop :: "rt_segment_t list \<Rightarrow> u64 \<Rightarrow> rt_session_t \<Rightarrow> nat \<times> rt_session_t" where
  "drain_loop [] cur s = (0, s)"
| "drain_loop (g # r) cur s = (let cur = cur + 1 in
     if seg_seq g \<noteq> cur then (0, s)
     else case drain_one g s of
       None \<Rightarrow> (0, s)
     | Some s1 \<Rightarrow> (let (n, s2) = drain_loop r cur (s1\<lparr>last_recv_complete_seq := seg_seq g\<rparr>)
                  in (Suc n, s2)))"

definition rt_drain :: "rt_session_t \<Rightarrow> rt_session_t" where
  "rt_drain s = (let (n, s') = drain_loop (recv_segments s) (last_recv_complete_seq s) s
     in s'\<lparr>recv_segments := drop n (recv_segments s')\<rparr>)"

definition keepalive_interval :: "rt_env \<Rightarrow> rudp_transport \<Rightarrow> u64 \<times> rudp_transport" where
  "keepalive_interval env t = (let (r, t) = c_rand env t
     in (RUDP_T_KEEPALIVE_MIN +
         word_of_nat (r mod unat (RUDP_T_KEEPALIVE_MAX - RUDP_T_KEEPALIVE_MIN)), t))"

definition rt_keepalive :: "rt_env \<Rightarrow> u64 \<Rightarrow> rudp_transport \<Rightarrow> rudp_transport" where
  "rt_keepalive env now t = (let s = se t in
     if last_sent_tick s = 0 \<or> now \<ge> last_sent_tick s + next_keepalive_interval s then
       let t = (if send_segments s = [] then on_se (rt_queue_segment (magic_req s)) t else t);
           (v, t) = keepalive_interval env t
       in on_se (\<lambda>s. s\<lparr>next_keepalive_interval := v\<rparr>) t
     else t)"

text \<open>The retransmission interval doubles with each transmission, in \<^verbatim>\<open>uint32_t\<close> arithmetic.\<close>

definition resend_interval :: "u32 \<Rightarrow> u32 \<Rightarrow> u32" where
  "resend_interval rtt sent = (let shift = (if sent < 10 then sent else 10);
       iv = (if rtt \<noteq> 0 then (rtt * 120 div 100) * push_bit (unat shift) 1
             else ucast RUDP_T_RESEND_TIMER * push_bit (unat shift) 1)
     in if iv > ucast RUDP_T_RESEND_TIMER_MAX then ucast RUDP_T_RESEND_TIMER_MAX else iv)"

definition resend_one :: "rt_env \<Rightarrow> u64 \<Rightarrow> u64 \<Rightarrow> nat \<Rightarrow> rudp_transport \<Rightarrow> rudp_transport" where
  "resend_one env now smin j t = (let g = send_segments (se t) ! j in
     if seg_seq g > smin + word_of_nat RUDP_T_MAX_NUM_ACK - 1 then t
     else if next_send_tick g \<noteq> 0 \<and> now < next_send_tick g then t
     else let iv = resend_interval (current_rtt (se t)) (num_sent g);
              g' = g\<lparr>num_sent := num_sent g + 1, next_send_tick := now + ucast iv\<rparr>
       in rt_send_segment_now env (seg_seq g) (seg_data g)
            (on_se (\<lambda>s. s\<lparr>send_segments := (send_segments s)[j := g']\<rparr>) t))"

definition rt_resend :: "rt_env \<Rightarrow> u64 \<Rightarrow> rudp_transport \<Rightarrow> rudp_transport" where
  "rt_resend env now t =
     fold (resend_one env now (seq_min (se t))) [0..<length (send_segments (se t))] t"

lemma send_udp_reply_acks [simp]: "reply_acks (se (rt_send_udp env d t)) = reply_acks (se t)"
  by (simp add: rt_send_udp_def rt_transmit_def stamp_sent_def generate_random_bytes_def c_rand_def
      rt_tick64_def sendto_def on_se_def Let_def split: prod.split)

lemma send_segment_clears_acks [simp]: "reply_acks (se (rt_send_segment_now env sq d t)) = []"
  by (simp add: rt_send_segment_now_def stamp_sent_def c_rand_def rt_tick64_def on_se_def Let_def)

function rt_flush_acks :: "rt_env \<Rightarrow> rudp_transport \<Rightarrow> rudp_transport" where
  "rt_flush_acks env t = (if length (reply_acks (se t)) \<ge> 1
     then rt_flush_acks env (rt_send_segment_now env (next_send_seq (se t)) [] t) else t)"
  by pat_completeness auto
termination
  by (relation "measure (\<lambda>(env, t). length (reply_acks (se t)))") auto

declare rt_flush_acks.simps [simp del]

definition connect_tick :: "rt_env \<Rightarrow> u64 \<Rightarrow> rudp_transport \<Rightarrow> rudp_transport" where
  "connect_tick env now t = (let s = se t;
       t = (if last_sent_tick s = 0 \<or> now - last_sent_tick s \<ge> RUDP_T_RESEND_TIMER then
              let ((_, r), t) = generate_random_bytes env 19 t
              in on_se (\<lambda>s. s\<lparr>last_sent_tick := now\<rparr>) (rt_send_udp env (key_init s @ r) t)
            else t)
     in if now - created_tick (se t) \<ge> ucast (connect_timeout_ms t)
        then rt_set_disconnected env False (t\<lparr>error_code := RUDP_T_ERR_TIMEOUT\<rparr>) else t)"

definition rt_interrupt :: "rt_env \<Rightarrow> u64 \<Rightarrow> rudp_transport \<Rightarrow> rudp_transport" where
  "rt_interrupt env now t =
     (if status (se t) = RT_STATUS_CONNECT_SENT then connect_tick env now t
      else if status (se t) \<noteq> RT_STATUS_ESTABLISHED then t
      else if now \<ge> latest_recv_my_tick (se t) + RUDP_T_TIMEOUT_MS
      then rt_set_disconnected env False (t\<lparr>error_code := RUDP_T_ERR_TIMEOUT\<rparr>)
      else let t = on_se rt_drain t;
               t = rt_pump_recv_to_pair env t;
               t = rt_pump_pair_to_send env t;
               t = on_se rt_segment_send_fifo t;
               t = rt_keepalive env now t;
               t = rt_resend env now t
           in rt_flush_acks env t)"

text \<open>The deadline is lowered by each pending timer, in the order of the code.\<close>

definition earlier :: "u64 \<Rightarrow> u64 \<Rightarrow> u64" where
  "earlier nx deadline = (if nx < deadline then nx else deadline)"

definition rt_compute_poll_timeout :: "rudp_transport \<Rightarrow> u64 \<Rightarrow> nat" where
  "rt_compute_poll_timeout t now = (let s = se t;
       deadline = now + RUDP_T_LOOP_WAIT_MS;
       deadline = (case status s of
         RT_STATUS_CONNECT_SENT \<Rightarrow>
           earlier (created_tick s + ucast (connect_timeout_ms t))
             (earlier (last_sent_tick s + RUDP_T_RESEND_TIMER) deadline)
       | RT_STATUS_ESTABLISHED \<Rightarrow>
           (let deadline = earlier (last_sent_tick s + next_keepalive_interval s) deadline;
                deadline = fold (\<lambda>g d. if next_send_tick g \<noteq> 0 then earlier (next_send_tick g) d else d)
                  (send_segments s) deadline;
                deadline = earlier (latest_recv_my_tick s + RUDP_T_TIMEOUT_MS) deadline
            in if length (reply_acks s) \<ge> 1 \<or> fsize (recv_fifo s) \<ge> 1 \<or> fsize (send_fifo s) \<ge> 1
               then now else deadline)
       | RT_STATUS_DISCONNECTED \<Rightarrow> deadline)
     in if now \<ge> deadline then 0
        else let diff = deadline - now in if diff > 1000 then 1000 else unat diff)"

section \<open>The worker thread\<close>

text \<open>Stripping the framing of the transport mode: \<open>None\<close> is \<^verbatim>\<open>continue\<close>.\<close>

definition strip_frame :: "bytes \<Rightarrow> rudp_transport \<Rightarrow> (bytes \<times> rudp_transport) option" where
  "strip_frame buf t =
     (if transport_mode t = RUDP_T_MODE_DNS then
        if length buf > 42 then Some (drop 42 buf, t\<lparr>dns_tran_id := get_be16 buf\<rparr>) else None
      else if transport_mode t = RUDP_T_MODE_ICMP then
        let ip = (if length buf \<ge> 20 \<and> drop_bit 4 (buf ! 0) = 4 then unat (buf ! 0 AND 15) * 4 else 0) in
        if length buf \<ge> ip + 28 then
          if buf ! ip = 0 \<or> buf ! ip = 8
          then Some (drop (ip + 8 + RUDP_T_SHA1_SIZE) buf, t) else None
        else None
      else Some (buf, t))"

fun drain_socket :: "rt_env \<Rightarrow> (u32 \<times> u16 \<times> bytes) list \<Rightarrow> rudp_transport \<Rightarrow> rudp_transport" where
  "drain_socket env [] t = t\<lparr>udp_in := []\<rparr>"
| "drain_socket env ((ip, port, d) # r) t = (let buf = take RUDP_T_MAX_PACKET_SIZE d in
     if buf = [] then t\<lparr>udp_in := r\<rparr>
     else drain_socket env r (case strip_frame buf t of
         None \<Rightarrow> t
       | Some (payload, t1) \<Rightarrow> rt_handle_udp_packet env ip port payload t1))"

text \<open>
  One turn of the loop, with whether it goes on. \<^verbatim>\<open>poll\<close> only waits; datagrams and
  application data that arrive meanwhile are there at the next turn.
\<close>

definition rt_worker_turn :: "rt_env \<Rightarrow> rudp_transport \<Rightarrow> bool \<times> rudp_transport" where
  "rt_worker_turn env t = (let (_, t) = rt_tick64 env t;
       t = drain_socket env (udp_in t) t;
       t = (if status (se t) \<noteq> RT_STATUS_DISCONNECTED
            then let (tk, t) = rt_tick64 env t in rt_interrupt env tk t else t)
     in if halt t then (False, t)
        else if status (se t) = RT_STATUS_DISCONNECTED \<and> result_ready t then (False, t)
        else (True, snd (rt_tick64 env t)))"

text \<open>The thread for \<open>n\<close> turns: it either ends, or is still waiting in its loop.\<close>

fun rt_worker :: "rt_env \<Rightarrow> nat \<Rightarrow> rudp_transport \<Rightarrow> bool \<times> rudp_transport" where
  "rt_worker env 0 t = (True, t)"
| "rt_worker env (Suc n) t = (if halt t then (False, rt_set_disconnected env False t)
     else case rt_worker_turn env t of
       (True, t) \<Rightarrow> rt_worker env n t
     | (False, t) \<Rightarrow> (False, rt_set_disconnected env False t))"

section \<open>Life cycle\<close>

definition session_zero :: rt_session_t where
  "session_zero = \<lparr>status = RT_STATUS_CONNECT_SENT, key_init = replicate 20 0, key_send = replicate 20 0,
     key_recv = replicate 20 0, magic_req = replicate 20 0, magic_resp = replicate 20 0,
     magic_disconnect = 0, rt_next_iv = replicate 20 0, next_send_seq = 0,
     last_recv_complete_seq = 0, your_tick = 0, latest_recv_my_tick = 0, current_rtt = 0,
     last_sent_tick = 0, next_keepalive_interval = 0, created_tick = 0, your_ip = 0, your_port = 0,
     send_segments = [], recv_segments = [], reply_acks = [],
     send_fifo = rt_fifo_init None 0, recv_fifo = rt_fifo_init None 0\<rparr>"

text \<open>\<open>ok\<close> is whether \<^verbatim>\<open>calloc\<close> succeeds; the surroundings start empty.\<close>

definition rudp_transport_create :: "bool \<Rightarrow> rudp_transport option" where
  "rudp_transport_create ok = (if ok then Some
     \<lparr>t_udp_fd = -1, app_fd = -1, worker_fd = -1, error_code = RUDP_T_ERR_UNKNOWN, halt = False,
      thread_started = False, connect_timeout_ms = 0, result_ready = False, result_ok = False,
      transport_mode = 0, dns_tran_id = 0, client_icmp_id = 0, client_icmp_seq = 0,
      se = session_zero, udp_in = [], udp_out = [], pair_in = [], pair_eof = False, pair_out = [],
      pair_shut = False, open_fds = [], tick_i = 0, rand_i = 0, rb_i = 0, rcv_i = 0, snd_i = 0\<rparr>
     else None)"

definition rt_derive_key :: "rt_env \<Rightarrow> bytes \<Rightarrow> bytes \<Rightarrow> bytes" where
  "rt_derive_key env init_key str =
     rt_sha1 env (init_key @ put_be32 (word_of_nat (length str + 1)) @ str)"

definition rt_derive_keys :: "rt_env \<Rightarrow> rudp_transport \<Rightarrow> rudp_transport" where
  "rt_derive_keys env t = (let k = key_init (se t);
       key1 = rt_derive_key env k (lit ''zurukko'');
       key2 = rt_sha1 env (k @ key1 @ put_be32 12 @ lit ''yasushineko'');
       ((ok, rnd), t) = generate_random_bytes env 4 t;
       (low, t) = (if ok then (ucast (get_be32 rnd), t)
                   else let (r, t) = c_rand env t in (word_of_nat r, t))
     in on_se (\<lambda>s. s\<lparr>key_send := key2, key_recv := key1,
          magic_req := rt_derive_key env k (lit ''Magic_KeepAliveRequest''),
          magic_resp := rt_derive_key env k (lit ''Magic_KeepAliveResponse''),
          magic_disconnect := 0xffffffff00000000 OR low\<rparr>) t)"

record rudp_transport_config_t =
  cfg_server_ip :: u32
  cfg_server_port :: u16
  cfg_udp_fd :: int
  cfg_connect_timeout_ms :: u32
  cfg_transport_mode :: nat

text \<open>
  What the system calls of one connect come to: the descriptors \<^verbatim>\<open>socket\<close> and
  \<^verbatim>\<open>socketpair\<close> yield, whether \<^verbatim>\<open>bind\<close>, the two \<^verbatim>\<open>fcntl\<close> pairs and \<^verbatim>\<open>pthread_create\<close>
  succeed, what \<^verbatim>\<open>malloc\<close> gives the two FIFOs, how many turns the worker gets before the
  timed wait ends, and whether the cancel flag was seen set.
\<close>

record rt_calls =
  sock_fd :: "int option"
  bind_ok :: bool
  nonblock_ok :: bool
  pair_fds :: "(int \<times> int) option"
  pair_nonblock_ok :: bool
  send_mem :: "bytes option"
  recv_mem :: "bytes option"
  thread_ok :: bool
  turns :: nat
  cancel_seen :: bool

definition close_fd :: "int \<Rightarrow> rudp_transport \<Rightarrow> rudp_transport" where
  "close_fd fd t = t\<lparr>open_fds := remove1 fd (open_fds t)\<rparr>"

definition rand_id :: "rt_env \<Rightarrow> rudp_transport \<Rightarrow> u16 \<times> rudp_transport" where
  "rand_id env t = (let (r, t) = c_rand env t in (word_of_nat (r mod 65535 + 1), t))"

text \<open>The socket of the transport mode: a descriptor, or the transport with its error code.\<close>

definition rt_open_socket ::
  "rt_env \<Rightarrow> rt_calls \<Rightarrow> rudp_transport_config_t \<Rightarrow> rudp_transport \<Rightarrow> rudp_transport + int \<times> rudp_transport" where
  "rt_open_socket env d cfg t =
     (if cfg_udp_fd cfg \<ge> 0 then Inr (cfg_udp_fd cfg, t)
      else case sock_fd d of
        None \<Rightarrow> Inl (t\<lparr>error_code := RUDP_T_ERR_UNKNOWN\<rparr>)
      | Some fd \<Rightarrow>
          (let t = t\<lparr>open_fds := fd # open_fds t\<rparr> in
           if transport_mode t = RUDP_T_MODE_ICMP then
             let (i, t) = rand_id env t; (sq, t) = rand_id env t
             in Inr (fd, on_se (\<lambda>s. s\<lparr>your_port := 0\<rparr>) (t\<lparr>client_icmp_id := i, client_icmp_seq := sq\<rparr>))
           else if \<not> bind_ok d then Inl ((close_fd fd t)\<lparr>error_code := RUDP_T_ERR_UNKNOWN\<rparr>)
           else if transport_mode t = RUDP_T_MODE_DNS then
             let (i, t) = rand_id env t in Inr (fd, t\<lparr>dns_tran_id := i\<rparr>)
           else Inr (fd, t)))"

definition close_udp :: "rudp_transport \<Rightarrow> rudp_transport" where
  "close_udp t = (if t_udp_fd t \<ge> 0 then (close_fd (t_udp_fd t) t)\<lparr>t_udp_fd := -1\<rparr> else t)"

definition close_pair :: "rudp_transport \<Rightarrow> rudp_transport" where
  "close_pair t = (let
       t = (if worker_fd t \<ge> 0 then (close_fd (worker_fd t) t)\<lparr>worker_fd := -1\<rparr> else t)
     in if app_fd t \<ge> 0 then (close_fd (app_fd t) t)\<lparr>app_fd := -1\<rparr> else t)"

definition free_fifos :: "rudp_transport \<Rightarrow> rudp_transport" where
  "free_fifos = on_se (\<lambda>s. s\<lparr>send_fifo := rt_fifo_free (send_fifo s), recv_fifo := rt_fifo_free (recv_fifo s)\<rparr>)"

text \<open>Stopping the worker: it leaves its loop and runs the code behind it, which \<^verbatim>\<open>join\<close> awaits.\<close>

definition stop_worker :: "rt_env \<Rightarrow> rudp_transport \<Rightarrow> rudp_transport" where
  "stop_worker env t = (if thread_started t then
       let t = t\<lparr>halt := True\<rparr>;
           t = (if worker_fd t \<ge> 0 then t\<lparr>pair_shut := True\<rparr> else t)
       in (rt_set_disconnected env False t)\<lparr>thread_started := False\<rparr>
     else t)"

text \<open>The label \<^verbatim>\<open>fail\<close>.\<close>

definition connect_fail :: "rt_env \<Rightarrow> rudp_transport \<Rightarrow> rudp_transport" where
  "connect_fail env t = free_fifos (close_pair (close_udp (stop_worker env t)))"

text \<open>
  The session as \<^verbatim>\<open>rudp_transport_connect\<close> sets it up: \<open>Inl\<close> is a \<^verbatim>\<open>goto fail\<close>.
\<close>

definition init_session ::
  "rt_env \<Rightarrow> rt_calls \<Rightarrow> rudp_transport_config_t \<Rightarrow> rudp_transport \<Rightarrow> rudp_transport + rudp_transport" where
  "init_session env d cfg t = (let
       t = on_se (\<lambda>_. session_zero\<lparr>your_ip := cfg_server_ip cfg, your_port := cfg_server_port cfg\<rparr>) t;
       (tk, t) = rt_tick64 env t;
       t = on_se (\<lambda>s. s\<lparr>created_tick := tk\<rparr>) t;
       ((ok, k), t) = generate_random_bytes env RUDP_T_SHA1_SIZE t;
       t = on_se (\<lambda>s. s\<lparr>key_init := k\<rparr>) t in
     if \<not> ok then Inl (t\<lparr>error_code := RUDP_T_ERR_UNKNOWN\<rparr>)
     else let
       t = rt_derive_keys env t;
       ((_, iv), t) = generate_random_bytes env RUDP_T_SHA1_SIZE t;
       (tk, t) = rt_tick64 env t;
       (v, t) = keepalive_interval env t;
       t = on_se (\<lambda>s. s\<lparr>rt_next_iv := iv, next_send_seq := 1, latest_recv_my_tick := tk,
             next_keepalive_interval := v,
             send_fifo := rt_fifo_init (send_mem d) RUDP_T_MAX_FIFO_SIZE,
             recv_fifo := rt_fifo_init (recv_mem d) RUDP_T_MAX_FIFO_SIZE\<rparr>) t in
       if fcap (send_fifo (se t)) = 0 \<or> fcap (recv_fifo (se t)) = 0
       then Inl (t\<lparr>error_code := RUDP_T_ERR_UNKNOWN\<rparr>)
       else Inr (on_se (\<lambda>s. case rt_fifo_write (send_fifo s) (put_be64 (magic_disconnect s)) of
                   None \<Rightarrow> s | Some f \<Rightarrow> s\<lparr>send_fifo := f\<rparr>) t))"

text \<open>The socket pair, the session and the worker thread, once the UDP socket is there.\<close>

definition connect_session ::
  "rt_env \<Rightarrow> rt_calls \<Rightarrow> rudp_transport_config_t \<Rightarrow> rudp_transport \<Rightarrow> rudp_transport + rudp_transport" where
  "connect_session env d cfg t = (case pair_fds d of
       None \<Rightarrow> Inl (connect_fail env (t\<lparr>error_code := RUDP_T_ERR_UNKNOWN\<rparr>))
     | Some (wfd, afd) \<Rightarrow>
         (let t = t\<lparr>open_fds := wfd # afd # open_fds t\<rparr> in
          if \<not> pair_nonblock_ok d then Inl (connect_fail env t)
          else case init_session env d cfg (t\<lparr>worker_fd := wfd, app_fd := afd\<rparr>) of
            Inl t \<Rightarrow> Inl (connect_fail env t)
          | Inr t \<Rightarrow>
              let t = t\<lparr>halt := False\<rparr> in
              if \<not> thread_ok d then Inl (connect_fail env (t\<lparr>error_code := RUDP_T_ERR_UNKNOWN\<rparr>))
              else Inr (t\<lparr>thread_started := True\<rparr>)))"

text \<open>Everything before the wait.\<close>

definition connect_start ::
  "rt_env \<Rightarrow> rt_calls \<Rightarrow> rudp_transport_config_t \<Rightarrow> rudp_transport \<Rightarrow> rudp_transport + rudp_transport" where
  "connect_start env d cfg t = (let
       t = t\<lparr>connect_timeout_ms := (if cfg_connect_timeout_ms cfg \<noteq> 0 then cfg_connect_timeout_ms cfg
               else ucast RUDP_T_TIMEOUT_MS), transport_mode := cfg_transport_mode cfg\<rparr> in
     case rt_open_socket env d cfg t of
       Inl t \<Rightarrow> Inl t
     | Inr (fd, t) \<Rightarrow>
         if \<not> nonblock_ok d then
           Inl ((if cfg_udp_fd cfg < 0 then close_fd fd t else t)\<lparr>error_code := RUDP_T_ERR_UNKNOWN\<rparr>)
         else connect_session env d cfg (t\<lparr>t_udp_fd := fd\<rparr>))"

text \<open>
  The whole call: 0 or -1 and the transport. An address or port of zero is refused.
\<close>

definition rudp_transport_connect ::
  "rt_env \<Rightarrow> rt_calls \<Rightarrow> rudp_transport_config_t \<Rightarrow> rudp_transport \<Rightarrow> int \<times> rudp_transport" where
  "rudp_transport_connect env d cfg t =
     (if cfg_server_ip cfg = 0 \<or> cfg_server_port cfg = 0 then (-1, t\<lparr>error_code := RUDP_T_ERR_UNKNOWN\<rparr>)
      else case connect_start env d cfg t of
        Inl t \<Rightarrow> (-1, t)
      | Inr t \<Rightarrow>
          (let (_, t) = rt_tick64 env t; t = snd (rt_worker env (turns d) t) in
           if \<not> result_ready t \<and> cancel_seen d
           then (-1, connect_fail env (t\<lparr>error_code := RUDP_T_ERR_TIMEOUT\<rparr>))
           else if result_ready t \<and> result_ok t then (0, t\<lparr>error_code := RUDP_T_ERR_OK\<rparr>)
           else (-1, connect_fail env (if error_code t = RUDP_T_ERR_OK
             then t\<lparr>error_code := RUDP_T_ERR_TIMEOUT\<rparr> else t))))"

definition rudp_transport_get_fd :: "rudp_transport \<Rightarrow> int" where
  "rudp_transport_get_fd t = app_fd t"

definition rudp_transport_get_udp_fd :: "rudp_transport \<Rightarrow> int" where
  "rudp_transport_get_udp_fd t = t_udp_fd t"

definition rudp_transport_get_error :: "rudp_transport \<Rightarrow> nat" where
  "rudp_transport_get_error t = error_code t"

definition rudp_transport_disconnect :: "rudp_transport \<Rightarrow> rudp_transport" where
  "rudp_transport_disconnect t = (let t = t\<lparr>halt := True\<rparr>
     in if worker_fd t \<ge> 0 then t\<lparr>pair_shut := True\<rparr> else t)"

definition rudp_transport_destroy :: "rt_env \<Rightarrow> rudp_transport \<Rightarrow> rudp_transport" where
  "rudp_transport_destroy env t = free_fifos (close_udp (close_pair (stop_worker env (t\<lparr>halt := True\<rparr>))))"

section \<open>What sending leaves alone\<close>

named_theorems rt_sending \<open>the definitions under \<^verbatim>\<open>rt_send_udp\<close> and \<^verbatim>\<open>rt_send_segment_now\<close>\<close>

lemmas [rt_sending] = rt_transmit_def stamp_sent_def generate_random_bytes_def c_rand_def
  rt_tick64_def sendto_def on_se_def Let_def

text \<open>
  Sending touches the counters, the outgoing datagrams, and of the session the IV, the
  last-sent tick and (for a segment) the pending acknowledgements.
\<close>

definition same_session :: "rt_session_t \<Rightarrow> rt_session_t \<Rightarrow> bool" where
  "same_session s s' \<longleftrightarrow>
     status s' = status s \<and> key_init s' = key_init s \<and> key_send s' = key_send s \<and>
     key_recv s' = key_recv s \<and> magic_req s' = magic_req s \<and>
     magic_resp s' = magic_resp s \<and> magic_disconnect s' = magic_disconnect s \<and>
     next_send_seq s' = next_send_seq s \<and>
     last_recv_complete_seq s' = last_recv_complete_seq s \<and>
     your_tick s' = your_tick s \<and> latest_recv_my_tick s' = latest_recv_my_tick s \<and>
     current_rtt s' = current_rtt s \<and>
     next_keepalive_interval s' = next_keepalive_interval s \<and>
     created_tick s' = created_tick s \<and> your_ip s' = your_ip s \<and>
     your_port s' = your_port s \<and> send_segments s' = send_segments s \<and>
     recv_segments s' = recv_segments s \<and> send_fifo s' = send_fifo s \<and>
     recv_fifo s' = recv_fifo s"

definition sent_only :: "rudp_transport \<Rightarrow> rudp_transport \<Rightarrow> bool" where
  "sent_only t t' \<longleftrightarrow> same_session (se t) (se t') \<and>
     t_udp_fd t' = t_udp_fd t \<and> app_fd t' = app_fd t \<and>
     worker_fd t' = worker_fd t \<and> error_code t' = error_code t \<and>
     halt t' = halt t \<and> thread_started t' = thread_started t \<and>
     connect_timeout_ms t' = connect_timeout_ms t \<and> result_ready t' = result_ready t \<and>
     result_ok t' = result_ok t \<and> transport_mode t' = transport_mode t \<and>
     dns_tran_id t' = dns_tran_id t \<and> client_icmp_id t' = client_icmp_id t \<and>
     client_icmp_seq t' = client_icmp_seq t \<and> udp_in t' = udp_in t \<and>
     pair_in t' = pair_in t \<and> pair_eof t' = pair_eof t \<and>
     pair_out t' = pair_out t \<and> pair_shut t' = pair_shut t \<and>
     open_fds t' = open_fds t \<and> rcv_i t' = rcv_i t \<and> snd_i t' = snd_i t"

lemma sent_only_refl [simp]: "sent_only t t"
  by (simp add: sent_only_def same_session_def)

lemma sent_only_trans: "sent_only t t' \<Longrightarrow> sent_only t' t'' \<Longrightarrow> sent_only t t''"
  by (simp add: sent_only_def same_session_def)

text \<open>Sending more, one primitive at a time.\<close>

lemma sent_only_step:
  assumes "sent_only t u"
  shows "sent_only t (u\<lparr>tick_i := n\<rparr>)" "sent_only t (u\<lparr>rand_i := n\<rparr>)" "sent_only t (u\<lparr>rb_i := n\<rparr>)"
    "sent_only t (sendto pkt u)" "sent_only t (on_se (\<lambda>s. s\<lparr>rt_next_iv := iv\<rparr>) u)"
    "sent_only t (on_se (\<lambda>s. s\<lparr>last_sent_tick := tk\<rparr>) u)"
    "sent_only t (on_se (\<lambda>s. s\<lparr>reply_acks := acks\<rparr>) u)"
  using assms by (simp_all add: sent_only_def same_session_def sendto_def on_se_def)

lemma sent_only_transmit: "sent_only t u \<Longrightarrow> sent_only t (rt_transmit env d u)"
  by (simp add: rt_transmit_def generate_random_bytes_def sent_only_step split: prod.split)

lemma sent_only_stamp: "sent_only t u \<Longrightarrow> sent_only t (stamp_sent env n u)"
  by (simp add: stamp_sent_def rt_tick64_def sent_only_step)

lemma sent_only_udp: "sent_only t u \<Longrightarrow> sent_only t (rt_send_udp env d u)"
  by (simp add: rt_send_udp_def Let_def c_rand_def generate_random_bytes_def sent_only_step
      sent_only_stamp sent_only_transmit split: prod.split)

lemma sent_only_segment: "sent_only t u \<Longrightarrow> sent_only t (rt_send_segment_now env sq d u)"
  by (simp add: rt_send_segment_now_def Let_def c_rand_def rt_tick64_def sent_only_step
      sent_only_stamp sent_only_udp)

lemma sent_only_power: "sent_only t ((rt_send_segment_now env sq d ^^ n) t)"
  by (induction n) (auto intro: sent_only_segment)

text \<open>The fields behind it, as rewrite rules for whatever was sent.\<close>

lemma sent_only_session:
  assumes "sent_only t t'"
  shows
    "status (se t') = status (se t)" "key_init (se t') = key_init (se t)"
    "key_send (se t') = key_send (se t)" "key_recv (se t') = key_recv (se t)"
    "magic_req (se t') = magic_req (se t)" "magic_resp (se t') = magic_resp (se t)"
    "magic_disconnect (se t') = magic_disconnect (se t)"
    "next_send_seq (se t') = next_send_seq (se t)"
    "last_recv_complete_seq (se t') = last_recv_complete_seq (se t)"
    "your_tick (se t') = your_tick (se t)"
    "latest_recv_my_tick (se t') = latest_recv_my_tick (se t)"
    "current_rtt (se t') = current_rtt (se t)"
    "next_keepalive_interval (se t') = next_keepalive_interval (se t)"
    "created_tick (se t') = created_tick (se t)" "your_ip (se t') = your_ip (se t)"
    "your_port (se t') = your_port (se t)" "send_segments (se t') = send_segments (se t)"
    "recv_segments (se t') = recv_segments (se t)" "send_fifo (se t') = send_fifo (se t)"
    "recv_fifo (se t') = recv_fifo (se t)"
  using assms by (simp_all add: sent_only_def same_session_def)

lemma sent_only_world:
  assumes "sent_only t t'"
  shows
    "t_udp_fd t' = t_udp_fd t" "app_fd t' = app_fd t" "worker_fd t' = worker_fd t"
    "error_code t' = error_code t" "halt t' = halt t" "thread_started t' = thread_started t"
    "connect_timeout_ms t' = connect_timeout_ms t" "result_ready t' = result_ready t"
    "result_ok t' = result_ok t" "transport_mode t' = transport_mode t"
    "dns_tran_id t' = dns_tran_id t" "client_icmp_id t' = client_icmp_id t"
    "client_icmp_seq t' = client_icmp_seq t" "udp_in t' = udp_in t" "pair_in t' = pair_in t"
    "pair_eof t' = pair_eof t" "pair_out t' = pair_out t" "pair_shut t' = pair_shut t"
    "open_fds t' = open_fds t" "rcv_i t' = rcv_i t" "snd_i t' = snd_i t"
  using assms by (simp_all add: sent_only_def)

lemmas sent_only_fields = sent_only_session sent_only_world

lemmas send_udp_fields [simp] = sent_only_fields [OF sent_only_udp [OF sent_only_refl]]
lemmas stamp_sent_fields [simp] = sent_only_fields [OF sent_only_stamp [OF sent_only_refl]]
lemmas send_segment_fields [simp] = sent_only_fields [OF sent_only_segment [OF sent_only_refl]]
lemmas send_segments_fields [simp] = sent_only_fields [OF sent_only_power]

section \<open>Sealing and opening\<close>

lemma concat_be64_length [simp]: "length (concat (map put_be64 xs)) = 8 * length xs"
  by (induction xs) simp_all

lemma drop_concat_be64: "drop (8 * length xs) (concat (map put_be64 xs) @ r) = r"
  by simp

lemma get_concat_be64:
  "i < length xs \<Longrightarrow> get_be64 (drop (8 * i) (concat (map put_be64 xs) @ r)) = xs ! i"
proof (induction xs arbitrary: i)
  case (Cons x xs)
  then show ?case
  proof (cases i)
    case (Suc j)
    then have "drop (8 * i) (concat (map put_be64 (x # xs)) @ r) = drop (8 * j) (concat (map put_be64 xs) @ r)"
      by (simp add: drop_append)
    with Suc Cons show ?thesis by simp
  qed (simp add: append.assoc)
qed simp

lemma map_get_concat_be64:
  "map (\<lambda>i. get_be64 (drop (8 * i) (concat (map put_be64 xs) @ r))) [0..<length xs] = xs"
  by (rule nth_equalityI) (simp_all add: get_concat_be64 del: drop_append)

lemma segment_body_length [simp]:
  "length (segment_body m y k acks sq data padlen) = 36 + 8 * length acks + length data + padlen"
  by (simp add: segment_body_def)

lemma parse_segment_body:
  assumes acks: "length acks \<le> 64" and pad: "1 \<le> padlen" "padlen \<le> 255"
  shows "parse_segment (segment_body m y k acks sq data padlen) = Some (m, y, k, acks, sq, data)"
proof -
  let ?n = "length acks"
  define tl where "tl = put_be64 sq @ data"
  define ak where "ak = concat (map put_be64 acks) @ tl"
  define hdr where "hdr = put_be64 m @ put_be64 y @ put_be64 k @ put_be32 (word_of_nat ?n) @ ak"
  have body: "segment_body m y k acks sq data padlen = hdr @ replicate padlen (word_of_nat padlen)"
    by (simp add: segment_body_def hdr_def ak_def tl_def)
  have len: "length hdr = 36 + 8 * ?n + length data"
    by (simp add: hdr_def ak_def tl_def)
  have lst: "last (segment_body m y k acks sq data padlen) = word_of_nat padlen"
    using pad(1) by (simp add: body)
  have up: "unat (word_of_nat padlen :: byte) = padlen" and un: "unat (word_of_nat ?n :: u32) = ?n"
    using pad(2) acks by (simp_all add: unat_of_nat)
  have d24: "drop 24 hdr = put_be32 (word_of_nat ?n) @ ak"
    and d28: "drop (28 + j) hdr = drop j ak" for j
    by (simp_all add: hdr_def drop_append)
  have d8: "drop 8 hdr = put_be64 y @ put_be64 k @ put_be32 (word_of_nat ?n) @ ak"
    and d16: "drop 16 hdr = put_be64 k @ put_be32 (word_of_nat ?n) @ ak"
    and d0: "hdr = put_be64 m @ put_be64 y @ put_be64 k @ put_be32 (word_of_nat ?n) @ ak"
    by (simp_all add: hdr_def drop_append)
  have dn: "drop (28 + 8 * ?n) hdr = put_be64 sq @ data" "drop (36 + 8 * ?n) hdr = data"
    using d28 [of "8 * ?n"] d28 [of "8 + 8 * ?n"] by (simp_all add: ak_def tl_def drop_append)
  have ma: "map (\<lambda>i. get_be64 (drop (28 + 8 * i) hdr)) [0..<?n] = acks"
    unfolding d28 ak_def by (rule map_get_concat_be64)
  have "get_be64 hdr = m" unfolding d0 by simp
  moreover have "take (length hdr) (segment_body m y k acks sq data padlen) = hdr"
    by (simp add: body)
  ultimately show ?thesis
    using lst up un pad len acks d8 d16 d24 dn ma
    by (simp add: parse_segment_def Let_def RUDP_T_MAX_NUM_ACK_def) (auto simp: segment_body_def)
qed

lemma seal_segment_length:
  assumes "rt_env_ok env" "length iv = 20"
  shows "length (seal_segment env key iv body) = 40 + length body"
  using assms by (simp add: seal_segment_def rt_env_ok_def Let_def)

lemma open_seal_segment:
  assumes env: "rt_env_ok env" and iv: "length iv = 20" and len: "40 + length body \<le> RUDP_T_MAX_PACKET_SIZE"
  shows "open_segment env key (seal_segment env key iv body) = parse_segment body"
proof -
  define enc where "enc = rc4_crypt (rt_key env iv key) body"
  define sign where "sign = rt_sha1 env (key @ iv @ enc)"
  have pkt: "seal_segment env key iv body = sign @ iv @ enc"
    by (simp add: seal_segment_def enc_def sign_def Let_def)
  have l: "length sign = 20" "length enc = length body"
    using env by (simp_all add: sign_def enc_def rt_env_ok_def)
  have "take RUDP_T_MAX_PACKET_SIZE (sign @ iv @ enc) = sign @ iv @ enc"
    using len l iv by simp
  moreover have "rc4_crypt (rt_key env iv key) enc = body"
    unfolding enc_def by (rule rc4_crypt_involutive)
  ultimately show ?thesis
    using l iv by (simp add: open_segment_def pkt Let_def RUDP_T_SHA1_SIZE_def sign_def [symmetric])
qed

text \<open>The frame a datagram travels in, given the random label of DNS mode.\<close>

definition framed :: "rt_env \<Rightarrow> rudp_transport \<Rightarrow> bytes \<Rightarrow> bytes \<Rightarrow> bytes" where
  "framed env t label data = (if transport_mode t = RUDP_T_MODE_DNS then dns_frame (dns_tran_id t) label data
     else if transport_mode t = RUDP_T_MODE_ICMP
     then icmp_frame env (client_icmp_id t) (client_icmp_seq t) data else data)"

lemma stamp_sent_out [simp]: "udp_out (stamp_sent env n t) = udp_out t"
  by (simp add: stamp_sent_def rt_tick64_def on_se_def)

lemma transmit_out:
  assumes "rt_env_ok env"
  shows "\<exists>label. length label = 4 \<and> udp_out (rt_transmit env d t) =
    udp_out t @ [(your_ip (se t), your_port (se t), framed env t label d)]"
proof -
  obtain ok l where l: "rt_rbytes env (rb_i t) 4 = (ok, l)" by fastforce
  then have "length l = 4" using assms unfolding rt_env_ok_def by (metis snd_conv)
  with l show ?thesis
    by (intro exI [of _ l]) (simp add: rt_transmit_def framed_def generate_random_bytes_def sendto_def)
qed

lemma send_udp_out:
  assumes "rt_env_ok env"
  shows "\<exists>label. length label = 4 \<and> udp_out (rt_send_udp env d t) =
    udp_out t @ [(your_ip (se t), your_port (se t), framed env t label d)]"
  using transmit_out [OF assms, of d t]
  by (simp add: rt_send_udp_def Let_def c_rand_def generate_random_bytes_def on_se_def split: prod.split)

text \<open>The datagram \<^verbatim>\<open>rt_send_segment_now\<close> hands to \<^verbatim>\<open>rt_send_udp\<close>.\<close>

definition segment_sent :: "rt_env \<Rightarrow> u64 \<Rightarrow> bytes \<Rightarrow> rudp_transport \<Rightarrow> bytes" where
  "segment_sent env sq data t = (let s = se t in seal_segment env (key_send s) (rt_next_iv s)
     (segment_body (rt_tick env (tick_i t)) (your_tick s) (last_recv_complete_seq s)
       (take RUDP_T_MAX_NUM_ACK (reply_acks s)) sq data (rt_rand env (rand_i t) mod 255 + 1)))"

lemma send_segment_out:
  assumes "rt_env_ok env"
  shows "\<exists>label. length label = 4 \<and> udp_out (rt_send_segment_now env sq d t) =
    udp_out t @ [(your_ip (se t), your_port (se t), framed env t label (segment_sent env sq d t))]"
proof -
  let ?u = "(on_se (\<lambda>s. s\<lparr>reply_acks := []\<rparr>) (t\<lparr>tick_i := tick_i t + 1\<rparr>))\<lparr>rand_i := rand_i t + 1\<rparr>"
  have "framed env ?u = framed env t" by (rule ext)+ (simp add: framed_def on_se_def)
  moreover have "udp_out (rt_send_segment_now env sq d t) = udp_out (rt_send_udp env (segment_sent env sq d t) ?u)"
    by (simp add: rt_send_segment_now_def segment_sent_def Let_def c_rand_def rt_tick64_def on_se_def)
  moreover have "udp_out ?u = udp_out t" "your_ip (se ?u) = your_ip (se t)" "your_port (se ?u) = your_port (se t)"
    by (simp_all add: on_se_def)
  ultimately show ?thesis
    using send_udp_out [OF assms, of "segment_sent env sq d t" ?u] by simp
qed

lemma segment_sent_opens:
  assumes env: "rt_env_ok env" and iv: "length (rt_next_iv (se t)) = 20" and len: "length data \<le> 512"
  shows "open_segment env (key_send (se t)) (segment_sent env sq data t) =
      Some (rt_tick env (tick_i t), your_tick (se t), last_recv_complete_seq (se t),
        take 64 (reply_acks (se t)), sq, data)"
    and "40 \<le> length (segment_sent env sq data t)"
    and "length (segment_sent env sq data t) \<le> RUDP_T_MAX_PACKET_SIZE"
proof -
  let ?pad = "rt_rand env (rand_i t) mod 255 + 1"
  let ?acks = "take RUDP_T_MAX_NUM_ACK (reply_acks (se t))"
  let ?body = "segment_body (rt_tick env (tick_i t)) (your_tick (se t)) (last_recv_complete_seq (se t)) ?acks sq data ?pad"
  have pad: "1 \<le> ?pad" "?pad \<le> 255"
    using mod_less_divisor [of 255 "rt_rand env (rand_i t)"] by linarith+
  have acks: "length ?acks \<le> 64" by (simp add: RUDP_T_MAX_NUM_ACK_def)
  have b: "40 + length ?body \<le> RUDP_T_MAX_PACKET_SIZE"
    unfolding segment_body_length rt_consts using acks [unfolded rt_consts] pad(2) len by linarith
  show "open_segment env (key_send (se t)) (segment_sent env sq data t) =
      Some (rt_tick env (tick_i t), your_tick (se t), last_recv_complete_seq (se t),
        take 64 (reply_acks (se t)), sq, data)"
    unfolding segment_sent_def Let_def open_seal_segment [OF env iv b] parse_segment_body [OF acks pad]
    by (simp add: RUDP_T_MAX_NUM_ACK_def)
  show "40 \<le> length (segment_sent env sq data t)" "length (segment_sent env sq data t) \<le> RUDP_T_MAX_PACKET_SIZE"
    using b unfolding segment_sent_def Let_def seal_segment_length [OF env iv] by simp_all
qed

section \<open>The session invariant\<close>

text \<open>
  The tables stay within their 64 entries and the segments within their 512 bytes, the
  FIFOs are well formed, the keys have 20 bytes, and the reorder table holds each sequence
  number at most once and none that was already delivered.
\<close>

definition tables_ok :: "rt_session_t \<Rightarrow> bool" where
  "tables_ok s \<longleftrightarrow> length (send_segments s) \<le> 64 \<and> length (recv_segments s) \<le> 64 \<and>
     length (reply_acks s) \<le> 64 \<and>
     (\<forall>g \<in> set (send_segments s) \<union> set (recv_segments s). length (seg_data g) \<le> 512) \<and>
     fifo_inv (send_fifo s) \<and> fcap (send_fifo s) = RUDP_T_MAX_FIFO_SIZE \<and>
     fifo_inv (recv_fifo s) \<and> fcap (recv_fifo s) = RUDP_T_MAX_FIFO_SIZE \<and>
     length (key_init s) = 20 \<and> length (rt_next_iv s) = 20 \<and>
     length (magic_req s) = 20 \<and> length (magic_resp s) = 20 \<and>
     distinct (map seg_seq (recv_segments s))"

definition session_ok :: "rt_session_t \<Rightarrow> bool" where
  "session_ok s \<longleftrightarrow> tables_ok s \<and> (\<forall>g \<in> set (recv_segments s). last_recv_complete_seq s < seg_seq g)"

text \<open>
  The send table is sorted by sequence number and spans a window of 64 numbers below the
  next one. \<open>send_base\<close> is the lowest unacknowledged number.
\<close>

definition seqs :: "rt_session_t \<Rightarrow> nat list" where
  "seqs s = map (\<lambda>g. unat (seg_seq g)) (send_segments s)"

definition send_base :: "rt_session_t \<Rightarrow> nat" where
  "send_base s = (case seqs s of [] \<Rightarrow> unat (next_send_seq s) | q # _ \<Rightarrow> q)"

definition window_ok :: "rt_session_t \<Rightarrow> bool" where
  "window_ok s \<longleftrightarrow> sorted_wrt (<) (seqs s) \<and> (\<forall>q \<in> set (seqs s). 1 \<le> q \<and> q < unat (next_send_seq s)) \<and>
     1 \<le> unat (next_send_seq s) \<and> unat (next_send_seq s) \<le> send_base s + 64"

lemma window_okD:
  assumes "window_ok s"
  shows "sorted_wrt (<) (seqs s)" "q \<in> set (seqs s) \<Longrightarrow> send_base s \<le> q \<and> 1 \<le> q \<and> q < unat (next_send_seq s)"
    "send_base s \<le> unat (next_send_seq s)" "unat (next_send_seq s) \<le> send_base s + 64" "1 \<le> send_base s"
  using assms by (auto simp: window_ok_def send_base_def less_imp_le split: list.splits)

text \<open>A sorted table in a window of 64 numbers has at most 64 entries, so the limit never bites.\<close>

lemma window_count:
  assumes "window_ok s"
  shows "length (send_segments s) \<le> unat (next_send_seq s) - send_base s"
proof -
  have "set (seqs s) \<subseteq> {send_base s..<unat (next_send_seq s)}"
    using window_okD(2) [OF assms] by fastforce
  then have "card (set (seqs s)) \<le> unat (next_send_seq s) - send_base s"
    using card_mono [of "{send_base s..<unat (next_send_seq s)}"] by fastforce
  moreover have "distinct (seqs s)"
    using window_okD(1) [OF assms] strict_sorted_iff by blast
  ultimately have "length (seqs s) \<le> unat (next_send_seq s) - send_base s"
    by (simp only: distinct_card)
  then show ?thesis by (simp add: seqs_def)
qed

lemma seq_min_base:
  assumes "window_ok s"
  shows "unat (seq_min s) = (if send_segments s = [] then 0 else send_base s)"
  by (simp add: seq_min_def send_base_def seqs_def split: list.split)

lemma window_full_iff:
  assumes w: "window_ok s" and b: "send_base s < 2 ^ 63"
  shows "window_full s \<longleftrightarrow> send_segments s \<noteq> [] \<and> send_base s + 63 < unat (next_send_seq s)"
proof (cases "send_segments s = []")
  case True
  then show ?thesis by (simp add: window_full_def seq_min_def)
next
  case False
  then have m: "unat (seq_min s) = send_base s" using seq_min_base [OF w] by simp
  have "seq_min s \<noteq> 0" using m window_okD(5) [OF w] by (auto simp: unat_eq_0)
  moreover have "unat (seq_min s + word_of_nat RUDP_T_MAX_NUM_ACK - 1) = send_base s + 63"
  proof -
    have e: "seq_min s + word_of_nat RUDP_T_MAX_NUM_ACK - 1 = seq_min s + 63"
      by (simp add: RUDP_T_MAX_NUM_ACK_def)
    have "unat (seq_min s + 63) = unat (seq_min s) + unat (63 :: u64)"
      by (rule unat_add_lem [THEN iffD1]) (use m b in simp)
    with e m show ?thesis by (simp only: ) simp
  qed
  ultimately show ?thesis using False by (simp add: window_full_def word_less_nat_alt)
qed

lemma unat_Suc_small: "unat (x :: u64) < 2 ^ 64 - 1 \<Longrightarrow> unat (x + 1) = unat x + 1"
  using unat_add_lem [of x 1] by simp

lemma window_ok_cong:
  "send_segments s' = send_segments s \<Longrightarrow> next_send_seq s' = next_send_seq s \<Longrightarrow>
   window_ok s' = window_ok s \<and> send_base s' = send_base s"
  unfolding window_ok_def send_base_def seqs_def by presburger

text \<open>Queueing with room in the window always succeeds, and takes the next number.\<close>

lemma queue_segment_room:
  assumes w: "window_ok s" and b: "send_base s < 2 ^ 63" and nf: "\<not> window_full s"
  shows "rt_queue_segment d s = s\<lparr>send_segments := send_segments s @
      [\<lparr>seg_seq = next_send_seq s, seg_data = d, next_send_tick = 0, num_sent = 0\<rparr>],
      next_send_seq := next_send_seq s + 1\<rparr>"
    and "window_ok (rt_queue_segment d s)" "send_base (rt_queue_segment d s) = send_base s"
proof -
  let ?n = "unat (next_send_seq s)"
  have le: "?n \<le> send_base s + 63"
    using window_full_iff [OF w b] nf window_okD(3,4) [OF w] by (cases "send_segments s = []") (auto simp: send_base_def seqs_def)
  then have cnt: "length (send_segments s) < 64" using window_count [OF w] by linarith
  then show q: "rt_queue_segment d s = s\<lparr>send_segments := send_segments s @
      [\<lparr>seg_seq = next_send_seq s, seg_data = d, next_send_tick = 0, num_sent = 0\<rparr>],
      next_send_seq := next_send_seq s + 1\<rparr>"
    by (simp add: rt_queue_segment_def RUDP_T_MAX_NUM_ACK_def)
  have n1: "unat (next_send_seq s + 1) = ?n + 1"
    using le b by (intro unat_Suc_small) simp
  have sq: "seqs (rt_queue_segment d s) = seqs s @ [?n]" by (simp add: q seqs_def)
  show base: "send_base (rt_queue_segment d s) = send_base s"
    unfolding send_base_def sq by (simp split: list.split)
  have "next_send_seq (rt_queue_segment d s) = next_send_seq s + 1" by (simp add: q)
  then show "window_ok (rt_queue_segment d s)"
    using w window_okD [OF w] le unfolding window_ok_def sq base
    by (auto simp: n1 sorted_wrt_append less_imp_le less_SucI)
qed

lemma queue_segment_ok:
  "session_ok s \<Longrightarrow> length d \<le> 512 \<Longrightarrow> session_ok (rt_queue_segment d s)"
  by (auto simp: session_ok_def tables_ok_def rt_queue_segment_def RUDP_T_MAX_NUM_ACK_def)

lemma window_full_empty [simp]: "send_segments s = [] \<Longrightarrow> \<not> window_full s"
  by (simp add: window_full_def seq_min_def)

text \<open>Acknowledgements only take entries away, which keeps the order and raises the base.\<close>

lemma window_ok_shrink:
  assumes w: "window_ok s" and srt: "sorted_wrt (<) (map (\<lambda>g. unat (seg_seq g)) ys)"
    and sub: "set ys \<subseteq> set (send_segments s)"
  shows "window_ok (s\<lparr>send_segments := ys\<rparr>)"
proof -
  let ?s = "s\<lparr>send_segments := ys\<rparr>"
  have sset: "set (seqs ?s) \<subseteq> set (seqs s)" using sub by (auto simp: seqs_def)
  moreover have "send_base s \<le> send_base ?s"
    using sset window_okD(2,3) [OF w] by (auto simp: send_base_def [of ?s] split: list.split)
  ultimately show ?thesis
    using w srt unfolding window_ok_def by (auto simp: seqs_def intro: le_trans)
qed

lemma delete_seq_set: "set (delete_seq q gs) \<subseteq> set gs"
  by (induction gs) auto

lemma delete_seq_length: "length (delete_seq q gs) \<le> length gs"
  by (induction gs) auto

lemma delete_seq_sorted:
  "sorted_wrt (<) (map (\<lambda>g. unat (seg_seq g)) gs) \<Longrightarrow>
   sorted_wrt (<) (map (\<lambda>g. unat (seg_seq g)) (delete_seq q gs))"
  by (induction gs) (use delete_seq_set in fastforce)+

lemma filter_seqs_sorted:
  "sorted_wrt (<) (map (\<lambda>g. unat (seg_seq g)) gs) \<Longrightarrow>
   sorted_wrt (<) (map (\<lambda>g. unat (seg_seq g)) (filter P gs))"
  by (simp add: sorted_wrt_map sorted_wrt_filter)

lemma session_ok_shrink:
  "session_ok s \<Longrightarrow> set ys \<subseteq> set (send_segments s) \<Longrightarrow> length ys \<le> length (send_segments s) \<Longrightarrow>
   session_ok (s\<lparr>send_segments := ys\<rparr>)"
  by (auto simp: session_ok_def tables_ok_def)

lemma process_ack_ok:
  "window_ok s \<Longrightarrow> window_ok (rt_process_ack q s)" "session_ok s \<Longrightarrow> session_ok (rt_process_ack q s)"
  unfolding rt_process_ack_def
  by (rule window_ok_shrink)
    (auto intro: delete_seq_sorted session_ok_shrink delete_seq_length
      dest: window_okD(1) [unfolded seqs_def] subsetD [OF delete_seq_set])

lemma process_ack2_ok:
  "window_ok s \<Longrightarrow> window_ok (rt_process_ack2 q s)" "session_ok s \<Longrightarrow> session_ok (rt_process_ack2 q s)"
  unfolding rt_process_ack2_def
  by (rule window_ok_shrink)
    (auto intro: filter_seqs_sorted session_ok_shrink dest: window_okD(1) [unfolded seqs_def])

lemma process_acks_ok:
  "window_ok s \<Longrightarrow> window_ok (process_acks k acks s)" "session_ok s \<Longrightarrow> session_ok (process_acks k acks s)"
proof -
  have "window_ok u \<Longrightarrow> window_ok (fold rt_process_ack acks u)" for u
    by (induction acks arbitrary: u) (auto intro: process_ack_ok)
  then show "window_ok s \<Longrightarrow> window_ok (process_acks k acks s)"
    by (simp add: process_acks_def process_ack2_ok)
  have "session_ok u \<Longrightarrow> session_ok (fold rt_process_ack acks u)" for u
    by (induction acks arbitrary: u) (auto intro: process_ack_ok)
  then show "session_ok s \<Longrightarrow> session_ok (process_acks k acks s)"
    by (simp add: process_acks_def process_ack2_ok)
qed

text \<open>What acknowledgements and ticks leave alone.\<close>

definition same_recv :: "rt_session_t \<Rightarrow> rt_session_t \<Rightarrow> bool" where
  "same_recv s s' \<longleftrightarrow> recv_segments s' = recv_segments s \<and> recv_fifo s' = recv_fifo s \<and>
     last_recv_complete_seq s' = last_recv_complete_seq s \<and> key_recv s' = key_recv s \<and>
     magic_req s' = magic_req s \<and> magic_resp s' = magic_resp s"

lemma same_recv_refl [simp]: "same_recv s s"
  by (simp add: same_recv_def)

lemma same_recv_trans: "same_recv s s' \<Longrightarrow> same_recv s' s'' \<Longrightarrow> same_recv s s''"
  by (simp add: same_recv_def)

lemma same_recv_acks [simp]: "same_recv s (process_acks k acks s)"
proof -
  have "same_recv s u \<Longrightarrow> same_recv s (fold rt_process_ack acks u)" for u
    by (induction acks arbitrary: u) (auto simp: same_recv_def rt_process_ack_def)
  then show ?thesis by (simp add: process_acks_def same_recv_def rt_process_ack2_def)
qed

lemma next_send_seq_acks [simp]: "next_send_seq (process_acks k acks s) = next_send_seq s"
proof -
  have "next_send_seq (fold rt_process_ack acks u) = next_send_seq u" for u
    by (induction acks arbitrary: u) (auto simp: rt_process_ack_def)
  then show ?thesis by (simp add: process_acks_def rt_process_ack2_def)
qed

lemma note_ticks_ok:
  "window_ok (note_ticks m y s) = window_ok s" "session_ok (note_ticks m y s) = session_ok s"
  "same_recv s (note_ticks m y s)" "next_send_seq (note_ticks m y s) = next_send_seq s"
  by (rule window_ok_cong [THEN conjunct1])
    (simp_all add: note_ticks_def Let_def session_ok_def tables_ok_def same_recv_def)

lemma add_ack_ok:
  "window_ok (rt_add_ack q s) = window_ok s" "session_ok s \<Longrightarrow> session_ok (rt_add_ack q s)"
  "same_recv s (rt_add_ack q s)" "next_send_seq (rt_add_ack q s) = next_send_seq s"
  by (auto simp: rt_add_ack_def window_ok_cong [THEN conjunct1, of "s\<lparr>reply_acks := a\<rparr>" s for a]
      session_ok_def tables_ok_def same_recv_def RUDP_T_MAX_NUM_ACK_def)

lemma recv_payload_ok:
  "window_ok (rt_process_recv_payload q d s) = window_ok s"
  "session_ok s \<Longrightarrow> length d \<le> 512 \<Longrightarrow> session_ok (rt_process_recv_payload q d s)"
  "next_send_seq (rt_process_recv_payload q d s) = next_send_seq s"
proof -
  have "session_ok (s\<lparr>recv_segments := recv_segments s @ [g]\<rparr>)"
    if "session_ok s" "length (seg_data g) \<le> 512" "seg_seq g \<notin> set (map seg_seq (recv_segments s))"
      "last_recv_complete_seq s < seg_seq g" "length (recv_segments s) < 64" for g
    using that by (auto simp: session_ok_def tables_ok_def)
  then show "session_ok s \<Longrightarrow> length d \<le> 512 \<Longrightarrow> session_ok (rt_process_recv_payload q d s)"
    by (simp add: rt_process_recv_payload_def add_ack_ok not_le RUDP_T_MAX_NUM_ACK_def)
qed (simp_all add: rt_process_recv_payload_def add_ack_ok
    window_ok_cong [THEN conjunct1, of "s\<lparr>recv_segments := r\<rparr>" s for r])

lemma queue_segment_fields [simp]:
  "recv_segments (rt_queue_segment d s) = recv_segments s" "recv_fifo (rt_queue_segment d s) = recv_fifo s"
  "send_fifo (rt_queue_segment d s) = send_fifo s" "magic_req (rt_queue_segment d s) = magic_req s"
  "magic_resp (rt_queue_segment d s) = magic_resp s" "key_recv (rt_queue_segment d s) = key_recv s"
  "last_recv_complete_seq (rt_queue_segment d s) = last_recv_complete_seq s"
  "status (rt_queue_segment d s) = status s"
  by (simp_all add: rt_queue_segment_def)

lemma queue_segment_tables: "tables_ok s \<Longrightarrow> length d \<le> 512 \<Longrightarrow> tables_ok (rt_queue_segment d s)"
  by (auto simp: tables_ok_def rt_queue_segment_def RUDP_T_MAX_NUM_ACK_def)

section \<open>Draining the reorder table\<close>

text \<open>What a segment contributes to the byte stream: keep-alives are consumed by the transport.\<close>

definition app_data :: "rt_session_t \<Rightarrow> bytes \<Rightarrow> bytes" where
  "app_data s d = (if length d = RUDP_T_SHA1_SIZE \<and> (d = magic_req s \<or> d = magic_resp s) then [] else d)"

lemma drain_one_ok:
  assumes "drain_one g s = Some s1" "tables_ok s" "window_ok s" "send_base s < 2 ^ 63"
  shows "tables_ok s1 \<and> window_ok s1 \<and> send_base s1 = send_base s \<and>
    fifo_bytes (recv_fifo s1) = fifo_bytes (recv_fifo s) @ app_data s (seg_data g) \<and>
    recv_segments s1 = recv_segments s \<and> last_recv_complete_seq s1 = last_recv_complete_seq s \<and>
    key_recv s1 = key_recv s \<and> magic_req s1 = magic_req s \<and> magic_resp s1 = magic_resp s"
proof -
  have inv: "fifo_inv (recv_fifo s)" and m: "length (magic_resp s) \<le> 512"
    using assms(2) by (simp_all add: tables_ok_def)
  have fifo: "tables_ok (s\<lparr>recv_fifo := f\<rparr>) \<and> fifo_bytes f = fifo_bytes (recv_fifo s) @ seg_data g"
    if "rt_fifo_write (recv_fifo s) (seg_data g) = Some f" for f
    using rt_fifo_write_inv [OF inv that] rt_fifo_write_SomeD [OF inv that]
      rt_fifo_write_bytes [OF inv that] assms(2) by (simp add: tables_ok_def)
  have q: "window_ok (rt_queue_segment d s) \<and> send_base (rt_queue_segment d s) = send_base s"
    if "send_segments s = []" for d
    using queue_segment_room [OF assms(3,4)] that by simp
  show ?thesis
    using assms q queue_segment_tables [OF assms(2) m] fifo
      window_ok_cong [of "s\<lparr>recv_fifo := f\<rparr>" s for f]
    by (auto simp: drain_one_def app_data_def split: if_splits)
qed

text \<open>
  The loop takes a prefix of the table whose sequence numbers count up from the last one
  delivered, and appends what those segments contribute.
\<close>

lemma drain_loop_ok:
  assumes "drain_loop gs cur s = (n, s')" "cur = last_recv_complete_seq s"
    "tables_ok s" "window_ok s" "send_base s < 2 ^ 63"
    "distinct (map seg_seq gs)" "\<forall>g \<in> set gs. cur < seg_seq g"
  shows "tables_ok s' \<and> window_ok s' \<and> send_base s' = send_base s \<and> n \<le> length gs \<and>
    unat (last_recv_complete_seq s') = unat cur + n \<and>
    (\<forall>g \<in> set (drop n gs). last_recv_complete_seq s' < seg_seq g) \<and>
    map (\<lambda>g. unat (seg_seq g)) (take n gs) = [unat cur + 1..<unat cur + 1 + n] \<and>
    fifo_bytes (recv_fifo s') = fifo_bytes (recv_fifo s) @ concat (map (app_data s \<circ> seg_data) (take n gs)) \<and>
    recv_segments s' = recv_segments s \<and>
    key_recv s' = key_recv s \<and> magic_req s' = magic_req s \<and> magic_resp s' = magic_resp s"
  using assms
proof (induction gs arbitrary: cur s n)
  case (Cons g r)
  show ?case
  proof (cases "seg_seq g = cur + 1 \<and> drain_one g s \<noteq> None")
    case False
    then have "n = 0" "s' = s" using Cons.prems(1) by (auto simp: Let_def split: if_splits)
    then show ?thesis using Cons.prems by simp
  next
    case True
    then obtain s1 where s1: "drain_one g s = Some s1" and sq: "seg_seq g = cur + 1" by auto
    let ?s = "s1\<lparr>last_recv_complete_seq := seg_seq g\<rparr>"
    obtain m where m: "drain_loop r (cur + 1) ?s = (m, s')" and n: "n = Suc m"
      using Cons.prems(1) s1 sq by (auto simp: Let_def split: prod.splits)
    note one = drain_one_ok [OF s1 Cons.prems(3-5)]
    have up: "unat (cur + 1) = unat cur + 1"
    proof -
      have "cur < cur + 1" using Cons.prems(7) sq by simp
      then have "cur + 1 \<noteq> 0" by auto
      then show ?thesis by (simp add: unatSuc add.commute)
    qed
    have far: "cur + 1 < seg_seq h" if "h \<in> set r" for h
    proof -
      have "seg_seq g \<notin> seg_seq ` set r" "cur < seg_seq h" using that Cons.prems(6,7) by auto
      moreover have "seg_seq h \<in> seg_seq ` set r" using that by (rule imageI)
      ultimately have "seg_seq h \<noteq> cur + 1" "cur < seg_seq h" unfolding sq by auto
      then show ?thesis using up
        by (metis Suc_eq_plus1 Suc_leI le_neq_trans unsigned_word_eqI word_less_nat_alt)
    qed
    have tables: "tables_ok ?s" using conjunct1 [OF one] by (simp add: tables_ok_def)
    have prems: "cur + 1 = last_recv_complete_seq ?s" "tables_ok ?s" "window_ok ?s" "send_base ?s < 2 ^ 63"
        "distinct (map seg_seq r)" "\<forall>g \<in> set r. cur + 1 < seg_seq g"
      using one sq Cons.prems(5,6) far window_ok_cong [of ?s s1] tables by simp_all
    have ad: "app_data ?s = app_data s" using one by (intro ext) (simp add: app_data_def)
    note ih = Cons.IH [OF m prems, unfolded ad]
    have "[unat cur + 1..<unat cur + 1 + n] = (unat cur + 1) # [unat cur + 2..<unat cur + 2 + m]"
      unfolding n by (subst upt_rec) simp
    then show ?thesis
      using ih one window_ok_cong [of ?s s1] by (simp add: n sq up del: upt_Suc)
  qed
qed auto

lemma rt_drain_ok:
  assumes s: "session_ok s" and w: "window_ok s" and b: "send_base s < 2 ^ 63"
  shows "\<exists>n. session_ok (rt_drain s) \<and> window_ok (rt_drain s) \<and> send_base (rt_drain s) = send_base s \<and>
    n \<le> length (recv_segments s) \<and> recv_segments (rt_drain s) = drop n (recv_segments s) \<and>
    unat (last_recv_complete_seq (rt_drain s)) = unat (last_recv_complete_seq s) + n \<and>
    map (\<lambda>g. unat (seg_seq g)) (take n (recv_segments s)) =
      [unat (last_recv_complete_seq s) + 1..<unat (last_recv_complete_seq s) + 1 + n] \<and>
    fifo_bytes (recv_fifo (rt_drain s)) =
      fifo_bytes (recv_fifo s) @ concat (map (app_data s \<circ> seg_data) (take n (recv_segments s))) \<and>
    key_recv (rt_drain s) = key_recv s \<and> magic_req (rt_drain s) = magic_req s \<and> magic_resp (rt_drain s) = magic_resp s"
proof -
  obtain n s' where d: "drain_loop (recv_segments s) (last_recv_complete_seq s) s = (n, s')" by fastforce
  then have r: "rt_drain s = s'\<lparr>recv_segments := drop n (recv_segments s')\<rparr>"
    by (simp add: rt_drain_def)
  have t: "tables_ok s" "distinct (map seg_seq (recv_segments s))"
      "\<forall>g \<in> set (recv_segments s). last_recv_complete_seq s < seg_seq g"
    using s by (simp_all add: session_ok_def tables_ok_def)
  note ok = drain_loop_ok [OF d refl t(1) w b t(2,3)]
  have "tables_ok (s'\<lparr>recv_segments := drop n (recv_segments s')\<rparr>)"
    using ok by (auto simp: tables_ok_def drop_map [symmetric] intro: distinct_drop dest: in_set_dropD)
  with ok show ?thesis
    unfolding r using window_ok_cong [of "s'\<lparr>recv_segments := drop n (recv_segments s')\<rparr>" s']
    by (intro exI [of _ n]) (simp add: session_ok_def)
qed

text \<open>
  When the segments that have arrived are in order and fit the FIFO, one pass delivers them
  all; when the first one in the table is not the next expected, it delivers none.
\<close>

lemma rt_drain_blocked:
  "recv_segments s = g # r \<Longrightarrow> seg_seq g \<noteq> last_recv_complete_seq s + 1 \<Longrightarrow> rt_drain s = s"
  by (simp add: rt_drain_def Let_def)

section \<open>Segmenting\<close>

text \<open>
  The bytes moved out of the send FIFO are, in order, the data of the segments appended to
  the send table, which are numbered consecutively; nothing is lost at the 64-entry limit.
\<close>

lemma rt_segment_send_fifo_ok:
  assumes "session_ok s" "window_ok s" "send_base s < 2 ^ 63"
  shows "\<exists>new. session_ok (rt_segment_send_fifo s) \<and> window_ok (rt_segment_send_fifo s) \<and>
    send_base (rt_segment_send_fifo s) = send_base s \<and>
    send_segments (rt_segment_send_fifo s) = send_segments s @ new \<and>
    unat (next_send_seq (rt_segment_send_fifo s)) = unat (next_send_seq s) + length new \<and>
    map (\<lambda>g. unat (seg_seq g)) new = [unat (next_send_seq s)..<unat (next_send_seq s) + length new] \<and>
    fifo_bytes (send_fifo s) = concat (map seg_data new) @ fifo_bytes (send_fifo (rt_segment_send_fifo s)) \<and>
    (fsize (send_fifo (rt_segment_send_fifo s)) = 0 \<or> window_full (rt_segment_send_fifo s)) \<and>
    same_recv s (rt_segment_send_fifo s)"
  using assms
proof (induction s rule: rt_segment_send_fifo.induct)
  case (1 s)
  show ?case
  proof (cases "window_full s \<or> fsize (send_fifo s) = 0")
    case True
    then have "rt_segment_send_fifo s = s" by (subst rt_segment_send_fifo.simps) (auto simp: Let_def)
    with True 1(2,3) show ?thesis by (intro exI [of _ "[]"]) auto
  next
    case False
    let ?f = "send_fifo s"
    let ?n = "min (fsize ?f) RUDP_T_MAX_SEGMENT_SIZE"
    let ?d = "rt_fifo_peek ?f ?n"
    let ?q = "rt_queue_segment ?d s"
    define u where "u = ?q\<lparr>send_fifo := rt_fifo_advance ?f ?n\<rparr>"
    let ?g = "\<lparr>seg_seq = next_send_seq s, seg_data = ?d, next_send_tick = 0, num_sent = 0\<rparr>"
    have step: "rt_segment_send_fifo s = rt_segment_send_fifo u"
      using False unfolding u_def by (subst rt_segment_send_fifo.simps) (simp add: Let_def)
    have inv: "fifo_inv ?f" using 1(2) by (simp add: session_ok_def tables_ok_def)
    have d: "?d = take ?n (fifo_bytes ?f)" "length ?d \<le> 512"
      using rt_fifo_peek_bytes [OF inv] by (simp_all add: RUDP_T_MAX_SEGMENT_SIZE_def)
    have nf: "\<not> window_full s" using False by simp
    note q = queue_segment_room [OF 1(3,4) nf, of ?d]
    have c: "window_ok u" "send_base u = send_base s"
      using window_ok_cong [of u ?q] q(2,3) by (simp_all add: u_def)
    have "session_ok u"
      using queue_segment_ok [OF 1(2) d(2)] rt_fifo_advance_inv [OF inv, of ?n]
      by (simp add: u_def session_ok_def tables_ok_def rt_fifo_advance_def Let_def)
    then obtain new where new: "session_ok (rt_segment_send_fifo u)" "window_ok (rt_segment_send_fifo u)"
      "send_base (rt_segment_send_fifo u) = send_base u"
      "send_segments (rt_segment_send_fifo u) = send_segments u @ new"
      "unat (next_send_seq (rt_segment_send_fifo u)) = unat (next_send_seq u) + length new"
      "map (\<lambda>g. unat (seg_seq g)) new = [unat (next_send_seq u)..<unat (next_send_seq u) + length new]"
      "fifo_bytes (send_fifo u) = concat (map seg_data new) @ fifo_bytes (send_fifo (rt_segment_send_fifo u))"
      "fsize (send_fifo (rt_segment_send_fifo u)) = 0 \<or> window_full (rt_segment_send_fifo u)"
      "same_recv u (rt_segment_send_fifo u)"
      using 1(1) [OF nf refl _ refl] False c 1(4) unfolding u_def [symmetric] by auto
    have ss: "send_segments u = send_segments s @ [?g]" "next_send_seq u = next_send_seq s + 1"
      using q(1) by (simp_all add: u_def)
    have n1: "unat (next_send_seq u) = unat (next_send_seq s) + 1"
      unfolding ss by (rule unat_Suc_small) (use window_okD(3,4) [OF 1(3)] 1(4) in simp)
    have fb: "fifo_bytes ?f = ?d @ fifo_bytes (send_fifo u)"
      using d(1) rt_fifo_advance_bytes [OF inv, of ?n] by (simp add: u_def)
    have sr: "same_recv s u" by (simp add: same_recv_def u_def)
    have up: "[unat (next_send_seq s)..<unat (next_send_seq s) + length (?g # new)] =
        unat (next_send_seq s) # [unat (next_send_seq u)..<unat (next_send_seq u) + length new]"
      unfolding n1 by (subst upt_rec) simp
    have "fifo_bytes ?f = concat (map seg_data (?g # new)) @ fifo_bytes (send_fifo (rt_segment_send_fifo u))"
      using fb new(7) by simp
    moreover have "map (\<lambda>g. unat (seg_seq g)) (?g # new) =
        [unat (next_send_seq s)..<unat (next_send_seq s) + length (?g # new)]"
      unfolding up new(6) [symmetric] by simp
    ultimately show ?thesis
      unfolding step using new(1-5,8) n1 c ss(1) same_recv_trans [OF sr new(9)]
      by (intro exI [of _ "?g # new"] conjI) simp_all
  qed
qed

end
