(* ===== verification/Rudp_Stream.thy ===== *)
theory Rudp_Stream
  imports Rudp_Transport "HOL-Library.Multiset"
begin

text \<open>
  The guarantees of the R-UDP transport as a running system: the worker thread, the network
  and the application interleave as a step relation, every reachable state keeps the
  session within its buffers and its send window, and what the application reads is the
  peer's byte stream in order, without gaps or repetitions.
\<close>

section \<open>The transport invariant\<close>

text \<open>
  Beside the session: every datagram handed to \<^verbatim>\<open>sendto\<close> fits the buffer it was built in
  (1355 bytes for the segment, 64 more for the DNS or ICMP wrapping), and the sequence
  numbers are far from wrapping round.
\<close>

definition out_ok :: "rudp_transport \<Rightarrow> bool" where
  "out_ok t \<longleftrightarrow> (\<forall>d \<in> set (udp_out t). length (snd (snd d)) \<le> RUDP_T_MAX_PACKET_SIZE + 64)"

definition rt_inv :: "rudp_transport \<Rightarrow> bool" where
  "rt_inv t \<longleftrightarrow> session_ok (se t) \<and> window_ok (se t) \<and> out_ok t"

definition seq_room :: "rt_session_t \<Rightarrow> bool" where
  "seq_room s \<longleftrightarrow> send_base s < 2 ^ 63"

text \<open>What the application has been given or will be given from the FIFO, with the receive table.\<close>

definition stream :: "rudp_transport \<Rightarrow> bytes" where
  "stream t = pair_out t @ fifo_bytes (recv_fifo (se t))"

definition rx_view ::
  "rudp_transport \<Rightarrow> bytes \<times> rt_segment_t list \<times> u64 \<times> bytes \<times> bytes \<times> bytes \<times> nat" where
  "rx_view t = (stream t, recv_segments (se t), last_recv_complete_seq (se t), key_recv (se t),
     magic_req (se t), magic_resp (se t), transport_mode t)"

definition keeps :: "rudp_transport \<Rightarrow> rudp_transport \<Rightarrow> bool" where
  "keeps t t' \<longleftrightarrow> (rt_inv t \<and> seq_room (se t) \<longrightarrow>
     rt_inv t' \<and> seq_room (se t') \<and> rx_view t' = rx_view t)"

lemma keeps_refl [simp]: "keeps t t"
  by (simp add: keeps_def)

lemma keeps_trans: "keeps t t' \<Longrightarrow> keeps t' t'' \<Longrightarrow> keeps t t''"
  by (simp add: keeps_def)

lemma hex_label_length: "length (hex_label l) = 2 * length l"
  by (induction l) (simp_all add: hex_label_def)

lemma framed_length:
  assumes "rt_env_ok env" "length label = 4" "length d \<le> RUDP_T_MAX_PACKET_SIZE"
  shows "length (framed env t label d) \<le> RUDP_T_MAX_PACKET_SIZE + 36"
  using assms by (simp add: framed_def dns_frame_def icmp_frame_def icmp_clear_def hex_label_length
      dns_qhdr_def dns_qtail_def rt_env_ok_def Let_def)

lemma take_mod_length:
  assumes "20 < length d"
  shows "length (take 20 (drop (r mod (length d - 20)) d)) = 20"
proof -
  have "r mod (length d - 20) < length d - 20" using assms by simp
  then show ?thesis unfolding length_take length_drop by linarith
qed

lemma send_udp_iv:
  assumes "rt_env_ok env" "20 < length d"
  shows "length (rt_next_iv (se (rt_send_udp env d t))) = 20"
proof -
  let ?t = "stamp_sent env (length d) (rt_transmit env d t)"
  obtain ok iv where iv: "rt_rbytes env (rb_i ?t) 20 = (ok, iv)" by fastforce
  then have "length iv = 20" using assms(1) unfolding rt_env_ok_def by (metis snd_conv)
  with iv show ?thesis
    using assms(2) take_mod_length [OF assms(2), of "rt_rand env (rand_i ?t)"]
    by (simp add: rt_send_udp_def Let_def c_rand_def generate_random_bytes_def on_se_def RUDP_T_SHA1_SIZE_def)
qed

lemma session_ok_sent:
  assumes "sent_only t t'" "length (rt_next_iv (se t')) = 20" "length (reply_acks (se t')) \<le> 64"
  shows "session_ok (se t) \<Longrightarrow> session_ok (se t')" "window_ok (se t') = window_ok (se t)"
    "send_base (se t') = send_base (se t)"
proof -
  note f = sent_only_fields [OF assms(1)]
  show "session_ok (se t) \<Longrightarrow> session_ok (se t')"
    using assms(2,3) f by (simp add: session_ok_def tables_ok_def)
  show "window_ok (se t') = window_ok (se t)" "send_base (se t') = send_base (se t)"
    using window_ok_cong [of "se t'" "se t"] f by simp_all
qed

lemma rx_view_sent: "sent_only t t' \<Longrightarrow> rx_view t' = rx_view t"
  by (simp add: rx_view_def stream_def sent_only_fields)

lemma keeps_sent:
  assumes so: "sent_only t t'"
    and ok: "session_ok (se t) \<Longrightarrow>
      length (rt_next_iv (se t')) = 20 \<and> length (reply_acks (se t')) \<le> 64 \<and> (out_ok t \<longrightarrow> out_ok t')"
  shows "keeps t t'"
proof -
  have "rt_inv t' \<and> seq_room (se t')" if "rt_inv t" "seq_room (se t)"
    using session_ok_sent [OF so] ok that by (simp add: rt_inv_def seq_room_def)
  then show ?thesis using rx_view_sent [OF so] by (simp add: keeps_def)
qed

lemma keeps_send_udp:
  assumes env: "rt_env_ok env" and len: "20 < length d" "length d \<le> RUDP_T_MAX_PACKET_SIZE"
  shows "keeps t (rt_send_udp env d t)"
proof (rule keeps_sent [OF sent_only_udp [OF sent_only_refl]])
  assume s: "session_ok (se t)"
  obtain label where l: "length label = 4" "udp_out (rt_send_udp env d t) =
      udp_out t @ [(your_ip (se t), your_port (se t), framed env t label d)]"
    using send_udp_out [OF env] by blast
  have "length (framed env t label d) \<le> RUDP_T_MAX_PACKET_SIZE + 64"
    using framed_length [OF env l(1) len(2), of t] by simp
  then show "length (rt_next_iv (se (rt_send_udp env d t))) = 20 \<and>
      length (reply_acks (se (rt_send_udp env d t))) \<le> 64 \<and> (out_ok t \<longrightarrow> out_ok (rt_send_udp env d t))"
    using send_udp_iv [OF env len(1), of t] s l(2)
    by (simp add: out_ok_def session_ok_def tables_ok_def)
qed

lemma keeps_send_segment:
  assumes env: "rt_env_ok env" and len: "length d \<le> 512"
  shows "keeps t (rt_send_segment_now env sq d t)"
proof (rule keeps_sent [OF sent_only_segment [OF sent_only_refl]])
  let ?t = "rt_send_segment_now env sq d t"
  let ?p = "segment_sent env sq d t"
  assume "session_ok (se t)"
  then have iv: "length (rt_next_iv (se t)) = 20" by (simp add: session_ok_def tables_ok_def)
  note p = segment_sent_opens(2,3) [OF env iv len, of sq]
  obtain label where l: "length label = 4" "udp_out ?t =
      udp_out t @ [(your_ip (se t), your_port (se t), framed env t label ?p)]"
    using send_segment_out [OF env] by blast
  have "length (framed env t label ?p) \<le> RUDP_T_MAX_PACKET_SIZE + 64"
    using framed_length [OF env l(1) p(2), of t] by simp
  moreover have "\<exists>r. rt_next_iv (se ?t) = take 20 (drop (r mod (length ?p - 20)) ?p)"
    by (simp add: rt_send_segment_now_def segment_sent_def Let_def c_rand_def rt_tick64_def on_se_def
        RUDP_T_SHA1_SIZE_def) blast
  then have "length (rt_next_iv (se ?t)) = 20"
    using take_mod_length [of ?p] p(1) by fastforce
  ultimately show "length (rt_next_iv (se ?t)) = 20 \<and> length (reply_acks (se ?t)) \<le> 64 \<and>
      (out_ok t \<longrightarrow> out_ok ?t)"
    using l(2) by (simp add: out_ok_def)
qed

text \<open>Changes outside the fields the invariant and the view speak of.\<close>

lemma keeps_cong:
  assumes "se t' = se t" "pair_out t' = pair_out t" "udp_out t' = udp_out t" "transport_mode t' = transport_mode t"
  shows "keeps t t'"
  using assms by (simp add: keeps_def rt_inv_def out_ok_def rx_view_def stream_def)

lemma keeps_se:
  assumes "session_ok (se t) \<Longrightarrow> window_ok (se t) \<Longrightarrow> seq_room (se t) \<Longrightarrow>
      session_ok (f (se t)) \<and> window_ok (f (se t)) \<and> send_base (f (se t)) = send_base (se t)"
    and "session_ok (se t) \<Longrightarrow> window_ok (se t) \<Longrightarrow> seq_room (se t) \<Longrightarrow> same_recv (se t) (f (se t))"
  shows "keeps t (on_se f t)"
  using assms by (auto simp: keeps_def rt_inv_def out_ok_def rx_view_def stream_def on_se_def same_recv_def seq_room_def)

lemma keeps_status: "keeps t (on_se (\<lambda>s. s\<lparr>status := x\<rparr>) t)"
  by (rule keeps_se) (simp_all add: session_ok_def tables_ok_def window_ok_cong [of "se t\<lparr>status := x\<rparr>" "se t"]
      same_recv_def)

lemma keeps_last_sent: "keeps t (on_se (\<lambda>s. s\<lparr>last_sent_tick := x\<rparr>) t)"
  by (rule keeps_se) (simp_all add: session_ok_def tables_ok_def
      window_ok_cong [of "se t\<lparr>last_sent_tick := x\<rparr>" "se t"] same_recv_def)

lemma keeps_power:
  "rt_env_ok env \<Longrightarrow> length d \<le> 512 \<Longrightarrow> keeps t ((rt_send_segment_now env sq d ^^ n) t)"
  by (induction n) (auto intro: keeps_trans keeps_send_segment)

lemma keeps_set_disconnected:
  assumes "rt_env_ok env"
  shows "keeps t (rt_set_disconnected env by_you t)"
proof -
  define t1 where "t1 = (if \<not> by_you \<and> status (se t) = RT_STATUS_ESTABLISHED
    then (rt_send_segment_now env (magic_disconnect (se t)) [] ^^ 5) t else t)"
  define t2 where "t2 = on_se (\<lambda>s. s\<lparr>status := RT_STATUS_DISCONNECTED\<rparr>) t1"
  define t3 where "t3 = rt_signal_result False (if worker_fd t2 \<ge> 0 then t2\<lparr>pair_shut := True\<rparr> else t2)"
  have "keeps t t1" using keeps_power [OF assms, of "[]"] by (simp add: t1_def)
  moreover have "keeps t1 t2" unfolding t2_def by (rule keeps_status)
  moreover have "keeps t2 t3" by (rule keeps_cong) (simp_all add: t3_def rt_signal_result_def)
  ultimately have "keeps t t3" using keeps_trans by blast
  moreover have "rt_set_disconnected env by_you t = (if status (se t) = RT_STATUS_DISCONNECTED then t else t3)"
    unfolding rt_set_disconnected_def Let_def t1_def t2_def t3_def by (rule refl)
  ultimately show ?thesis by simp
qed

lemma keeps_pump_recv: "rt_env_ok env \<Longrightarrow> keeps t (rt_pump_recv_to_pair env t)"
proof (induction env t rule: rt_pump_recv_to_pair.induct)
  case (1 env t)
  let ?f = "recv_fifo (se t)"
  let ?n = "min (fsize ?f) RUDP_T_MAX_SEGMENT_SIZE"
  let ?t1 = "t\<lparr>snd_i := snd_i t + 1\<rparr>"
  have k1: "keeps t ?t1" by (rule keeps_cong) simp_all
  have inv: "rt_inv t \<Longrightarrow> fifo_inv ?f" by (simp add: rt_inv_def session_ok_def tables_ok_def)
  show ?case
  proof (cases "fsize ?f \<ge> 1")
    case False
    then show ?thesis by (subst rt_pump_recv_to_pair.simps) (simp add: Let_def)
  next
    case True
    obtain r where r: "send_pair env t = (r, ?t1)" by (simp add: send_pair_def)
    show ?thesis
    proof (cases r)
      case (Sent k)
      let ?w = "min k ?n"
      let ?t2 = "on_se (\<lambda>s. s\<lparr>recv_fifo := rt_fifo_advance ?f ?w\<rparr>)
        (?t1\<lparr>pair_out := pair_out ?t1 @ take ?w (rt_fifo_peek ?f ?n)\<rparr>)"
      have "take ?w (rt_fifo_peek ?f ?n) = take ?w (fifo_bytes ?f)" if "rt_inv t"
        using rt_fifo_peek_bytes [OF inv [OF that]] by (simp add: min_def)
      then have "stream ?t2 = stream t" if "rt_inv t"
        using rt_fifo_advance_bytes [OF inv [OF that], of ?w] that by (simp add: stream_def on_se_def)
      then have "rx_view ?t2 = rx_view t" if "rt_inv t" using that by (simp add: rx_view_def on_se_def)
      moreover have "rt_inv ?t2 \<and> seq_room (se ?t2)" if "rt_inv t" "seq_room (se t)"
        using that rt_fifo_advance_inv [OF inv, of ?w]
          window_ok_cong [of "se t\<lparr>recv_fifo := rt_fifo_advance ?f ?w\<rparr>" "se t"]
        by (simp add: rt_inv_def out_ok_def session_ok_def tables_ok_def on_se_def seq_room_def
            rt_fifo_advance_def Let_def)
      ultimately have k2: "keeps t ?t2" by (simp add: keeps_def)
      show ?thesis
      proof (cases "?w = 0")
        case w: True
        then show ?thesis using True r Sent k1 by (subst rt_pump_recv_to_pair.simps) (simp add: Let_def)
      next
        case w: False
        then have "rt_pump_recv_to_pair env t = rt_pump_recv_to_pair env ?t2"
          using True r Sent by (subst rt_pump_recv_to_pair.simps) (auto simp: Let_def)
        moreover have "keeps ?t2 (rt_pump_recv_to_pair env ?t2)"
          using 1(1) [OF refl True refl refl r [symmetric] Sent refl w 1(2)] .
        ultimately show ?thesis using keeps_trans [OF k2] by simp
      qed
    next
      case Again
      then show ?thesis using True r k1 by (subst rt_pump_recv_to_pair.simps) (simp add: Let_def)
    next
      case Broken
      then show ?thesis
        using True r keeps_trans [OF k1 keeps_set_disconnected [OF 1(2)]]
        by (subst rt_pump_recv_to_pair.simps) (simp add: Let_def)
    qed
  qed
qed

text \<open>
  Reading from the application: what is taken from the pair is appended to the send FIFO,
  unless the FIFO has no room for it.
\<close>

lemma write_or_drop:
  assumes "session_ok s"
  shows "session_ok (case rt_fifo_write (send_fifo s) d of None \<Rightarrow> s | Some f \<Rightarrow> s\<lparr>send_fifo := f\<rparr>)"
    "fifo_bytes (send_fifo (case rt_fifo_write (send_fifo s) d of None \<Rightarrow> s | Some f \<Rightarrow> s\<lparr>send_fifo := f\<rparr>)) =
      fifo_bytes (send_fifo s) @ (if length d \<le> rt_fifo_avail (send_fifo s) then d else [])"
proof -
  have inv: "fifo_inv (send_fifo s)" using assms by (simp add: session_ok_def tables_ok_def)
  show "session_ok (case rt_fifo_write (send_fifo s) d of None \<Rightarrow> s | Some f \<Rightarrow> s\<lparr>send_fifo := f\<rparr>)"
    using assms rt_fifo_write_inv [OF inv] rt_fifo_write_SomeD [OF inv]
    by (simp add: session_ok_def tables_ok_def split: option.split)
  show "fifo_bytes (send_fifo (case rt_fifo_write (send_fifo s) d of None \<Rightarrow> s | Some f \<Rightarrow> s\<lparr>send_fifo := f\<rparr>)) =
      fifo_bytes (send_fifo s) @ (if length d \<le> rt_fifo_avail (send_fifo s) then d else [])"
    using rt_fifo_write_bytes [OF inv] fifo.write_ok [OF inv] fifo.write_full
    by (cases "length d \<le> rt_fifo_avail (send_fifo s)") (fastforce split: option.split)+
qed

lemma keeps_pump_pair:
  assumes env: "rt_env_ok env"
  shows "keeps t (rt_pump_pair_to_send env t)"
  using env
proof (induction env t rule: rt_pump_pair_to_send.induct)
  case (1 env t)
  obtain r t1 where r: "recv_pair env t = (r, t1)" by fastforce
  have k1: "keeps t t1"
    using r by (intro keeps_cong) (auto simp: recv_pair_def Let_def split: if_splits)
  show ?case
  proof (cases "fsize (send_fifo (se t)) \<ge> RUDP_T_MAX_FIFO_SIZE")
    case True
    then show ?thesis by (subst rt_pump_pair_to_send.simps) simp
  next
    case False
    show ?thesis
    proof (cases r)
      case (Got d)
      let ?h = "\<lambda>s. case rt_fifo_write (send_fifo s) d of None \<Rightarrow> s | Some f \<Rightarrow> s\<lparr>send_fifo := f\<rparr>"
      have "window_ok (?h (se t1)) = window_ok (se t1) \<and> send_base (?h (se t1)) = send_base (se t1)"
        by (rule window_ok_cong) (simp_all split: option.split)
      moreover have "same_recv (se t1) (?h (se t1))" by (simp add: same_recv_def split: option.split)
      ultimately have "keeps t1 (on_se ?h t1)"
        using write_or_drop(1) [of "se t1" d] by (intro keeps_se) simp_all
      then have k2: "keeps t (on_se ?h t1)" by (rule keeps_trans [OF k1])
      have "rt_pump_pair_to_send env t = rt_pump_pair_to_send env (on_se ?h t1)"
        using False r Got by (subst rt_pump_pair_to_send.simps) simp
      moreover have "keeps (on_se ?h t1) (rt_pump_pair_to_send env (on_se ?h t1))"
        by (rule 1(1) [OF False r [symmetric] Got 1(2)])
      ultimately show ?thesis using keeps_trans [OF k2] by simp
    next
      case Nothing_yet
      then show ?thesis using False r k1 by (subst rt_pump_pair_to_send.simps) simp
    next
      case Closed
      then show ?thesis
        using False r keeps_trans [OF k1 keeps_set_disconnected] 1(2)
        by (subst rt_pump_pair_to_send.simps) simp
    next
      case Failed
      then show ?thesis
        using False r keeps_trans [OF k1 keeps_set_disconnected] 1(2)
        by (subst rt_pump_pair_to_send.simps) simp
    qed
  qed
qed

lemma keeps_segment_fifo: "keeps t (on_se rt_segment_send_fifo t)"
  by (rule keeps_se) (use rt_segment_send_fifo_ok [of "se t"] in \<open>auto simp: seq_room_def\<close>)

lemma keepsI: "(rt_inv t \<Longrightarrow> seq_room (se t) \<Longrightarrow> keeps t t') \<Longrightarrow> keeps t t'"
  by (simp add: keeps_def)

lemma keeps_interval: "keeps t (on_se (\<lambda>s. s\<lparr>next_keepalive_interval := v\<rparr>) t)"
  by (rule keeps_se) (simp_all add: session_ok_def tables_ok_def
      window_ok_cong [of "se t\<lparr>next_keepalive_interval := v\<rparr>" "se t"] same_recv_def)

lemma keeps_keepalive: "keeps t (rt_keepalive env now t)"
proof -
  define t1 where "t1 = (if send_segments (se t) = [] then on_se (rt_queue_segment (magic_req (se t))) t else t)"
  have "keeps t t1"
  proof (cases "send_segments (se t) = []")
    case True
    have "length (magic_req (se t)) \<le> 512" if "session_ok (se t)"
      using that by (simp add: session_ok_def tables_ok_def)
    then have "keeps t (on_se (rt_queue_segment (magic_req (se t))) t)"
      using True queue_segment_room(2,3) [of "se t" "magic_req (se t)"] queue_segment_ok
      by (intro keeps_se) (simp_all add: seq_room_def same_recv_def)
    with True show ?thesis by (simp add: t1_def)
  qed (simp add: t1_def)
  moreover have "keeps t1 (t1\<lparr>rand_i := rand_i t1 + 1\<rparr>)" by (rule keeps_cong) simp_all
  ultimately have "keeps t (on_se (\<lambda>s. s\<lparr>next_keepalive_interval := v\<rparr>) (t1\<lparr>rand_i := rand_i t1 + 1\<rparr>))" for v
    using keeps_interval keeps_trans by blast
  then show ?thesis
    by (simp add: rt_keepalive_def keepalive_interval_def c_rand_def Let_def t1_def)
qed

lemma touch_segment_ok:
  fixes s :: rt_session_t
  assumes "j < length (send_segments s)" "seg_seq g = seg_seq (send_segments s ! j)"
    "seg_data g = seg_data (send_segments s ! j)"
  shows "session_ok s \<Longrightarrow> session_ok (s\<lparr>send_segments := (send_segments s)[j := g]\<rparr>)"
    "seqs (s\<lparr>send_segments := (send_segments s)[j := g]\<rparr>) = seqs s"
proof -
  show "session_ok s \<Longrightarrow> session_ok (s\<lparr>send_segments := (send_segments s)[j := g]\<rparr>)"
    using assms by (auto simp: session_ok_def tables_ok_def dest!: subsetD [OF set_update_subset_insert])
  have "map (\<lambda>g. unat (seg_seq g)) ((send_segments s)[j := g]) = (map (\<lambda>g. unat (seg_seq g)) (send_segments s))
      [j := map (\<lambda>g. unat (seg_seq g)) (send_segments s) ! j]"
    using assms by (simp add: map_update)
  then show "seqs (s\<lparr>send_segments := (send_segments s)[j := g]\<rparr>) = seqs s" by (simp add: seqs_def)
qed

lemma keeps_resend_one:
  assumes env: "rt_env_ok env" and j: "j < length (send_segments (se t))"
  shows "keeps t (resend_one env now smin j t)"
    and "length (send_segments (se (resend_one env now smin j t))) = length (send_segments (se t))"
proof -
  let ?g = "send_segments (se t) ! j"
  let ?g' = "?g\<lparr>num_sent := num_sent ?g + 1,
    next_send_tick := now + ucast (resend_interval (current_rtt (se t)) (num_sent ?g))\<rparr>"
  let ?h = "\<lambda>s :: rt_session_t. s\<lparr>send_segments := (send_segments s)[j := ?g']\<rparr>"
  have "window_ok (?h (se t)) = window_ok (se t) \<and> send_base (?h (se t)) = send_base (se t)"
    using touch_segment_ok(2) [OF j, of ?g'] by (simp add: window_ok_def send_base_def split: list.split)
  then have k: "keeps t (on_se ?h t)"
    using touch_segment_ok(1) [OF j, of ?g'] by (intro keeps_se) (simp_all add: same_recv_def)
  show "keeps t (resend_one env now smin j t)"
  proof (rule keepsI)
    assume "rt_inv t"
    then have "length (seg_data ?g) \<le> 512" using j by (simp add: rt_inv_def session_ok_def tables_ok_def)
    from keeps_trans [OF k keeps_send_segment [OF env this]]
    show "keeps t (resend_one env now smin j t)" by (simp add: resend_one_def Let_def)
  qed
  show "length (send_segments (se (resend_one env now smin j t))) = length (send_segments (se t))"
    by (simp add: resend_one_def Let_def) (simp add: on_se_def)
qed

lemma keeps_resend:
  assumes env: "rt_env_ok env"
  shows "keeps t (rt_resend env now t)"
proof -
  have "keeps t (fold (resend_one env now m) js t)" if "\<forall>j \<in> set js. j < length (send_segments (se t))" for m js
    using that
  proof (induction js arbitrary: t)
    case (Cons j js)
    have j: "j < length (send_segments (se t))" using Cons.prems by simp
    show ?case
      using keeps_trans [OF keeps_resend_one(1) [OF env j] Cons.IH] Cons.prems keeps_resend_one(2) [OF env j]
      by simp
  qed simp
  then show ?thesis by (simp add: rt_resend_def)
qed

lemma flush_acks_unfold:
  "rt_flush_acks env t = (if reply_acks (se t) = [] then t
     else rt_send_segment_now env (next_send_seq (se t)) [] t)"
  using rt_flush_acks.simps [of env t] rt_flush_acks.simps [of env "rt_send_segment_now env (next_send_seq (se t)) [] t"]
  by (cases "reply_acks (se t)") simp_all

lemma keeps_flush_acks: "rt_env_ok env \<Longrightarrow> keeps t (rt_flush_acks env t)"
  by (simp add: flush_acks_unfold keeps_send_segment)

lemma keeps_connect_tick:
  assumes env: "rt_env_ok env"
  shows "keeps t (connect_tick env now t)"
proof (rule keepsI)
  assume inv: "rt_inv t"
  obtain ok r where r: "rt_rbytes env (rb_i t) 19 = (ok, r)" by fastforce
  then have "length r = 19" using env unfolding rt_env_ok_def by (metis snd_conv)
  then have len: "length (key_init (se t) @ r) = 39"
    using inv by (simp add: rt_inv_def session_ok_def tables_ok_def)
  define t1 where "t1 = (if last_sent_tick (se t) = 0 \<or> now - last_sent_tick (se t) \<ge> RUDP_T_RESEND_TIMER
    then on_se (\<lambda>s. s\<lparr>last_sent_tick := now\<rparr>) (rt_send_udp env (key_init (se t) @ r) (t\<lparr>rb_i := rb_i t + 1\<rparr>)) else t)"
  have "keeps t (t\<lparr>rb_i := rb_i t + 1\<rparr>)" by (rule keeps_cong) simp_all
  moreover have "keeps u (rt_send_udp env (key_init (se t) @ r) u)" for u
    using keeps_send_udp [OF env, of "key_init (se t) @ r"] unfolding len rt_consts by simp
  ultimately have k1: "keeps t t1"
    unfolding t1_def using keeps_trans keeps_last_sent by simp blast
  have "keeps t1 (t1\<lparr>error_code := RUDP_T_ERR_TIMEOUT\<rparr>)" by (rule keeps_cong) simp_all
  then have "keeps t (rt_set_disconnected env False (t1\<lparr>error_code := RUDP_T_ERR_TIMEOUT\<rparr>))"
    using k1 keeps_set_disconnected [OF env] keeps_trans by blast
  moreover have "connect_tick env now t = (if now - created_tick (se t1) \<ge> ucast (connect_timeout_ms t1)
      then rt_set_disconnected env False (t1\<lparr>error_code := RUDP_T_ERR_TIMEOUT\<rparr>) else t1)"
    unfolding connect_tick_def Let_def generate_random_bytes_def r t1_def split_conv prod.case by (rule refl)
  ultimately show "keeps t (connect_tick env now t)" using k1 by simp
qed

lemma drain_inv:
  "rt_inv t \<Longrightarrow> seq_room (se t) \<Longrightarrow> rt_inv (on_se rt_drain t) \<and> seq_room (se (on_se rt_drain t))"
  using rt_drain_ok [of "se t"] by (auto simp: rt_inv_def out_ok_def on_se_def seq_room_def)

text \<open>The periodic processing drains the table once, and keeps what follows from there.\<close>

lemma interrupt_keeps:
  assumes env: "rt_env_ok env"
  shows "keeps t (rt_interrupt env now t) \<or> keeps (on_se rt_drain t) (rt_interrupt env now t)"
proof (cases "status (se t) = RT_STATUS_ESTABLISHED \<and> \<not> now \<ge> latest_recv_my_tick (se t) + RUDP_T_TIMEOUT_MS")
  case True
  note ks = keeps_pump_recv [OF env] keeps_pump_pair [OF env] keeps_segment_fifo keeps_keepalive
    keeps_resend [OF env] keeps_flush_acks [OF env]
  have "keeps t' (rt_flush_acks env (rt_resend env now (rt_keepalive env now (on_se rt_segment_send_fifo
      (rt_pump_pair_to_send env (rt_pump_recv_to_pair env t'))))))" for t'
    by (rule keeps_trans [OF keeps_trans [OF keeps_trans [OF keeps_trans [OF keeps_trans
      [OF ks(1) ks(2)] ks(3)] ks(4)] ks(5)] ks(6)])
  with True show ?thesis by (simp add: rt_interrupt_def Let_def)
next
  case False
  have "keeps t (t\<lparr>error_code := RUDP_T_ERR_TIMEOUT\<rparr>)" by (rule keeps_cong) simp_all
  from keeps_trans [OF this keeps_set_disconnected [OF env]] False show ?thesis
    by (auto simp: rt_interrupt_def keeps_connect_tick [OF env])
qed

section \<open>Accepting a datagram\<close>

definition seq_far :: "rt_session_t \<Rightarrow> bool" where
  "seq_far s \<longleftrightarrow> unat (next_send_seq s) < 2 ^ 63"

lemma seq_far_room: "window_ok s \<Longrightarrow> seq_far s \<Longrightarrow> seq_room s"
  using window_okD(3) by (fastforce simp: seq_far_def seq_room_def)

text \<open>
  At most one segment is added to the reorder table, at its end; delivered bytes, keys and
  mode stay.
\<close>

definition gains :: "(rt_segment_t \<Rightarrow> bool) \<Rightarrow> rudp_transport \<Rightarrow> rudp_transport \<Rightarrow> bool" where
  "gains P t t' \<longleftrightarrow> (rt_inv t \<and> seq_far (se t) \<longrightarrow> rt_inv t' \<and> seq_far (se t')) \<and>
     stream t' = stream t \<and> last_recv_complete_seq (se t') = last_recv_complete_seq (se t) \<and>
     key_recv (se t') = key_recv (se t) \<and> magic_req (se t') = magic_req (se t) \<and>
     magic_resp (se t') = magic_resp (se t) \<and> transport_mode t' = transport_mode t \<and>
     (recv_segments (se t') = recv_segments (se t) \<or>
      (\<exists>g. recv_segments (se t') = recv_segments (se t) @ [g] \<and> P g))"

lemma gains_refl [simp]: "gains P t t"
  by (simp add: gains_def)

lemma gains_cong:
  assumes "gains P t u" "se t' = se u" "pair_out t' = pair_out u" "udp_out t' = udp_out u"
    "transport_mode t' = transport_mode u"
  shows "gains P t t'"
  using assms by (simp add: gains_def rt_inv_def out_ok_def stream_def)

lemma gains_se:
  assumes "gains P t u" "same_recv (se u) (f (se u))" "session_ok (se u) \<Longrightarrow> session_ok (f (se u))"
    "window_ok (se u) \<Longrightarrow> window_ok (f (se u))" "next_send_seq (f (se u)) = next_send_seq (se u)"
  shows "gains P t (on_se f u)"
  using assms by (auto simp: gains_def rt_inv_def out_ok_def stream_def on_se_def same_recv_def seq_far_def)

lemma gains_keeps:
  assumes "gains P t u" "keeps u t'" "next_send_seq (se t') = next_send_seq (se u)"
    "rt_inv t" "seq_far (se t)"
  shows "gains P t t'"
proof -
  have "rt_inv u" "seq_far (se u)" using assms(1,4,5) by (auto simp: gains_def)
  then have "rt_inv t'" "rx_view t' = rx_view u"
    using assms(2) seq_far_room by (auto simp: keeps_def rt_inv_def)
  with assms(1,3) show ?thesis by (auto simp: gains_def rx_view_def seq_far_def)
qed

lemma next_seq_set_disconnected [simp]:
  "next_send_seq (se (rt_set_disconnected env by_you t)) = next_send_seq (se t)"
  by (simp add: rt_set_disconnected_def rt_signal_result_def on_se_def Let_def)

lemma recv_payload_gains:
  assumes "1 \<le> length d" "length d \<le> 512"
  shows "gains (\<lambda>g. seg_seq g = q \<and> seg_data g = d) t (on_se (rt_process_recv_payload q d) t)"
proof -
  let ?s = "rt_process_recv_payload q d (se t)"
  have eq: "recv_fifo ?s = recv_fifo (se t)" "last_recv_complete_seq ?s = last_recv_complete_seq (se t)"
      "key_recv ?s = key_recv (se t)" "magic_req ?s = magic_req (se t)" "magic_resp ?s = magic_resp (se t)"
      "recv_segments ?s = recv_segments (se t) \<or>
       (\<exists>g. recv_segments ?s = recv_segments (se t) @ [g] \<and> seg_seq g = q \<and> seg_data g = d)"
    by (simp_all add: rt_process_recv_payload_def rt_add_ack_def)
  moreover have "rt_inv t \<and> seq_far (se t) \<longrightarrow> rt_inv (t\<lparr>se := ?s\<rparr>) \<and> seq_far ?s"
    using recv_payload_ok [where s = "se t"] assms(2) by (simp add: rt_inv_def out_ok_def seq_far_def)
  ultimately show ?thesis by (simp add: gains_def on_se_def stream_def)
qed

lemma gains_trans_left:
  assumes "gains (\<lambda>_. False) t u" "gains P u t'"
  shows "gains P t t'"
  using assms by (auto simp: gains_def)

lemma gains_mono: "gains P t t' \<Longrightarrow> (\<And>g. P g \<Longrightarrow> Q g) \<Longrightarrow> gains Q t t'"
  by (auto simp: gains_def)

lemma accept_gains:
  assumes env: "rt_env_ok env" and inv: "rt_inv t" "seq_far (se t)"
  shows "gains (\<lambda>g. seg_seq g = sq \<and> seg_data g = payload \<and> payload \<noteq> []) t
    (accept_segment env port (m, y, k, acks, sq, payload) t)"
proof -
  let ?P = "\<lambda>g. seg_seq g = sq \<and> seg_data g = payload \<and> payload \<noteq> []"
  define t1 where "t1 = on_se (note_ticks m y \<circ> process_acks k acks) t"
  have "same_recv (se t) (note_ticks m y (process_acks k acks (se t)))"
    by (rule same_recv_trans [OF same_recv_acks note_ticks_ok(3)])
  then have g1: "gains P t t1" for P
    unfolding t1_def by (intro gains_se) (simp_all add: note_ticks_ok process_acks_ok)
  define d where "d = (if length payload > RUDP_T_MAX_SEGMENT_SIZE then [] else payload)"
  define t2 where "t2 = (if length d \<ge> 1 then on_se (rt_process_recv_payload sq d) t1 else t1)"
  have g2: "gains ?P t t2"
  proof (cases "length d \<ge> 1")
    case True
    then have "d = payload" "d \<noteq> []" "length d \<le> 512"
      by (auto simp: d_def RUDP_T_MAX_SEGMENT_SIZE_def split: if_splits)
    with True have "gains ?P t1 t2" using recv_payload_gains [of d sq t1] by (simp add: t2_def)
    then show ?thesis using gains_trans_left [OF g1] by blast
  next
    case False
    then have "t2 = t1" by (simp add: t2_def)
    then show ?thesis using g1 by simp
  qed
  define t3 where "t3 = (if status (se t2) = RT_STATUS_CONNECT_SENT
    then rt_signal_result True (on_se (\<lambda>s. s\<lparr>status := RT_STATUS_ESTABLISHED\<rparr>) t2) else t2)"
  have st: "gains ?P t (on_se (\<lambda>s. s\<lparr>status := RT_STATUS_ESTABLISHED\<rparr>) t2)"
    by (rule gains_se [OF g2]) (simp_all add: same_recv_def session_ok_def tables_ok_def
        window_ok_cong [of "se t2\<lparr>status := RT_STATUS_ESTABLISHED\<rparr>" "se t2"])
  then have g3: "gains ?P t t3"
    unfolding t3_def using gains_cong [OF st, of "rt_signal_result True u" for u] g2
    by (simp add: rt_signal_result_def)
  have "gains ?P t (on_se (\<lambda>s. s\<lparr>your_port := port\<rparr>) t3)"
    by (rule gains_se [OF g3]) (simp_all add: same_recv_def session_ok_def tables_ok_def
        window_ok_cong [of "se t3\<lparr>your_port := port\<rparr>" "se t3"])
  moreover have "gains ?P t (rt_set_disconnected env True t1)"
    using gains_keeps [OF g1 keeps_set_disconnected [OF env] next_seq_set_disconnected inv] .
  moreover have "accept_segment env port (m, y, k, acks, sq, payload) t = (if sq = 0 then t1
      else if sq = magic_disconnect (se t1) then rt_set_disconnected env True t1
      else on_se (\<lambda>s. s\<lparr>your_port := port\<rparr>) t3)"
    unfolding accept_segment_def Let_def prod.case t1_def t2_def t3_def d_def by (rule refl)
  ultimately show ?thesis using g1 [of ?P] by presburger
qed

lemma handle_gains:
  assumes env: "rt_env_ok env" and inv: "rt_inv t" "seq_far (se t)"
  shows "gains (\<lambda>g. \<exists>m y k acks. open_segment env (key_recv (se t)) buf = Some (m, y, k, acks, seg_seq g, seg_data g) \<and>
      seg_data g \<noteq> []) t (rt_handle_udp_packet env ip port buf t)"
    (is "gains ?P t _")
proof (cases "status (se t) = RT_STATUS_DISCONNECTED \<or> length buf < RUDP_T_SHA1_SIZE \<or>
    open_segment env (key_recv (se t)) buf = None")
  case True
  then show ?thesis by (auto simp: rt_handle_udp_packet_def RUDP_T_SHA1_SIZE_def)
next
  case False
  then obtain m y k acks sq payload where
    o: "open_segment env (key_recv (se t)) buf = Some (m, y, k, acks, sq, payload)" by auto
  let ?t = "t\<lparr>tick_i := tick_i t + 1\<rparr>"
  have "gains (\<lambda>_. False) t ?t" by (rule gains_cong [OF gains_refl]) simp_all
  moreover have i: "rt_inv ?t" "seq_far (se ?t)" using inv by (simp_all add: rt_inv_def out_ok_def)
  have "gains ?P ?t (accept_segment env port (m, y, k, acks, sq, payload) ?t)"
    by (rule gains_mono [OF accept_gains [OF env i]]) (use o in auto)
  ultimately have "gains ?P t (accept_segment env port (m, y, k, acks, sq, payload) ?t)"
    by (rule gains_trans_left)
  moreover have "gains ?P t ?t" by (rule gains_cong [OF gains_refl]) simp_all
  ultimately show ?thesis
    using False o by (simp add: rt_handle_udp_packet_def rt_tick64_def RUDP_T_SHA1_SIZE_def)
qed

text \<open>The segment a datagram off the socket carries for this session.\<close>

definition carried :: "rt_env \<Rightarrow> rudp_transport \<Rightarrow> bytes \<Rightarrow> segment_fields option" where
  "carried env t d = (case strip_frame (take RUDP_T_MAX_PACKET_SIZE d) t of
     None \<Rightarrow> None | Some (payload, _) \<Rightarrow> open_segment env (key_recv (se t)) payload)"

lemma strip_frame_gains:
  "strip_frame buf t = Some (payload, t1) \<Longrightarrow> gains P t t1 \<and> key_recv (se t1) = key_recv (se t)"
  using gains_cong [OF gains_refl, of t1 t P]
  by (auto simp: strip_frame_def Let_def split: if_splits)

lemma carried_cong:
  "transport_mode t' = transport_mode t \<Longrightarrow> key_recv (se t') = key_recv (se t) \<Longrightarrow>
   carried env t' d = carried env t d"
  by (simp add: carried_def strip_frame_def Let_def split: option.split)

definition receive_one :: "rt_env \<Rightarrow> u32 \<Rightarrow> u16 \<Rightarrow> bytes \<Rightarrow> rudp_transport \<Rightarrow> rudp_transport" where
  "receive_one env ip port d t = (case strip_frame (take RUDP_T_MAX_PACKET_SIZE d) t of
     None \<Rightarrow> t | Some (payload, t1) \<Rightarrow> rt_handle_udp_packet env ip port payload t1)"

lemma receive_gains:
  assumes env: "rt_env_ok env" and inv: "rt_inv t" "seq_far (se t)"
  shows "gains (\<lambda>g. \<exists>m y k acks. carried env t d = Some (m, y, k, acks, seg_seq g, seg_data g) \<and> seg_data g \<noteq> [])
    t (receive_one env ip port d t)"
proof (cases "strip_frame (take RUDP_T_MAX_PACKET_SIZE d) t")
  case (Some a)
  then obtain payload t1 where s: "strip_frame (take RUDP_T_MAX_PACKET_SIZE d) t = Some (payload, t1)"
    by (cases a) auto
  have g: "gains P t t1" and k: "key_recv (se t1) = key_recv (se t)" for P
    using strip_frame_gains [OF s] by auto
  have i: "rt_inv t1" "seq_far (se t1)" using g inv by (auto simp: gains_def)
  show ?thesis
    using gains_trans_left [OF g handle_gains [OF env i, of payload ip port]] s k
    by (simp add: receive_one_def carried_def)
qed (simp add: receive_one_def)

lemma drain_socket_Cons:
  "drain_socket env ((ip, port, d) # r) t = (if d = [] then t\<lparr>udp_in := r\<rparr>
     else drain_socket env r (receive_one env ip port d t))"
  by (simp add: receive_one_def Let_def RUDP_T_MAX_PACKET_SIZE_def rt_consts)

section \<open>Runs of the transport\<close>

text \<open>
  What can happen to a connected transport: a turn of the worker (while fewer than \<^verbatim>\<open>2^63\<close>
  segments have been queued), the code behind its loop, a datagram the network delivers,
  and the application's write, close or disconnect. Every interleaving is a run.
\<close>

inductive rt_step :: "rt_env \<Rightarrow> (bytes \<Rightarrow> bool) \<Rightarrow> rudp_transport \<Rightarrow> rudp_transport \<Rightarrow> bool"
  for env net where
  turn: "\<not> halt t \<Longrightarrow> seq_far (se t) \<Longrightarrow> rt_step env net t (snd (rt_worker_turn env t))"
| leave: "rt_step env net t (rt_set_disconnected env False t)"
| datagram: "net d \<Longrightarrow> rt_step env net t (t\<lparr>udp_in := udp_in t @ [(ip, port, d)]\<rparr>)"
| app_write: "\<not> pair_eof t \<Longrightarrow> rt_step env net t (t\<lparr>pair_in := pair_in t @ bs\<rparr>)"
| app_close: "rt_step env net t (t\<lparr>pair_eof := True\<rparr>)"
| disconnect: "rt_step env net t (rudp_transport_disconnect t)"

inductive_cases rt_stepE: "rt_step env net t t'"

text \<open>
  \<open>P\<close> is the peer's numbering of its data. \<open>delivered\<close> says the byte stream is the peer's data
  up to the last complete number, and that whatever waits in the table is the peer's too.
\<close>

definition honest :: "rt_env \<Rightarrow> rudp_transport \<Rightarrow> (u64 \<Rightarrow> bytes) \<Rightarrow> bytes \<Rightarrow> bool" where
  "honest env t P d \<longleftrightarrow> (\<forall>m y k acks sq payload. carried env t d = Some (m, y, k, acks, sq, payload) \<longrightarrow>
     payload = [] \<or> payload = P sq)"

definition peer_stream :: "rt_session_t \<Rightarrow> (u64 \<Rightarrow> bytes) \<Rightarrow> nat \<Rightarrow> bytes" where
  "peer_stream s P n = concat (map (\<lambda>i. app_data s (P (word_of_nat i))) [1..<n + 1])"

definition delivered :: "(u64 \<Rightarrow> bytes) \<Rightarrow> rudp_transport \<Rightarrow> bool" where
  "delivered P t \<longleftrightarrow> stream t = peer_stream (se t) P (unat (last_recv_complete_seq (se t))) \<and>
     (\<forall>g \<in> set (recv_segments (se t)). seg_data g = P (seg_seq g))"

lemma peer_stream_cong:
  "magic_req s' = magic_req s \<Longrightarrow> magic_resp s' = magic_resp s \<Longrightarrow> peer_stream s' = peer_stream s"
  by (intro ext) (simp add: peer_stream_def app_data_def)

lemma delivered_keeps:
  assumes "keeps t t'" "rt_inv t" "seq_room (se t)" "delivered P t"
  shows "delivered P t'"
  using assms peer_stream_cong [of "se t'" "se t"] by (simp add: keeps_def rx_view_def delivered_def)

lemma delivered_gains:
  assumes "gains (\<lambda>g. seg_data g = P (seg_seq g)) t t'" "delivered P t"
  shows "delivered P t'"
  using assms peer_stream_cong [of "se t'" "se t"] by (auto simp: gains_def delivered_def)

lemma delivered_drain:
  assumes inv: "rt_inv t" "seq_room (se t)" and d: "delivered P t"
  shows "delivered P (on_se rt_drain t)"
proof -
  let ?s = "se t" and ?l = "unat (last_recv_complete_seq (se t))"
  obtain n where n: "recv_segments (rt_drain ?s) = drop n (recv_segments ?s)"
      "unat (last_recv_complete_seq (rt_drain ?s)) = ?l + n"
      "map (\<lambda>g. unat (seg_seq g)) (take n (recv_segments ?s)) = [?l + 1..<?l + 1 + n]"
      "fifo_bytes (recv_fifo (rt_drain ?s)) =
        fifo_bytes (recv_fifo ?s) @ concat (map (app_data ?s \<circ> seg_data) (take n (recv_segments ?s)))"
      "magic_req (rt_drain ?s) = magic_req ?s" "magic_resp (rt_drain ?s) = magic_resp ?s"
    using rt_drain_ok [of ?s] inv unfolding rt_inv_def seq_room_def by metis
  let ?gs = "take n (recv_segments ?s)"
  have "seg_data g = P (seg_seq g)" if "g \<in> set ?gs" for g
    using that d by (auto simp: delivered_def dest: in_set_takeD)
  then have "map (app_data ?s \<circ> seg_data) ?gs = map (\<lambda>g. app_data ?s (P (word_of_nat (unat (seg_seq g))))) ?gs"
    by (intro map_cong) simp_all
  also have "\<dots> = map (\<lambda>i. app_data ?s (P (word_of_nat i))) (map (\<lambda>g. unat (seg_seq g)) ?gs)"
    by simp
  finally have app: "concat (map (app_data ?s \<circ> seg_data) ?gs) =
      concat (map (\<lambda>i. app_data ?s (P (word_of_nat i))) [?l + 1..<?l + n + 1])"
    unfolding n(3) by (simp add: add.commute add.left_commute)
  have "[1..<?l + n + 1] = [1..<?l + 1] @ [?l + 1..<?l + n + 1]"
    using upt_add_eq_append [of 1 "?l + 1" n] by (simp add: add.commute add.left_commute)
  then have "peer_stream ?s P (?l + n) = peer_stream ?s P ?l @ concat (map (app_data ?s \<circ> seg_data) ?gs)"
    unfolding peer_stream_def app by (simp only: map_append concat_append)
  moreover have "peer_stream (rt_drain ?s) = peer_stream ?s" by (rule peer_stream_cong) (use n in simp_all)
  ultimately show ?thesis
    using d n by (auto simp: delivered_def on_se_def stream_def dest: in_set_dropD)
qed

text \<open>
  What a turn does to a predicate of the receive side, once for all: it is enough that the
  predicate survives whatever keeps the receive view, a datagram of the inbox, and the drain.
\<close>

definition tracked :: "rt_env \<Rightarrow> (bytes \<Rightarrow> bool) \<Rightarrow> (rudp_transport \<Rightarrow> bool) \<Rightarrow> bool" where
  "tracked env net Q \<longleftrightarrow>
     (\<forall>t t'. rt_inv t \<and> seq_room (se t) \<and> keeps t t' \<and> Q t \<longrightarrow> Q t') \<and>
     (\<forall>t ip port d. rt_inv t \<and> seq_far (se t) \<and> net d \<and> Q t \<longrightarrow> Q (receive_one env ip port d t)) \<and>
     (\<forall>t. rt_inv t \<and> seq_room (se t) \<and> Q t \<longrightarrow> Q (on_se rt_drain t))"

lemma trackedD:
  assumes "tracked env net Q" "rt_inv t" "Q t"
  shows "seq_room (se t) \<Longrightarrow> keeps t t' \<Longrightarrow> Q t'"
    "seq_far (se t) \<Longrightarrow> net d \<Longrightarrow> Q (receive_one env ip port d t)"
    "seq_room (se t) \<Longrightarrow> Q (on_se rt_drain t)"
  using assms by (auto simp: tracked_def)

definition net_in :: "(bytes \<Rightarrow> bool) \<Rightarrow> (u32 \<times> u16 \<times> bytes) list \<Rightarrow> bool" where
  "net_in net ds \<longleftrightarrow> (\<forall>d \<in> set ds. net (snd (snd d)))"

lemma rt_inv_cong:
  "se t' = se t \<Longrightarrow> udp_out t' = udp_out t \<Longrightarrow> rt_inv t' = rt_inv t"
  by (simp add: rt_inv_def out_ok_def)

lemma drain_socket_tracked:
  assumes env: "rt_env_ok env" and tr: "tracked env net Q"
  shows "net_in net ds \<Longrightarrow> rt_inv t \<Longrightarrow> seq_far (se t) \<Longrightarrow> Q t \<Longrightarrow>
    (let t' = drain_socket env ds t in
      rt_inv t' \<and> seq_far (se t') \<and> Q t' \<and> net_in net (udp_in t'))"
proof (induction ds arbitrary: t)
  case Nil
  have "keeps t (t\<lparr>udp_in := []\<rparr>)" by (rule keeps_cong) simp_all
  then have "Q (t\<lparr>udp_in := []\<rparr>)"
    using trackedD(1) [OF tr Nil(2,4)] seq_far_room Nil(2,3) by (simp add: rt_inv_def)
  with Nil show ?case by (simp add: net_in_def rt_inv_cong [of "t\<lparr>udp_in := []\<rparr>" t])
next
  case (Cons x r)
  obtain ip port d where x: "x = (ip, port, d)" by (cases x) auto
  have nd: "net d" "net_in net r" using Cons.prems(1) x by (simp_all add: net_in_def)
  show ?case
  proof (cases "d = []")
    case True
    have "keeps t (t\<lparr>udp_in := r\<rparr>)" by (rule keeps_cong) simp_all
    then have "Q (t\<lparr>udp_in := r\<rparr>)"
      using trackedD(1) [OF tr Cons.prems(2,4)] seq_far_room Cons.prems(2,3) by (simp add: rt_inv_def)
    with True Cons.prems nd show ?thesis
      unfolding x drain_socket_Cons by (simp add: rt_inv_cong [of "t\<lparr>udp_in := r\<rparr>" t])
  next
    case False
    have "rt_inv (receive_one env ip port d t)" "seq_far (se (receive_one env ip port d t))"
      using receive_gains [OF env Cons.prems(2,3), of d ip port] Cons.prems(2,3) by (simp_all add: gains_def)
    then show ?thesis
      using Cons.IH [OF nd(2)] trackedD(2) [OF tr Cons.prems(2,4,3) nd(1)] False
      unfolding x drain_socket_Cons by simp
  qed
qed

lemma udp_in_set_disconnected [simp]: "udp_in (rt_set_disconnected env by_you t) = udp_in t"
  by (simp add: rt_set_disconnected_def rt_signal_result_def on_se_def Let_def)

lemma udp_in_pump_recv [simp]: "udp_in (rt_pump_recv_to_pair env t) = udp_in t"
proof (induction env t rule: rt_pump_recv_to_pair.induct)
  case (1 env t)
  obtain r t1 where r: "send_pair env t = (r, t1)" by fastforce
  then have u: "udp_in t1 = udp_in t" by (auto simp: send_pair_def)
  note ih = 1 [OF refl _ refl refl r [symmetric] _ refl]
  show ?case
  proof (cases r)
    case (Sent k)
    then show ?thesis using ih [OF _ Sent] u r
      by (subst rt_pump_recv_to_pair.simps) (auto simp: Let_def on_se_def)
  qed (subst rt_pump_recv_to_pair.simps, simp add: r u Let_def)+
qed

lemma udp_in_pump_pair [simp]: "udp_in (rt_pump_pair_to_send env t) = udp_in t"
proof (induction env t rule: rt_pump_pair_to_send.induct)
  case (1 env t)
  obtain r t1 where r: "recv_pair env t = (r, t1)" by fastforce
  then have "udp_in t1 = udp_in t" by (auto simp: recv_pair_def Let_def split: if_splits)
  with r 1 show ?case
    by (subst rt_pump_pair_to_send.simps) (auto simp: on_se_def split: pair_recv.split)
qed

lemma udp_in_fold_resend [simp]: "udp_in (fold (resend_one env now m) js t) = udp_in t"
  by (induction js arbitrary: t) (simp_all add: resend_one_def on_se_def Let_def)

lemma udp_in_interrupt [simp]: "udp_in (rt_interrupt env now t) = udp_in t"
proof -
  have "udp_in (rt_keepalive env now t) = udp_in t" for t
    by (simp add: rt_keepalive_def keepalive_interval_def c_rand_def on_se_def Let_def)
  moreover have "udp_in (connect_tick env now t) = udp_in t" for t
    by (simp add: connect_tick_def generate_random_bytes_def on_se_def Let_def split: prod.split)
  ultimately show ?thesis
    by (simp add: rt_interrupt_def Let_def rt_resend_def flush_acks_unfold) (simp add: on_se_def)
qed

lemma tick_cong:
  assumes "tracked env net Q" "rt_inv t" "seq_room (se t)" "Q t"
  shows "rt_inv (snd (rt_tick64 env t)) \<and> Q (snd (rt_tick64 env t)) \<and>
    se (snd (rt_tick64 env t)) = se t \<and> udp_in (snd (rt_tick64 env t)) = udp_in t"
proof -
  have "keeps t (snd (rt_tick64 env t))" by (rule keeps_cong) (simp_all add: rt_tick64_def)
  then have "Q (snd (rt_tick64 env t))" using trackedD(1) [OF assms(1,2,4)] assms(3) by blast
  then show ?thesis
    using assms(2) by (simp add: rt_tick64_def rt_inv_cong [of "t\<lparr>tick_i := Suc (tick_i t)\<rparr>" t])
qed

lemma interrupt_tracked:
  assumes env: "rt_env_ok env" and tr: "tracked env net Q" and inv: "rt_inv t" "seq_room (se t)" "Q t"
  shows "rt_inv (rt_interrupt env now t) \<and> seq_room (se (rt_interrupt env now t)) \<and> Q (rt_interrupt env now t)"
  using interrupt_keeps [OF env, of t now]
proof
  assume "keeps t (rt_interrupt env now t)"
  then show ?thesis using trackedD(1) [OF tr inv(1,3,2)] inv by (auto simp: keeps_def)
next
  assume k: "keeps (on_se rt_drain t) (rt_interrupt env now t)"
  have "rt_inv (on_se rt_drain t)" "seq_room (se (on_se rt_drain t))" "Q (on_se rt_drain t)"
    using drain_inv [OF inv(1,2)] trackedD(3) [OF tr inv(1,3,2)] by auto
  then show ?thesis using trackedD(1) [OF tr _ _ _ k] k by (auto simp: keeps_def)
qed

definition on_course :: "(bytes \<Rightarrow> bool) \<Rightarrow> (rudp_transport \<Rightarrow> bool) \<Rightarrow> rudp_transport \<Rightarrow> bool" where
  "on_course net Q t \<longleftrightarrow> rt_inv t \<and> seq_room (se t) \<and> Q t \<and> net_in net (udp_in t)"

lemma turn_tracked:
  assumes env: "rt_env_ok env" and tr: "tracked env net Q" and c: "on_course net Q t" "seq_far (se t)"
  shows "on_course net Q (snd (rt_worker_turn env t))"
proof -
  have i: "rt_inv t" "Q t" "net_in net (udp_in t)" using c by (simp_all add: on_course_def)
  define t1 where "t1 = snd (rt_tick64 env t)"
  have room: "seq_room (se t)" using seq_far_room i c(2) by (simp add: rt_inv_def)
  have t1: "rt_inv t1" "Q t1" "se t1 = se t" "udp_in t1 = udp_in t"
    using tick_cong [OF tr i(1) room i(2)] by (simp_all add: t1_def)
  define t2 where "t2 = drain_socket env (udp_in t1) t1"
  have t2: "rt_inv t2" "seq_far (se t2)" "Q t2" "net_in net (udp_in t2)"
    using drain_socket_tracked [OF env tr, of "udp_in t1" t1] t1 i c(2) by (simp_all add: t2_def Let_def)
  define t3 where "t3 = (if status (se t2) \<noteq> RT_STATUS_DISCONNECTED
    then rt_interrupt env (rt_tick env (tick_i t2)) (snd (rt_tick64 env t2)) else t2)"
  have room2: "seq_room (se t2)" using seq_far_room t2 by (simp add: rt_inv_def)
  note tk = tick_cong [OF tr t2(1) room2 t2(3)]
  have t3: "rt_inv t3" "seq_room (se t3)" "Q t3" "net_in net (udp_in t3)"
    using interrupt_tracked [OF env tr, of "snd (rt_tick64 env t2)"] tk room2 t2 by (simp_all add: t3_def)
  have eq: "snd (rt_worker_turn env t) = (if halt t3 then t3
      else if status (se t3) = RT_STATUS_DISCONNECTED \<and> result_ready t3 then t3 else snd (rt_tick64 env t3))"
    unfolding rt_worker_turn_def t3_def t2_def t1_def rt_tick64_def Let_def by simp
  show ?thesis
    using t3 tick_cong [OF tr t3(1-3)] unfolding eq on_course_def by simp
qed

lemma on_course_keeps:
  assumes "tracked env net Q" "on_course net Q t" "keeps t t'" "net_in net (udp_in t')"
  shows "on_course net Q t'"
proof -
  have i: "rt_inv t" "seq_room (se t)" "Q t" using assms(2) by (simp_all add: on_course_def)
  then have "Q t'" using trackedD(1) [OF assms(1) i(1,3,2) assms(3)] by simp
  with i assms(3,4) show ?thesis by (auto simp: on_course_def keeps_def)
qed

lemma step_tracked:
  assumes env: "rt_env_ok env" and tr: "tracked env net Q"
    and st: "rt_step env net t t'" and c: "on_course net Q t"
  shows "on_course net Q t'"
  using st
proof cases
  case turn
  then show ?thesis using turn_tracked [OF env tr c] by simp
next
  case leave
  show ?thesis
    unfolding leave by (rule on_course_keeps [OF tr c keeps_set_disconnected [OF env]])
      (use c in \<open>simp add: on_course_def\<close>)
next
  case (datagram d ip port)
  show ?thesis
    by (rule on_course_keeps [OF tr c keeps_cong]) (use c datagram in \<open>simp_all add: on_course_def net_in_def\<close>)
next
  case (app_write bs)
  show ?thesis
    by (rule on_course_keeps [OF tr c keeps_cong]) (use c app_write in \<open>simp_all add: on_course_def\<close>)
next
  case app_close
  show ?thesis
    by (rule on_course_keeps [OF tr c keeps_cong]) (use c app_close in \<open>simp_all add: on_course_def\<close>)
next
  case disconnect
  show ?thesis
    by (rule on_course_keeps [OF tr c keeps_cong])
      (use c disconnect in \<open>simp_all add: on_course_def rudp_transport_disconnect_def Let_def\<close>)
qed

lemma run_tracked:
  assumes "rt_env_ok env" "tracked env net Q" "(rt_step env net)\<^sup>*\<^sup>* t t'" "on_course net Q t"
  shows "on_course net Q t'"
  using assms(3,4) by (induction rule: rtranclp_induct) (auto intro: step_tracked [OF assms(1,2)])

text \<open>The peer's stream is tracked when the network only carries the peer's segments.\<close>

lemma delivered_tracked:
  assumes env: "rt_env_ok env" and h: "\<And>d. net d \<Longrightarrow> honest env t0 P d"
  shows "tracked env net (\<lambda>t. delivered P t \<and> transport_mode t = transport_mode t0 \<and> key_recv (se t) = key_recv (se t0))"
    (is "tracked env net ?Q")
  unfolding tracked_def
proof (intro conjI allI impI)
  fix t t' assume a: "rt_inv t \<and> seq_room (se t) \<and> keeps t t' \<and> ?Q t"
  then have i: "keeps t t'" "rt_inv t" "seq_room (se t)" "delivered P t" by simp_all
  show "delivered P t'" by (rule delivered_keeps [OF i])
  have "rx_view t' = rx_view t" using i by (simp add: keeps_def)
  then show "transport_mode t' = transport_mode t0" "key_recv (se t') = key_recv (se t0)"
    using a by (simp_all add: rx_view_def)
next
  fix t ip port d assume a: "rt_inv t \<and> seq_far (se t) \<and> net d \<and> ?Q t"
  then have i: "rt_inv t" "seq_far (se t)" "delivered P t" and n: "net d" by simp_all
  have c: "carried env t d = carried env t0 d" by (rule carried_cong) (use a in simp_all)
  have p: "seg_data g = P (seg_seq g)"
    if "\<exists>m y k acks. carried env t d = Some (m, y, k, acks, seg_seq g, seg_data g) \<and> seg_data g \<noteq> []" for g
  proof -
    from that obtain m y k acks where "carried env t0 d = Some (m, y, k, acks, seg_seq g, seg_data g)" "seg_data g \<noteq> []"
      unfolding c by blast
    then show ?thesis using h [OF n] unfolding honest_def by blast
  qed
  have g: "gains (\<lambda>g. seg_data g = P (seg_seq g)) t (receive_one env ip port d t)"
    by (rule gains_mono [OF receive_gains [OF env i(1,2)] p])
  show "delivered P (receive_one env ip port d t)" by (rule delivered_gains [OF g i(3)])
  show "transport_mode (receive_one env ip port d t) = transport_mode t0"
    "key_recv (se (receive_one env ip port d t)) = key_recv (se t0)"
    using g a by (simp_all add: gains_def)
next
  fix t assume a: "rt_inv t \<and> seq_room (se t) \<and> ?Q t"
  then have i: "rt_inv t" "seq_room (se t)" "delivered P t" by simp_all
  show "delivered P (on_se rt_drain t)" by (rule delivered_drain [OF i])
  show "transport_mode (on_se rt_drain t) = transport_mode t0" using a by (simp add: on_se_def)
  have "key_recv (rt_drain (se t)) = key_recv (se t)"
    using rt_drain_ok [of "se t"] i(1,2) by (auto simp: rt_inv_def seq_room_def)
  then show "key_recv (se (on_se rt_drain t)) = key_recv (se t0)" using a by (simp add: on_se_def)
qed

text \<open>
  A table whose first entry is not the next expected number stays that way: later segments
  go behind it, and the drain only ever looks at the first entry.
\<close>

lemma blocked_tracked:
  assumes env: "rt_env_ok env" and g: "seg_seq g \<noteq> l + 1"
  shows "tracked env net (\<lambda>t. stream t = b \<and> last_recv_complete_seq (se t) = l \<and>
    (\<exists>r. recv_segments (se t) = g # r))"
    (is "tracked env net ?Q")
  unfolding tracked_def
proof (intro conjI allI impI)
  fix t t' assume "rt_inv t \<and> seq_room (se t) \<and> keeps t t' \<and> ?Q t"
  then show "stream t' = b" "last_recv_complete_seq (se t') = l" "\<exists>r. recv_segments (se t') = g # r"
    by (auto simp: keeps_def rx_view_def)
next
  fix t ip port d assume a: "rt_inv t \<and> seq_far (se t) \<and> net d \<and> ?Q t"
  then show "stream (receive_one env ip port d t) = b"
      "last_recv_complete_seq (se (receive_one env ip port d t)) = l"
      "\<exists>r. recv_segments (se (receive_one env ip port d t)) = g # r"
    using receive_gains [OF env, of t d ip port] by (auto simp: gains_def)
next
  fix t assume a: "rt_inv t \<and> seq_room (se t) \<and> ?Q t"
  then have "rt_drain (se t) = se t" using rt_drain_blocked g by metis
  then have "on_se rt_drain t = t" by (simp add: on_se_def)
  with a show "stream (on_se rt_drain t) = b" "last_recv_complete_seq (se (on_se rt_drain t)) = l"
    "\<exists>r. recv_segments (se (on_se rt_drain t)) = g # r" by simp_all
qed

section \<open>A fresh session\<close>

definition mem_ok :: "rt_calls \<Rightarrow> bool" where
  "mem_ok d \<longleftrightarrow> (\<forall>b. send_mem d = Some b \<or> recv_mem d = Some b \<longrightarrow> length b = RUDP_T_MAX_FIFO_SIZE)"

definition fresh :: "rudp_transport \<Rightarrow> bool" where
  "fresh t \<longleftrightarrow> rt_inv t \<and> seq_room (se t) \<and> stream t = [] \<and> last_recv_complete_seq (se t) = 0 \<and>
     recv_segments (se t) = [] \<and> udp_in t = []"

lemma rt_fifo_init_cap: "fcap (rt_fifo_init m c) = (if m = None then 0 else c)"
  by (cases m) (simp_all add: rt_fifo_init_def)

lemma fifo_init_inv:
  "m = Some b \<Longrightarrow> length b = RUDP_T_MAX_FIFO_SIZE \<Longrightarrow> fifo_inv (rt_fifo_init m RUDP_T_MAX_FIFO_SIZE)"
  by (auto simp: rt_consts intro: fifo_inv_init)

lemma derive_keys_fields:
  assumes "rt_env_ok env"
  shows "\<exists>k2 k1 m r q i j. length m = 20 \<and> length r = 20 \<and> rt_derive_keys env t =
    t\<lparr>rb_i := i, rand_i := j,
      se := (se t)\<lparr>key_send := k2, key_recv := k1, magic_req := m, magic_resp := r, magic_disconnect := q\<rparr>\<rparr>"
proof -
  let ?k = "key_init (se t)"
  let ?r = "rt_rbytes env (rb_i t) 4"
  have "rt_derive_keys env t = t\<lparr>rb_i := rb_i t + 1, rand_i := (if fst ?r then rand_i t else rand_i t + 1),
      se := (se t)\<lparr>
        key_send := rt_sha1 env (?k @ rt_derive_key env ?k (lit ''zurukko'') @ put_be32 12 @ lit ''yasushineko''),
        key_recv := rt_derive_key env ?k (lit ''zurukko''),
        magic_req := rt_derive_key env ?k (lit ''Magic_KeepAliveRequest''),
        magic_resp := rt_derive_key env ?k (lit ''Magic_KeepAliveResponse''),
        magic_disconnect := 0xffffffff00000000 OR
          (if fst ?r then ucast (get_be32 (snd ?r)) else word_of_nat (rt_rand env (rand_i t)))\<rparr>\<rparr>"
    by (cases ?r; cases "fst ?r")
      (simp_all add: rt_derive_keys_def generate_random_bytes_def c_rand_def on_se_def Let_def)
  moreover have "length (rt_derive_key env k x) = 20" for k x
    using assms by (simp add: rt_derive_key_def rt_env_ok_def)
  ultimately show ?thesis by blast
qed

lemma init_session_fresh:
  assumes env: "rt_env_ok env" and mem: "mem_ok d" and i: "init_session env d cfg t = Inr t'"
    and empty: "udp_in t = []" "udp_out t = []" "pair_out t = []"
  shows "fresh t'"
proof -
  have len: "length (snd (rt_rbytes env i n)) = n" for i n using env by (simp add: rt_env_ok_def)
  define t1 where "t1 = t\<lparr>tick_i := tick_i t + 1, rb_i := rb_i t + 1,
      se := session_zero\<lparr>your_ip := cfg_server_ip cfg, your_port := cfg_server_port cfg,
        created_tick := rt_tick env (tick_i t), key_init := snd (rt_rbytes env (rb_i t) 20)\<rparr>\<rparr>"
  obtain k2 k1 m r q i j where dk: "length m = 20" "length r = 20" "rt_derive_keys env t1 =
      t1\<lparr>rb_i := i, rand_i := j,
        se := (se t1)\<lparr>key_send := k2, key_recv := k1, magic_req := m, magic_resp := r, magic_disconnect := q\<rparr>\<rparr>"
    using derive_keys_fields [OF env, of t1] by metis
  let ?sf = "rt_fifo_init (send_mem d) RUDP_T_MAX_FIFO_SIZE" and ?rf = "rt_fifo_init (recv_mem d) RUDP_T_MAX_FIFO_SIZE"
  define t2 where "t2 = t1\<lparr>se := (se t1)\<lparr>key_send := k2, key_recv := k1, magic_req := m, magic_resp := r,
      magic_disconnect := q, rt_next_iv := snd (rt_rbytes env i 20), next_send_seq := 1,
      latest_recv_my_tick := rt_tick env (tick_i t1),
      next_keepalive_interval := fst (keepalive_interval env (t1\<lparr>rand_i := j\<rparr>)),
      send_fifo := ?sf, recv_fifo := ?rf\<rparr>,
      rb_i := i + 1, rand_i := j + 1, tick_i := tick_i t1 + 1\<rparr>"
  let ?t3 = "on_se (\<lambda>s. case rt_fifo_write (send_fifo s) (put_be64 (magic_disconnect s)) of
      None \<Rightarrow> s | Some f \<Rightarrow> s\<lparr>send_fifo := f\<rparr>) t2"
  have r: "t' = ?t3" and caps: "fcap ?sf \<noteq> 0" "fcap ?rf \<noteq> 0"
    using i dk(3) unfolding init_session_def t1_def t2_def
    by (auto simp: Let_def rt_tick64_def generate_random_bytes_def on_se_def keepalive_interval_def c_rand_def
        RUDP_T_SHA1_SIZE_def split: prod.splits if_splits option.split)
  obtain b1 b2 where b: "send_mem d = Some b1" "recv_mem d = Some b2"
    using caps by (auto simp: rt_fifo_init_cap split: if_splits)
  then have fi: "fifo_inv ?sf" "fifo_inv ?rf" using mem by (auto intro!: fifo_init_inv simp: mem_ok_def)
  have t2s: "session_ok (se t2)"
    using fi b len dk(1,2) by (simp add: t2_def t1_def session_zero_def session_ok_def tables_ok_def rt_fifo_init_cap)
  let ?h = "\<lambda>s. case rt_fifo_write (send_fifo s) (put_be64 (magic_disconnect s)) of
      None \<Rightarrow> s | Some f \<Rightarrow> s\<lparr>send_fifo := f\<rparr>"
  have "session_ok (?h (se t2))" by (rule write_or_drop(1) [OF t2s])
  moreover have "window_ok (?h (se t2)) = window_ok (se t2) \<and> send_base (?h (se t2)) = send_base (se t2)"
    by (rule window_ok_cong) (simp_all split: option.split)
  moreover have "window_ok (se t2)" "send_base (se t2) = 1"
    by (simp_all add: t2_def t1_def session_zero_def window_ok_def send_base_def seqs_def)
  moreover have "recv_fifo (?h (se t2)) = ?rf" "last_recv_complete_seq (?h (se t2)) = 0" "recv_segments (?h (se t2)) = []"
    by (simp_all add: t2_def t1_def session_zero_def split: option.split)
  ultimately show ?thesis
    unfolding r fresh_def rt_inv_def out_ok_def stream_def on_se_def seq_room_def
    using empty by (simp add: t2_def t1_def)
qed

lemma open_socket_world:
  "rt_open_socket env d cfg t = Inr (fd, u) \<Longrightarrow>
   udp_in u = udp_in t \<and> udp_out u = udp_out t \<and> pair_out u = pair_out t"
  by (auto simp: rt_open_socket_def rand_id_def c_rand_def on_se_def Let_def close_fd_def
      split: if_splits option.splits)

lemma connect_start_InrD:
  assumes "connect_start env d cfg t = Inr t'"
  shows "\<exists>u v. init_session env d cfg u = Inr v \<and> t' = v\<lparr>halt := False, thread_started := True\<rparr> \<and>
    udp_in u = udp_in t \<and> udp_out u = udp_out t \<and> pair_out u = pair_out t"
proof -
  let ?t = "t\<lparr>connect_timeout_ms := (if cfg_connect_timeout_ms cfg \<noteq> 0 then cfg_connect_timeout_ms cfg
      else ucast RUDP_T_TIMEOUT_MS), transport_mode := cfg_transport_mode cfg\<rparr>"
  obtain fd u where o: "rt_open_socket env d cfg ?t = Inr (fd, u)" and nb: "nonblock_ok d"
    using assms by (auto simp: connect_start_def Let_def split: sum.splits if_splits)
  obtain wfd afd where p: "pair_fds d = Some (wfd, afd)" and pn: "pair_nonblock_ok d"
    using assms o nb by (auto simp: connect_start_def connect_session_def Let_def split: option.splits if_splits)
  let ?u = "u\<lparr>t_udp_fd := fd, open_fds := wfd # afd # open_fds u, worker_fd := wfd, app_fd := afd\<rparr>"
  obtain v where v: "init_session env d cfg ?u = Inr v" "t' = v\<lparr>halt := False, thread_started := True\<rparr>"
    using assms o nb p pn by (auto simp: connect_start_def connect_session_def Let_def split: sum.splits if_splits)
  with open_socket_world [OF o] show ?thesis by (intro exI [of _ ?u] exI [of _ v]) simp
qed

lemma connect_start_fresh:
  assumes "rt_env_ok env" "mem_ok d" "connect_start env d cfg t = Inr t'" "rudp_transport_create ok = Some t"
  shows "fresh t'"
proof -
  have e: "udp_in t = []" "udp_out t = []" "pair_out t = []"
    using assms(4) by (auto simp: rudp_transport_create_def split: if_splits)
  obtain u v where v: "init_session env d cfg u = Inr v" "t' = v\<lparr>halt := False, thread_started := True\<rparr>"
      and w: "udp_in u = udp_in t" "udp_out u = udp_out t" "pair_out u = pair_out t"
    using connect_start_InrD [OF assms(3)] by blast
  have "fresh v" using init_session_fresh [OF assms(1,2) v(1)] w e by simp
  then show ?thesis
    using rt_inv_cong [of t' v] by (simp add: v(2) fresh_def stream_def)
qed

lemma fresh_on_course:
  assumes "rt_env_ok env" "fresh t" "\<And>d. net d \<Longrightarrow> honest env t P d"
  shows "on_course net (\<lambda>u. delivered P u \<and> transport_mode u = transport_mode t \<and>
    key_recv (se u) = key_recv (se t)) t"
  using assms(2) by (simp add: fresh_def on_course_def delivered_def peer_stream_def net_in_def)

section \<open>Properties\<close>

text \<open>
  C8: from a successful start, in every run of worker, network and application, the session
  keeps its invariant: at most 64 segments in each table, none over 512 bytes, well-formed
  FIFOs, the send table sorted in a window of 64 numbers, and no datagram larger than its
  buffer.
\<close>

theorem rt_run_invariant:
  assumes "rt_env_ok env" "mem_ok d" "rudp_transport_create ok = Some t00"
    "connect_start env d cfg t00 = Inr t0" "(rt_step env (\<lambda>_. True))\<^sup>*\<^sup>* t0 t"
  shows "rt_inv t"
proof -
  have "tracked env (\<lambda>_. True) (\<lambda>_. True)" by (simp add: tracked_def)
  moreover have "on_course (\<lambda>_. True) (\<lambda>_. True) t0"
    using connect_start_fresh [OF assms(1,2,4,3)] by (simp add: fresh_def on_course_def net_in_def)
  ultimately show ?thesis
    using run_tracked [OF assms(1) _ assms(5)] by (simp add: on_course_def)
qed

text \<open>
  C5: what the application has read, with what still waits in the receive FIFO, is exactly
  the peer's byte stream up to the last sequence number completed (keep-alives left out):
  nothing is lost, repeated or reordered, in every run in which the datagrams that pass the
  signature check are the peer's.
\<close>

theorem rt_stream_exact:
  assumes "rt_env_ok env" "mem_ok d" "rudp_transport_create ok = Some t00"
    "connect_start env d cfg t00 = Inr t0" "\<And>b. net b \<Longrightarrow> honest env t0 P b"
    "(rt_step env net)\<^sup>*\<^sup>* t0 t"
  shows "pair_out t @ fifo_bytes (recv_fifo (se t)) =
    peer_stream (se t) P (unat (last_recv_complete_seq (se t)))"
proof -
  have f: "fresh t0" by (rule connect_start_fresh [OF assms(1,2,4,3)])
  from run_tracked [OF assms(1) delivered_tracked [OF assms(1,5)] assms(6) fresh_on_course [OF assms(1) f assms(5)]]
  show ?thesis by (simp add: on_course_def delivered_def stream_def)
qed

text \<open>The effect of one segment that arrives ahead of its turn on an empty table.\<close>

lemma recv_payload_status: "status (rt_process_recv_payload q d s) = status s"
  by (simp add: rt_process_recv_payload_def rt_add_ack_def)

lemma early_segment_blocks:
  assumes st: "status (se t) = RT_STATUS_ESTABLISHED" and mt: "recv_segments (se t) = []"
    and o: "open_segment env (key_recv (se t)) buf = Some (m, y, k, acks, last_recv_complete_seq (se t) + 2, data)"
    and len: "20 \<le> length buf" "data \<noteq> []" "length data \<le> RUDP_T_MAX_SEGMENT_SIZE"
    and y: "y \<le> rt_tick env (tick_i t)" and md: "last_recv_complete_seq (se t) + 2 \<noteq> magic_disconnect (se t)"
    and far: "unat (last_recv_complete_seq (se t)) < 2 ^ 63"
  shows "\<exists>g. recv_segments (se (rt_handle_udp_packet env ip port buf t)) = [g] \<and>
      seg_seq g = last_recv_complete_seq (se t) + 2"
proof -
  let ?l = "last_recv_complete_seq (se t)" and ?t = "t\<lparr>tick_i := tick_i t + 1\<rparr>"
  have u: "unat (?l + x) = unat ?l + unat x" if "unat x \<le> 64" for x
    by (rule unat_add_lem [THEN iffD1]) (use far that in simp)
  have w: "\<not> ?l + 2 > ?l + word_of_nat RUDP_T_MAX_NUM_ACK" "\<not> ?l + 2 \<le> ?l" "?l + 2 \<noteq> 0"
    using u [of 2] u [of 64] by (simp_all add: word_less_nat_alt word_le_nat_alt RUDP_T_MAX_NUM_ACK_def unat_eq_zero [symmetric])
  define s1 where "s1 = note_ticks m y (process_acks k acks (se t))"
  have sr: "same_recv (se t) s1"
    unfolding s1_def by (rule same_recv_trans [OF same_recv_acks note_ticks_ok(3)])
  have s1: "recv_segments s1 = []" "last_recv_complete_seq s1 = ?l" using sr mt by (simp_all add: same_recv_def)
  have md1: "magic_disconnect s1 = magic_disconnect (se t)"
  proof -
    have "magic_disconnect (fold rt_process_ack acks x) = magic_disconnect x" for x
      by (induction acks arbitrary: x) (simp_all add: rt_process_ack_def)
    then show ?thesis by (simp add: s1_def note_ticks_def process_acks_def rt_process_ack2_def Let_def)
  qed
  have st1: "status s1 = RT_STATUS_ESTABLISHED"
  proof -
    have "status (fold rt_process_ack acks x) = status x" for x
      by (induction acks arbitrary: x) (simp_all add: rt_process_ack_def)
    then show ?thesis using st by (simp add: s1_def note_ticks_def process_acks_def rt_process_ack2_def Let_def)
  qed
  have "rt_handle_udp_packet env ip port buf t = accept_segment env port (m, y, k, acks, ?l + 2, data) ?t"
    using st o len y by (simp add: rt_handle_udp_packet_def RUDP_T_SHA1_SIZE_def rt_tick64_def not_less)
  moreover have "recv_segments (se (accept_segment env port (m, y, k, acks, ?l + 2, data) ?t)) =
      recv_segments (rt_process_recv_payload (?l + 2) data s1)"
    using w(3) md md1 len st1
    by (simp add: accept_segment_def Let_def on_se_def s1_def [symmetric] not_less recv_payload_status Suc_le_eq)
  moreover have "\<exists>g. recv_segments (rt_process_recv_payload (?l + 2) data s1) = [g] \<and> seg_seq g = ?l + 2"
    using w(1,2) by (simp add: rt_process_recv_payload_def s1 rt_add_ack_def RUDP_T_MAX_NUM_ACK_def)
  ultimately show ?thesis by simp
qed

lemma early_not_next: "unat (x :: u64) < 2 ^ 63 \<Longrightarrow> x + 2 \<noteq> x + 1"
  by simp

text \<open>
  A reordered datagram ends delivery for good. When segment n+2 arrives before segment
  n+1 on an empty table, then in no later state of any run, whatever arrives afterwards (the
  missing segment n+1 included), does the application get another byte: the table is filled
  in order of arrival, and only its first entry is ever compared with the next number.
\<close>

theorem out_of_order_stalls:
  assumes env: "rt_env_ok env" and inv: "rt_inv t" "seq_far (se t)"
    and st: "status (se t) = RT_STATUS_ESTABLISHED" and mt: "recv_segments (se t) = []"
    and o: "open_segment env (key_recv (se t)) buf = Some (m, y, k, acks, last_recv_complete_seq (se t) + 2, data)"
    and len: "20 \<le> length buf" "data \<noteq> []" "length data \<le> RUDP_T_MAX_SEGMENT_SIZE"
    and y: "y \<le> rt_tick env (tick_i t)" and md: "last_recv_complete_seq (se t) + 2 \<noteq> magic_disconnect (se t)"
    and far: "unat (last_recv_complete_seq (se t)) < 2 ^ 63"
    and run: "(rt_step env (\<lambda>_. True))\<^sup>*\<^sup>* (rt_handle_udp_packet env ip port buf t) t'"
  shows "pair_out t' @ fifo_bytes (recv_fifo (se t')) = pair_out t @ fifo_bytes (recv_fifo (se t)) \<and>
    last_recv_complete_seq (se t') = last_recv_complete_seq (se t)"
proof -
  let ?t = "rt_handle_udp_packet env ip port buf t"
  obtain g where g: "recv_segments (se ?t) = [g]" "seg_seq g = last_recv_complete_seq (se t) + 2"
    using early_segment_blocks [OF st mt o len y md far] by blast
  have ga: "gains (\<lambda>_. True) t ?t" by (rule gains_mono [OF handle_gains [OF env inv]]) simp
  then have v: "stream ?t = stream t" "last_recv_complete_seq (se ?t) = last_recv_complete_seq (se t)"
      "rt_inv ?t" "seq_far (se ?t)" using inv by (simp_all add: gains_def)
  have ne: "seg_seq g \<noteq> last_recv_complete_seq (se t) + 1" using g(2) by simp
  have "on_course (\<lambda>_. True) (\<lambda>u. stream u = stream t \<and> last_recv_complete_seq (se u) = last_recv_complete_seq (se t) \<and>
      (\<exists>r. recv_segments (se u) = g # r)) ?t"
    using v g(1) seq_far_room by (simp add: on_course_def net_in_def rt_inv_def)
  from run_tracked [OF env blocked_tracked [OF env ne] run this] show ?thesis
    by (simp add: on_course_def stream_def)
qed

text \<open>Segments in order are all taken, as long as the FIFO has room for them.\<close>

lemma drain_one_room:
  assumes "fifo_inv (recv_fifo s)" "length (seg_data g) \<le> rt_fifo_avail (recv_fifo s)"
  shows "drain_one g s \<noteq> None"
  using fifo.write_ok [OF assms] by (auto simp: drain_one_def)

lemma drain_loop_all:
  assumes "tables_ok s" "window_ok s" "send_base s < 2 ^ 63" "cur = last_recv_complete_seq s"
    "map (\<lambda>g. unat (seg_seq g)) gs = [unat cur + 1..<unat cur + 1 + length gs]"
    "length (concat (map seg_data gs)) \<le> rt_fifo_avail (recv_fifo s)"
  shows "fst (drain_loop gs cur s) = length gs"
  using assms
proof (induction gs arbitrary: cur s)
  case (Cons g r)
  have up: "[unat cur + 1..<unat cur + 1 + length (g # r)] =
      (unat cur + 1) # [unat cur + 2..<unat cur + 2 + length r]"
    by (subst upt_rec) simp
  have sq: "unat (seg_seq g) = unat cur + 1" and rest: "map (\<lambda>g. unat (seg_seq g)) r = [unat cur + 2..<unat cur + 2 + length r]"
    using Cons.prems(5) unfolding up by simp_all
  have c1: "seg_seq g = cur + 1" "unat (cur + 1) = unat cur + 1"
  proof -
    have "word_of_nat (unat (seg_seq g)) = (word_of_nat (unat cur + 1) :: u64)" using sq by simp
    then show "seg_seq g = cur + 1" by simp
    then show "unat (cur + 1) = unat cur + 1" using sq by simp
  qed
  have inv: "fifo_inv (recv_fifo s)" using Cons.prems(1) by (simp add: tables_ok_def)
  obtain s1 where s1: "drain_one g s = Some s1"
    using drain_one_room [OF inv, of g] Cons.prems(6) by fastforce
  note one = drain_one_ok [OF s1 Cons.prems(1-3)]
  let ?s = "s1\<lparr>last_recv_complete_seq := seg_seq g\<rparr>"
  have "length (app_data s (seg_data g)) \<le> length (seg_data g)" by (simp add: app_data_def)
  then have av: "length (concat (map seg_data r)) \<le> rt_fifo_avail (recv_fifo ?s)"
  proof -
    have "fsize (recv_fifo s1) \<le> fsize (recv_fifo s) + length (seg_data g)"
      using one \<open>length (app_data s (seg_data g)) \<le> length (seg_data g)\<close> by (metis add_left_mono fifo_bytes_length length_append)
    moreover have "fcap (recv_fifo s1) = fcap (recv_fifo s)" using one Cons.prems(1) by (simp add: tables_ok_def)
    ultimately show ?thesis using Cons.prems(6) by (simp add: rt_fifo_avail_def)
  qed
  have "fst (drain_loop r (cur + 1) ?s) = length r"
  proof (rule Cons.IH)
    show "tables_ok ?s" using conjunct1 [OF one] by (simp add: tables_ok_def)
    show "window_ok ?s" "send_base ?s < 2 ^ 63" using one Cons.prems(3) window_ok_cong [of ?s s1] by simp_all
    show "cur + 1 = last_recv_complete_seq ?s" using c1 by simp
    show "map (\<lambda>g. unat (seg_seq g)) r = [unat (cur + 1) + 1..<unat (cur + 1) + 1 + length r]"
      using rest c1(2) by simp
  qed (rule av)
  then show ?case using s1 c1(1) by (auto simp: Let_def split: prod.split)
qed simp

lemma rt_drain_all:
  assumes inv: "session_ok s" "window_ok s" "send_base s < 2 ^ 63"
    and seq: "map (\<lambda>g. unat (seg_seq g)) (recv_segments s) =
      [unat (last_recv_complete_seq s) + 1..<unat (last_recv_complete_seq s) + 1 + length (recv_segments s)]"
    and room: "length (concat (map seg_data (recv_segments s))) \<le> rt_fifo_avail (recv_fifo s)"
  shows "recv_segments (rt_drain s) = []"
    "unat (last_recv_complete_seq (rt_drain s)) = unat (last_recv_complete_seq s) + length (recv_segments s)"
    "fifo_bytes (recv_fifo (rt_drain s)) =
      fifo_bytes (recv_fifo s) @ concat (map (app_data s \<circ> seg_data) (recv_segments s))"
proof -
  have t: "tables_ok s" "distinct (map seg_seq (recv_segments s))"
      "\<forall>g \<in> set (recv_segments s). last_recv_complete_seq s < seg_seq g"
    using inv(1) by (simp_all add: session_ok_def tables_ok_def)
  obtain n s' where d: "drain_loop (recv_segments s) (last_recv_complete_seq s) s = (n, s')" by fastforce
  have n: "n = length (recv_segments s)"
    using drain_loop_all [OF t(1) inv(2,3) refl seq room] d by simp
  note ok = drain_loop_ok [OF d refl t(1) inv(2,3) t(2,3)]
  have r: "rt_drain s = s'\<lparr>recv_segments := drop n (recv_segments s')\<rparr>" using d by (simp add: rt_drain_def)
  show "recv_segments (rt_drain s) = []"
    "unat (last_recv_complete_seq (rt_drain s)) = unat (last_recv_complete_seq s) + length (recv_segments s)"
    "fifo_bytes (recv_fifo (rt_drain s)) =
      fifo_bytes (recv_fifo s) @ concat (map (app_data s \<circ> seg_data) (recv_segments s))"
    using ok n unfolding r by simp_all
qed

text \<open>What the parts of the periodic processing behind the delivery leave to the application.\<close>

lemma pair_out_set_disconnected [simp]: "pair_out (rt_set_disconnected env by_you t) = pair_out t"
  by (simp add: rt_set_disconnected_def rt_signal_result_def on_se_def Let_def)

lemma pair_out_pump_pair [simp]: "pair_out (rt_pump_pair_to_send env t) = pair_out t"
proof (induction env t rule: rt_pump_pair_to_send.induct)
  case (1 env t)
  obtain r t1 where r: "recv_pair env t = (r, t1)" by fastforce
  then have "pair_out t1 = pair_out t" by (auto simp: recv_pair_def Let_def split: if_splits)
  with r 1 show ?case
    by (subst rt_pump_pair_to_send.simps) (auto simp: on_se_def split: pair_recv.split)
qed

lemma pair_out_fold_resend [simp]: "pair_out (fold (resend_one env now m) js t) = pair_out t"
  by (induction js arbitrary: t) (simp_all add: resend_one_def on_se_def Let_def)

lemma pair_out_keepalive [simp]: "pair_out (rt_keepalive env now t) = pair_out t"
  by (simp add: rt_keepalive_def keepalive_interval_def c_rand_def on_se_def Let_def)

lemma pump_recv_empties:
  assumes "\<forall>i. \<exists>k. pair_accept env i = Sent (Suc k)" "\<not> pair_shut t"
  shows "fsize (recv_fifo (se (rt_pump_recv_to_pair env t))) = 0"
  using assms
proof (induction env t rule: rt_pump_recv_to_pair.induct)
  case (1 env t)
  let ?f = "recv_fifo (se t)"
  let ?n = "min (fsize ?f) RUDP_T_MAX_SEGMENT_SIZE"
  obtain k where k: "send_pair env t = (Sent (Suc k), t\<lparr>snd_i := snd_i t + 1\<rparr>)"
    using 1(2,3) by (force simp: send_pair_def)
  show ?case
  proof (cases "fsize ?f \<ge> 1")
    case True
    then have w: "min (Suc k) ?n \<noteq> 0" by (simp add: RUDP_T_MAX_SEGMENT_SIZE_def)
    note ih = 1(1) [OF refl True refl refl k [symmetric] refl refl w 1(2)]
    show ?thesis
      by (subst rt_pump_recv_to_pair.simps) (use True k w ih 1(3) in \<open>auto simp: Let_def on_se_def\<close>)
  qed (subst rt_pump_recv_to_pair.simps, simp add: Let_def)
qed

text \<open>
  Segments that have arrived in order reach the application at the next turn: when the
  reorder table holds the next numbers in sequence, the receive FIFO has room for them and
  the application reads, one round of the periodic processing hands over everything that was
  waiting and every segment's data, empties the table and acknowledges up to the last.
\<close>

theorem in_order_delivers:
  assumes env: "rt_env_ok env" and inv: "rt_inv t" "seq_room (se t)"
    and st: "status (se t) = RT_STATUS_ESTABLISHED" "now < latest_recv_my_tick (se t) + RUDP_T_TIMEOUT_MS"
    and seq: "map (\<lambda>g. unat (seg_seq g)) (recv_segments (se t)) =
      [unat (last_recv_complete_seq (se t)) + 1..<unat (last_recv_complete_seq (se t)) + 1 + length (recv_segments (se t))]"
    and room: "length (concat (map seg_data (recv_segments (se t)))) \<le> rt_fifo_avail (recv_fifo (se t))"
    and app: "\<forall>i. \<exists>k. pair_accept env i = Sent (Suc k)" "\<not> pair_shut t"
  shows "pair_out (rt_interrupt env now t) = pair_out t @ fifo_bytes (recv_fifo (se t)) @
      concat (map (app_data (se t) \<circ> seg_data) (recv_segments (se t))) \<and>
    recv_segments (se (rt_interrupt env now t)) = [] \<and>
    unat (last_recv_complete_seq (se (rt_interrupt env now t))) =
      unat (last_recv_complete_seq (se t)) + length (recv_segments (se t))"
proof -
  have ok: "session_ok (se t)" "window_ok (se t)" "send_base (se t) < 2 ^ 63"
    using inv by (simp_all add: rt_inv_def seq_room_def)
  let ?d = "on_se rt_drain t"
  let ?p = "rt_pump_recv_to_pair env ?d"
  have d: "rt_inv ?d" "seq_room (se ?d)" using drain_inv [OF inv] by simp_all
  have kp: "rx_view ?p = rx_view ?d" using keeps_pump_recv [OF env, of ?d] d by (simp add: keeps_def)
  have "fsize (recv_fifo (se ?p)) = 0" using pump_recv_empties [OF app(1)] app(2) by (simp add: on_se_def)
  then have "stream ?p = pair_out ?p" by (simp add: stream_def fifo_bytes_def)
  moreover have "stream ?p = stream ?d" using kp by (simp add: rx_view_def)
  ultimately have po: "pair_out ?p = stream ?d" by simp
  have i: "rt_interrupt env now t = rt_flush_acks env (rt_resend env now (rt_keepalive env now
      (on_se rt_segment_send_fifo (rt_pump_pair_to_send env ?p))))"
    using st by (simp add: rt_interrupt_def Let_def)
  then have "pair_out (rt_interrupt env now t) = pair_out ?p"
    unfolding i flush_acks_unfold rt_resend_def by simp (simp add: on_se_def)
  moreover have "keeps ?p (rt_interrupt env now t)"
    unfolding i
    by (rule keeps_trans [OF keeps_trans [OF keeps_trans [OF keeps_trans
      [OF keeps_pump_pair [OF env] keeps_segment_fifo] keeps_keepalive] keeps_resend [OF env]] keeps_flush_acks [OF env]])
  then have "rx_view (rt_interrupt env now t) = rx_view ?d"
    using keeps_pump_recv [OF env, of ?d] d by (simp add: keeps_def)
  ultimately show ?thesis
    using rt_drain_all [OF ok seq room] po by (simp add: rx_view_def) (simp add: stream_def on_se_def)
qed

section \<open>The sending side\<close>

lemma write_or_drop_session:
  "window_ok (case rt_fifo_write (send_fifo s) d of None \<Rightarrow> s | Some f \<Rightarrow> s\<lparr>send_fifo := f\<rparr>) = window_ok s \<and>
   send_base (case rt_fifo_write (send_fifo s) d of None \<Rightarrow> s | Some f \<Rightarrow> s\<lparr>send_fifo := f\<rparr>) = send_base s"
  by (rule window_ok_cong) (simp_all split: option.split)

lemma se_on_se: "se (on_se f t) = f (se t)"
  by (simp add: on_se_def)

lemma set_disconnected_keeps_data [simp]:
  "send_fifo (se (rt_set_disconnected env by_you t)) = send_fifo (se t)"
  "send_segments (se (rt_set_disconnected env by_you t)) = send_segments (se t)"
  "pair_in (rt_set_disconnected env by_you t) = pair_in t"
  "status (se (rt_set_disconnected env by_you t)) = RT_STATUS_DISCONNECTED"
  by (simp_all add: rt_set_disconnected_def rt_signal_result_def on_se_def Let_def)

text \<open>
  What a FIFO with the given room takes of the chunks offered to it: a chunk that does not
  fit is left out whole, the next one is tried again.
\<close>

fun accepted :: "nat \<Rightarrow> bytes list \<Rightarrow> bytes list" where
  "accepted room [] = []"
| "accepted room (c # cs) = (if length c \<le> room then c # accepted (room - length c) cs else accepted room cs)"

lemma accepted_all: "length (concat cs) \<le> room \<Longrightarrow> accepted room cs = cs"
  by (induction cs arbitrary: room) auto

lemma pump_pair_chunks:
  assumes "session_ok (se t)" "t' = rt_pump_pair_to_send env t"
  shows "\<exists>chunks. pair_in t = concat chunks @ pair_in t' \<and>
    list_all (\<lambda>c. c \<noteq> [] \<and> length c \<le> RUDP_T_MAX_SEGMENT_SIZE) chunks \<and>
    fifo_bytes (send_fifo (se t')) =
      fifo_bytes (send_fifo (se t)) @ concat (accepted (rt_fifo_avail (send_fifo (se t))) chunks) \<and>
    send_segments (se t') = send_segments (se t) \<and> next_send_seq (se t') = next_send_seq (se t) \<and>
    (pair_in t' = [] \<or> fsize (send_fifo (se t')) \<ge> RUDP_T_MAX_FIFO_SIZE \<or> status (se t') = RT_STATUS_DISCONNECTED)"
  using assms
proof (induction env t arbitrary: t' rule: rt_pump_pair_to_send.induct)
  case (1 env t)
  show ?case
  proof (cases "fsize (send_fifo (se t)) \<ge> RUDP_T_MAX_FIFO_SIZE")
    case True
    then have "t' = t" using 1(3) by (subst (asm) rt_pump_pair_to_send.simps) simp
    with True show ?thesis by (intro exI [of _ "[]"]) simp
  next
    case nf: False
    show ?thesis
    proof (cases "pair_err env (rcv_i t) \<or> pair_in t = []")
      case True
      let ?t1 = "t\<lparr>rcv_i := rcv_i t + 1\<rparr>"
      have "recv_pair env t \<in> {(Failed, ?t1), (Closed, ?t1)} \<or> pair_in t = [] \<and> recv_pair env t = (Nothing_yet, ?t1)"
        using True by (auto simp: recv_pair_def Let_def)
      then have "t' = rt_set_disconnected env False ?t1 \<or> pair_in t = [] \<and> t' = ?t1"
        using 1(3) nf by (subst (asm) rt_pump_pair_to_send.simps) auto
      then show ?thesis by (intro exI [of _ "[]"]) auto
    next
      case False
      define k where "k = min RUDP_T_MAX_SEGMENT_SIZE (Suc (pair_take env (rcv_i t)))"
      define d where "d = take k (pair_in t)"
      define t1 where "t1 = t\<lparr>rcv_i := rcv_i t + 1, pair_in := drop k (pair_in t)\<rparr>"
      let ?h = "\<lambda>s. case rt_fifo_write (send_fifo s) d of None \<Rightarrow> s | Some f \<Rightarrow> s\<lparr>send_fifo := f\<rparr>"
      define t2 where "t2 = on_se ?h t1"
      have r: "recv_pair env t = (Got d, t1)"
        using False by (simp add: recv_pair_def Let_def d_def k_def t1_def)
      have step: "t' = rt_pump_pair_to_send env t2"
        using 1(3) nf r unfolding t2_def by (subst (asm) rt_pump_pair_to_send.simps) simp
      have se2: "se t2 = ?h (se t)" unfolding t2_def se_on_se by (rule arg_cong) (simp add: t1_def)
      have so: "session_ok (se t2)" using write_or_drop(1) [OF 1(2), of d] unfolding se2 .
      have fb: "fifo_bytes (send_fifo (se t2)) = fifo_bytes (send_fifo (se t)) @
          (if length d \<le> rt_fifo_avail (send_fifo (se t)) then d else [])"
        using write_or_drop(2) [OF 1(2), of d] unfolding se2 .
      have cap: "fcap (send_fifo (se t)) = RUDP_T_MAX_FIFO_SIZE" "fcap (send_fifo (se t2)) = RUDP_T_MAX_FIFO_SIZE"
        using 1(2) so by (simp_all add: session_ok_def tables_ok_def)
      have av: "rt_fifo_avail (send_fifo (se t2)) = rt_fifo_avail (send_fifo (se t)) -
          (if length d \<le> rt_fifo_avail (send_fifo (se t)) then length d else 0)"
        using arg_cong [OF fb, of length] cap by (simp add: rt_fifo_avail_def)
      have ss: "send_segments (se t2) = send_segments (se t)" "next_send_seq (se t2) = next_send_seq (se t)"
        unfolding se2 by (simp_all split: option.split)
      have d: "d \<noteq> []" "length d \<le> RUDP_T_MAX_SEGMENT_SIZE" "pair_in t = d @ pair_in t2"
        using False by (simp_all add: d_def k_def t2_def t1_def on_se_def RUDP_T_MAX_SEGMENT_SIZE_def)
      from 1(1) [OF nf r [symmetric] refl, folded t2_def, OF so step]
      obtain cs where cs: "pair_in t2 = concat cs @ pair_in t'"
          "list_all (\<lambda>c. c \<noteq> [] \<and> length c \<le> RUDP_T_MAX_SEGMENT_SIZE) cs"
          "fifo_bytes (send_fifo (se t')) =
            fifo_bytes (send_fifo (se t2)) @ concat (accepted (rt_fifo_avail (send_fifo (se t2))) cs)"
          "send_segments (se t') = send_segments (se t2)" "next_send_seq (se t') = next_send_seq (se t2)"
          "pair_in t' = [] \<or> fsize (send_fifo (se t')) \<ge> RUDP_T_MAX_FIFO_SIZE \<or> status (se t') = RT_STATUS_DISCONNECTED"
        by blast
      then show ?thesis using d ss fb av by (intro exI [of _ "d # cs"]) simp
    qed
  qed
qed

text \<open>
  C9: what becomes of the bytes the application writes, in every state of the session. One
  round takes a prefix of them from the socket pair in chunks of at most 512 bytes. The send
  FIFO takes the chunks in order, leaving out, whole, each one that is larger than the room
  it then has: those bytes are lost (nothing is lost when the FIFO has room for all that
  waits in the pair). What it has taken is cut, behind what it held, into segments with
  consecutive numbers from the next one on, none dropped at the limit of the table and no
  byte lost or reordered; bytes stay in the FIFO only when the window of 64 numbers is full,
  and in the pair only when the FIFO is full or the pair has failed and the session is
  disconnected.
\<close>

theorem send_side_exact:
  assumes env: "rt_env_ok env" and inv: "rt_inv t" "seq_room (se t)"
    and t': "t' = rt_pump_pair_to_send env t" and s': "s' = rt_segment_send_fifo (se t')"
  shows "\<exists>chunks new. pair_in t = concat chunks @ pair_in t' \<and>
    list_all (\<lambda>c. c \<noteq> [] \<and> length c \<le> RUDP_T_MAX_SEGMENT_SIZE) chunks \<and>
    fifo_bytes (send_fifo (se t)) @ concat (accepted (rt_fifo_avail (send_fifo (se t))) chunks) =
      concat (map seg_data new) @ fifo_bytes (send_fifo s') \<and>
    (length (pair_in t) \<le> rt_fifo_avail (send_fifo (se t)) \<longrightarrow>
      accepted (rt_fifo_avail (send_fifo (se t))) chunks = chunks) \<and>
    send_segments s' = send_segments (se t) @ new \<and>
    map (\<lambda>g. unat (seg_seq g)) new = [unat (next_send_seq (se t))..<unat (next_send_seq (se t)) + length new] \<and>
    unat (next_send_seq s') = unat (next_send_seq (se t)) + length new \<and>
    (fsize (send_fifo s') = 0 \<or> window_full s') \<and>
    (pair_in t' = [] \<or> fsize (send_fifo (se t')) \<ge> RUDP_T_MAX_FIFO_SIZE \<or> status (se t') = RT_STATUS_DISCONNECTED)"
proof -
  have ok: "session_ok (se t)" using inv(1) by (simp add: rt_inv_def)
  have u: "session_ok (se t')" "window_ok (se t')" "send_base (se t') < 2 ^ 63"
    using keeps_pump_pair [OF env, of t] inv unfolding t' by (simp_all add: keeps_def rt_inv_def seq_room_def)
  obtain cs where cs: "pair_in t = concat cs @ pair_in t'"
      "list_all (\<lambda>c. c \<noteq> [] \<and> length c \<le> RUDP_T_MAX_SEGMENT_SIZE) cs"
      "fifo_bytes (send_fifo (se t')) =
        fifo_bytes (send_fifo (se t)) @ concat (accepted (rt_fifo_avail (send_fifo (se t))) cs)"
      "send_segments (se t') = send_segments (se t)" "next_send_seq (se t') = next_send_seq (se t)"
      "pair_in t' = [] \<or> fsize (send_fifo (se t')) \<ge> RUDP_T_MAX_FIFO_SIZE \<or> status (se t') = RT_STATUS_DISCONNECTED"
    using pump_pair_chunks [OF ok t'] by blast
  obtain new where "send_segments s' = send_segments (se t') @ new"
      "unat (next_send_seq s') = unat (next_send_seq (se t')) + length new"
      "map (\<lambda>g. unat (seg_seq g)) new = [unat (next_send_seq (se t'))..<unat (next_send_seq (se t')) + length new]"
      "fifo_bytes (send_fifo (se t')) = concat (map seg_data new) @ fifo_bytes (send_fifo s')"
      "fsize (send_fifo s') = 0 \<or> window_full s'"
    using rt_segment_send_fifo_ok [OF u] unfolding s' by blast
  with cs show ?thesis
    by (intro exI [of _ cs] exI [of _ new]) (simp add: accepted_all)
qed

text \<open>
  When the send FIFO is almost full, application data is lost without a trace: a chunk
  taken from the socket pair that is larger than the room left is dropped (the result of
  \<^verbatim>\<open>rt_fifo_write\<close> is not looked at), the FIFO stays as it was and the session stays up.
\<close>

theorem full_fifo_loses_bytes:
  assumes "pair_in t = bs" "bs \<noteq> []" "length bs \<le> RUDP_T_MAX_SEGMENT_SIZE" "length bs \<le> Suc (pair_take env (rcv_i t))"
    "fsize (send_fifo (se t)) < RUDP_T_MAX_FIFO_SIZE" "rt_fifo_avail (send_fifo (se t)) < length bs"
    "\<forall>i. \<not> pair_err env i" "\<not> pair_eof t" "\<not> pair_shut t"
  shows "pair_in (rt_pump_pair_to_send env t) = [] \<and>
    send_fifo (se (rt_pump_pair_to_send env t)) = send_fifo (se t) \<and>
    send_segments (se (rt_pump_pair_to_send env t)) = send_segments (se t) \<and>
    status (se (rt_pump_pair_to_send env t)) = status (se t)"
proof -
  let ?t1 = "t\<lparr>rcv_i := rcv_i t + 1, pair_in := []\<rparr>"
  have r: "recv_pair env t = (Got bs, ?t1)" using assms(1-4,7) by (simp add: recv_pair_def Let_def)
  have w: "rt_fifo_write (send_fifo (se t)) bs = None" by (rule fifo.write_full [OF assms(6)])
  have "on_se (\<lambda>s. case rt_fifo_write (send_fifo s) bs of None \<Rightarrow> s | Some f \<Rightarrow> s\<lparr>send_fifo := f\<rparr>) ?t1 = ?t1"
    using w by (simp add: on_se_def)
  then have "rt_pump_pair_to_send env t = rt_pump_pair_to_send env ?t1"
    using assms(5) r by (subst rt_pump_pair_to_send.simps) simp
  moreover have "rt_pump_pair_to_send env ?t1 = ?t1\<lparr>rcv_i := rcv_i t + 2\<rparr>"
    using assms(5,7-9) by (subst rt_pump_pair_to_send.simps) (simp add: recv_pair_def)
  ultimately show ?thesis by simp
qed

section \<open>Descriptors\<close>

definition fds :: "rudp_transport \<Rightarrow> int \<times> int \<times> int \<times> int list \<times> bool" where
  "fds t = (t_udp_fd t, worker_fd t, app_fd t, open_fds t, thread_started t)"

lemma fds_simps [simp]:
  "fds (on_se f t) = fds t" "fds (rt_send_segment_now env sq d t) = fds t" "fds (rt_send_udp env d t) = fds t"
  "fds (rt_signal_result ok t) = fds t" "fds (snd (rt_tick64 env t)) = fds t"
  "fds (t\<lparr>tick_i := n\<rparr>) = fds t" "fds (t\<lparr>rand_i := n\<rparr>) = fds t" "fds (t\<lparr>rb_i := n\<rparr>) = fds t"
  "fds (t\<lparr>snd_i := n\<rparr>) = fds t" "fds (t\<lparr>pair_out := b\<rparr>) = fds t" "fds (t\<lparr>pair_shut := q\<rparr>) = fds t"
  "fds (t\<lparr>error_code := n\<rparr>) = fds t" "fds (t\<lparr>udp_in := ds\<rparr>) = fds t" "fds (t\<lparr>halt := q\<rparr>) = fds t"
  by (simp_all add: fds_def on_se_def rt_signal_result_def rt_tick64_def)

lemma fds_power [simp]: "fds ((rt_send_segment_now env sq d ^^ n) t) = fds t"
  by (induction n) simp_all

lemma fds_set_disconnected [simp]: "fds (rt_set_disconnected env by_you t) = fds t"
  by (simp add: rt_set_disconnected_def Let_def)

lemma fds_pump_recv [simp]: "fds (rt_pump_recv_to_pair env t) = fds t"
proof (induction env t rule: rt_pump_recv_to_pair.induct)
  case (1 env t)
  obtain r t1 where r: "send_pair env t = (r, t1)" by fastforce
  then have u: "fds t1 = fds t" by (auto simp: send_pair_def)
  note ih = 1 [OF refl _ refl refl r [symmetric] _ refl]
  show ?case
  proof (cases r)
    case (Sent k)
    then show ?thesis using ih [OF _ Sent] u r
      by (subst rt_pump_recv_to_pair.simps) (auto simp: Let_def)
  qed (subst rt_pump_recv_to_pair.simps, simp add: r u Let_def)+
qed

lemma fds_pump_pair [simp]: "fds (rt_pump_pair_to_send env t) = fds t"
proof (induction env t rule: rt_pump_pair_to_send.induct)
  case (1 env t)
  obtain r t1 where r: "recv_pair env t = (r, t1)" by fastforce
  then have "fds t1 = fds t" by (auto simp: recv_pair_def Let_def fds_def split: if_splits)
  with r 1 show ?case
    by (subst rt_pump_pair_to_send.simps) (auto split: pair_recv.split)
qed

lemma fds_fold_resend [simp]: "fds (fold (resend_one env now m) js t) = fds t"
  by (induction js arbitrary: t) (simp_all add: resend_one_def Let_def)

lemma fds_interrupt [simp]: "fds (rt_interrupt env now t) = fds t"
proof -
  have "fds (rt_keepalive env now t) = fds t" for t
    by (simp add: rt_keepalive_def keepalive_interval_def c_rand_def Let_def)
  moreover have "fds (connect_tick env now t) = fds t" for t
    by (simp add: connect_tick_def generate_random_bytes_def Let_def split: prod.split)
  ultimately show ?thesis
    by (simp add: rt_interrupt_def Let_def rt_resend_def flush_acks_unfold)
qed

lemma fds_handle [simp]: "fds (rt_handle_udp_packet env ip port buf t) = fds t"
  by (simp add: rt_handle_udp_packet_def rt_tick64_def accept_segment_def Let_def split: option.split prod.split)

lemma fds_drain_socket [simp]: "fds (drain_socket env ds t) = fds t"
proof (induction ds arbitrary: t)
  case (Cons x r)
  obtain ip port d where x: "x = (ip, port, d)" by (cases x) auto
  have "fds (receive_one env ip port d t) = fds t"
    by (auto simp: receive_one_def strip_frame_def Let_def fds_def [of "t\<lparr>dns_tran_id := n\<rparr>" for n]
        fds_def [of t] split: option.split if_splits)
  with Cons show ?case unfolding x drain_socket_Cons by simp
qed simp

lemma fds_turn [simp]: "fds (snd (rt_worker_turn env t)) = fds t"
proof -
  have "fds (if c then t else snd (rt_tick64 env t)) = fds t" for c t by simp
  then show ?thesis
    by (simp add: rt_worker_turn_def rt_tick64_def Let_def)
qed

lemma fds_worker [simp]: "fds (snd (rt_worker env n t)) = fds t"
proof (induction n arbitrary: t)
  case (Suc n)
  show ?case
    using Suc fds_turn [of env t] by (cases "rt_worker_turn env t") (auto split: bool.split)
qed simp

lemma fds_derive_keys [simp]: "fds (rt_derive_keys env t) = fds t"
  by (simp add: rt_derive_keys_def generate_random_bytes_def c_rand_def Let_def split: prod.split)

lemma fds_init_session:
  "init_session env d cfg t = Inl t' \<Longrightarrow> fds t' = fds t" "init_session env d cfg t = Inr t' \<Longrightarrow> fds t' = fds t"
  by (auto simp: init_session_def rt_tick64_def generate_random_bytes_def keepalive_interval_def c_rand_def Let_def
      split: prod.splits if_splits)

lemma fds_stop_worker: "fds (stop_worker env t) = (t_udp_fd t, worker_fd t, app_fd t, open_fds t, False)"
proof (cases "thread_started t")
  case True
  let ?t = "if worker_fd t \<ge> 0 then t\<lparr>halt := True, pair_shut := True\<rparr> else t\<lparr>halt := True\<rparr>"
  have "fds (rt_set_disconnected env False ?t) = fds t" by simp
  with True show ?thesis by (simp add: stop_worker_def Let_def fds_def)
qed (simp add: stop_worker_def fds_def)

lemma fds_connect_fail:
  assumes "fds t = (u, w, a, fs, ts)"
  shows "fds (connect_fail env t) = (if u \<ge> 0 then -1 else u, if w \<ge> 0 then -1 else w, if a \<ge> 0 then -1 else a,
    (let fs = (if u \<ge> 0 then remove1 u fs else fs); fs = (if w \<ge> 0 then remove1 w fs else fs)
     in if a \<ge> 0 then remove1 a fs else fs), False)"
proof -
  have "fds (stop_worker env t) = (u, w, a, fs, False)"
    using assms fds_stop_worker [of env t] by (simp add: fds_def)
  then show ?thesis
    by (simp add: connect_fail_def free_fifos_def close_pair_def close_udp_def close_fd_def fds_def on_se_def Let_def)
qed

lemma fds_open_socket:
  assumes "cfg_udp_fd cfg < 0" "open_fds t = []"
  shows "rt_open_socket env d cfg t = Inl t' \<Longrightarrow> fds t' = fds t"
    "rt_open_socket env d cfg t = Inr (fd, t') \<Longrightarrow>
      sock_fd d = Some fd \<and> fds t' = (t_udp_fd t, worker_fd t, app_fd t, [fd], thread_started t)"
  using assms
  by (auto simp: rt_open_socket_def rand_id_def c_rand_def Let_def close_fd_def fds_def on_se_def
      split: if_splits option.splits)

lemma open_socket_ok:
  "cfg_udp_fd cfg < 0 \<Longrightarrow> sock_fd d = Some fd \<Longrightarrow> bind_ok d \<Longrightarrow> \<exists>u. rt_open_socket env d cfg t = Inr (fd, u)"
  by (simp add: rt_open_socket_def rand_id_def c_rand_def Let_def)

text \<open>The descriptors the system hands out are not negative.\<close>

definition fds_valid :: "rt_calls \<Rightarrow> bool" where
  "fds_valid d \<longleftrightarrow> (\<forall>fd. sock_fd d = Some fd \<longrightarrow> fd \<ge> 0) \<and> (\<forall>w a. pair_fds d = Some (w, a) \<longrightarrow> w \<ge> 0 \<and> a \<ge> 0)"

lemma fds_connect_fail_all:
  assumes "fds t = (fd, w, a, [w, a, fd], ts)" "fd \<ge> 0" "w \<ge> 0" "a \<ge> 0"
  shows "fds (connect_fail env t) = (-1, -1, -1, [], False)"
proof -
  have "remove1 a (remove1 w (remove1 fd [w, a, fd])) = []" by auto
  then show ?thesis using fds_connect_fail [OF assms(1), of env] assms(2-4) by (simp add: Let_def)
qed

text \<open>How setting up the session can end, with the descriptors it leaves.\<close>

lemma connect_session_cases:
  assumes t: "fds t = (fd, -1, -1, [fd], False)" and ge: "fd \<ge> 0" and v: "fds_valid d"
  obtains (closed) t' where "connect_session env d cfg t = Inl t'" "pair_fds d = None \<or> pair_nonblock_ok d"
        "fds t' = (-1, -1, -1, [], False)"
    | (leak) w a t' where "connect_session env d cfg t = Inl t'" "\<not> pair_nonblock_ok d"
        "pair_fds d = Some (w, a)" "fds t' = (-1, -1, -1, remove1 fd [w, a, fd], False)"
    | (started) w a t' where "connect_session env d cfg t = Inr t'" "pair_nonblock_ok d" "pair_fds d = Some (w, a)"
        "fds t' = (fd, w, a, [w, a, fd], True)"
proof (cases "pair_fds d")
  case None
  have f: "fds (t\<lparr>error_code := RUDP_T_ERR_UNKNOWN\<rparr>) = (fd, -1, -1, [fd], False)" using t by simp
  have "connect_session env d cfg t = Inl (connect_fail env (t\<lparr>error_code := RUDP_T_ERR_UNKNOWN\<rparr>))"
    using None by (simp add: connect_session_def)
  moreover have "fds (connect_fail env (t\<lparr>error_code := RUDP_T_ERR_UNKNOWN\<rparr>)) = (-1, -1, -1, [], False)"
    using fds_connect_fail [OF f, of env] ge by simp
  ultimately show ?thesis using closed None by blast
next
  case (Some wa)
  then obtain w a where p: "pair_fds d = Some (w, a)" by (cases wa) auto
  have wa: "w \<ge> 0" "a \<ge> 0" using p v by (simp_all add: fds_valid_def)
  let ?q = "t\<lparr>open_fds := w # a # open_fds t\<rparr>"
  let ?s = "?q\<lparr>worker_fd := w, app_fd := a\<rparr>"
  have q: "fds ?q = (fd, -1, -1, [w, a, fd], False)" "fds ?s = (fd, w, a, [w, a, fd], False)"
    using t by (simp_all add: fds_def)
  consider (nonblock) "\<not> pair_nonblock_ok d"
    | (init) x where "pair_nonblock_ok d" "init_session env d cfg ?s = Inl x"
    | (ok) x where "pair_nonblock_ok d" "init_session env d cfg ?s = Inr x"
    by (cases "init_session env d cfg ?s") auto
  then show ?thesis
  proof cases
    case nonblock
    then have "connect_session env d cfg t = Inl (connect_fail env ?q)"
      using p by (simp add: connect_session_def Let_def)
    moreover have "fds (connect_fail env ?q) = (-1, -1, -1, remove1 fd [w, a, fd], False)"
      using fds_connect_fail [OF q(1), of env] ge by simp
    ultimately show ?thesis using leak nonblock p by blast
  next
    case (init x)
    then have "connect_session env d cfg t = Inl (connect_fail env x)"
      using p by (simp add: connect_session_def Let_def)
    moreover have "fds x = (fd, w, a, [w, a, fd], False)" using fds_init_session(1) [OF init(2)] q(2) by simp
    ultimately show ?thesis using closed init(1) fds_connect_fail_all ge wa by blast
  next
    case (ok x)
    then have x: "fds (x\<lparr>halt := False\<rparr>) = (fd, w, a, [w, a, fd], False)"
      using fds_init_session(2) [OF ok(2)] q(2) by simp
    show ?thesis
    proof (cases "thread_ok d")
      case True
      then have "connect_session env d cfg t = Inr (x\<lparr>halt := False, thread_started := True\<rparr>)"
        using p ok by (simp add: connect_session_def Let_def)
      moreover have "fds (x\<lparr>halt := False, thread_started := True\<rparr>) = (fd, w, a, [w, a, fd], True)"
        using x by (simp add: fds_def)
      ultimately show ?thesis using started ok(1) p by blast
    next
      case False
      then have "connect_session env d cfg t = Inl (connect_fail env (x\<lparr>halt := False, error_code := RUDP_T_ERR_UNKNOWN\<rparr>))"
        using p ok by (simp add: connect_session_def Let_def)
      moreover have "fds (x\<lparr>halt := False, error_code := RUDP_T_ERR_UNKNOWN\<rparr>) = (fd, w, a, [w, a, fd], False)"
        using x by simp
      ultimately show ?thesis using closed ok(1) fds_connect_fail_all ge wa by blast
    qed
  qed
qed

text \<open>
  The UDP socket is the one handed over in the configuration, or one that is opened. \<open>sock_had\<close>
  says that there is one.
\<close>

definition sock_had :: "rt_calls \<Rightarrow> rudp_transport_config_t \<Rightarrow> bool" where
  "sock_had d cfg \<longleftrightarrow> 0 \<le> cfg_udp_fd cfg \<or>
     sock_fd d \<noteq> None \<and> (cfg_transport_mode cfg = RUDP_T_MODE_ICMP \<or> bind_ok d)"

definition given_fds :: "rudp_transport_config_t \<Rightarrow> int list" where
  "given_fds cfg = (if cfg_udp_fd cfg < 0 then [] else [cfg_udp_fd cfg])"

definition uses_fd :: "rt_calls \<Rightarrow> rudp_transport_config_t \<Rightarrow> int \<Rightarrow> bool" where
  "uses_fd d cfg fd \<longleftrightarrow> (if cfg_udp_fd cfg < 0 then sock_fd d = Some fd else fd = cfg_udp_fd cfg)"

lemma fds_open_given:
  assumes "fds t = (-1, -1, -1, given_fds cfg, False)" "transport_mode t = cfg_transport_mode cfg" "fds_valid d"
  obtains (none) t' where "rt_open_socket env d cfg t = Inl t'" "\<not> sock_had d cfg" "fds t' = (-1, -1, -1, given_fds cfg, False)"
    | (some) fd t' where "rt_open_socket env d cfg t = Inr (fd, t')" "sock_had d cfg" "uses_fd d cfg fd" "0 \<le> fd"
        "fds t' = (-1, -1, -1, [fd], False)"
proof (cases "cfg_udp_fd cfg < 0")
  case True
  then have o: "open_fds t = []" "given_fds cfg = []" using assms(1) by (simp_all add: fds_def given_fds_def)
  show ?thesis
  proof (cases "rt_open_socket env d cfg t")
    case (Inl t')
    then have "\<not> sock_had d cfg"
      using True assms(2) by (auto simp: rt_open_socket_def sock_had_def rand_id_def c_rand_def Let_def split: if_splits option.splits)
    then show ?thesis using none Inl fds_open_socket(1) [OF True o(1) Inl] assms(1) by simp
  next
    case (Inr x)
    then obtain fd t' where x: "rt_open_socket env d cfg t = Inr (fd, t')" by (cases x) auto
    then have "sock_had d cfg"
      using True assms(2) by (auto simp: rt_open_socket_def sock_had_def rand_id_def c_rand_def Let_def split: if_splits option.splits)
    then show ?thesis
      using some x fds_open_socket(2) [OF True o(1) x] assms(1,3) True by (auto simp: fds_def fds_valid_def uses_fd_def)
  qed
next
  case False
  then show ?thesis
    using some [of "cfg_udp_fd cfg" t] assms(1) by (simp add: rt_open_socket_def sock_had_def uses_fd_def given_fds_def)
qed

lemma connect_start_cases:
  assumes t: "fds t = (-1, -1, -1, given_fds cfg, False)" and v: "fds_valid d"
  obtains (early) t' where "connect_start env d cfg t = Inl t'" "\<not> sock_had d cfg \<or> \<not> nonblock_ok d"
        "fds t' = (-1, -1, -1, given_fds cfg, False)"
    | (closed) t' where "connect_start env d cfg t = Inl t'" "sock_had d cfg" "nonblock_ok d"
        "pair_fds d = None \<or> pair_nonblock_ok d" "fds t' = (-1, -1, -1, [], False)"
    | (leak) fd w a t' where "connect_start env d cfg t = Inl t'" "sock_had d cfg" "nonblock_ok d" "\<not> pair_nonblock_ok d"
        "pair_fds d = Some (w, a)" "fds t' = (-1, -1, -1, remove1 fd [w, a, fd], False)"
    | (started) fd w a t' where "connect_start env d cfg t = Inr t'" "sock_had d cfg" "nonblock_ok d" "pair_nonblock_ok d"
        "uses_fd d cfg fd" "0 \<le> fd" "pair_fds d = Some (w, a)" "fds t' = (fd, w, a, [w, a, fd], True)"
proof -
  let ?t = "t\<lparr>connect_timeout_ms := (if cfg_connect_timeout_ms cfg \<noteq> 0 then cfg_connect_timeout_ms cfg
      else ucast RUDP_T_TIMEOUT_MS), transport_mode := cfg_transport_mode cfg\<rparr>"
  have t': "fds ?t = (-1, -1, -1, given_fds cfg, False)" "transport_mode ?t = cfg_transport_mode cfg"
    using t by (simp_all add: fds_def)
  show thesis
  proof (rule fds_open_given [OF t' v, of env])
    fix x assume x: "rt_open_socket env d cfg ?t = Inl x" "\<not> sock_had d cfg" "fds x = (-1, -1, -1, given_fds cfg, False)"
    then have "connect_start env d cfg t = Inl x" by (simp add: connect_start_def)
    then show thesis using early x by blast
  next
    fix fd u assume o: "rt_open_socket env d cfg ?t = Inr (fd, u)" "sock_had d cfg" "uses_fd d cfg fd" "0 \<le> fd"
      and u: "fds u = (-1, -1, -1, [fd], False)"
    show thesis
    proof (cases "nonblock_ok d")
      case False
      then have "connect_start env d cfg t = Inl ((if cfg_udp_fd cfg < 0 then close_fd fd u else u)\<lparr>error_code := RUDP_T_ERR_UNKNOWN\<rparr>)"
        using o by (simp add: connect_start_def)
      moreover have "fds ((if cfg_udp_fd cfg < 0 then close_fd fd u else u)\<lparr>error_code := RUDP_T_ERR_UNKNOWN\<rparr>) =
          (-1, -1, -1, given_fds cfg, False)"
        using u o(3) by (auto simp: fds_def close_fd_def given_fds_def uses_fd_def)
      ultimately show thesis using early False by blast
    next
      case True
      have u1: "fds (u\<lparr>t_udp_fd := fd\<rparr>) = (fd, -1, -1, [fd], False)" using u by (simp add: fds_def)
      have s: "connect_start env d cfg t = connect_session env d cfg (u\<lparr>t_udp_fd := fd\<rparr>)"
        using o True by (simp add: connect_start_def)
      show thesis
        by (rule connect_session_cases [OF u1 o(4) v, of env cfg]; unfold s [symmetric])
          (use closed leak started o True in blast)+
    qed
  qed
qed

lemma created_fds: "rudp_transport_create ok = Some t \<Longrightarrow> fds t = (-1, -1, -1, [], False)"
  by (auto simp: rudp_transport_create_def fds_def split: if_splits)

text \<open>The end of the call, after the worker has run: a result, or the label \<^verbatim>\<open>fail\<close>.\<close>

lemma connect_after_start:
  assumes s: "connect_start env d cfg t = Inr t0" and cfg: "cfg_server_ip cfg \<noteq> 0" "cfg_server_port cfg \<noteq> 0"
    and f: "fds t0 = (fd, w, a, [w, a, fd], True)" and ge: "fd \<ge> 0" "w \<ge> 0" "a \<ge> 0"
    and r: "rudp_transport_connect env d cfg t = (r, t')"
  shows "r = 0 \<and> fds t' = (fd, w, a, [w, a, fd], True) \<or> r = -1 \<and> fds t' = (-1, -1, -1, [], False)"
proof -
  let ?u = "snd (rt_worker env (turns d) (snd (rt_tick64 env t0)))"
  have u: "fds (?u\<lparr>error_code := e\<rparr>) = (fd, w, a, [w, a, fd], True)" for e using f by simp
  have u': "fds ?u = (fd, w, a, [w, a, fd], True)" using f by simp
  have c: "fds (connect_fail env (?u\<lparr>error_code := e\<rparr>)) = (-1, -1, -1, [], False)"
      "fds (connect_fail env ?u) = (-1, -1, -1, [], False)" for e
    using fds_connect_fail_all [OF u ge] fds_connect_fail_all [OF u' ge] by simp_all
  have "rudp_transport_connect env d cfg t = (if \<not> result_ready ?u \<and> cancel_seen d
      then (-1, connect_fail env (?u\<lparr>error_code := RUDP_T_ERR_TIMEOUT\<rparr>))
      else if result_ready ?u \<and> result_ok ?u then (0, ?u\<lparr>error_code := RUDP_T_ERR_OK\<rparr>)
      else (-1, connect_fail env (if error_code ?u = RUDP_T_ERR_OK then ?u\<lparr>error_code := RUDP_T_ERR_TIMEOUT\<rparr> else ?u)))"
    using s cfg by (simp add: rudp_transport_connect_def rt_tick64_def Let_def)
  then show ?thesis using r u c by (auto split: if_splits)
qed

text \<open>
  The descriptors that are open after a connect that failed: a socket that was handed over
  and given back before it was adopted, and both ends of a socket pair that could not be made
  non-blocking.
\<close>

definition left_open :: "rt_calls \<Rightarrow> rudp_transport_config_t \<Rightarrow> int multiset" where
  "left_open d cfg = (if cfg_server_ip cfg = 0 \<or> cfg_server_port cfg = 0 \<or> \<not> sock_had d cfg \<or> \<not> nonblock_ok d
     then mset (given_fds cfg)
     else (case pair_fds d of None \<Rightarrow> {#} | Some (w, a) \<Rightarrow> if pair_nonblock_ok d then {#} else {#w, a#}))"

lemma transport_connect_cases:
  assumes t: "fds t = (-1, -1, -1, given_fds cfg, False)" and v: "fds_valid d"
    and r: "rudp_transport_connect env d cfg t = (r, t')"
  shows "r = 0 \<and> (\<exists>fd w a. uses_fd d cfg fd \<and> 0 \<le> fd \<and> pair_fds d = Some (w, a) \<and> fds t' = (fd, w, a, [w, a, fd], True)) \<or>
    r = -1 \<and> (\<exists>left. fds t' = (-1, -1, -1, left, False) \<and> mset left = left_open d cfg)"
proof (cases "cfg_server_ip cfg = 0 \<or> cfg_server_port cfg = 0")
  case True
  then have "r = -1 \<and> fds t' = (-1, -1, -1, given_fds cfg, False)"
    using r t by (auto simp: rudp_transport_connect_def)
  then show ?thesis using True by (auto simp: left_open_def)
next
  case False
  then have cfg: "cfg_server_ip cfg \<noteq> 0" "cfg_server_port cfg \<noteq> 0" by simp_all
  have inl: "r = -1 \<and> t' = x" if "connect_start env d cfg t = Inl x" for x
    using that r cfg by (simp add: rudp_transport_connect_def)
  show ?thesis
  proof (rule connect_start_cases [OF t v, of env])
    fix x assume "connect_start env d cfg t = Inl x" "\<not> sock_had d cfg \<or> \<not> nonblock_ok d"
      "fds x = (-1, -1, -1, given_fds cfg, False)"
    then show ?thesis using inl by (auto simp: left_open_def)
  next
    fix x assume "connect_start env d cfg t = Inl x" "sock_had d cfg" "nonblock_ok d"
      "pair_fds d = None \<or> pair_nonblock_ok d" "fds x = (-1, -1, -1, [], False)"
    then show ?thesis using inl cfg by (auto simp: left_open_def split: option.split)
  next
    fix fd w a x assume "connect_start env d cfg t = Inl x" "sock_had d cfg" "nonblock_ok d" "\<not> pair_nonblock_ok d"
      "pair_fds d = Some (w, a)" "fds x = (-1, -1, -1, remove1 fd [w, a, fd], False)"
    moreover have "mset (remove1 fd [w, a, fd]) = {#w, a#}" by simp
    ultimately show ?thesis using inl cfg by (auto simp: left_open_def simp del: remove1.simps)
  next
    fix fd w a x assume s: "connect_start env d cfg t = Inr x" "sock_had d cfg" "nonblock_ok d" "pair_nonblock_ok d"
      "uses_fd d cfg fd" "0 \<le> fd" "pair_fds d = Some (w, a)" "fds x = (fd, w, a, [w, a, fd], True)"
    have wa: "w \<ge> 0" "a \<ge> 0" using s(7) v by (simp_all add: fds_valid_def)
    from connect_after_start [OF s(1) cfg s(8,6) wa r] show ?thesis
      using s cfg by (auto simp: left_open_def)
  qed
qed

text \<open>
  C14: the descriptors of a connect, whether the transport opens its UDP socket or is handed
  one. After 0 exactly three are open, the UDP socket and both ends of the socket pair, and
  the worker runs. After -1 the transport holds none and the worker has been joined; what is
  still open is \<open>left_open\<close>: nothing, except that a socket that was handed over stays open when
  the arguments are refused or the socket cannot be made non-blocking, and that both ends of
  the pair stay open when its first end cannot be made non-blocking.
\<close>

theorem connect_descriptors:
  assumes "rudp_transport_create ok = Some t" "fds_valid d"
    "rudp_transport_connect env d cfg (t\<lparr>open_fds := given_fds cfg\<rparr>) = (r, t')"
  shows "r = 0 \<and> thread_started t' \<and> uses_fd d cfg (t_udp_fd t') \<and> pair_fds d = Some (worker_fd t', app_fd t') \<and>
      open_fds t' = [worker_fd t', app_fd t', t_udp_fd t'] \<or>
    r = -1 \<and> t_udp_fd t' = -1 \<and> worker_fd t' = -1 \<and> app_fd t' = -1 \<and> \<not> thread_started t' \<and>
      mset (open_fds t') = left_open d cfg"
proof -
  have "fds (t\<lparr>open_fds := given_fds cfg\<rparr>) = (-1, -1, -1, given_fds cfg, False)"
    using created_fds [OF assms(1)] by (simp add: fds_def)
  from transport_connect_cases [OF this assms(2,3)] show ?thesis by (auto simp: fds_def)
qed

text \<open>
  When the socket pair cannot be made non-blocking, both of its descriptors stay open
  after the failed connect: they are stored in the transport only after that check, so the
  clean-up does not know them.
\<close>

theorem nonblock_failure_leaks:
  assumes "rudp_transport_create ok = Some t" "cfg_server_ip cfg \<noteq> 0" "cfg_server_port cfg \<noteq> 0" "cfg_udp_fd cfg < 0"
    "sock_fd d = Some fd" "bind_ok d" "nonblock_ok d" "pair_fds d = Some (w, a)" "distinct [w, a, fd]" "fd \<ge> 0"
    "\<not> pair_nonblock_ok d"
  shows "\<exists>t'. rudp_transport_connect env d cfg t = (-1, t') \<and> open_fds t' = [w, a] \<and>
    worker_fd t' = -1 \<and> app_fd t' = -1"
proof -
  let ?t = "t\<lparr>connect_timeout_ms := (if cfg_connect_timeout_ms cfg \<noteq> 0 then cfg_connect_timeout_ms cfg
      else ucast RUDP_T_TIMEOUT_MS), transport_mode := cfg_transport_mode cfg\<rparr>"
  have t: "open_fds ?t = []" "fds ?t = (-1, -1, -1, [], False)"
    using created_fds [OF assms(1)] by (simp_all add: fds_def)
  obtain u where o: "rt_open_socket env d cfg ?t = Inr (fd, u)"
    using open_socket_ok [OF assms(4-6)] by blast
  let ?q = "u\<lparr>t_udp_fd := fd, open_fds := w # a # open_fds u\<rparr>"
  have q: "fds ?q = (fd, -1, -1, [w, a, fd], False)"
    using fds_open_socket(2) [OF assms(4) t(1) o] t(2) by (simp add: fds_def)
  have "rudp_transport_connect env d cfg t = (-1, connect_fail env ?q)"
    using assms o by (simp add: rudp_transport_connect_def connect_start_def connect_session_def Let_def)
  moreover have "fds (connect_fail env ?q) = (-1, -1, -1, [w, a], False)"
    using fds_connect_fail [OF q, of env] assms(9,10) by simp
  ultimately show ?thesis by (simp add: fds_def)
qed

section \<open>The ICMP checksum\<close>

lemma icmp_frame_folds:
  assumes "rt_env_ok env" "length data \<le> RUDP_T_MAX_PACKET_SIZE"
  shows "fold_carry (sum_be (icmp_frame env ident sq data)) = 65535"
proof -
  let ?p = "icmp_clear env ident sq data"
  let ?c = "fold_carry (sum_be ?p)"
  define r where "r = drop 4 ?p"
  have p: "?p = [8, 0, 0, 0] @ r" by (simp add: r_def icmp_clear_def)
  have "length ?p \<le> 1383" using assms by (simp add: icmp_clear_def rt_env_ok_def rt_consts)
  then have "sum_be ?p \<le> 65535 * 692"
  proof -
    have "(length ?p + 1) div 2 \<le> 692" using \<open>length ?p \<le> 1383\<close> by simp
    then have "65535 * ((length ?p + 1) div 2) \<le> 65535 * 692" by (rule mult_le_mono2)
    with sum_be_le [of ?p] show ?thesis by (rule le_trans)
  qed
  then have small: "u32n (sum_be ?p) = sum_be ?p" by simp
  have c: "?c \<le> 65535" "?c mod 65535 = sum_be ?p mod 65535" using fold_carry_props [of "sum_be ?p"] by simp_all
  have ck: "unat (icmp_checksum ?p) = 65535 - ?c"
    using c(1) by (simp add: icmp_checksum_def small unat_not16 unat_of_nat)
  have f: "icmp_frame env ident sq data = 8 # 0 # ucast (drop_bit 8 (icmp_checksum ?p)) # ucast (icmp_checksum ?p) # r"
    by (simp add: icmp_frame_def Let_def p put_be16_def)
  have "sum_be (icmp_frame env ident sq data) = sum_be ?p + (65535 - ?c)"
    using be16_value [of "icmp_checksum ?p"] unfolding f ck by (simp add: p)
  then show ?thesis
    using complement_check [OF c] by (intro mod_65535_folded) (simp_all add: p)
qed

text \<open>
  The checksum of an ICMP echo frame is right: the 16-bit words of every frame the
  transport builds, checksum included, add up in one's complement to all ones, which is what
  the receiver checks; the 32-bit sum cannot overflow for any packet the transport sends.
\<close>

theorem icmp_frame_checksum:
  assumes "rt_env_ok env" "length data \<le> RUDP_T_MAX_PACKET_SIZE"
  shows "fold_carry (sum_be (icmp_frame env ident sq data)) = 65535"
  by (rule icmp_frame_folds [OF assms])

section \<open>Segments on the wire\<close>

text \<open>
  How a server takes a datagram out of its frame: behind a DNS question with an option record
  of 36 bytes, the last two of which give the length of the packet; out of an ICMP echo
  request whose checksum is right, behind the SHA-1 of the packet; or as it is.
\<close>

definition peer_unframe :: "rt_env \<Rightarrow> nat \<Rightarrow> bytes \<Rightarrow> bytes option" where
  "peer_unframe env mode f = (if mode = RUDP_T_MODE_DNS then
       if 36 \<le> length f \<and> unat (get_be16 (drop 34 f)) = length f - 36 then Some (drop 36 f) else None
     else if mode = RUDP_T_MODE_ICMP then
       if 28 \<le> length f \<and> f ! 0 = 8 \<and> fold_carry (sum_be f) = 65535 \<and> take 20 (drop 8 f) = rt_sha1 env (drop 28 f)
       then Some (drop 28 f) else None
     else Some f)"

lemma peer_unframe_dns:
  assumes "length label = 4" "length data < 2 ^ 16"
  shows "peer_unframe env RUDP_T_MODE_DNS (dns_frame i label data) = Some data"
proof -
  let ?h = "put_be16 i @ dns_qhdr @ hex_label label @ dns_qtail"
  have h: "length ?h = 34" using assms(1) by (simp add: hex_label_length dns_qhdr_def dns_qtail_def)
  have f: "dns_frame i label data = ?h @ put_be16 (word_of_nat (length data)) @ data" by (simp add: dns_frame_def)
  have d: "drop 34 (dns_frame i label data) = put_be16 (word_of_nat (length data)) @ data"
    "drop 36 (dns_frame i label data) = data" "length (dns_frame i label data) = 36 + length data"
    unfolding f using h by (simp_all add: drop_append)
  have "unat (word_of_nat (length data) :: u16) = length data"
    using assms(2) by (simp add: unat_of_nat)
  then show ?thesis by (simp add: peer_unframe_def d)
qed

lemma peer_unframe_icmp:
  assumes "rt_env_ok env" "length data \<le> RUDP_T_MAX_PACKET_SIZE"
  shows "peer_unframe env RUDP_T_MODE_ICMP (icmp_frame env ident sq data) = Some data"
proof -
  let ?c = "icmp_checksum (icmp_clear env ident sq data)"
  have sha: "length (rt_sha1 env data) = 20" using assms(1) by (simp add: rt_env_ok_def)
  have f: "icmp_frame env ident sq data = ([8, 0] @ put_be16 ?c @ put_be16 ident @ put_be16 sq) @ rt_sha1 env data @ data"
    by (simp add: icmp_frame_def Let_def) (simp add: icmp_clear_def)
  have "drop 8 (icmp_frame env ident sq data) = rt_sha1 env data @ data"
    "drop 28 (icmp_frame env ident sq data) = data" "icmp_frame env ident sq data ! 0 = 8"
    "length (icmp_frame env ident sq data) = 28 + length data"
    unfolding f using sha by (simp_all add: drop_append)
  then show ?thesis
    using icmp_frame_folds [OF assms, of ident sq] sha by (simp add: peer_unframe_def RUDP_T_MODE_DNS_def RUDP_T_MODE_ICMP_def)
qed

lemma peer_unframe_framed:
  assumes "rt_env_ok env" "length label = 4" "length data \<le> RUDP_T_MAX_PACKET_SIZE"
  shows "peer_unframe env (transport_mode t) (framed env t label data) = Some data"
proof -
  have "length data < 2 ^ 16" using assms(3) by (simp add: rt_consts)
  then show ?thesis
    using peer_unframe_dns [OF assms(2)] peer_unframe_icmp [OF assms(1,3)]
    by (simp add: framed_def) (simp add: peer_unframe_def)
qed

text \<open>
  C10: a segment reaches a peer that knows the key as it was sent, in each of the three
  framings: exactly one datagram is handed to \<^verbatim>\<open>sendto\<close>, for the peer's address; taken out of its
  frame as the peer does it, it is a packet of at most 1355 bytes whose signature checks and
  which opens to the tick, the acknowledgements pending, the sequence number and the data; the
  acknowledgements are then no longer pending. (That is a peer with a buffer for the whole
  frame; the buffer this program receives into has 1355 bytes, frame included.)
\<close>

theorem rt_segment_roundtrip:
  assumes "rt_env_ok env" "length (rt_next_iv (se t)) = 20" "length data \<le> RUDP_T_MAX_SEGMENT_SIZE"
  shows "\<exists>frame pkt. udp_out (rt_send_segment_now env sq data t) =
      udp_out t @ [(your_ip (se t), your_port (se t), frame)] \<and>
    peer_unframe env (transport_mode t) frame = Some pkt \<and>
    length pkt \<le> RUDP_T_MAX_PACKET_SIZE \<and>
    open_segment env (key_send (se t)) pkt =
      Some (rt_tick env (tick_i t), your_tick (se t), last_recv_complete_seq (se t),
        take RUDP_T_MAX_NUM_ACK (reply_acks (se t)), sq, data) \<and>
    reply_acks (se (rt_send_segment_now env sq data t)) = []"
proof -
  have len: "length data \<le> 512" using assms(3) by (simp add: RUDP_T_MAX_SEGMENT_SIZE_def)
  let ?pkt = "segment_sent env sq data t"
  obtain label where l: "length label = 4" and "udp_out (rt_send_segment_now env sq data t) =
      udp_out t @ [(your_ip (se t), your_port (se t), framed env t label ?pkt)]"
    using send_segment_out [OF assms(1)] by blast
  moreover note o = segment_sent_opens [OF assms(1,2) len, of sq]
  moreover have "peer_unframe env (transport_mode t) (framed env t label ?pkt) = Some ?pkt"
    by (rule peer_unframe_framed [OF assms(1) l o(3)])
  ultimately show ?thesis
    by (intro exI [of _ "framed env t label ?pkt"] exI [of _ ?pkt]) (simp add: RUDP_T_MAX_NUM_ACK_def)
qed

section \<open>A concrete session\<close>

definition rt_env0 :: rt_env where
  "rt_env0 = \<lparr>rt_sha1 = (\<lambda>_. replicate 20 0), rt_tick = (\<lambda>_. 1000), rt_rand = (\<lambda>_. 0),
     rt_rbytes = (\<lambda>_ n. (True, replicate n 0)), pair_take = (\<lambda>_. 511), pair_err = (\<lambda>_. False),
     pair_accept = (\<lambda>_. Sent 512)\<rparr>"

definition rt_calls0 :: rt_calls where
  "rt_calls0 = \<lparr>sock_fd = Some 5, bind_ok = True, nonblock_ok = True, pair_fds = Some (6, 7), pair_nonblock_ok = True,
     send_mem = Some (replicate RUDP_T_MAX_FIFO_SIZE 0), recv_mem = Some (replicate RUDP_T_MAX_FIFO_SIZE 0),
     thread_ok = True, turns = 0, cancel_seen = False\<rparr>"

definition rt_cfg0 :: rudp_transport_config_t where
  "rt_cfg0 = \<lparr>cfg_server_ip = 1, cfg_server_port = 5555, cfg_udp_fd = -1, cfg_connect_timeout_ms = 0,
     cfg_transport_mode = RUDP_T_MODE_UDP\<rparr>"

definition rt_created :: rudp_transport where
  "rt_created = the (rudp_transport_create True)"

definition rt_started :: rudp_transport where
  "rt_started = projr (connect_start rt_env0 rt_calls0 rt_cfg0 rt_created)"

lemma rt_env0_ok [simp]: "rt_env_ok rt_env0"
  by (simp add: rt_env_ok_def rt_env0_def)

lemma rt_calls0_ok [simp]: "mem_ok rt_calls0" "fds_valid rt_calls0"
  by (simp_all add: mem_ok_def fds_valid_def rt_calls0_def)

lemma rt_created [simp]: "rudp_transport_create True = Some rt_created"
  by (simp add: rt_created_def rudp_transport_create_def)

lemmas rt_start_defs = connect_start_def connect_session_def init_session_def rt_open_socket_def rt_derive_keys_def
  keepalive_interval_def c_rand_def generate_random_bytes_def rt_tick64_def on_se_def Let_def
  rt_env0_def rt_calls0_def rt_cfg0_def rt_created_def rudp_transport_create_def session_zero_def

lemma rt_started_eq: "connect_start rt_env0 rt_calls0 rt_cfg0 rt_created = Inr rt_started"
proof -
  have "fcap (rt_fifo_init (Some m) RUDP_T_MAX_FIFO_SIZE) \<noteq> 0" for m
    by (simp add: rt_fifo_init_cap RUDP_T_MAX_FIFO_SIZE_def)
  then have "\<exists>x. connect_start rt_env0 rt_calls0 rt_cfg0 rt_created = Inr x"
    by (simp add: rt_start_defs rt_consts)
  then show ?thesis unfolding rt_started_def by (auto simp: sum.exhaust_sel)
qed

lemma rt_started_fields:
  "transport_mode rt_started = RUDP_T_MODE_UDP" "halt rt_started = False" "next_send_seq (se rt_started) = 1"
  "pair_shut rt_started = False" "pair_eof rt_started = False" "pair_in rt_started = []" "send_segments (se rt_started) = []"
  by (simp_all add: rt_started_def rt_start_defs rt_consts rt_fifo_init_cap split: option.split)

lemma rt_started_fresh: "fresh rt_started"
  by (rule connect_start_fresh [OF rt_env0_ok rt_calls0_ok(1) rt_started_eq rt_created])

lemma rt_started_far: "seq_far (se rt_started)"
  by (simp add: seq_far_def rt_started_fields)

text \<open>A datagram of the peer, and what it opens to.\<close>

definition peer_datagram :: "u64 \<Rightarrow> bytes \<Rightarrow> bytes" where
  "peer_datagram sq data = seal_segment rt_env0 (key_recv (se rt_started)) (replicate 20 0)
     (segment_body 1 1 0 [] sq data 1)"

lemma peer_datagram_opens:
  assumes "length data \<le> 512"
  shows "open_segment rt_env0 (key_recv (se rt_started)) (peer_datagram sq data) = Some (1, 1, 0, [], sq, data)"
    "20 \<le> length (peer_datagram sq data)" "length (peer_datagram sq data) \<le> RUDP_T_MAX_PACKET_SIZE"
proof -
  have b: "40 + length (segment_body 1 1 0 [] sq data 1) \<le> RUDP_T_MAX_PACKET_SIZE"
    using assms unfolding segment_body_length rt_consts by simp
  show "open_segment rt_env0 (key_recv (se rt_started)) (peer_datagram sq data) = Some (1, 1, 0, [], sq, data)"
    unfolding peer_datagram_def open_seal_segment [OF rt_env0_ok length_replicate b] by (rule parse_segment_body) simp_all
  have l: "length (peer_datagram sq data) = 40 + length (segment_body 1 1 0 [] sq data 1)"
    unfolding peer_datagram_def by (rule seal_segment_length) simp_all
  then show "20 \<le> length (peer_datagram sq data)" by simp
  show "length (peer_datagram sq data) \<le> RUDP_T_MAX_PACKET_SIZE" using l b by linarith
qed

lemma peer_datagram_honest: "honest rt_env0 rt_started (\<lambda>_. [42]) (peer_datagram 1 [42])"
proof -
  have "strip_frame (take RUDP_T_MAX_PACKET_SIZE (peer_datagram 1 [42])) rt_started =
      Some (peer_datagram 1 [42], rt_started)"
    using peer_datagram_opens(3) [of "[42]" 1] by (simp add: strip_frame_def rt_started_fields rt_consts)
  then show ?thesis using peer_datagram_opens(1) [of "[42]" 1] by (simp add: honest_def carried_def)
qed

definition rt_up :: "rt_segment_t list \<Rightarrow> rudp_transport" where
  "rt_up gs = rt_started\<lparr>se := (se rt_started)\<lparr>status := RT_STATUS_ESTABLISHED, latest_recv_my_tick := 1000,
     recv_segments := gs\<rparr>\<rparr>"

definition seg42 :: rt_segment_t where
  "seg42 = \<lparr>seg_seq = 1, seg_data = [42], next_send_tick = 0, num_sent = 0\<rparr>"

lemma rt_up_inv:
  assumes "gs = [] \<or> gs = [seg42]"
  shows "rt_inv (rt_up gs)" "seq_far (se (rt_up gs))" "seq_room (se (rt_up gs))"
proof -
  have f: "session_ok (se rt_started)" "window_ok (se rt_started)" "out_ok rt_started" "seq_room (se rt_started)"
      "recv_segments (se rt_started) = []" "last_recv_complete_seq (se rt_started) = 0"
    using rt_started_fresh by (simp_all add: fresh_def rt_inv_def)
  have w: "window_ok (se (rt_up gs)) = window_ok (se rt_started) \<and> send_base (se (rt_up gs)) = send_base (se rt_started)"
    by (rule window_ok_cong) (simp_all add: rt_up_def)
  have "session_ok (se (rt_up gs))"
    using assms f by (auto simp: rt_up_def seg42_def session_ok_def tables_ok_def)
  then show "rt_inv (rt_up gs)" "seq_room (se (rt_up gs))"
    using w f by (simp_all add: rt_inv_def out_ok_def seq_room_def rt_up_def)
  show "seq_far (se (rt_up gs))" using rt_started_far by (simp add: seq_far_def rt_up_def)
qed

theorem rt_segment_roundtrip_witness:
  "\<exists>frame pkt. udp_out (rt_send_segment_now rt_env0 1 [42] ((rt_up [])\<lparr>transport_mode := RUDP_T_MODE_DNS\<rparr>)) =
      udp_out (rt_up []) @ [(your_ip (se (rt_up [])), your_port (se (rt_up [])), frame)] \<and>
    peer_unframe rt_env0 RUDP_T_MODE_DNS frame = Some pkt \<and>
    snd (snd (snd (snd (snd (the (open_segment rt_env0 (key_send (se (rt_up []))) pkt)))))) = [42]"
proof -
  let ?t = "(rt_up [])\<lparr>transport_mode := RUDP_T_MODE_DNS\<rparr>"
  have "length (rt_next_iv (se ?t)) = 20" "length [42 :: byte] \<le> RUDP_T_MAX_SEGMENT_SIZE"
    using rt_up_inv(1) [of "[]"] by (simp_all add: rt_inv_def session_ok_def tables_ok_def RUDP_T_MAX_SEGMENT_SIZE_def)
  from rt_segment_roundtrip [OF rt_env0_ok this, of 1] show ?thesis by auto
qed

theorem rt_run_invariant_witness:
  "rt_inv (snd (rt_worker_turn rt_env0 rt_started))"
proof (rule rt_run_invariant [OF rt_env0_ok rt_calls0_ok(1) rt_created rt_started_eq])
  show "(rt_step rt_env0 (\<lambda>_. True))\<^sup>*\<^sup>* rt_started (snd (rt_worker_turn rt_env0 rt_started))"
    by (intro r_into_rtranclp rt_step.turn) (simp_all add: rt_started_fields rt_started_far)
qed

definition rt_arrived :: rudp_transport where
  "rt_arrived = rt_started\<lparr>udp_in := udp_in rt_started @ [(1, 5555, peer_datagram 1 [42])]\<rparr>"

theorem rt_stream_exact_witness:
  "pair_out (snd (rt_worker_turn rt_env0 rt_arrived)) @
     fifo_bytes (recv_fifo (se (snd (rt_worker_turn rt_env0 rt_arrived)))) =
   peer_stream (se (snd (rt_worker_turn rt_env0 rt_arrived))) (\<lambda>_. [42])
     (unat (last_recv_complete_seq (se (snd (rt_worker_turn rt_env0 rt_arrived)))))"
proof (rule rt_stream_exact [OF rt_env0_ok rt_calls0_ok(1) rt_created rt_started_eq])
  show "honest rt_env0 rt_started (\<lambda>_. [42]) b" if "b = peer_datagram 1 [42]" for b
    using that peer_datagram_honest by simp
  have "rt_step rt_env0 (\<lambda>b. b = peer_datagram 1 [42]) rt_started rt_arrived"
    unfolding rt_arrived_def by (rule rt_step.datagram) (rule refl)
  moreover have "rt_step rt_env0 (\<lambda>b. b = peer_datagram 1 [42]) rt_arrived (snd (rt_worker_turn rt_env0 rt_arrived))"
    by (rule rt_step.turn) (simp_all add: rt_arrived_def rt_started_fields rt_started_far)
  ultimately show "(rt_step rt_env0 (\<lambda>b. b = peer_datagram 1 [42]))\<^sup>*\<^sup>* rt_started (snd (rt_worker_turn rt_env0 rt_arrived))"
    by (meson converse_rtranclp_into_rtranclp r_into_rtranclp)
qed

lemma replicate_4: "replicate 4 x = [x, x, x, x]"
  by (simp add: numeral_eq_Suc)

lemma started_magic: "magic_disconnect (se rt_started) = 0xffffffff00000000"
  by (simp add: rt_started_def rt_start_defs rt_consts rt_fifo_init_cap replicate_4 split: option.split)

lemma halt_handle: "halt (rt_handle_udp_packet env ip port buf t) = halt t"
  by (simp add: rt_handle_udp_packet_def rt_tick64_def accept_segment_def rt_set_disconnected_def rt_signal_result_def
      on_se_def Let_def split: option.split prod.split)

text \<open>Segment 2 has been handled, then segment 1 arrives.\<close>

definition rt_gap :: rudp_transport where
  "rt_gap = rt_handle_udp_packet rt_env0 1 5555 (peer_datagram 2 [43]) (rt_up [])"

definition rt_late :: rudp_transport where
  "rt_late = rt_gap\<lparr>udp_in := udp_in rt_gap @ [(1, 5555, peer_datagram 1 [42])]\<rparr>"

lemma rt_late_turn: "(rt_step rt_env0 (\<lambda>_. True))\<^sup>*\<^sup>* rt_gap (snd (rt_worker_turn rt_env0 rt_late))"
proof -
  have "rt_step rt_env0 (\<lambda>_. True) rt_gap rt_late" unfolding rt_late_def by (rule rt_step.datagram) simp
  moreover have "rt_step rt_env0 (\<lambda>_. True) rt_late (snd (rt_worker_turn rt_env0 rt_late))"
  proof (rule rt_step.turn)
    show "\<not> halt rt_late" by (simp add: rt_late_def rt_gap_def halt_handle rt_up_def rt_started_fields)
    show "seq_far (se rt_late)"
      using handle_gains [OF rt_env0_ok rt_up_inv(1,2), of "[]" "peer_datagram 2 [43]" 1 5555] rt_up_inv(1,2) [of "[]"]
      by (simp add: rt_late_def rt_gap_def gains_def)
  qed
  ultimately show ?thesis by (meson converse_rtranclp_into_rtranclp r_into_rtranclp)
qed

theorem out_of_order_stalls_witness:
  "pair_out (snd (rt_worker_turn rt_env0 rt_late)) @ fifo_bytes (recv_fifo (se (snd (rt_worker_turn rt_env0 rt_late)))) =
     pair_out (rt_up []) @ fifo_bytes (recv_fifo (se (rt_up []))) \<and>
   last_recv_complete_seq (se (snd (rt_worker_turn rt_env0 rt_late))) = last_recv_complete_seq (se (rt_up []))"
proof -
  have l: "last_recv_complete_seq (se rt_started) = 0" using rt_started_fresh by (simp add: fresh_def)
  have o: "open_segment rt_env0 (key_recv (se (rt_up []))) (peer_datagram 2 [43]) =
      Some (1, 1, 0, [], last_recv_complete_seq (se (rt_up [])) + 2, [43])"
    using peer_datagram_opens(1) [of "[43]" 2] l by (simp add: rt_up_def)
  show ?thesis
    by (rule out_of_order_stalls [OF rt_env0_ok rt_up_inv(1,2) _ _ o _ _ _ _ _ _ rt_late_turn [unfolded rt_gap_def]])
      (use peer_datagram_opens(2) [of "[43]" 2] in
        \<open>simp_all add: rt_up_def l started_magic RUDP_T_MAX_SEGMENT_SIZE_def rt_env0_def\<close>)
qed

theorem in_order_delivers_witness:
  "pair_out (rt_interrupt rt_env0 1500 (rt_up [seg42])) = [42] \<and>
   recv_segments (se (rt_interrupt rt_env0 1500 (rt_up [seg42]))) = [] \<and>
   unat (last_recv_complete_seq (se (rt_interrupt rt_env0 1500 (rt_up [seg42])))) = 1"
proof -
  have f: "stream rt_started = []" "last_recv_complete_seq (se rt_started) = 0"
    using rt_started_fresh by (simp_all add: fresh_def)
  then have e: "pair_out rt_started = []" "fifo_bytes (recv_fifo (se rt_started)) = []" by (simp_all add: stream_def)
  have m: "length (magic_req (se rt_started)) = 20" "length (magic_resp (se rt_started)) = 20"
      "fcap (recv_fifo (se rt_started)) = RUDP_T_MAX_FIFO_SIZE"
    using rt_started_fresh by (simp_all add: fresh_def rt_inv_def session_ok_def tables_ok_def)
  have sz: "fsize (recv_fifo (se rt_started)) = 0" using arg_cong [OF e(2), of length] by simp
  have "pair_out (rt_interrupt rt_env0 1500 (rt_up [seg42])) = pair_out (rt_up [seg42]) @
      fifo_bytes (recv_fifo (se (rt_up [seg42]))) @
      concat (map (app_data (se (rt_up [seg42])) \<circ> seg_data) (recv_segments (se (rt_up [seg42])))) \<and>
    recv_segments (se (rt_interrupt rt_env0 1500 (rt_up [seg42]))) = [] \<and>
    unat (last_recv_complete_seq (se (rt_interrupt rt_env0 1500 (rt_up [seg42])))) =
      unat (last_recv_complete_seq (se (rt_up [seg42]))) + length (recv_segments (se (rt_up [seg42])))"
    by (rule in_order_delivers [OF rt_env0_ok rt_up_inv(1,3)])
      (simp_all add: rt_up_def seg42_def f m sz rt_fifo_avail_def rt_consts rt_env0_def rt_started_fields exI [of _ 511])
  then show ?thesis by (simp add: rt_up_def seg42_def e f app_data_def RUDP_T_SHA1_SIZE_def)
qed

definition rt_writing :: rudp_transport where
  "rt_writing = (rt_up [])\<lparr>pair_in := [1, 2, 3]\<rparr>"

theorem send_side_exact_witness:
  "\<exists>new. send_segments (rt_segment_send_fifo (se (rt_pump_pair_to_send rt_env0 rt_writing))) = new \<and>
    fifo_bytes (send_fifo (se rt_writing)) @ [1, 2, 3] = concat (map seg_data new) @
      fifo_bytes (send_fifo (rt_segment_send_fifo (se (rt_pump_pair_to_send rt_env0 rt_writing))))"
proof -
  have i: "rt_inv rt_writing" "seq_room (se rt_writing)"
    using rt_up_inv [of "[]"] rt_inv_cong [of rt_writing "rt_up []"] by (simp_all add: rt_writing_def)
  have cap: "fcap (send_fifo (se rt_started)) = RUDP_T_MAX_FIFO_SIZE"
    using rt_started_fresh by (simp add: fresh_def rt_inv_def session_ok_def tables_ok_def)
  have "fsize (send_fifo (se rt_started)) \<le> 8"
    by (simp add: rt_started_def rt_start_defs rt_consts rt_fifo_init_def rt_fifo_write_def rt_fifo_avail_def split: option.split)
  then have room: "3 \<le> rt_fifo_avail (send_fifo (se rt_writing))"
    using cap by (simp add: rt_writing_def rt_up_def rt_fifo_avail_def rt_consts)
  have p: "pair_in rt_writing = [1, 2, 3]" "send_segments (se rt_writing) = []"
    by (simp_all add: rt_writing_def rt_up_def rt_started_fields)
  have e: "pair_in (rt_pump_pair_to_send rt_env0 rt_writing) = []"
  proof -
    let ?t1 = "rt_writing\<lparr>rcv_i := rcv_i rt_writing + 1, pair_in := []\<rparr>"
    let ?t2 = "on_se (\<lambda>s. case rt_fifo_write (send_fifo s) [1, 2, 3] of None \<Rightarrow> s | Some f \<Rightarrow> s\<lparr>send_fifo := f\<rparr>) ?t1"
    have "fsize (send_fifo (se rt_writing)) < RUDP_T_MAX_FIFO_SIZE" using room cap
      by (simp add: rt_writing_def rt_up_def rt_fifo_avail_def)
    moreover have "recv_pair rt_env0 rt_writing = (Got [1, 2, 3], ?t1)"
      by (simp add: recv_pair_def p rt_env0_def RUDP_T_MAX_SEGMENT_SIZE_def Let_def)
    ultimately have st: "rt_pump_pair_to_send rt_env0 rt_writing = rt_pump_pair_to_send rt_env0 ?t2"
      by (subst rt_pump_pair_to_send.simps) simp
    have "session_ok (se ?t2)"
      using write_or_drop(1) [of "se rt_writing" "[1, 2, 3]"] i(1)
      by (simp add: rt_inv_def on_se_def split: option.splits)
    from pump_pair_chunks [OF this refl, of rt_env0] show ?thesis unfolding st by (auto simp: on_se_def)
  qed
  show ?thesis using send_side_exact [OF rt_env0_ok i refl refl] p room e by auto
qed

definition rt_full :: rudp_transport where
  "rt_full = (rt_up [])\<lparr>pair_in := [1, 2, 3], se := (se (rt_up []))\<lparr>send_fifo :=
     \<lparr>fbuf = replicate RUDP_T_MAX_FIFO_SIZE 0, fcap = RUDP_T_MAX_FIFO_SIZE, fhead = 0, fsize = RUDP_T_MAX_FIFO_SIZE - 1\<rparr>\<rparr>\<rparr>"

theorem full_fifo_loses_bytes_witness:
  "pair_in rt_full = [1, 2, 3] \<and> pair_in (rt_pump_pair_to_send rt_env0 rt_full) = [] \<and>
   send_fifo (se (rt_pump_pair_to_send rt_env0 rt_full)) = send_fifo (se rt_full) \<and>
   send_segments (se (rt_pump_pair_to_send rt_env0 rt_full)) = send_segments (se rt_full) \<and>
   status (se (rt_pump_pair_to_send rt_env0 rt_full)) = RT_STATUS_ESTABLISHED"
proof -
  have s: "status (se rt_full) = RT_STATUS_ESTABLISHED" by (simp add: rt_full_def rt_up_def)
  show ?thesis
    using full_fifo_loses_bytes [of rt_full "[1, 2, 3]" rt_env0] s
    by (simp add: rt_full_def rt_up_def rt_env0_def rt_started_fields rt_consts rt_fifo_avail_def)
qed

theorem connect_descriptors_witness:
  "fst (rudp_transport_connect rt_env0 rt_calls0 (rt_cfg0\<lparr>cfg_udp_fd := 5, cfg_server_port := 0\<rparr>)
      (rt_created\<lparr>open_fds := [5]\<rparr>)) = -1 \<and>
   open_fds (snd (rudp_transport_connect rt_env0 rt_calls0 (rt_cfg0\<lparr>cfg_udp_fd := 5, cfg_server_port := 0\<rparr>)
      (rt_created\<lparr>open_fds := [5]\<rparr>))) = [5]"
proof -
  let ?cfg = "rt_cfg0\<lparr>cfg_udp_fd := 5, cfg_server_port := 0\<rparr>"
  let ?c = "rudp_transport_connect rt_env0 rt_calls0 ?cfg (rt_created\<lparr>open_fds := [5]\<rparr>)"
  have g: "given_fds ?cfg = [5]" by (simp add: given_fds_def)
  have m: "fst ?c = -1" by (simp add: rudp_transport_connect_def)
  have l: "left_open rt_calls0 ?cfg = {#5#}" by (simp add: left_open_def g)
  obtain r t' where c: "?c = (r, t')" by (rule prod.exhaust)
  have "rudp_transport_connect rt_env0 rt_calls0 ?cfg (rt_created\<lparr>open_fds := given_fds ?cfg\<rparr>) = (r, t')"
    unfolding g by (rule c)
  from connect_descriptors [OF rt_created rt_calls0_ok(2) this] m show ?thesis unfolding c l by auto
qed

theorem nonblock_failure_leaks_witness:
  "\<exists>t'. rudp_transport_connect rt_env0 (rt_calls0\<lparr>pair_nonblock_ok := False\<rparr>) rt_cfg0 rt_created = (-1, t') \<and>
     open_fds t' = [6, 7] \<and> worker_fd t' = -1 \<and> app_fd t' = -1"
  by (rule nonblock_failure_leaks [OF rt_created, where fd = 5]) (simp_all add: rt_calls0_def rt_cfg0_def)

theorem icmp_frame_checksum_witness:
  "fold_carry (sum_be (icmp_frame rt_env0 1 2 [1, 2, 3])) = 65535"
  by (rule icmp_frame_checksum) (simp_all add: rt_consts)

end
