(* ===== verification/Dhcp.thy ===== *)
theory Dhcp
  imports Tunnel Checksum "HOL-Library.Monad_Syntax"
begin

text \<open>
  The DHCP client that configures the tunnel (\<^verbatim>\<open>dhcp_client.c\<close>): building DISCOVER and
  REQUEST frames, parsing what comes back, waiting for it, and the exchange with its
  retries. Parsing reads the frame through \<open>rd8\<close> and \<open>rd32\<close>, which are \<open>None\<close> outside it: that
  the parser never is \<open>None\<close> is its memory safety. Frames have at most 2048 bytes, so the
  32-bit offsets of the parser are exact and natural numbers stand for them.
\<close>

section \<open>Data\<close>

definition DHCP_DISCOVER :: byte where "DHCP_DISCOVER = 1"
definition DHCP_OFFER :: nat where "DHCP_OFFER = 2"
definition DHCP_REQUEST :: byte where "DHCP_REQUEST = 3"
definition DHCP_ACK :: nat where "DHCP_ACK = 5"
definition DHCP_NAK :: nat where "DHCP_NAK = 6"

definition OPT_SUBNET_MASK :: byte where "OPT_SUBNET_MASK = 1"
definition OPT_ROUTER :: byte where "OPT_ROUTER = 3"
definition OPT_DNS_SERVER :: byte where "OPT_DNS_SERVER = 6"
definition OPT_REQUESTED_IP :: byte where "OPT_REQUESTED_IP = 50"
definition OPT_LEASE_TIME :: byte where "OPT_LEASE_TIME = 51"
definition OPT_MSG_TYPE :: byte where "OPT_MSG_TYPE = 53"
definition OPT_SERVER_ID :: byte where "OPT_SERVER_ID = 54"
definition OPT_PARAM_REQUEST :: byte where "OPT_PARAM_REQUEST = 55"
definition OPT_END :: byte where "OPT_END = 255"

definition DHCP_MAGIC_COOKIE :: u32 where "DHCP_MAGIC_COOKIE = 0x63825363"
definition DHCP_MIN_LEN :: nat where "DHCP_MIN_LEN = 236"
definition DHCP_MAX_FRAME :: nat where "DHCP_MAX_FRAME = 600"
definition DHCP_TIMEOUT_MS :: nat where "DHCP_TIMEOUT_MS = 5000"
definition DHCP_MAX_RETRIES :: nat where "DHCP_MAX_RETRIES = 3"
definition IP_HLEN :: nat where "IP_HLEN = 20"
definition UDP_HLEN :: nat where "UDP_HLEN = 8"

lemmas dhcp_opts = OPT_SUBNET_MASK_def OPT_ROUTER_def OPT_DNS_SERVER_def OPT_REQUESTED_IP_def
  OPT_LEASE_TIME_def OPT_MSG_TYPE_def OPT_SERVER_ID_def OPT_PARAM_REQUEST_def OPT_END_def

lemmas dhcp_consts = DHCP_DISCOVER_def DHCP_OFFER_def DHCP_REQUEST_def DHCP_ACK_def DHCP_NAK_def
  DHCP_MAGIC_COOKIE_def DHCP_MIN_LEN_def DHCP_MAX_FRAME_def DHCP_TIMEOUT_MS_def
  DHCP_MAX_RETRIES_def IP_HLEN_def UDP_HLEN_def ETH_HEADER_SIZE_def

record dhcp_result_t =
  dr_assigned_ip :: u32
  dr_subnet_mask :: u32
  dr_gateway :: u32
  dr_dns_server :: u32
  dr_dns_server2 :: u32
  dr_lease_time :: u32
  dr_success :: bool

text \<open>\<open>offer\<close> is the result record and the server identifier, which the parser fills.\<close>

type_synonym offer = "dhcp_result_t \<times> u32"

section \<open>Building a frame\<close>

text \<open>The checksum loads 16-bit words in host order (little-endian) and folds twice.\<close>

definition ip_checksum :: "bytes \<Rightarrow> u16" where
  "ip_checksum data = (let sum = u32n (sum_le data);
       sum = sum div 65536 + sum mod 65536;
       sum = sum + sum div 65536
     in NOT (word_of_nat sum))"

definition put_le16 :: "u16 \<Rightarrow> bytes" where
  "put_le16 v = [ucast v, ucast (drop_bit 8 v)]"

definition dhcp_request_options :: "byte \<Rightarrow> u32 \<Rightarrow> u32 \<Rightarrow> bytes" where
  "dhcp_request_options msg_type requested_ip server_id = (if msg_type = DHCP_REQUEST then
       (if requested_ip \<noteq> 0 then [OPT_REQUESTED_IP, 4] @ put_be32 requested_ip else []) @
       (if server_id \<noteq> 0 then [OPT_SERVER_ID, 4] @ put_be32 server_id else [])
     else [])"

definition dhcp_payload :: "bytes \<Rightarrow> u32 \<Rightarrow> byte \<Rightarrow> u32 \<Rightarrow> u32 \<Rightarrow> bytes" where
  "dhcp_payload mac xid msg_type requested_ip server_id =
     [1, 1, 6, 0] @ put_be32 xid @ [0, 0, 0x80, 0] @ replicate 16 0 @ mac @ replicate 202 0 @
     put_be32 DHCP_MAGIC_COOKIE @ [OPT_MSG_TYPE, 1, msg_type] @
     dhcp_request_options msg_type requested_ip server_id @
     [OPT_PARAM_REQUEST, 4, OPT_SUBNET_MASK, OPT_ROUTER, OPT_DNS_SERVER, OPT_LEASE_TIME, OPT_END]"

definition udp_header :: "nat \<Rightarrow> bytes" where
  "udp_header udp_len = [0, 68, 0, 67] @ put_be16 (word_of_nat udp_len) @ [0, 0]"

text \<open>The IP header with its checksum cleared, and with it filled in; \<open>i1\<close>, \<open>i2\<close> are the random identification.\<close>

definition ip_header_clear :: "nat \<Rightarrow> byte \<Rightarrow> byte \<Rightarrow> bytes" where
  "ip_header_clear ip_total_len i1 i2 =
     [0x45, 0] @ put_be16 (word_of_nat ip_total_len) @ [i1, i2, 0, 0, 128, 17, 0, 0, 0, 0, 0, 0, 255, 255, 255, 255]"

definition ip_header :: "nat \<Rightarrow> byte \<Rightarrow> byte \<Rightarrow> bytes" where
  "ip_header ip_total_len i1 i2 = (let ip = ip_header_clear ip_total_len i1 i2
     in take 10 ip @ put_le16 (ip_checksum ip) @ drop 12 ip)"

definition build_dhcp_frame ::
  "nat \<Rightarrow> bytes \<Rightarrow> byte \<Rightarrow> byte \<Rightarrow> u32 \<Rightarrow> byte \<Rightarrow> u32 \<Rightarrow> u32 \<Rightarrow> bytes option" where
  "build_dhcp_frame max_len mac i1 i2 xid msg_type requested_ip server_id =
     (let dhcp = dhcp_payload mac xid msg_type requested_ip server_id;
          udp_len = UDP_HLEN + length dhcp;
          ip_total_len = IP_HLEN + udp_len;
          total_len = ETH_HEADER_SIZE + ip_total_len in
      if total_len > max_len then None
      else Some (replicate 6 0xFF @ mac @ [0x08, 0x00] @
        ip_header ip_total_len i1 i2 @ udp_header udp_len @ dhcp))"

section \<open>Parsing a reply\<close>

definition rd8 :: "bytes \<Rightarrow> nat \<Rightarrow> byte option" where
  "rd8 b i = (if i < length b then Some (b ! i) else None)"

definition rd16 :: "bytes \<Rightarrow> nat \<Rightarrow> u16 option" where
  "rd16 b i = map_option get_be16 (read_at b i 2)"

definition rd32 :: "bytes \<Rightarrow> nat \<Rightarrow> u32 option" where
  "rd32 b i = map_option get_be32 (read_at b i 4)"

text \<open>
  One option: code, length and the position of its value. The result carries the message
  type seen so far.
\<close>

definition dhcp_option :: "bytes \<Rightarrow> byte \<Rightarrow> nat \<Rightarrow> nat \<Rightarrow> nat \<times> offer \<Rightarrow> (nat \<times> offer) option" where
  "dhcp_option dhcp opt len p = (\<lambda>(mt, r, sid).
     if opt = OPT_MSG_TYPE then
       (if len \<ge> 1 then do { v \<leftarrow> rd8 dhcp p; Some (unat v, r, sid) } else Some (mt, r, sid))
     else if opt = OPT_SUBNET_MASK then
       (if len \<ge> 4 then do { v \<leftarrow> rd32 dhcp p; Some (mt, r\<lparr>dr_subnet_mask := v\<rparr>, sid) } else Some (mt, r, sid))
     else if opt = OPT_ROUTER then
       (if len \<ge> 4 then do { v \<leftarrow> rd32 dhcp p; Some (mt, r\<lparr>dr_gateway := v\<rparr>, sid) } else Some (mt, r, sid))
     else if opt = OPT_DNS_SERVER then do {
       r \<leftarrow> (if len \<ge> 4 then do { v \<leftarrow> rd32 dhcp p; Some (r\<lparr>dr_dns_server := v\<rparr>) } else Some r);
       r \<leftarrow> (if len \<ge> 8 then do { v \<leftarrow> rd32 dhcp (p + 4); Some (r\<lparr>dr_dns_server2 := v\<rparr>) } else Some r);
       Some (mt, r, sid) }
     else if opt = OPT_LEASE_TIME then
       (if len \<ge> 4 then do { v \<leftarrow> rd32 dhcp p; Some (mt, r\<lparr>dr_lease_time := v\<rparr>, sid) } else Some (mt, r, sid))
     else if opt = OPT_SERVER_ID then
       (if len \<ge> 4 then do { v \<leftarrow> rd32 dhcp p; Some (mt, r, v) } else Some (mt, r, sid))
     else Some (mt, r, sid))"

function dhcp_options :: "bytes \<Rightarrow> nat \<Rightarrow> nat \<times> offer \<Rightarrow> (nat \<times> offer) option" where
  "dhcp_options dhcp p st =
     (if p < length dhcp then do {
        opt \<leftarrow> rd8 dhcp p;
        if opt = OPT_END then Some st
        else if opt = 0 then dhcp_options dhcp (p + 1) st
        else if p + 1 \<ge> length dhcp then Some st
        else do {
          len \<leftarrow> rd8 dhcp (p + 1);
          if p + 2 + unat len > length dhcp then Some st
          else do {
            st' \<leftarrow> dhcp_option dhcp opt (unat len) (p + 2) st;
            dhcp_options dhcp (p + 2 + unat len) st' } } }
      else Some st)"
  by pat_completeness auto
termination
  by (relation "measure (\<lambda>(dhcp, p, st). length dhcp - p)") auto

declare dhcp_options.simps [simp del]

text \<open>The message type (0: not an answer to us) with what the frame wrote into the result.\<close>

definition parse_dhcp_response :: "bytes \<Rightarrow> u32 \<Rightarrow> bytes \<Rightarrow> offer \<Rightarrow> (nat \<times> offer) option" where
  "parse_dhcp_response frame expected_xid mac = (\<lambda>(r, sid).
     if length frame < ETH_HEADER_SIZE + IP_HLEN + UDP_HLEN + DHCP_MIN_LEN + 4 then Some (0, r, sid)
     else do {
       ethertype \<leftarrow> rd16 frame 12;
       if ethertype \<noteq> 0x0800 then Some (0, r, sid)
       else do {
         ip0 \<leftarrow> rd8 frame ETH_HEADER_SIZE;
         proto \<leftarrow> rd8 frame (ETH_HEADER_SIZE + 9);
         if drop_bit 4 ip0 \<noteq> 4 then Some (0, r, sid)
         else if proto \<noteq> 17 then Some (0, r, sid)
         else do {
           let udp = ETH_HEADER_SIZE + unat (ip0 AND 15) * 4;
           src_port \<leftarrow> rd16 frame udp;
           dst_port \<leftarrow> rd16 frame (udp + 2);
           if src_port \<noteq> 67 \<or> dst_port \<noteq> 68 then Some (0, r, sid)
           else do {
             let dhcp = drop (udp + UDP_HLEN) frame;
             if length dhcp < DHCP_MIN_LEN + 4 then Some (0, r, sid)
             else do {
               op \<leftarrow> rd8 dhcp 0;
               xid \<leftarrow> rd32 dhcp 4;
               chaddr \<leftarrow> read_at dhcp 28 6;
               if op \<noteq> 2 then Some (0, r, sid)
               else if xid \<noteq> expected_xid then Some (0, r, sid)
               else if chaddr \<noteq> mac then Some (0, r, sid)
               else do {
                 yiaddr \<leftarrow> rd32 dhcp 16;
                 let r = r\<lparr>dr_assigned_ip := yiaddr\<rparr>;
                 magic \<leftarrow> rd32 dhcp 236;
                 if magic \<noteq> DHCP_MAGIC_COOKIE then Some (0, r, sid)
                 else dhcp_options dhcp 240 (0, r, sid) } } } } } })"

section \<open>Waiting and the exchange\<close>

text \<open>The sockets the wait looks at when nothing is queued: 0 means it only sleeps.\<close>

definition dhcp_nfds :: "conn_t \<Rightarrow> nat" where
  "dhcp_nfds c = (if can_receive (primary_direction c) then 1 else 0) +
     length (filter (\<lambda>ts. ts_active ts \<and> ts_fd ts \<ge> 0 \<and> can_receive (ts_dir ts)) (take MAX_SE_CONNECTIONS (additional c))) +
     (case conn_rudp c of None \<Rightarrow> 0
      | Some ru \<Rightarrow> if conn_rudp_enabled c \<and> rudp_get_udp_fd ru \<ge> 0 then 1 else 0)"

text \<open>Whether something can be read: \<open>None\<close> is a failed \<^verbatim>\<open>poll\<close>, \<open>Some False\<close> a wait of one interval.\<close>

definition dhcp_poll :: "tun_env \<Rightarrow> tun_t \<Rightarrow> bool option \<times> tun_t" where
  "dhcp_poll env t = (let c = tc t in
     if rcount (recv_queue c) > 0 \<or> socket_fd c < 0 then (Some True, t)
     else if dhcp_nfds c = 0 then (Some False, t)
     else (case polls (cenv env) (poll_i c) of
         Poll_error \<Rightarrow> None | Poll_timeout \<Rightarrow> Some False | Poll_ready _ \<Rightarrow> Some True,
       t\<lparr>tc := c\<lparr>poll_i := poll_i c + 1\<rparr>\<rparr>))"

text \<open>
  The loop, with the time accounted so far. It may go on for as long as frames keep coming,
  so \<open>fuel\<close> bounds the rounds: \<open>None\<close> is a wait that has not returned. The value is the message
  type, -1 for an error, 0 when the time is used up.
\<close>

fun wait_dhcp_response ::
  "nat \<Rightarrow> tun_env \<Rightarrow> u32 \<Rightarrow> nat \<Rightarrow> nat \<Rightarrow> offer \<Rightarrow> tun_t \<Rightarrow> (int \<times> offer \<times> tun_t) option" where
  "wait_dhcp_response 0 env xid timeout_ms elapsed o1 t = None"
| "wait_dhcp_response (Suc n) env xid timeout_ms elapsed o1 t =
     (if elapsed \<ge> timeout_ms then Some (0, o1, t)
      else case dhcp_poll env t of
        (None, t) \<Rightarrow> Some (-1, o1, t)
      | (Some False, t) \<Rightarrow> wait_dhcp_response n env xid timeout_ms (elapsed + 100) o1 t
      | (Some True, t) \<Rightarrow> (case softether_receive_raw env 2048 t of
            (None, t) \<Rightarrow> Some (-1, o1, t)
          | (Some frame, t) \<Rightarrow>
              if frame = [] then wait_dhcp_response n env xid timeout_ms (elapsed + 100) o1 t
              else (case parse_dhcp_response frame xid (client_mac t) o1 of
                  None \<Rightarrow> None
                | Some (mt, o2) \<Rightarrow> if mt > 0 then Some (int mt, o2, t)
                    else wait_dhcp_response n env xid timeout_ms elapsed o2 t)))"

definition dhcp_rand :: "tun_env \<Rightarrow> tun_t \<Rightarrow> nat \<times> tun_t" where
  "dhcp_rand env t = (crand (cenv env) (crnd_i (tc t)), t\<lparr>tc := (tc t)\<lparr>crnd_i := crnd_i (tc t) + 1\<rparr>\<rparr>)"

text \<open>Building and sending one request, and whether both succeeded.\<close>

definition dhcp_send :: "tun_env \<Rightarrow> u32 \<Rightarrow> byte \<Rightarrow> u32 \<Rightarrow> u32 \<Rightarrow> tun_t \<Rightarrow> bool \<times> tun_t" where
  "dhcp_send env xid msg_type ip sid t = (let (r1, t) = dhcp_rand env t; (r2, t) = dhcp_rand env t in
     case build_dhcp_frame DHCP_MAX_FRAME (client_mac t) (word_of_nat r1) (word_of_nat r2) xid msg_type ip sid of
       None \<Rightarrow> (False, t)
     | Some frame \<Rightarrow> (let (r, t) = softether_send_raw env frame t in (r \<noteq> None, t)))"

definition dhcp_zero :: dhcp_result_t where
  "dhcp_zero = \<lparr>dr_assigned_ip = 0, dr_subnet_mask = 0, dr_gateway = 0, dr_dns_server = 0, dr_dns_server2 = 0,
     dr_lease_time = 0, dr_success = False\<rparr>"

text \<open>The retry loop: the return value (0 or -1), the result and the connection.\<close>

fun dhcp_attempts ::
  "nat \<Rightarrow> nat \<Rightarrow> tun_env \<Rightarrow> u32 \<Rightarrow> offer \<Rightarrow> tun_t \<Rightarrow> (int \<times> dhcp_result_t \<times> tun_t) option" where
  "dhcp_attempts fuel 0 env xid o1 t = Some (-1, fst o1, t)"
| "dhcp_attempts fuel (Suc k) env xid o1 t = (let (ok, t) = dhcp_send env xid DHCP_DISCOVER 0 0 t in
     if \<not> ok then Some (-1, fst o1, t)
     else case wait_dhcp_response fuel env xid DHCP_TIMEOUT_MS 0 o1 t of
       None \<Rightarrow> None
     | Some (mt, o2, t) \<Rightarrow>
         if mt < 0 then Some (-1, fst o2, t)
         else if mt \<noteq> int DHCP_OFFER then dhcp_attempts fuel k env xid o2 t
         else let (ok, t) = dhcp_send env xid DHCP_REQUEST (dr_assigned_ip (fst o2)) (snd o2) t in
           if \<not> ok then Some (-1, fst o2, t)
           else case wait_dhcp_response fuel env xid DHCP_TIMEOUT_MS 0 o2 t of
             None \<Rightarrow> None
           | Some (mt, o3, t) \<Rightarrow>
               if mt < 0 then Some (-1, fst o3, t)
               else if mt = int DHCP_ACK then Some (0, (fst o3)\<lparr>dr_success := True\<rparr>, t)
               else if mt = int DHCP_NAK then Some (-1, fst o3, t)
               else dhcp_attempts fuel k env xid o3 t)"

text \<open>
  \<^verbatim>\<open>xid\<close> combines two random numbers; the caller's result \<open>r0\<close> is zeroed once the state has
  been checked.
\<close>

definition softether_do_dhcp ::
  "nat \<Rightarrow> tun_env \<Rightarrow> dhcp_result_t \<Rightarrow> tun_t \<Rightarrow> (int \<times> dhcp_result_t \<times> tun_t) option" where
  "softether_do_dhcp fuel env r0 t =
     (if cstate (tc t) \<noteq> STATE_CONNECTED then Some (-1, r0, t)
      else let (r1, t) = dhcp_rand env t; (r2, t) = dhcp_rand env t;
               xid = push_bit 16 (word_of_nat r1) XOR word_of_nat r2
           in dhcp_attempts fuel DHCP_MAX_RETRIES env xid (dhcp_zero, 0) t)"

section \<open>Memory safety of the parser\<close>

lemma rd_defined:
  "i < length b \<Longrightarrow> \<exists>v. rd8 b i = Some v" "i + 2 \<le> length b \<Longrightarrow> \<exists>v. rd16 b i = Some v"
  "i + 4 \<le> length b \<Longrightarrow> \<exists>v. rd32 b i = Some v" "i + n \<le> length b \<Longrightarrow> \<exists>v. read_at b i n = Some v"
  by (simp_all add: rd8_def rd16_def rd32_def read_at_def)

lemma dhcp_option_defined:
  assumes "p + len \<le> length dhcp"
  shows "\<exists>st'. dhcp_option dhcp opt len p st = Some st'"
proof -
  have "1 \<le> len \<Longrightarrow> \<exists>v. rd8 dhcp p = Some v" "4 \<le> len \<Longrightarrow> \<exists>v. rd32 dhcp p = Some v"
      "8 \<le> len \<Longrightarrow> \<exists>v. rd32 dhcp (p + 4) = Some v"
    using assms by (auto intro!: rd_defined)
  then show ?thesis
    by (cases st) (cases "8 \<le> len"; cases "4 \<le> len"; cases "1 \<le> len"; auto simp: dhcp_option_def)
qed

lemma dhcp_options_defined: "dhcp_options dhcp p st \<noteq> None"
proof (induction dhcp p st rule: dhcp_options.induct)
  case (1 dhcp p st)
  show ?case
  proof (cases "p + 1 < length dhcp")
    case True
    let ?o = "dhcp ! p" and ?l = "unat (dhcp ! (p + 1))"
    have r: "rd8 dhcp p = Some ?o" "rd8 dhcp (p + 1) = Some (dhcp ! (p + 1))" using True by (simp_all add: rd8_def)
    show ?thesis
    proof (cases "?o \<noteq> OPT_END \<and> ?o \<noteq> 0 \<and> p + 2 + ?l \<le> length dhcp")
      case ok: True
      then obtain st' where st': "dhcp_option dhcp ?o ?l (p + 2) st = Some st'" using dhcp_option_defined by blast
      have "dhcp_options dhcp (p + 2 + ?l) st' \<noteq> None" by (rule 1(2) [OF _ r(1) _ _ _ r(2) _ st']) (use True ok in simp_all)
      then show ?thesis using True ok r st' by (subst dhcp_options.simps) simp
    next
      case False
      have "?o \<noteq> OPT_END \<Longrightarrow> ?o = 0 \<Longrightarrow> dhcp_options dhcp (p + 1) st \<noteq> None"
        by (rule 1(1) [OF _ r(1)]) (use True in simp_all)
      then show ?thesis using True r False by (cases st, subst dhcp_options.simps) auto
    qed
  next
    case False
    have "p < length dhcp \<Longrightarrow> dhcp ! p \<noteq> OPT_END \<Longrightarrow> dhcp ! p = 0 \<Longrightarrow> dhcp_options dhcp (p + 1) st \<noteq> None"
      by (rule 1(1)) (simp_all add: rd8_def)
    with False show ?thesis by (cases st, subst dhcp_options.simps) (auto simp: rd8_def)
  qed
qed

lemma parse_dhcp_defined: "parse_dhcp_response frame xid mac o1 \<noteq> None"
proof (cases "length frame < ETH_HEADER_SIZE + IP_HLEN + UDP_HLEN + DHCP_MIN_LEN + 4")
  case True
  then show ?thesis by (cases o1) (simp add: parse_dhcp_response_def)
next
  case False
  then have len: "282 \<le> length frame" by (simp add: dhcp_consts)
  obtain et ip0 pr where r: "rd16 frame 12 = Some et" "rd8 frame 14 = Some ip0" "rd8 frame 23 = Some pr"
    using rd_defined(1) [of 14 frame] rd_defined(1) [of 23 frame] rd_defined(2) [of 12 frame] len by auto
  let ?udp = "14 + unat (ip0 AND 15) * 4"
  have "unat (ip0 AND 15) \<le> 15"
  proof -
    have "ip0 AND 15 \<le> 15" by (rule word_and_le1)
    then show ?thesis by (simp add: word_le_nat_alt)
  qed
  then obtain sp dp where u: "rd16 frame ?udp = Some sp" "rd16 frame (?udp + 2) = Some dp"
    using rd_defined(2) [of ?udp frame] rd_defined(2) [of "?udp + 2" frame] len by auto
  let ?d = "drop (?udp + 8) frame"
  have "\<exists>op x ch yi m. rd8 ?d 0 = Some op \<and> rd32 ?d 4 = Some x \<and> read_at ?d 28 6 = Some ch \<and>
      rd32 ?d 16 = Some yi \<and> rd32 ?d 236 = Some m" if "240 \<le> length ?d"
    using rd_defined(1) [of 0 ?d] rd_defined(3) [of 4 ?d] rd_defined(4) [of 28 6 ?d]
      rd_defined(3) [of 16 ?d] rd_defined(3) [of 236 ?d] that by auto
  then show ?thesis
    using False r u dhcp_options_defined [of ?d 240]
    by (cases o1) (cases "240 \<le> length ?d"; auto simp: parse_dhcp_response_def dhcp_consts Let_def)
qed

section \<open>Replies\<close>

text \<open>What an option means, and the encoding of a list of options.\<close>

definition apply_option :: "byte \<times> bytes \<Rightarrow> nat \<times> offer \<Rightarrow> nat \<times> offer" where
  "apply_option = (\<lambda>(opt, d) (mt, r, sid).
     if opt = OPT_MSG_TYPE then (if d = [] then mt else unat (d ! 0), r, sid)
     else if opt = OPT_SUBNET_MASK then (mt, if length d \<ge> 4 then r\<lparr>dr_subnet_mask := get_be32 d\<rparr> else r, sid)
     else if opt = OPT_ROUTER then (mt, if length d \<ge> 4 then r\<lparr>dr_gateway := get_be32 d\<rparr> else r, sid)
     else if opt = OPT_DNS_SERVER then
       (let r = (if length d \<ge> 4 then r\<lparr>dr_dns_server := get_be32 d\<rparr> else r);
            r = (if length d \<ge> 8 then r\<lparr>dr_dns_server2 := get_be32 (drop 4 d)\<rparr> else r) in (mt, r, sid))
     else if opt = OPT_LEASE_TIME then (mt, if length d \<ge> 4 then r\<lparr>dr_lease_time := get_be32 d\<rparr> else r, sid)
     else if opt = OPT_SERVER_ID then (mt, r, if length d \<ge> 4 then get_be32 d else sid)
     else (mt, r, sid))"

definition enc_options :: "(byte \<times> bytes) list \<Rightarrow> bytes" where
  "enc_options opts = concat (map (\<lambda>(c, d). c # word_of_nat (length d) # d) opts) @ [OPT_END]"

definition options_ok :: "(byte \<times> bytes) list \<Rightarrow> bool" where
  "options_ok opts \<longleftrightarrow> (\<forall>(c, d) \<in> set opts. c \<noteq> 0 \<and> c \<noteq> OPT_END \<and> length d \<le> 255)"

lemma rd_append:
  "i = length pre \<Longrightarrow> rd8 (pre @ x # r) i = Some x"
  "i = length pre + 1 \<Longrightarrow> rd8 (pre @ y # x # r) i = Some x"
  by (auto simp: rd8_def nth_append)

lemma rd32_at:
  assumes "k + 4 \<le> length d" "p = length pre + k"
  shows "rd32 (pre @ d @ r) p = Some (get_be32 (drop k d))"
proof -
  have "take 4 (drop p (pre @ d @ r)) = take 4 (drop k d)" using assms by simp
  then show ?thesis
    using assms be32.dec_take [of "drop k d"] by (simp add: rd32_def read_at_def)
qed

lemma dhcp_option_apply:
  assumes "p = length pre"
  shows "dhcp_option (pre @ d @ r) opt (length d) p st = Some (apply_option (opt, d) st)"
proof -
  obtain mt res sid where st: "st = (mt, res, sid)" by (cases st) auto
  have "rd8 (pre @ d @ r) p = Some (d ! 0)" if "1 \<le> length d"
    using that assms by (cases d) (simp_all add: rd8_def nth_append)
  moreover have "rd32 (pre @ d @ r) p = Some (get_be32 d)" if "4 \<le> length d"
    using rd32_at [of 0 d p pre r] that assms by simp
  moreover have "rd32 (pre @ d @ r) (p + 4) = Some (get_be32 (drop 4 d))" if "8 \<le> length d"
    using rd32_at [of 4 d "p + 4" pre r] that assms by simp
  ultimately show ?thesis
    unfolding st by (cases d) (auto simp: dhcp_option_def apply_option_def Let_def)
qed

lemma dhcp_options_enc:
  assumes "options_ok opts" "p = length pre"
  shows "dhcp_options (pre @ enc_options opts @ r) p st = Some (fold apply_option opts st)"
  using assms
proof (induction opts arbitrary: pre p st)
  case Nil
  then show ?case
    by (subst dhcp_options.simps) (simp add: enc_options_def rd_append)
next
  case (Cons x opts)
  obtain c d where x: "x = (c, d)" by (cases x)
  have ok: "c \<noteq> 0" "c \<noteq> OPT_END" "length d \<le> 255" "options_ok opts"
    using Cons.prems(1) by (auto simp: options_ok_def x)
  let ?l = "word_of_nat (length d) :: byte"
  have l: "unat ?l = length d" using ok(3) by (simp add: unat_of_nat)
  let ?pre = "pre @ [c, ?l]"
  let ?e = "pre @ enc_options (x # opts) @ r"
  have e1: "?e = pre @ c # ?l # d @ enc_options opts @ r" by (simp add: enc_options_def x)
  have e2: "?e = ?pre @ d @ enc_options opts @ r" "?e = (?pre @ d) @ enc_options opts @ r"
    by (simp_all add: e1)
  have rd: "rd8 ?e p = Some c" "rd8 ?e (p + 1) = Some ?l"
    unfolding e1 using Cons.prems(2) by (simp_all add: rd_append)
  have o: "dhcp_option ?e c (length d) (p + 2) st = Some (apply_option x st)"
    unfolding e2(1) unfolding x by (rule dhcp_option_apply) (use Cons.prems(2) in simp)
  have ih: "dhcp_options ?e (p + 2 + length d) (apply_option x st) = Some (fold apply_option opts (apply_option x st))"
    unfolding e2(2) by (rule Cons.IH [OF ok(4)]) (use Cons.prems(2) in simp)
  have len: "p + 2 + length d \<le> length ?e" unfolding e2(1) using Cons.prems(2) by simp
  show ?case
    using rd o ih len ok(1,2) l by (subst dhcp_options.simps) simp
qed

text \<open>A server's reply: Ethernet, IP and UDP headers and the BOOTP part, then the options.\<close>

definition dhcp_reply :: "bytes \<Rightarrow> u32 \<Rightarrow> u32 \<Rightarrow> (byte \<times> bytes) list \<Rightarrow> bytes" where
  "dhcp_reply mac xid yiaddr opts =
     (replicate 12 0 @ [0x08, 0x00, 0x45] @ replicate 8 0 @ [17] @ replicate 10 0 @ [0, 67, 0, 68, 0, 0, 0, 0]) @
     ([2, 1, 6, 0] @ put_be32 xid @ replicate 8 0 @ put_be32 yiaddr @ replicate 8 0 @ mac @ replicate 202 0 @
      put_be32 DHCP_MAGIC_COOKIE) @ enc_options opts"

lemma parse_dhcp_reply:
  assumes mac: "length mac = 6" and ok: "options_ok opts"
  shows "parse_dhcp_response (dhcp_reply mac xid yiaddr opts) xid mac (r, sid) =
    Some (fold apply_option opts (0, r\<lparr>dr_assigned_ip := yiaddr\<rparr>, sid))"
proof -
  let ?e = "enc_options opts"
  define h where "h = (replicate 12 0 @ [0x08, 0x00, 0x45] @ replicate 8 0 @ [17] @ replicate 10 0 @ [0, 67, 0, 68, 0, 0, 0, 0] :: bytes)"
  define b where "b = [2, 1, 6, 0] @ put_be32 xid @ replicate 8 0 @ put_be32 yiaddr @ replicate 8 0 @ mac @ replicate 202 0 @
      put_be32 DHCP_MAGIC_COOKIE"
  let ?d = "b @ ?e" and ?f = "h @ b @ ?e"
  have f: "dhcp_reply mac xid yiaddr opts = ?f" by (simp add: dhcp_reply_def h_def b_def)
  have len: "length h = 42" "length b = 240" using mac by (simp_all add: h_def b_def)
  have hd: "rd16 ?f 12 = Some 0x0800" "rd8 ?f 14 = Some 0x45" "rd8 ?f 23 = Some 17"
      "rd16 ?f 34 = Some 67" "rd16 ?f 36 = Some 68"
    by (simp_all add: rd16_def rd8_def read_at_def h_def nth_append)
  have dr: "drop 42 ?f = ?d" using len by simp
  have x: "rd32 ?d 4 = Some xid"
    using rd32_at [of 0 "put_be32 xid" 4 "[2, 1, 6, 0]"] by (simp add: b_def)
  have y: "rd32 ?d 16 = Some yiaddr"
    using rd32_at [of 0 "put_be32 yiaddr" 16 "[2, 1, 6, 0] @ put_be32 xid @ replicate 8 0"] by (simp add: b_def)
  have m: "rd32 ?d 236 = Some DHCP_MAGIC_COOKIE"
    using rd32_at [of 0 "put_be32 DHCP_MAGIC_COOKIE" 236
        "[2, 1, 6, 0] @ put_be32 xid @ replicate 8 0 @ put_be32 yiaddr @ replicate 8 0 @ mac @ replicate 202 0"] mac
    by (simp add: b_def)
  have c: "read_at ?d 28 6 = Some mac" "rd8 ?d 0 = Some 2"
    using mac by (simp_all add: read_at_def rd8_def b_def)
  have "dhcp_options ?d 240 (0, r\<lparr>dr_assigned_ip := yiaddr\<rparr>, sid) =
      Some (fold apply_option opts (0, r\<lparr>dr_assigned_ip := yiaddr\<rparr>, sid))"
    using dhcp_options_enc [OF ok, of 240 b "[]"] len by simp
  then show ?thesis
    unfolding f using hd len x y m c
    by (simp add: parse_dhcp_response_def dhcp_consts dr)
qed

section \<open>Waiting on queued frames\<close>

lemma send_raw_mac [simp]: "client_mac (snd (softether_send_raw env fr t)) = client_mac t"
  by (simp add: softether_send_raw_def softether_send_data_def Let_def case_prod_beta)

lemma dhcp_rand_frame [simp]:
  "recv_queue (tc (snd (dhcp_rand env t))) = recv_queue (tc t)" "cstate (tc (snd (dhcp_rand env t))) = cstate (tc t)"
  "client_mac (snd (dhcp_rand env t)) = client_mac t"
  by (simp_all add: dhcp_rand_def)

lemma dhcp_send_frame:
  "recv_queue (tc (snd (dhcp_send env xid m ip sid t))) = recv_queue (tc t)"
  "cstate (tc (snd (dhcp_send env xid m ip sid t))) = cstate (tc t)"
  "client_mac (snd (dhcp_send env xid m ip sid t)) = client_mac t"
  by (simp_all add: dhcp_send_def Let_def case_prod_beta split: option.split)

lemma dequeue_frame [simp]:
  "cstate (tc (dequeue t)) = cstate (tc t)" "client_mac (dequeue t) = client_mac t"
  by (simp_all add: dequeue_def)

lemma dequeues_frame:
  "cstate (tc ((dequeue ^^ n) t)) = cstate (tc t)" "client_mac ((dequeue ^^ n) t) = client_mac t"
  by (induction n) simp_all

lemma dequeues_queue:
  "queue_ok t \<Longrightarrow> queued t = xs @ ys \<Longrightarrow> queued ((dequeue ^^ length xs) t) = ys \<and> queue_ok ((dequeue ^^ length xs) t)"
proof (induction xs arbitrary: ys rule: rev_induct)
  case (snoc x xs)
  then have "queued ((dequeue ^^ length xs) t) = x # ys" "queue_ok ((dequeue ^^ length xs) t)" by simp_all
  then show ?case using queued_dequeue by simp
qed simp

text \<open>One round on a queued frame.\<close>

lemma wait_round:
  assumes "queue_ok t" "queued t = fr # q" "cstate (tc t) = STATE_CONNECTED" "fr \<noteq> []" "elapsed < timeout_ms"
    "parse_dhcp_response fr xid (client_mac t) o1 = Some (mt, o2)"
  shows "wait_dhcp_response (Suc n) env xid timeout_ms elapsed o1 t =
    (if mt > 0 then Some (int mt, o2, dequeue t)
     else wait_dhcp_response n env xid timeout_ms elapsed o2 (dequeue t))"
proof -
  have "dhcp_poll env t = (Some True, t)"
    using queued_count [OF assms(2)] by (simp add: dhcp_poll_def Let_def)
  then show ?thesis using assms receive_raw_queued [OF assms(1-3), of env] by simp
qed

declare wait_dhcp_response.simps [simp del]

text \<open>
  Frames that are not answers to us are skipped, without any of the waiting time being
  counted; the first answer ends the wait.
\<close>

definition foreign :: "u32 \<Rightarrow> bytes \<Rightarrow> bytes \<Rightarrow> bool" where
  "foreign xid mac fr \<longleftrightarrow> fr \<noteq> [] \<and> (\<forall>o1. parse_dhcp_response fr xid mac o1 = Some (0, o1))"

lemma wait_skips:
  assumes "queue_ok t" "queued t = xs @ q" "cstate (tc t) = STATE_CONNECTED" "elapsed < timeout_ms"
    "\<forall>x \<in> set xs. foreign xid (client_mac t) x"
  shows "wait_dhcp_response (length xs + n) env xid timeout_ms elapsed o1 t =
    wait_dhcp_response n env xid timeout_ms elapsed o1 ((dequeue ^^ length xs) t)"
  using assms
proof (induction xs arbitrary: t)
  case (Cons x xs)
  have p: "x \<noteq> []" "parse_dhcp_response x xid (client_mac t) o1 = Some (0, o1)"
    using Cons.prems(5) by (cases o1; simp add: foreign_def)+
  have "queued t = x # xs @ q" using Cons.prems(2) by simp
  note r = wait_round [OF Cons.prems(1) this Cons.prems(3) p(1) Cons.prems(4) p(2), of "length xs + n" env]
    and d = queued_dequeue [OF Cons.prems(1) this]
  have "(dequeue ^^ length (x # xs)) t = (dequeue ^^ length xs) (dequeue t)"
    by (simp add: funpow_swap1)
  then show ?case using r Cons.IH [OF d(2,1)] Cons.prems(3-5) by simp
qed simp

lemma wait_finds:
  assumes "queue_ok t" "queued t = xs @ fr # q" "cstate (tc t) = STATE_CONNECTED" "elapsed < timeout_ms"
    "\<forall>x \<in> set xs. foreign xid (client_mac t) x" "fr \<noteq> []" "length xs < n"
    "parse_dhcp_response fr xid (client_mac t) o1 = Some (mt, o2)" "mt > 0"
  shows "wait_dhcp_response n env xid timeout_ms elapsed o1 t =
    Some (int mt, o2, (dequeue ^^ Suc (length xs)) t)"
proof -
  obtain k where n: "n = length xs + Suc k" using assms(7) by (metis less_iff_Suc_add add_Suc_right)
  note d = dequeues_queue [OF assms(1,2)]
  have "wait_dhcp_response (Suc k) env xid timeout_ms elapsed o1 ((dequeue ^^ length xs) t) =
      Some (int mt, o2, dequeue ((dequeue ^^ length xs) t))"
    using wait_round [of "(dequeue ^^ length xs) t" fr q elapsed timeout_ms xid o1 mt o2 k env] d assms(3,4,6,8,9)
    by (simp add: dequeues_frame)
  then show ?thesis unfolding n wait_skips [OF assms(1-5)] by simp
qed

section \<open>Properties\<close>

text \<open>
  C17: the DHCP parser stays inside the frame: whatever bytes arrive, of whatever length, no
  read of the parser is outside the frame it was given, and it always returns.
\<close>

theorem dhcp_parse_safe:
  "\<exists>mt o2. parse_dhcp_response frame xid mac o1 = Some (mt, o2)"
  using parse_dhcp_defined [of frame xid mac o1] by (cases "parse_dhcp_response frame xid mac o1") auto

text \<open>
  A reply to this client is read as its server wrote it: for every list of options, the
  parser yields the offered address and exactly what the options say, applied in order (the
  last occurrence of an option wins, unknown ones and values too short are passed over).
\<close>

theorem dhcp_reply_parsed:
  assumes "length mac = 6" "options_ok opts"
  shows "parse_dhcp_response (dhcp_reply mac xid yiaddr opts) xid mac (r, sid) =
    Some (fold apply_option opts (0, r\<lparr>dr_assigned_ip := yiaddr\<rparr>, sid))"
  by (rule parse_dhcp_reply [OF assms])

lemma apply_options_ip: "dr_assigned_ip (fst (snd (fold apply_option opts st))) = dr_assigned_ip (fst (snd st))"
proof (induction opts arbitrary: st)
  case (Cons x opts)
  have "dr_assigned_ip (fst (snd (apply_option x st))) = dr_assigned_ip (fst (snd st))"
    by (cases x; cases st) (simp add: apply_option_def Let_def)
  with Cons show ?case by simp
qed simp

lemma dhcp_reply_nonempty: "dhcp_reply mac xid ip opts \<noteq> []"
  by (simp add: dhcp_reply_def)

text \<open>Waiting for a reply that is in the queue, behind frames for others.\<close>

lemma wait_reply:
  assumes t: "queue_ok t" "cstate (tc t) = STATE_CONNECTED" "client_mac t = mac" "length mac = 6"
    and q: "queued t = xs @ dhcp_reply mac xid ip opts # ys" and ok: "options_ok opts"
    and other: "\<forall>x \<in> set xs. foreign xid mac x" and fuel: "length xs < fuel"
    and ap: "fold apply_option opts (0, r\<lparr>dr_assigned_ip := ip\<rparr>, sid) = (mt, r', sid')" "mt > 0"
  shows "wait_dhcp_response fuel env xid DHCP_TIMEOUT_MS 0 (r, sid) t =
      Some (int mt, (r', sid'), (dequeue ^^ Suc (length xs)) t)"
    "queued ((dequeue ^^ Suc (length xs)) t) = ys" "queue_ok ((dequeue ^^ Suc (length xs)) t)"
proof -
  have p: "parse_dhcp_response (dhcp_reply mac xid ip opts) xid (client_mac t) (r, sid) = Some (mt, (r', sid'))"
    unfolding t(3) parse_dhcp_reply [OF t(4) ok] ap(1) ..
  have f: "\<forall>x \<in> set xs. foreign xid (client_mac t) x" using other t(3) by simp
  have z: "0 < DHCP_TIMEOUT_MS" by (simp add: DHCP_TIMEOUT_MS_def)
  show "wait_dhcp_response fuel env xid DHCP_TIMEOUT_MS 0 (r, sid) t =
      Some (int mt, (r', sid'), (dequeue ^^ Suc (length xs)) t)"
    by (rule wait_finds [OF t(1) q t(2) z f dhcp_reply_nonempty fuel p ap(2)])
  have "queued t = (xs @ [dhcp_reply mac xid ip opts]) @ ys" using q by simp
  from dequeues_queue [OF t(1) this]
  show "queued ((dequeue ^^ Suc (length xs)) t) = ys" "queue_ok ((dequeue ^^ Suc (length xs)) t)" by simp_all
qed

lemma attempt_succeeds:
  assumes "dhcp_send env xid DHCP_DISCOVER 0 0 t = (True, t2)"
    "wait_dhcp_response fuel env xid DHCP_TIMEOUT_MS 0 o1 t2 = Some (int DHCP_OFFER, (r1, s1), u)"
    "dhcp_send env xid DHCP_REQUEST (dr_assigned_ip r1) s1 u = (True, t3)"
    "wait_dhcp_response fuel env xid DHCP_TIMEOUT_MS 0 (r1, s1) t3 = Some (int DHCP_ACK, (r2, s2), v)"
  shows "dhcp_attempts fuel (Suc k) env xid o1 t = Some (0, r2\<lparr>dr_success := True\<rparr>, v)"
  using assms by (simp add: DHCP_OFFER_def DHCP_ACK_def)

lemma dhcp_send_queue:
  assumes "dhcp_send env xid m ip sid t = (True, t')" "queue_ok t"
  shows "queue_ok t'" "queued t' = queued t" "cstate (tc t') = cstate (tc t)" "client_mac t' = client_mac t"
  using dhcp_send_frame [of env xid m ip sid t] queued_cong [of t' t] assms by simp_all

lemma ip_checksum_value:
  assumes "sum_le d < 2 ^ 32"
  shows "unat (ip_checksum d) = 65535 - fold16 (fold16 (sum_le d))"
proof -
  let ?s = "sum_le d"
  have u: "u32n ?s = ?s" using assms by simp
  have "?s div 65536 + ?s mod 65536 = fold16 ?s" by (simp add: fold16_def)
  then have "ip_checksum d = NOT (word_of_nat (fold16 ?s + fold16 ?s div 65536))"
    by (simp only: ip_checksum_def u Let_def)
  then show ?thesis using fold16_twice(1) [OF assms] by (simp add: unat_not16 unat_of_nat del: of_nat_add)
qed

lemma dhcp_payload_length:
  "length mac = 6 \<Longrightarrow> 240 \<le> length (dhcp_payload mac xid m ip sid) \<and> length (dhcp_payload mac xid m ip sid) \<le> 262"
  by (simp add: dhcp_payload_def dhcp_request_options_def)

lemma build_dhcp_total:
  assumes "length mac = 6"
  shows "\<exists>fr. build_dhcp_frame DHCP_MAX_FRAME mac i1 i2 xid m ip sid = Some fr \<and> fr \<noteq> [] \<and> length fr \<le> DHCP_MAX_FRAME"
  using dhcp_payload_length [OF assms, of xid m ip sid] assms
  by (simp add: build_dhcp_frame_def dhcp_consts Let_def ip_header_def ip_header_clear_def put_le16_def udp_header_def)

text \<open>
  The frames the client sends are well formed: a DISCOVER or REQUEST fits the 600-byte
  buffer, its IP header says the length it has, the header checksum (stored in host order, as
  it was summed) makes the 16-bit words of the header add up to all ones, and the magic cookie
  and the options stand at their places.
\<close>

theorem dhcp_frame_wellformed:
  assumes "length mac = 6"
  shows "\<exists>frame. build_dhcp_frame DHCP_MAX_FRAME mac i1 i2 xid msg_type ip sid = Some frame \<and>
    length frame \<le> DHCP_MAX_FRAME \<and>
    unat (get_be16 (drop 16 frame)) = length frame - ETH_HEADER_SIZE \<and>
    fold_carry (sum_le (take 20 (drop 14 frame))) = 65535 \<and>
    get_be32 (drop 46 frame) = xid \<and> get_be32 (drop 278 frame) = DHCP_MAGIC_COOKIE"
proof -
  let ?d = "dhcp_payload mac xid msg_type ip sid"
  let ?n = "IP_HLEN + (UDP_HLEN + length ?d)"
  let ?ip = "ip_header_clear ?n i1 i2"
  let ?f = "replicate 6 0xFF @ mac @ [0x08, 0x00] @ ip_header ?n i1 i2 @ udp_header (UDP_HLEN + length ?d) @ ?d"
  have ld: "length ?d \<le> 262" "240 \<le> length ?d"
    using dhcp_payload_length [OF assms] by simp_all
  have li: "length ?ip = 20" "length (ip_header ?n i1 i2) = 20"
    by (simp_all add: ip_header_def ip_header_clear_def put_le16_def Let_def)
  have lf: "length ?f = 42 + length ?d" using assms li by (simp add: udp_header_def)
  have b: "build_dhcp_frame DHCP_MAX_FRAME mac i1 i2 xid msg_type ip sid = Some ?f"
    using ld by (simp add: build_dhcp_frame_def dhcp_consts Let_def)
  have un: "unat (word_of_nat ?n :: u16) = ?n" using ld by (simp add: unat_of_nat dhcp_consts del: of_nat_add)
  have "drop 16 ?f = put_be16 (word_of_nat ?n) @ drop 18 ?f"
    using assms by (simp add: ip_header_def ip_header_clear_def put_be16_def Let_def)
  then have len: "unat (get_be16 (drop 16 ?f)) = length ?f - ETH_HEADER_SIZE"
    using un lf by (simp add: dhcp_consts)
  have hd: "take 20 (drop 14 ?f) = ip_header ?n i1 i2" using assms li by simp
  let ?s = "sum_le ?ip"
  have s: "?s < 2 ^ 32" using sum_le_le [of ?ip] li by simp
  note c = ip_checksum_value [OF s] fold16_twice(2,3) [OF s]
  have "sum_le (ip_header ?n i1 i2) = ?s + unat (ip_checksum ?ip)"
    using be16_value [of "ip_checksum ?ip"]
    by (simp add: ip_header_def [of ?n] ip_header_clear_def [of ?n] put_le16_def put_be16_def Let_def)
  then have "fold_carry (sum_le (ip_header ?n i1 i2)) = 65535"
    using complement_check [OF c(2,3)] c(1)
    by (intro mod_65535_folded) (simp_all add: ip_header_clear_def [of ?n] put_be16_def)
  moreover have "drop 46 ?f = put_be32 xid @ drop 50 ?f" "drop 278 ?f = put_be32 DHCP_MAGIC_COOKIE @ drop 282 ?f"
    using assms li by (simp_all add: udp_header_def dhcp_payload_def)
  then have "get_be32 (drop 46 ?f) = xid" "get_be32 (drop 278 ?f) = DHCP_MAGIC_COOKIE" by simp_all
  ultimately show ?thesis
    using b len hd lf ld by (intro exI [of _ ?f]) (simp add: DHCP_MAX_FRAME_def)
qed

text \<open>
  C18: the exchange succeeds when the server answers: with a connected tunnel whose queue holds,
  among frames for others, an OFFER and then an ACK for this transaction, and whose sends
  succeed, DHCP returns 0 with the address of the ACK and with the options of the OFFER
  overlaid by those of the ACK, having taken the frames up to the ACK and no more.
\<close>

theorem dhcp_handshake:
  fixes env t
  defines "t1 \<equiv> snd (dhcp_rand env (snd (dhcp_rand env t)))"
    and "xid \<equiv> push_bit 16 (word_of_nat (fst (dhcp_rand env t))) XOR
      word_of_nat (fst (dhcp_rand env (snd (dhcp_rand env t)))) :: u32"
  assumes t: "queue_ok t" "cstate (tc t) = STATE_CONNECTED" "length (client_mac t) = 6"
    and q: "queued t = xs @ dhcp_reply (client_mac t) xid ip1 opts1 # ys @ dhcp_reply (client_mac t) xid ip2 opts2 # zs"
    and ok: "options_ok opts1" "options_ok opts2"
    and other: "\<forall>x \<in> set xs. foreign xid (client_mac t) x" "\<forall>y \<in> set ys. foreign xid (client_mac t) y"
    and offer: "fold apply_option opts1 (0, dhcp_zero\<lparr>dr_assigned_ip := ip1\<rparr>, 0) = (DHCP_OFFER, r1, sid1)"
    and ack: "fold apply_option opts2 (0, r1\<lparr>dr_assigned_ip := ip2\<rparr>, sid1) = (DHCP_ACK, r2, sid2)"
    and sent1: "dhcp_send env xid DHCP_DISCOVER 0 0 t1 = (True, t2)"
    and sent2: "dhcp_send env xid DHCP_REQUEST ip1 sid1 ((dequeue ^^ Suc (length xs)) t2) = (True, t3)"
    and fuel: "length xs < fuel" "length ys < fuel"
  shows "\<exists>t'. softether_do_dhcp fuel env r0 t = Some (0, r2\<lparr>dr_success := True\<rparr>, t') \<and>
    dr_assigned_ip r2 = ip2 \<and> queued t' = zs"
proof -
  let ?m = "client_mac t"
  have "queue_ok t1" "queued t1 = queued t" "cstate (tc t1) = STATE_CONNECTED" "client_mac t1 = ?m"
    using queued_cong [of t1 t] t(1,2) by (simp_all add: t1_def)
  then have t2: "queue_ok t2" "cstate (tc t2) = STATE_CONNECTED" "client_mac t2 = ?m" "queued t2 = queued t"
    using dhcp_send_queue [OF sent1] by simp_all
  define d where "d = (dequeue ^^ Suc (length xs)) t2"
  have z: "DHCP_OFFER > 0" "DHCP_ACK > 0" by (simp_all add: dhcp_consts)
  note w1 = wait_reply [OF t2(1-3) t(3) q [folded t2(4)] ok(1) other(1) fuel(1) offer z(1), folded d_def]
  have "cstate (tc d) = STATE_CONNECTED" "client_mac d = ?m"
    using dequeues_frame [of "Suc (length xs)" t2] t2(2,3) unfolding d_def by (simp_all only:)
  then have t3: "queue_ok t3" "cstate (tc t3) = STATE_CONNECTED" "client_mac t3 = ?m"
      "queued t3 = ys @ dhcp_reply ?m xid ip2 opts2 # zs"
    using dhcp_send_queue [OF sent2 [folded d_def] w1(3)] w1(2) by (simp_all only:)
  note w2 = wait_reply [OF t3(1-3) t(3) t3(4) ok(2) other(2) fuel(2) ack z(2)]
  have ip: "dr_assigned_ip r1 = ip1" "dr_assigned_ip r2 = ip2"
    using apply_options_ip [of opts1 "(0, dhcp_zero\<lparr>dr_assigned_ip := ip1\<rparr>, 0)"]
      apply_options_ip [of opts2 "(0, r1\<lparr>dr_assigned_ip := ip2\<rparr>, sid1)"] offer ack by simp_all
  have "dhcp_attempts fuel DHCP_MAX_RETRIES env xid (dhcp_zero, 0) t1 =
      Some (0, r2\<lparr>dr_success := True\<rparr>, (dequeue ^^ Suc (length ys)) t3)"
    unfolding DHCP_MAX_RETRIES_def numeral_3_eq_3
    by (rule attempt_succeeds [OF sent1 w1(1) _ w2(1)]) (use sent2 ip(1) in \<open>simp only: d_def\<close>)
  then have "softether_do_dhcp fuel env r0 t = Some (0, r2\<lparr>dr_success := True\<rparr>, (dequeue ^^ Suc (length ys)) t3)"
    using t(2) unfolding softether_do_dhcp_def t1_def xid_def by (simp add: case_prod_beta Let_def)
  with w2(2) ip(2) show ?thesis by blast
qed

section \<open>Witnesses\<close>

text \<open>A session with the primary socket only, which still takes \<open>room\<close> bytes.\<close>

definition solo :: "nat \<Rightarrow> tun_t \<Rightarrow> bool" where
  "solo room t \<longleftrightarrow> cstate (tc t) = STATE_CONNECTED \<and> conn_ssl (tc t) \<noteq> None \<and> conn_rudp (tc t) = None \<and>
     additional (tc t) = replicate 8 tcp0 \<and> socket_fd (tc t) = 3 \<and> primary_direction (tc t) = 0 \<and>
     \<not> conn_compress (tc t) \<and> send_block_cap (tc t) = 65557 \<and> room \<le> wroom (txs (tc t) 3) \<and>
     length (client_mac t) = 6"

lemma solo_candidates: "solo room t \<Longrightarrow> send_candidates (tc t) = [0]"
  by (simp add: solo_def send_candidates_def primary_sendable_def send_slots_def can_send_def tcp0_def
      TCP_DIRECTION_BOTH_def upt_8 MAX_SE_CONNECTIONS_def)

lemma dhcp_rand_solo: "solo room (snd (dhcp_rand env t)) = solo room t"
  by (simp add: dhcp_rand_def solo_def)

lemma dequeue_solo: "solo room (dequeue t) = solo room t"
  by (simp add: dequeue_def solo_def)

lemma send_raw_solo:
  assumes "solo (8 + length fr + room) t" "fr \<noteq> []" "length fr \<le> 600"
  shows "\<exists>t'. softether_send_raw env fr t = (Some (8 + length fr), t') \<and> solo room t'"
proof -
  let ?c = "(tc t)\<lparr>send_rr_idx := 0\<rparr>"
  let ?w = "data_write_all_sock 3 (block_of fr) ?c"
  have s: "softether_select_send_socket (tc t) = (0, ?c)"
    using solo_candidates [OF assms(1)] by (simp add: softether_select_send_socket_def)
  have l: "length (block_of fr) = 8 + length fr" by (simp add: block_of_def)
  have w: "fst ?w" "room \<le> wroom (txs (snd ?w) 3)"
    using write_sock_tx [of 3 "block_of fr" ?c] write_all_exact [of "block_of fr" "txs ?c 3"] assms(1) l
    by (auto simp: solo_def)
  have sp: "softether_send_packet (cenv env) (zbound env) CMD_DATA fr (tc t) = (Some (8 + length fr), snd ?w)"
    using assms s w(1) by (simp add: softether_send_packet_def compressed_payload_def solo_def state_down_def
        data_write_all_def case_prod_beta Let_def)
  have "solo room (t\<lparr>tc := snd ?w\<rparr>)"
    using assms(1) w(2) by (simp add: solo_def data_write_all_sock_def case_prod_beta Let_def)
  then show ?thesis
    using sp assms by (auto simp: softether_send_raw_def softether_send_data_def try_rudp_def solo_def)
qed

lemma dhcp_send_solo:
  assumes "solo (608 + room) t"
  shows "\<exists>t'. dhcp_send env xid m ip sid t = (True, t') \<and> solo room t'"
proof -
  obtain r1 t1 where 1: "dhcp_rand env t = (r1, t1)" by fastforce
  obtain r2 t2 where 2: "dhcp_rand env t1 = (r2, t2)" by fastforce
  have t2: "solo (608 + room) t2"
    using assms dhcp_rand_solo [of "608 + room" env t] dhcp_rand_solo [of "608 + room" env t1] 1 2 by simp
  obtain fr where fr: "build_dhcp_frame DHCP_MAX_FRAME (client_mac t2) (word_of_nat r1) (word_of_nat r2) xid m ip sid = Some fr"
      "length fr \<le> 600" "fr \<noteq> []"
    using build_dhcp_total [of "client_mac t2" "word_of_nat r1" "word_of_nat r2" xid m ip sid] t2
    by (auto simp: solo_def DHCP_MAX_FRAME_def)
  have "solo (8 + length fr + (600 - length fr + room)) t2" using t2 fr(2) by (simp add: solo_def)
  from send_raw_solo [OF this fr(3,2)] obtain t' where
    "softether_send_raw env fr t2 = (Some (8 + length fr), t')" "solo (600 - length fr + room) t'" by blast
  then show ?thesis using 1 2 fr(1) by (auto simp: dhcp_send_def solo_def)
qed

text \<open>An offer and an acknowledgement for the transaction that \<open>tenv0\<close> numbers.\<close>

definition dhcp_opts0 :: "byte \<Rightarrow> (byte \<times> bytes) list" where
  "dhcp_opts0 m = [(OPT_MSG_TYPE, [m]), (OPT_SUBNET_MASK, [255, 255, 255, 0]), (OPT_SERVER_ID, [10, 0, 0, 1])]"

definition dhcp_frame0 :: "byte \<Rightarrow> bytes" where
  "dhcp_frame0 m = dhcp_reply [0x5E, 1, 2, 3, 4, 5] 1 0x0A000009 (dhcp_opts0 m)"

definition dhcp_tun0 :: tun_t where
  "dhcp_tun0 = tun0\<lparr>tc := conn0\<lparr>recv_queue := ring_enq 64 (dhcp_frame0 5) (ring_enq 64 (dhcp_frame0 2) (ring_new 64 [])),
     txs := (\<lambda>_. \<lparr>written = [], wroom = 2000, wchunk = (\<lambda>n. n), wcalls = 0\<rparr>)\<rparr>\<rparr>"

lemma options_ok0: "options_ok (dhcp_opts0 m)"
  by (simp add: options_ok_def dhcp_opts0_def dhcp_opts)

lemma length_dhcp_frame0: "length (dhcp_frame0 m) = 298"
  by (simp add: dhcp_frame0_def dhcp_reply_def dhcp_opts0_def enc_options_def)

lemma dhcp_tun0_queue:
  "queue_ok dhcp_tun0" "queued dhcp_tun0 = [dhcp_frame0 2, dhcp_frame0 5]"
proof -
  let ?r0 = "ring_new 64 [] :: bytes ring"
  let ?r1 = "ring_enq 64 (dhcp_frame0 2) ?r0"
  have r0: "ring_inv 64 ?r0" "rcount ?r0 = 0" by (rule ring_inv_new) (simp_all add: ring_new_def)
  have r1: "ring_inv 64 ?r1" "rcount ?r1 = 1" "ring_contents ?r1 = [dhcp_frame0 2]"
    using r0 ring_enq_inv [OF r0(1)] ring_enq_contents [OF r0(1)] by (simp_all add: ring_enq_def)
  then have "ring_inv 64 (ring_enq 64 (dhcp_frame0 5) ?r1)"
      "ring_contents (ring_enq 64 (dhcp_frame0 5) ?r1) = [dhcp_frame0 2, dhcp_frame0 5]"
    using ring_enq_inv [OF r1(1)] ring_enq_contents [OF r1(1)] by simp_all
  then show "queue_ok dhcp_tun0" "queued dhcp_tun0 = [dhcp_frame0 2, dhcp_frame0 5]"
    using length_dhcp_frame0 by (simp_all add: queue_ok_def queued_def dhcp_tun0_def MAX_QUEUED_FRAME_def)
qed

lemma dhcp_tun0_solo: "solo 1216 dhcp_tun0"
  by (simp add: solo_def dhcp_tun0_def tun0_def conn0_def)

theorem dhcp_reply_parsed_witness:
  "parse_dhcp_response (dhcp_frame0 2) 1 [0x5E, 1, 2, 3, 4, 5] (dhcp_zero, 0) =
     Some (2, dhcp_zero\<lparr>dr_assigned_ip := 0x0A000009, dr_subnet_mask := 0xFFFFFF00\<rparr>, 0x0A000001)"
  unfolding dhcp_frame0_def
  using dhcp_reply_parsed [of "[0x5E, 1, 2, 3, 4, 5]" "dhcp_opts0 2" 1 "0x0A000009" dhcp_zero 0, OF _ options_ok0]
  by (simp add: dhcp_opts0_def apply_option_def dhcp_opts)

theorem dhcp_frame_wellformed_witness:
  "\<exists>frame. build_dhcp_frame DHCP_MAX_FRAME [0x5E, 1, 2, 3, 4, 5] 7 8 99 DHCP_DISCOVER 0 0 = Some frame \<and>
     get_be32 (drop 46 frame) = 99"
  using dhcp_frame_wellformed [of "[0x5E, 1, 2, 3, 4, 5]" 7 8 99 DHCP_DISCOVER 0 0] by auto

theorem dhcp_handshake_witness:
  "\<exists>r t'. softether_do_dhcp 1 tenv0 dhcp_zero dhcp_tun0 = Some (0, r, t') \<and> dr_assigned_ip r = 0x0A000009 \<and> queued t' = []"
proof -
  have rnd: "fst (dhcp_rand tenv0 dhcp_tun0) = 0" "fst (dhcp_rand tenv0 (snd (dhcp_rand tenv0 dhcp_tun0))) = 1"
    by (simp_all add: dhcp_rand_def dhcp_tun0_def tun0_def conn0_def tenv0_def conn_env0_def)
  let ?t1 = "snd (dhcp_rand tenv0 (snd (dhcp_rand tenv0 dhcp_tun0)))"
  have "solo (608 + 608) ?t1" using dhcp_tun0_solo by (simp add: dhcp_rand_solo)
  from dhcp_send_solo [OF this] obtain t2 where
    2: "dhcp_send tenv0 1 DHCP_DISCOVER 0 0 ?t1 = (True, t2)" "solo 608 t2" by blast
  have "solo (608 + 0) (dequeue t2)" using 2(2) by (simp add: dequeue_solo)
  from dhcp_send_solo [OF this] obtain t3 where
    3: "dhcp_send tenv0 1 DHCP_REQUEST 0x0A000009 0x0A000001 (dequeue t2) = (True, t3)" by blast
  let ?r = "dhcp_zero\<lparr>dr_assigned_ip := 0x0A000009, dr_subnet_mask := 0xFFFFFF00\<rparr>"
  have m: "client_mac dhcp_tun0 = [0x5E, 1, 2, 3, 4, 5]" "cstate (tc dhcp_tun0) = STATE_CONNECTED"
    by (simp_all add: dhcp_tun0_def tun0_def conn0_def)
  have f: "fold apply_option (dhcp_opts0 2) (0, dhcp_zero\<lparr>dr_assigned_ip := 0x0A000009\<rparr>, 0) = (DHCP_OFFER, ?r, 0x0A000001)"
      "fold apply_option (dhcp_opts0 5) (0, ?r\<lparr>dr_assigned_ip := 0x0A000009\<rparr>, 0x0A000001) = (DHCP_ACK, ?r, 0x0A000001)"
    by (simp_all add: dhcp_opts0_def apply_option_def dhcp_opts DHCP_OFFER_def DHCP_ACK_def)
  have "\<exists>t'. softether_do_dhcp 1 tenv0 dhcp_zero dhcp_tun0 = Some (0, ?r\<lparr>dr_success := True\<rparr>, t') \<and>
      dr_assigned_ip ?r = 0x0A000009 \<and> queued t' = []"
    by (rule dhcp_handshake [where xs = "[]" and ys = "[]" and ?t2.0 = t2 and ?t3.0 = t3, OF dhcp_tun0_queue(1) m(2) _ _
          options_ok0 options_ok0 _ _ f])
      (use dhcp_tun0_queue(2) 2(1) 3 rnd in \<open>simp_all add: m dhcp_frame0_def\<close>)
  then show ?thesis by auto
qed

end
