(* ===== verification/Inet.thy ===== *)
theory Inet
  imports Http
begin

text \<open>
  IPv4 addresses as text: \<^verbatim>\<open>inet_ntop\<close> and \<^verbatim>\<open>inet_pton\<close> of the C library, as POSIX describes
  them (four decimal numbers of one to three digits, each at most 255, separated by dots).
  An address in network byte order is the 32-bit word whose bytes in memory, on the
  little-endian targets, are the four octets in writing order.
\<close>

definition INET_ADDRSTRLEN :: nat where "INET_ADDRSTRLEN = 16"

definition addr_bytes :: "u32 \<Rightarrow> bytes" where
  "addr_bytes ip = [ucast ip, ucast (drop_bit 8 ip), ucast (drop_bit 16 ip), ucast (drop_bit 24 ip)]"

definition addr_of :: "byte \<Rightarrow> byte \<Rightarrow> byte \<Rightarrow> byte \<Rightarrow> u32" where
  "addr_of a b c d = ucast a OR push_bit 8 (ucast b) OR push_bit 16 (ucast c) OR push_bit 24 (ucast d)"

fun join_dots :: "bytes list \<Rightarrow> bytes" where
  "join_dots [] = []"
| "join_dots [x] = x"
| "join_dots (x # xs) = x @ 46 # join_dots xs"

fun split_dots :: "bytes \<Rightarrow> bytes list" where
  "split_dots [] = [[]]"
| "split_dots (c # s) = (if c = 46 then [] # split_dots s
     else (case split_dots s of x # xs \<Rightarrow> (c # x) # xs | [] \<Rightarrow> [[c]]))"

definition dotted :: "u32 \<Rightarrow> bytes" where
  "dotted ip = join_dots (map (\<lambda>b. decimal (unat b)) (addr_bytes ip))"

definition inet_ntop :: "u32 \<Rightarrow> nat \<Rightarrow> bytes option" where
  "inet_ntop ip dst_size = (let s = dotted ip in if length s < dst_size then Some s else None)"

definition octet :: "bytes \<Rightarrow> byte option" where
  "octet ds = (if ds \<noteq> [] \<and> length ds \<le> 3 \<and> list_all is_digit ds \<and> digits_value ds \<le> 255
     then Some (word_of_int (digits_value ds)) else None)"

definition inet_pton :: "bytes \<Rightarrow> u32 option" where
  "inet_pton s = (case map octet (split_dots s) of
     [Some a, Some b, Some c, Some d] \<Rightarrow> Some (addr_of a b c d) | _ \<Rightarrow> None)"

lemma addr_of_bytes: "addr_of (ucast ip) (ucast (drop_bit 8 ip)) (ucast (drop_bit 16 ip)) (ucast (drop_bit 24 ip)) = ip"
  for ip :: u32
proof (rule bit_word_eqI)
  fix n assume n: "n < LENGTH(32)"
  consider "n < 8" | "8 \<le> n" "n < 16" | "16 \<le> n" "n < 24" | "24 \<le> n" by linarith
  then show "bit (addr_of (ucast ip) (ucast (drop_bit 8 ip)) (ucast (drop_bit 16 ip)) (ucast (drop_bit 24 ip))) n = bit ip n"
    using n by cases (auto simp: addr_of_def bit_simps)
qed

lemma decimal_digits: "list_all is_digit (decimal n) \<and> decimal n \<noteq> [] \<and> digits_value (decimal n) = int n"
proof (induction n rule: decimal.induct)
  case (1 n)
  have d: "is_digit (48 + word_of_nat k)" "uint ((48 + word_of_nat k :: byte) - 48) = int k" if "k < 10" for k
  proof -
    have "unat (word_of_nat k :: byte) = k" using that by (simp add: unat_of_nat)
    moreover have "unat (48 + word_of_nat k :: byte) = 48 + k"
      using that by (simp add: unat_plus_if_size unat_of_nat word_size)
    ultimately show "is_digit (48 + word_of_nat k)" "uint ((48 + word_of_nat k :: byte) - 48) = int k"
      using that uint_nat [of "word_of_nat k :: byte"] by (simp_all add: is_digit_def word_le_nat_alt)
  qed
  show ?case
  proof (cases "n < 10")
    case True
    then show ?thesis using d [of n] by (simp add: decimal.simps [of n] digits_value_def)
  next
    case False
    have "10 * int (n div 10) + int (n mod 10) = int n" by presburger
    with False 1 d [of "n mod 10"] show ?thesis
      by (simp add: decimal.simps [of n] digits_value_def list_all_iff)
  qed
qed

lemma decimal_length: "n < 1000 \<Longrightarrow> length (decimal n) \<le> 3"
  by (simp add: decimal.simps [of n] decimal.simps [of "n div 10"] decimal.simps [of "n div 10 div 10"])

lemma octet_decimal: "octet (decimal (unat b)) = Some b"
proof -
  have "unat b < 256" "uint b \<le> 255" using unsigned_less [of b, where 'a = nat] uint_bounded [of b] by simp_all
  then show ?thesis using decimal_digits [of "unat b"] decimal_length [of "unat b"] by (simp add: octet_def)
qed

lemma split_dots_plain: "46 \<notin> set x \<Longrightarrow> split_dots x = [x]"
  by (induction x) auto

lemma split_dots_dot: "46 \<notin> set x \<Longrightarrow> split_dots (x @ 46 # s) = x # split_dots s"
  by (induction x) auto

lemma decimal_no_dot: "46 \<notin> set (decimal n)"
  using decimal_digits [of n] by (auto simp: list_all_iff is_digit_def)

lemma split_join: "xs \<noteq> [] \<Longrightarrow> \<forall>x \<in> set xs. 46 \<notin> set x \<Longrightarrow> split_dots (join_dots xs) = xs"
  by (induction xs rule: join_dots.induct) (auto simp: split_dots_plain split_dots_dot)

text \<open>Text written by \<^verbatim>\<open>inet_ntop\<close> fits \<^verbatim>\<open>INET_ADDRSTRLEN\<close> and is read back by \<^verbatim>\<open>inet_pton\<close>.\<close>

lemma dotted_length: "length (dotted ip) < INET_ADDRSTRLEN"
proof -
  have "length (decimal (unat b)) \<le> 3" for b :: byte
    using unsigned_less [of b, where 'a = nat] by (intro decimal_length) simp
  from this [of "ucast ip"] this [of "ucast (drop_bit 8 ip)"] this [of "ucast (drop_bit 16 ip)"]
    this [of "ucast (drop_bit 24 ip)"]
  show ?thesis by (simp add: dotted_def addr_bytes_def INET_ADDRSTRLEN_def)
qed

lemma inet_roundtrip: "inet_ntop ip INET_ADDRSTRLEN = Some (dotted ip)" "inet_pton (dotted ip) = Some ip"
proof -
  show "inet_ntop ip INET_ADDRSTRLEN = Some (dotted ip)" using dotted_length by (simp add: inet_ntop_def)
  have "split_dots (dotted ip) = map (\<lambda>b. decimal (unat b)) (addr_bytes ip)"
    unfolding dotted_def by (rule split_join) (auto simp: addr_bytes_def decimal_no_dot)
  then show "inet_pton (dotted ip) = Some ip"
    by (simp add: inet_pton_def addr_bytes_def octet_decimal addr_of_bytes)
qed

lemma dotted_cstring: "cstring (dotted ip)"
proof -
  have "0 \<notin> set (decimal n)" for n using decimal_digits [of n] by (auto simp: list_all_iff is_digit_def)
  then show ?thesis by (simp add: cstring_def dotted_def addr_bytes_def)
qed

end
