(* ===== verification/Nat_T.thy ===== *)
theory Nat_T
  imports Pack Inet
begin

text \<open>
  The NAT-traversal client (\<^verbatim>\<open>softether_nat_t.c\<close>): the rendezvous with the relay that tells
  the public UDP address of the server. The theory has the relay's host name, the request
  and response PACKs, the loop that sends, waits and gives up, and the socket it leaves
  open. The environment gives name resolution, the socket calls, random bytes, the clock
  (in milliseconds, as natural numbers: sums of ticks and intervals do not reach
  \<^verbatim>\<open>2^64\<close>), the cancel flag and the datagrams that have arrived by each round. A failed
  \<^verbatim>\<open>sendto\<close> is only logged, so the datagrams handed to it are recorded. The socket is an
  IPv4 one, so the sender's address family needs no check of its own.
\<close>

section \<open>Data\<close>

definition NAT_T_RESP_BUF_SIZE :: nat where "NAT_T_RESP_BUF_SIZE = 4096"
definition NAT_T_HOSTNAME_MAX :: nat where "NAT_T_HOSTNAME_MAX = 96"
definition NAT_T_PORT :: u16 where "NAT_T_PORT = 5004"
definition NAT_T_SVC_NAME :: bytes where "NAT_T_SVC_NAME = lit ''SoftEther_VPN''"
definition NAT_T_TRAVERSAL_VERSION :: u32 where "NAT_T_TRAVERSAL_VERSION = 1"
definition NAT_T_DEFAULT_TIMEOUT_MS :: nat where "NAT_T_DEFAULT_TIMEOUT_MS = 12000"
definition NAT_T_CONNECT_INTERVAL :: nat where "NAT_T_CONNECT_INTERVAL = 200"
definition NAT_T_MAX_BACKOFF_EXP :: nat where "NAT_T_MAX_BACKOFF_EXP = 6"

definition NAT_T_ERR_OK :: nat where "NAT_T_ERR_OK = 0"
definition NAT_T_ERR_UNKNOWN :: nat where "NAT_T_ERR_UNKNOWN = 1"
definition NAT_T_ERR_GETIP_FAILED :: nat where "NAT_T_ERR_GETIP_FAILED = 3"
definition NAT_T_ERR_NO_RESPONSE :: nat where "NAT_T_ERR_NO_RESPONSE = 4"
definition NAT_T_ERR_TWO_OR_MORE :: nat where "NAT_T_ERR_TWO_OR_MORE = 5"
definition NAT_T_ERR_NOT_FOUND :: nat where "NAT_T_ERR_NOT_FOUND = 6"

lemmas nat_errors = NAT_T_ERR_OK_def NAT_T_ERR_UNKNOWN_def NAT_T_ERR_GETIP_FAILED_def
  NAT_T_ERR_NO_RESPONSE_def NAT_T_ERR_TWO_OR_MORE_def NAT_T_ERR_NOT_FOUND_def

text \<open>\<^verbatim>\<open>same_lan\<close>, an \<^verbatim>\<open>int\<close>, is filled through a \<^verbatim>\<open>uint32_t\<close> pointer and only tested for zero.\<close>

record softether_nat_t_result_t =
  result_ip :: u32
  result_port :: u16
  same_lan :: u32
  nat_udp_fd :: int
  nat_error :: nat

datatype nat_recv = Datagram u32 u16 bytes | Recv_failed

text \<open>
  \<open>nt_resolve\<close> is \<^verbatim>\<open>getaddrinfo\<close>: \<open>None\<close> when it fails, otherwise the list of entries, \<open>None\<close>
  for one that is not IPv4. \<open>nt_cancel i\<close> is the flag as round \<open>i\<close> reads it.
\<close>

record nat_env =
  nt_heap :: heap_env
  nt_sha1 :: "bytes \<Rightarrow> bytes"
  nt_resolve :: "bytes \<Rightarrow> u32 option list option"
  nt_socket :: "int option"
  nt_bind :: bool
  nt_random :: bytes
  nt_tick :: "nat \<Rightarrow> nat"
  nt_cancel :: "nat \<Rightarrow> bool"
  nt_arrive :: "nat \<Rightarrow> nat_recv list"

text \<open>The locals of \<^verbatim>\<open>nat_t_connect\<close>, with the datagrams waiting in the socket, those sent, and the open descriptors.\<close>

record nat_t =
  nr :: softether_nat_t_result_t
  current_cookie :: u64
  nt_next_send :: nat
  num_tries :: nat
  pending :: "nat_recv list"
  sent :: "bytes list"
  nt_open :: "int list"

section \<open>The relay and the socket\<close>

definition nat_t_ip_to_str :: "u32 \<Rightarrow> nat \<Rightarrow> bytes" where
  "nat_t_ip_to_str ip dst_size = (case inet_ntop ip dst_size of None \<Rightarrow> [] | Some s \<Rightarrow> s)"

definition nat_t_build_hostname :: "(bytes \<Rightarrow> bytes) \<Rightarrow> u32 \<Rightarrow> nat \<Rightarrow> bytes option" where
  "nat_t_build_hostname sha1 server_ip dst_size = (if dst_size < NAT_T_HOSTNAME_MAX then None
     else let h1 = sha1 (addr_bytes server_ip) ! 1
       in Some (take (dst_size - 1) (lit ''x'' @ [hex_digit (drop_bit 4 h1 AND 15)] @
            lit ''.x'' @ [hex_digit (h1 AND 15)] @
            lit ''.servers.nat-traversal.softether-network.net.'')))"

definition nat_t_resolve_relay :: "nat_env \<Rightarrow> bytes \<Rightarrow> u32 option" where
  "nat_t_resolve_relay env hostname = (case nt_resolve env hostname of
     None \<Rightarrow> None
   | Some res \<Rightarrow> (case dropWhile (\<lambda>ai. ai = None) res of Some ip # _ \<Rightarrow> Some ip | _ \<Rightarrow> None))"

text \<open>The socket and the descriptors then open.\<close>

definition nat_t_create_udp_socket :: "nat_env \<Rightarrow> int option \<times> int list" where
  "nat_t_create_udp_socket env = (case nt_socket env of
     None \<Rightarrow> (None, [])
   | Some fd \<Rightarrow> if nt_bind env then (Some fd, [fd]) else (None, remove1 fd [fd]))"

section \<open>Responses\<close>

text \<open>The return values 1, 0 and -1.\<close>

datatype nat_verdict = Accepted | Ignored | Refused

definition int_or_zero :: "bytes \<Rightarrow> bytes \<Rightarrow> u32" where
  "int_or_zero buf f = (case pack_get_int buf f of Some v \<Rightarrow> v | None \<Rightarrow> 0)"

text \<open>The address a positive response carries.\<close>

definition response_address :: "bytes \<Rightarrow> (u32 \<times> u16) option" where
  "response_address buf = do {
     s \<leftarrow> pack_get_str buf (lit ''result_ip'') INET_ADDRSTRLEN;
     port \<leftarrow> pack_get_int buf (lit ''result_port'');
     if port = 0 \<or> port > 65535 then None else do {
       a \<leftarrow> inet_pton (cstr_of s);
       if a = 0 then None else Some (a, ucast port) } }"

definition nat_t_parse_response ::
  "bytes \<Rightarrow> u64 \<Rightarrow> u64 \<Rightarrow> softether_nat_t_result_t \<Rightarrow> nat_verdict \<times> u64 \<times> softether_nat_t_result_t" where
  "nat_t_parse_response buf tran_id cookie r =
     (let cookie = (case pack_get_int64 buf (lit ''cookie'') of
            Some c \<Rightarrow> if c \<noteq> 0 then c else cookie | None \<Rightarrow> cookie) in
      if pack_get_int64 buf (lit ''tran_id'') \<noteq> Some tran_id then (Ignored, cookie, r)
      else if map_option cstr_of (pack_get_str buf (lit ''opcode'') 64) \<noteq> Some (lit ''nat_t_connect_request'')
      then (Ignored, cookie, r)
      else if int_or_zero buf (lit ''ok'') \<noteq> 0 then
        if int_or_zero buf (lit ''multi_candidates'') \<noteq> 0
        then (Refused, cookie, r\<lparr>nat_error := NAT_T_ERR_TWO_OR_MORE\<rparr>)
        else case response_address buf of
            None \<Rightarrow> (Ignored, cookie, r)
          | Some (ip, port) \<Rightarrow> (Accepted, cookie, r\<lparr>result_ip := ip, result_port := port,
              same_lan := int_or_zero buf (lit ''same_lan''), nat_error := NAT_T_ERR_OK\<rparr>)
      else (Refused, cookie, r\<lparr>nat_error := (if int_or_zero buf (lit ''multi_candidates'') \<noteq> 0
              then NAT_T_ERR_TWO_OR_MORE else NAT_T_ERR_NOT_FOUND)\<rparr>))"

text \<open>Draining the socket: a datagram that is not the relay's is passed over, an empty one or an error ends it.\<close>

fun nat_t_drain :: "u32 \<Rightarrow> u64 \<Rightarrow> nat_recv list \<Rightarrow> nat_t \<Rightarrow> nat_verdict \<times> nat_t" where
  "nat_t_drain relay_ip tran_id [] st = (Ignored, st\<lparr>pending := []\<rparr>)"
| "nat_t_drain relay_ip tran_id (Recv_failed # q) st = (Ignored, st\<lparr>pending := q\<rparr>)"
| "nat_t_drain relay_ip tran_id (Datagram ip port d # q) st = (let buf = take NAT_T_RESP_BUF_SIZE d in
     if buf = [] then (Ignored, st\<lparr>pending := q\<rparr>)
     else if ip \<noteq> relay_ip \<or> port \<noteq> NAT_T_PORT then nat_t_drain relay_ip tran_id q st
     else case nat_t_parse_response buf tran_id (current_cookie st) (nr st) of
       (v, cookie, r) \<Rightarrow> let st = st\<lparr>current_cookie := cookie, nr := r\<rparr> in
         if v = Ignored then nat_t_drain relay_ip tran_id q st else (v, st\<lparr>pending := q\<rparr>))"

section \<open>Requests\<close>

definition request_elems :: "u64 \<Rightarrow> bytes \<Rightarrow> u64 \<Rightarrow> bytes \<Rightarrow> pelem list" where
  "request_elems tran_id ip_str cookie svc_name =
     [(lit ''opcode'', VStr (lit ''nat_t_connect_request'')), (lit ''tran_id'', VInt64 tran_id),
      (lit ''dest_ip'', VStr ip_str), (lit ''cookie'', VInt64 cookie), (lit ''svc_name'', VStr svc_name),
      (lit ''nat_traversal_version'', VInt NAT_T_TRAVERSAL_VERSION)]"

text \<open>The results of the \<^verbatim>\<open>pack_add_*\<close> calls are not looked at.\<close>

fun add_each :: "heap_env \<Rightarrow> softether_pack_t \<Rightarrow> pelem list \<Rightarrow> softether_pack_t outcome" where
  "add_each env p [] = Ret p"
| "add_each env p (e # es) = (case pack_add env p e of
     Ret q \<Rightarrow> add_each env q es | Fail \<Rightarrow> add_each env p es | Fault \<Rightarrow> Fault)"

definition nat_t_request :: "heap_env \<Rightarrow> u64 \<Rightarrow> bytes \<Rightarrow> u64 \<Rightarrow> bytes \<Rightarrow> bytes outcome" where
  "nat_t_request env tran_id ip_str cookie svc_name = (case pack_new env of
     None \<Rightarrow> Fail
   | Some p \<Rightarrow> (case add_each env p (request_elems tran_id ip_str cookie svc_name) of
       Ret p \<Rightarrow> Ret (pack_body p) | Fail \<Rightarrow> Fail | Fault \<Rightarrow> Fault))"

text \<open>Sending when due, and the next due time.\<close>

definition nat_t_send :: "nat_env \<Rightarrow> u32 \<Rightarrow> u64 \<Rightarrow> bytes \<Rightarrow> nat \<Rightarrow> nat_t \<Rightarrow> nat_t outcome" where
  "nat_t_send env server_ip tran_id svc_name now st =
     (if nt_next_send st = 0 \<or> now \<ge> nt_next_send st then
        let rq = nat_t_request (nt_heap env) tran_id (nat_t_ip_to_str server_ip INET_ADDRSTRLEN)
              (current_cookie st) svc_name;
            ex = (if num_tries st < NAT_T_MAX_BACKOFF_EXP then NAT_T_MAX_BACKOFF_EXP else num_tries st);
            st = st\<lparr>nt_next_send := now + NAT_T_CONNECT_INTERVAL * 2 ^ ex, num_tries := num_tries st + 1\<rparr>
        in case rq of Ret b \<Rightarrow> Ret (st\<lparr>sent := sent st @ [b]\<rparr>) | Fail \<Rightarrow> Ret st | Fault \<Rightarrow> Fault
      else Ret st)"

section \<open>The rendezvous\<close>

definition nat_close :: "int \<Rightarrow> nat_t \<Rightarrow> nat_t" where
  "nat_close fd st = st\<lparr>nt_open := remove1 fd (nt_open st)\<rparr>"

definition nat_fail :: "int \<Rightarrow> nat_t \<Rightarrow> int \<times> nat_t" where
  "nat_fail fd st = (-1, nat_close fd (st\<lparr>nr := (nr st)\<lparr>nat_error := NAT_T_ERR_NO_RESPONSE\<rparr>\<rparr>))"

definition nat_accept :: "int \<Rightarrow> nat_t \<Rightarrow> int \<times> nat_t" where
  "nat_accept fd st = (let lan = same_lan (nr st) \<noteq> 0;
       st = st\<lparr>nr := (nr st)\<lparr>nat_udp_fd := (if lan then -1 else fd)\<rparr>\<rparr>
     in (0, if lan then nat_close fd st else st))"

text \<open>
  The loop, from round \<open>i\<close>, for at most \<open>fuel\<close> rounds: \<open>None\<close> is a call that has not returned by
  then. The value is the return value (0 or -1) with the locals; \<open>Fault\<close> is a memory fault
  of the PACK builder. Each round reads the clock once, after the reading that set the
  deadline.
\<close>

fun nat_t_loop ::
  "nat \<Rightarrow> nat_env \<Rightarrow> u32 \<Rightarrow> bytes \<Rightarrow> u32 \<Rightarrow> int \<Rightarrow> u64 \<Rightarrow> nat \<Rightarrow> nat \<Rightarrow> nat_t \<Rightarrow> (int \<times> nat_t) outcome option" where
  "nat_t_loop 0 env server_ip svc_name relay_ip fd tran_id giveup i st = None"
| "nat_t_loop (Suc fuel) env server_ip svc_name relay_ip fd tran_id giveup i st =
     (let now = nt_tick env (Suc i) in
      if now \<ge> giveup then Some (Ret (nat_fail fd st))
      else if nt_cancel env i then Some (Ret (nat_fail fd st))
      else case nat_t_drain relay_ip tran_id (pending st @ nt_arrive env i) st of
        (Accepted, st) \<Rightarrow> Some (Ret (nat_accept fd st))
      | (Refused, st) \<Rightarrow> Some (Ret (-1, nat_close fd st))
      | (Ignored, st) \<Rightarrow> (case nat_t_send env server_ip tran_id svc_name now st of
            Ret st \<Rightarrow> nat_t_loop fuel env server_ip svc_name relay_ip fd tran_id giveup (Suc i) st
          | _ \<Rightarrow> Some Fault))"

declare nat_t_loop.simps(2) [simp del]

definition tran_id_of :: "bytes \<Rightarrow> u64" where
  "tran_id_of rnd = (let t = foldl (\<lambda>v b. push_bit 8 v OR ucast b) 0 rnd
     in if t = 0 then 0x9E3779B97F4A7C15 else t)"

definition nat_init :: "int list \<Rightarrow> nat_t" where
  "nat_init fds = \<lparr>nr = \<lparr>result_ip = 0, result_port = 0, same_lan = 0, nat_udp_fd = -1, nat_error = NAT_T_ERR_UNKNOWN\<rparr>,
     current_cookie = 0, nt_next_send = 0, num_tries = 0, pending = [], sent = [], nt_open = fds\<rparr>"

definition svc_of :: "bytes option \<Rightarrow> bytes" where
  "svc_of svc_name = (case svc_name of None \<Rightarrow> NAT_T_SVC_NAME | Some s \<Rightarrow> if s = [] then NAT_T_SVC_NAME else s)"

definition nat_t_connect :: "nat \<Rightarrow> nat_env \<Rightarrow> u32 \<Rightarrow> bytes option \<Rightarrow> nat \<Rightarrow> (int \<times> nat_t) outcome option" where
  "nat_t_connect fuel env server_ip svc_name timeout_ms =
     (let timeout_ms = (if timeout_ms = 0 then NAT_T_DEFAULT_TIMEOUT_MS else timeout_ms);
          svc_name = svc_of svc_name in
      case nat_t_build_hostname (nt_sha1 env) server_ip NAT_T_HOSTNAME_MAX of
        None \<Rightarrow> Some (Ret (-1, nat_init []))
      | Some host \<Rightarrow> (case nat_t_resolve_relay env host of
          None \<Rightarrow> let st = nat_init [] in Some (Ret (-1, st\<lparr>nr := (nr st)\<lparr>nat_error := NAT_T_ERR_GETIP_FAILED\<rparr>\<rparr>))
        | Some relay_ip \<Rightarrow> (case nat_t_create_udp_socket env of
            (None, fds) \<Rightarrow> Some (Ret (-1, nat_init fds))
          | (Some fd, fds) \<Rightarrow> nat_t_loop fuel env server_ip svc_name relay_ip fd
              (tran_id_of (nt_random env)) (nt_tick env 0 + timeout_ms) 0 (nat_init fds))))"

section \<open>The builder is safe\<close>

lemma pack_add_safe:
  assumes "pack_rep p es" "elem_ok e"
  shows "pack_add env p e = Fail \<or> (\<exists>q. pack_add env p e = Ret q \<and> pack_rep q (es @ [e]))"
  using pack_add_with_ok [OF assms] assms(2)
  by (cases "pack_reserve env p (length (ser_elem e))") (auto simp: pack_add_eq pack_add_with_def)

lemma add_each_safe:
  assumes "pack_rep p es" "\<forall>e \<in> set fs. elem_ok e"
  shows "\<exists>q gs. add_each env p fs = Ret q \<and> pack_rep q gs"
  using assms
proof (induction fs arbitrary: p es)
  case (Cons e fs)
  from pack_add_safe [OF Cons.prems(1), of e env] Cons.prems Cons.IH show ?case by fastforce
qed auto

lemma add_each_all:
  assumes "pack_rep p es" "\<forall>n. can_alloc env n" "4 + length (ser_elems (es @ fs)) \<le> UINT32_MAX"
  shows "\<exists>q. add_each env p fs = Ret q \<and> pack_rep q (es @ fs)"
proof -
  have "add_each env p fs = Ret q" if "pack_add_all env p fs = Ret q" for q
    using that by (induction fs arbitrary: p) (auto split: outcome.splits)
  with pack_add_all_total [OF assms] show ?thesis by blast
qed

definition svc_ok :: "bytes \<Rightarrow> bool" where
  "svc_ok s \<longleftrightarrow> length s < 2 ^ 31"

lemma request_elems_ok:
  assumes "svc_ok svc"
  shows "\<forall>e \<in> set (request_elems tran (nat_t_ip_to_str ip INET_ADDRSTRLEN) c svc). elem_ok e"
    "4 + length (ser_elems (request_elems tran (nat_t_ip_to_str ip INET_ADDRSTRLEN) c svc)) \<le> UINT32_MAX"
  using assms dotted_length [of ip]
  by (simp_all add: request_elems_def elem_ok_def ser_elem_def lit_def svc_ok_def nat_t_ip_to_str_def inet_ntop_def
      INET_ADDRSTRLEN_def UINT32_MAX_def Let_def)

lemma request_safe:
  assumes "svc_ok svc"
  shows "nat_t_request h tran (nat_t_ip_to_str ip INET_ADDRSTRLEN) c svc \<noteq> Fault"
proof (cases "pack_new h")
  case (Some p)
  from add_each_safe [OF pack_new_rep [OF Some] request_elems_ok(1) [OF assms], of h tran ip c] show ?thesis
    unfolding nat_t_request_def using Some by auto
qed (simp add: nat_t_request_def)

section \<open>What a round keeps\<close>

text \<open>A response that is accepted: for this transaction, positive, with an address and a port.\<close>

definition accepts :: "u64 \<Rightarrow> bytes \<Rightarrow> softether_nat_t_result_t \<Rightarrow> bool" where
  "accepts tran_id d r \<longleftrightarrow> (let buf = take NAT_T_RESP_BUF_SIZE d in
     pack_get_int64 buf (lit ''tran_id'') = Some tran_id \<and> int_or_zero buf (lit ''ok'') \<noteq> 0 \<and>
     response_address buf = Some (result_ip r, result_port r) \<and>
     same_lan r = int_or_zero buf (lit ''same_lan'') \<and> nat_error r = NAT_T_ERR_OK)"

lemma parse_response_cases:
  assumes "nat_t_parse_response (take NAT_T_RESP_BUF_SIZE d) tran_id c r = (v, c', r')"
  shows "nat_udp_fd r' = nat_udp_fd r" "v = Ignored \<Longrightarrow> r' = r" "v = Refused \<Longrightarrow> nat_error r' \<noteq> NAT_T_ERR_OK"
    "v = Accepted \<Longrightarrow> accepts tran_id d r'"
  using assms
  by (auto simp: nat_t_parse_response_def accepts_def Let_def nat_errors split: if_splits option.splits prod.splits)

lemma ucast_port:
  fixes p :: u32
  assumes "p \<noteq> 0" "\<not> 65535 < p"
  shows "(ucast p :: u16) \<noteq> 0"
proof
  assume z: "ucast p = (0 :: u16)"
  have "unat p < 65536" using assms(2) by (simp add: word_less_nat_alt)
  then have "unat (ucast p :: u16) = unat p" by (simp add: unsigned_ucast_eq take_bit_nat_eq_self)
  with z have "unat p = 0" by simp
  with assms(1) show False by (simp add: unat_eq_zero)
qed

lemma response_address_range:
  assumes "response_address buf = Some (ip, port)"
  shows "ip \<noteq> 0 \<and> port \<noteq> 0"
proof -
  obtain s p a where "pack_get_str buf (lit ''result_ip'') INET_ADDRSTRLEN = Some s"
      "pack_get_int buf (lit ''result_port'') = Some p" "inet_pton (cstr_of s) = Some a"
    using assms unfolding response_address_def
    by (cases "pack_get_str buf (lit ''result_ip'') INET_ADDRSTRLEN"; cases "pack_get_int buf (lit ''result_port'')")
      (auto simp: Option.bind_eq_Some_conv split: if_splits)
  with assms ucast_port [of p] show ?thesis unfolding response_address_def by (simp split: if_splits)
qed

text \<open>One datagram of the relay.\<close>

lemma drain_relay:
  assumes "take NAT_T_RESP_BUF_SIZE d \<noteq> []"
    "nat_t_parse_response (take NAT_T_RESP_BUF_SIZE d) tran (current_cookie st) (nr st) = (w, c, r)"
  shows "nat_t_drain relay tran (Datagram relay NAT_T_PORT d # q) st =
    (if w = Ignored then nat_t_drain relay tran q (st\<lparr>current_cookie := c, nr := r\<rparr>)
     else (w, st\<lparr>current_cookie := c, nr := r, pending := q\<rparr>))"
  using assms by (auto simp: Let_def)

lemma drain_other:
  "take NAT_T_RESP_BUF_SIZE d \<noteq> [] \<Longrightarrow> ip \<noteq> relay \<or> port \<noteq> NAT_T_PORT \<Longrightarrow>
    nat_t_drain relay tran (Datagram ip port d # q) st = nat_t_drain relay tran q st"
  "take NAT_T_RESP_BUF_SIZE d = [] \<Longrightarrow>
    nat_t_drain relay tran (Datagram ip port d # q) st = (Ignored, st\<lparr>pending := q\<rparr>)"
  by (auto simp: Let_def)

declare nat_t_drain.simps(3) [simp del]

text \<open>The three ways a datagram is dealt with, for induction over the queue.\<close>

lemma drain_cases:
  obtains "nat_t_drain relay tran (x # q) st = (Ignored, st\<lparr>pending := q\<rparr>)"
  | "nat_t_drain relay tran (x # q) st = nat_t_drain relay tran q st"
  | d w c r where "x = Datagram relay NAT_T_PORT d"
      "nat_t_parse_response (take NAT_T_RESP_BUF_SIZE d) tran (current_cookie st) (nr st) = (w, c, r)"
      "nat_t_drain relay tran (x # q) st =
        (if w = Ignored then nat_t_drain relay tran q (st\<lparr>current_cookie := c, nr := r\<rparr>)
         else (w, st\<lparr>current_cookie := c, nr := r, pending := q\<rparr>))"
proof (cases x)
  case (Datagram ip port d)
  obtain w c r where p: "nat_t_parse_response (take NAT_T_RESP_BUF_SIZE d) tran (current_cookie st) (nr st) = (w, c, r)"
    by (cases rule: prod_cases3)
  show ?thesis
    using drain_other [where d = d and ip = ip and relay = relay and port = port and tran = tran and q = q and st = st] drain_relay [OF _ p, where relay = relay and q = q] p Datagram that
    by (cases "take NAT_T_RESP_BUF_SIZE d = []"; cases "ip = relay \<and> port = NAT_T_PORT") blast+
qed (use that in simp)

lemma drain_keeps:
  "nat_t_drain relay tran q st = (v, st') \<Longrightarrow>
    sent st' = sent st \<and> num_tries st' = num_tries st \<and> nt_next_send st' = nt_next_send st \<and>
    nt_open st' = nt_open st \<and> nat_udp_fd (nr st') = nat_udp_fd (nr st) \<and> set (pending st') \<subseteq> set q"
proof (induction q arbitrary: st)
  case (Cons x q)
  show ?case
  proof (cases rule: drain_cases [of relay tran x q st])
    case (3 d w c r)
    with Cons.prems Cons.IH [of "st\<lparr>current_cookie := c, nr := r\<rparr>"] parse_response_cases(1) [OF 3(2)]
    show ?thesis by (auto split: if_splits)
  qed (use Cons in auto)
qed auto

lemma drain_verdict:
  "nat_t_drain relay tran q st = (v, st') \<Longrightarrow>
    (v = Ignored \<longrightarrow> nr st' = nr st) \<and> (v = Refused \<longrightarrow> nat_error (nr st') \<noteq> NAT_T_ERR_OK) \<and>
    (v = Accepted \<longrightarrow> (\<exists>d. Datagram relay NAT_T_PORT d \<in> set q \<and> accepts tran d (nr st')))"
proof (induction q arbitrary: st)
  case (Cons x q)
  show ?case
  proof (cases rule: drain_cases [of relay tran x q st])
    case (3 d w c r)
    with Cons.prems Cons.IH [of "st\<lparr>current_cookie := c, nr := r\<rparr>"] parse_response_cases(2-) [OF 3(2)]
    show ?thesis by (auto split: if_splits)
  qed (use Cons in auto)
qed auto

lemma send_keeps:
  assumes "nat_t_send env ip tran svc now st = Ret st'"
  shows "nr st' = nr st" "nt_open st' = nt_open st" "pending st' = pending st"
  using assms by (auto simp: nat_t_send_def Let_def split: if_splits outcome.splits)

lemma send_safe: "svc_ok svc \<Longrightarrow> \<exists>st'. nat_t_send env ip tran svc now st = Ret st'"
  using request_safe [of svc "nt_heap env" tran ip "current_cookie st"]
  by (auto simp: nat_t_send_def Let_def split: outcome.splits)

lemma accepts_fd [simp]: "accepts tran d (r\<lparr>nat_udp_fd := x\<rparr>) = accepts tran d r"
  by (simp add: accepts_def Let_def)

section \<open>What the loop ends in\<close>

definition arrived :: "nat_env \<Rightarrow> nat_recv \<Rightarrow> bool" where
  "arrived env x \<longleftrightarrow> (\<exists>i. x \<in> set (nt_arrive env i))"

text \<open>
  The socket is open and not yet handed over, and what waits in it has arrived.
\<close>

definition running :: "nat_env \<Rightarrow> int \<Rightarrow> nat_t \<Rightarrow> bool" where
  "running env fd st \<longleftrightarrow> nt_open st = [fd] \<and> nat_udp_fd (nr st) = -1 \<and> (\<forall>x \<in> set (pending st). arrived env x)"

definition ended :: "nat_env \<Rightarrow> u32 \<Rightarrow> u64 \<Rightarrow> int \<Rightarrow> int \<times> nat_t \<Rightarrow> bool" where
  "ended env relay tran fd = (\<lambda>(r, st). if r = 0
     then (\<exists>d. arrived env (Datagram relay NAT_T_PORT d) \<and> accepts tran d (nr st)) \<and>
       (if same_lan (nr st) \<noteq> 0 then nat_udp_fd (nr st) = -1 \<and> nt_open st = []
        else nat_udp_fd (nr st) = fd \<and> nt_open st = [fd])
     else r = -1 \<and> nat_error (nr st) \<noteq> NAT_T_ERR_OK \<and> nat_udp_fd (nr st) = -1 \<and> nt_open st = [])"

lemma ended_fail: "running env fd st \<Longrightarrow> ended env relay tran fd (nat_fail fd st)"
  by (simp add: ended_def nat_fail_def nat_close_def running_def nat_errors)

lemma drain_running:
  assumes "running env fd st" "nat_t_drain relay tran (pending st @ nt_arrive env i) st = (v, st')"
  shows "running env fd st'" "v = Accepted \<Longrightarrow> ended env relay tran fd (nat_accept fd st')"
    "v = Refused \<Longrightarrow> ended env relay tran fd (-1, nat_close fd st')"
proof -
  have q: "\<forall>x \<in> set (pending st @ nt_arrive env i). arrived env x"
    using assms(1) by (auto simp: running_def arrived_def)
  note k = drain_keeps [OF assms(2)] and v = drain_verdict [OF assms(2)]
  show "running env fd st'" using k q assms(1) by (auto simp: running_def)
  then show "ended env relay tran fd (nat_accept fd st')" if "v = Accepted"
    using v q that by (auto simp: ended_def nat_accept_def nat_close_def running_def Let_def)
  show "ended env relay tran fd (-1, nat_close fd st')" if "v = Refused"
    using v k assms(1) that by (auto simp: ended_def nat_close_def running_def)
qed

lemma loop_ended:
  assumes "svc_ok svc" "running env fd st" "nat_t_loop fuel env ip svc relay fd tran giveup i st = Some res"
  shows "\<exists>r. res = Ret r \<and> ended env relay tran fd r"
  using assms(2,3)
proof (induction fuel arbitrary: i st)
  case (Suc fuel)
  let ?now = "nt_tick env (Suc i)"
  obtain v u where d: "nat_t_drain relay tran (pending st @ nt_arrive env i) st = (v, u)" by fastforce
  obtain u' where s: "nat_t_send env ip tran svc ?now u = Ret u'" using send_safe [OF assms(1)] by blast
  note r = drain_running [OF Suc.prems(1) d]
  have u': "running env fd u'" using r(1) send_keeps [OF s] by (simp add: running_def)
  show ?case
  proof (cases "?now \<ge> giveup \<or> nt_cancel env i")
    case True
    then have "res = Ret (nat_fail fd st)" using Suc.prems(2) by (auto simp: nat_t_loop.simps(2) Let_def split: if_splits)
    then show ?thesis using ended_fail [OF Suc.prems(1)] by blast
  next
    case False
    then show ?thesis using Suc.prems(2) Suc.IH [OF u'] d s r(2,3)
      by (cases v) (auto simp: nat_t_loop.simps(2) Let_def simp del: split_paired_Ex)
  qed
qed simp

text \<open>It returns once the clock has passed the deadline.\<close>

lemma loop_returns:
  assumes "svc_ok svc" "nt_tick env (Suc (i + k)) \<ge> giveup" "k < fuel"
  shows "\<exists>res. nat_t_loop fuel env ip svc relay fd tran giveup i st = Some res"
  using assms(2,3)
proof (induction fuel arbitrary: i k st)
  case (Suc fuel)
  let ?now = "nt_tick env (Suc i)"
  obtain v u where d: "nat_t_drain relay tran (pending st @ nt_arrive env i) st = (v, u)" by fastforce
  obtain u' where s: "nat_t_send env ip tran svc ?now u = Ret u'" using send_safe [OF assms(1)] by blast
  show ?case
  proof (cases k)
    case 0
    then show ?thesis using Suc.prems by (simp add: nat_t_loop.simps(2) Let_def)
  next
    case (Suc j)
    then have "\<exists>res. nat_t_loop fuel env ip svc relay fd tran giveup (Suc i) u' = Some res"
      using Suc.IH [of "Suc i" j u'] Suc.prems by simp
    then show ?thesis using d s by (cases v) (auto simp: nat_t_loop.simps(2) Let_def)
  qed
qed simp

section \<open>One request per default timeout\<close>

text \<open>
  Once a request is out, the next one is due 12.8 seconds later at the earliest, so a deadline
  at most that far away is reached first.
\<close>

definition one_request :: "nat \<Rightarrow> nat_t \<Rightarrow> bool" where
  "one_request giveup st \<longleftrightarrow> sent st = [] \<and> num_tries st = 0 \<and> nt_next_send st = 0 \<or>
     length (sent st) \<le> 1 \<and> giveup \<le> nt_next_send st \<and> 0 < nt_next_send st"

lemma send_one_request:
  assumes "one_request giveup st" "nat_t_send env ip tran svc now st = Ret st'" "now < giveup" "giveup \<le> now + 12800"
  shows "one_request giveup st'"
  using assms
  by (auto simp: one_request_def nat_t_send_def NAT_T_CONNECT_INTERVAL_def NAT_T_MAX_BACKOFF_EXP_def Let_def
      split: if_splits outcome.splits)

lemma loop_one_request:
  assumes "\<forall>j. giveup \<le> nt_tick env (Suc j) + 12800" "one_request giveup st"
    "nat_t_loop fuel env ip svc relay fd tran giveup i st = Some (Ret (r, st'))"
  shows "length (sent st') \<le> 1"
  using assms(2,3)
proof (induction fuel arbitrary: i st)
  case (Suc fuel)
  let ?now = "nt_tick env (Suc i)"
  obtain v u where d: "nat_t_drain relay tran (pending st @ nt_arrive env i) st = (v, u)" by fastforce
  have u: "one_request giveup u" using drain_keeps [OF d] Suc.prems(1) by (simp add: one_request_def)
  have len: "one_request giveup x \<Longrightarrow> length (sent x) \<le> 1" for x by (auto simp: one_request_def)
  show ?case
  proof (cases "?now < giveup \<and> \<not> nt_cancel env i \<and> v = Ignored")
    case True
    then obtain u' where s: "nat_t_send env ip tran svc ?now u = Ret u'"
        "nat_t_loop fuel env ip svc relay fd tran giveup (Suc i) u' = Some (Ret (r, st'))"
      using Suc.prems(2) d by (auto simp: nat_t_loop.simps(2) Let_def split: outcome.splits)
    have "one_request giveup u'" using send_one_request [OF u s(1)] True assms(1) by blast
    from Suc.IH [OF this s(2)] show ?thesis .
  next
    case False
    then show ?thesis
      using Suc.prems len [OF Suc.prems(1)] len [OF u] d
      by (cases v) (auto simp: nat_t_loop.simps(2) nat_fail_def nat_accept_def nat_close_def Let_def split: if_splits)
  qed
qed simp

section \<open>A reply that arrives in time\<close>

text \<open>The elements of a relay's positive reply for the transaction, in any order and among others.\<close>

definition positive_reply :: "u64 \<Rightarrow> u32 \<Rightarrow> u32 \<Rightarrow> pelem list \<Rightarrow> bool" where
  "positive_reply tran ip port es \<longleftrightarrow> (\<forall>e \<in> set es. elem_ok e) \<and> length es \<le> PACK_MAX_ELEMENTS \<and>
     length (ser_pack es) \<le> NAT_T_RESP_BUF_SIZE \<and>
     lookup_int64 es (lit ''tran_id'') = Some tran \<and>
     lookup_str es (lit ''opcode'') = Some (lit ''nat_t_connect_request'') \<and>
     (\<exists>k. lookup_int es (lit ''ok'') = Some k \<and> k \<noteq> 0) \<and>
     lookup_int es (lit ''multi_candidates'') \<in> {None, Some 0} \<and>
     lookup_str es (lit ''result_ip'') = Some (dotted ip) \<and> ip \<noteq> 0 \<and>
     lookup_int es (lit ''result_port'') = Some port \<and> 0 < port \<and> port \<le> 65535"

definition lan_of :: "pelem list \<Rightarrow> u32" where
  "lan_of es = (case lookup_int es (lit ''same_lan'') of Some v \<Rightarrow> v | None \<Rightarrow> 0)"

lemma reply_address:
  assumes "positive_reply tran ip port es"
  shows "response_address (ser_pack es) = Some (ip, ucast port)"
proof -
  have ok: "\<forall>e \<in> set es. elem_ok e" "length es \<le> PACK_MAX_ELEMENTS" using assms by (simp_all add: positive_reply_def)
  note g = pack_get_ser [OF ok, of "[]", simplified]
  have "take 15 (dotted ip) = dotted ip" using dotted_length [of ip] by (simp add: INET_ADDRSTRLEN_def)
  then have "pack_get_str (ser_pack es) (lit ''result_ip'') INET_ADDRSTRLEN = Some (dotted ip)"
    using assms g by (simp add: positive_reply_def INET_ADDRSTRLEN_def)
  moreover have "pack_get_int (ser_pack es) (lit ''result_port'') = Some port"
    using assms g by (simp add: positive_reply_def)
  ultimately show ?thesis
    unfolding response_address_def using assms inet_roundtrip(2) [of ip] dotted_cstring [of ip]
    by (auto simp: positive_reply_def not_less)
qed

lemma parse_positive:
  assumes "positive_reply tran ip port es"
  shows "\<exists>c'. nat_t_parse_response (ser_pack es) tran c r = (Accepted, c',
    r\<lparr>result_ip := ip, result_port := ucast port, same_lan := lan_of es, nat_error := NAT_T_ERR_OK\<rparr>)"
proof -
  have ok: "\<forall>e \<in> set es. elem_ok e" "length es \<le> PACK_MAX_ELEMENTS" using assms by (simp_all add: positive_reply_def)
  note g = pack_get_ser [OF ok, of "[]", simplified]
  have t: "pack_get_int64 (ser_pack es) (lit ''tran_id'') = Some tran" using assms g by (simp add: positive_reply_def)
  have "take 63 (lit ''nat_t_connect_request'') = lit ''nat_t_connect_request''" "cstring (lit ''nat_t_connect_request'')"
    by (simp_all add: lit_def cstring_def)
  then have o: "map_option cstr_of (pack_get_str (ser_pack es) (lit ''opcode'') 64) = Some (lit ''nat_t_connect_request'')"
    using assms g by (simp add: positive_reply_def)
  have k: "int_or_zero (ser_pack es) (lit ''ok'') \<noteq> 0" "int_or_zero (ser_pack es) (lit ''multi_candidates'') = 0"
      "int_or_zero (ser_pack es) (lit ''same_lan'') = lan_of es"
    using assms g by (auto simp: positive_reply_def int_or_zero_def lan_of_def)
  show ?thesis unfolding nat_t_parse_response_def using t o k reply_address [OF assms] by (simp add: Let_def)
qed

text \<open>A datagram that is passed over: not empty, and not the relay's.\<close>

fun passed :: "u32 \<Rightarrow> nat_recv \<Rightarrow> bool" where
  "passed relay (Datagram ip port d) = (d \<noteq> [] \<and> (ip \<noteq> relay \<or> port \<noteq> NAT_T_PORT))"
| "passed relay Recv_failed = False"

lemma drain_passed:
  "\<forall>x \<in> set fs. passed relay x \<Longrightarrow> nat_t_drain relay tran (fs @ q) st = nat_t_drain relay tran q st"
proof (induction fs)
  case (Cons x fs)
  then show ?case by (cases x) (auto simp: drain_other(1) NAT_T_RESP_BUF_SIZE_def)
qed simp

lemma ser_pack_take:
  "positive_reply tran ip port es \<Longrightarrow> take NAT_T_RESP_BUF_SIZE (ser_pack es) = ser_pack es"
  "ser_pack es \<noteq> []"
  by (simp_all add: positive_reply_def ser_pack_def put_be32_def)

lemma drain_positive:
  assumes "positive_reply tran ip port es" "\<forall>x \<in> set fs. passed relay x"
  shows "\<exists>st'. nat_t_drain relay tran (fs @ Datagram relay NAT_T_PORT (ser_pack es) # q) st = (Accepted, st') \<and>
    nr st' = (nr st)\<lparr>result_ip := ip, result_port := ucast port, same_lan := lan_of es, nat_error := NAT_T_ERR_OK\<rparr>"
proof -
  obtain c' where "nat_t_parse_response (take NAT_T_RESP_BUF_SIZE (ser_pack es)) tran (current_cookie st) (nr st) =
      (Accepted, c', (nr st)\<lparr>result_ip := ip, result_port := ucast port, same_lan := lan_of es, nat_error := NAT_T_ERR_OK\<rparr>)"
    using parse_positive [OF assms(1)] ser_pack_take(1) [OF assms(1)] by metis
  from drain_relay [OF _ this, of relay q] show ?thesis
    using drain_passed [OF assms(2)] ser_pack_take(1) [OF assms(1)] ser_pack_take(2) [of es] by simp
qed

lemma loop_accepts:
  assumes svc: "svc_ok svc"
    and time: "\<forall>j \<le> k. nt_tick env (Suc (i + j)) < giveup \<and> \<not> nt_cancel env (i + j)"
    and before: "\<forall>j < k. \<forall>x \<in> set (nt_arrive env (i + j)). passed relay x"
    and at: "nt_arrive env (i + k) = fs @ Datagram relay NAT_T_PORT (ser_pack es) # q" "\<forall>x \<in> set fs. passed relay x"
    and reply: "positive_reply tran ip port es" and fuel: "k < fuel" and st: "pending st = []"
  shows "\<exists>st'. nat_t_loop fuel env server svc relay fd tran giveup i st = Some (Ret (0, st')) \<and>
    result_ip (nr st') = ip \<and> result_port (nr st') = ucast port \<and> same_lan (nr st') = lan_of es"
  using time before at fuel st
proof (induction k arbitrary: i st fuel)
  case 0
  obtain n where n: "fuel = Suc n" using "0.prems"(5) by (cases fuel) simp_all
  obtain st' where "nat_t_drain relay tran (nt_arrive env i) st = (Accepted, st')"
    "nr st' = (nr st)\<lparr>result_ip := ip, result_port := ucast port, same_lan := lan_of es, nat_error := NAT_T_ERR_OK\<rparr>"
    using drain_positive [OF reply "0.prems"(4), of q st] "0.prems"(3) by auto
  then show ?case using "0.prems"(1,6)
    by (auto simp: n nat_t_loop.simps(2) nat_accept_def nat_close_def Let_def)
next
  case (Suc k)
  obtain n where n: "fuel = Suc n" using Suc.prems(5) by (cases fuel) simp_all
  have "nat_t_drain relay tran (nt_arrive env i @ []) st = nat_t_drain relay tran [] st"
    by (rule drain_passed) (use Suc.prems(2) in force)
  then have d: "nat_t_drain relay tran (pending st @ nt_arrive env i) st = (Ignored, st\<lparr>pending := []\<rparr>)"
    using Suc.prems(6) by simp
  obtain u where s: "nat_t_send env server tran svc (nt_tick env (Suc i)) (st\<lparr>pending := []\<rparr>) = Ret u"
    using send_safe [OF svc] by blast
  have t: "nt_tick env (Suc i) < giveup" "\<not> nt_cancel env i" using Suc.prems(1) by force+
  have "nat_t_loop fuel env server svc relay fd tran giveup i st =
      nat_t_loop n env server svc relay fd tran giveup (Suc i) u"
    using t d s by (simp add: n nat_t_loop.simps(2) Let_def)
  moreover have "\<exists>st'. nat_t_loop n env server svc relay fd tran giveup (Suc i) u = Some (Ret (0, st')) \<and>
      result_ip (nr st') = ip \<and> result_port (nr st') = ucast port \<and> same_lan (nr st') = lan_of es"
  proof (rule Suc.IH)
    show "\<forall>j \<le> k. nt_tick env (Suc (Suc i + j)) < giveup \<and> \<not> nt_cancel env (Suc i + j)"
      "\<forall>j < k. \<forall>x \<in> set (nt_arrive env (Suc i + j)). passed relay x"
      using Suc.prems(1,2) by force+
  qed (use Suc.prems(3-5) n send_keeps(3) [OF s] in simp_all)
  ultimately show ?case by simp
qed

section \<open>Properties\<close>

text \<open>Where a call gets to: it ends before the loop, or is the loop on a fresh state.\<close>

lemma connect_cases:
  obtains (early) st where "nat_t_connect fuel env ip svc timeout = Some (Ret (-1, st))"
      "nat_error (nr st) \<noteq> NAT_T_ERR_OK" "nat_udp_fd (nr st) = -1" "nt_open st = []" "sent st = []"
  | (loop) host relay fd where "nat_t_build_hostname (nt_sha1 env) ip NAT_T_HOSTNAME_MAX = Some host"
      "nat_t_resolve_relay env host = Some relay" "nt_socket env = Some fd" "nt_bind env"
      "nat_t_connect fuel env ip svc timeout = nat_t_loop fuel env ip (svc_of svc) relay fd (tran_id_of (nt_random env))
         (nt_tick env 0 + (if timeout = 0 then NAT_T_DEFAULT_TIMEOUT_MS else timeout)) 0 (nat_init [fd])"
proof -
  obtain host where h: "nat_t_build_hostname (nt_sha1 env) ip NAT_T_HOSTNAME_MAX = Some host"
    by (simp add: nat_t_build_hostname_def Let_def)
  note d = nat_t_connect_def nat_t_create_udp_socket_def nat_init_def nat_errors Let_def
  show ?thesis
  proof (cases "nat_t_resolve_relay env host")
    case None
    then show ?thesis
      by (intro early [of "(nat_init [])\<lparr>nr := (nr (nat_init []))\<lparr>nat_error := NAT_T_ERR_GETIP_FAILED\<rparr>\<rparr>"]) (simp_all add: d h)
  next
    case (Some relay)
    show ?thesis
    proof (cases "\<exists>fd. nt_socket env = Some fd \<and> nt_bind env")
      case True
      then show ?thesis using Some h by (auto intro!: loop simp: nat_t_connect_def nat_t_create_udp_socket_def Let_def)
    next
      case False
      then show ?thesis using Some h by (intro early [of "nat_init []"]) (auto simp: d split: option.splits)
    qed
  qed
qed

lemma connect_result:
  assumes "svc_ok (svc_of svc)" "nat_t_connect fuel env ip svc timeout = Some res"
  shows "\<exists>r st. res = Ret (r, st) \<and>
    (r = 0 \<and> result_ip (nr st) \<noteq> 0 \<and> result_port (nr st) \<noteq> 0 \<and>
       (\<exists>host relay d. nat_t_build_hostname (nt_sha1 env) ip NAT_T_HOSTNAME_MAX = Some host \<and>
          nat_t_resolve_relay env host = Some relay \<and> arrived env (Datagram relay NAT_T_PORT d) \<and>
          accepts (tran_id_of (nt_random env)) d (nr st)) \<and>
       (if same_lan (nr st) \<noteq> 0 then nat_udp_fd (nr st) = -1 \<and> nt_open st = []
        else nt_socket env = Some (nat_udp_fd (nr st)) \<and> nt_open st = [nat_udp_fd (nr st)]) \<or>
     r = -1 \<and> nat_error (nr st) \<noteq> NAT_T_ERR_OK \<and> nat_udp_fd (nr st) = -1 \<and> nt_open st = [])"
proof (cases rule: connect_cases [of fuel env ip svc timeout])
  case (early st)
  then show ?thesis using assms(2) by auto
next
  case (loop host relay fd)
  have "running env fd (nat_init [fd])" by (simp add: running_def nat_init_def)
  note e = loop_ended [OF assms(1) this, of fuel ip relay "tran_id_of (nt_random env)"]
  from e [OF loop(5) [symmetric, unfolded assms(2)]]
  obtain r st where r: "res = Ret (r, st)" and e: "ended env relay (tran_id_of (nt_random env)) fd (r, st)" by auto
  show ?thesis
  proof (cases "r = 0")
    case True
    with e obtain d where d: "arrived env (Datagram relay NAT_T_PORT d)" "accepts (tran_id_of (nt_random env)) d (nr st)"
      by (auto simp: ended_def)
    have "result_ip (nr st) \<noteq> 0 \<and> result_port (nr st) \<noteq> 0"
      by (rule response_address_range [of "take NAT_T_RESP_BUF_SIZE d"]) (use d(2) in \<open>simp add: accepts_def Let_def\<close>)
    moreover have "if same_lan (nr st) \<noteq> 0 then nat_udp_fd (nr st) = -1 \<and> nt_open st = []
        else nt_socket env = Some (nat_udp_fd (nr st)) \<and> nt_open st = [nat_udp_fd (nr st)]"
      using e True loop(3) by (simp add: ended_def)
    ultimately show ?thesis using r True d loop(1,2) by blast
  next
    case False
    then show ?thesis using r e by (simp add: ended_def)
  qed
qed

text \<open>
  C15: what the rendezvous ends in. Whatever the relay and the network do, a call that returns
  does so without a memory fault, in one of two ways: with 0, an address and a port that are
  not zero and that came from the relay's address and port in a positive response to this
  transaction, and with the socket open and handed over (or closed, when the server is on the
  same LAN); or with -1, an error code, and no descriptor left open.
\<close>

theorem nat_t_outcome:
  assumes "svc_ok (svc_of svc)" "nat_t_connect fuel env ip svc timeout = Some res"
  shows "\<exists>r st. res = Ret (r, st) \<and>
    (r = 0 \<and> result_ip (nr st) \<noteq> 0 \<and> result_port (nr st) \<noteq> 0 \<and>
       (\<exists>host relay d. nat_t_build_hostname (nt_sha1 env) ip NAT_T_HOSTNAME_MAX = Some host \<and>
          nat_t_resolve_relay env host = Some relay \<and> arrived env (Datagram relay NAT_T_PORT d) \<and>
          accepts (tran_id_of (nt_random env)) d (nr st)) \<and>
       (if same_lan (nr st) \<noteq> 0 then nat_udp_fd (nr st) = -1 \<and> nt_open st = []
        else nt_socket env = Some (nat_udp_fd (nr st)) \<and> nt_open st = [nat_udp_fd (nr st)]) \<or>
     r = -1 \<and> nat_error (nr st) \<noteq> NAT_T_ERR_OK \<and> nat_udp_fd (nr st) = -1 \<and> nt_open st = [])"
  by (rule connect_result [OF assms])

lemma connect_returns:
  assumes "svc_ok (svc_of svc)" "k < fuel"
    "nt_tick env 0 + (if timeout = 0 then NAT_T_DEFAULT_TIMEOUT_MS else timeout) \<le> nt_tick env (Suc k)"
  shows "\<exists>res. nat_t_connect fuel env ip svc timeout = Some res"
proof (cases rule: connect_cases [of fuel env ip svc timeout])
  case (loop host relay fd)
  with loop_returns [OF assms(1), of _ env 0 k fuel] assms(2,3) show ?thesis by simp
qed simp

text \<open>
  The rendezvous gives up. When the clock passes the deadline at the \<open>k\<close>-th round, the call
  returns within that round, whatever arrives.
\<close>

theorem nat_t_returns:
  assumes "svc_ok (svc_of svc)" "k < fuel"
    "nt_tick env 0 + (if timeout = 0 then NAT_T_DEFAULT_TIMEOUT_MS else timeout) \<le> nt_tick env (Suc k)"
  shows "\<exists>res. nat_t_connect fuel env ip svc timeout = Some res"
  by (rule connect_returns [OF assms])

text \<open>
  Within a timeout of up to 12.8 seconds, and so within the default of 12, at most one
  request is sent: the first interval is already 200 ms times 64, since the exponent never is
  below \<^verbatim>\<open>NAT_T_MAX_BACKOFF_EXP\<close>. A lost request is not repeated, and a cookie the relay hands
  out is not used.
\<close>

theorem nat_t_single_request:
  assumes "timeout \<le> 12800" "\<forall>j. nt_tick env 0 \<le> nt_tick env (Suc j)"
    "nat_t_connect fuel env ip svc timeout = Some (Ret (r, st))"
  shows "length (sent st) \<le> 1"
proof (cases rule: connect_cases [of fuel env ip svc timeout])
  case (early st)
  then show ?thesis using assms(3) by simp
next
  case (loop host relay fd)
  let ?g = "nt_tick env 0 + (if timeout = 0 then NAT_T_DEFAULT_TIMEOUT_MS else timeout)"
  have "(if timeout = 0 then NAT_T_DEFAULT_TIMEOUT_MS else timeout) \<le> 12800"
    using assms(1) by (simp add: NAT_T_DEFAULT_TIMEOUT_MS_def)
  then have "\<forall>j. ?g \<le> nt_tick env (Suc j) + 12800" using assms(2) by (meson add_mono)
  moreover have "one_request ?g (nat_init [fd])" by (simp add: one_request_def nat_init_def)
  ultimately show ?thesis using loop_one_request loop(5) assms(3) by metis
qed

lemma connect_accepts:
  assumes svc: "svc_ok (svc_of svc)" and sock: "nt_socket env = Some fd" "nt_bind env"
    and relay: "nat_t_build_hostname (nt_sha1 env) ip NAT_T_HOSTNAME_MAX = Some host"
      "nat_t_resolve_relay env host = Some relay"
    and time: "\<forall>j \<le> k. nt_tick env (Suc j) < nt_tick env 0 + (if timeout = 0 then NAT_T_DEFAULT_TIMEOUT_MS else timeout) \<and>
      \<not> nt_cancel env j"
    and before: "\<forall>j < k. \<forall>x \<in> set (nt_arrive env j). passed relay x"
    and at: "nt_arrive env k = fs @ Datagram relay NAT_T_PORT (ser_pack es) # q" "\<forall>x \<in> set fs. passed relay x"
    and reply: "positive_reply (tran_id_of (nt_random env)) pub port es" and fuel: "k < fuel"
  shows "\<exists>st. nat_t_connect fuel env ip svc timeout = Some (Ret (0, st)) \<and>
    result_ip (nr st) = pub \<and> result_port (nr st) = ucast port \<and> same_lan (nr st) = lan_of es"
proof -
  have "nat_t_connect fuel env ip svc timeout = nat_t_loop fuel env ip (svc_of svc) relay fd (tran_id_of (nt_random env))
      (nt_tick env 0 + (if timeout = 0 then NAT_T_DEFAULT_TIMEOUT_MS else timeout)) 0 (nat_init [fd])"
    using relay sock by (simp add: nat_t_connect_def nat_t_create_udp_socket_def)
  then show ?thesis
    using loop_accepts [OF svc, of k env 0 _ relay fs es q _ pub port fuel "nat_init [fd]" ip fd] time before at reply fuel
    by (simp add: nat_init_def)
qed

text \<open>
  C16: a reply in time is taken. When the relay's positive reply to this transaction arrives
  before the deadline and nothing from the relay comes before it, the call returns 0 with the
  address and the port of the reply, whatever strangers send meanwhile.
\<close>

theorem nat_t_rendezvous:
  assumes svc: "svc_ok (svc_of svc)" and sock: "nt_socket env = Some fd" "nt_bind env"
    and relay: "nat_t_build_hostname (nt_sha1 env) ip NAT_T_HOSTNAME_MAX = Some host"
      "nat_t_resolve_relay env host = Some relay"
    and time: "\<forall>j \<le> k. nt_tick env (Suc j) < nt_tick env 0 + (if timeout = 0 then NAT_T_DEFAULT_TIMEOUT_MS else timeout) \<and>
      \<not> nt_cancel env j"
    and before: "\<forall>j < k. \<forall>x \<in> set (nt_arrive env j). passed relay x"
    and at: "nt_arrive env k = fs @ Datagram relay NAT_T_PORT (ser_pack es) # q" "\<forall>x \<in> set fs. passed relay x"
    and reply: "positive_reply (tran_id_of (nt_random env)) pub port es" and fuel: "k < fuel"
  shows "\<exists>st. nat_t_connect fuel env ip svc timeout = Some (Ret (0, st)) \<and>
    result_ip (nr st) = pub \<and> result_port (nr st) = ucast port \<and> same_lan (nr st) = lan_of es"
  by (rule connect_accepts [OF assms])

text \<open>
  The relay can read what it is sent. With memory available, a request is a PACK from
  which the readers get the operation, the transaction number, the text of the server's
  address (which \<^verbatim>\<open>inet_pton\<close> turns back into the address), the cookie and the service name.
\<close>

theorem nat_t_request_readable:
  assumes "svc_ok svc" "\<forall>n. can_alloc h n"
  shows "\<exists>b. nat_t_request h tran (nat_t_ip_to_str ip INET_ADDRSTRLEN) cookie svc = Ret b \<and>
    pack_get_str b (lit ''opcode'') 64 = Some (lit ''nat_t_connect_request'') \<and>
    pack_get_int64 b (lit ''tran_id'') = Some tran \<and>
    (pack_get_str b (lit ''dest_ip'') INET_ADDRSTRLEN \<bind> inet_pton) = Some ip \<and>
    pack_get_int64 b (lit ''cookie'') = Some cookie \<and>
    pack_get_str b (lit ''svc_name'') (Suc (length svc)) = Some svc \<and>
    pack_get_int b (lit ''nat_traversal_version'') = Some 1"
proof -
  let ?s = "nat_t_ip_to_str ip INET_ADDRSTRLEN"
  let ?es = "request_elems tran ?s cookie svc"
  note ok = request_elems_ok [OF assms(1), where tran = tran and ip = ip and c = cookie]
  obtain p where p: "pack_new h = Some p" using assms(2) by (auto simp: pack_new_def malloc_def)
  obtain q where q: "add_each h p ?es = Ret q" "pack_rep q ?es"
    using add_each_all [OF pack_new_rep [OF p] assms(2), of ?es] ok(2) by auto
  have ne: "?es \<noteq> []" "length ?es \<le> PACK_MAX_ELEMENTS" by (simp_all add: request_elems_def PACK_MAX_ELEMENTS_def)
  have b: "nat_t_request h tran ?s cookie svc = Ret (ser_pack ?es)"
    using p q pack_rep_body [OF q(2) ne(1)] by (simp add: nat_t_request_def)
  note g = pack_get_ser [OF ok(1) ne(2), of "[]", simplified]
  have s: "?s = dotted ip" by (simp add: nat_t_ip_to_str_def inet_roundtrip(1))
  have l: "lookup_str ?es (lit ''opcode'') = Some (lit ''nat_t_connect_request'')"
      "lookup_int64 ?es (lit ''tran_id'') = Some tran" "lookup_str ?es (lit ''dest_ip'') = Some ?s"
      "lookup_int64 ?es (lit ''cookie'') = Some cookie" "lookup_str ?es (lit ''svc_name'') = Some svc"
      "lookup_int ?es (lit ''nat_traversal_version'') = Some 1"
    by (simp_all add: request_elems_def lookups pack_lookup_def elem_matches_def lit_def cstr_of_def pack_types
        NAT_T_TRAVERSAL_VERSION_def)
  have t: "take 63 (lit ''nat_t_connect_request'') = lit ''nat_t_connect_request''" "take 15 (dotted ip) = dotted ip"
    using dotted_length [of ip] by (simp_all add: lit_def INET_ADDRSTRLEN_def)
  show ?thesis
    using b g l t s inet_roundtrip(2) [of ip] by (intro exI [of _ "ser_pack ?es"]) (simp add: INET_ADDRSTRLEN_def)
qed

section \<open>Witnesses\<close>

definition reply0 :: "pelem list" where
  "reply0 = [(lit ''opcode'', VStr (lit ''nat_t_connect_request'')), (lit ''tran_id'', VInt64 0x0101010101010101),
     (lit ''ok'', VInt 1), (lit ''result_ip'', VStr (dotted 0x04030201)), (lit ''result_port'', VInt 4000)]"

text \<open>The relay answers at the second round, behind a stranger's datagram.\<close>

definition nat_env0 :: nat_env where
  "nat_env0 = \<lparr>nt_heap = \<lparr>can_alloc = (\<lambda>_. True), junk = (\<lambda>_. 0)\<rparr>, nt_sha1 = (\<lambda>_. replicate 20 0),
     nt_resolve = (\<lambda>_. Some [None, Some 77]), nt_socket = Some 5, nt_bind = True, nt_random = [1, 1, 1, 1, 1, 1, 1, 1],
     nt_tick = (\<lambda>n. n * 50), nt_cancel = (\<lambda>_. False),
     nt_arrive = (\<lambda>i. if i = 1 then [Datagram 9 9 [1], Datagram 77 NAT_T_PORT (ser_pack reply0)] else [])\<rparr>"

lemma tran_id0: "tran_id_of (nt_random nat_env0) = 0x0101010101010101"
  by (simp add: tran_id_of_def nat_env0_def Let_def)

lemma svc_ok_default: "svc_ok (svc_of None)"
  by (simp add: svc_ok_def svc_of_def NAT_T_SVC_NAME_def lit_def)

lemma reply0_positive: "positive_reply 0x0101010101010101 0x04030201 4000 reply0"
proof -
  have "length (dotted 0x04030201) < 16" using dotted_length [of "0x04030201"] by (simp add: INET_ADDRSTRLEN_def)
  then show ?thesis
    by (simp add: positive_reply_def reply0_def elem_ok_def ser_elem_def ser_pack_def lookups pack_lookup_def elem_matches_def
        lit_def cstr_of_def pack_types PACK_MAX_ELEMENTS_def NAT_T_RESP_BUF_SIZE_def)
qed

lemma relay0: "\<exists>host. nat_t_build_hostname (nt_sha1 nat_env0) ip NAT_T_HOSTNAME_MAX = Some host \<and>
    nat_t_resolve_relay nat_env0 host = Some 77"
  by (simp add: nat_t_build_hostname_def nat_t_resolve_relay_def nat_env0_def Let_def)

lemma nat_env0_connects:
  "\<exists>st. nat_t_connect 5 nat_env0 1 None 0 = Some (Ret (0, st)) \<and>
     result_ip (nr st) = 0x04030201 \<and> result_port (nr st) = ucast (4000 :: u32) \<and> same_lan (nr st) = lan_of reply0"
proof -
  obtain host where h: "nat_t_build_hostname (nt_sha1 nat_env0) 1 NAT_T_HOSTNAME_MAX = Some host"
      "nat_t_resolve_relay nat_env0 host = Some 77" using relay0 by blast
  show ?thesis
    by (rule connect_accepts [OF svc_ok_default _ _ h, where k = 1 and fs = "[Datagram 9 9 [1]]" and q = "[]" and fd = 5])
      (use reply0_positive tran_id0 in \<open>auto simp: nat_env0_def NAT_T_DEFAULT_TIMEOUT_MS_def\<close>)
qed

theorem nat_t_outcome_witness:
  "\<exists>st. nat_t_connect 5 nat_env0 1 None 0 = Some (Ret (0, st)) \<and> nt_open st = [5] \<and> nat_udp_fd (nr st) = 5"
proof -
  obtain st where st: "nat_t_connect 5 nat_env0 1 None 0 = Some (Ret (0, st))" "same_lan (nr st) = lan_of reply0"
    using nat_env0_connects by blast
  have "lan_of reply0 = 0"
    by (simp add: lan_of_def reply0_def lookups pack_lookup_def elem_matches_def lit_def cstr_of_def pack_types)
  with nat_t_outcome [OF svc_ok_default st(1)] st show ?thesis by (auto simp: nat_env0_def)
qed

theorem nat_t_returns_witness: "\<exists>res. nat_t_connect 300 nat_env0 1 None 0 = Some res"
  using nat_t_returns [OF svc_ok_default, of 240 300 nat_env0 0 1]
  by (simp add: nat_env0_def NAT_T_DEFAULT_TIMEOUT_MS_def)

theorem nat_t_single_request_witness:
  "\<exists>st. nat_t_connect 5 nat_env0 1 None 0 = Some (Ret (0, st)) \<and> length (sent st) \<le> 1"
proof -
  obtain st where st: "nat_t_connect 5 nat_env0 1 None 0 = Some (Ret (0, st))" using nat_env0_connects by blast
  have "length (sent st) \<le> 1" by (rule nat_t_single_request [OF _ _ st]) (simp_all add: nat_env0_def)
  with st show ?thesis by blast
qed

theorem nat_t_rendezvous_witness:
  "\<exists>st. nat_t_connect 5 nat_env0 1 None 0 = Some (Ret (0, st)) \<and> result_ip (nr st) = 0x04030201"
proof -
  obtain host where h: "nat_t_build_hostname (nt_sha1 nat_env0) 1 NAT_T_HOSTNAME_MAX = Some host"
      "nat_t_resolve_relay nat_env0 host = Some 77" using relay0 by blast
  have "\<exists>st. nat_t_connect 5 nat_env0 1 None 0 = Some (Ret (0, st)) \<and> result_ip (nr st) = 0x04030201 \<and>
      result_port (nr st) = ucast (4000 :: u32) \<and> same_lan (nr st) = lan_of reply0"
    by (rule nat_t_rendezvous [OF svc_ok_default _ _ h, where k = 1 and fs = "[Datagram 9 9 [1]]" and q = "[]" and fd = 5])
      (use reply0_positive tran_id0 in \<open>auto simp: nat_env0_def NAT_T_DEFAULT_TIMEOUT_MS_def\<close>)
  then show ?thesis by blast
qed

theorem nat_t_request_readable_witness:
  "\<exists>b. nat_t_request (nt_heap nat_env0) 7 (nat_t_ip_to_str 1 INET_ADDRSTRLEN) 3 NAT_T_SVC_NAME = Ret b \<and>
     pack_get_int64 b (lit ''tran_id'') = Some 7"
  using nat_t_request_readable [of NAT_T_SVC_NAME "nt_heap nat_env0" 7 1 3]
  by (auto simp: svc_ok_def NAT_T_SVC_NAME_def lit_def nat_env0_def)

end
