(* ===== verification/Tcp_Socket.thy ===== *)
theory Tcp_Socket
  imports Inet "HOL-Library.Multiset" "HOL-Library.Signed_Division"
begin

text \<open>
  The TCP sockets of \<^verbatim>\<open>tcp_socket.c\<close>: creation, name resolution, the non-blocking connect
  with its pass over both address families, the exact send and receive loops, and the
  options. The operating system is explicit: \<open>os_env\<close> holds the answers of its calls, by the
  number of the call where they may differ, and \<open>os\<close> what it has been asked to do so far,
  with the list of descriptors opened and closed. Name resolution and the text form of IPv6
  addresses are answers of the environment; IPv4 text is computed.
\<close>

section \<open>Data\<close>

datatype sock_family = AF_INET | AF_INET6 | AF_UNSPEC | AF_OTHER nat

datatype sock_kind = SOCK_STREAM | SOCK_DGRAM

text \<open>A socket address, with the family its \<^verbatim>\<open>ai_family\<close> or \<^verbatim>\<open>ss_family\<close> names.\<close>

datatype sockaddr = Sin u32 u16 | Sin6 bytes u16 | Sa_other nat

fun sa_family :: "sockaddr \<Rightarrow> sock_family" where
  "sa_family (Sin _ _) = AF_INET"
| "sa_family (Sin6 _ _) = AF_INET6"
| "sa_family (Sa_other n) = AF_OTHER n"

definition SOCKET_TYPE_TCP :: int where "SOCKET_TYPE_TCP = 0"
definition SOCKET_TYPE_UDP :: int where "SOCKET_TYPE_UDP = 1"
definition SOCKET_TIMEOUT_MS :: int where "SOCKET_TIMEOUT_MS = 30000"
definition EBADF :: int where "EBADF = 9"

text \<open>\<open>sk_addr\<close> is \<open>None\<close> while \<^verbatim>\<open>addr_len\<close> is zero.\<close>

record softether_socket_t =
  sk_fd :: int
  sk_type :: int
  sk_family :: sock_family
  sk_addr :: "sockaddr option"
  sk_connected :: bool
  sk_timeout_ms :: int

text \<open>
  What a \<^verbatim>\<open>connect\<close> comes to: at once, after waiting (with the \<^verbatim>\<open>SO_ERROR\<close> found then), or not.
\<close>

datatype poll_out = Poll_failed | Poll_expired | Poll_done int

datatype connect_answer = Conn_ok | Conn_pending poll_out | Conn_refused

record os_env =
  os_calloc :: bool
  os_socket :: "nat \<Rightarrow> sock_family \<Rightarrow> sock_kind \<Rightarrow> int"
  os_connect :: "nat \<Rightarrow> connect_answer"
  os_resolve :: "nat \<Rightarrow> bytes \<Rightarrow> bytes option \<Rightarrow> sock_family \<Rightarrow> sockaddr list option"
  os_pton6 :: "bytes \<Rightarrow> bytes option"
  os_ntop6 :: "bytes \<Rightarrow> nat \<Rightarrow> bytes option"
  os_so_error :: "int \<Rightarrow> int"

record os =
  sock_i :: nat
  conn_i :: nat
  gai_i :: nat
  opened :: "int list"
  os_closed :: "int list"
  nonblock :: "int \<Rightarrow> bool"
  tmo :: "int \<Rightarrow> (int \<times> int) option"
  dialled :: "sockaddr list"

section \<open>System calls\<close>

definition os_open :: "os_env \<Rightarrow> sock_family \<Rightarrow> sock_kind \<Rightarrow> os \<Rightarrow> int \<times> os" where
  "os_open env f k s = (let fd = os_socket env (sock_i s) f k in
     (fd, s\<lparr>sock_i := sock_i s + 1, opened := (if 0 \<le> fd then opened s @ [fd] else opened s)\<rparr>))"

definition os_close :: "int \<Rightarrow> os \<Rightarrow> os" where
  "os_close fd s = s\<lparr>os_closed := os_closed s @ [fd]\<rparr>"

definition set_nonblock :: "int \<Rightarrow> bool \<Rightarrow> os \<Rightarrow> os" where
  "set_nonblock fd b s = s\<lparr>nonblock := (nonblock s)(fd := b)\<rparr>"

text \<open>\<^verbatim>\<open>SO_RCVTIMEO\<close> and \<^verbatim>\<open>SO_SNDTIMEO\<close>, always set together; without effect on no socket.\<close>

definition set_tmo :: "int \<Rightarrow> int \<Rightarrow> os \<Rightarrow> os" where
  "set_tmo fd ms s = (if fd < 0 then s
     else s\<lparr>tmo := (tmo s)(fd \<mapsto> (ms sdiv 1000, (ms smod 1000) * 1000))\<rparr>)"


definition os_getaddrinfo ::
  "os_env \<Rightarrow> bytes \<Rightarrow> bytes option \<Rightarrow> sock_family \<Rightarrow> os \<Rightarrow> sockaddr list \<times> os" where
  "os_getaddrinfo env host service f s =
     ((case os_resolve env (gai_i s) host service f of None \<Rightarrow> [] | Some as \<Rightarrow> as), s\<lparr>gai_i := gai_i s + 1\<rparr>)"

text \<open>A decimal \<^verbatim>\<open>%d\<close>.\<close>

definition print_int :: "int \<Rightarrow> bytes" where
  "print_int n = (if n < 0 then 45 # decimal (nat (- n)) else decimal (nat n))"

section \<open>Creation and release\<close>

definition kind_of :: "int \<Rightarrow> sock_kind" where
  "kind_of ty = (if ty = SOCKET_TYPE_UDP then SOCK_DGRAM else SOCK_STREAM)"

definition socket_create :: "os_env \<Rightarrow> int \<Rightarrow> os \<Rightarrow> softether_socket_t option \<times> os" where
  "socket_create env ty s =
     (if \<not> os_calloc env then (None, s)
      else let (fd, s) = os_open env AF_INET (kind_of ty) s in
        if fd < 0 then (None, s)
        else (Some \<lparr>sk_fd = fd, sk_type = ty, sk_family = AF_INET, sk_addr = None, sk_connected = False,
                sk_timeout_ms = SOCKET_TIMEOUT_MS\<rparr>, set_nonblock fd True s))"

definition socket_destroy :: "softether_socket_t option \<Rightarrow> os \<Rightarrow> os" where
  "socket_destroy sock s = (case sock of
     None \<Rightarrow> s
   | Some k \<Rightarrow> if 0 \<le> sk_fd k then os_close (sk_fd k) s else s)"

section \<open>Name resolution\<close>

definition address_text :: "os_env \<Rightarrow> sockaddr \<Rightarrow> nat \<Rightarrow> bytes option" where
  "address_text env a n = (case a of
     Sin ip _ \<Rightarrow> inet_ntop ip n | Sin6 ip _ \<Rightarrow> os_ntop6 env ip n | Sa_other _ \<Rightarrow> None)"

definition resolve_hostname :: "os_env \<Rightarrow> bytes option \<Rightarrow> nat \<Rightarrow> os \<Rightarrow> bytes option \<times> os" where
  "resolve_hostname env hostname buffer_size s = (case hostname of
     None \<Rightarrow> (None, s)
   | Some h \<Rightarrow> if buffer_size = 0 then (None, s)
       else if inet_pton h \<noteq> None \<or> os_pton6 env h \<noteq> None then (Some (take (buffer_size - 1) h), s)
       else let (res, s) = os_getaddrinfo env h None AF_UNSPEC s in
         (case res of [] \<Rightarrow> (None, s) | best # _ \<Rightarrow> (address_text env best buffer_size, s)))"

definition resolve_hostname_family ::
  "os_env \<Rightarrow> bytes option \<Rightarrow> sock_family \<Rightarrow> nat \<Rightarrow> os \<Rightarrow> bytes option \<times> os" where
  "resolve_hostname_family env hostname f buffer_size s = (case hostname of
     None \<Rightarrow> (None, s)
   | Some h \<Rightarrow> if buffer_size = 0 \<or> f \<noteq> AF_INET \<and> f \<noteq> AF_INET6 then (None, s)
       else if f = AF_INET \<and> inet_pton h \<noteq> None then (Some (take (buffer_size - 1) h), s)
       else if f = AF_INET6 \<and> os_pton6 env h \<noteq> None then (Some (take (buffer_size - 1) h), s)
       else let (res, s) = os_getaddrinfo env h None f s in
         (case res of [] \<Rightarrow> (None, s) | best # _ \<Rightarrow> (address_text env best buffer_size, s)))"

section \<open>Connecting\<close>

definition socket_recreate_for_family ::
  "os_env \<Rightarrow> sock_family \<Rightarrow> softether_socket_t \<times> os \<Rightarrow> bool \<times> softether_socket_t \<times> os" where
  "socket_recreate_for_family env f = (\<lambda>(k, s).
     if f \<noteq> AF_INET \<and> f \<noteq> AF_INET6 then (False, k, s)
     else if 0 \<le> sk_fd k \<and> sk_family k = f then (True, k, s)
     else let s = (if 0 \<le> sk_fd k then os_close (sk_fd k) s else s);
              (fd, s) = os_open env f (kind_of (sk_type k)) s in
       if fd < 0 then (False, k\<lparr>sk_fd := fd, sk_family := AF_UNSPEC\<rparr>, s)
       else let s = set_nonblock fd True s in
         (True, k\<lparr>sk_fd := fd, sk_family := f\<rparr>, if 0 < sk_timeout_ms k then set_tmo fd (sk_timeout_ms k) s else s))"

definition connect_succeeds :: "connect_answer \<Rightarrow> bool" where
  "connect_succeeds a = (case a of
     Conn_ok \<Rightarrow> True
   | Conn_pending p \<Rightarrow> (case p of Poll_failed \<Rightarrow> False | Poll_expired \<Rightarrow> False | Poll_done e \<Rightarrow> e = 0)
   | Conn_refused \<Rightarrow> False)"

definition try_connect_addr ::
  "os_env \<Rightarrow> sockaddr \<Rightarrow> softether_socket_t \<times> os \<Rightarrow> bool \<times> softether_socket_t \<times> os" where
  "try_connect_addr env a ks = (case socket_recreate_for_family env (sa_family a) ks of
     (False, ks) \<Rightarrow> (False, ks)
   | (True, k, s) \<Rightarrow> (connect_succeeds (os_connect env (conn_i s)), k\<lparr>sk_addr := Some a\<rparr>,
        s\<lparr>conn_i := conn_i s + 1, dialled := dialled s @ [a]\<rparr>))"

text \<open>One pass over the resolved addresses; those of the other families are skipped.\<close>

fun connect_pass ::
  "os_env \<Rightarrow> sock_family \<Rightarrow> sockaddr list \<Rightarrow> softether_socket_t \<times> os \<Rightarrow> bool \<times> softether_socket_t \<times> os" where
  "connect_pass env f [] ks = (False, ks)"
| "connect_pass env f (a # as) ks =
     (if sa_family a \<noteq> f then connect_pass env f as ks
      else (case try_connect_addr env a ks of
          (True, ks) \<Rightarrow> (True, ks)
        | (False, ks) \<Rightarrow> connect_pass env f as ks))"

definition connected_socket :: "int \<Rightarrow> softether_socket_t \<times> os \<Rightarrow> int \<times> softether_socket_t \<times> os" where
  "connected_socket timeout_ms = (\<lambda>(k, s).
     (0, k\<lparr>sk_connected := True, sk_timeout_ms := timeout_ms\<rparr>, set_nonblock (sk_fd k) False s))"

definition hint_family :: "os_env \<Rightarrow> bytes \<Rightarrow> sock_family" where
  "hint_family env host = (if inet_pton host \<noteq> None then AF_INET
     else if os_pton6 env host \<noteq> None then AF_INET6 else AF_UNSPEC)"

definition first_family :: "sockaddr list \<Rightarrow> sock_family" where
  "first_family res = (if res \<noteq> [] \<and> sa_family (List.hd res) = AF_INET then AF_INET else AF_INET6)"

definition second_family :: "sockaddr list \<Rightarrow> sock_family" where
  "second_family res = (if first_family res = AF_INET then AF_INET6 else AF_INET)"

definition socket_connect_timeout ::
  "os_env \<Rightarrow> bytes \<Rightarrow> int \<Rightarrow> int \<Rightarrow> softether_socket_t \<times> os \<Rightarrow> int \<times> softether_socket_t \<times> os" where
  "socket_connect_timeout env host port timeout_ms = (\<lambda>(k, s).
     let (res, s) = os_getaddrinfo env host (Some (print_int port)) (hint_family env host) s in
     if res = [] then (-1, k, s)
     else (case connect_pass env (first_family res) res (k, s) of
         (True, ks) \<Rightarrow> connected_socket timeout_ms ks
       | (False, ks) \<Rightarrow> (case connect_pass env (second_family res) res ks of
             (True, ks) \<Rightarrow> connected_socket timeout_ms ks
           | (False, ks) \<Rightarrow> (-1, ks))))"

definition socket_connect ::
  "os_env \<Rightarrow> bytes \<Rightarrow> int \<Rightarrow> softether_socket_t \<times> os \<Rightarrow> int \<times> softether_socket_t \<times> os" where
  "socket_connect env host port ks = socket_connect_timeout env host port SOCKET_TIMEOUT_MS ks"

definition socket_disconnect :: "softether_socket_t \<times> os \<Rightarrow> softether_socket_t \<times> os" where
  "socket_disconnect = (\<lambda>(k, s). if 0 \<le> sk_fd k
     then (k\<lparr>sk_fd := -1, sk_connected := False\<rparr>, os_close (sk_fd k) s)
     else (k\<lparr>sk_connected := False\<rparr>, s))"

section \<open>Exact transfer\<close>

text \<open>
  One turn of a transfer loop, as the system answers it: \<^verbatim>\<open>poll\<close> fails or expires, the call
  is interrupted, fails, or transfers some bytes (at most those asked for; none is possible,
  and on a receive means that the peer has closed). The answers come from the environment,
  turn by turn; a loop that has not returned when they are used up is \<open>None\<close>.
\<close>

datatype io_turn = Io_poll_failed | Io_poll_expired | Io_interrupted | Io_failed | Io_bytes nat

fun send_loop :: "io_turn list \<Rightarrow> bytes \<Rightarrow> nat \<Rightarrow> bytes \<Rightarrow> (int \<times> bytes) option" where
  "send_loop ts bs total_sent out =
     (if length bs \<le> total_sent then Some (as_int (word_of_nat total_sent), out)
      else (case ts of
          [] \<Rightarrow> None
        | Io_interrupted # ts \<Rightarrow> send_loop ts bs total_sent out
        | Io_bytes n # ts \<Rightarrow> (let n = min n (length bs - total_sent)
            in send_loop ts bs (total_sent + n) (out @ take n (drop total_sent bs)))
        | _ \<Rightarrow> Some (-1, out)))"

definition socket_send_all ::
  "io_turn list \<Rightarrow> softether_socket_t option \<Rightarrow> bytes \<Rightarrow> bytes \<Rightarrow> (int \<times> bytes) option" where
  "socket_send_all ts sock bs out = (case sock of
     None \<Rightarrow> Some (-1, out)
   | Some k \<Rightarrow> if \<not> sk_connected k then Some (-1, out) else send_loop ts bs 0 out)"

text \<open>The stream holds what the peer has sent and the socket not yet given out.\<close>

fun recv_loop :: "io_turn list \<Rightarrow> nat \<Rightarrow> bytes \<Rightarrow> bytes \<Rightarrow> (int \<times> bytes \<times> bytes) option" where
  "recv_loop ts len buffer inp =
     (if len \<le> length buffer then Some (as_int (word_of_nat (length buffer)), buffer, inp)
      else (case ts of
          [] \<Rightarrow> None
        | Io_interrupted # ts \<Rightarrow> recv_loop ts len buffer inp
        | Io_bytes n # ts \<Rightarrow> (let n = min n (min (len - length buffer) (length inp)) in
            if n = 0 then Some (-1, buffer, inp)
            else recv_loop ts len (buffer @ take n inp) (drop n inp))
        | _ \<Rightarrow> Some (-1, buffer, inp)))"

definition socket_recv_all ::
  "io_turn list \<Rightarrow> softether_socket_t option \<Rightarrow> nat \<Rightarrow> bytes \<Rightarrow> (int \<times> bytes \<times> bytes) option" where
  "socket_recv_all ts sock len inp = (case sock of
     None \<Rightarrow> Some (-1, [], inp)
   | Some k \<Rightarrow> if \<not> sk_connected k then Some (-1, [], inp) else recv_loop ts len [] inp)"

declare send_loop.simps [simp del] recv_loop.simps [simp del]

text \<open>
  \<^verbatim>\<open>socket_send\<close> and \<^verbatim>\<open>socket_recv\<close> read \<^verbatim>\<open>sock->timeout_ms\<close> before anything checks \<^verbatim>\<open>sock\<close>.
\<close>

definition socket_send ::
  "io_turn list \<Rightarrow> softether_socket_t option \<Rightarrow> bytes \<Rightarrow> bytes \<Rightarrow> (int \<times> bytes) option outcome" where
  "socket_send ts sock bs out = (if sock = None then Fault else Ret (socket_send_all ts sock bs out))"

definition socket_recv ::
  "io_turn list \<Rightarrow> softether_socket_t option \<Rightarrow> nat \<Rightarrow> bytes \<Rightarrow> (int \<times> bytes \<times> bytes) option outcome" where
  "socket_recv ts sock len inp = (if sock = None then Fault else Ret (socket_recv_all ts sock len inp))"

section \<open>Options\<close>

definition socket_set_timeout :: "int \<Rightarrow> softether_socket_t \<times> os \<Rightarrow> softether_socket_t \<times> os" where
  "socket_set_timeout timeout_ms = (\<lambda>(k, s). (k\<lparr>sk_timeout_ms := timeout_ms\<rparr>, set_tmo (sk_fd k) timeout_ms s))"

definition socket_is_connected :: "softether_socket_t option \<Rightarrow> bool" where
  "socket_is_connected sock = (case sock of None \<Rightarrow> False | Some k \<Rightarrow> sk_connected k)"

definition socket_get_error :: "os_env \<Rightarrow> softether_socket_t option \<Rightarrow> int" where
  "socket_get_error env sock = (case sock of
     None \<Rightarrow> EBADF | Some k \<Rightarrow> if sk_fd k < 0 then EBADF else os_so_error env (sk_fd k))"


section \<open>The order of the addresses\<close>

text \<open>
  What the connect is meant to do: dial a list of addresses one after the other until one
  answers. \<open>dial_in_order\<close> gives the address that did and those dialled.
\<close>

fun dial_in_order :: "os_env \<Rightarrow> nat \<Rightarrow> sockaddr list \<Rightarrow> sockaddr option \<times> sockaddr list" where
  "dial_in_order env i [] = (None, [])"
| "dial_in_order env i (a # as) = (if connect_succeeds (os_connect env i) then (Some a, [a])
     else (let (w, ds) = dial_in_order env (i + 1) as in (w, a # ds)))"

definition of_family :: "sock_family \<Rightarrow> sockaddr list \<Rightarrow> sockaddr list" where
  "of_family f as = filter (\<lambda>a. sa_family a = f) as"

definition two_pass :: "sockaddr list \<Rightarrow> sockaddr list" where
  "two_pass res = of_family (first_family res) res @ of_family (second_family res) res"

definition is_ip :: "sockaddr \<Rightarrow> bool" where
  "is_ip a \<longleftrightarrow> sa_family a = AF_INET \<or> sa_family a = AF_INET6"

definition sockets_work :: "os_env \<Rightarrow> bool" where
  "sockets_work env \<longleftrightarrow> (\<forall>i f k. 0 \<le> os_socket env i f k)"

lemma dial_in_order_append:
  "dial_in_order env i (xs @ ys) = (case dial_in_order env i xs of
     (Some a, ds) \<Rightarrow> (Some a, ds)
   | (None, ds) \<Rightarrow> (let (w, es) = dial_in_order env (i + length xs) ys in (w, ds @ es)))"
  by (induction xs arbitrary: i) (auto simp: Let_def split: prod.splits option.splits)

lemma dial_in_order_prefix:
  "dial_in_order env i xs = (w, ds) \<Longrightarrow> take (length ds) xs = ds \<and>
     (case w of None \<Rightarrow> ds = xs | Some a \<Rightarrow> ds \<noteq> [] \<and> last ds = a)"
proof (induction xs arbitrary: i w ds)
  case (Cons x xs)
  obtain v es where d: "dial_in_order env (i + 1) xs = (v, es)" by fastforce
  show ?case using Cons.IH [OF d] Cons.prems d by (auto split: if_splits option.splits)
qed auto

lemma mset_two_pass: "mset (two_pass res) = filter_mset is_ip (mset res)"
proof -
  have "mset (of_family AF_INET as) + mset (of_family AF_INET6 as) = filter_mset is_ip (mset as)" for as
    by (induction as) (auto simp: of_family_def is_ip_def)
  then show ?thesis
    by (auto simp: two_pass_def first_family_def second_family_def add.commute)
qed

lemma recreate_works:
  assumes "sockets_work env" "f = AF_INET \<or> f = AF_INET6"
    and "socket_recreate_for_family env f (k, s) = (b, k', s')"
  shows "b" "0 \<le> sk_fd k'" "sk_family k' = f" "conn_i s' = conn_i s" "dialled s' = dialled s"
proof -
  have "\<not> os_socket env i g t < 0" "0 \<le> os_socket env i g t" for i g t
    using assms(1) by (simp_all add: sockets_work_def not_less)
  then have "b \<and> 0 \<le> sk_fd k' \<and> sk_family k' = f \<and> conn_i s' = conn_i s \<and> dialled s' = dialled s"
    using assms(2,3)
    by (auto simp: socket_recreate_for_family_def os_open_def os_close_def set_nonblock_def
        set_tmo_def Let_def split: if_splits)
  then show "b" "0 \<le> sk_fd k'" "sk_family k' = f" "conn_i s' = conn_i s" "dialled s' = dialled s"
    by simp_all
qed

lemma connect_pass_dials:
  assumes "sockets_work env" "f = AF_INET \<or> f = AF_INET6"
    and "connect_pass env f as (k, s) = (b, k', s')"
    and "dial_in_order env (conn_i s) (of_family f as) = (w, ds)"
  shows "b = (w \<noteq> None) \<and> dialled s' = dialled s @ ds \<and> conn_i s' = conn_i s + length ds \<and>
    (case w of None \<Rightarrow> True | Some a \<Rightarrow> sk_addr k' = Some a \<and> 0 \<le> sk_fd k' \<and> sk_family k' = sa_family a)"
  using assms(3,4)
proof (induction as arbitrary: k s w ds)
  case Nil
  then show ?case by (auto simp: of_family_def)
next
  case (Cons a as)
  show ?case
  proof (cases "sa_family a = f")
    case False
    then show ?thesis using Cons by (simp add: of_family_def)
  next
    case True
    obtain b1 k1 s1 where r: "socket_recreate_for_family env f (k, s) = (b1, k1, s1)"
      by (metis prod_cases3)
    note k1 = recreate_works [OF assms(1,2) r]
    let ?k = "k1\<lparr>sk_addr := Some a\<rparr>" and ?s = "s1\<lparr>conn_i := conn_i s1 + 1, dialled := dialled s1 @ [a]\<rparr>"
    have t: "try_connect_addr env a (k, s) = (connect_succeeds (os_connect env (conn_i s)), ?k, ?s)"
      using True r k1 by (simp add: try_connect_addr_def)
    show ?thesis
    proof (cases "connect_succeeds (os_connect env (conn_i s))")
      case ok: True
      then show ?thesis using Cons.prems True t k1 by (auto simp: of_family_def)
    next
      case no: False
      obtain w' ds' where d: "dial_in_order env (conn_i ?s) (of_family f as) = (w', ds')" by fastforce
      have "connect_pass env f as (?k, ?s) = (b, k', s')" using Cons.prems(1) True t no by simp
      from Cons.IH [OF this d] show ?thesis
        using Cons.prems(2) True no d k1 by (auto simp: of_family_def split: option.splits)
    qed
  qed
qed

lemma connected_socket_facts:
  "connected_socket ms (k, s) = (r, k', s') \<Longrightarrow> r = 0 \<and> sk_connected k' \<and> sk_fd k' = sk_fd k \<and>
     sk_addr k' = sk_addr k \<and> sk_family k' = sk_family k \<and> sk_timeout_ms k' = ms \<and>
     \<not> nonblock s' (sk_fd k') \<and> dialled s' = dialled s"
  by (auto simp: connected_socket_def set_nonblock_def)

lemma families_ip:
  "first_family res = AF_INET \<or> first_family res = AF_INET6"
  "second_family res = AF_INET \<or> second_family res = AF_INET6"
  by (simp_all add: first_family_def second_family_def)

text \<open>
  C29: the connect dials the addresses that resolution gave in the promised order: those of
  the family of the first one, then those of the other IP version, every one at most once
  and none left out before the connect gives up. It succeeds exactly when one answers, and
  is then connected to that address, over a socket of its family in blocking mode; other
  address families are never dialled.
\<close>

theorem connect_dual_stack:
  assumes "sockets_work env"
    and "os_getaddrinfo env host (Some (print_int port)) (hint_family env host) s = (res, s1)"
    and "socket_connect_timeout env host port ms (k, s) = (r, k', s')"
    and "dial_in_order env (conn_i s) (two_pass res) = (w, ds)"
  shows "r = (if w = None then -1 else 0) \<and> dialled s' = dialled s @ ds \<and>
    mset (two_pass res) = filter_mset is_ip (mset res) \<and>
    (case w of
       None \<Rightarrow> ds = two_pass res
     | Some a \<Rightarrow> sk_connected k' \<and> sk_addr k' = Some a \<and> 0 \<le> sk_fd k' \<and> sk_family k' = sa_family a \<and>
         \<not> nonblock s' (sk_fd k') \<and> sk_timeout_ms k' = ms)"
proof -
  have s1: "conn_i s1 = conn_i s" "dialled s1 = dialled s"
    using assms(2) by (auto simp: os_getaddrinfo_def)
  note none = dial_in_order_prefix [OF assms(4)]
  obtain w1 ds1 where d1: "dial_in_order env (conn_i s1) (of_family (first_family res) res) = (w1, ds1)" by fastforce
  obtain b1 k1 t1 where p1: "connect_pass env (first_family res) res (k, s1) = (b1, k1, t1)" by (metis prod_cases3)
  note f1 = connect_pass_dials [OF assms(1) families_ip(1) p1 d1]
  have len1: "w1 = None \<Longrightarrow> length ds1 = length (of_family (first_family res) res)"
    using dial_in_order_prefix [OF d1] by auto
  obtain w2 ds2 where d2: "dial_in_order env (conn_i t1) (of_family (second_family res) res) = (w2, ds2)" by fastforce
  obtain b2 k2 t2 where p2: "connect_pass env (second_family res) res (k1, t1) = (b2, k2, t2)" by (metis prod_cases3)
  note f2 = connect_pass_dials [OF assms(1) families_ip(2) p2 d2]
  show ?thesis
  proof (cases "res = []")
    case True
    then show ?thesis using assms(2-4) s1 by (auto simp: socket_connect_timeout_def two_pass_def of_family_def)
  next
    case False
    show ?thesis
    proof (cases w1)
      case (Some a)
      then have c: "connected_socket ms (k1, t1) = (r, k', s')"
        using assms(2,3) False p1 f1 by (simp add: socket_connect_timeout_def)
      have "w = Some a" "ds = ds1"
        using assms(4) d1 Some s1 by (auto simp: two_pass_def dial_in_order_append)
      then show ?thesis using f1 Some s1 connected_socket_facts [OF c] by (auto simp: mset_two_pass)
    next
      case n1: None
      have w: "w = w2" "ds = ds1 @ ds2"
        using assms(4) d1 d2 n1 s1 f1 len1 by (auto simp: two_pass_def dial_in_order_append)
      show ?thesis
      proof (cases w2)
        case (Some a)
        then have c: "connected_socket ms (k2, t2) = (r, k', s')"
          using assms(2,3) False p1 p2 f1 f2 n1 by (simp add: socket_connect_timeout_def)
        then show ?thesis using f1 f2 Some w n1 s1 connected_socket_facts [OF c] by (auto simp: mset_two_pass)
      next
        case None
        then have "(r, k', s') = (-1, k2, t2)"
          using assms(2,3) False p1 p2 f1 f2 n1 by (simp add: socket_connect_timeout_def)
        then show ?thesis using f1 f2 None w n1 s1 none by (auto simp: mset_two_pass)
      qed
    qed
  qed
qed


section \<open>Descriptors\<close>

text \<open>The descriptor a socket holds.\<close>

definition held :: "softether_socket_t \<Rightarrow> int multiset" where
  "held k = (if 0 \<le> sk_fd k then {#sk_fd k#} else {#})"

text \<open>
  Every descriptor that was opened is closed, or held by the socket, or was taken over by
  the caller, exactly once.
\<close>

definition balanced :: "int multiset \<Rightarrow> softether_socket_t \<times> os \<Rightarrow> bool" where
  "balanced out ks \<longleftrightarrow> mset (opened (snd ks)) = mset (os_closed (snd ks)) + out + held (fst ks)"

text \<open>
  The same relative to any starting point: how often a descriptor has been opened more than
  closed, less the one the socket holds. The operations on a socket leave this number alone.
\<close>

definition os_net :: "os \<Rightarrow> int \<Rightarrow> int" where
  "os_net s x = int (count_list (opened s) x) - int (count_list (os_closed s) x)"

definition fd_unit :: "int \<Rightarrow> int \<Rightarrow> int" where
  "fd_unit fd x = (if 0 \<le> fd \<and> x = fd then 1 else 0)"

definition sock_net :: "softether_socket_t \<times> os \<Rightarrow> int \<Rightarrow> int" where
  "sock_net ks x = os_net (snd ks) x - fd_unit (sk_fd (fst ks)) x"

lemma balanced_net: "balanced out ks \<longleftrightarrow> sock_net ks = (\<lambda>x. int (count out x))"
proof -
  have c: "count (mset xs) x = count_list xs x" for xs and x :: int
    by (induction xs) auto
  have "balanced out ks \<longleftrightarrow> (\<forall>x. int (count_list (opened (snd ks)) x) =
      int (count_list (os_closed (snd ks)) x) + int (count out x) + int (count (held (fst ks)) x))"
    unfolding balanced_def multiset_eq_iff count_union c of_nat_add [symmetric] of_nat_eq_iff ..
  also have "\<dots> \<longleftrightarrow> (\<forall>x. sock_net ks x = int (count out x))"
    by (rule all_cong1) (auto simp: sock_net_def os_net_def held_def fd_unit_def)
  finally show ?thesis by (simp add: fun_eq_iff)
qed

lemma os_net_simps [simp]:
  "os_net (set_nonblock fd q s) = os_net s" "os_net (set_tmo fd p s) = os_net s"
  "os_net (snd (os_getaddrinfo env host sv h s)) = os_net s"
  "os_net (s\<lparr>conn_i := n\<rparr>) = os_net s" "os_net (s\<lparr>gai_i := n\<rparr>) = os_net s" "os_net (s\<lparr>dialled := l\<rparr>) = os_net s"
  by (simp_all add: fun_eq_iff os_net_def set_nonblock_def set_tmo_def os_getaddrinfo_def)

lemma net_recreate: "sock_net (snd (socket_recreate_for_family env f ks)) = sock_net ks"
  by (cases ks) (auto simp: fun_eq_iff sock_net_def os_net_def fd_unit_def socket_recreate_for_family_def os_open_def os_close_def
      set_nonblock_def set_tmo_def Let_def)

lemma net_try: "sock_net (snd (try_connect_addr env a ks)) = sock_net ks"
proof -
  obtain b k s where r: "socket_recreate_for_family env (sa_family a) ks = (b, k, s)" by (metis prod_cases3)
  have "sock_net (k, s) = sock_net ks" using net_recreate [of env "sa_family a" ks] r by simp
  then show ?thesis using r by (auto simp: try_connect_addr_def sock_net_def os_net_def fun_eq_iff split: bool.split)
qed

lemma net_pass: "sock_net (snd (connect_pass env f as ks)) = sock_net ks"
proof (induction as arbitrary: ks)
  case (Cons a as)
  obtain b ks1 where t: "try_connect_addr env a ks = (b, ks1)" by (rule prod.exhaust)
  have "sock_net ks1 = sock_net ks" using net_try [of env a ks] t by simp
  then show ?case using Cons t by (auto split: bool.split)
qed simp

lemma net_connected: "sock_net (snd (connected_socket ms ks)) = sock_net ks"
  by (cases ks) (auto simp: connected_socket_def sock_net_def fun_eq_iff)

lemma net_connect: "sock_net (snd (socket_connect_timeout env host port ms ks)) = sock_net ks"
proof -
  obtain k s where ks: "ks = (k, s)" by fastforce
  obtain res s1 where g: "os_getaddrinfo env host (Some (print_int port)) (hint_family env host) s = (res, s1)"
    by fastforce
  have b: "sock_net (k, s1) = sock_net ks" using g by (auto simp: ks sock_net_def os_getaddrinfo_def os_net_def fun_eq_iff)
  obtain b1 ks1 where p1: "connect_pass env (first_family res) res (k, s1) = (b1, ks1)" by (rule prod.exhaust)
  obtain b2 ks2 where p2: "connect_pass env (second_family res) res ks1 = (b2, ks2)" by (rule prod.exhaust)
  have b1: "sock_net ks1 = sock_net ks" using net_pass [of env "first_family res" res "(k, s1)"] p1 b by simp
  have b2: "sock_net ks2 = sock_net ks" using net_pass [of env "second_family res" res ks1] p2 b1 by simp
  show ?thesis
    using g b p1 p2 b1 b2 net_connected
    by (auto simp: ks socket_connect_timeout_def split: bool.split)
qed

lemma balanced_connect:
  "balanced out ks \<Longrightarrow> balanced out (snd (socket_connect_timeout env host port ms ks))"
  by (simp add: balanced_net net_connect)

text \<open>A successful connect leaves a descriptor, whatever the system answered.\<close>

lemma try_connect_fd: "try_connect_addr env a ks = (True, k', s') \<Longrightarrow> 0 \<le> sk_fd k'"
  by (cases ks) (auto simp: try_connect_addr_def socket_recreate_for_family_def os_open_def Let_def
      split: bool.splits if_splits)

lemma connect_pass_fd: "connect_pass env f as ks = (True, k', s') \<Longrightarrow> 0 \<le> sk_fd k'"
proof (induction as arbitrary: ks)
  case (Cons a as)
  obtain b ks1 where t: "try_connect_addr env a ks = (b, ks1)" by (rule prod.exhaust)
  then show ?case using Cons try_connect_fd [of env a ks k' s'] by (auto split: if_splits bool.splits)
qed simp

lemma connect_fd:
  assumes "socket_connect_timeout env host port ms ks = (r, k', s')" "r = 0"
  shows "0 \<le> sk_fd k'"
  using assms
  by (cases ks) (auto simp: socket_connect_timeout_def connected_socket_def Let_def dest: connect_pass_fd
      split: prod.splits bool.splits if_splits)

text \<open>
  The life of a socket: it is created, connected (more than once: the connect falls back to
  the other address family), given a timeout, disconnected, gives up its descriptor to the
  caller (\<^verbatim>\<open>conn->socket_fd = sock->fd; sock->fd = -1\<close>) and is destroyed.
\<close>

inductive sock_step ::
  "os_env \<Rightarrow> softether_socket_t option \<times> int list \<times> os \<Rightarrow> softether_socket_t option \<times> int list \<times> os \<Rightarrow> bool"
  for env where
  create: "socket_create env ty s = (sock, s') \<Longrightarrow> sock_step env (None, out, s) (sock, out, s')"
| connect: "socket_connect_timeout env host port ms (k, s) = (r, k', s') \<Longrightarrow>
    sock_step env (Some k, out, s) (Some k', out, s')"
| timeout: "socket_set_timeout ms (k, s) = (k', s') \<Longrightarrow> sock_step env (Some k, out, s) (Some k', out, s')"
| disconnect: "socket_disconnect (k, s) = (k', s') \<Longrightarrow> sock_step env (Some k, out, s) (Some k', out, s')"
| take_over: "0 \<le> sk_fd k \<Longrightarrow> sock_step env (Some k, out, s) (Some (k\<lparr>sk_fd := -1\<rparr>), out @ [sk_fd k], s)"
| destroy: "sock_step env (Some k, out, s) (None, out, socket_destroy (Some k) s)"

inductive_cases sock_stepE: "sock_step env x y"

definition sock_balanced :: "softether_socket_t option \<times> int list \<times> os \<Rightarrow> bool" where
  "sock_balanced = (\<lambda>(sock, out, s). case sock of
     None \<Rightarrow> mset (opened s) = mset (os_closed s) + mset out
   | Some k \<Rightarrow> balanced (mset out) (k, s))"

lemma sock_step_balanced:
  assumes "sock_step env x y" "sock_balanced x"
  shows "sock_balanced y"
  using assms
proof cases
  case (create ty s sock s' out)
  then show ?thesis using assms(2)
    by (auto simp: sock_balanced_def balanced_def held_def socket_create_def os_open_def set_nonblock_def Let_def
        split: if_splits)
next
  case (connect host port ms k s r k' s' out)
  then show ?thesis using assms(2) balanced_connect [of "mset out" "(k, s)" env host port ms]
    by (simp add: sock_balanced_def)
qed (auto simp: sock_balanced_def balanced_def held_def socket_set_timeout_def set_tmo_def socket_disconnect_def
    os_close_def socket_destroy_def split: if_splits)

interpretation sock_life: step_invariant "sock_step env" sock_balanced for env
  by unfold_locales (rule sock_step_balanced)

text \<open>
  C30: no descriptor is leaked or closed twice: in every order of creating, connecting,
  disconnecting, handing over and destroying a socket, with any answers of the system, each
  descriptor opened is accounted for exactly once, as closed, as taken over by the caller,
  or as the one the socket holds; after the destruction none is held.
\<close>

theorem socket_descriptors:
  assumes "(sock_step env)\<^sup>*\<^sup>* (None, [], s0) (sock, out, s)"
    and "opened s0 = []" "os_closed s0 = []"
  shows "mset (opened s) = mset (os_closed s) + mset out +
    (case sock of None \<Rightarrow> {#} | Some k \<Rightarrow> if 0 \<le> sk_fd k then {#sk_fd k#} else {#})"
proof -
  have "sock_balanced (sock, out, s)"
    using sock_life.run_keeps [OF assms(1)] by (simp add: sock_balanced_def assms(2,3))
  then show ?thesis
    by (auto simp: sock_balanced_def balanced_def held_def split: option.splits)
qed


section \<open>Transfers\<close>

text \<open>Turns that do not end a transfer, and how many of them move bytes.\<close>

definition steady :: "io_turn list \<Rightarrow> bool" where
  "steady ts \<longleftrightarrow> (\<forall>t \<in> set ts. t = Io_interrupted \<or> (\<exists>n. t = Io_bytes (Suc n)))"

definition moves :: "io_turn list \<Rightarrow> nat" where
  "moves ts = length (filter (\<lambda>t. t \<noteq> Io_interrupted) ts)"

lemma as_int_small: "n < 2 ^ 31 \<Longrightarrow> as_int (word_of_nat n) = int n"
  by (simp add: as_int_def sint_uint unsigned_of_nat take_bit_nat_eq_self signed_take_bit_int_eq_self)

lemma send_loop_steps:
  "length bs \<le> n \<Longrightarrow> send_loop ts bs n out = Some (as_int (word_of_nat n), out)"
  "n < length bs \<Longrightarrow> send_loop [] bs n out = None"
  "n < length bs \<Longrightarrow> send_loop (Io_interrupted # ts) bs n out = send_loop ts bs n out"
  "n < length bs \<Longrightarrow> send_loop (Io_bytes q # ts) bs n out =
     send_loop ts bs (n + min q (length bs - n)) (out @ take (min q (length bs - n)) (drop n bs))"
  "n < length bs \<Longrightarrow> t \<in> {Io_poll_failed, Io_poll_expired, Io_failed} \<Longrightarrow>
     send_loop (t # ts) bs n out = Some (-1, out)"
  by (auto simp: send_loop.simps [of ts] send_loop.simps [of "[]"] send_loop.simps [of "_ # _"] Let_def)

lemma recv_loop_steps:
  "len \<le> length b \<Longrightarrow> recv_loop ts len b inp = Some (as_int (word_of_nat (length b)), b, inp)"
  "length b < len \<Longrightarrow> recv_loop [] len b inp = None"
  "length b < len \<Longrightarrow> recv_loop (Io_interrupted # ts) len b inp = recv_loop ts len b inp"
  "length b < len \<Longrightarrow> recv_loop (Io_bytes q # ts) len b inp =
     (let n = min q (min (len - length b) (length inp)) in
      if n = 0 then Some (-1, b, inp) else recv_loop ts len (b @ take n inp) (drop n inp))"
  "length b < len \<Longrightarrow> t \<in> {Io_poll_failed, Io_poll_expired, Io_failed} \<Longrightarrow>
     recv_loop (t # ts) len b inp = Some (-1, b, inp)"
  by (auto simp: recv_loop.simps [of ts] recv_loop.simps [of "[]"] recv_loop.simps [of "_ # _"] Let_def)

lemma steady_send:
  "steady ts \<Longrightarrow> length bs - n \<le> moves ts \<Longrightarrow> n \<le> length bs \<Longrightarrow>
   send_loop ts bs n out = Some (as_int (word_of_nat (length bs)), out @ drop n bs)"
proof (induction ts arbitrary: n out)
  case Nil
  then show ?case by (simp add: send_loop_steps moves_def)
next
  case (Cons t ts)
  have st: "steady ts" using Cons.prems by (simp add: steady_def)
  show ?case
  proof (cases "length bs \<le> n")
    case True
    then show ?thesis using Cons.prems by (simp add: send_loop_steps)
  next
    case False
    consider "t = Io_interrupted" | m where "t = Io_bytes (Suc m)"
      using Cons.prems by (auto simp: steady_def)
    then show ?thesis
    proof cases
      case 1
      then show ?thesis using Cons.IH [OF st, of n out] Cons.prems False
        by (simp add: send_loop_steps moves_def)
    next
      case 2
      let ?k = "min (Suc m) (length bs - n)"
      have "send_loop ts bs (n + ?k) (out @ take ?k (drop n bs)) =
          Some (as_int (word_of_nat (length bs)), (out @ take ?k (drop n bs)) @ drop (n + ?k) bs)"
        using Cons.prems False 2 by (intro Cons.IH [OF st]) (auto simp: moves_def)
      then show ?thesis using False 2
        by (simp add: send_loop_steps) (metis add.commute append_take_drop_id drop_drop)
    qed
  qed
qed

lemma steady_recv:
  "steady ts \<Longrightarrow> length d \<le> moves ts \<Longrightarrow>
   recv_loop ts (length b + length d) b (d @ r) = Some (as_int (word_of_nat (length b + length d)), b @ d, r)"
proof (induction ts arbitrary: b d)
  case Nil
  then show ?case by (simp add: recv_loop_steps moves_def)
next
  case (Cons t ts)
  have st: "steady ts" using Cons.prems by (simp add: steady_def)
  show ?case
  proof (cases "d = []")
    case True
    then show ?thesis by (simp add: recv_loop_steps)
  next
    case False
    consider "t = Io_interrupted" | m where "t = Io_bytes (Suc m)"
      using Cons.prems by (auto simp: steady_def)
    then show ?thesis
    proof cases
      case 1
      then show ?thesis using Cons.IH [OF st, of d b] Cons.prems False
        by (simp add: recv_loop_steps moves_def)
    next
      case 2
      let ?k = "min (Suc m) (length d)"
      have k: "min (Suc m) (min (length d) (length d + length r)) = ?k" "0 < ?k" "?k \<le> length d"
        using False by (auto simp: min_def)
      have "recv_loop ts (length (b @ take ?k d) + length (drop ?k d)) (b @ take ?k d) (drop ?k d @ r) =
          Some (as_int (word_of_nat (length (b @ take ?k d) + length (drop ?k d))), (b @ take ?k d) @ drop ?k d, r)"
        using Cons.prems False 2 by (intro Cons.IH [OF st]) (auto simp: moves_def)
      moreover have "length (b @ take ?k d) + length (drop ?k d) = length b + length d" using k(3) by simp
      ultimately show ?thesis using False 2 k
        by (simp add: recv_loop_steps Let_def)
    qed
  qed
qed

lemma send_loop_prefix:
  "send_loop ts bs n out = Some (r, out') \<Longrightarrow> n \<le> length bs \<Longrightarrow>
   \<exists>m. n \<le> m \<and> m \<le> length bs \<and> out' = out @ take (m - n) (drop n bs) \<and>
     (r = as_int (word_of_nat (length bs)) \<and> m = length bs \<or> r = -1)"
proof (induction ts arbitrary: n out)
  case Nil
  then show ?case by (cases "n < length bs") (auto simp: send_loop_steps intro!: exI [of _ n])
next
  case (Cons t ts)
  show ?case
  proof (cases "length bs \<le> n")
    case True
    then show ?thesis using Cons.prems by (auto simp: send_loop_steps intro!: exI [of _ n])
  next
    case False
    show ?thesis
    proof (cases t)
      case Io_interrupted
      then show ?thesis using Cons False by (simp add: send_loop_steps)
    next
      case (Io_bytes q)
      let ?k = "min q (length bs - n)"
      have "send_loop ts bs (n + ?k) (out @ take ?k (drop n bs)) = Some (r, out')"
        using Cons.prems False Io_bytes by (simp add: send_loop_steps)
      moreover have "n + ?k \<le> length bs" using Cons.prems(2) by linarith
      ultimately obtain m where m: "n + ?k \<le> m" "m \<le> length bs"
          "out' = (out @ take ?k (drop n bs)) @ take (m - (n + ?k)) (drop (n + ?k) bs)"
          "r = as_int (word_of_nat (length bs)) \<and> m = length bs \<or> r = -1"
        using Cons.IH by blast
      have "take (m - n) (drop n bs) = take ?k (drop n bs) @ take (m - (n + ?k)) (drop (n + ?k) bs)"
        using m(1) take_add [of ?k "m - (n + ?k)" "drop n bs"] by (simp add: add.commute)
      then show ?thesis using m by (intro exI [of _ m]) auto
    qed (use Cons.prems False in \<open>auto simp: send_loop_steps intro!: exI [of _ n]\<close>)
  qed
qed

lemma recv_loop_prefix:
  "recv_loop ts len b inp = Some (r, b', inp') \<Longrightarrow> length b \<le> len \<Longrightarrow>
   \<exists>d. b' = b @ d \<and> inp = d @ inp' \<and> length b' \<le> len \<and>
     (r = as_int (word_of_nat len) \<and> length b' = len \<or> r = -1)"
proof (induction ts arbitrary: b inp)
  case Nil
  then show ?case by (cases "length b < len") (auto simp: recv_loop_steps)
next
  case (Cons t ts)
  show ?case
  proof (cases "len \<le> length b")
    case True
    then show ?thesis using Cons.prems by (auto simp: recv_loop_steps)
  next
    case False
    show ?thesis
    proof (cases t)
      case Io_interrupted
      then show ?thesis using Cons False by (simp add: recv_loop_steps)
    next
      case (Io_bytes q)
      define k where "k = min q (min (len - length b) (length inp))"
      have k: "k \<le> length inp" "length b + k \<le> len" using False by (auto simp: k_def)
      show ?thesis
      proof (cases "k = 0")
        case True
        then show ?thesis using Cons.prems False Io_bytes by (auto simp: recv_loop_steps k_def [symmetric])
      next
        case nz: False
        then have "recv_loop ts len (b @ take k inp) (drop k inp) = Some (r, b', inp')"
          using Cons.prems False Io_bytes by (simp add: recv_loop_steps k_def [symmetric])
        from Cons.IH [OF this] k obtain d where d: "b' = (b @ take k inp) @ d" "drop k inp = d @ inp'"
            "length b' \<le> len" "r = as_int (word_of_nat len) \<and> length b' = len \<or> r = -1" by auto
        then show ?thesis using append_take_drop_id [of k inp] by (intro exI [of _ "take k inp @ d"]) auto
      qed
    qed (use Cons.prems False in \<open>auto simp: recv_loop_steps\<close>)
  qed
qed

text \<open>
  A transfer is all or nothing for the caller. Whatever the sizes in which the kernel takes
  and gives bytes and however often it is interrupted, a send that reports success has put
  out exactly the caller's bytes and a receive exactly the number asked for, in order and
  without touching what follows; on an error what was moved is a prefix.
\<close>

theorem transfer_exact:
  assumes "length bs < 2 ^ 31" "n < 2 ^ 31"
    and "socket_send_all ts (Some k) bs out = Some (r, out')"
    and "socket_recv_all us (Some k) n inp = Some (q, b, inp')"
  shows "(r = int (length bs) \<and> out' = out @ bs \<or> r = -1 \<and> (\<exists>m \<le> length bs. out' = out @ take m bs)) \<and>
    (q = int n \<and> length b = n \<or> q = -1 \<and> length b \<le> n) \<and> inp = b @ inp'"
proof -
  have "r = int (length bs) \<and> out' = out @ bs \<or> r = -1 \<and> (\<exists>m \<le> length bs. out' = out @ take m bs)"
  proof (cases "sk_connected k")
    case True
    then have "send_loop ts bs 0 out = Some (r, out')" using assms(3) by (simp add: socket_send_all_def)
    from send_loop_prefix [OF this] show ?thesis by (auto simp: as_int_small [OF assms(1)])
  next
    case False
    then show ?thesis using assms(3) by (auto simp: socket_send_all_def intro!: exI [of _ 0])
  qed
  moreover have "(q = int n \<and> length b = n \<or> q = -1 \<and> length b \<le> n) \<and> inp = b @ inp'"
  proof (cases "sk_connected k")
    case True
    then have "recv_loop us n [] inp = Some (q, b, inp')" using assms(4) by (simp add: socket_recv_all_def)
    from recv_loop_prefix [OF this] show ?thesis by (auto simp: as_int_small [OF assms(2)])
  next
    case False
    then show ?thesis using assms(4) by (auto simp: socket_recv_all_def)
  qed
  ultimately show ?thesis by blast
qed

text \<open>
  Transfers finish: when no turn fails and enough of them move at least one byte, whatever
  one side sends the other receives, and no turn is needed beyond one for each byte.
\<close>

theorem transfer_completes:
  assumes "sk_connected k" "length bs < 2 ^ 31"
    and "steady ts" "length bs \<le> moves ts" "steady us" "length bs \<le> moves us"
  shows "socket_send_all ts (Some k) bs [] = Some (int (length bs), bs) \<and>
    socket_recv_all us (Some k) (length bs) (bs @ rest) = Some (int (length bs), bs, rest)"
  using steady_send [OF assms(3), of bs 0 "[]"] steady_recv [OF assms(5), of bs "[]" rest] assms
  by (simp add: socket_send_all_def socket_recv_all_def as_int_small)


section \<open>Witnesses\<close>

text \<open>
  A host with two IPv4 and two IPv6 addresses, IPv6 first; the first connect times out, the
  second is refused after waiting, the third succeeds.
\<close>

definition os_env0 :: os_env where
  "os_env0 = \<lparr>os_calloc = True, os_socket = (\<lambda>i _ _. 10 + int i),
     os_connect = (\<lambda>i. [Conn_pending Poll_expired, Conn_pending (Poll_done 111), Conn_pending (Poll_done 0), Conn_refused] ! i),
     os_resolve = (\<lambda>_ _ _ _. Some [Sin6 [1] 443, Sin 1 443, Sa_other 3, Sin6 [2] 443, Sin 2 443]),
     os_pton6 = (\<lambda>_. None), os_ntop6 = (\<lambda>_ _. None), os_so_error = (\<lambda>_. 0)\<rparr>"

definition os0 :: os where
  "os0 = \<lparr>sock_i = 0, conn_i = 0, gai_i = 0, opened = [], os_closed = [], nonblock = (\<lambda>_. False),
     tmo = Map.empty, dialled = []\<rparr>"

definition sock0 :: softether_socket_t where
  "sock0 = \<lparr>sk_fd = 10, sk_type = 0, sk_family = AF_INET, sk_addr = None, sk_connected = False, sk_timeout_ms = 30000\<rparr>"

definition os1 :: os where
  "os1 = set_nonblock 10 True (os0\<lparr>sock_i := 1, opened := [10]\<rparr>)"

lemma create0: "socket_create os_env0 SOCKET_TYPE_TCP os0 = (Some sock0, os1)"
  by (simp add: socket_create_def os_open_def os_env0_def os0_def sock0_def os1_def SOCKET_TIMEOUT_MS_def
      SOCKET_TYPE_TCP_def set_nonblock_def)

lemma sockets_work0: "sockets_work os_env0"
  by (simp add: sockets_work_def os_env0_def)

lemma resolve0: "os_getaddrinfo os_env0 h v f os1 = ([Sin6 [1] 443, Sin 1 443, Sa_other 3, Sin6 [2] 443, Sin 2 443],
    os1\<lparr>gai_i := 1\<rparr>)"
  by (simp add: os_getaddrinfo_def os_env0_def os1_def os0_def set_nonblock_def)

lemma two_pass0: "two_pass [Sin6 [1] 443, Sin 1 443, Sa_other 3, Sin6 [2] 443, Sin 2 443] =
    [Sin6 [1] 443, Sin6 [2] 443, Sin 1 443, Sin 2 443]"
  by (simp add: two_pass_def of_family_def first_family_def second_family_def)

lemma dial0: "dial_in_order os_env0 (conn_i os1) [Sin6 [1] 443, Sin6 [2] 443, Sin 1 443, Sin 2 443] =
    (Some (Sin 1 443), [Sin6 [1] 443, Sin6 [2] 443, Sin 1 443])"
  by (simp add: os_env0_def os1_def os0_def set_nonblock_def connect_succeeds_def)

theorem connect_dual_stack_witness:
  "\<exists>k' s'. socket_connect_timeout os_env0 (lit ''vpn'') 443 5000 (sock0, os1) = (0, k', s') \<and>
     dialled s' = [Sin6 [1] 443, Sin6 [2] 443, Sin 1 443] \<and> sk_addr k' = Some (Sin 1 443) \<and>
     sk_connected k' \<and> \<not> nonblock s' (sk_fd k')"
proof -
  obtain r k' s' where c: "socket_connect_timeout os_env0 (lit ''vpn'') 443 5000 (sock0, os1) = (r, k', s')"
    by (metis prod_cases3)
  show ?thesis
    using connect_dual_stack [OF sockets_work0 resolve0 c, unfolded two_pass0, OF dial0] c
    by (auto simp: os1_def os0_def set_nonblock_def)
qed

text \<open>Created, connected to the second address family, handed over and destroyed.\<close>

theorem socket_descriptors_witness:
  "\<exists>fd s. (sock_step os_env0)\<^sup>*\<^sup>* (None, [], os0) (None, [fd], s) \<and>
     mset (opened s) = mset (os_closed s) + {#fd#}"
proof -
  obtain r k s where c: "socket_connect_timeout os_env0 (lit ''vpn'') 443 5000 (sock0, os1) = (r, k, s)"
    by (metis prod_cases3)
  have fd: "0 \<le> sk_fd k"
    using connect_dual_stack [OF sockets_work0 resolve0 c, unfolded two_pass0, OF dial0] by simp
  let ?k = "k\<lparr>sk_fd := -1\<rparr>"
  have "sock_step os_env0 (None, [], os0) (Some sock0, [], os1)" by (rule sock_step.create [OF create0])
  moreover have "sock_step os_env0 (Some sock0, [], os1) (Some k, [], s)" by (rule sock_step.connect [OF c])
  moreover have "sock_step os_env0 (Some k, [], s) (Some ?k, [sk_fd k], s)"
    using sock_step.take_over [OF fd, of os_env0 "[]" s] by simp
  moreover have "sock_step os_env0 (Some ?k, [sk_fd k], s) (None, [sk_fd k], s)"
    using sock_step.destroy [of os_env0 ?k "[sk_fd k]" s] by (simp add: socket_destroy_def)
  ultimately have run: "(sock_step os_env0)\<^sup>*\<^sup>* (None, [], os0) (None, [sk_fd k], s)"
    by (meson rtranclp.rtrancl_into_rtrancl rtranclp.rtrancl_refl)
  moreover have "opened os0 = []" "os_closed os0 = []" by (simp_all add: os0_def)
  ultimately have "mset (opened s) = mset (os_closed s) + {#sk_fd k#}" using socket_descriptors [OF run] by simp
  with run show ?thesis by blast
qed

theorem transfer_exact_witness:
  "socket_send_all [Io_bytes 2, Io_interrupted, Io_bytes 9] (Some (sock0\<lparr>sk_connected := True\<rparr>)) [1, 2, 3] [] =
     Some (3, [1, 2, 3]) \<and>
   socket_recv_all [Io_bytes 1, Io_poll_expired] (Some (sock0\<lparr>sk_connected := True\<rparr>)) 2 [5, 6, 7] =
     Some (-1, [5], [6, 7])"
  using transfer_exact [where bs = "[1, 2, 3]" and out = "[]" and out' = "[1, 2, 3]" and r = 3 and n = 2
      and ts = "[Io_bytes 2, Io_interrupted, Io_bytes 9]" and us = "[Io_bytes 1, Io_poll_expired]"
      and inp = "[5, 6, 7]" and q = "-1" and b = "[5]" and inp' = "[6, 7]" and k = "sock0\<lparr>sk_connected := True\<rparr>"]
  by (simp add: socket_send_all_def socket_recv_all_def send_loop_steps recv_loop_steps Let_def
      as_int_small [of 3, simplified])

theorem transfer_completes_witness:
  "socket_send_all [Io_bytes 1, Io_interrupted, Io_bytes 7] (Some (sock0\<lparr>sk_connected := True\<rparr>)) [1, 2] [] =
     Some (2, [1, 2]) \<and>
   socket_recv_all [Io_bytes 1, Io_bytes 1] (Some (sock0\<lparr>sk_connected := True\<rparr>)) 2 [1, 2, 9] = Some (2, [1, 2], [9])"
  using transfer_completes [where k = "sock0\<lparr>sk_connected := True\<rparr>" and bs = "[1, 2]" and rest = "[9]"
      and ts = "[Io_bytes 1, Io_interrupted, Io_bytes 7]" and us = "[Io_bytes 1, Io_bytes 1]"]
  by (simp add: steady_def moves_def flip: numeral_2_eq_2)

end
