(* ===== verification/Rudp_Connect.thy ===== *)
theory Rudp_Connect
  imports Rudp_Stream
begin

text \<open>
  A transport whose server answers connects. \<open>Rudp_Stream\<close> shows what a session transfers
  once it runs; here the wait of \<^verbatim>\<open>rudp_transport_connect\<close> is followed through the worker:
  the first valid segment establishes the session and fixes the result, and nothing the
  worker does afterwards takes it back.
\<close>

section \<open>The result stays\<close>

definition won :: "rudp_transport \<Rightarrow> bool" where
  "won t \<longleftrightarrow> result_ready t \<and> result_ok t"

lemma won_sent: "sent_only t t' \<Longrightarrow> won t' = won t"
  by (simp add: sent_only_def won_def)

lemma won_simps [simp]:
  "won (on_se f t) = won t" "won (rt_send_segment_now env sq d t) = won t" "won (rt_send_udp env d t) = won t"
  "won ((rt_send_segment_now env sq d ^^ n) t) = won t" "won (snd (rt_tick64 env t)) = won t"
  "won (t\<lparr>tick_i := n\<rparr>) = won t" "won (t\<lparr>rand_i := n\<rparr>) = won t" "won (t\<lparr>rb_i := n\<rparr>) = won t"
  "won (t\<lparr>snd_i := n\<rparr>) = won t" "won (t\<lparr>pair_out := b\<rparr>) = won t" "won (t\<lparr>pair_shut := q\<rparr>) = won t"
  "won (t\<lparr>error_code := n\<rparr>) = won t" "won (t\<lparr>udp_in := ds\<rparr>) = won t" "won (t\<lparr>halt := q\<rparr>) = won t"
  "won (t\<lparr>dns_tran_id := i\<rparr>) = won t"
  using won_sent [OF sent_only_segment [OF sent_only_refl]] won_sent [OF sent_only_udp [OF sent_only_refl]]
    won_sent [OF sent_only_power]
  by (simp_all add: won_def on_se_def rt_tick64_def)

lemma won_signal [simp]: "won t \<Longrightarrow> won (rt_signal_result ok t)"
  by (simp add: rt_signal_result_def won_def)

lemma won_disconnected [simp]: "won t \<Longrightarrow> won (rt_set_disconnected env by_you t)"
  by (simp add: rt_set_disconnected_def Let_def)

lemma won_pump_recv [simp]: "won t \<Longrightarrow> won (rt_pump_recv_to_pair env t)"
proof (induction env t rule: rt_pump_recv_to_pair.induct)
  case (1 env t)
  obtain r t1 where r: "send_pair env t = (r, t1)" by fastforce
  then have u: "won t1" using 1(2) by (auto simp: send_pair_def)
  note ih = 1(1) [OF refl _ refl refl r [symmetric] _ refl]
  show ?case
  proof (cases r)
    case (Sent k)
    then show ?thesis using ih [OF _ Sent] u r 1(2)
      by (subst rt_pump_recv_to_pair.simps) (auto simp: Let_def)
  qed (subst rt_pump_recv_to_pair.simps, simp add: r u 1(2) Let_def)+
qed

lemma won_pump_pair [simp]: "won t \<Longrightarrow> won (rt_pump_pair_to_send env t)"
proof (induction env t rule: rt_pump_pair_to_send.induct)
  case (1 env t)
  obtain r t1 where r: "recv_pair env t = (r, t1)" by fastforce
  then have "won t1" using 1(2) by (auto simp: recv_pair_def Let_def won_def split: if_splits)
  with r 1 show ?case
    by (subst rt_pump_pair_to_send.simps) (auto split: pair_recv.split)
qed

lemma won_fold_resend [simp]: "won t \<Longrightarrow> won (fold (resend_one env now m) js t)"
  by (induction js arbitrary: t) (simp_all add: resend_one_def Let_def)

lemma won_interrupt [simp]:
  assumes "won t"
  shows "won (rt_interrupt env now t)"
proof -
  have k: "won (rt_keepalive env now t)" if "won t" for t
    using that by (simp add: rt_keepalive_def keepalive_interval_def c_rand_def Let_def)
  have c: "won (connect_tick env now t)"
    using assms by (simp add: connect_tick_def generate_random_bytes_def Let_def split: prod.split)
  have f: "won (rt_flush_acks env t)" if "won t" for t
    using that by (simp add: flush_acks_unfold)
  show ?thesis
    using assms c by (simp add: rt_interrupt_def Let_def rt_resend_def k f)
qed

lemma won_handle [simp]: "won t \<Longrightarrow> won (rt_handle_udp_packet env ip port buf t)"
proof -
  have a: "won (accept_segment env port g t)" if "won t" for g t
    using that by (cases g) (simp add: accept_segment_def Let_def)
  show "won t \<Longrightarrow> won (rt_handle_udp_packet env ip port buf t)"
    using a by (simp add: rt_handle_udp_packet_def rt_tick64_def Let_def split: option.split)
qed

lemma won_drain_socket [simp]: "won t \<Longrightarrow> won (drain_socket env ds t)"
proof (induction ds arbitrary: t)
  case (Cons x r)
  obtain ip port d where x: "x = (ip, port, d)" by (cases x) auto
  have "won (receive_one env ip port d t)"
    using Cons.prems by (auto simp: receive_one_def strip_frame_def Let_def split: option.split if_splits)
  with Cons show ?case unfolding x drain_socket_Cons by simp
qed simp

lemma won_turn [simp]: "won t \<Longrightarrow> won (snd (rt_worker_turn env t))"
  by (simp add: rt_worker_turn_def rt_tick64_def Let_def)

lemma won_worker [simp]: "won t \<Longrightarrow> won (snd (rt_worker env n t))"
proof (induction n arbitrary: t)
  case (Suc n)
  show ?case
    using Suc won_turn [of t env] by (cases "rt_worker_turn env t") (auto split: bool.split)
qed simp


section \<open>The first answer\<close>

text \<open>What setting up the session leaves alone, and the state it starts in.\<close>

definition waiting :: "rudp_transport \<Rightarrow> (u32 \<times> u16 \<times> bytes) list \<times> bool \<times> nat" where
  "waiting t = (udp_in t, result_ready t, transport_mode t)"

lemma waiting_open_socket: "rt_open_socket env d cfg t = Inr (fd, t') \<Longrightarrow> waiting t' = waiting t"
  by (auto simp: rt_open_socket_def rand_id_def c_rand_def Let_def on_se_def waiting_def split: if_splits option.splits)

lemma waiting_derive_keys:
  "waiting (rt_derive_keys env t) = waiting t" "status (se (rt_derive_keys env t)) = status (se t)"
  by (simp_all add: rt_derive_keys_def generate_random_bytes_def c_rand_def on_se_def waiting_def Let_def split: prod.split)

lemma waiting_on_se [simp]: "waiting (on_se f t) = waiting t" "waiting (t\<lparr>tick_i := n\<rparr>) = waiting t"
  "waiting (t\<lparr>rand_i := n\<rparr>) = waiting t" "waiting (t\<lparr>rb_i := n\<rparr>) = waiting t"
  by (simp_all add: waiting_def on_se_def)

lemma waiting_init_session:
  "init_session env d cfg t = Inr t' \<Longrightarrow> waiting t' = waiting t"
  by (auto simp: init_session_def rt_tick64_def generate_random_bytes_def keepalive_interval_def c_rand_def Let_def
      waiting_derive_keys split: prod.splits if_splits)

lemma status_init_session:
  "init_session env d cfg t = Inr t' \<Longrightarrow> status (se t') = RT_STATUS_CONNECT_SENT"
  by (auto simp: init_session_def rt_tick64_def generate_random_bytes_def keepalive_interval_def c_rand_def Let_def
      waiting_derive_keys on_se_def session_zero_def split: prod.splits if_splits option.splits)

lemma connect_start_waiting:
  assumes "connect_start env d cfg t = Inr t1"
  shows "udp_in t1 = udp_in t" "result_ready t1 = result_ready t" "transport_mode t1 = cfg_transport_mode cfg"
    "status (se t1) = RT_STATUS_CONNECT_SENT" "\<not> halt t1"
proof -
  let ?t = "t\<lparr>connect_timeout_ms := (if cfg_connect_timeout_ms cfg \<noteq> 0 then cfg_connect_timeout_ms cfg
      else ucast RUDP_T_TIMEOUT_MS), transport_mode := cfg_transport_mode cfg\<rparr>"
  obtain fd u where o: "rt_open_socket env d cfg ?t = Inr (fd, u)" and nb: "nonblock_ok d"
    using assms by (auto simp: connect_start_def Let_def split: sum.splits if_splits)
  obtain wfd afd where p: "pair_fds d = Some (wfd, afd)" and pn: "pair_nonblock_ok d"
    using assms o nb by (auto simp: connect_start_def connect_session_def Let_def split: option.splits if_splits)
  let ?u = "u\<lparr>t_udp_fd := fd, open_fds := wfd # afd # open_fds u, worker_fd := wfd, app_fd := afd\<rparr>"
  obtain v where v: "init_session env d cfg ?u = Inr v" "t1 = v\<lparr>halt := False, thread_started := True\<rparr>"
    using assms o nb p pn by (auto simp: connect_start_def connect_session_def Let_def split: sum.splits if_splits)
  have "waiting v = waiting ?t" using waiting_init_session [OF v(1)] waiting_open_socket [OF o] by (simp add: waiting_def)
  then show "udp_in t1 = udp_in t" "result_ready t1 = result_ready t" "transport_mode t1 = cfg_transport_mode cfg"
    by (simp_all add: v(2) waiting_def)
  show "status (se t1) = RT_STATUS_CONNECT_SENT" "\<not> halt t1" using status_init_session [OF v(1)] by (simp_all add: v(2))
qed

text \<open>A segment that the session accepts as the first answer.\<close>

definition answers :: "rt_env \<Rightarrow> rudp_transport \<Rightarrow> bytes \<Rightarrow> bool" where
  "answers env t b \<longleftrightarrow> 20 \<le> length b \<and> length b \<le> RUDP_T_MAX_PACKET_SIZE \<and>
     (case open_segment env (key_recv (se t)) b of
        None \<Rightarrow> False
      | Some (my_tick, yr_tick, max_ack, acks, sq, payload) \<Rightarrow>
          (\<forall>n. yr_tick \<le> rt_tick env n) \<and> sq \<noteq> 0 \<and> sq \<noteq> magic_disconnect (se t))"

lemma acks_status:
  "status (note_ticks m y (process_acks k acks s)) = status s"
  "magic_disconnect (note_ticks m y (process_acks k acks s)) = magic_disconnect s"
proof -
  have "status (fold rt_process_ack acks u) = status u \<and>
      magic_disconnect (fold rt_process_ack acks u) = magic_disconnect u" for u
    by (induction acks arbitrary: u) (auto simp: rt_process_ack_def)
  then show "status (note_ticks m y (process_acks k acks s)) = status s"
    "magic_disconnect (note_ticks m y (process_acks k acks s)) = magic_disconnect s"
    by (simp_all add: note_ticks_def process_acks_def rt_process_ack2_def Let_def)
qed

lemma answer_wins:
  assumes "answers env t b" "status (se t) = RT_STATUS_CONNECT_SENT" "\<not> result_ready t"
  shows "won (rt_handle_udp_packet env ip port b t)"
proof -
  obtain my yr k acks sq payload where o: "open_segment env (key_recv (se t)) b = Some (my, yr, k, acks, sq, payload)"
    and a: "\<forall>n. yr \<le> rt_tick env n" "sq \<noteq> 0" "sq \<noteq> magic_disconnect (se t)"
    using assms(1) by (auto simp: answers_def split: option.splits)
  have l: "\<not> length b < RUDP_T_SHA1_SIZE" "\<not> length b < 20" using assms(1) by (simp_all add: answers_def rt_consts)
  let ?t = "t\<lparr>tick_i := tick_i t + 1\<rparr>"
  have "won (accept_segment env port (my, yr, k, acks, sq, payload) ?t)"
    using a(2,3) assms(2,3)
    by (simp add: accept_segment_def on_se_def acks_status recv_payload_status rt_signal_result_def won_def Let_def)
  moreover have "rt_handle_udp_packet env ip port b t = accept_segment env port (my, yr, k, acks, sq, payload) ?t"
    using o a(1) l assms(2) by (simp add: rt_handle_udp_packet_def rt_tick64_def leD)
  ultimately show ?thesis by simp
qed

lemma connect_answered:
  assumes "cfg_server_ip cfg \<noteq> 0" "cfg_server_port cfg \<noteq> 0" "cfg_transport_mode cfg = RUDP_T_MODE_UDP"
    and s: "connect_start env d cfg t = Inr t1" and "\<not> result_ready t"
    and "udp_in t = (ip, port, b) # rest" "answers env t1 b" "turns d = Suc n"
  shows "fst (rudp_transport_connect env d cfg t) = 0"
proof -
  note w = connect_start_waiting [OF s]
  let ?t = "snd (rt_tick64 env t1)" and ?u = "snd (rt_tick64 env (snd (rt_tick64 env t1)))"
  have st: "status (se ?u) = RT_STATUS_CONNECT_SENT" "\<not> result_ready ?u" "\<not> halt ?t" "udp_in ?u = udp_in t1"
      "key_recv (se ?u) = key_recv (se t1)" "magic_disconnect (se ?u) = magic_disconnect (se t1)" "transport_mode ?u = RUDP_T_MODE_UDP"
    using w assms(3,5) by (simp_all add: rt_tick64_def)
  have "se ?u = se t1" by (simp add: rt_tick64_def)
  then have ans: "answers env ?u b" using assms(7) by (simp only: answers_def)
  then have "take RUDP_T_MAX_PACKET_SIZE b = b" "b \<noteq> []" by (auto simp: answers_def)
  then have "won (receive_one env ip port b ?u)"
    using answer_wins [OF ans st(1,2)] st(7) by (simp add: receive_one_def strip_frame_def rt_consts)
  then have "won (drain_socket env (udp_in ?u) ?u)"
    unfolding st(4) w(1) assms(6) drain_socket_Cons by (auto simp: \<open>b \<noteq> []\<close> rt_consts)
  then have "won (snd (rt_worker_turn env ?t))"
    by (simp add: rt_worker_turn_def rt_tick64_def Let_def)
  then have "won (snd (rt_worker env (turns d) ?t))"
    using st(3) assms(8) by (cases "rt_worker_turn env ?t") (auto split: bool.split)
  then show ?thesis
    using s assms(1,2) by (simp add: rudp_transport_connect_def rt_tick64_def Let_def won_def)
qed

text \<open>
  A server that answers is reached: when the session could be set up and a segment of the
  peer (signed with the session's key, carrying a sequence number and a tick the clock has
  reached) is waiting when the worker starts, the connect returns 0, whatever else the
  network delivers and however long the worker runs before the result is looked at.
\<close>

theorem rt_connect_answered:
  assumes "cfg_server_ip cfg \<noteq> 0" "cfg_server_port cfg \<noteq> 0" "cfg_transport_mode cfg = RUDP_T_MODE_UDP"
    and "connect_start env d cfg t = Inr t1" and "\<not> result_ready t"
    and "udp_in t = (ip, port, b) # rest" "answers env t1 b" "turns d = Suc n"
  shows "fst (rudp_transport_connect env d cfg t) = 0"
  by (rule connect_answered [OF assms])

section \<open>Witness\<close>

definition rt_calls1 :: rt_calls where
  "rt_calls1 = rt_calls0\<lparr>turns := 1\<rparr>"

definition rt_cfg1 :: rudp_transport_config_t where
  "rt_cfg1 = rt_cfg0\<lparr>cfg_connect_timeout_ms := 5000\<rparr>"

definition rt_hello :: rudp_transport where
  "rt_hello = rt_created\<lparr>udp_in := [(1, 5555, peer_datagram 1 [42])]\<rparr>"

definition rt_hello_started :: rudp_transport where
  "rt_hello_started = projr (connect_start rt_env0 rt_calls1 rt_cfg1 rt_hello)"

lemmas rt_hello_defs = rt_hello_def rt_cfg1_def rt_calls1_def rt_start_defs rt_consts

lemma hello_starts: "connect_start rt_env0 rt_calls1 rt_cfg1 rt_hello = Inr rt_hello_started"
proof -
  have "fcap (rt_fifo_init (Some m) RUDP_T_MAX_FIFO_SIZE) \<noteq> 0" for m
    by (simp add: rt_fifo_init_cap RUDP_T_MAX_FIFO_SIZE_def)
  then have "\<exists>x. connect_start rt_env0 rt_calls1 rt_cfg1 rt_hello = Inr x"
    by (simp add: rt_hello_defs)
  then show ?thesis unfolding rt_hello_started_def by (auto simp: sum.exhaust_sel)
qed

lemma hello_keys:
  "key_recv (se rt_hello_started) = key_recv (se rt_started)"
  "magic_disconnect (se rt_hello_started) = magic_disconnect (se rt_started)"
proof -
  have "key_recv (se rt_started) = replicate 20 0"
    by (simp add: rt_started_def rt_start_defs rt_derive_key_def rt_consts rt_fifo_init_cap split: option.split)
  moreover have "key_recv (se rt_hello_started) = replicate 20 0"
    by (simp add: rt_hello_started_def rt_hello_defs rt_derive_key_def rt_fifo_init_cap split: option.split)
  ultimately show "key_recv (se rt_hello_started) = key_recv (se rt_started)" by simp
  have "magic_disconnect (se rt_hello_started) = 0xffffffff00000000"
    by (simp add: rt_hello_started_def rt_hello_defs rt_fifo_init_cap replicate_4 split: option.split)
  then show "magic_disconnect (se rt_hello_started) = magic_disconnect (se rt_started)" by (simp add: started_magic)
qed

lemma hello_answers: "answers rt_env0 rt_hello_started (peer_datagram 1 [42])"
  using peer_datagram_opens [of "[42]" 1] hello_keys started_magic by (simp add: answers_def) (simp add: rt_env0_def)

lemma hello_connects: "fst (rudp_transport_connect rt_env0 rt_calls1 rt_cfg1 rt_hello) = 0"
  by (rule connect_answered [OF _ _ _ hello_starts _ _ hello_answers, where n = 0 and ip = 1 and port = 5555 and rest = "[]"])
    (simp_all add: rt_cfg1_def rt_cfg0_def rt_calls1_def rt_hello_def rt_created_def rudp_transport_create_def)

theorem rt_connect_answered_witness: "fst (rudp_transport_connect rt_env0 rt_calls1 rt_cfg1 rt_hello) = 0"
  by (rule rt_connect_answered [OF _ _ _ hello_starts _ _ hello_answers, where n = 0 and ip = 1 and port = 5555 and rest = "[]"])
    (simp_all add: rt_cfg1_def rt_cfg0_def rt_calls1_def rt_hello_def rt_created_def rudp_transport_create_def)

end
