(* ===== verification/Race.thy ===== *)
theory Race
  imports Login Tcp_Socket Nat_T Rudp_Connect
begin

text \<open>
  The race of the transports (\<^verbatim>\<open>softether_protocol.c\<close>): the five thread functions, each of
  which opens a link to the server and runs the TLS handshake over it, and the main thread,
  which waits for one that has finished, raises the cancel flag and joins them all. A thread
  function is a step function that resumes at its stage; the cuts are where it reads the
  shared flag or writes a field that the main thread reads, so that every interleaving of
  the program is a sequence of these steps. The calls in between are those of
  \<open>Tcp_Socket\<close>, \<open>Nat_T\<close> and \<open>Rudp_Transport\<close>; their own readings of the flag are part of the
  environment of the thread, as are the TLS library and the clock.
\<close>

section \<open>Data\<close>

datatype transport = TRANSPORT_TCP | TRANSPORT_RUDP_DIRECT | TRANSPORT_NATT | TRANSPORT_DNS | TRANSPORT_ICMP

fun transport_delay_ms :: "transport \<Rightarrow> nat" where
  "transport_delay_ms TRANSPORT_TCP = 0"
| "transport_delay_ms TRANSPORT_RUDP_DIRECT = 0"
| "transport_delay_ms TRANSPORT_NATT = 30"
| "transport_delay_ms TRANSPORT_DNS = 100"
| "transport_delay_ms TRANSPORT_ICMP = 200"

fun transport_name :: "transport \<Rightarrow> string" where
  "transport_name TRANSPORT_TCP = ''TCP''"
| "transport_name TRANSPORT_RUDP_DIRECT = ''RUDP_DIRECT''"
| "transport_name TRANSPORT_NATT = ''NAT-T''"
| "transport_name TRANSPORT_DNS = ''DNS''"
| "transport_name TRANSPORT_ICMP = ''ICMP''"

text \<open>TLS contexts are named by numbers; \<^verbatim>\<open>ssl_ctx\<close> and \<^verbatim>\<open>ssl\<close> are the same pointer.\<close>

record transport_result_t =
  r_type :: transport
  r_socket_fd :: int
  r_ssl_ctx :: "nat option"
  r_ssl :: "nat option"
  r_transport :: "rudp_transport option"
  r_error :: err
  r_finished :: bool
  r_ok :: bool

record thread_ctx =
  tx_type :: transport
  tx_resolved_ip :: bytes
  tx_port :: int
  tx_connect_host :: bytes
  tx_timeout_ms :: u32
  tx_udp_port :: int

text \<open>
  The world of one thread: the answers to its socket calls, whether \<^verbatim>\<open>calloc\<close> gives it a
  transport, the surroundings of that transport with the datagrams that reach it, those of
  the rendezvous with its fuel, and what the TLS library answers.
\<close>

record thread_env =
  e_os :: os_env
  e_alloc :: bool
  e_rt :: rt_env
  e_calls :: rt_calls
  e_arrive :: "(u32 \<times> u16 \<times> bytes) list"
  e_nat :: nat_env
  e_fuel :: nat
  e_ctx :: "nat option"
  e_tls :: bool

text \<open>A link: a TCP descriptor, or a transport with its application end.\<close>

datatype link = Tcp_link int | Udp_link rudp_transport

fun link_fd :: "link \<Rightarrow> int" where
  "link_fd (Tcp_link fd) = fd"
| "link_fd (Udp_link tr) = rudp_transport_get_fd tr"

fun link_transport :: "link \<Rightarrow> rudp_transport option" where
  "link_transport (Tcp_link fd) = None"
| "link_transport (Udp_link tr) = Some tr"

text \<open>
  Where a thread stands: begun; behind its delay; dialling; (NAT-T) behind the rendezvous,
  with the socket it left open; past the check that follows; linked; past the last look at
  the flag; past the handshake; \<^verbatim>\<open>finished\<close> swapped; \<^verbatim>\<open>ok\<close> set; returned.
\<close>

datatype stage = Begun | Asleep | Dialing | Met softether_nat_t_result_t "int list"
  | Pairing softether_nat_t_result_t "int list" | Linked link | Securing link | Claiming link nat
  | Claimed link nat | Flagged link nat | Over | Crashed

record tthread =
  t_stage :: stage
  t_res :: transport_result_t
  t_os :: os
  t_made :: "nat list"
  t_destroyed :: "nat list"
  t_left :: "int list"

section \<open>The steps the threads share\<close>

text \<open>\<^verbatim>\<open>memset(r, 0)\<close> and the type; TCP alone sets the descriptor to -1.\<close>

definition result0 :: "transport \<Rightarrow> transport_result_t" where
  "result0 ty = \<lparr>r_type = ty, r_socket_fd = (if ty = TRANSPORT_TCP then -1 else 0), r_ssl_ctx = None, r_ssl = None,
     r_transport = None, r_error = ERR_NONE, r_finished = False, r_ok = False\<rparr>"

definition begin_thread :: "transport \<Rightarrow> tthread \<Rightarrow> tthread" where
  "begin_thread ty th = th\<lparr>t_stage := Asleep, t_res := result0 ty\<rparr>"

definition give_up :: "err \<Rightarrow> tthread \<Rightarrow> tthread" where
  "give_up e th = th\<lparr>t_stage := Over, t_res := (t_res th)\<lparr>r_error := e\<rparr>\<rparr>"

text \<open>The first look at the flag: a cancelled thread returns with no error set.\<close>

definition look_before :: "bool \<Rightarrow> tthread \<Rightarrow> tthread" where
  "look_before cancel th = th\<lparr>t_stage := (if cancel then Over else Dialing)\<rparr>"

text \<open>Giving a link back; descriptors the clean-up does not reach are left over.\<close>

definition destroy_transport :: "thread_env \<Rightarrow> rudp_transport \<Rightarrow> tthread \<Rightarrow> tthread" where
  "destroy_transport env tr th = th\<lparr>t_left := t_left th @ open_fds (rudp_transport_destroy (e_rt env) tr)\<rparr>"

fun drop_race_link :: "thread_env \<Rightarrow> link \<Rightarrow> tthread \<Rightarrow> tthread" where
  "drop_race_link env (Tcp_link fd) th = th\<lparr>t_os := os_close fd (t_os th)\<rparr>"
| "drop_race_link env (Udp_link tr) th = destroy_transport env tr th"

definition look_after :: "thread_env \<Rightarrow> bool \<Rightarrow> link \<Rightarrow> tthread \<Rightarrow> tthread" where
  "look_after env cancel l th = (if cancel then give_up ERR_TCP_CONNECT (drop_race_link env l th)
     else th\<lparr>t_stage := Securing l\<rparr>)"

definition secure :: "thread_env \<Rightarrow> link \<Rightarrow> tthread \<Rightarrow> tthread" where
  "secure env l th = (case e_ctx env of
     None \<Rightarrow> give_up ERR_TLS_HANDSHAKE (drop_race_link env l th)
   | Some x \<Rightarrow> (let th = th\<lparr>t_made := t_made th @ [x]\<rparr> in
       if \<not> e_tls env
       then give_up ERR_TLS_HANDSHAKE (drop_race_link env l (th\<lparr>t_destroyed := t_destroyed th @ [x]\<rparr>))
       else th\<lparr>t_stage := Claiming l x\<rparr>))"

text \<open>The compare-and-swap of \<^verbatim>\<open>r->finished\<close>, a field of this thread's own result.\<close>

definition claim :: "thread_env \<Rightarrow> link \<Rightarrow> nat \<Rightarrow> tthread \<Rightarrow> tthread" where
  "claim env l x th = (if \<not> r_finished (t_res th)
     then th\<lparr>t_stage := Claimed l x, t_res := (t_res th)\<lparr>r_finished := True\<rparr>\<rparr>
     else (drop_race_link env l (th\<lparr>t_destroyed := t_destroyed th @ [x]\<rparr>))\<lparr>t_stage := Over\<rparr>)"

definition flag_ok :: "link \<Rightarrow> nat \<Rightarrow> tthread \<Rightarrow> tthread" where
  "flag_ok l x th = th\<lparr>t_stage := Flagged l x, t_res := (t_res th)\<lparr>r_ok := True\<rparr>\<rparr>"

definition publish :: "link \<Rightarrow> nat \<Rightarrow> tthread \<Rightarrow> tthread" where
  "publish l x th = th\<lparr>t_stage := Over, t_res := (t_res th)\<lparr>r_socket_fd := link_fd l, r_ssl_ctx := Some x,
     r_ssl := Some x, r_transport := (case link_transport l of None \<Rightarrow> r_transport (t_res th) | Some tr \<Rightarrow> Some tr)\<rparr>\<rparr>"

text \<open>What all five have in common behind the dialling.\<close>

definition finish_thread :: "thread_env \<Rightarrow> bool \<Rightarrow> tthread \<Rightarrow> tthread" where
  "finish_thread env cancel th = (case t_stage th of
     Linked l \<Rightarrow> look_after env cancel l th
   | Securing l \<Rightarrow> secure env l th
   | Claiming l x \<Rightarrow> claim env l x th
   | Claimed l x \<Rightarrow> flag_ok l x th
   | Flagged l x \<Rightarrow> publish l x th
   | _ \<Rightarrow> th)"

section \<open>The thread functions\<close>

definition tcp_dial :: "thread_env \<Rightarrow> thread_ctx \<Rightarrow> tthread \<Rightarrow> tthread" where
  "tcp_dial env ctx th = (case socket_create (e_os env) SOCKET_TYPE_TCP (t_os th) of
     (None, s) \<Rightarrow> give_up ERR_TCP_CONNECT (th\<lparr>t_os := s\<rparr>)
   | (Some k, s) \<Rightarrow>
       (case socket_connect_timeout (e_os env) (tx_connect_host ctx) (tx_port ctx) (as_int (tx_timeout_ms ctx)) (k, s) of
          (r, k, s) \<Rightarrow>
            if r \<noteq> 0 then give_up ERR_TCP_CONNECT (th\<lparr>t_os := socket_destroy (Some k) s\<rparr>)
            else let fd = sk_fd k
              in th\<lparr>t_stage := Linked (Tcp_link fd), t_os := socket_destroy (Some (k\<lparr>sk_fd := -1\<rparr>)) s\<rparr>))"

definition transport_thread_tcp :: "thread_env \<Rightarrow> thread_ctx \<Rightarrow> bool \<Rightarrow> tthread \<Rightarrow> tthread" where
  "transport_thread_tcp env ctx cancel th = (case t_stage th of
     Begun \<Rightarrow> begin_thread TRANSPORT_TCP th
   | Asleep \<Rightarrow> look_before cancel th
   | Dialing \<Rightarrow> tcp_dial env ctx th
   | _ \<Rightarrow> finish_thread env cancel th)"

text \<open>
  A transport session to an address and port in a mode; \<open>given\<close> are the descriptors that
  pass to the transport with \<^verbatim>\<open>cfg.udp_fd\<close>.
\<close>

definition udp_config :: "u32 \<Rightarrow> u16 \<Rightarrow> int \<Rightarrow> u32 \<Rightarrow> nat \<Rightarrow> rudp_transport_config_t" where
  "udp_config ip port fd timeout_ms mode = \<lparr>cfg_server_ip = ip, cfg_server_port = port, cfg_udp_fd = fd,
     cfg_connect_timeout_ms = timeout_ms, cfg_transport_mode = mode\<rparr>"

definition open_transport ::
  "thread_env \<Rightarrow> rudp_transport_config_t \<Rightarrow> int list \<Rightarrow> rudp_transport \<Rightarrow> tthread \<Rightarrow> tthread" where
  "open_transport env cfg given tr th =
     (case rudp_transport_connect (e_rt env) (e_calls env) cfg (tr\<lparr>open_fds := given, udp_in := e_arrive env\<rparr>) of
        (r, tr) \<Rightarrow> if r \<noteq> 0 then give_up ERR_TCP_CONNECT (destroy_transport env tr th)
                   else th\<lparr>t_stage := Linked (Udp_link tr)\<rparr>)"

definition udp_dial :: "thread_env \<Rightarrow> thread_ctx \<Rightarrow> u16 \<Rightarrow> nat \<Rightarrow> tthread \<Rightarrow> tthread" where
  "udp_dial env ctx port mode th = (case inet_pton (tx_resolved_ip ctx) of
     None \<Rightarrow> give_up ERR_TCP_CONNECT th
   | Some ip4 \<Rightarrow> (case rudp_transport_create (e_alloc env) of
       None \<Rightarrow> give_up ERR_TCP_CONNECT th
     | Some tr \<Rightarrow> open_transport env (udp_config ip4 port (-1) (tx_timeout_ms ctx) mode) [] tr th))"

definition transport_thread_rudp_direct :: "thread_env \<Rightarrow> thread_ctx \<Rightarrow> bool \<Rightarrow> tthread \<Rightarrow> tthread" where
  "transport_thread_rudp_direct env ctx cancel th = (case t_stage th of
     Begun \<Rightarrow> (let th = begin_thread TRANSPORT_RUDP_DIRECT th
       in if tx_udp_port ctx \<le> 0 then give_up ERR_TCP_CONNECT th else th)
   | Asleep \<Rightarrow> look_before cancel th
   | Dialing \<Rightarrow> udp_dial env ctx (word_of_int (tx_udp_port ctx)) RUDP_T_MODE_UDP th
   | _ \<Rightarrow> finish_thread env cancel th)"

definition natt_meet :: "thread_env \<Rightarrow> thread_ctx \<Rightarrow> tthread \<Rightarrow> tthread" where
  "natt_meet env ctx th = (case inet_pton (tx_resolved_ip ctx) of
     None \<Rightarrow> give_up ERR_TCP_CONNECT th
   | Some ip4 \<Rightarrow> (case nat_t_connect (e_fuel env) (e_nat env) ip4 (Some NAT_T_SVC_NAME) (unat (tx_timeout_ms ctx)) of
       None \<Rightarrow> th
     | Some (Ret (r, st)) \<Rightarrow> if r \<noteq> 0 then give_up ERR_TCP_CONNECT (th\<lparr>t_left := t_left th @ nt_open st\<rparr>)
                             else th\<lparr>t_stage := Met (nr st) (nt_open st)\<rparr>
     | Some _ \<Rightarrow> th\<lparr>t_stage := Crashed\<rparr>))"

text \<open>\<^verbatim>\<open>if (nr.udp_fd >= 0) close(nr.udp_fd);\<close>, then the error.\<close>

definition natt_abandon :: "softether_nat_t_result_t \<Rightarrow> int list \<Rightarrow> tthread \<Rightarrow> tthread" where
  "natt_abandon res opn th = give_up ERR_TCP_CONNECT
     (th\<lparr>t_left := t_left th @ (if 0 \<le> nat_udp_fd res then remove1 (nat_udp_fd res) opn else opn)\<rparr>)"

definition natt_pair :: "thread_env \<Rightarrow> thread_ctx \<Rightarrow> softether_nat_t_result_t \<Rightarrow> int list \<Rightarrow> tthread \<Rightarrow> tthread" where
  "natt_pair env ctx res opn th = (case rudp_transport_create (e_alloc env) of
     None \<Rightarrow> natt_abandon res opn th
   | Some tr \<Rightarrow> open_transport env (udp_config (result_ip res) (result_port res)
        (if same_lan res \<noteq> 0 then -1 else nat_udp_fd res) (tx_timeout_ms ctx) RUDP_T_MODE_UDP) opn tr th)"

definition transport_thread_natt :: "thread_env \<Rightarrow> thread_ctx \<Rightarrow> bool \<Rightarrow> tthread \<Rightarrow> tthread" where
  "transport_thread_natt env ctx cancel th = (case t_stage th of
     Begun \<Rightarrow> begin_thread TRANSPORT_NATT th
   | Asleep \<Rightarrow> look_before cancel th
   | Dialing \<Rightarrow> natt_meet env ctx th
   | Met res opn \<Rightarrow> (if cancel then natt_abandon res opn th else th\<lparr>t_stage := Pairing res opn\<rparr>)
   | Pairing res opn \<Rightarrow> natt_pair env ctx res opn th
   | _ \<Rightarrow> finish_thread env cancel th)"

definition transport_thread_dns :: "thread_env \<Rightarrow> thread_ctx \<Rightarrow> bool \<Rightarrow> tthread \<Rightarrow> tthread" where
  "transport_thread_dns env ctx cancel th = (case t_stage th of
     Begun \<Rightarrow> begin_thread TRANSPORT_DNS th
   | Asleep \<Rightarrow> look_before cancel th
   | Dialing \<Rightarrow> udp_dial env ctx 53 RUDP_T_MODE_DNS th
   | _ \<Rightarrow> finish_thread env cancel th)"

definition transport_thread_icmp :: "thread_env \<Rightarrow> thread_ctx \<Rightarrow> bool \<Rightarrow> tthread \<Rightarrow> tthread" where
  "transport_thread_icmp env ctx cancel th = (case t_stage th of
     Begun \<Rightarrow> begin_thread TRANSPORT_ICMP th
   | Asleep \<Rightarrow> look_before cancel th
   | Dialing \<Rightarrow> udp_dial env ctx 0 RUDP_T_MODE_ICMP th
   | _ \<Rightarrow> finish_thread env cancel th)"

fun thread_func :: "transport \<Rightarrow> thread_env \<Rightarrow> thread_ctx \<Rightarrow> bool \<Rightarrow> tthread \<Rightarrow> tthread" where
  "thread_func TRANSPORT_TCP = transport_thread_tcp"
| "thread_func TRANSPORT_RUDP_DIRECT = transport_thread_rudp_direct"
| "thread_func TRANSPORT_NATT = transport_thread_natt"
| "thread_func TRANSPORT_DNS = transport_thread_dns"
| "thread_func TRANSPORT_ICMP = transport_thread_icmp"


section \<open>The main thread\<close>

text \<open>
  The contexts of the threads that are launched. TCP is not among them (\<^verbatim>\<open>want_tcp = 0\<close>);
  the direct session needs an advertised port.
\<close>

definition race_timeout :: "int \<Rightarrow> u32" where
  "race_timeout timeout_ms = (let t = word_of_int timeout_ms in if t < 5000 then 5000 else t)"

definition race_contexts :: "int \<Rightarrow> int \<Rightarrow> bytes \<Rightarrow> int \<Rightarrow> bytes \<Rightarrow> thread_ctx list" where
  "race_contexts udp_port timeout_ms resolved_ip port connect_host =
     (let mk = (\<lambda>ty udp. \<lparr>tx_type = ty, tx_resolved_ip = resolved_ip, tx_port = port, tx_connect_host = connect_host,
            tx_timeout_ms = race_timeout timeout_ms, tx_udp_port = udp\<rparr>)
      in (if 0 < udp_port then [mk TRANSPORT_RUDP_DIRECT udp_port] else []) @
         [mk TRANSPORT_NATT 0, mk TRANSPORT_DNS 0, mk TRANSPORT_ICMP 0])"

text \<open>
  The main thread polls the results one by one (\<open>Scan i\<close> is about to read the \<open>i\<close>-th), looks at
  the clock before every round, raises the flag, joins and is done with the winner or none.
\<close>

datatype main_stage = Scan nat | Cancel "nat option" | Join "nat option" | Done "nat option"

record race =
  r_flag :: bool
  r_threads :: "tthread list"
  r_main :: main_stage

definition seen_ok :: "tthread \<Rightarrow> bool" where
  "seen_ok th \<longleftrightarrow> r_finished (t_res th) \<and> r_ok (t_res th)"

inductive race_step :: "(nat \<Rightarrow> thread_env) \<Rightarrow> thread_ctx list \<Rightarrow> race \<Rightarrow> race \<Rightarrow> bool" for envs ctxs where
  thread: "i < length (r_threads R) \<Longrightarrow> t_stage (r_threads R ! i) \<noteq> Over \<Longrightarrow>
    race_step envs ctxs R (R\<lparr>r_threads := (r_threads R)[i :=
      thread_func (tx_type (ctxs ! i)) (envs i) (ctxs ! i) (r_flag R) (r_threads R ! i)]\<rparr>)"
| found: "r_main R = Scan i \<Longrightarrow> i < length (r_threads R) \<Longrightarrow> seen_ok (r_threads R ! i) \<Longrightarrow>
    race_step envs ctxs R (R\<lparr>r_main := Cancel (Some i)\<rparr>)"
| not_yet: "r_main R = Scan i \<Longrightarrow> i < length (r_threads R) \<Longrightarrow> \<not> seen_ok (r_threads R ! i) \<Longrightarrow>
    race_step envs ctxs R (R\<lparr>r_main := Scan (i + 1)\<rparr>)"
| again: "r_main R = Scan (length (r_threads R)) \<Longrightarrow> race_step envs ctxs R (R\<lparr>r_main := Scan 0\<rparr>)"
| expire: "r_main R = Scan 0 \<Longrightarrow> race_step envs ctxs R (R\<lparr>r_main := Cancel None\<rparr>)"
| cancel: "r_main R = Cancel w \<Longrightarrow> race_step envs ctxs R (R\<lparr>r_flag := True, r_main := Join w\<rparr>)"
| join: "r_main R = Join w \<Longrightarrow> \<forall>th \<in> set (r_threads R). t_stage th = Over \<Longrightarrow>
    race_step envs ctxs R (R\<lparr>r_main := Done w\<rparr>)"

inductive_cases race_stepE: "race_step envs ctxs R R'"

definition thread0 :: "os \<Rightarrow> tthread" where
  "thread0 s = \<lparr>t_stage = Begun, t_res = result0 TRANSPORT_TCP, t_os = s, t_made = [], t_destroyed = [], t_left = []\<rparr>"

definition race0 :: "thread_ctx list \<Rightarrow> race" where
  "race0 ctxs = \<lparr>r_flag = False, r_threads = map (\<lambda>_. thread0 os0) ctxs, r_main = Scan 0\<rparr>"

definition race_runs :: "(nat \<Rightarrow> thread_env) \<Rightarrow> thread_ctx list \<Rightarrow> race \<Rightarrow> bool" where
  "race_runs envs ctxs R \<longleftrightarrow> (race_step envs ctxs)\<^sup>*\<^sup>* (race0 ctxs) R"

section \<open>What a thread owns\<close>

text \<open>A transport that runs, with its three descriptors; a link that is open and counted once.\<close>

definition udp_live :: "rudp_transport \<Rightarrow> bool" where
  "udp_live tr \<longleftrightarrow> thread_started tr \<and> 0 \<le> t_udp_fd tr \<and> 0 \<le> worker_fd tr \<and> 0 \<le> app_fd tr \<and>
     open_fds tr = [worker_fd tr, app_fd tr, t_udp_fd tr]"

definition idle :: "os \<Rightarrow> bool" where
  "idle s \<longleftrightarrow> mset (opened s) = mset (os_closed s)"

fun link_live :: "os \<Rightarrow> link \<Rightarrow> bool" where
  "link_live s (Tcp_link fd) \<longleftrightarrow> 0 \<le> fd \<and> mset (opened s) = mset (os_closed s) + {#fd#}"
| "link_live s (Udp_link tr) \<longleftrightarrow> udp_live tr \<and> idle s"

definition met_ok :: "softether_nat_t_result_t \<Rightarrow> int list \<Rightarrow> bool" where
  "met_ok res opn \<longleftrightarrow> result_ip res \<noteq> 0 \<and> result_port res \<noteq> 0 \<and>
     (if same_lan res \<noteq> 0 then nat_udp_fd res = -1 \<and> opn = [] else 0 \<le> nat_udp_fd res \<and> opn = [nat_udp_fd res])"

text \<open>The result a thread has published: the link and the context, as the main thread reads them.\<close>

definition published :: "tthread \<Rightarrow> link \<Rightarrow> nat \<Rightarrow> bool" where
  "published th l x \<longleftrightarrow> r_socket_fd (t_res th) = link_fd l \<and> r_ssl (t_res th) = Some x \<and>
     r_ssl_ctx (t_res th) = Some x \<and> r_transport (t_res th) = link_transport l \<and> r_error (t_res th) = ERR_NONE \<and>
     link_live (t_os th) l \<and> t_made th = [x] \<and> t_destroyed th = []"

definition unclaimed :: "tthread \<Rightarrow> bool" where
  "unclaimed th \<longleftrightarrow> \<not> r_finished (t_res th) \<and> \<not> r_ok (t_res th) \<and> r_transport (t_res th) = None"

definition quiet :: "tthread \<Rightarrow> bool" where
  "quiet th \<longleftrightarrow> unclaimed th \<and> r_error (t_res th) = ERR_NONE \<and> t_made th = [] \<and> t_destroyed th = []"

definition racer_ok :: "tthread \<Rightarrow> bool" where
  "racer_ok th \<longleftrightarrow> t_left th = [] \<and> (case t_stage th of
     Begun \<Rightarrow> idle (t_os th) \<and> quiet th
   | Asleep \<Rightarrow> idle (t_os th) \<and> quiet th
   | Dialing \<Rightarrow> idle (t_os th) \<and> quiet th
   | Met res opn \<Rightarrow> idle (t_os th) \<and> quiet th \<and> met_ok res opn
   | Pairing res opn \<Rightarrow> idle (t_os th) \<and> quiet th \<and> met_ok res opn
   | Linked l \<Rightarrow> link_live (t_os th) l \<and> quiet th
   | Securing l \<Rightarrow> link_live (t_os th) l \<and> quiet th
   | Claiming l x \<Rightarrow> link_live (t_os th) l \<and> unclaimed th \<and> r_error (t_res th) = ERR_NONE \<and> t_made th = [x] \<and> t_destroyed th = []
   | Claimed l x \<Rightarrow> link_live (t_os th) l \<and> r_finished (t_res th) \<and> \<not> r_ok (t_res th) \<and> r_transport (t_res th) = None \<and>
       r_error (t_res th) = ERR_NONE \<and> t_made th = [x] \<and> t_destroyed th = []
   | Flagged l x \<Rightarrow> link_live (t_os th) l \<and> seen_ok th \<and> r_transport (t_res th) = None \<and>
       r_error (t_res th) = ERR_NONE \<and> t_made th = [x] \<and> t_destroyed th = []
   | Over \<Rightarrow> (if r_ok (t_res th) then r_finished (t_res th) \<and> (\<exists>l x. published th l x)
       else unclaimed th \<and> idle (t_os th) \<and> t_made th = t_destroyed th)
   | Crashed \<Rightarrow> False)"

text \<open>
  The assumptions on the system: descriptors are not negative, and a descriptor just
  opened can be made non-blocking.
\<close>

definition env_ok :: "thread_env \<Rightarrow> bool" where
  "env_ok env \<longleftrightarrow> fds_valid (e_calls env) \<and> nonblock_ok (e_calls env) \<and> pair_nonblock_ok (e_calls env) \<and>
     (\<forall>fd. nt_socket (e_nat env) = Some fd \<longrightarrow> 0 \<le> fd)"

section \<open>Transports are given back\<close>

lemma destroy_fds:
  assumes "fds t = (u, w, a, fs, ts)"
  shows "open_fds (rudp_transport_destroy env t) =
    (let fs = (if w \<ge> 0 then remove1 w fs else fs); fs = (if a \<ge> 0 then remove1 a fs else fs)
     in if u \<ge> 0 then remove1 u fs else fs)"
proof -
  have "fds (t\<lparr>halt := True\<rparr>) = (u, w, a, fs, ts)" using assms by simp
  then have "fds (stop_worker env (t\<lparr>halt := True\<rparr>)) = (u, w, a, fs, False)"
    using fds_stop_worker [of env "t\<lparr>halt := True\<rparr>"] by (simp add: fds_def)
  then show ?thesis
    by (simp add: rudp_transport_destroy_def free_fifos_def close_pair_def close_udp_def close_fd_def fds_def
        on_se_def Let_def)
qed

lemma destroy_live: "udp_live tr \<Longrightarrow> open_fds (rudp_transport_destroy env tr) = []"
  by (subst destroy_fds [of tr "t_udp_fd tr" "worker_fd tr" "app_fd tr" "open_fds tr" "thread_started tr"])
    (auto simp: fds_def udp_live_def Let_def)

lemma destroy_closed: "fds tr = (-1, -1, -1, [], False) \<Longrightarrow> open_fds (rudp_transport_destroy env tr) = []"
  by (drule destroy_fds [of _ _ _ _ _ _ env]) (simp add: Let_def)

text \<open>Connecting a fresh transport, with a socket of its own or with the one it was given.\<close>

lemma fresh_connect:
  assumes "rudp_transport_create ok = Some tr" "fds_valid d" "nonblock_ok d" "pair_nonblock_ok d"
    and given: "cfg_udp_fd cfg < 0 \<and> given = [] \<or>
      0 \<le> cfg_udp_fd cfg \<and> given = [cfg_udp_fd cfg] \<and> cfg_server_ip cfg \<noteq> 0 \<and> cfg_server_port cfg \<noteq> 0"
    and r: "rudp_transport_connect env d cfg (tr\<lparr>open_fds := given, udp_in := ds\<rparr>) = (r, t')"
  shows "r = 0 \<and> udp_live t' \<or> r = -1 \<and> fds t' = (-1, -1, -1, [], False)"
proof -
  let ?t = "tr\<lparr>open_fds := given, udp_in := ds\<rparr>"
  have g: "given = given_fds cfg" using given by (auto simp: given_fds_def)
  then have f: "fds ?t = (-1, -1, -1, given_fds cfg, False)" using created_fds [OF assms(1)] by (simp add: fds_def)
  have "sock_had d cfg" if "given \<noteq> []" using that given by (auto simp: sock_had_def)
  then have l: "left_open d cfg = {#}"
    using assms(3,4) given g by (auto simp: left_open_def split: option.split)
  have wa: "0 \<le> w \<and> 0 \<le> a" if "pair_fds d = Some (w, a)" for w a using that assms(2) by (simp add: fds_valid_def)
  show ?thesis
    using transport_connect_cases [OF f assms(2) r] l wa by (auto simp: fds_def udp_live_def)
qed

section \<open>The contract of a thread function\<close>

text \<open>Before a link exists; how many steps are left at most.\<close>

definition unlinked :: "stage \<Rightarrow> bool" where
  "unlinked st \<longleftrightarrow> (case st of Begun \<Rightarrow> True | Asleep \<Rightarrow> True | Dialing \<Rightarrow> True | Met _ _ \<Rightarrow> True | Pairing _ _ \<Rightarrow> True
     | _ \<Rightarrow> False)"

fun stage_rank :: "stage \<Rightarrow> nat" where
  "stage_rank Begun = 10"
| "stage_rank Asleep = 9"
| "stage_rank Dialing = 8"
| "stage_rank (Met _ _) = 7"
| "stage_rank (Pairing _ _) = 6"
| "stage_rank (Linked _) = 5"
| "stage_rank (Securing _) = 4"
| "stage_rank (Claiming _ _) = 3"
| "stage_rank (Claimed _ _) = 2"
| "stage_rank (Flagged _ _) = 1"
| "stage_rank Over = 0"
| "stage_rank Crashed = 0"

text \<open>
  The rendezvous returns within its fuel; without it the thread stands still at this step.
  This is an assumption of the lemmas on progress only, not of those on what a thread owns.
\<close>

definition meets :: "thread_env \<Rightarrow> thread_ctx \<Rightarrow> bool" where
  "meets env ctx \<longleftrightarrow> (\<forall>ip. nat_t_connect (e_fuel env) (e_nat env) ip (Some NAT_T_SVC_NAME) (unat (tx_timeout_ms ctx)) \<noteq> None)"

lemma racer_ok_give_up:
  "idle (t_os th) \<Longrightarrow> unclaimed th \<Longrightarrow> t_made th = t_destroyed th \<Longrightarrow> t_left th = [] \<Longrightarrow> racer_ok (give_up e th)"
  by (simp add: racer_ok_def give_up_def unclaimed_def)

lemma drop_race_link_ok:
  assumes "link_live (t_os th) l"
  shows "idle (t_os (drop_race_link env l th)) \<and> t_left (drop_race_link env l th) = t_left th \<and>
    t_res (drop_race_link env l th) = t_res th \<and> t_made (drop_race_link env l th) = t_made th \<and>
    t_destroyed (drop_race_link env l th) = t_destroyed th"
  using assms by (cases l) (auto simp: idle_def os_close_def destroy_transport_def destroy_live)

text \<open>A link that is dropped leaves the thread with nothing.\<close>

lemma racer_ok_drop:
  assumes "link_live (t_os th) l" "unclaimed th" "t_made th = t_destroyed th" "t_left th = []"
  shows "racer_ok (give_up e (drop_race_link env l th))"
  using drop_race_link_ok [OF assms(1), of env] assms
  by (intro racer_ok_give_up) (simp_all add: unclaimed_def)

lemma finish_thread_ok:
  assumes ok: "racer_ok th"
  shows "racer_ok (finish_thread env c th)"
proof (cases "t_stage th")
  case (Linked l)
  then have k: "link_live (t_os th) l" "quiet th" "t_left th = []" using ok by (simp_all add: racer_ok_def)
  then have "racer_ok (th\<lparr>t_stage := Securing l\<rparr>)" by (simp add: racer_ok_def quiet_def unclaimed_def)
  moreover have "racer_ok (give_up ERR_TCP_CONNECT (drop_race_link env l th))"
    using k by (intro racer_ok_drop) (simp_all add: quiet_def)
  ultimately show ?thesis using Linked by (simp add: finish_thread_def look_after_def)
next
  case (Securing l)
  then have k: "link_live (t_os th) l" "quiet th" "t_left th = []" using ok by (simp_all add: racer_ok_def)
  show ?thesis
  proof (cases "e_ctx env")
    case None
    then show ?thesis using Securing k racer_ok_drop [of th l ERR_TLS_HANDSHAKE env]
      by (simp add: finish_thread_def secure_def quiet_def)
  next
    case (Some x)
    let ?th = "th\<lparr>t_made := t_made th @ [x]\<rparr>"
    have "racer_ok (give_up ERR_TLS_HANDSHAKE (drop_race_link env l (?th\<lparr>t_destroyed := t_destroyed th @ [x]\<rparr>)))"
      using k by (intro racer_ok_drop) (simp_all add: quiet_def unclaimed_def)
    then show ?thesis using Securing Some k
      by (simp add: finish_thread_def secure_def Let_def) (simp add: racer_ok_def quiet_def unclaimed_def)
  qed
next
  case (Flagged l x)
  then show ?thesis using ok
    by (auto simp: racer_ok_def finish_thread_def publish_def published_def seen_ok_def split: option.splits
        intro!: exI [of _ l] exI [of _ x])
qed (use ok in \<open>auto simp: racer_ok_def finish_thread_def claim_def flag_ok_def unclaimed_def seen_ok_def\<close>)

lemma finish_thread_rank:
  "racer_ok th \<Longrightarrow> t_stage th \<noteq> Over \<Longrightarrow> \<not> unlinked (t_stage th) \<Longrightarrow>
   stage_rank (t_stage (finish_thread env c th)) < stage_rank (t_stage th)"
  by (cases "t_stage th") (auto simp: unlinked_def finish_thread_def look_after_def give_up_def secure_def Let_def claim_def
      flag_ok_def publish_def racer_ok_def split: option.split)

lemma unlinkedE:
  assumes "unlinked st"
  obtains "st = Begun" | "st = Asleep" | "st = Dialing" | res opn where "st = Met res opn" | res opn where "st = Pairing res opn"
  using assms by (cases st) (simp_all add: unlinked_def)

lemma finish_thread_linked: "\<not> unlinked (t_stage th) \<Longrightarrow> \<not> unlinked (t_stage (finish_thread env c th))"
  by (cases "t_stage th") (auto simp: unlinked_def finish_thread_def look_after_def give_up_def secure_def Let_def claim_def
      flag_ok_def publish_def split: option.split)

lemma seen_linked: "racer_ok th \<Longrightarrow> seen_ok th \<Longrightarrow> \<not> unlinked (t_stage th)"
  by (auto simp: racer_ok_def quiet_def unclaimed_def seen_ok_def elim!: unlinkedE)

lemma finish_thread_seen: "racer_ok th \<Longrightarrow> seen_ok th \<Longrightarrow> seen_ok (finish_thread env c th)"
  by (cases "t_stage th") (auto simp: racer_ok_def quiet_def unclaimed_def finish_thread_def seen_ok_def publish_def)

text \<open>
  What the race relies on: before it has a link a thread function keeps its accounts in
  order and makes progress, and behind that all five go on alike.
\<close>

locale race_thread =
  fixes own :: "stage \<Rightarrow> bool"
    and func :: "thread_env \<Rightarrow> thread_ctx \<Rightarrow> bool \<Rightarrow> tthread \<Rightarrow> tthread"
  assumes dial: "env_ok env \<Longrightarrow> racer_ok th \<Longrightarrow> unlinked (t_stage th) \<Longrightarrow> own (t_stage th) \<Longrightarrow>
      racer_ok (func env ctx c th) \<and> own (t_stage (func env ctx c th)) \<and>
      (meets env ctx \<longrightarrow> stage_rank (t_stage (func env ctx c th)) < stage_rank (t_stage th))"
    and linked: "\<not> unlinked (t_stage th) \<Longrightarrow> func env ctx c th = finish_thread env c th"
    and own_linked: "\<not> unlinked st \<Longrightarrow> own st"
begin

lemma step_ok: "env_ok env \<Longrightarrow> racer_ok th \<Longrightarrow> own (t_stage th) \<Longrightarrow> racer_ok (func env ctx c th)"
  using dial linked finish_thread_ok by metis

lemma step_own: "env_ok env \<Longrightarrow> racer_ok th \<Longrightarrow> own (t_stage th) \<Longrightarrow> own (t_stage (func env ctx c th))"
  using dial linked own_linked finish_thread_linked by metis

lemma step_rank:
  "env_ok env \<Longrightarrow> racer_ok th \<Longrightarrow> own (t_stage th) \<Longrightarrow> meets env ctx \<Longrightarrow> t_stage th \<noteq> Over \<Longrightarrow>
   stage_rank (t_stage (func env ctx c th)) < stage_rank (t_stage th)"
  using dial linked finish_thread_rank by metis

text \<open>Once it is flagged as successful a thread stays so, and one that has returned does nothing.\<close>

lemma step_seen: "racer_ok th \<Longrightarrow> seen_ok th \<Longrightarrow> seen_ok (func env ctx c th)"
  using linked finish_thread_seen seen_linked by metis

lemma step_over: "t_stage th = Over \<Longrightarrow> func env ctx c th = th"
  by (simp add: linked unlinked_def finish_thread_def)

end

lemma open_transport_ok:
  assumes "env_ok env" "rudp_transport_create ok = Some tr" "racer_ok th" "idle (t_os th)" "quiet th"
    and "cfg_udp_fd cfg < 0 \<and> given = [] \<or>
      0 \<le> cfg_udp_fd cfg \<and> given = [cfg_udp_fd cfg] \<and> cfg_server_ip cfg \<noteq> 0 \<and> cfg_server_port cfg \<noteq> 0"
  shows "racer_ok (open_transport env cfg given tr th)"
    "stage_rank (t_stage (open_transport env cfg given tr th)) < 6"
proof -
  obtain r t' where c: "rudp_transport_connect (e_rt env) (e_calls env) cfg
      (tr\<lparr>open_fds := given, udp_in := e_arrive env\<rparr>) = (r, t')" by (rule prod.exhaust)
  have e: "fds_valid (e_calls env)" "nonblock_ok (e_calls env)" "pair_nonblock_ok (e_calls env)"
    using assms(1) by (simp_all add: env_ok_def)
  have l: "t_left th = []" using assms(3) by (simp add: racer_ok_def)
  from fresh_connect [OF assms(2) e assms(6) c] c l assms(4,5)
  show "racer_ok (open_transport env cfg given tr th)"
    by (auto simp: open_transport_def destroy_transport_def destroy_closed quiet_def unclaimed_def racer_ok_def
        give_up_def)
  show "stage_rank (t_stage (open_transport env cfg given tr th)) < 6"
    using c by (auto simp: open_transport_def give_up_def)
qed

lemma udp_dial_ok:
  assumes "env_ok env" "racer_ok th" "t_stage th = Dialing"
  shows "racer_ok (udp_dial env ctx port mode th) \<and> stage_rank (t_stage (udp_dial env ctx port mode th)) < 8"
proof -
  have k: "idle (t_os th)" "quiet th" "t_left th = []" using assms(2,3) by (simp_all add: racer_ok_def)
  have g: "racer_ok (give_up e th)" for e using k by (intro racer_ok_give_up) (simp_all add: quiet_def)
  have o: "racer_ok (open_transport env (udp_config ip port (-1) (tx_timeout_ms ctx) mode) [] tr th) \<and>
      stage_rank (t_stage (open_transport env (udp_config ip port (-1) (tx_timeout_ms ctx) mode) [] tr th)) < 8"
    if "rudp_transport_create (e_alloc env) = Some tr" for ip tr
    using open_transport_ok [OF assms(1) that assms(2) k(1,2), of "udp_config ip port (-1) (tx_timeout_ms ctx) mode" "[]"]
    by (simp add: udp_config_def)
  then show ?thesis using g by (auto simp: udp_dial_def give_up_def split: option.split)
qed

lemma begin_ok:
  "racer_ok th \<Longrightarrow> t_stage th = Begun \<Longrightarrow> racer_ok (begin_thread ty th) \<and> stage_rank (t_stage (begin_thread ty th)) < 10"
  by (auto simp: racer_ok_def begin_thread_def result0_def quiet_def unclaimed_def)

lemma look_before_ok:
  "racer_ok th \<Longrightarrow> t_stage th = Asleep \<Longrightarrow> racer_ok (look_before c th) \<and> stage_rank (t_stage (look_before c th)) < 9"
  by (auto simp: racer_ok_def look_before_def quiet_def unclaimed_def)


text \<open>The stages of the rendezvous belong to the NAT-T thread; the others stand still there.\<close>

definition stage_of :: "transport \<Rightarrow> stage \<Rightarrow> bool" where
  "stage_of ty st \<longleftrightarrow> ty = TRANSPORT_NATT \<or> (case st of Met _ _ \<Rightarrow> False | Pairing _ _ \<Rightarrow> False | _ \<Rightarrow> True)"

lemma tcp_dial_ok:
  assumes ok: "racer_ok th" and st: "t_stage th = Dialing"
  shows "racer_ok (tcp_dial env ctx th) \<and> stage_rank (t_stage (tcp_dial env ctx th)) < 8"
proof -
  have k: "idle (t_os th)" "quiet th" "t_left th = []" using ok st by (simp_all add: racer_ok_def)
  obtain sock s where c: "socket_create (e_os env) SOCKET_TYPE_TCP (t_os th) = (sock, s)" by (rule prod.exhaust)
  have g: "racer_ok (give_up ERR_TCP_CONNECT (th\<lparr>t_os := z\<rparr>))" if "idle z" for z
    using that k by (intro racer_ok_give_up) (simp_all add: quiet_def unclaimed_def)
  show ?thesis
  proof (cases sock)
    case None
    then have "idle s" using c k(1)
      by (auto simp: socket_create_def os_open_def idle_def Let_def split: if_splits)
    then show ?thesis using None c g by (simp add: tcp_dial_def give_up_def)
  next
    case (Some q)
    then have b: "balanced {#} (q, s)" using c k(1)
      by (auto simp: socket_create_def os_open_def idle_def balanced_def held_def set_nonblock_def Let_def split: if_splits)
    obtain r q' s' where d: "socket_connect_timeout (e_os env) (tx_connect_host ctx) (tx_port ctx)
        (as_int (tx_timeout_ms ctx)) (q, s) = (r, q', s')" by (metis prod_cases3)
    have b': "balanced {#} (q', s')"
      using balanced_connect [OF b, of "e_os env" "tx_connect_host ctx" "tx_port ctx" "as_int (tx_timeout_ms ctx)"] d by simp
    show ?thesis
    proof (cases "r = 0")
      case False
      have "idle (socket_destroy (Some q') s')"
        using b' by (auto simp: balanced_def held_def idle_def socket_destroy_def os_close_def split: if_splits)
      then show ?thesis using False Some c d g by (simp add: tcp_dial_def give_up_def)
    next
      case True
      have "0 \<le> sk_fd q'" using connect_fd [OF d] True by simp
      then show ?thesis using True Some c d b' k
        by (auto simp: tcp_dial_def Let_def racer_ok_def quiet_def unclaimed_def balanced_def held_def socket_destroy_def)
    qed
  qed
qed


lemma natt_meet_ok:
  assumes e: "env_ok env" and ok: "racer_ok th" and st: "t_stage th = Dialing"
  shows "racer_ok (natt_meet env ctx th)" "meets env ctx \<Longrightarrow> stage_rank (t_stage (natt_meet env ctx th)) < 8"
proof -
  have k: "idle (t_os th)" "quiet th" "t_left th = []" using ok st by (simp_all add: racer_ok_def)
  have g: "racer_ok (give_up e th)" for e using k by (intro racer_ok_give_up) (simp_all add: quiet_def)
  have svc: "svc_ok (svc_of (Some NAT_T_SVC_NAME))" by (simp add: svc_ok_def svc_of_def NAT_T_SVC_NAME_def lit_def)
  have "racer_ok (natt_meet env ctx th) \<and> (meets env ctx \<longrightarrow> stage_rank (t_stage (natt_meet env ctx th)) < 8)"
  proof (cases "inet_pton (tx_resolved_ip ctx)")
    case None
    then show ?thesis using g by (simp add: natt_meet_def give_up_def)
  next
    case (Some ip)
    let ?n = "nat_t_connect (e_fuel env) (e_nat env) ip (Some NAT_T_SVC_NAME) (unat (tx_timeout_ms ctx))"
    show ?thesis
    proof (cases ?n)
      case None
      then have "\<not> meets env ctx" unfolding meets_def by blast
      then show ?thesis using None Some ok by (simp add: natt_meet_def)
    next
      case (Some res)
      from connect_result [OF svc Some] obtain r n where res: "res = Ret (r, n)"
        and n: "r = 0 \<and> met_ok (nr n) (nt_open n) \<or> r = -1 \<and> nt_open n = []"
        using e by (auto simp: met_ok_def env_ok_def split: if_splits)
      from n show ?thesis
      proof
        assume "r = -1 \<and> nt_open n = []"
        moreover have "racer_ok (give_up ERR_TCP_CONNECT (th\<lparr>t_left := []\<rparr>))"
          using k by (intro racer_ok_give_up) (simp_all add: quiet_def unclaimed_def)
        ultimately show ?thesis using \<open>inet_pton (tx_resolved_ip ctx) = Some ip\<close> Some res k(3)
          by (simp add: natt_meet_def) (simp add: give_up_def)
      next
        assume "r = 0 \<and> met_ok (nr n) (nt_open n)"
        then show ?thesis using \<open>inet_pton (tx_resolved_ip ctx) = Some ip\<close> Some res k
          by (simp add: natt_meet_def racer_ok_def quiet_def unclaimed_def)
      qed
    qed
  qed
  then show "racer_ok (natt_meet env ctx th)" "meets env ctx \<Longrightarrow> stage_rank (t_stage (natt_meet env ctx th)) < 8" by simp_all
qed

lemma natt_abandon_ok:
  assumes "idle (t_os th)" "quiet th" "t_left th = []" "met_ok res opn"
  shows "racer_ok (natt_abandon res opn th)"
  using assms by (auto simp: natt_abandon_def met_ok_def quiet_def unclaimed_def intro!: racer_ok_give_up split: if_splits)

lemma natt_pair_ok:
  assumes e: "env_ok env" and ok: "racer_ok th" and st: "t_stage th = Pairing res opn"
  shows "racer_ok (natt_pair env ctx res opn th) \<and> stage_rank (t_stage (natt_pair env ctx res opn th)) < 6"
proof -
  have k: "idle (t_os th)" "quiet th" "t_left th = []" "met_ok res opn" using ok st by (simp_all add: racer_ok_def)
  let ?c = "udp_config (result_ip res) (result_port res) (if same_lan res \<noteq> 0 then -1 else nat_udp_fd res)
    (tx_timeout_ms ctx) RUDP_T_MODE_UDP"
  have c: "cfg_udp_fd ?c < 0 \<and> opn = [] \<or> 0 \<le> cfg_udp_fd ?c \<and> opn = [cfg_udp_fd ?c] \<and>
      cfg_server_ip ?c \<noteq> 0 \<and> cfg_server_port ?c \<noteq> 0"
    using k(4) by (auto simp: met_ok_def udp_config_def)
  show ?thesis
  proof (cases "rudp_transport_create (e_alloc env)")
    case None
    then show ?thesis using natt_abandon_ok [OF k] by (simp add: natt_pair_def natt_abandon_def give_up_def)
  next
    case (Some tr)
    then show ?thesis using open_transport_ok [OF e Some ok k(1,2) c] by (simp add: natt_pair_def)
  qed
qed

lemma stage_of_simps [simp]:
  "stage_of TRANSPORT_NATT st" "\<not> unlinked st \<Longrightarrow> stage_of ty st"
  "stage_of ty Begun" "stage_of ty Asleep" "stage_of ty Dialing"
  "stage_of ty (Met res opn) \<longleftrightarrow> ty = TRANSPORT_NATT" "stage_of ty (Pairing res opn) \<longleftrightarrow> ty = TRANSPORT_NATT"
  by (auto simp: stage_of_def unlinked_def split: stage.splits)

text \<open>A dialling step ends with a link or returns, so its stage is nobody's in particular.\<close>

lemma rank_stage_of: "stage_rank st < 6 \<Longrightarrow> stage_of ty st"
  by (cases st) (simp_all add: stage_of_def)

lemma tcp_dial_stage: "stage_of ty (t_stage (tcp_dial env ctx th))"
  by (auto simp: tcp_dial_def give_up_def stage_of_def Let_def split: prod.split option.split)

lemma udp_dial_stage: "stage_of ty (t_stage (udp_dial env ctx port mode th))"
  by (auto simp: udp_dial_def open_transport_def give_up_def stage_of_def split: prod.split option.split)

interpretation tcp: race_thread "stage_of TRANSPORT_TCP" transport_thread_tcp
proof
  fix env th ctx c
  assume "env_ok env" "racer_ok th" "unlinked (t_stage th)" "stage_of TRANSPORT_TCP (t_stage th)"
  then show "racer_ok (transport_thread_tcp env ctx c th) \<and> stage_of TRANSPORT_TCP (t_stage (transport_thread_tcp env ctx c th)) \<and>
      (meets env ctx \<longrightarrow> stage_rank (t_stage (transport_thread_tcp env ctx c th)) < stage_rank (t_stage th))"
    using begin_ok [of th TRANSPORT_TCP] look_before_ok [of th c] tcp_dial_ok [of th env ctx]
    by (auto elim!: unlinkedE simp: transport_thread_tcp_def tcp_dial_stage)
      (simp_all add: begin_thread_def look_before_def stage_of_def)
qed (auto simp: transport_thread_tcp_def unlinked_def split: stage.splits)

interpretation dns: race_thread "stage_of TRANSPORT_DNS" transport_thread_dns
proof
  fix env th ctx c
  assume "env_ok env" "racer_ok th" "unlinked (t_stage th)" "stage_of TRANSPORT_DNS (t_stage th)"
  then show "racer_ok (transport_thread_dns env ctx c th) \<and> stage_of TRANSPORT_DNS (t_stage (transport_thread_dns env ctx c th)) \<and>
      (meets env ctx \<longrightarrow> stage_rank (t_stage (transport_thread_dns env ctx c th)) < stage_rank (t_stage th))"
    using begin_ok [of th TRANSPORT_DNS] look_before_ok [of th c] udp_dial_ok [of env th ctx 53 RUDP_T_MODE_DNS]
    by (auto elim!: unlinkedE simp: transport_thread_dns_def udp_dial_stage)
      (simp_all add: begin_thread_def look_before_def stage_of_def)
qed (auto simp: transport_thread_dns_def unlinked_def split: stage.splits)

interpretation icmp: race_thread "stage_of TRANSPORT_ICMP" transport_thread_icmp
proof
  fix env th ctx c
  assume "env_ok env" "racer_ok th" "unlinked (t_stage th)" "stage_of TRANSPORT_ICMP (t_stage th)"
  then show "racer_ok (transport_thread_icmp env ctx c th) \<and> stage_of TRANSPORT_ICMP (t_stage (transport_thread_icmp env ctx c th)) \<and>
      (meets env ctx \<longrightarrow> stage_rank (t_stage (transport_thread_icmp env ctx c th)) < stage_rank (t_stage th))"
    using begin_ok [of th TRANSPORT_ICMP] look_before_ok [of th c] udp_dial_ok [of env th ctx 0 RUDP_T_MODE_ICMP]
    by (auto elim!: unlinkedE simp: transport_thread_icmp_def udp_dial_stage)
      (simp_all add: begin_thread_def look_before_def stage_of_def)
qed (auto simp: transport_thread_icmp_def unlinked_def split: stage.splits)

interpretation direct: race_thread "stage_of TRANSPORT_RUDP_DIRECT" transport_thread_rudp_direct
proof
  fix env th ctx c
  assume a: "env_ok env" "racer_ok th" "unlinked (t_stage th)" "stage_of TRANSPORT_RUDP_DIRECT (t_stage th)"
  have b: "racer_ok (give_up e (begin_thread ty th))" if "t_stage th = Begun" for e ty
    using a(2) that by (intro racer_ok_give_up) (auto simp: racer_ok_def begin_thread_def result0_def quiet_def unclaimed_def)
  show "racer_ok (transport_thread_rudp_direct env ctx c th) \<and>
      stage_of TRANSPORT_RUDP_DIRECT (t_stage (transport_thread_rudp_direct env ctx c th)) \<and>
      (meets env ctx \<longrightarrow> stage_rank (t_stage (transport_thread_rudp_direct env ctx c th)) < stage_rank (t_stage th))"
    using a b begin_ok [of th TRANSPORT_RUDP_DIRECT] look_before_ok [of th c]
      udp_dial_ok [of env th ctx "word_of_int (tx_udp_port ctx)" RUDP_T_MODE_UDP]
    by (auto elim!: unlinkedE simp: transport_thread_rudp_direct_def udp_dial_stage Let_def)
      (simp_all add: give_up_def begin_thread_def look_before_def stage_of_def)
qed (auto simp: transport_thread_rudp_direct_def unlinked_def split: stage.splits)

interpretation natt: race_thread "stage_of TRANSPORT_NATT" transport_thread_natt
proof
  fix env th ctx c
  assume a: "env_ok env" "racer_ok th" "unlinked (t_stage th)" "stage_of TRANSPORT_NATT (t_stage th)"
  have m: "racer_ok (natt_abandon res opn th)" "racer_ok (th\<lparr>t_stage := Pairing res opn\<rparr>)"
      "stage_rank (t_stage (natt_abandon res opn th)) = 0" if "t_stage th = Met res opn" for res opn
    using a(2) that natt_abandon_ok [of th res opn]
    by (auto simp: racer_ok_def quiet_def unclaimed_def natt_abandon_def give_up_def)
  show "racer_ok (transport_thread_natt env ctx c th) \<and> stage_of TRANSPORT_NATT (t_stage (transport_thread_natt env ctx c th)) \<and>
      (meets env ctx \<longrightarrow> stage_rank (t_stage (transport_thread_natt env ctx c th)) < stage_rank (t_stage th))"
    using a m begin_ok [of th TRANSPORT_NATT] look_before_ok [of th c] natt_meet_ok [of env th ctx] natt_pair_ok [of env th _ _ ctx]
    by (auto elim!: unlinkedE simp: transport_thread_natt_def)
qed (auto simp: transport_thread_natt_def unlinked_def split: stage.splits)

lemmas thread_laws =
  tcp.step_ok direct.step_ok natt.step_ok dns.step_ok icmp.step_ok
  tcp.step_own direct.step_own natt.step_own dns.step_own icmp.step_own
  tcp.step_rank direct.step_rank natt.step_rank dns.step_rank icmp.step_rank

lemma thread_func_ok:
  assumes "env_ok env" "racer_ok th" "stage_of ty (t_stage th)"
  shows "racer_ok (thread_func ty env ctx c th)" "stage_of ty (t_stage (thread_func ty env ctx c th))"
    "meets env ctx \<Longrightarrow> t_stage th \<noteq> Over \<Longrightarrow> stage_rank (t_stage (thread_func ty env ctx c th)) < stage_rank (t_stage th)"
  using assms by (cases ty; simp add: thread_laws)+

lemma thread_func_seen: "racer_ok th \<Longrightarrow> seen_ok th \<Longrightarrow> seen_ok (thread_func ty env ctx c th)"
  by (cases ty) (simp_all add: tcp.step_seen direct.step_seen natt.step_seen dns.step_seen icmp.step_seen)


section \<open>Every interleaving\<close>

definition choice :: "main_stage \<Rightarrow> nat option" where
  "choice m = (case m of Scan _ \<Rightarrow> None | Cancel w \<Rightarrow> w | Join w \<Rightarrow> w | Done w \<Rightarrow> w)"

text \<open>
  Every thread keeps its accounts in order; whom the main thread has chosen has succeeded;
  when it is done all have returned.
\<close>

definition race_inv :: "thread_ctx list \<Rightarrow> race \<Rightarrow> bool" where
  "race_inv ctxs R \<longleftrightarrow> length (r_threads R) = length ctxs \<and>
     (\<forall>i < length ctxs. racer_ok (r_threads R ! i) \<and> stage_of (tx_type (ctxs ! i)) (t_stage (r_threads R ! i))) \<and>
     (\<forall>i. choice (r_main R) = Some i \<longrightarrow> i < length ctxs \<and> seen_ok (r_threads R ! i)) \<and>
     (\<forall>w. r_main R = Done w \<longrightarrow> (\<forall>th \<in> set (r_threads R). t_stage th = Over))"

lemma racer_ok_thread0: "racer_ok (thread0 os0)"
  by (simp add: racer_ok_def thread0_def os0_def idle_def quiet_def unclaimed_def result0_def)

lemma race_inv_start: "race_inv ctxs (race0 ctxs)"
  using racer_ok_thread0 by (simp add: race_inv_def race0_def choice_def) (simp add: thread0_def)

lemma race_inv_step:
  assumes step: "race_step envs ctxs R R'" and inv: "race_inv ctxs R" and env: "\<forall>i. env_ok (envs i)"
  shows "race_inv ctxs R'"
  using step
proof cases
  case (thread i)
  let ?th = "r_threads R ! i" and ?th' = "thread_func (tx_type (ctxs ! i)) (envs i) (ctxs ! i) (r_flag R) (r_threads R ! i)"
  have i: "i < length ctxs" "racer_ok ?th" "stage_of (tx_type (ctxs ! i)) (t_stage ?th)" "env_ok (envs i)"
    using inv thread env by (simp_all add: race_inv_def)
  note f = thread_func_ok(1,2) [OF i(4,2,3), of "ctxs ! i" "r_flag R"] and g = thread_func_seen [OF i(2)]
  have "r_main R \<noteq> Done w" for w using inv thread by (auto simp: race_inv_def)
  then show ?thesis using inv thread f g by (auto simp: race_inv_def nth_list_update)
qed (use inv in \<open>auto simp: race_inv_def choice_def\<close>)

interpretation race_life: step_invariant "race_step envs ctxs" "\<lambda>R. (\<forall>i. env_ok (envs i)) \<longrightarrow> race_inv ctxs R" for envs ctxs
  by unfold_locales (blast intro: race_inv_step)

lemma race_inv_runs:
  assumes "(race_step envs ctxs)\<^sup>*\<^sup>* R R'" "race_inv ctxs R" "\<forall>i. env_ok (envs i)"
  shows "race_inv ctxs R'"
  using race_life.run_keeps [OF assms(1)] assms(2,3) by blast

lemma racer_ok_over:
  "racer_ok th \<Longrightarrow> t_stage th = Over \<Longrightarrow> t_left th = [] \<and>
     (if r_ok (t_res th) then \<exists>l x. published th l x
      else idle (t_os th) \<and> t_made th = t_destroyed th \<and> r_transport (t_res th) = None)"
  by (auto simp: racer_ok_def unclaimed_def)

text \<open>
  C26: what the race ends in, in every interleaving of the threads. When the main thread is done,
  every thread has returned and has either published a live link with a live TLS context
  (and no error), or holds nothing: each descriptor it opened is closed, each context it
  created destroyed, and no transport is left. The thread chosen as the winner, if there is
  one, is of the first kind, so that what the main thread promotes is open, secured and its
  own.
\<close>

theorem race_outcome:
  assumes "\<forall>i. env_ok (envs i)" "race_runs envs ctxs R" "r_main R = Done w"
  shows "(\<forall>i < length ctxs. t_stage (r_threads R ! i) = Over \<and> t_left (r_threads R ! i) = [] \<and>
      (if r_ok (t_res (r_threads R ! i)) then \<exists>l x. published (r_threads R ! i) l x
       else idle (t_os (r_threads R ! i)) \<and> t_made (r_threads R ! i) = t_destroyed (r_threads R ! i) \<and>
         r_transport (t_res (r_threads R ! i)) = None)) \<and>
    (case w of None \<Rightarrow> True | Some i \<Rightarrow> i < length ctxs \<and> r_ok (t_res (r_threads R ! i)))"
proof -
  have inv: "race_inv ctxs R"
    using race_inv_runs [OF _ race_inv_start assms(1)] assms(2) by (simp add: race_runs_def)
  have over: "t_stage (r_threads R ! i) = Over" if "i < length ctxs" for i
    using inv assms(3) that by (simp add: race_inv_def)
  have "racer_ok (r_threads R ! i)" if "i < length ctxs" for i using inv that by (simp add: race_inv_def)
  then have "t_left (r_threads R ! i) = [] \<and> (if r_ok (t_res (r_threads R ! i)) then \<exists>l x. published (r_threads R ! i) l x
       else idle (t_os (r_threads R ! i)) \<and> t_made (r_threads R ! i) = t_destroyed (r_threads R ! i) \<and>
         r_transport (t_res (r_threads R ! i)) = None)" if "i < length ctxs" for i
    using that over [OF that] racer_ok_over by blast
  moreover have "case w of None \<Rightarrow> True | Some i \<Rightarrow> i < length ctxs \<and> r_ok (t_res (r_threads R ! i))"
    using inv assms(3) by (auto simp: race_inv_def choice_def seen_ok_def split: option.split)
  ultimately show ?thesis using over by blast
qed

text \<open>A thread that has passed its last look at the flag, with a handshake that will succeed.\<close>

definition committed :: "link \<Rightarrow> nat \<Rightarrow> tthread \<Rightarrow> bool" where
  "committed l x th \<longleftrightarrow> t_stage th \<in> {Securing l, Claiming l x, Claimed l x, Flagged l x} \<or>
     t_stage th = Over \<and> r_ok (t_res th) \<and> published th l x"

lemma finish_committed:
  assumes "committed l x th" "racer_ok th" "e_ctx env = Some x" "e_tls env"
  shows "committed l x (finish_thread env c th)"
  using assms
  by (auto simp: committed_def racer_ok_def finish_thread_def secure_def claim_def flag_ok_def publish_def published_def
      quiet_def unclaimed_def seen_ok_def split: option.split)

lemma committed_linked: "committed l x th \<Longrightarrow> \<not> unlinked (t_stage th)"
  by (auto simp: committed_def unlinked_def)

lemma thread_func_linked: "\<not> unlinked (t_stage th) \<Longrightarrow> thread_func ty env ctx c th = finish_thread env c th"
  by (cases ty) (simp_all add: tcp.linked direct.linked natt.linked dns.linked icmp.linked)

lemma race_committed:
  assumes "(race_step envs ctxs)\<^sup>*\<^sup>* R R'" "race_inv ctxs R" "\<forall>i. env_ok (envs i)"
    and "j < length ctxs" "committed l x (r_threads R ! j)" "e_ctx (envs j) = Some x" "e_tls (envs j)"
  shows "committed l x (r_threads R' ! j)"
  using assms(1)
proof (induction rule: rtranclp_induct)
  case base
  show ?case using assms(5) .
next
  case (step Q Q')
  have inv: "race_inv ctxs Q" using race_inv_runs [OF step(1) assms(2,3)] .
  from step(2) show ?case
  proof cases
    case (thread i)
    have "racer_ok (r_threads Q ! j)" "length (r_threads Q) = length ctxs"
      using inv assms(4) by (simp_all add: race_inv_def)
    then show ?thesis using thread step(3) assms(4,6,7) finish_committed
        thread_func_linked [OF committed_linked [OF step(3)]]
      by (cases "i = j") simp_all
  qed (use step(3) in simp_all)
qed

text \<open>
  C28: the race does not call off a thread that is already in its handshake. The swap that is to
  pick one winner is on a field of the thread's own result, so it always succeeds: once a
  thread has looked at the flag for the last time and its handshake goes through, it ends
  with an open link and a live context whoever else has won or whether the deadline has
  passed. Unless it is the one the main thread picked, nobody closes them.
\<close>

theorem race_late_finisher_leaks:
  assumes "\<forall>i. env_ok (envs i)" "race_runs envs ctxs R" "j < length ctxs"
    and "t_stage (r_threads R ! j) = Securing l" "e_ctx (envs j) = Some x" "e_tls (envs j)"
    and "(race_step envs ctxs)\<^sup>*\<^sup>* R R'" "r_main R' = Done w"
  shows "t_stage (r_threads R' ! j) = Over \<and> published (r_threads R' ! j) l x"
proof -
  have inv: "race_inv ctxs R"
    using race_inv_runs [OF _ race_inv_start assms(1)] assms(2) by (simp add: race_runs_def)
  have inv': "race_inv ctxs R'" using race_inv_runs [OF assms(7) inv assms(1)] .
  then have "t_stage (r_threads R' ! j) = Over" using assms(3,8) by (simp add: race_inv_def)
  moreover have "committed l x (r_threads R' ! j)"
    using assms(4) by (intro race_committed [OF assms(7) inv assms(1,3) _ assms(5,6)]) (simp add: committed_def)
  ultimately show ?thesis by (simp add: committed_def)
qed

text \<open>
  A thread that has yet to look at the flag, or has returned without a link and without
  having created a TLS context.
\<close>

definition called_back :: "tthread \<Rightarrow> bool" where
  "called_back th \<longleftrightarrow> unlinked (t_stage th) \<or> (\<exists>l. t_stage th = Linked l) \<or>
     t_stage th = Over \<and> \<not> r_ok (t_res th) \<and> t_made th = []"

lemma open_transport_called_back:
  "\<not> r_ok (t_res th) \<Longrightarrow> t_made th = [] \<Longrightarrow> called_back (open_transport env cfg given tr th)"
  by (simp add: open_transport_def give_up_def destroy_transport_def called_back_def split: prod.split)

lemma dial_called_back:
  assumes "\<not> r_ok (t_res th)" "t_made th = []"
  shows "called_back (tcp_dial env ctx th)" "called_back (udp_dial env ctx port mode th)"
    "called_back (natt_pair env ctx res opn th)"
    "env_ok env \<Longrightarrow> racer_ok th \<Longrightarrow> t_stage th = Dialing \<Longrightarrow> called_back (natt_meet env ctx th)"
proof -
  have o: "called_back (open_transport env cfg given tr th)" for cfg given tr
    by (rule open_transport_called_back [OF assms])
  have g: "called_back (give_up e th)" for e using assms by (simp add: called_back_def give_up_def)
  show "called_back (tcp_dial env ctx th)"
    using assms by (auto simp: tcp_dial_def called_back_def give_up_def Let_def split: prod.split option.split)
  show "called_back (udp_dial env ctx port mode th)"
    by (simp add: udp_dial_def o g split: option.split)
  show "called_back (natt_pair env ctx res opn th)"
    using assms by (simp add: natt_pair_def o split: option.split) (simp add: natt_abandon_def give_up_def called_back_def)
  show "called_back (natt_meet env ctx th)" if e: "env_ok env" "racer_ok th" "t_stage th = Dialing"
  proof -
    have "t_stage (natt_meet env ctx th) \<noteq> Crashed"
      using natt_meet_ok(1) [OF e, of ctx] by (rule contrapos_pn) (simp add: racer_ok_def)
    then show ?thesis using assms that(3)
      by (auto simp: natt_meet_def called_back_def give_up_def unlinked_def split: option.split outcome.split prod.split)
  qed
qed

lemma quiet_unlinked: "racer_ok th \<Longrightarrow> unlinked (t_stage th) \<or> t_stage th = Linked l \<Longrightarrow> \<not> r_ok (t_res th) \<and> t_made th = []"
  by (auto simp: racer_ok_def quiet_def unclaimed_def elim!: unlinkedE)

lemma thread_called_back:
  assumes "env_ok env" "racer_ok th" "called_back th" "stage_of ty (t_stage th)"
  shows "called_back (thread_func ty env ctx True th)"
proof (cases "unlinked (t_stage th)")
  case True
  then have q: "\<not> r_ok (t_res th)" "t_made th = []" using quiet_unlinked [OF assms(2)] by blast+
  note d = dial_called_back [OF q] and nm = dial_called_back(4) [OF q assms(1,2)]
  have b: "called_back (begin_thread ty th)" "called_back (give_up e (begin_thread ty th))"
    "t_stage th = Asleep \<Longrightarrow> called_back (look_before True th)" "called_back (natt_abandon res opn th)" for e res opn
    using q by (simp_all add: called_back_def begin_thread_def give_up_def result0_def look_before_def natt_abandon_def unlinked_def)
  from True show ?thesis
    using d nm b assms(4)
    by (cases ty; elim unlinkedE)
      (simp_all add: transport_thread_tcp_def transport_thread_rudp_direct_def transport_thread_natt_def
        transport_thread_dns_def transport_thread_icmp_def Let_def)
next
  case False
  then have f: "thread_func ty env ctx True th = finish_thread env True th" by (rule thread_func_linked)
  consider l where "t_stage th = Linked l" | "t_stage th = Over" using False assms(3) by (auto simp: called_back_def)
  then show ?thesis
  proof cases
    case (1 l)
    then have "\<not> r_ok (t_res th) \<and> t_made th = []" using quiet_unlinked [OF assms(2)] by blast
    moreover have "link_live (t_os th) l" using assms(2) 1 by (simp add: racer_ok_def)
    ultimately show ?thesis using 1 drop_race_link_ok [of th l env] unfolding f
      by (simp add: finish_thread_def look_after_def called_back_def give_up_def)
  next
    case 2
    then show ?thesis using assms(3) unfolding f by (simp add: finish_thread_def)
  qed
qed

lemma race_called_back:
  assumes "(race_step envs ctxs)\<^sup>*\<^sup>* R R'" "race_inv ctxs R" "\<forall>i. env_ok (envs i)" "r_flag R"
    and "j < length ctxs" "called_back (r_threads R ! j)"
  shows "r_flag R' \<and> called_back (r_threads R' ! j)"
  using assms(1)
proof (induction rule: rtranclp_induct)
  case base
  show ?case using assms(4,6) by simp
next
  case (step Q Q')
  have inv: "race_inv ctxs Q" using race_inv_runs [OF step(1) assms(2,3)] .
  from step(2) show ?case
  proof cases
    case (thread i)
    have k: "racer_ok (r_threads Q ! j)" "stage_of (tx_type (ctxs ! j)) (t_stage (r_threads Q ! j))"
      "length (r_threads Q) = length ctxs"
      using inv assms(5) by (simp_all add: race_inv_def)
    have "called_back (thread_func (tx_type (ctxs ! j)) (envs j) (ctxs ! j) True (r_threads Q ! j))"
      using step(3) assms(3) by (intro thread_called_back k) simp_all
    then show ?thesis using thread step(3) assms(5) k(3) by (cases "i = j") simp_all
  qed (use step(3) in simp_all)
qed

text \<open>
  C27: the flag calls a thread off. Once it is up, a thread of any of the transports that is
  still before its last look at it, whether it has not begun, is dialling, has met the relay
  or has just linked, ends without a link, in every interleaving that is joined: it has
  returned, created no TLS context, published nothing, closed every descriptor it opened, and
  is not the winner.
\<close>

theorem race_cancel_stops:
  assumes "\<forall>i. env_ok (envs i)" "race_runs envs ctxs R" "r_flag R" "j < length ctxs"
    and "unlinked (t_stage (r_threads R ! j)) \<or> (\<exists>l. t_stage (r_threads R ! j) = Linked l)"
    and "(race_step envs ctxs)\<^sup>*\<^sup>* R R'" "r_main R' = Done w"
  shows "t_stage (r_threads R' ! j) = Over \<and> \<not> r_finished (t_res (r_threads R' ! j)) \<and> \<not> r_ok (t_res (r_threads R' ! j)) \<and>
    r_transport (t_res (r_threads R' ! j)) = None \<and> t_made (r_threads R' ! j) = [] \<and> t_left (r_threads R' ! j) = [] \<and>
    mset (opened (t_os (r_threads R' ! j))) = mset (os_closed (t_os (r_threads R' ! j))) \<and> w \<noteq> Some j"
proof -
  have inv: "race_inv ctxs R"
    using race_inv_runs [OF _ race_inv_start assms(1)] assms(2) by (simp add: race_runs_def)
  have inv': "race_inv ctxs R'" using race_inv_runs [OF assms(6) inv assms(1)] .
  have over: "t_stage (r_threads R' ! j) = Over" and ok: "racer_ok (r_threads R' ! j)"
    using inv' assms(4,7) by (simp_all add: race_inv_def)
  have "called_back (r_threads R ! j)" using assms(5) by (auto simp: called_back_def)
  from race_called_back [OF assms(6) inv assms(1,3,4) this] over
  have nk: "\<not> r_ok (t_res (r_threads R' ! j))" "t_made (r_threads R' ! j) = []"
    by (auto simp: called_back_def unlinked_def)
  moreover have "w \<noteq> Some j"
    using inv' assms(7) nk(1) by (auto simp: race_inv_def choice_def seen_ok_def)
  ultimately show ?thesis using over ok by (simp add: racer_ok_def unclaimed_def idle_def)
qed

lemma udp_dial_port_0:
  "t_stage (udp_dial env ctx 0 mode th) = Over \<and> r_ok (t_res (udp_dial env ctx 0 mode th)) = r_ok (t_res th)"
  by (simp add: udp_dial_def open_transport_def udp_config_def rudp_transport_connect_def give_up_def
      destroy_transport_def split: option.split)

text \<open>
  The ICMP transport never connects: it is started with port 0, which
  \<^verbatim>\<open>rudp_transport_connect\<close> refuses, so in no run does its thread get a link.
\<close>

theorem race_icmp_never_connects:
  assumes "race_runs envs ctxs R" "i < length ctxs" "tx_type (ctxs ! i) = TRANSPORT_ICMP"
  shows "\<not> r_ok (t_res (r_threads R ! i)) \<and> t_stage (r_threads R ! i) \<in> {Begun, Asleep, Dialing, Over}"
proof -
  let ?P = "\<lambda>th. \<not> r_ok (t_res th) \<and> t_stage th \<in> {Begun, Asleep, Dialing, Over}"
  have step: "?P (transport_thread_icmp env ctx c th)" if "?P th" for env ctx c th
    using that
    by (auto simp: transport_thread_icmp_def begin_thread_def look_before_def udp_dial_port_0 finish_thread_def result0_def)
  have "length (r_threads R) = length ctxs \<and> ?P (r_threads R ! i)"
    using assms(1) unfolding race_runs_def
  proof (induction rule: rtranclp_induct)
    case base
    show ?case using assms(2) by (simp add: race0_def thread0_def result0_def)
  next
    case (step Q Q')
    from step(2) show ?case
    proof cases
      case (thread k)
      then show ?thesis using step(3) assms(2,3) \<open>\<And>th env ctx c. ?P th \<Longrightarrow> ?P (transport_thread_icmp env ctx c th)\<close>
        by (cases "k = i") simp_all
    qed (use step(3) in simp_all)
  qed
  then show ?thesis by blast
qed

text \<open>Steps of the threads still to come, at most.\<close>

definition race_rank :: "race \<Rightarrow> nat" where
  "race_rank R = sum_list (map (stage_rank \<circ> t_stage) (r_threads R))"

lemma sum_list_update_less:
  "i < length xs \<Longrightarrow> f y < f (xs ! i) \<Longrightarrow> sum_list (map f (xs[i := y])) < sum_list (map (f :: 'a \<Rightarrow> nat) xs)"
  by (induction xs arbitrary: i) (auto simp: less_Suc_eq_0_disj split: nat.split)

lemma race_rank_join:
  assumes "race_step envs ctxs R R'" "race_inv ctxs R" "\<forall>i. env_ok (envs i)" "\<forall>i < length ctxs. meets (envs i) (ctxs ! i)"
    and "r_main R' = Join w" "r_main R = Join v"
  shows "race_rank R' < race_rank R"
  using assms(1)
proof cases
  case (thread i)
  have "stage_rank (t_stage (thread_func (tx_type (ctxs ! i)) (envs i) (ctxs ! i) (r_flag R) (r_threads R ! i))) <
      stage_rank (t_stage (r_threads R ! i))"
    using assms(2-4) thread by (intro thread_func_ok(3)) (simp_all add: race_inv_def)
  then show ?thesis using thread by (simp add: race_rank_def sum_list_update_less)
qed (use assms(5,6) in auto)

lemma race_rank_le:
  assumes "length (r_threads R) = n"
  shows "race_rank R \<le> 10 * n"
proof -
  have r: "stage_rank st \<le> 10" for st by (cases st) simp_all
  have "sum_list (map (stage_rank \<circ> t_stage) ts) \<le> 10 * length ts" for ts :: "tthread list"
  proof (induction ts)
    case (Cons t ts)
    then show ?case using r [of "t_stage t"] by simp
  qed simp
  then show ?thesis using assms by (auto simp: race_rank_def)
qed

lemma join_step: "race_step envs ctxs R R' \<Longrightarrow> r_main R = Join w \<or> r_main R = Done w \<Longrightarrow> r_main R' = Join w \<or> r_main R' = Done w"
  by (erule race_stepE) auto

lemma done_step: "race_step envs ctxs R R' \<Longrightarrow> r_main R = Done w \<Longrightarrow> r_main R' = Done w"
  by (erule race_stepE) auto

lemma join_stays:
  "(race_step envs ctxs ^^ n) R R' \<Longrightarrow> r_main R = Join w \<Longrightarrow> r_main R' = Join w \<or> r_main R' = Done w"
  by (induction n arbitrary: R') (auto dest: join_step)

lemma join_rank:
  assumes "(race_step envs ctxs ^^ n) R R'" "r_main R = Join w" "r_main R' = Join w"
    and "race_inv ctxs R" "\<forall>i. env_ok (envs i)" "\<forall>i < length ctxs. meets (envs i) (ctxs ! i)"
  shows "n + race_rank R' \<le> race_rank R"
  using assms(1,3)
proof (induction n arbitrary: R')
  case (Suc n)
  then obtain Q where q: "(race_step envs ctxs ^^ n) R Q" "race_step envs ctxs Q R'" by auto
  have main: "r_main Q = Join w" using join_stays [OF q(1) assms(2)] done_step [OF q(2)] Suc.prems(2) by auto
  have "race_inv ctxs Q" using race_inv_runs [OF relpowp_imp_rtranclp [OF q(1)] assms(4,5)] .
  then have "race_rank R' < race_rank Q" by (rule race_rank_join [OF q(2) _ assms(5,6) Suc.prems(2) main])
  then show ?case using Suc.IH [OF q(1) main] by linarith
qed simp

text \<open>
  The join. Where every rendezvous returns within its fuel (an assumption here, \<open>meets\<close>; every
  other call is one step of the model), the main thread waits for at most ten steps of every
  thread once the flag is up, whatever the interleaving, and as long as it waits some step is
  possible.
\<close>

theorem race_join_ends:
  assumes "\<forall>i. env_ok (envs i)" "\<forall>i < length ctxs. meets (envs i) (ctxs ! i)" "race_runs envs ctxs R" "r_main R = Join w"
    and "(race_step envs ctxs ^^ n) R R'" "r_main R' = Join w"
  shows "n \<le> 10 * length ctxs \<and> (\<exists>R''. race_step envs ctxs R' R'')"
proof -
  have inv: "race_inv ctxs R"
    using race_inv_runs [OF _ race_inv_start assms(1)] assms(3) by (simp add: race_runs_def)
  have inv': "race_inv ctxs R'" using race_inv_runs [OF relpowp_imp_rtranclp [OF assms(5)] inv assms(1)] .
  have "n + race_rank R' \<le> race_rank R"
    using join_rank [OF assms(5,4,6) inv assms(1,2)] .
  moreover have "race_rank R \<le> 10 * length ctxs" by (rule race_rank_le) (use inv in \<open>simp add: race_inv_def\<close>)
  moreover have "\<exists>R''. race_step envs ctxs R' R''"
  proof (cases "\<forall>th \<in> set (r_threads R'). t_stage th = Over")
    case True
    then show ?thesis using race_step.join [OF assms(6)] by blast
  next
    case False
    then obtain i where "i < length (r_threads R')" "t_stage (r_threads R' ! i) \<noteq> Over" by (auto simp: in_set_conv_nth)
    then show ?thesis using race_step.thread by blast
  qed
  ultimately show ?thesis by simp
qed


section \<open>A run\<close>

text \<open>
  A server that answers on its UDP port, but whose handshake is still going on when the
  deadline passes.
\<close>

definition race_env0 :: "nat \<Rightarrow> thread_env" where
  "race_env0 = (\<lambda>_. \<lparr>e_os = os_env0, e_alloc = True, e_rt = rt_env0, e_calls = rt_calls1,
     e_arrive = [(1, 5555, peer_datagram 1 [42])], e_nat = nat_env0, e_fuel = 300, e_ctx = Some 9, e_tls = True\<rparr>)"

definition ctxs0 :: "thread_ctx list" where
  "ctxs0 = race_contexts 5555 5000 (lit ''1.0.0.0'') 443 (lit ''vpn'')"

lemma ctxs0_eq: "ctxs0 = map (\<lambda>(ty, u). \<lparr>tx_type = ty, tx_resolved_ip = lit ''1.0.0.0'', tx_port = 443,
    tx_connect_host = lit ''vpn'', tx_timeout_ms = 5000, tx_udp_port = u\<rparr>)
    [(TRANSPORT_RUDP_DIRECT, 5555), (TRANSPORT_NATT, 0), (TRANSPORT_DNS, 0), (TRANSPORT_ICMP, 0)]"
  by (simp add: ctxs0_def race_contexts_def race_timeout_def)

lemma race_env0_ok: "\<forall>i. env_ok (race_env0 i)"
  using rt_calls0_ok(2) by (simp add: env_ok_def race_env0_def rt_calls1_def nat_env0_def fds_valid_def) (simp add: rt_calls0_def)

definition go :: "(nat \<Rightarrow> thread_env) \<Rightarrow> thread_ctx list \<Rightarrow> bool \<Rightarrow> nat \<Rightarrow> tthread \<Rightarrow> tthread" where
  "go envs ctxs flag i = thread_func (tx_type (ctxs ! i)) (envs i) (ctxs ! i) flag"

lemma run_thread:
  assumes "i < length (r_threads R)" "\<forall>m < n. t_stage ((go envs ctxs (r_flag R) i ^^ m) (r_threads R ! i)) \<noteq> Over"
  shows "(race_step envs ctxs)\<^sup>*\<^sup>* R
    (R\<lparr>r_threads := (r_threads R)[i := (go envs ctxs (r_flag R) i ^^ n) (r_threads R ! i)]\<rparr>)"
  using assms(2)
proof (induction n)
  case 0
  then show ?case by simp
next
  case (Suc n)
  let ?Q = "R\<lparr>r_threads := (r_threads R)[i := (go envs ctxs (r_flag R) i ^^ n) (r_threads R ! i)]\<rparr>"
  have "race_step envs ctxs ?Q (?Q\<lparr>r_threads := (r_threads ?Q)[i := go envs ctxs (r_flag R) i (r_threads ?Q ! i)]\<rparr>)"
    using race_step.thread [of i ?Q envs ctxs] assms(1) Suc.prems by (simp add: go_def)
  then show ?case using Suc assms(1) by (simp add: rtranclp.rtrancl_into_rtrancl)
qed

definition tr0 :: rudp_transport where
  "tr0 = snd (rudp_transport_connect rt_env0 rt_calls1 rt_cfg1 rt_hello)"

lemma pton_1: "inet_pton (lit ''1.0.0.0'') = Some 1"
  by (simp add: inet_pton_def lit_def octet_def is_digit_def digits_value_def addr_of_def)

lemma open_transport0: "open_transport (race_env0 i) (udp_config 1 5555 (-1) 5000 RUDP_T_MODE_UDP) [] rt_created th =
    th\<lparr>t_stage := Linked (Udp_link tr0)\<rparr>"
proof -
  have "udp_config 1 5555 (-1) 5000 RUDP_T_MODE_UDP = rt_cfg1" by (simp add: udp_config_def rt_cfg1_def rt_cfg0_def)
  moreover have "rt_created\<lparr>open_fds := [], udp_in := [(1, 5555, peer_datagram 1 [42])]\<rparr> = rt_hello"
    by (simp add: rt_hello_def rt_created_def rudp_transport_create_def)
  moreover have "rudp_transport_connect rt_env0 rt_calls1 rt_cfg1 rt_hello = (0, tr0)"
    using hello_connects by (simp add: tr0_def prod_eq_iff)
  ultimately show ?thesis by (simp add: open_transport_def race_env0_def)
qed


lemma race_env0_fields [simp]:
  "e_alloc (race_env0 i) = True" "e_ctx (race_env0 i) = Some 9" "e_tls (race_env0 i) = True"
  by (simp_all add: race_env0_def)

lemmas step_defs = go_def ctxs0_eq thread0_def begin_thread_def look_before_def finish_thread_def look_after_def
  secure_def claim_def flag_ok_def publish_def seen_ok_def result0_def

text \<open>The direct thread up to its handshake, the same from there, and a thread that finds the flag up.\<close>

definition secured0 :: tthread where
  "secured0 = (thread0 os0)\<lparr>t_stage := Securing (Udp_link tr0), t_res := result0 TRANSPORT_RUDP_DIRECT\<rparr>"

lemma direct_run:
  "(go race_env0 ctxs0 False 0 ^^ 4) (thread0 os0) = secured0"
  "\<forall>m < 4. t_stage ((go race_env0 ctxs0 False 0 ^^ m) (thread0 os0)) \<noteq> Over"
  by (auto simp: step_defs transport_thread_rudp_direct_def udp_dial_def pton_1 open_transport0
      secured0_def less_Suc_eq numeral_eq_Suc)


lemma direct_rest:
  "\<forall>m < 4. t_stage ((go race_env0 ctxs0 True 0 ^^ m) secured0) \<noteq> Over"
  "t_stage ((go race_env0 ctxs0 True 0 ^^ 4) secured0) = Over"
  by (auto simp: step_defs transport_thread_rudp_direct_def secured0_def less_Suc_eq numeral_eq_Suc)

lemma called_off:
  "i \<in> {1, 2, 3} \<Longrightarrow> \<forall>m < 2. t_stage ((go race_env0 ctxs0 True i ^^ m) (thread0 os0)) \<noteq> Over"
  "i \<in> {1, 2, 3} \<Longrightarrow> t_stage ((go race_env0 ctxs0 True i ^^ 2) (thread0 os0)) = Over"
  by (auto simp: step_defs transport_thread_natt_def transport_thread_dns_def transport_thread_icmp_def
      less_Suc_eq numeral_eq_Suc)

definition race1 :: race where
  "race1 = \<lparr>r_flag = False, r_threads = [secured0, thread0 os0, thread0 os0, thread0 os0], r_main = Scan 0\<rparr>"

lemma race1_reached: "(race_step race_env0 ctxs0)\<^sup>*\<^sup>* (race0 ctxs0) race1"
proof -
  have "race0 ctxs0 = \<lparr>r_flag = False, r_threads = [thread0 os0, thread0 os0, thread0 os0, thread0 os0], r_main = Scan 0\<rparr>"
    by (simp add: race0_def ctxs0_eq)
  then show ?thesis
    using run_thread [of 0 "race0 ctxs0" 4 race_env0 ctxs0] direct_run by (simp add: race1_def)
qed

text \<open>Once the flag is up the three threads that have not begun are called off.\<close>

definition joining :: "tthread \<Rightarrow> tthread \<Rightarrow> tthread \<Rightarrow> tthread \<Rightarrow> nat option \<Rightarrow> race" where
  "joining a b c d w = \<lparr>r_flag = True, r_threads = [a, b, c, d], r_main = Join w\<rparr>"

definition quit0 :: "nat \<Rightarrow> tthread" where
  "quit0 i = (go race_env0 ctxs0 True i ^^ 2) (thread0 os0)"

lemma others_called_off:
  "(race_step race_env0 ctxs0)\<^sup>*\<^sup>* (joining a (thread0 os0) (thread0 os0) (thread0 os0) w) (joining a (quit0 1) (quit0 2) (quit0 3) w)"
proof -
  let ?step = "race_step race_env0 ctxs0" and ?t = "thread0 os0"
  have b: "?step\<^sup>*\<^sup>* (joining a ?t ?t ?t w) (joining a (quit0 1) ?t ?t w)"
    using run_thread [of 1 "joining a ?t ?t ?t w" 2 race_env0 ctxs0] called_off(1) [of 1] by (simp add: joining_def quit0_def)
  have c: "?step\<^sup>*\<^sup>* (joining a (quit0 1) ?t ?t w) (joining a (quit0 1) (quit0 2) ?t w)"
    using run_thread [of 2 "joining a (quit0 1) ?t ?t w" 2 race_env0 ctxs0] called_off(1) [of 2] by (simp add: joining_def quit0_def)
  have d: "?step\<^sup>*\<^sup>* (joining a (quit0 1) (quit0 2) ?t w) (joining a (quit0 1) (quit0 2) (quit0 3) w)"
    using run_thread [of 3 "joining a (quit0 1) (quit0 2) ?t w" 2 race_env0 ctxs0] called_off(1) [of 3]
    by (simp add: joining_def quit0_def numeral_eq_Suc)
  show ?thesis using b c d by (meson rtranclp_trans)
qed

lemma joined:
  "t_stage a = Over \<Longrightarrow> race_step race_env0 ctxs0 (joining a (quit0 1) (quit0 2) (quit0 3) w)
    ((joining a (quit0 1) (quit0 2) (quit0 3) w)\<lparr>r_main := Done w\<rparr>)"
  by (rule race_step.join) (use called_off(2) in \<open>auto simp: joining_def quit0_def\<close>)

text \<open>The deadline passes, the flag goes up, the others are called off, the handshake completes, and all are joined.\<close>

lemma race1_expires:
  "\<exists>R. (race_step race_env0 ctxs0)\<^sup>*\<^sup>* race1 R \<and> r_main R = Done None"
proof -
  let ?step = "race_step race_env0 ctxs0" and ?t = "thread0 os0"
  define fin where "fin = (go race_env0 ctxs0 True 0 ^^ 4) secured0"
  have "?step race1 (race1\<lparr>r_main := Cancel None\<rparr>)" by (rule race_step.expire) (simp add: race1_def)
  moreover have "?step (race1\<lparr>r_main := Cancel None\<rparr>) (joining secured0 ?t ?t ?t None)"
    using race_step.cancel [of "race1\<lparr>r_main := Cancel None\<rparr>" None race_env0 ctxs0] by (simp add: race1_def joining_def)
  ultimately have a: "?step\<^sup>*\<^sup>* race1 (joining secured0 ?t ?t ?t None)" by (meson r_into_rtranclp rtranclp.rtrancl_into_rtrancl)
  have e: "?step\<^sup>*\<^sup>* (joining secured0 (quit0 1) (quit0 2) (quit0 3) None) (joining fin (quit0 1) (quit0 2) (quit0 3) None)"
    using run_thread [of 0 "joining secured0 (quit0 1) (quit0 2) (quit0 3) None" 4 race_env0 ctxs0] direct_rest(1)
    by (simp add: joining_def fin_def)
  have "?step (joining fin (quit0 1) (quit0 2) (quit0 3) None) ((joining fin (quit0 1) (quit0 2) (quit0 3) None)\<lparr>r_main := Done None\<rparr>)"
    by (rule joined) (simp add: fin_def direct_rest(2))
  then have "?step\<^sup>*\<^sup>* race1 ((joining fin (quit0 1) (quit0 2) (quit0 3) None)\<lparr>r_main := Done None\<rparr>)"
    using a others_called_off [of secured0 None] e by (meson rtranclp.rtrancl_into_rtrancl rtranclp_trans)
  then show ?thesis by (intro exI conjI) (assumption, simp)
qed

text \<open>The handshake completes in time: the main thread finds the result, and the direct session wins.\<close>

definition won0 :: tthread where
  "won0 = (go race_env0 ctxs0 False 0 ^^ 4) secured0"

definition race2 :: race where
  "race2 = (joining won0 (quit0 1) (quit0 2) (quit0 3) (Some 0))\<lparr>r_main := Done (Some 0)\<rparr>"

lemma won0_result:
  "t_stage won0 = Over" "seen_ok won0" "r_socket_fd (t_res won0) = app_fd tr0" "r_ssl (t_res won0) = Some 9"
  "r_ssl_ctx (t_res won0) = Some 9" "r_transport (t_res won0) = Some tr0"
  by (simp_all add: won0_def step_defs transport_thread_rudp_direct_def secured0_def rudp_transport_get_fd_def
      numeral_eq_Suc)

lemma race2_joining: "race_runs race_env0 ctxs0 (joining won0 (thread0 os0) (thread0 os0) (thread0 os0) (Some 0))"
proof -
  let ?step = "race_step race_env0 ctxs0" and ?t = "thread0 os0"
  let ?w = "race1\<lparr>r_threads := [won0, ?t, ?t, ?t]\<rparr>"
  have r: "\<forall>m < 4. t_stage ((go race_env0 ctxs0 False 0 ^^ m) secured0) \<noteq> Over"
    by (auto simp: step_defs transport_thread_rudp_direct_def secured0_def less_Suc_eq numeral_eq_Suc)
  have "?step\<^sup>*\<^sup>* race1 ?w" using run_thread [of 0 race1 4 race_env0 ctxs0] r by (simp add: race1_def won0_def)
  moreover have "?step ?w (?w\<lparr>r_main := Cancel (Some 0)\<rparr>)" by (rule race_step.found) (simp_all add: race1_def won0_result(2))
  moreover have "?step (?w\<lparr>r_main := Cancel (Some 0)\<rparr>) (joining won0 ?t ?t ?t (Some 0))"
    using race_step.cancel [of "?w\<lparr>r_main := Cancel (Some 0)\<rparr>" "Some 0" race_env0 ctxs0] by (simp add: race1_def joining_def)
  ultimately have "?step\<^sup>*\<^sup>* race1 (joining won0 ?t ?t ?t (Some 0))" by (meson rtranclp.rtrancl_into_rtrancl)
  then show ?thesis unfolding race_runs_def using race1_reached by (meson rtranclp_trans)
qed

lemma race2_joined:
  "(race_step race_env0 ctxs0)\<^sup>*\<^sup>* (joining won0 (thread0 os0) (thread0 os0) (thread0 os0) (Some 0)) race2"
proof -
  have "race_step race_env0 ctxs0 (joining won0 (quit0 1) (quit0 2) (quit0 3) (Some 0)) race2"
    unfolding race2_def by (rule joined) (rule won0_result(1))
  then show ?thesis using others_called_off [of won0 "Some 0"] by (meson rtranclp.rtrancl_into_rtrancl)
qed

lemma race2_reached: "race_runs race_env0 ctxs0 race2"
  using race2_joining race2_joined unfolding race_runs_def by (rule rtranclp_trans)

theorem race_cancel_stops_witness:
  "r_main race2 = Done (Some 0) \<and> t_stage (r_threads race2 ! 1) = Over \<and> \<not> r_ok (t_res (r_threads race2 ! 1)) \<and>
   t_made (r_threads race2 ! 1) = []"
proof -
  let ?R = "joining won0 (thread0 os0) (thread0 os0) (thread0 os0) (Some 0)"
  have "r_flag ?R" "1 < length ctxs0" "r_main race2 = Done (Some 0)"
    "unlinked (t_stage (r_threads ?R ! 1)) \<or> (\<exists>l. t_stage (r_threads ?R ! 1) = Linked l)"
    by (simp_all add: joining_def ctxs0_eq race2_def unlinked_def thread0_def)
  then show ?thesis using race_cancel_stops [OF race_env0_ok race2_joining _ _ _ race2_joined] by blast
qed

theorem race_outcome_witness:
  "\<exists>R. race_runs race_env0 ctxs0 R \<and> r_main R = Done None \<and> t_left (r_threads R ! 1) = [] \<and> t_stage (r_threads R ! 1) = Over"
proof -
  obtain R where R: "(race_step race_env0 ctxs0)\<^sup>*\<^sup>* race1 R" "r_main R = Done None" using race1_expires by blast
  have run: "race_runs race_env0 ctxs0 R" unfolding race_runs_def by (rule rtranclp_trans [OF race1_reached R(1)])
  have "length ctxs0 = 4" by (simp add: ctxs0_eq)
  then show ?thesis using race_outcome [OF race_env0_ok run R(2)] run R(2) by auto
qed

text \<open>The race has failed, yet the link is open and in nobody's hands.\<close>

theorem race_late_finisher_leaks_witness:
  "\<exists>R. race_runs race_env0 ctxs0 R \<and> r_main R = Done None \<and> published (r_threads R ! 0) (Udp_link tr0) 9"
proof -
  obtain R where R: "(race_step race_env0 ctxs0)\<^sup>*\<^sup>* race1 R" "r_main R = Done None" using race1_expires by blast
  have run: "race_runs race_env0 ctxs0 race1" "race_runs race_env0 ctxs0 R"
    unfolding race_runs_def using race1_reached R(1) by (auto intro: rtranclp_trans)
  have "t_stage (r_threads R ! 0) = Over \<and> published (r_threads R ! 0) (Udp_link tr0) 9"
    by (rule race_late_finisher_leaks [OF race_env0_ok run(1) _ _ _ _ R])
      (simp_all add: ctxs0_eq race1_def secured0_def)
  then show ?thesis using run(2) R(2) by blast
qed

theorem race_icmp_never_connects_witness: "\<not> r_ok (t_res (r_threads race1 ! 3))"
  using race_icmp_never_connects [of race_env0 ctxs0 race1 3] race1_reached by (simp add: race_runs_def ctxs0_eq)


lemma race_env0_meets: "i < length ctxs0 \<Longrightarrow> meets (race_env0 i) (ctxs0 ! i)"
proof -
  assume "i < length ctxs0"
  then have t: "tx_timeout_ms (ctxs0 ! i) = 5000" by (auto simp: ctxs0_eq less_Suc_eq)
  have "\<exists>res. nat_t_connect 300 nat_env0 ip (Some NAT_T_SVC_NAME) 5000 = Some res" for ip
    by (rule connect_returns [where k = 99]) (simp_all add: svc_ok_def svc_of_def NAT_T_SVC_NAME_def lit_def nat_env0_def)
  then show ?thesis by (simp add: meets_def race_env0_def t)
qed

theorem race_join_ends_witness:
  "\<exists>R R'. race_runs race_env0 ctxs0 R \<and> r_main R = Join None \<and> race_step race_env0 ctxs0 R R'"
proof -
  let ?step = "race_step race_env0 ctxs0"
  define R where "R = race1\<lparr>r_main := Join None, r_flag := True\<rparr>"
  have "?step race1 (race1\<lparr>r_main := Cancel None\<rparr>)" by (rule race_step.expire) (simp add: race1_def)
  moreover have "?step (race1\<lparr>r_main := Cancel None\<rparr>) R"
    using race_step.cancel [of "race1\<lparr>r_main := Cancel None\<rparr>" None race_env0 ctxs0] by (simp add: race1_def R_def)
  ultimately have run: "race_runs race_env0 ctxs0 R"
    unfolding race_runs_def using race1_reached by (meson rtranclp.rtrancl_into_rtrancl)
  have "r_main R = Join None" by (simp add: R_def)
  moreover from this have "\<exists>R''. ?step R R''"
    using race_join_ends [OF race_env0_ok _ run, of None 0 R] race_env0_meets by simp
  ultimately show ?thesis using run by blast
qed

end
