(* ===== verification/Rudp_Setup.thy ===== *)
theory Rudp_Setup
  imports Tcp_Socket Rudp_Accel "HOL-Library.Monad_Syntax"
begin

text \<open>
  The life of a UDP acceleration context (\<^verbatim>\<open>softether_rudp.c\<close>): its socket, its creation
  with random keys, IVs and cookies, the start of the client and of the server side, the
  change of the address family and the release. Sockets are those of \<open>Tcp_Socket\<close>'s
  operating system; whether \<^verbatim>\<open>bind\<close>, \<^verbatim>\<open>getsockname\<close> and the allocation of a cipher context
  succeed is the environment's. Cipher contexts are named by the number of the call that
  made them. The two loops that draw cookies run until \<^verbatim>\<open>rand\<close> gives an acceptable one, so
  they are partial functions.
\<close>

section \<open>State and environment\<close>

record udp_calls =
  uc_calloc :: bool
  uc_bind :: "int \<Rightarrow> bool"
  uc_sockname :: "int \<Rightarrow> u16 option"
  uc_evp :: "nat \<Rightarrow> bool"

text \<open>The context with the fields that only matter here: its port and its cipher contexts.\<close>

record udp_setup =
  u_ctx :: rudp_context_t
  u_my_port :: u16
  u_enc :: "nat option"
  u_dec :: "nat option"

record udp_world =
  w_os :: os
  w_rnd_i :: nat
  w_evp_i :: nat
  w_evp_made :: "nat list"
  w_evp_freed :: "nat list"

definition u_fd :: "udp_setup \<Rightarrow> int" where
  "u_fd u = udp_fd (u_ctx u)"

definition set_udp_fd :: "int \<Rightarrow> udp_setup \<Rightarrow> udp_setup" where
  "set_udp_fd fd u = u\<lparr>u_ctx := (u_ctx u)\<lparr>udp_fd := fd\<rparr>\<rparr>"

section \<open>The socket\<close>

definition rudp_create_udp_socket ::
  "os_env \<Rightarrow> udp_calls \<Rightarrow> sock_family \<Rightarrow> udp_setup \<times> udp_world \<Rightarrow> bool \<times> udp_setup \<times> udp_world" where
  "rudp_create_udp_socket env d family = (\<lambda>(u, w).
     if family \<noteq> AF_INET \<and> family \<noteq> AF_INET6 then (False, u, w)
     else let s = (if 0 \<le> u_fd u then os_close (u_fd u) (w_os w) else w_os w);
              (fd, s) = os_open env family SOCK_DGRAM s in
       if fd < 0 then (False, set_udp_fd fd u, w\<lparr>w_os := s\<rparr>)
       else if \<not> uc_bind d fd then (False, set_udp_fd (-1) u, w\<lparr>w_os := os_close fd s\<rparr>)
       else (True, u\<lparr>u_ctx := (u_ctx u)\<lparr>udp_fd := fd, is_ipv6 := (family = AF_INET6)\<rparr>,
               u_my_port := (case uc_sockname d fd of Some p \<Rightarrow> p | None \<Rightarrow> u_my_port u)\<rparr>,
             w\<lparr>w_os := set_nonblock fd True s\<rparr>))"

definition rudp_set_udp_family ::
  "os_env \<Rightarrow> udp_calls \<Rightarrow> sock_family \<Rightarrow> udp_setup \<times> udp_world \<Rightarrow> bool \<times> udp_setup \<times> udp_world" where
  "rudp_set_udp_family env d family = (\<lambda>(u, w).
     if family \<noteq> AF_INET \<and> family \<noteq> AF_INET6 then (False, u, w)
     else if is_ipv6 (u_ctx u) = (family = AF_INET6) then (True, u, w)
     else rudp_create_udp_socket env d family (u, w))"

section \<open>Creation and release\<close>

text \<open>What \<^verbatim>\<open>calloc\<close> gives; the zeroed peer address is not read before \<open>peer_addr_set\<close>.\<close>

definition zero_ctx :: rudp_context_t where
  "zero_ctx = \<lparr>udp_fd = 0, inited = False, version = 0, ru_my_key = replicate 20 0, ru_your_key = replicate 20 0,
     ru_my_key_v2 = replicate 128 0, ru_your_key_v2 = replicate 128 0, next_iv = replicate 20 0,
     next_iv_v2 = replicate 12 0, v2_cipher_inited = False, ru_my_cookie = 0, ru_your_cookie = 0,
     peer_addr = Inet (replicate 4 0) 0, peer_addr_set = False, is_ipv6 = False, now = 0, last_recv_tick = 0,
     last_recv_your_tick = 0, last_recv_my_tick = 0, next_send_keepalive = 0, first_stable_receive_tick = 0,
     fast_detect = False, mss = 0, max_udp_packet_size = 0, use_compress = False, ru_queue = ring_new 256 [],
     fatal_error = False, recv_queue_overflow_count = 0, udp_rx_packets = 0, peer_tick_gap_events = 0,
     last_peer_tick_seen = 0, recent_overflows = 0, udp_data_suspended = False, udp_data_resume_tick = 0,
     suspension_count = 0, last_loss_event_tick = 0, cwin_bytes = 0, cwin_last_refill_tick = 0,
     cwin_inited = False, lk = 0, inbox = [], outbox = [], clk_i = 0, rnd_i = 0, snd_i = 0\<rparr>"

definition rand_bytes :: "rudp_env \<Rightarrow> nat \<Rightarrow> nat \<Rightarrow> bytes" where
  "rand_bytes env i n = map (\<lambda>k. word_of_nat (rnd env k)) [i..<i + n]"

definition rand_keys :: "rudp_env \<Rightarrow> nat \<Rightarrow> rudp_context_t \<Rightarrow> rudp_context_t" where
  "rand_keys env i c = c\<lparr>ru_my_key := rand_bytes env i 20, ru_your_key := rand_bytes env (i + 20) 20,
     ru_my_key_v2 := rand_bytes env (i + 40) 128, ru_your_key_v2 := rand_bytes env (i + 168) 128,
     next_iv := rand_bytes env (i + 296) 20, next_iv_v2 := rand_bytes env (i + 316) 12\<rparr>"

text \<open>\<^verbatim>\<open>do { cookie = rand(); } while (...)\<close>; the result and the number of the next draw.\<close>

partial_function (option) draw_cookie :: "rudp_env \<Rightarrow> u32 list \<Rightarrow> nat \<Rightarrow> (u32 \<times> nat) option" where
  "draw_cookie env bad i = (let v = word_of_nat (rnd env i)
     in if v \<in> set bad then draw_cookie env bad (i + 1) else Some (v, i + 1))"

definition new_udp :: udp_setup where
  "new_udp = \<lparr>u_ctx = zero_ctx\<lparr>version := 1, mss := 1355, max_udp_packet_size := 1472, udp_fd := -1\<rparr>,
     u_my_port = 0, u_enc = None, u_dec = None\<rparr>"

definition rudp_create ::
  "os_env \<Rightarrow> udp_calls \<Rightarrow> rudp_env \<Rightarrow> udp_world \<Rightarrow> (udp_setup option \<times> udp_world) option" where
  "rudp_create env d renv w =
     (if \<not> uc_calloc d then Some (None, w)
      else (case rudp_create_udp_socket env d AF_INET (new_udp, w) of
          (False, u, w) \<Rightarrow> Some (None, w)
        | (True, u, w) \<Rightarrow> do {
            (my, i) \<leftarrow> draw_cookie renv [0] (w_rnd_i w + 328);
            (your, i) \<leftarrow> draw_cookie renv [0, my] i;
            Some (Some (u\<lparr>u_ctx := read_clock renv ((rand_keys renv (w_rnd_i w) (u_ctx u))\<lparr>
                ru_my_cookie := my, ru_your_cookie := your, rnd_i := i\<rparr>)\<rparr>), w\<lparr>w_rnd_i := i\<rparr>) }))"

definition free_evp :: "nat option \<Rightarrow> udp_world \<Rightarrow> udp_world" where
  "free_evp x w = (case x of None \<Rightarrow> w | Some k \<Rightarrow> w\<lparr>w_evp_freed := w_evp_freed w @ [k]\<rparr>)"

definition rudp_destroy :: "udp_setup option \<Rightarrow> udp_world \<Rightarrow> udp_world" where
  "rudp_destroy ctx w = (case ctx of
     None \<Rightarrow> w
   | Some u \<Rightarrow> (let w = free_evp (u_dec u) (free_evp (u_enc u) w)
       in if 0 \<le> u_fd u then w\<lparr>w_os := os_close (u_fd u) (w_os w)\<rparr> else w))"

section \<open>Starting a side\<close>

definition new_evp :: "udp_calls \<Rightarrow> udp_world \<Rightarrow> nat option \<times> udp_world" where
  "new_evp d w = (let k = w_evp_i w; w = w\<lparr>w_evp_i := k + 1\<rparr> in
     if uc_evp d k then (Some k, w\<lparr>w_evp_made := w_evp_made w @ [k]\<rparr>) else (None, w))"

text \<open>Cipher contexts the setup may hold already are overwritten.\<close>

definition rudp_init_v2_cipher :: "udp_calls \<Rightarrow> udp_setup \<times> udp_world \<Rightarrow> udp_setup \<times> udp_world" where
  "rudp_init_v2_cipher d = (\<lambda>(u, w). let (enc, w) = new_evp d w; (dec, w) = new_evp d w in
     if enc = None \<or> dec = None
     then (u\<lparr>u_ctx := (u_ctx u)\<lparr>v2_cipher_inited := False\<rparr>, u_enc := None, u_dec := None\<rparr>, free_evp dec (free_evp enc w))
     else (u\<lparr>u_ctx := (u_ctx u)\<lparr>v2_cipher_inited := True\<rparr>, u_enc := enc, u_dec := dec\<rparr>, w))"

text \<open>The peer's address and family, and a socket that fits it; \<open>None\<close> when the text is no address.\<close>

definition peer_sockaddr :: "os_env \<Rightarrow> bytes \<Rightarrow> u16 \<Rightarrow> Rudp_Accel.sockaddr option" where
  "peer_sockaddr env ip port = (case os_pton6 env ip of
     Some a \<Rightarrow> Some (Inet6 a port)
   | None \<Rightarrow> map_option (\<lambda>a. Inet (addr_bytes a) port) (inet_pton ip))"

definition match_family ::
  "os_env \<Rightarrow> udp_calls \<Rightarrow> bool \<Rightarrow> udp_setup \<times> udp_world \<Rightarrow> bool \<times> udp_setup \<times> udp_world" where
  "match_family env d ipv6 = (\<lambda>(u, w). if ipv6 \<noteq> is_ipv6 (u_ctx u)
     then rudp_create_udp_socket env d (if ipv6 then AF_INET6 else AF_INET) (u, w) else (True, u, w))"

definition set_peer :: "Rudp_Accel.sockaddr \<Rightarrow> rudp_context_t \<Rightarrow> rudp_context_t" where
  "set_peer addr c = c\<lparr>peer_addr := addr, peer_addr_set := True, fast_detect := False,
     mss := (if is_inet6 addr then 1335 else 1355), max_udp_packet_size := (if is_inet6 addr then 1452 else 1472)\<rparr>"

definition set_your_key :: "bytes \<Rightarrow> rudp_context_t \<Rightarrow> rudp_context_t" where
  "set_your_key key c = (if 20 \<le> length key
     then let c = c\<lparr>ru_your_key := take 20 key\<rparr>
          in if 128 \<le> length key then c\<lparr>ru_your_key_v2 := take 128 key\<rparr> else c
     else c)"

text \<open>Peer, keys and ciphers: the part the two sides share.\<close>

definition adopt_peer ::
  "os_env \<Rightarrow> udp_calls \<Rightarrow> bytes \<Rightarrow> bytes \<Rightarrow> u16 \<Rightarrow> udp_setup \<times> udp_world \<Rightarrow> bool \<times> udp_setup \<times> udp_world" where
  "adopt_peer env d key ip port = (\<lambda>(u, w). case peer_sockaddr env ip port of
     None \<Rightarrow> (False, u, w)
   | Some addr \<Rightarrow> (case match_family env d (is_inet6 addr) (u, w) of
       (False, u, w) \<Rightarrow> (False, u, w)
     | (True, u, w) \<Rightarrow> (let u = u\<lparr>u_ctx := set_your_key key (set_peer addr (u_ctx u))\<rparr>
         in (True, if 128 \<le> length key then rudp_init_v2_cipher d (u, w) else (u, w)))))"

definition rudp_init_client ::
  "os_env \<Rightarrow> udp_calls \<Rightarrow> rudp_env \<Rightarrow> bytes \<Rightarrow> bytes \<Rightarrow> u16 \<Rightarrow> u32 \<Rightarrow> u32 \<Rightarrow> udp_setup \<times> udp_world
     \<Rightarrow> bool \<times> udp_setup \<times> udp_world" where
  "rudp_init_client env d renv server_key server_ip server_port server_cookie client_cookie uw =
     (case adopt_peer env d server_key server_ip server_port uw of
        (False, u, w) \<Rightarrow> (False, u, w)
      | (True, u, w) \<Rightarrow> (True, u\<lparr>u_ctx := read_clock renv ((u_ctx u)\<lparr>ru_your_cookie := server_cookie,
            ru_my_cookie := client_cookie, inited := True\<rparr>)\<rparr>, w))"

definition rudp_init_server ::
  "os_env \<Rightarrow> udp_calls \<Rightarrow> rudp_env \<Rightarrow> bytes \<Rightarrow> bytes \<Rightarrow> u16 \<Rightarrow> udp_setup \<times> udp_world
     \<Rightarrow> bool \<times> udp_setup \<times> udp_world" where
  "rudp_init_server env d renv client_key client_ip client_port uw =
     (case adopt_peer env d client_key client_ip client_port uw of
        (False, u, w) \<Rightarrow> (False, u, w)
      | (True, u, w) \<Rightarrow> (True, u\<lparr>u_ctx := read_clock renv ((u_ctx u)\<lparr>inited := True\<rparr>)\<rparr>, w))"

section \<open>The cookies\<close>

lemma draw_cookie_ok:
  assumes "draw_cookie env bad i = Some y"
  shows "fst y \<notin> set bad \<and> i < snd y"
proof (rule draw_cookie.raw_induct [where P = "\<lambda>env bad i y. fst y \<notin> set bad \<and> i < snd y", OF _ assms])
  fix f env bad i y
  assume IH: "\<And>env bad i y. f env bad i = Some y \<Longrightarrow> fst y \<notin> set bad \<and> i < snd y"
    and y: "(let v = word_of_nat (rnd env i) in if v \<in> set bad then f env bad (i + 1) else Some (v, i + 1)) = Some y"
  show "fst y \<notin> set bad \<and> i < snd y"
    using y IH [of env bad "i + 1" y] by (cases "word_of_nat (rnd env i) \<in> set bad") (auto simp: Let_def)
qed

lemma draw_cookie_returns:
  assumes "word_of_nat (rnd env k) \<notin> set bad" "i \<le> k"
  shows "\<exists>y. draw_cookie env bad i = Some y"
  using assms(2)
proof (induction rule: inc_induct)
  case base
  show ?case using assms(1) by (simp add: draw_cookie.simps [of env bad k])
next
  case (step n)
  then show ?case by (subst draw_cookie.simps) (simp add: Let_def)
qed

section \<open>What a context holds\<close>

text \<open>
  The descriptors and cipher contexts are balanced: each one made was released or is held
  by the context, exactly once.
\<close>

definition udp_held :: "udp_setup option \<Rightarrow> int multiset" where
  "udp_held ctx = (case ctx of None \<Rightarrow> {#} | Some u \<Rightarrow> if 0 \<le> u_fd u then {#u_fd u#} else {#})"

definition opt_mset :: "'a option \<Rightarrow> 'a multiset" where
  "opt_mset x = (case x of None \<Rightarrow> {#} | Some a \<Rightarrow> {#a#})"

definition evp_held :: "udp_setup option \<Rightarrow> nat multiset" where
  "evp_held ctx = (case ctx of None \<Rightarrow> {#} | Some u \<Rightarrow> opt_mset (u_enc u) + opt_mset (u_dec u))"

definition udp_balanced :: "udp_setup option \<Rightarrow> udp_world \<Rightarrow> bool" where
  "udp_balanced ctx w \<longleftrightarrow> mset (opened (w_os w)) = mset (os_closed (w_os w)) + udp_held ctx \<and>
     mset (w_evp_made w) = mset (w_evp_freed w) + evp_held ctx"

lemmas udp_owner_defs = udp_balanced_def udp_held_def evp_held_def opt_mset_def u_fd_def

lemma socket_balanced:
  assumes "rudp_create_udp_socket env d f (u, w) = (b, u', w')" "udp_balanced (Some u) w"
  shows "udp_balanced (Some u') w' \<and> u_enc u' = u_enc u \<and> u_dec u' = u_dec u \<and> (b \<longrightarrow> 0 \<le> u_fd u') \<and>
    (\<not> b \<longrightarrow> f = AF_INET \<or> f = AF_INET6 \<longrightarrow> u_fd u' < 0)"
proof (cases "f = AF_INET \<or> f = AF_INET6")
  case True
  let ?s = "if 0 \<le> u_fd u then os_close (u_fd u) (w_os w) else w_os w"
  obtain fd s where o: "os_open env f SOCK_DGRAM ?s = (fd, s)" by (rule prod.exhaust)
  have "mset (opened s) = mset (os_closed s) + (if 0 \<le> fd then {#fd#} else {#})"
    using o assms(2) by (auto simp: os_open_def os_close_def udp_owner_defs Let_def split: if_splits)
  then show ?thesis
    using True assms o
    by (cases "fd < 0"; cases "uc_bind d fd")
      (auto simp: rudp_create_udp_socket_def udp_owner_defs set_udp_fd_def os_close_def set_nonblock_def)
next
  case False
  then show ?thesis using assms by (auto simp: rudp_create_udp_socket_def)
qed

lemma match_family_balanced:
  "match_family env d v6 (u, w) = (b, u', w') \<Longrightarrow> udp_balanced (Some u) w \<Longrightarrow>
    udp_balanced (Some u') w' \<and> u_enc u' = u_enc u \<and> u_dec u' = u_dec u"
  using socket_balanced [of env d _ u w b u' w'] by (auto simp: match_family_def split: if_splits)

lemma set_udp_family_balanced:
  "rudp_set_udp_family env d f (u, w) = (b, u', w') \<Longrightarrow> udp_balanced (Some u) w \<Longrightarrow>
    udp_balanced (Some u') w' \<and> u_enc u' = u_enc u \<and> u_dec u' = u_dec u"
  using socket_balanced [of env d f u w b u' w'] by (auto simp: rudp_set_udp_family_def split: if_splits)

lemma init_cipher_balanced:
  assumes "rudp_init_v2_cipher d (u, w) = (u', w')" "udp_balanced (Some u) w" "u_enc u = None" "u_dec u = None"
  shows "udp_balanced (Some u') w'"
  using assms
  by (auto simp: rudp_init_v2_cipher_def new_evp_def free_evp_def udp_owner_defs Let_def
      split: if_splits option.splits)

lemma adopt_peer_balanced:
  assumes "adopt_peer env d key ip port (u, w) = (b, u', w')" "udp_balanced (Some u) w" "u_enc u = None" "u_dec u = None"
  shows "udp_balanced (Some u') w'"
proof (cases "peer_sockaddr env ip port")
  case None
  then show ?thesis using assms by (simp add: adopt_peer_def)
next
  case (Some addr)
  obtain b1 u1 w1 where m: "match_family env d (is_inet6 addr) (u, w) = (b1, u1, w1)" by (metis prod_cases3)
  note m1 = match_family_balanced [OF m assms(2)]
  let ?u = "u1\<lparr>u_ctx := set_your_key key (set_peer addr (u_ctx u1))\<rparr>"
  have "udp_balanced (Some ?u) w1" "u_enc ?u = None" "u_dec ?u = None"
    using m1 assms(3,4) by (auto simp: udp_owner_defs set_your_key_def set_peer_def Let_def)
  moreover obtain u2 w2 where "rudp_init_v2_cipher d (?u, w1) = (u2, w2)" by (rule prod.exhaust)
  ultimately show ?thesis
    using assms(1) Some m m1 init_cipher_balanced [of d ?u w1]
    by (auto simp: adopt_peer_def Let_def split: bool.splits if_splits)
qed

lemma create_balanced:
  assumes "rudp_create env d renv w = Some (r, w')" "udp_balanced None w"
  shows "udp_balanced r w' \<and> (\<forall>u. r = Some u \<longrightarrow> u_enc u = None \<and> u_dec u = None \<and> 0 \<le> u_fd u)"
proof (cases "uc_calloc d")
  case False
  then show ?thesis using assms by (auto simp: rudp_create_def)
next
  case True
  obtain b u w1 where s: "rudp_create_udp_socket env d AF_INET (new_udp, w) = (b, u, w1)" by (metis prod_cases3)
  have "udp_balanced (Some new_udp) w" using assms(2) by (simp add: udp_owner_defs new_udp_def)
  note b = socket_balanced [OF s this]
  show ?thesis
    using assms(1) True s b
    by (cases b) (auto simp: rudp_create_def udp_owner_defs read_clock_def rand_keys_def new_udp_def
        split: Option.bind_splits)
qed

text \<open>
  The same relative to any starting point, for a context that is one owner among others: what
  has been opened more than closed, less what the context holds.
\<close>

definition udp_net :: "udp_setup option \<Rightarrow> udp_world \<Rightarrow> int \<Rightarrow> int" where
  "udp_net ctx w x = os_net (w_os w) x - (case ctx of None \<Rightarrow> 0 | Some u \<Rightarrow> fd_unit (u_fd u) x)"

definition has_item :: "'a option \<Rightarrow> 'a \<Rightarrow> int" where
  "has_item y x = (if y = Some x then 1 else 0)"

definition evp_net :: "udp_setup option \<Rightarrow> udp_world \<Rightarrow> nat \<Rightarrow> int" where
  "evp_net ctx w x = int (count_list (w_evp_made w) x) - int (count_list (w_evp_freed w) x) -
     (case ctx of None \<Rightarrow> 0 | Some u \<Rightarrow> has_item (u_enc u) x + has_item (u_dec u) x)"

lemmas udp_net_defs = udp_net_def evp_net_def has_item_def os_net_def fd_unit_def u_fd_def fun_eq_iff

lemma socket_net:
  assumes "rudp_create_udp_socket env d f (u, w) = (b, u', w')"
  shows "udp_net (Some u') w' = udp_net (Some u) w" "evp_net (Some u') w' = evp_net (Some u) w"
  using assms
  by (auto simp: rudp_create_udp_socket_def udp_net_defs set_udp_fd_def os_open_def os_close_def set_nonblock_def Let_def
      split: if_splits)

lemma set_udp_family_net:
  assumes "rudp_set_udp_family env d f (u, w) = (b, u', w')"
  shows "udp_net (Some u') w' = udp_net (Some u) w" "evp_net (Some u') w' = evp_net (Some u) w"
  using assms socket_net [of env d f u w b u' w'] by (auto simp: rudp_set_udp_family_def split: if_splits)

lemma create_net:
  assumes "rudp_create env d renv w = Some (r, w')"
  shows "udp_net r w' = udp_net None w" "evp_net r w' = evp_net None w" "\<forall>u. r = Some u \<longrightarrow> u_enc u = None \<and> u_dec u = None"
proof -
  obtain b u w1 where s: "rudp_create_udp_socket env d AF_INET (new_udp, w) = (b, u, w1)" by (metis prod_cases3)
  have n: "udp_net (Some new_udp) w = udp_net None w" "evp_net (Some new_udp) w = evp_net None w"
    by (simp_all add: udp_net_defs new_udp_def)
  have u: "u_enc u = None" "u_dec u = None" "\<not> b \<Longrightarrow> u_fd u < 0"
    using s by (auto simp: rudp_create_udp_socket_def new_udp_def set_udp_fd_def u_fd_def Let_def split: if_splits prod.splits)
  have f: "udp_net None w1 = udp_net (Some u) w1" "evp_net None w1 = evp_net (Some u) w1" if "\<not> b"
    using u that by (simp_all add: udp_net_defs)
  show "udp_net r w' = udp_net None w" "evp_net r w' = evp_net None w" "\<forall>u. r = Some u \<longrightarrow> u_enc u = None \<and> u_dec u = None"
    using assms s socket_net [OF s] n u f
    by (cases b; auto simp: rudp_create_def udp_net_def evp_net_def u_fd_def read_clock_def rand_keys_def fun_eq_iff
        split: if_splits Option.bind_splits)+
qed

lemma destroy_net: "udp_net None (rudp_destroy ctx w) = udp_net ctx w" "evp_net None (rudp_destroy ctx w) = evp_net ctx w"
  by (cases ctx; auto simp: rudp_destroy_def free_evp_def udp_net_defs os_close_def Let_def split: option.split)+

section \<open>A created context\<close>

lemma rand_bytes_length [simp]: "length (rand_bytes env i n) = n"
  by (simp add: rand_bytes_def)

text \<open>The values a fresh context has, and the running one keeps until it is started.\<close>

definition fresh_udp :: "udp_setup \<Rightarrow> bool" where
  "fresh_udp u \<longleftrightarrow> rudp_inv (u_ctx u) \<and> \<not> inited (u_ctx u) \<and> version (u_ctx u) = 1 \<and> \<not> is_ipv6 (u_ctx u) \<and>
     \<not> use_compress (u_ctx u) \<and> last_recv_your_tick (u_ctx u) = 0 \<and> rcount (ru_queue (u_ctx u)) = 0 \<and>
     length (ru_my_key (u_ctx u)) = 20 \<and> length (ru_my_key_v2 (u_ctx u)) = 128 \<and> snd_i (u_ctx u) = 0 \<and>
     ru_my_cookie (u_ctx u) \<noteq> 0 \<and> ru_your_cookie (u_ctx u) \<noteq> 0 \<and> ru_your_cookie (u_ctx u) \<noteq> ru_my_cookie (u_ctx u)"

lemma created_fresh:
  assumes "rudp_create env d renv w = Some (Some u, w')"
  shows "fresh_udp u"
proof -
  obtain b u1 w1 where s: "rudp_create_udp_socket env d AF_INET (new_udp, w) = (b, u1, w1)" by (metis prod_cases3)
  have b: "b" using assms s by (auto simp: rudp_create_def split: if_splits bool.splits)
  then have u1: "\<exists>fd. u_ctx u1 = (u_ctx new_udp)\<lparr>udp_fd := fd, is_ipv6 := False\<rparr>"
    using s by (auto simp: rudp_create_udp_socket_def Let_def split: prod.splits if_splits)
  obtain my i your j where c: "draw_cookie renv [0] (w_rnd_i w1 + 328) = Some (my, i)"
    "draw_cookie renv [0, my] i = Some (your, j)"
    and u: "u = u1\<lparr>u_ctx := read_clock renv ((rand_keys renv (w_rnd_i w1) (u_ctx u1))\<lparr>
                ru_my_cookie := my, ru_your_cookie := your, rnd_i := j\<rparr>)\<rparr>"
    using assms s b by (auto simp: rudp_create_def split: if_splits Option.bind_splits)
  show ?thesis
    using u1 draw_cookie_ok [OF c(1)] draw_cookie_ok [OF c(2)]
    by (auto simp: u fresh_udp_def rudp_inv_def read_clock_def rand_keys_def new_udp_def zero_ctx_def ring_inv_new
        ring_contents_def ring_new_def rudp_consts) (simp_all add: ring_inv_def)
qed

text \<open>
  C36: creating a context ends and gives what it should. As long as \<^verbatim>\<open>rand\<close> does not get stuck on
  the values excluded, the cookie loops end, and the result is either no context, with no
  descriptor left open, or one that satisfies the context's invariant, with two different
  cookies that are not 0, keys of the right sizes, and the one descriptor that is open.
\<close>

theorem rudp_create_returns:
  assumes "\<forall>n b. \<exists>k \<ge> n. word_of_nat (rnd renv k) \<notin> {0, b :: u32}" and "udp_balanced None w"
  shows "\<exists>r w'. rudp_create env d renv w = Some (r, w') \<and> udp_balanced r w' \<and>
     (case r of None \<Rightarrow> True | Some u \<Rightarrow> fresh_udp u \<and> 0 \<le> u_fd u)"
proof -
  obtain b u w1 where s: "rudp_create_udp_socket env d AF_INET (new_udp, w) = (b, u, w1)" by (metis prod_cases3)
  obtain k where k: "w_rnd_i w1 + 328 \<le> k" "word_of_nat (rnd renv k) \<notin> {0, 0 :: u32}" using assms(1) by blast
  then obtain my i where my: "draw_cookie renv [0] (w_rnd_i w1 + 328) = Some (my, i)"
    using draw_cookie_returns [of renv k "[0]" "w_rnd_i w1 + 328"] by auto
  obtain k2 where k2: "i \<le> k2" "word_of_nat (rnd renv k2) \<notin> {0, my}" using assms(1) by blast
  then obtain y where y: "draw_cookie renv [0, my] i = Some y"
    using draw_cookie_returns [of renv k2 "[0, my]" i] by auto
  have "\<exists>r w'. rudp_create env d renv w = Some (r, w')"
    using s my y by (cases b; cases y) (auto simp: rudp_create_def)
  then obtain r w' where r: "rudp_create env d renv w = Some (r, w')" by blast
  then show ?thesis
    using create_balanced [OF r assms(2)] created_fresh [of env d renv w _ w'] by (auto split: option.split)
qed

section \<open>Every descriptor and cipher context once\<close>

text \<open>
  The operations on one context, in any order. A side is started on a context without
  cipher contexts, as the connect does, which starts each context once.
\<close>

inductive udp_step :: "os_env \<Rightarrow> udp_calls \<Rightarrow> rudp_env \<Rightarrow> udp_setup option \<times> udp_world \<Rightarrow>
    udp_setup option \<times> udp_world \<Rightarrow> bool" for env d renv where
  create: "rudp_create env d renv w = Some (r, w') \<Longrightarrow> udp_step env d renv (None, w) (r, w')"
| family: "rudp_set_udp_family env d f (u, w) = (b, u', w') \<Longrightarrow> udp_step env d renv (Some u, w) (Some u', w')"
| client: "u_enc u = None \<Longrightarrow> u_dec u = None \<Longrightarrow>
    rudp_init_client env d renv key ip port ck cc (u, w) = (b, u', w') \<Longrightarrow> udp_step env d renv (Some u, w) (Some u', w')"
| server: "u_enc u = None \<Longrightarrow> u_dec u = None \<Longrightarrow>
    rudp_init_server env d renv key ip port (u, w) = (b, u', w') \<Longrightarrow> udp_step env d renv (Some u, w) (Some u', w')"
| destroy: "udp_step env d renv (ctx, w) (None, rudp_destroy ctx w)"

lemma init_client_balanced:
  assumes "rudp_init_client env d renv key ip port ck cc (u, w) = (b, u', w')" "udp_balanced (Some u) w"
    "u_enc u = None" "u_dec u = None"
  shows "udp_balanced (Some u') w'"
proof -
  obtain b1 u1 w1 where a: "adopt_peer env d key ip port (u, w) = (b1, u1, w1)" by (metis prod_cases3)
  from adopt_peer_balanced [OF a assms(2-4)] assms(1) a show ?thesis
    by (cases b1) (auto simp: rudp_init_client_def udp_owner_defs read_clock_def)
qed

lemma init_server_balanced:
  assumes "rudp_init_server env d renv key ip port (u, w) = (b, u', w')" "udp_balanced (Some u) w"
    "u_enc u = None" "u_dec u = None"
  shows "udp_balanced (Some u') w'"
proof -
  obtain b1 u1 w1 where a: "adopt_peer env d key ip port (u, w) = (b1, u1, w1)" by (metis prod_cases3)
  from adopt_peer_balanced [OF a assms(2-4)] assms(1) a show ?thesis
    by (cases b1) (auto simp: rudp_init_server_def udp_owner_defs read_clock_def)
qed

lemma destroy_balanced: "udp_balanced ctx w \<Longrightarrow> udp_balanced None (rudp_destroy ctx w)"
  by (auto simp: rudp_destroy_def free_evp_def udp_owner_defs os_close_def split: option.splits)

lemma udp_step_balanced: "udp_step env d renv x y \<Longrightarrow> udp_balanced (fst x) (snd x) \<Longrightarrow> udp_balanced (fst y) (snd y)"
  by (induction rule: udp_step.induct)
    (auto dest: create_balanced set_udp_family_balanced init_client_balanced init_server_balanced destroy_balanced)

interpretation udp_life: step_invariant "udp_step env d renv" "\<lambda>(ctx, w). udp_balanced ctx w" for env d renv
  by unfold_locales (auto dest: udp_step_balanced)

text \<open>
  C37: in every order of creating, changing the family, starting and destroying, with any
  answers of the system, no descriptor and no cipher context is lost or released twice;
  when the context is gone nothing is held. A context is started only while it has no
  cipher contexts: a second start would overwrite the pointers to the first ones.
\<close>

theorem udp_context_resources:
  assumes "(udp_step env d renv)\<^sup>*\<^sup>* (None, w0) (ctx, w)" "udp_balanced None w0"
  shows "mset (opened (w_os w)) = mset (os_closed (w_os w)) + udp_held ctx \<and>
    mset (w_evp_made w) = mset (w_evp_freed w) + evp_held ctx"
  using udp_life.run_keeps [OF assms(1)] assms(2) by (simp add: udp_balanced_def)

section \<open>Two sides that fit\<close>

text \<open>
  What a started context has in common with the one it was, whatever became of its socket
  and its cipher contexts: \<open>core\<close> blanks those two.
\<close>

definition core :: "rudp_context_t \<Rightarrow> rudp_context_t" where
  "core c = c\<lparr>udp_fd := 0, is_ipv6 := False, v2_cipher_inited := False\<rparr>"

lemma core_socket: "rudp_create_udp_socket env d f (u, w) = (b, u', w') \<Longrightarrow> core (u_ctx u') = core (u_ctx u)"
  by (auto simp: rudp_create_udp_socket_def core_def set_udp_fd_def Let_def split: prod.splits if_splits)

lemma core_cipher: "rudp_init_v2_cipher d (u, w) = (u', w') \<Longrightarrow> core (u_ctx u') = core (u_ctx u)"
  by (auto simp: rudp_init_v2_cipher_def core_def split: prod.splits if_splits)

lemma core_set: "core a = core b \<Longrightarrow> core (set_your_key key (set_peer addr a)) = core (set_your_key key (set_peer addr b))"
  by (cases a; cases b) (simp add: core_def set_your_key_def set_peer_def Let_def)

lemma core_adopt:
  assumes "adopt_peer env d key ip port (u, w) = (True, u', w')"
  shows "\<exists>addr. peer_sockaddr env ip port = Some addr \<and> core (u_ctx u') = core (set_your_key key (set_peer addr (u_ctx u)))"
proof -
  obtain addr where a: "peer_sockaddr env ip port = Some addr"
    using assms by (auto simp: adopt_peer_def split: option.splits)
  obtain b1 u1 w1 where m: "match_family env d (is_inet6 addr) (u, w) = (b1, u1, w1)" by (metis prod_cases3)
  have u1: "core (u_ctx u1) = core (u_ctx u)"
    using m core_socket [of env d _ u w b1 u1 w1] by (auto simp: match_family_def split: if_splits)
  let ?u = "u1\<lparr>u_ctx := set_your_key key (set_peer addr (u_ctx u1))\<rparr>"
  have "core (u_ctx u') = core (u_ctx ?u)"
    using assms a m core_cipher [of d ?u w1 u' w']
    by (auto simp: adopt_peer_def Let_def split: bool.splits if_splits)
  then show ?thesis using a core_set [OF u1] by simp
qed

text \<open>The fields of a fresh context after its start, by way of \<open>core\<close>.\<close>

lemma core_fields:
  assumes "core c' = core c"
  shows "ru_my_key c' = ru_my_key c" "ru_my_key_v2 c' = ru_my_key_v2 c" "ru_your_key c' = ru_your_key c"
    "ru_your_key_v2 c' = ru_your_key_v2 c" "ru_my_cookie c' = ru_my_cookie c" "ru_your_cookie c' = ru_your_cookie c"
    "next_iv c' = next_iv c" "next_iv_v2 c' = next_iv_v2 c" "ru_queue c' = ru_queue c" "cwin_bytes c' = cwin_bytes c"
    "peer_addr_set c' = peer_addr_set c" "use_compress c' = use_compress c" "snd_i c' = snd_i c"
    "last_recv_your_tick c' = last_recv_your_tick c" "max_udp_packet_size c' = max_udp_packet_size c"
  using assms by (cases c; cases c'; simp add: core_def)+

text \<open>A side that is up: in the version chosen, with the keys of the other side.\<close>

definition side_up :: "nat \<Rightarrow> bytes \<Rightarrow> udp_setup \<Rightarrow> rudp_context_t \<Rightarrow> bool" where
  "side_up v key u c \<longleftrightarrow> version c = v \<and> rudp_inv c \<and> inited c \<and> peer_addr_set c \<and> \<not> use_compress c \<and>
     last_recv_your_tick c = 0 \<and> rcount (ru_queue c) = 0 \<and> max_udp_packet_size c \<le> 1472 \<and> snd_i c = 0 \<and>
     ru_my_key c = ru_my_key (u_ctx u) \<and> ru_my_key_v2 c = ru_my_key_v2 (u_ctx u) \<and>
     (if v = 1 then ru_your_key c = take 20 key else ru_your_key_v2 c = take 128 key)"

lemma side_up_adopt:
  assumes "fresh_udp u" "adopt_peer env d key ip port (u, w) = (True, u', w')" "if v = 1 then length key = 20 else v = 2 \<and> length key = 128"
    and "v = 2 \<Longrightarrow> v2_cipher_inited (u_ctx u')"
  shows "side_up v key u (rudp_set_version (read_clock renv ((u_ctx u')\<lparr>ru_your_cookie := a, ru_my_cookie := b, inited := True\<rparr>)) (int v))"
proof -
  obtain addr where "core (u_ctx u') = core (set_your_key key (set_peer addr (u_ctx u)))"
    using core_adopt [OF assms(2)] by blast
  note f = core_fields [OF this]
  show ?thesis
    using assms(1,3,4)
    by (auto simp: side_up_def rudp_set_version_def read_clock_def rudp_inv_def f fresh_udp_def set_your_key_def
        set_peer_def Let_def split: if_splits)
qed

text \<open>The key a side offers for a version, and its context once it is up.\<close>

definition offered_key :: "nat \<Rightarrow> udp_setup \<Rightarrow> bytes" where
  "offered_key v u = (if v = 1 then ru_my_key (u_ctx u) else ru_my_key_v2 (u_ctx u))"

lemma sides_deliver:
  assumes "side_up v (offered_key v t) u a" "side_up v (offered_key v u) t b" "ru_my_cookie b = ru_your_cookie a"
    and "fresh_udp u" "fresh_udp t" "v = 1 \<or> v = 2" "aead_ok renv" "sendto_ok renv 0"
    and "data \<noteq> []" "length data \<le> RUDP_MAX_PAYLOAD_SIZE"
  shows "\<exists>pkt a'. rudp_send renv a data 0 = (Some (length pkt), a') \<and> outbox a' = outbox a @ [(peer_addr a, pkt)] \<and>
    ring_contents (ru_queue (rudp_datagram renv p pkt b)) = [data]"
proof -
  have "rudp_peer a b"
    using assms(1-6) by (auto simp: rudp_peer_def side_up_def offered_key_def fresh_udp_def)
  moreover have "ring_contents (ru_queue b) = []" using assms(2) by (simp add: side_up_def ring_contents_def)
  ultimately show ?thesis
    using send_delivers [of a b renv data p] assms by (fastforce simp: side_up_def in_window_def rudp_consts)
qed

text \<open>
  C35: two contexts started with each other's key and cookies understand each other: created
  independently, then one started as the client with the key the server offers and the two
  cookies of the server, the other as the server with the client's key, in either version
  of the format, every block of up to 1600 bytes that one sends is taken by the other
  unchanged.
\<close>

theorem rudp_sides_agree:
  assumes "rudp_create env d renv w0 = Some (Some c, w)" "rudp_create env' d' renv x0 = Some (Some s, x)"
    and "rudp_init_client env d renv (offered_key v s) ip port (ru_my_cookie (u_ctx s)) (ru_your_cookie (u_ctx s)) (c, w)
      = (True, c', w')"
    and "rudp_init_server env' d' renv (offered_key v c) ip' port' (s, x) = (True, s', x')"
    and "v = 1 \<or> v = 2 \<and> v2_cipher_inited (u_ctx c') \<and> v2_cipher_inited (u_ctx s')"
    and "aead_ok renv" "sendto_ok renv 0" "data \<noteq> []" "length data \<le> RUDP_MAX_PAYLOAD_SIZE"
    and "C = rudp_set_version (u_ctx c') (int v)" "S = rudp_set_version (u_ctx s') (int v)"
  shows "(\<exists>pkt C'. rudp_send renv C data 0 = (Some (length pkt), C') \<and> outbox C' = outbox C @ [(peer_addr C, pkt)] \<and>
      ring_contents (ru_queue (rudp_datagram renv p pkt S)) = [data]) \<and>
    (\<exists>pkt S'. rudp_send renv S data 0 = (Some (length pkt), S') \<and> outbox S' = outbox S @ [(peer_addr S, pkt)] \<and>
      ring_contents (ru_queue (rudp_datagram renv p pkt C)) = [data])"
proof -
  have c: "fresh_udp c" and s: "fresh_udp s" using assms(1,2) created_fresh by blast+
  obtain c1 where c1: "adopt_peer env d (offered_key v s) ip port (c, w) = (True, c1, w')"
    and c': "u_ctx c' = read_clock renv ((u_ctx c1)\<lparr>ru_your_cookie := ru_my_cookie (u_ctx s),
        ru_my_cookie := ru_your_cookie (u_ctx s), inited := True\<rparr>)"
    using assms(3) by (auto simp: rudp_init_client_def split: prod.splits bool.splits)
  obtain s1 where s1: "adopt_peer env' d' (offered_key v c) ip' port' (s, x) = (True, s1, x')"
    and s': "u_ctx s' = read_clock renv ((u_ctx s1)\<lparr>ru_your_cookie := ru_your_cookie (u_ctx s1),
        ru_my_cookie := ru_my_cookie (u_ctx s1), inited := True\<rparr>)"
    using assms(4) by (auto simp: rudp_init_server_def split: prod.splits bool.splits)
  have k: "if v = 1 then length (offered_key v u) = 20 else v = 2 \<and> length (offered_key v u) = 128" if "fresh_udp u" for u
    using that assms(5) by (auto simp: offered_key_def fresh_udp_def)
  have up: "side_up v (offered_key v s) c C" "side_up v (offered_key v c) s S"
    unfolding assms(10,11) c' s'
    by (rule side_up_adopt [OF c c1 k [OF s]] side_up_adopt [OF s s1 k [OF c]];
        use assms(5) in \<open>simp add: c' s' read_clock_def\<close>)+
  obtain addr where "core (u_ctx s1) = core (set_your_key (offered_key v c) (set_peer addr (u_ctx s)))"
    using core_adopt [OF s1] by blast
  note f = core_fields [OF this]
  have ck: "ru_my_cookie S = ru_your_cookie C" "ru_my_cookie C = ru_your_cookie S"
    using f(5,6) by (simp_all add: assms(10,11) c' s' rudp_set_version_def read_clock_def set_your_key_def set_peer_def Let_def)
  have v: "v = 1 \<or> v = 2" using assms(5) by blast
  show ?thesis
    using sides_deliver [OF up ck(1) c s v assms(6-9)] sides_deliver [OF up(2,1) ck(2) s c v assms(6-9)] by blast
qed

section \<open>Witnesses\<close>

definition udp_calls0 :: udp_calls where
  "udp_calls0 = \<lparr>uc_calloc = True, uc_bind = (\<lambda>_. True), uc_sockname = (\<lambda>_. Some 5555), uc_evp = (\<lambda>_. True)\<rparr>"

definition udp_world0 :: udp_world where
  "udp_world0 = \<lparr>w_os = os0, w_rnd_i = 0, w_evp_i = 0, w_evp_made = [], w_evp_freed = []\<rparr>"

definition udp_created0 :: udp_setup where
  "udp_created0 = new_udp\<lparr>u_ctx := read_clock rudp_env0 ((rand_keys rudp_env0 0 ((u_ctx new_udp)\<lparr>udp_fd := 10, is_ipv6 := False\<rparr>))
     \<lparr>ru_my_cookie := 328, ru_your_cookie := 329, rnd_i := 330\<rparr>), u_my_port := 5555\<rparr>"

definition udp_world1 :: udp_world where
  "udp_world1 = udp_world0\<lparr>w_os := set_nonblock 10 True (os0\<lparr>sock_i := 1, opened := [10]\<rparr>), w_rnd_i := 330\<rparr>"

definition udp_client0 :: "udp_setup \<times> udp_world" where
  "udp_client0 = snd (rudp_init_client os_env0 udp_calls0 rudp_env0 (offered_key 2 udp_created0) (lit ''10.0.0.1'') 443 328 329
     (udp_created0, udp_world1))"

definition udp_server0 :: "udp_setup \<times> udp_world" where
  "udp_server0 = snd (rudp_init_server os_env0 udp_calls0 rudp_env0 (offered_key 2 udp_created0) (lit ''10.0.0.2'') 444
     (udp_created0, udp_world1))"

lemma balanced_world0: "udp_balanced None udp_world0"
  by (simp add: udp_owner_defs udp_world0_def os0_def)

lemma three_avoid_two:
  "x \<noteq> y \<Longrightarrow> x \<noteq> z \<Longrightarrow> y \<noteq> z \<Longrightarrow> x \<notin> {p, q} \<or> y \<notin> {p, q} \<or> z \<notin> {p, q}"
  by auto

lemma rand_moves: "\<exists>k \<ge> n. word_of_nat (rnd rudp_env0 k) \<notin> {0, b :: u32}"
proof -
  let ?f = "\<lambda>k. word_of_nat (rnd rudp_env0 k) :: u32"
  have "?f (n + 1) = ?f n + 1" "?f (n + 2) = ?f n + 2" by (simp_all add: rudp_env0_def)
  then have "?f n \<notin> {0, b} \<or> ?f (n + 1) \<notin> {0, b} \<or> ?f (n + 2) \<notin> {0, b}"
    by (intro three_avoid_two) simp_all
  moreover have "n \<le> n + 1" "n \<le> n + 2" by simp_all
  ultimately show ?thesis by blast
qed

lemma udp_create0: "rudp_create os_env0 udp_calls0 rudp_env0 udp_world0 = Some (Some udp_created0, udp_world1)"
  by (simp add: rudp_create_def rudp_create_udp_socket_def udp_calls0_def udp_world0_def udp_world1_def udp_created0_def
      os_open_def os_env0_def os0_def new_udp_def u_fd_def draw_cookie.simps rudp_env0_def Let_def set_nonblock_def)

theorem rudp_create_returns_witness:
  "\<exists>r w'. rudp_create os_env0 udp_calls0 rudp_env0 udp_world0 = Some (r, w') \<and> udp_balanced r w'"
  using rudp_create_returns [of rudp_env0 udp_world0 os_env0 udp_calls0] rand_moves balanced_world0 by blast

theorem udp_context_resources_witness:
  "mset (opened (w_os (rudp_destroy (Some udp_created0) udp_world1))) =
   mset (os_closed (w_os (rudp_destroy (Some udp_created0) udp_world1)))"
proof -
  have "(udp_step os_env0 udp_calls0 rudp_env0)\<^sup>*\<^sup>* (None, udp_world0) (None, rudp_destroy (Some udp_created0) udp_world1)"
    using udp_step.create [OF udp_create0] udp_step.destroy by (metis converse_rtranclp_into_rtranclp r_into_rtranclp)
  from udp_context_resources [OF this balanced_world0] show ?thesis by (simp add: udp_held_def)
qed

lemma peer0: "peer_sockaddr os_env0 (lit ''10.0.0.1'') 443 = Some (Inet [10, 0, 0, 1] 443)"
  "peer_sockaddr os_env0 (lit ''10.0.0.2'') 444 = Some (Inet [10, 0, 0, 2] 444)"
  by code_simp+

lemma started0:
  "rudp_init_client os_env0 udp_calls0 rudp_env0 (offered_key 2 udp_created0) (lit ''10.0.0.1'') 443 328 329
     (udp_created0, udp_world1) = (True, udp_client0) \<and> v2_cipher_inited (u_ctx (fst udp_client0))"
  "rudp_init_server os_env0 udp_calls0 rudp_env0 (offered_key 2 udp_created0) (lit ''10.0.0.2'') 444
     (udp_created0, udp_world1) = (True, udp_server0) \<and> v2_cipher_inited (u_ctx (fst udp_server0))"
proof -
  have "length (offered_key 2 udp_created0) = 128" "\<not> is_ipv6 (u_ctx udp_created0)"
    by (simp_all add: offered_key_def udp_created0_def rand_keys_def read_clock_def)
  then show
    "rudp_init_client os_env0 udp_calls0 rudp_env0 (offered_key 2 udp_created0) (lit ''10.0.0.1'') 443 328 329
       (udp_created0, udp_world1) = (True, udp_client0) \<and> v2_cipher_inited (u_ctx (fst udp_client0))"
    "rudp_init_server os_env0 udp_calls0 rudp_env0 (offered_key 2 udp_created0) (lit ''10.0.0.2'') 444
       (udp_created0, udp_world1) = (True, udp_server0) \<and> v2_cipher_inited (u_ctx (fst udp_server0))"
    by (simp_all add: udp_client0_def udp_server0_def rudp_init_client_def rudp_init_server_def adopt_peer_def peer0
        match_family_def rudp_init_v2_cipher_def new_evp_def udp_calls0_def read_clock_def Let_def)
qed

theorem rudp_sides_agree_witness:
  "\<exists>pkt C'. rudp_send rudp_env0 (rudp_set_version (u_ctx (fst udp_client0)) 2) [1, 2, 3] 0 = (Some (length pkt), C') \<and>
     ring_contents (ru_queue (rudp_datagram rudp_env0 (Inet [10, 0, 0, 2] 9) pkt
       (rudp_set_version (u_ctx (fst udp_server0)) 2))) = [[1, 2, 3]]"
proof -
  have "ru_my_cookie (u_ctx udp_created0) = 328" "ru_your_cookie (u_ctx udp_created0) = 329"
    by (simp_all add: udp_created0_def read_clock_def)
  then have c: "rudp_init_client os_env0 udp_calls0 rudp_env0 (offered_key 2 udp_created0) (lit ''10.0.0.1'') 443
      (ru_my_cookie (u_ctx udp_created0)) (ru_your_cookie (u_ctx udp_created0)) (udp_created0, udp_world1)
      = (True, fst udp_client0, snd udp_client0)" using started0(1) by simp
  have s: "rudp_init_server os_env0 udp_calls0 rudp_env0 (offered_key 2 udp_created0) (lit ''10.0.0.2'') 444
     (udp_created0, udp_world1) = (True, fst udp_server0, snd udp_server0)" using started0(2) by simp
  show ?thesis
    using rudp_sides_agree [OF udp_create0 udp_create0 c s _ aead_ok_env0 _ _ _ refl refl, of "[1, 2, 3]" "Inet [10, 0, 0, 2] 9"]
      started0 by (auto simp: rudp_env0_def rudp_consts)
qed

end
