(* ===== verification/Connect.thy ===== *)
theory Connect
  imports Tunnel Race Rudp_Setup
begin

text \<open>
  Setting up and taking down a session (\<^verbatim>\<open>softether_protocol.c\<close>): creation of the
  connection, the TCP attempt with its fallbacks (the race of the UDP transports, the NAT-T
  relay when the login is refused), the TLS handshake, the two HTTP exchanges of the login,
  the start of UDP acceleration, disconnecting, reconnecting and destruction. \<open>client_t\<close>
  completes the records of \<open>Links\<close> and \<open>Login\<close> to the whole of \<^verbatim>\<open>softether_connection_t\<close>;
  where two of them hold the same field, \<open>login_view\<close> and \<open>login_store\<close> carry it across.

  The environment holds the answers of the system and of the TLS library by the number of
  the call, the byte streams of each TLS connection by its number, and the final state of
  the race, which the theorems require to be reachable in the model of the race. The
  receive timeouts that \<^verbatim>\<open>setsockopt\<close> sets are not modelled: a read that times out is a
  stream that ends.
\<close>

section \<open>Runs\<close>

text \<open>A call returns, runs into undefined behaviour, or has not returned within its fuel.\<close>

datatype 'a run = Finished 'a | Faulted | Unfinished

fun run_bind :: "'a run \<Rightarrow> ('a \<Rightarrow> 'b run) \<Rightarrow> 'b run" where
  "run_bind (Finished x) f = f x"
| "run_bind Faulted f = Faulted"
| "run_bind Unfinished f = Unfinished"

lemma run_bind_Finished:
  "run_bind r f = Finished y \<longleftrightarrow> (\<exists>x. r = Finished x \<and> f x = Finished y)"
  by (cases r) auto

section \<open>State and environment\<close>

record client_t =
  tun :: tun_t
  sess :: session_t
  cinfo :: client_info
  session_id :: u32
  server_port :: int
  username :: bytes
  password :: bytes
  cl_hub_name :: bytes
  timeout_ms :: int
  server_random :: bytes
  has_server_random :: bool
  forced_auth_type :: int
  udp_port :: int
  udp_only :: bool
  server_ip_v6 :: bytes
  cl_is_ipv6 :: bool
  cl_transport :: "rudp_transport option"
  cl_my_port :: u16
  cl_enc :: "nat option"
  cl_dec :: "nat option"
  cl_world :: udp_world
  cl_closed :: "int list"
  cl_left :: "int list"
  cl_made :: "nat list"
  cl_adopted :: "rudp_transport list"
  tls_i :: nat

text \<open>
  \<open>cl_closed\<close> are the descriptors the destruction of transports has closed, \<open>cl_left\<close> those that
  failed attempts have left open; \<open>cl_made\<close> are the TLS contexts and \<open>cl_adopted\<close> the transports the
  connection has come to own. These four are a record of what was done, which no operation
  reads. \<open>ce_race\<close> is the state in which the race of the given
  threads ends.
\<close>

record client_env =
  te :: tun_env
  ce_os :: os_env
  ce_udp :: udp_calls
  ce_login :: login_env
  ce_date :: bytes
  ce_force_nat_t :: bool
  ce_ctx :: "nat \<Rightarrow> nat option"
  ce_tls :: "nat \<Rightarrow> bool"
  ce_in :: "nat \<Rightarrow> instream"
  ce_out :: "nat \<Rightarrow> outstream"
  ce_race :: "thread_ctx list \<Rightarrow> race"
  ce_nat :: nat_env
  ce_fuel :: nat
  ce_alloc :: bool
  ce_rt :: rt_env
  ce_calls :: rt_calls
  ce_arrive :: "(u32 \<times> u16 \<times> bytes) list"

abbreviation cl_heap :: "client_env \<Rightarrow> heap_env" where "cl_heap env \<equiv> lheap (ce_login env)"

abbreviation cl_conn :: "client_t \<Rightarrow> conn_t" where "cl_conn c \<equiv> tc (tun c)"

definition on_conn :: "(conn_t \<Rightarrow> conn_t) \<Rightarrow> client_t \<Rightarrow> client_t" where
  "on_conn f c = c\<lparr>tun := (tun c)\<lparr>tc := f (tc (tun c))\<rparr>\<rparr>"

definition set_state :: "softether_state_t \<Rightarrow> client_t \<Rightarrow> client_t" where
  "set_state s = on_conn (\<lambda>k. k\<lparr>cstate := s\<rparr>)"

text \<open>The UDP context with its surroundings, as \<open>Rudp_Setup\<close> sees it.\<close>

definition get_udp :: "client_t \<Rightarrow> udp_setup option" where
  "get_udp c = map_option (\<lambda>ru. \<lparr>u_ctx = ru, u_my_port = cl_my_port c, u_enc = cl_enc c, u_dec = cl_dec c\<rparr>)
     (conn_rudp (cl_conn c))"

definition put_udp :: "udp_setup option \<Rightarrow> udp_world \<Rightarrow> client_t \<Rightarrow> client_t" where
  "put_udp u w c = (on_conn (\<lambda>k. k\<lparr>conn_rudp := map_option u_ctx u\<rparr>) c)\<lparr>cl_world := w,
     cl_my_port := (case u of None \<Rightarrow> cl_my_port c | Some v \<Rightarrow> u_my_port v),
     cl_enc := Option.bind u u_enc, cl_dec := Option.bind u u_dec\<rparr>"

definition set_transport :: "rudp_transport option \<Rightarrow> client_t \<Rightarrow> client_t" where
  "set_transport tr c = c\<lparr>cl_transport := tr\<rparr>"

definition adopt_transport :: "rudp_transport \<Rightarrow> client_t \<Rightarrow> client_t" where
  "adopt_transport tr c = (set_transport (Some tr) c)\<lparr>cl_adopted := cl_adopted c @ [tr]\<rparr>"

definition snprintf_s :: "nat \<Rightarrow> bytes \<Rightarrow> bytes" where
  "snprintf_s n s = take (n - 1) s"

text \<open>An argument that is NULL or empty leaves the field as it was.\<close>

definition put_str :: "nat \<Rightarrow> bytes \<Rightarrow> bytes \<Rightarrow> bytes" where
  "put_str n s old = (if s = [] then old else snprintf_s n s)"

definition has_colon :: "bytes \<Rightarrow> bool" where
  "has_colon s \<longleftrightarrow> 58 \<in> set s"

section \<open>Creation\<close>

definition no_stream :: instream where
  "no_stream = \<lparr>avail = [], chunk = (\<lambda>_. 0), calls = 0\<rparr>"

definition no_sink :: outstream where
  "no_sink = \<lparr>written = [], wroom = 0, wchunk = (\<lambda>_. 0), wcalls = 0\<rparr>"

definition free_sock :: tcp_sock where
  "free_sock = \<lparr>ts_fd = 0, ts_ctx = None, ts_ssl = None, ts_dir = 0, ts_last_recv = 0, ts_late = 0, ts_active = False\<rparr>"

definition new_conn :: "nat \<Rightarrow> conn_t" where
  "new_conn cap = \<lparr>cstate = STATE_DISCONNECTED, socket_fd = -1, conn_ssl = None, conn_ssl_ctx = None,
     primary_direction = TCP_DIRECTION_BOTH, additional = replicate MAX_SE_CONNECTIONS free_sock, num_additional = 0,
     send_rr_idx = 0, recv_queue = ring_new 64 [], rx_skipped_blocks = 0, conn_compress = False, conn_ssl_data = False,
     send_block_cap = cap, conn_timeout = 0, next_tcp_keepalive_time = 0, conn_rudp = None, conn_rudp_enabled = False,
     conn_session_established = False, rxs = (\<lambda>_. no_stream), txs = (\<lambda>_. no_sink), closed_fds = [], destroyed = [],
     cclk_i = 0, crnd_i = 5, poll_i = 0\<rparr>"

definition new_tun :: "(nat \<Rightarrow> nat) \<Rightarrow> nat \<Rightarrow> tun_t" where
  "new_tun rd cap = \<lparr>tc = new_conn cap, conn_server_ip = [], conn_session_key = replicate 20 0,
     client_mac = 0x5E # map (\<lambda>i. word_of_nat (rd i)) [0..<5], gateway_mac = replicate 6 0, gateway_mac_resolved = False,
     gateway_ip = 0, assigned_ip = 0, max_connection = 4, next_connect_time = 0, additional_failed_count = 0,
     additional_connecting = False, additional_connect_slot = -1, additional_connect_result = -1,
     using_nat_t = False, stats_tx_packets = 0, stats_tx_bytes = 0, stats_rx_packets = 0,
     stats_rx_bytes = 0, dial_i = 0, lpoll_i = 0, thread_i = 0\<rparr>"

definition zero_session :: session_t where
  "zero_session = \<lparr>sess_server_ip = [], session_name = [], connection_name = [],
     session_key = replicate 20 0, session_key_32 = 0, server_max_connection = 0,
     server_use_encrypt = 0, server_use_compress = 0, server_use_fast_rc4 = 0, server_timeout = 0,
     half_connection = 0, use_ssl_data = False, udp_compress = None, rudp_enabled = False,
     rudp_version = 0, rudp_server_ip = [], rudp_server_port = 0, rudp_server_key = replicate 128 0,
     rudp_server_key_size = 0, rudp_server_key_v2 = replicate 128 0, rudp_server_key_v2_size = 0,
     rudp_server_cookie = 0, rudp_client_cookie = 0, session_established = False\<rparr>"

definition zero_info :: client_info where
  "zero_info = \<lparr>client_product_name = [], client_product_version = [], client_product_build = 0, client_os_name = [],
     client_os_version = [], client_os_product_id = [], client_host_name = [], client_ip_address = [], client_port = 0,
     server_host_name = [], server_ip_address = [], server_port_reported = 0, client_ip_v6 = [],
     ci_half_connection = False, ci_socket_fd = -1\<rparr>"

definition SEND_BLOCK_CAP :: nat where "SEND_BLOCK_CAP = 8 + ETH_HEADER_SIZE + 65535"

text \<open>\<open>ok\<close> is whether \<^verbatim>\<open>calloc\<close> finds room for the connection.\<close>

definition softether_create :: "client_env \<Rightarrow> bool \<Rightarrow> udp_world \<Rightarrow> client_t option" where
  "softether_create env ok w = (if \<not> ok then None else Some
     \<lparr>tun = new_tun (crand (cenv (te env))) (if can_alloc (cl_heap env) SEND_BLOCK_CAP then SEND_BLOCK_CAP else 0),
      sess = zero_session, cinfo = zero_info, session_id = 0, server_port = 0, username = [], password = [],
      cl_hub_name = lit ''vpngate'', timeout_ms = 30000, server_random = replicate 20 0, has_server_random = False,
      forced_auth_type = 0, udp_port = 0, udp_only = False, server_ip_v6 = [], cl_is_ipv6 = False, cl_transport = None,
      cl_my_port = 0, cl_enc = None, cl_dec = None, cl_world = w, cl_closed = [], cl_left = [], cl_made = [], cl_adopted = [], tls_i = 0\<rparr>)"

definition softether_set_client_mac :: "bytes option \<Rightarrow> client_t \<Rightarrow> client_t" where
  "softether_set_client_mac mac c = (case mac of
     None \<Rightarrow> c | Some m \<Rightarrow> c\<lparr>tun := (tun c)\<lparr>client_mac := take 6 m\<rparr>\<rparr>)"

definition softether_set_auth_type :: "int \<Rightarrow> client_t \<Rightarrow> client_t" where
  "softether_set_auth_type ty c = c\<lparr>forced_auth_type := ty\<rparr>"

definition softether_get_state :: "client_t option \<Rightarrow> softether_state_t" where
  "softether_get_state c = (case c of None \<Rightarrow> STATE_DISCONNECTED | Some c \<Rightarrow> cstate (cl_conn c))"

fun softether_state_string :: "softether_state_t \<Rightarrow> string" where
  "softether_state_string STATE_DISCONNECTED = ''DISCONNECTED''"
| "softether_state_string STATE_CONNECTING = ''CONNECTING''"
| "softether_state_string STATE_TLS_HANDSHAKE = ''TLS_HANDSHAKE''"
| "softether_state_string STATE_PROTOCOL_HANDSHAKE = ''PROTOCOL_HANDSHAKE''"
| "softether_state_string STATE_AUTHENTICATING = ''AUTHENTICATING''"
| "softether_state_string STATE_SESSION_SETUP = ''SESSION_SETUP''"
| "softether_state_string STATE_CONNECTED = ''CONNECTED''"
| "softether_state_string STATE_DISCONNECTING = ''DISCONNECTING''"

fun softether_error_string :: "err \<Rightarrow> string" where
  "softether_error_string ERR_NONE = ''No error''"
| "softether_error_string ERR_TCP_CONNECT = ''TCP connection failed''"
| "softether_error_string ERR_TLS_HANDSHAKE = ''TLS handshake failed''"
| "softether_error_string ERR_PROTOCOL_VERSION = ''Protocol version mismatch''"
| "softether_error_string ERR_AUTHENTICATION = ''Authentication failed''"
| "softether_error_string ERR_SESSION = ''Session setup failed''"
| "softether_error_string ERR_DATA_TRANSMISSION = ''Data transmission failed''"
| "softether_error_string ERR_TIMEOUT = ''Operation timed out''"
| "softether_error_string ERR_UNKNOWN = ''Unknown error''"

section \<open>Taking down\<close>

text \<open>The descriptors \<^verbatim>\<open>rudp_transport_destroy\<close> closes.\<close>

definition transport_closes :: "rudp_transport \<Rightarrow> int list" where
  "transport_closes tr = filter (\<lambda>fd. 0 \<le> fd) [worker_fd tr, app_fd tr, t_udp_fd tr]"

definition take_nat_t_transport :: "client_t \<Rightarrow> rudp_transport option \<times> client_t" where
  "take_nat_t_transport c = (cl_transport c, set_transport None c)"

definition release_transport :: "client_t \<Rightarrow> client_t" where
  "release_transport c = (case take_nat_t_transport c of
     (None, c) \<Rightarrow> c
   | (Some tr, c) \<Rightarrow> c\<lparr>cl_closed := cl_closed c @ transport_closes tr\<rparr>)"

text \<open>
  The whole of \<^verbatim>\<open>softether_disconnect\<close>: the TCP connections and the state (\<open>close_links\<close>), then the
  transport, then the UDP context.
\<close>

definition softether_disconnect :: "client_t \<Rightarrow> client_t" where
  "softether_disconnect c = (if state_down (cl_conn c) then c
     else let u = get_udp c;
              c = release_transport (c\<lparr>tun := close_links (tun c)\<rparr>)
          in (put_udp None (rudp_destroy u (cl_world c)) c)\<lparr>session_id := 0\<rparr>)"

text \<open>\<^verbatim>\<open>shutdown\<close> ends both directions of a stream.\<close>

definition shut_fd :: "int \<Rightarrow> client_t \<Rightarrow> client_t" where
  "shut_fd fd = on_conn (\<lambda>k. k\<lparr>rxs := (rxs k)(fd := (rxs k fd)\<lparr>avail := []\<rparr>), txs := (txs k)(fd := (txs k fd)\<lparr>wroom := 0\<rparr>)\<rparr>)"

definition force_close_fds :: "client_t \<Rightarrow> int list" where
  "force_close_fds c = filter (\<lambda>fd. 0 \<le> fd) (socket_fd (cl_conn c) #
     (case cl_transport c of None \<Rightarrow> [] | Some tr \<Rightarrow> [rudp_transport_get_fd tr]))"

definition softether_force_close_socket :: "client_t \<Rightarrow> client_t" where
  "softether_force_close_socket c = fold shut_fd (force_close_fds c) c"

text \<open>
  The last state of the connection, as it is freed. A background thread that is still
  running is waited for, with its effects.
\<close>

definition softether_destroy :: "client_env \<Rightarrow> client_t \<Rightarrow> client_t run" where
  "softether_destroy env c = run_bind
     (if \<not> additional_connecting (tun c) then Finished c
      else (case additional_connect_thread_routine (te env) (tun c) of
          Ret t \<Rightarrow> Finished (c\<lparr>tun := t\<lparr>additional_connecting := False\<rparr>\<rparr>)
        | _ \<Rightarrow> Faulted))
     (\<lambda>c. let c = release_transport (softether_disconnect c);
              c = c\<lparr>tun := (tun c)\<lparr>using_nat_t := False\<rparr>, username := [], password := []\<rparr>
          in Finished (on_conn (\<lambda>k. k\<lparr>send_block_cap := 0\<rparr>) c))"

section \<open>The TLS handshake\<close>

definition perform_tls_handshake :: "client_env \<Rightarrow> client_t \<Rightarrow> err \<times> client_t" where
  "perform_tls_handshake env c =
     (if socket_fd (cl_conn c) < 0 then (ERR_TLS_HANDSHAKE, c)
      else let n = tls_i c; fd = socket_fd (cl_conn c); c = set_state STATE_TLS_HANDSHAKE (c\<lparr>tls_i := n + 1\<rparr>) in
        case ce_ctx env n of
          None \<Rightarrow> (ERR_TLS_HANDSHAKE, c)
        | Some x \<Rightarrow> let c = c\<lparr>cl_made := cl_made c @ [x]\<rparr> in if \<not> ce_tls env n
            then (ERR_TLS_HANDSHAKE, on_conn (\<lambda>k. k\<lparr>conn_ssl_ctx := None, destroyed := destroyed k @ [x]\<rparr>) c)
            else (ERR_NONE, on_conn (\<lambda>k. k\<lparr>conn_ssl_ctx := Some x, conn_ssl := Some x,
                rxs := (rxs k)(fd := ce_in env n), txs := (txs k)(fd := ce_out env n)\<rparr>) c))"

section \<open>The two exchanges of the login\<close>

text \<open>
  The answer to the watermark, header block and body: 1 with a Hello, 0 otherwise. The body
  overwrites the terminator behind the header, so the two searches run over both.
\<close>

definition store_random :: "server_hello_info_t \<Rightarrow> client_t \<Rightarrow> client_t" where
  "store_random hi c = (if has_random hi then c\<lparr>server_random := sh_random hi, has_server_random := True\<rparr> else c)"

definition watermark_answer :: "bytes \<Rightarrow> bytes \<Rightarrow> client_t \<Rightarrow> int \<times> client_t" where
  "watermark_answer h body c = (let txt = cstr_of (h @ body) in
     if strstr txt (lit ''HTTP/1.1 200'') = None \<and> strstr txt (lit ''HTTP/1.0 200'') = None then (0, c)
     else if strstr txt (lit ''application/octet-stream'') = None then (0, c)
     else if length body < 4 then (0, c)
     else (1, case parse_server_hello body of None \<Rightarrow> c | Some hi \<Rightarrow> store_random hi c))"

text \<open>\<^verbatim>\<open>ssl_write\<close> once, then \<^verbatim>\<open>read_http_response\<close>, both on the primary connection.\<close>

definition http_exchange :: "nat \<Rightarrow> bytes \<Rightarrow> client_t \<Rightarrow> (bytes \<times> bytes) outcome \<times> client_t" where
  "http_exchange buf_size req c = (let fd = socket_fd (cl_conn c); (ok, k) = write_once fd req (cl_conn c) in
     if \<not> ok then (Fail, on_conn (\<lambda>_. k) c)
     else let (r, s) = read_http_response buf_size (rxs k fd) in (r, on_conn (\<lambda>_. set_rx fd s k) c))"

definition send_vpnconnect_watermark :: "client_env \<Rightarrow> bytes \<Rightarrow> client_t \<Rightarrow> (int \<times> client_t) run" where
  "send_vpnconnect_watermark env server_ip c =
     (if conn_ssl (cl_conn c) = None then Finished (-1, c)
      else if \<not> can_alloc (cl_heap env) (length (vpnconnect_head server_ip) + 10) then Finished (-1, c)
      else (case watermark_request server_ip of
          Ret req \<Rightarrow> (case http_exchange 4096 req c of
              (Fault, c) \<Rightarrow> Faulted
            | (Fail, c) \<Rightarrow> Finished (-1, c)
            | (Ret (h, body), c) \<Rightarrow> Finished (watermark_answer h body c))
        | _ \<Rightarrow> Faulted))"

text \<open>The header is printed into \<^verbatim>\<open>http_hdr[512]\<close> and copied by its full length.\<close>

definition auth_request :: "heap_env \<Rightarrow> bytes \<Rightarrow> bytes \<Rightarrow> bytes \<Rightarrow> bytes outcome" where
  "auth_request h date server_ip pack = (let full = vpn_cgi_head date server_ip (length pack);
       http_hdr = take 511 full @ [0] @ replicate (511 - length full) 0 in
     if \<not> can_alloc h (length full + length pack) then Fail
     else (case read_at http_hdr 0 (length full) of None \<Rightarrow> Fault | Some hdr \<Rightarrow> Ret (hdr @ pack)))"

definition login_args_of :: "client_env \<Rightarrow> bytes \<Rightarrow> bytes \<Rightarrow> client_t \<Rightarrow> login_args" where
  "login_args_of env user pw c = (let auth = choose_auth_type (nat (forced_auth_type c)) pw in
     \<lparr>hub_name = cl_hub_name c, login_user = user, auth_type = auth,
      secure_password = (if auth = CLIENT_AUTHTYPE_PASSWORD
        then Some (secure_password_of (cl_heap env) pw user (if has_server_random c then Some (server_random c) else None))
        else None),
      plain_password = (if auth = CLIENT_AUTHTYPE_PLAIN_PASSWORD then Some pw else None),
      login_udp = map_option (\<lambda>u. \<lparr>my_key = ru_my_key (u_ctx u), my_key_v2 = ru_my_key_v2 (u_ctx u),
        my_cookie = ru_my_cookie (u_ctx u), my_port = ucast (u_my_port u)\<rparr>) (get_udp c),
      info = (cinfo c)\<lparr>ci_half_connection := half_connection (sess c) \<noteq> 0, ci_socket_fd := socket_fd (cl_conn c)\<rparr>\<rparr>)"

text \<open>What the login response sees of the connection, and what it leaves in it.\<close>

definition login_view :: "client_t \<Rightarrow> session_t" where
  "login_view c = (sess c)\<lparr>sess_server_ip := conn_server_ip (tun c), session_key := conn_session_key (tun c),
     use_ssl_data := conn_ssl_data (cl_conn c), udp_compress := map_option use_compress (conn_rudp (cl_conn c)),
     rudp_enabled := conn_rudp_enabled (cl_conn c), session_established := conn_session_established (cl_conn c)\<rparr>"

definition store_conn :: "session_t \<Rightarrow> conn_t \<Rightarrow> conn_t" where
  "store_conn s k = k\<lparr>conn_ssl_data := use_ssl_data s, conn_compress := (server_use_compress s \<noteq> 0),
     conn_timeout := unat (server_timeout s),
     conn_rudp := (case conn_rudp k of None \<Rightarrow> None
       | Some ru \<Rightarrow> Some (case udp_compress s of None \<Rightarrow> ru | Some b \<Rightarrow> rudp_set_compress ru b)),
     conn_rudp_enabled := rudp_enabled s, conn_session_established := session_established s\<rparr>"

definition login_store :: "session_t \<Rightarrow> client_t \<Rightarrow> client_t" where
  "login_store s c = (on_conn (store_conn s) c)\<lparr>sess := s, tun := (tun (on_conn (store_conn s) c))\<lparr>conn_session_key := session_key s\<rparr>\<rparr>"

definition store_credentials :: "bytes \<Rightarrow> bytes \<Rightarrow> client_t \<Rightarrow> client_t" where
  "store_credentials user pw c = (set_state STATE_AUTHENTICATING c)\<lparr>username := snprintf_s 256 user,
     password := snprintf_s 256 pw\<rparr>"

definition login_answer :: "bytes \<Rightarrow> bytes \<Rightarrow> client_t \<Rightarrow> err \<times> client_t" where
  "login_answer h body c = (case process_login_response h body (login_view c) of
     (e, s) \<Rightarrow> if e = ERR_NONE then (ERR_NONE, login_store s c) else (e, c))"

definition perform_authentication_http :: "client_env \<Rightarrow> bytes \<Rightarrow> bytes \<Rightarrow> client_t \<Rightarrow> (err \<times> client_t) run" where
  "perform_authentication_http env user pw c = (let c = store_credentials user pw c in
     case build_login_pack (ce_login env) (login_args_of env user pw c) of
       Fault \<Rightarrow> Faulted
     | Fail \<Rightarrow> Finished (ERR_AUTHENTICATION, c)
     | Ret pack \<Rightarrow> if pack = [] then Finished (ERR_AUTHENTICATION, c)
         else (case auth_request (cl_heap env) (ce_date env) (conn_server_ip (tun c)) pack of
             Fault \<Rightarrow> Faulted
           | Fail \<Rightarrow> Finished (ERR_AUTHENTICATION, c)
           | Ret req \<Rightarrow> (case http_exchange 8192 req c of
               (Fault, c) \<Rightarrow> Faulted
             | (Fail, c) \<Rightarrow> Finished (ERR_AUTHENTICATION, c)
             | (Ret (h, body), c) \<Rightarrow> Finished (login_answer h body c))))"

text \<open>The UDP context that the login announces, for the family of the server.\<close>

definition open_rudp :: "client_env \<Rightarrow> client_t \<Rightarrow> client_t run" where
  "open_rudp env c = (case rudp_create (ce_os env) (ce_udp env) (renv (cenv (te env))) (cl_world c) of
     None \<Rightarrow> Unfinished
   | Some (None, w) \<Rightarrow> Finished (put_udp None w c)
   | Some (Some u, w) \<Rightarrow> if \<not> cl_is_ipv6 c then Finished (put_udp (Some u) w c)
       else (case rudp_set_udp_family (ce_os env) (ce_udp env) AF_INET6 (u, w) of
           (True, u, w) \<Rightarrow> Finished (put_udp (Some u) w c)
         | (False, u, w) \<Rightarrow> Finished (put_udp None (rudp_destroy (Some u) w) c)))"

definition softether_protocol_login ::
  "client_env \<Rightarrow> bytes \<Rightarrow> bytes \<Rightarrow> bytes \<Rightarrow> bool \<Rightarrow> client_t \<Rightarrow> (err \<times> client_t) run" where
  "softether_protocol_login env host user pw use_tcp c = run_bind (send_vpnconnect_watermark env host c)
     (\<lambda>(r, c). if r < 0 then Finished (ERR_TLS_HANDSHAKE, c)
        else run_bind (if \<not> use_tcp \<and> \<not> using_nat_t (tun c) then open_rudp env c
            else Finished (on_conn (\<lambda>k. k\<lparr>conn_rudp := None\<rparr>) c))
          (perform_authentication_http env user pw))"

section \<open>Links other than plain TCP\<close>

definition relay_failed :: "int list \<Rightarrow> client_t \<Rightarrow> (err \<times> client_t) run" where
  "relay_failed opn c = Finished (ERR_TCP_CONNECT, c\<lparr>cl_left := cl_left c @ opn\<rparr>)"

text \<open>The session over the relay, once the rendezvous has given an address.\<close>

definition relay_session :: "client_env \<Rightarrow> softether_nat_t_result_t \<Rightarrow> int list \<Rightarrow> client_t \<Rightarrow> (err \<times> client_t) run" where
  "relay_session env res opn c = (case rudp_transport_create (ce_alloc env) of
     None \<Rightarrow> relay_failed (if 0 \<le> nat_udp_fd res then remove1 (nat_udp_fd res) opn else opn) c
   | Some tr \<Rightarrow> (case rudp_transport_connect (ce_rt env) (ce_calls env)
          (udp_config (result_ip res) (result_port res) (if same_lan res \<noteq> 0 then -1 else nat_udp_fd res)
            (word_of_int (timeout_ms c)) RUDP_T_MODE_UDP) (tr\<lparr>open_fds := opn, udp_in := ce_arrive env\<rparr>) of
        (r, tr) \<Rightarrow> if r \<noteq> 0 then relay_failed (open_fds (rudp_transport_destroy (ce_rt env) tr)) c
          else let c = adopt_transport tr (c\<lparr>tun := (tun c)\<lparr>using_nat_t := True\<rparr>\<rparr>)
            in Finished (ERR_NONE, on_conn (\<lambda>k. k\<lparr>socket_fd := rudp_transport_get_fd tr\<rparr>) c)))"

definition softether_try_nat_t_connect :: "client_env \<Rightarrow> bytes \<Rightarrow> client_t \<Rightarrow> (err \<times> client_t) run" where
  "softether_try_nat_t_connect env resolved_ip c = (case inet_pton resolved_ip of
     None \<Rightarrow> Finished (ERR_TCP_CONNECT, c)
   | Some ip4 \<Rightarrow> (case nat_t_connect (ce_fuel env) (ce_nat env) ip4 (Some NAT_T_SVC_NAME)
          (unat (word_of_int (timeout_ms c) :: u32)) of
        None \<Rightarrow> Unfinished
      | Some (Ret (r, st)) \<Rightarrow> if r \<noteq> 0 then relay_failed (nt_open st) c else relay_session env (nr st) (nt_open st) c
      | Some _ \<Rightarrow> Faulted))"

text \<open>The winner of the race becomes the primary connection; \<open>n\<close> numbers its streams.\<close>

definition promote :: "client_env \<Rightarrow> transport_result_t \<Rightarrow> client_t \<Rightarrow> client_t" where
  "promote env res c = (let n = tls_i c; fd = r_socket_fd res;
       c = on_conn (\<lambda>k. k\<lparr>socket_fd := fd, conn_ssl_ctx := r_ssl_ctx res, conn_ssl := r_ssl res,
         rxs := (rxs k)(fd := ce_in env n), txs := (txs k)(fd := ce_out env n)\<rparr>) (c\<lparr>tls_i := n + 1, cl_made := cl_made c @ (case r_ssl_ctx res of None \<Rightarrow> [] | Some x \<Rightarrow> [x])\<rparr>)
     in case r_transport res of
          None \<Rightarrow> c
        | Some tr \<Rightarrow> adopt_transport tr (c\<lparr>tun := (tun c)\<lparr>using_nat_t := True\<rparr>\<rparr>))"

definition softether_connect_parallel_race ::
  "client_env \<Rightarrow> bytes \<Rightarrow> int \<Rightarrow> bytes \<Rightarrow> client_t \<Rightarrow> int \<times> client_t" where
  "softether_connect_parallel_race env resolved_ip port connect_host c =
     (let R = ce_race env (race_contexts (udp_port c) (timeout_ms c) resolved_ip port connect_host) in
      case r_main R of
        Done (Some i) \<Rightarrow> (0, promote env (t_res (r_threads R ! i)) c)
      | _ \<Rightarrow> (-1, c))"

section \<open>Connecting\<close>

text \<open>
  The arguments of \<^verbatim>\<open>softether_connect_with_hub\<close>; those about the client and its view of the
  server come as a \<open>client_info\<close>, with an empty text for NULL.
\<close>

record connect_args =
  a_host :: "bytes option"
  a_port :: int
  a_username :: "bytes option"
  a_password :: "bytes option"
  a_hub_name :: "bytes option"
  a_use_tcp :: bool
  a_info :: client_info

definition store_client_info :: "client_info \<Rightarrow> client_t \<Rightarrow> client_t" where
  "store_client_info a c = (let i = cinfo c; cip = client_ip_address a; sip = server_ip_address a in
     c\<lparr>cinfo := i\<lparr>client_product_name := put_str 128 (client_product_name a) (client_product_name i),
        client_product_version := put_str 32 (client_product_version a) (client_product_version i),
        client_product_build := client_product_build a,
        client_os_name := put_str 128 (client_os_name a) (client_os_name i),
        client_os_version := put_str 64 (client_os_version a) (client_os_version i),
        client_os_product_id := put_str 128 (client_os_product_id a) (client_os_product_id i),
        client_host_name := put_str 128 (client_host_name a) (client_host_name i),
        client_ip_v6 := (if has_colon cip then snprintf_s 128 cip else client_ip_v6 i),
        client_ip_address := (if has_colon cip then client_ip_address i else put_str 64 cip (client_ip_address i)),
        client_port := client_port a,
        server_host_name := put_str 128 (server_host_name a) (server_host_name i),
        server_ip_address := (if has_colon sip then server_ip_address i else put_str 64 sip (server_ip_address i)),
        server_port_reported := server_port_reported a\<rparr>,
       server_ip_v6 := (if has_colon sip then snprintf_s 128 sip else server_ip_v6 c)\<rparr>)"

definition store_hub :: "bytes option \<Rightarrow> client_t \<Rightarrow> client_t" where
  "store_hub hub c = c\<lparr>cl_hub_name := (case hub of
     Some h \<Rightarrow> if h \<noteq> [] then snprintf_s 256 h else lit ''vpngate'' | None \<Rightarrow> lit ''vpngate'')\<rparr>"

text \<open>The guard, the stale transport of an earlier attempt, and the bookkeeping before the first call.\<close>

definition begin_connect :: "connect_args \<Rightarrow> client_t \<Rightarrow> client_t" where
  "begin_connect a c = (let c = (if socket_fd (cl_conn c) < 0 then release_transport c else c);
       c = set_state STATE_CONNECTING (c\<lparr>tun := (tun c)\<lparr>using_nat_t := False\<rparr>\<rparr>)
     in store_hub (a_hub_name a) (store_client_info (a_info a) c))"

abbreviation cl_os :: "client_t \<Rightarrow> os" where "cl_os c \<equiv> w_os (cl_world c)"

definition set_os :: "os \<Rightarrow> client_t \<Rightarrow> client_t" where
  "set_os s c = c\<lparr>cl_world := (cl_world c)\<lparr>w_os := s\<rparr>\<rparr>"

text \<open>
  The two connects of the TCP attempt: to the host, then to an address of the other IP
  version. The result, the address found so far, and the socket.
\<close>

definition tcp_dial_both :: "os_env \<Rightarrow> bytes \<Rightarrow> int \<Rightarrow> int \<Rightarrow> bytes \<Rightarrow> softether_socket_t \<times> os \<Rightarrow>
    bool \<times> bytes \<times> softether_socket_t \<times> os" where
  "tcp_dial_both env host port ms resolved_ip ks = (case socket_connect_timeout env host port ms ks of
     (r, k, s) \<Rightarrow> if r = 0 then (True, resolved_ip, k, s)
       else (case resolve_hostname_family env (Some host) (if has_colon resolved_ip then AF_INET else AF_INET6) 64 s of
           (None, s) \<Rightarrow> (False, resolved_ip, k, s)
         | (Some fallback_ip, s) \<Rightarrow> if fallback_ip = resolved_ip then (False, resolved_ip, k, s)
             else (case socket_connect_timeout env fallback_ip port ms (k, s) of
                 (r, k, s) \<Rightarrow> if r = 0 then (True, snprintf_s 64 fallback_ip, k, s) else (False, resolved_ip, k, s))))"

text \<open>The address the socket is really connected to, when it has one.\<close>

definition actual_ip :: "os_env \<Rightarrow> softether_socket_t \<Rightarrow> bytes \<Rightarrow> bytes" where
  "actual_ip env k resolved_ip = (case sk_addr k of
     None \<Rightarrow> resolved_ip
   | Some a \<Rightarrow> (case address_text env a 64 of None \<Rightarrow> resolved_ip | Some t \<Rightarrow> snprintf_s 64 t))"

definition tcp_attempt :: "client_env \<Rightarrow> bytes \<Rightarrow> int \<Rightarrow> bytes \<Rightarrow> client_t \<Rightarrow> bool \<times> bytes \<times> client_t" where
  "tcp_attempt env host port resolved_ip c =
     (if ce_force_nat_t env then (False, resolved_ip, c)
      else (case socket_create (ce_os env) SOCKET_TYPE_TCP (cl_os c) of
          (None, s) \<Rightarrow> (False, resolved_ip, set_os s c)
        | (Some k, s) \<Rightarrow> (case tcp_dial_both (ce_os env) host port (timeout_ms c) resolved_ip (k, s) of
              (False, ip, k, s) \<Rightarrow> (False, ip, set_os (socket_destroy (Some k) s) c)
            | (True, ip, k, s) \<Rightarrow> (True, actual_ip (ce_os env) k ip,
                set_os (socket_destroy (Some (k\<lparr>sk_fd := -1\<rparr>)) s) (on_conn (\<lambda>n. n\<lparr>socket_fd := sk_fd k\<rparr>) c)))))"

text \<open>TCP and TLS; a failed handshake closes the socket.\<close>

definition tcp_then_tls :: "client_env \<Rightarrow> bytes \<Rightarrow> int \<Rightarrow> bytes \<Rightarrow> client_t \<Rightarrow> err \<times> bytes \<times> client_t" where
  "tcp_then_tls env host port resolved_ip c = (case tcp_attempt env host port resolved_ip c of
     (False, ip, c) \<Rightarrow> (ERR_TCP_CONNECT, ip, c)
   | (True, ip, c) \<Rightarrow> (case perform_tls_handshake env c of
         (e, c) \<Rightarrow> if e = ERR_NONE then (ERR_NONE, ip, c)
           else (e, ip, on_conn (\<lambda>k. (Links.close_fd (socket_fd k) k)\<lparr>socket_fd := -1\<rparr>) c)))"

definition race_fallback :: "client_env \<Rightarrow> bytes \<Rightarrow> int \<Rightarrow> bytes \<Rightarrow> client_t \<Rightarrow> client_t" where
  "race_fallback env host port ip c = (case softether_connect_parallel_race env ip port host (softether_disconnect c) of
     (r, c) \<Rightarrow> if r = 0 \<and> (socket_fd (cl_conn c) < 0 \<or> conn_ssl (cl_conn c) = None) then softether_disconnect c else c)"

definition open_link :: "client_env \<Rightarrow> bytes \<Rightarrow> int \<Rightarrow> bytes \<Rightarrow> client_t \<Rightarrow> bytes \<times> client_t" where
  "open_link env host port resolved_ip c =
     (if udp_only c then (resolved_ip, snd (softether_connect_parallel_race env resolved_ip port host c))
      else (case tcp_then_tls env host port resolved_ip c of
          (e, ip, c) \<Rightarrow> (ip, if e = ERR_NONE then c else race_fallback env host port ip c)))"

definition store_server :: "bytes \<Rightarrow> int \<Rightarrow> client_t \<Rightarrow> client_t" where
  "store_server ip port c = c\<lparr>tun := (tun c)\<lparr>conn_server_ip := snprintf_s 64 ip\<rparr>, server_port := port,
     cl_is_ipv6 := has_colon ip, server_ip_v6 := (if has_colon ip then snprintf_s 128 ip else [])\<rparr>"

text \<open>The login, with the retry over the relay when it was refused on a direct link.\<close>

definition login_over_relay ::
  "client_env \<Rightarrow> bytes \<Rightarrow> bytes \<Rightarrow> bytes \<Rightarrow> bool \<Rightarrow> bytes \<Rightarrow> client_t \<Rightarrow> (err \<times> client_t) run" where
  "login_over_relay env host user pw use_tcp ip c = run_bind (softether_try_nat_t_connect env ip (softether_disconnect c))
     (\<lambda>(e, c). if e \<noteq> ERR_NONE then Finished (e, c)
        else (case perform_tls_handshake env c of
            (e, c) \<Rightarrow> if e \<noteq> ERR_NONE then Finished (e, c) else softether_protocol_login env host user pw use_tcp c))"

definition login :: "client_env \<Rightarrow> bytes \<Rightarrow> bytes \<Rightarrow> bytes \<Rightarrow> bool \<Rightarrow> bytes \<Rightarrow> client_t \<Rightarrow> (err \<times> client_t) run" where
  "login env host user pw use_tcp ip c = run_bind (softether_protocol_login env host user pw use_tcp c)
     (\<lambda>(e, c). if e \<noteq> ERR_NONE \<and> \<not> using_nat_t (tun c) then login_over_relay env host user pw use_tcp ip c
        else Finished (e, c))"

section \<open>After the login\<close>

definition disable_rudp :: "client_t \<Rightarrow> client_t" where
  "disable_rudp = on_conn (\<lambda>k. k\<lparr>conn_rudp_enabled := False\<rparr>)"

definition server_udp_key :: "session_t \<Rightarrow> bytes" where
  "server_udp_key s = (if as_int (rudp_version s) \<ge> 2 \<and> rudp_server_key_v2_size s > 0
     then take (rudp_server_key_v2_size s) (rudp_server_key_v2 s)
     else take (rudp_server_key_size s) (rudp_server_key s))"

definition start_rudp :: "client_env \<Rightarrow> bool \<Rightarrow> client_t \<Rightarrow> client_t" where
  "start_rudp env use_tcp c = (case get_udp c of
     None \<Rightarrow> c
   | Some u \<Rightarrow> if use_tcp \<or> \<not> conn_rudp_enabled (cl_conn c) then c
       else let s = sess c; r = renv (cenv (te env)) in
         if rudp_server_port s = 0 \<or> rudp_server_key_size s = 0 \<and> rudp_server_key_v2_size s = 0 then disable_rudp c
         else (case rudp_init_client (ce_os env) (ce_udp env) r (server_udp_key s)
               (if rudp_server_ip s \<noteq> [] then rudp_server_ip s else conn_server_ip (tun c)) (rudp_server_port s)
               (rudp_server_cookie s) (rudp_client_cookie s) (u, cl_world c) of
             (True, u, w) \<Rightarrow> put_udp (Some (u\<lparr>u_ctx := rudp_poll r (rudp_set_version (u_ctx u) (as_int (rudp_version s)))\<rparr>)) w c
           | (False, u, w) \<Rightarrow> disable_rudp (put_udp (Some u) w c)))"

definition choose_session_id :: "client_env \<Rightarrow> client_t \<Rightarrow> client_t" where
  "choose_session_id env c = (let rd = crand (cenv (te env)); i = crnd_i (cl_conn c); s = sess c;
       c = (if conn_session_established (cl_conn c) \<and> session_key_32 s \<noteq> 0 then c\<lparr>session_id := session_key_32 s\<rparr> else c)
     in if session_id c \<noteq> 0 then c
        else (on_conn (\<lambda>k. k\<lparr>crnd_i := i + 2\<rparr>) c)\<lparr>session_id :=
            push_bit 16 (word_of_nat (rd i)) XOR word_of_nat (rd (i + 1))\<rparr>)"

definition clamp_connections :: "u32 \<Rightarrow> int \<Rightarrow> int" where
  "clamp_connections server_max m = (let m = (if 0 < server_max \<and> server_max < word_of_int m then as_int server_max else m)
     in if m > int MAX_SE_CONNECTIONS then int MAX_SE_CONNECTIONS else m)"

definition plan_links :: "client_env \<Rightarrow> client_t \<Rightarrow> client_t" where
  "plan_links env c = (let t = tun c in
     if using_nat_t t then c\<lparr>tun := t\<lparr>max_connection := 1, next_connect_time := 0\<rparr>\<rparr>
     else let (now, k) = tick_now (cenv (te env)) (tc t)
       in c\<lparr>tun := t\<lparr>tc := k, max_connection := clamp_connections (server_max_connection (sess c)) (max_connection t),
              next_connect_time := now + ADDITIONAL_CONNECT_INTERVAL_MS\<rparr>\<rparr>)"

definition finish_connect :: "client_env \<Rightarrow> bool \<Rightarrow> client_t \<Rightarrow> (err \<times> client_t) run" where
  "finish_connect env use_tcp c =
     (let c = choose_session_id env (set_state STATE_SESSION_SETUP (start_rudp env use_tcp c));
          c = plan_links env (set_state STATE_CONNECTED c) in
      if socket_fd (cl_conn c) < 0 then Finished (ERR_TCP_CONNECT, softether_disconnect c)
      else if half_connection (sess c) = 0 then Finished (ERR_NONE, c)
      else (case softether_establish_first_additional (te env) (tun c) of
          Ret (_, t) \<Rightarrow> Finished (ERR_NONE, c\<lparr>tun := t\<rparr>)
        | _ \<Rightarrow> Faulted))"

definition connect_resolved :: "client_env \<Rightarrow> connect_args \<Rightarrow> bytes \<Rightarrow> bytes \<Rightarrow> bytes \<Rightarrow> bytes \<Rightarrow> client_t \<Rightarrow> (err \<times> client_t) run" where
  "connect_resolved env a host user pw resolved_ip c = (case open_link env host (a_port a) resolved_ip c of
     (ip, c) \<Rightarrow> run_bind (login env host user pw (a_use_tcp a) ip (store_server ip (a_port a) c))
        (\<lambda>(e, c). if e \<noteq> ERR_NONE then Finished (e, softether_disconnect c) else finish_connect env (a_use_tcp a) c))"

definition softether_connect_with_hub :: "client_env \<Rightarrow> connect_args \<Rightarrow> client_t \<Rightarrow> (err \<times> client_t) run" where
  "softether_connect_with_hub env a c = (case (a_host a, a_username a, a_password a) of
     (Some host, Some user, Some pw) \<Rightarrow> (let c = begin_connect a c in
       case resolve_hostname (ce_os env) (Some host) 64 (cl_os c) of
         (None, s) \<Rightarrow> Finished (ERR_TCP_CONNECT, set_state STATE_DISCONNECTED (set_os s c))
       | (Some resolved_ip, s) \<Rightarrow> connect_resolved env a host user pw resolved_ip (set_os s c))
   | _ \<Rightarrow> Finished (ERR_UNKNOWN, c))"

definition softether_connect :: "client_env \<Rightarrow> bytes option \<Rightarrow> int \<Rightarrow> bytes option \<Rightarrow> bytes option \<Rightarrow> client_t \<Rightarrow> (err \<times> client_t) run" where
  "softether_connect env host port user pw = softether_connect_with_hub env \<lparr>a_host = host, a_port = port,
     a_username = user, a_password = pw, a_hub_name = Some (lit ''vpngate''), a_use_tcp = True, a_info = zero_info\<rparr>"

definition softether_reconnect :: "client_env \<Rightarrow> client_t \<Rightarrow> (err \<times> client_t) run" where
  "softether_reconnect env c =
     (if conn_server_ip (tun c) = [] \<or> username c = [] then Finished (ERR_UNKNOWN, c)
      else let c = softether_disconnect c in softether_connect_with_hub env \<lparr>a_host = Some (conn_server_ip (tun c)),
        a_port = server_port c, a_username = Some (username c), a_password = Some (password c),
        a_hub_name = Some (cl_hub_name c), a_use_tcp = True, a_info = zero_info\<rparr> c)"

end
