(* ===== verification/Connect_Result.thy ===== *)
theory Connect_Result
  imports Connect
begin

text \<open>
  What a connect ends in: a session that is up, or a connection that holds nothing, with
  the one path on which it does hold something; and what disconnecting gives back.
\<close>

section \<open>What a connection holds\<close>

definition up :: "client_t \<Rightarrow> bool" where
  "up c \<longleftrightarrow> \<not> state_down (cl_conn c)"

definition released :: "client_t \<Rightarrow> bool" where
  "released c \<longleftrightarrow> socket_fd (cl_conn c) < 0 \<and> conn_ssl (cl_conn c) = None \<and> conn_ssl_ctx (cl_conn c) = None \<and>
     cl_transport c = None \<and> \<not> using_nat_t (tun c) \<and> conn_rudp (cl_conn c) = None \<and> cl_enc c = None \<and> cl_dec c = None"

text \<open>\<^verbatim>\<open>ssl\<close> and \<^verbatim>\<open>ssl_ctx\<close> are the same pointer.\<close>

definition paired :: "client_t \<Rightarrow> bool" where
  "paired c \<longleftrightarrow> conn_ssl (cl_conn c) = conn_ssl_ctx (cl_conn c)"

lemma released_paired: "released c \<Longrightarrow> paired c"
  by (simp add: released_def paired_def)

lemmas link_defs = on_conn_def set_state_def up_def released_def paired_def state_down_def

lemma close_additional_keeps [simp]:
  "cstate (tc (softether_close_additional t)) = cstate (tc t)" "socket_fd (tc (softether_close_additional t)) = socket_fd (tc t)"
  "conn_ssl (tc (softether_close_additional t)) = conn_ssl (tc t)"
  "conn_ssl_ctx (tc (softether_close_additional t)) = conn_ssl_ctx (tc t)"
  by (simp_all add: softether_close_additional_def join_thread_def Let_def)

lemma disconnect_links:
  assumes "\<not> state_down (tc t)"
  shows "cstate (tc (close_links t)) = STATE_DISCONNECTED" "socket_fd (tc (close_links t)) < 0"
    "conn_ssl (tc t) = conn_ssl_ctx (tc t) \<Longrightarrow> conn_ssl (tc (close_links t)) = None \<and>
      conn_ssl_ctx (tc (close_links t)) = None"
    "conn_rudp (tc (close_links t)) = None" "\<not> using_nat_t (close_links t)"
proof -
  have j: "tc (join_thread t) = tc t" for t by (simp add: join_thread_def)
  show "cstate (tc (close_links t)) = STATE_DISCONNECTED" "socket_fd (tc (close_links t)) < 0"
    "conn_ssl (tc t) = conn_ssl_ctx (tc t) \<Longrightarrow> conn_ssl (tc (close_links t)) = None \<and>
      conn_ssl_ctx (tc (close_links t)) = None"
    "conn_rudp (tc (close_links t)) = None" "\<not> using_nat_t (close_links t)"
    using assms
    by (auto simp: close_links_def Let_def j destroy_primary_def close_primary_def split: option.split)
qed

lemma disconnect_down: "\<not> up c \<Longrightarrow> softether_disconnect c = c"
  by (simp add: softether_disconnect_def up_def)

lemma disconnect_up:
  assumes "up c"
  shows "cstate (cl_conn (softether_disconnect c)) = STATE_DISCONNECTED" "paired c \<Longrightarrow> released (softether_disconnect c)"
    "udp_only (softether_disconnect c) = udp_only c"
  using disconnect_links [of "tun c"] assms
  by (auto simp: softether_disconnect_def link_defs put_udp_def release_transport_def take_nat_t_transport_def
      adopt_transport_def set_transport_def Let_def split: option.splits)

section \<open>The steps of a connect\<close>

lemma http_exchange_keeps:
  assumes "http_exchange n req c = (r, c')"
  shows "\<exists>a b. c' = on_conn (\<lambda>k. k\<lparr>txs := b, rxs := a\<rparr>) c"
proof -
  obtain ok k where w: "write_once (socket_fd (cl_conn c)) req (cl_conn c) = (ok, k)" by (rule prod.exhaust)
  obtain b where k: "k = (cl_conn c)\<lparr>txs := b\<rparr>" using w by (auto simp: write_once_def Let_def split: prod.splits)
  have "\<exists>a. c' = on_conn (\<lambda>_. k\<lparr>rxs := a\<rparr>) c"
    using assms w by (auto simp: http_exchange_def set_rx_def Let_def split: if_splits prod.splits)
      (rule exI [of _ "rxs k"], simp)
  then show ?thesis by (auto simp: on_conn_def k)
qed

text \<open>The handles of the primary connection, and what else decides the way through the code.\<close>

definition handles :: "client_t \<Rightarrow> int \<times> nat option \<times> nat option \<times> rudp_transport option" where
  "handles c = (socket_fd (cl_conn c), conn_ssl (cl_conn c), conn_ssl_ctx (cl_conn c), cl_transport c)"

definition same_mode :: "client_t \<Rightarrow> client_t \<Rightarrow> bool" where
  "same_mode c' c \<longleftrightarrow> using_nat_t (tun c') = using_nat_t (tun c) \<and> udp_only c' = udp_only c"

lemma same_mode_trans: "same_mode a b \<Longrightarrow> same_mode b c \<Longrightarrow> same_mode a c"
  by (simp add: same_mode_def)

lemmas way_defs = handles_def same_mode_def

lemma tls_result:
  assumes "perform_tls_handshake env c = (e, c')" "0 \<le> socket_fd (cl_conn c)"
    "conn_ssl (cl_conn c) = None" "conn_ssl_ctx (cl_conn c) = None"
  shows "up c' \<and> same_mode c' c \<and> socket_fd (cl_conn c') = socket_fd (cl_conn c) \<and> cl_transport c' = cl_transport c \<and>
    conn_rudp (cl_conn c') = conn_rudp (cl_conn c) \<and> cl_enc c' = cl_enc c \<and> cl_dec c' = cl_dec c \<and> paired c' \<and>
    (if e = ERR_NONE then conn_ssl (cl_conn c') \<noteq> None else e = ERR_TLS_HANDSHAKE \<and> conn_ssl (cl_conn c') = None)"
  using assms
  by (auto simp: perform_tls_handshake_def link_defs way_defs Let_def split: if_splits option.splits)

lemma watermark_answer_keeps:
  "tun (snd (watermark_answer h body c)) = tun c" "cl_transport (snd (watermark_answer h body c)) = cl_transport c"
  "udp_only (snd (watermark_answer h body c)) = udp_only c" "cl_enc (snd (watermark_answer h body c)) = cl_enc c"
  "cl_dec (snd (watermark_answer h body c)) = cl_dec c"
  by (simp_all add: watermark_answer_def store_random_def Let_def split: option.split)

text \<open>Nothing but the streams and the server's random has changed.\<close>

definition same_link :: "client_t \<Rightarrow> client_t \<Rightarrow> bool" where
  "same_link c' c \<longleftrightarrow> handles c' = handles c \<and> same_mode c' c \<and> cstate (cl_conn c') = cstate (cl_conn c) \<and>
    conn_rudp (cl_conn c') = conn_rudp (cl_conn c) \<and> cl_enc c' = cl_enc c \<and> cl_dec c' = cl_dec c"

lemma same_link_exchange: "http_exchange n req c = (x, c') \<Longrightarrow> same_link c' c"
  by (drule http_exchange_keeps) (auto simp: same_link_def way_defs on_conn_def)

lemma same_link_answer: "same_link (snd (watermark_answer h body c)) c"
  by (simp add: same_link_def way_defs watermark_answer_keeps)

lemma same_link_trans: "same_link a b \<Longrightarrow> same_link b c \<Longrightarrow> same_link a c"
  by (simp add: same_link_def same_mode_def)

lemma watermark_result:
  assumes "send_vpnconnect_watermark env host c = Finished (r, c')"
  shows "same_link c' c" "0 \<le> r \<Longrightarrow> conn_ssl (cl_conn c) \<noteq> None"
proof -
  show "conn_ssl (cl_conn c) \<noteq> None" if "0 \<le> r"
    using assms that by (auto simp: send_vpnconnect_watermark_def split: if_splits)
  show "same_link c' c"
  proof (cases "conn_ssl (cl_conn c) = None \<or> \<not> can_alloc (cl_heap env) (length (vpnconnect_head host) + 10)")
    case True
    then show ?thesis using assms by (auto simp: send_vpnconnect_watermark_def same_link_def same_mode_def split: if_splits)
  next
    case False
    then obtain req where req: "watermark_request host = Ret req"
      using assms by (auto simp: send_vpnconnect_watermark_def split: outcome.splits)
    obtain x c1 where x: "http_exchange 4096 req c = (x, c1)" by (rule prod.exhaust)
    note c1 = same_link_exchange [OF x]
    show ?thesis
    proof (cases x)
      case (Ret hb)
      obtain h body where hb: "hb = (h, body)" by (rule prod.exhaust)
      have "watermark_answer h body c1 = (r, c')"
        using assms False req x Ret hb by (auto simp: send_vpnconnect_watermark_def)
      then show ?thesis using same_link_trans [OF same_link_answer [of h body c1] c1] by simp
    qed (use assms False req x c1 in \<open>auto simp: send_vpnconnect_watermark_def\<close>)
  qed
qed

text \<open>
  The login exchange: whatever it comes to, the connection is in a state that a disconnect
  takes down, and its handles are those it had.
\<close>

lemma login_answer_keeps:
  assumes "login_answer h body c = (e, c')"
  shows "handles c' = handles c \<and> same_mode c' c \<and> cstate (cl_conn c') = cstate (cl_conn c) \<and>
    (e = ERR_NONE \<longrightarrow> conn_session_established (cl_conn c'))"
  using assms
  by (auto simp: login_answer_def login_store_def store_conn_def on_conn_def way_defs process_login_response_def Let_def
      split: prod.splits if_splits)

lemma authentication_result:
  assumes "perform_authentication_http env user pw c = Finished (e, c')"
  shows "handles c' = handles c \<and> same_mode c' c \<and> cstate (cl_conn c') = STATE_AUTHENTICATING \<and>
    (e = ERR_NONE \<longrightarrow> conn_session_established (cl_conn c'))"
proof -
  let ?c = "store_credentials user pw c"
  have s: "handles ?c = handles c" "same_mode ?c c" "cstate (cl_conn ?c) = STATE_AUTHENTICATING"
    by (simp_all add: store_credentials_def link_defs way_defs)
  have x: "handles c1 = handles c \<and> same_mode c1 c \<and> cstate (cl_conn c1) = STATE_AUTHENTICATING"
    if "http_exchange 8192 req ?c = (r, c1)" for req r c1
    using same_link_exchange [OF that] s by (auto simp: same_link_def same_mode_def)
  show ?thesis using assms s
    by (auto simp: perform_authentication_http_def Let_def split: outcome.splits if_splits option.splits prod.splits
        dest!: x login_answer_keeps intro: same_mode_trans)
qed

lemma open_rudp_keeps:
  "open_rudp env c = Finished c' \<Longrightarrow> handles c' = handles c \<and> same_mode c' c \<and> cstate (cl_conn c') = cstate (cl_conn c)"
  by (auto simp: open_rudp_def put_udp_def on_conn_def way_defs split: option.splits prod.splits bool.splits if_splits)

lemma protocol_login_result:
  assumes "softether_protocol_login env host user pw use_tcp c = Finished (e, c')"
  shows "handles c' = handles c \<and> same_mode c' c \<and>
    (if e = ERR_NONE then conn_ssl (cl_conn c) \<noteq> None \<and> up c' \<and> conn_session_established (cl_conn c')
     else e = ERR_TLS_HANDSHAKE \<and> same_link c' c \<or> up c')"
proof -
  obtain r c1 where w: "send_vpnconnect_watermark env host c = Finished (r, c1)"
    using assms by (auto simp: softether_protocol_login_def run_bind_Finished)
  note w1 = watermark_result [OF w]
  show ?thesis
  proof (cases "r < 0")
    case True
    then have "e = ERR_TLS_HANDSHAKE" "c' = c1" using assms w by (simp_all add: softether_protocol_login_def)
    then show ?thesis using w1(1) by (simp add: same_link_def)
  next
    case False
    then obtain c2 where c2: "(if \<not> use_tcp \<and> \<not> using_nat_t (tun c1) then open_rudp env c1
            else Finished (on_conn (\<lambda>k. k\<lparr>conn_rudp := None\<rparr>) c1)) = Finished c2"
      and a: "perform_authentication_http env user pw c2 = Finished (e, c')"
      using assms w by (auto simp: softether_protocol_login_def run_bind_Finished)
    have "handles c2 = handles c1 \<and> same_mode c2 c1"
      using c2 open_rudp_keeps [of env c1 c2] by (auto simp: on_conn_def way_defs split: if_splits)
    then show ?thesis
      using authentication_result [OF a] w1 False
      by (auto simp: same_link_def same_mode_def up_def state_down_def)
  qed
qed

section \<open>The links\<close>

text \<open>
  What the environment promises: when the race has a winner, the state it ends in is one
  that the threads can reach; the calls of the relay's transport behave as those of the
  race's threads.
\<close>

definition race_legal :: "client_env \<Rightarrow> bool" where
  "race_legal env \<longleftrightarrow> (\<forall>ctxs i. r_main (ce_race env ctxs) = Done (Some i) \<longrightarrow>
     (\<exists>envs. (\<forall>j. env_ok (envs j)) \<and> race_runs envs ctxs (ce_race env ctxs)))"

definition relay_ok :: "client_env \<Rightarrow> bool" where
  "relay_ok env \<longleftrightarrow> fds_valid (ce_calls env) \<and> nonblock_ok (ce_calls env) \<and> pair_nonblock_ok (ce_calls env) \<and>
     (\<forall>fd. nt_socket (ce_nat env) = Some fd \<longrightarrow> 0 \<le> fd)"

text \<open>A link that another part of the program has set up: open, secured, over a transport.\<close>

definition promoted :: "client_t \<Rightarrow> bool" where
  "promoted c \<longleftrightarrow> (\<exists>tr x. udp_live tr \<and> cl_transport c = Some tr \<and> using_nat_t (tun c) \<and> socket_fd (cl_conn c) = app_fd tr \<and>
     conn_ssl (cl_conn c) = Some x \<and> conn_ssl_ctx (cl_conn c) = Some x)"

lemma race_types: "ctx \<in> set (race_contexts udp ms ip port host) \<Longrightarrow> tx_type ctx \<noteq> TRANSPORT_TCP"
  by (auto simp: race_contexts_def Let_def split: if_splits)

text \<open>A thread that is not the TCP one links over a transport, and publishes it when it succeeds.\<close>

definition udp_thread :: "tthread \<Rightarrow> bool" where
  "udp_thread th \<longleftrightarrow> (case t_stage th of
     Over \<Rightarrow> r_ok (t_res th) \<longrightarrow> r_transport (t_res th) \<noteq> None
   | Flagged l x \<Rightarrow> link_transport l \<noteq> None
   | Linked l \<Rightarrow> link_transport l \<noteq> None \<and> \<not> r_ok (t_res th)
   | Securing l \<Rightarrow> link_transport l \<noteq> None \<and> \<not> r_ok (t_res th)
   | Claiming l x \<Rightarrow> link_transport l \<noteq> None \<and> \<not> r_ok (t_res th)
   | Claimed l x \<Rightarrow> link_transport l \<noteq> None \<and> \<not> r_ok (t_res th)
   | _ \<Rightarrow> \<not> r_ok (t_res th))"

lemma drop_race_link_res [simp]: "t_res (drop_race_link env l th) = t_res th"
  by (cases l) (simp_all add: destroy_transport_def)

lemma udp_thread_give_up: "\<not> r_ok (t_res th) \<Longrightarrow> udp_thread (give_up e th)"
  by (simp add: udp_thread_def give_up_def)

lemma udp_thread_finish:
  assumes "udp_thread th"
  shows "udp_thread (finish_thread env c th)"
proof (cases "t_stage th")
  case (Linked l)
  then show ?thesis using assms by (auto simp: finish_thread_def look_after_def udp_thread_def give_up_def)
next
  case (Securing l)
  then show ?thesis using assms
    by (auto simp: finish_thread_def secure_def udp_thread_def give_up_def Let_def split: option.split)
next
  case (Claiming l x)
  then show ?thesis using assms by (auto simp: finish_thread_def claim_def udp_thread_def)
next
  case (Claimed l x)
  then show ?thesis using assms by (auto simp: finish_thread_def flag_ok_def udp_thread_def)
next
  case (Flagged l x)
  then show ?thesis using assms by (auto simp: finish_thread_def publish_def udp_thread_def)
qed (use assms in \<open>simp_all add: finish_thread_def\<close>)

lemma udp_thread_open: "\<not> r_ok (t_res th) \<Longrightarrow> udp_thread (open_transport env cfg given tr th)"
  by (auto simp: open_transport_def destroy_transport_def give_up_def udp_thread_def split: prod.split)

lemma udp_thread_dial: "\<not> r_ok (t_res th) \<Longrightarrow> udp_thread (udp_dial env ctx port mode th)"
  by (auto simp: udp_dial_def udp_thread_open udp_thread_give_up split: option.split)

lemma udp_thread_start:
  "udp_thread (begin_thread ty th)" "\<not> r_ok (t_res th) \<Longrightarrow> udp_thread (look_before c th)"
  by (simp_all add: udp_thread_def begin_thread_def result0_def look_before_def)

lemma udp_thread_meet: "\<not> r_ok (t_res th) \<Longrightarrow> t_stage th = Dialing \<Longrightarrow> udp_thread (natt_meet env ctx th)"
  by (auto simp: natt_meet_def udp_thread_def give_up_def split: option.split outcome.split prod.split)

lemma udp_thread_pair: "\<not> r_ok (t_res th) \<Longrightarrow> udp_thread (natt_pair env ctx res opn th)"
  by (auto simp: natt_pair_def natt_abandon_def udp_thread_open udp_thread_give_up split: option.split)

lemma udp_thread_met:
  "\<not> r_ok (t_res th) \<Longrightarrow> udp_thread (natt_abandon res opn th)" "\<not> r_ok (t_res th) \<Longrightarrow> udp_thread (th\<lparr>t_stage := Pairing res opn\<rparr>)"
  by (simp_all add: natt_abandon_def udp_thread_give_up) (simp add: udp_thread_def)

lemma udp_thread_step:
  assumes "udp_thread th" "ty \<noteq> TRANSPORT_TCP"
  shows "udp_thread (thread_func ty env ctx c th)"
proof -
  have ok: "\<not> r_ok (t_res th)" if "t_stage th \<in> {Begun, Asleep, Dialing} \<or> (\<exists>r opn. t_stage th = Met r opn \<or> t_stage th = Pairing r opn)"
    using assms(1) that by (auto simp: udp_thread_def)
  note rules = udp_thread_finish [OF assms(1)] udp_thread_start udp_thread_dial udp_thread_meet udp_thread_pair udp_thread_give_up
    udp_thread_met
  show ?thesis
  proof (cases ty)
    case TRANSPORT_RUDP_DIRECT
    then show ?thesis using ok rules
      by (cases "t_stage th") (simp_all add: transport_thread_rudp_direct_def Let_def, simp add: begin_thread_def result0_def)
  next
    case TRANSPORT_NATT
    then show ?thesis using ok rules
      by (cases "t_stage th") (simp_all add: transport_thread_natt_def)
  next
    case TRANSPORT_DNS
    then show ?thesis using ok rules by (cases "t_stage th") (simp_all add: transport_thread_dns_def)
  next
    case TRANSPORT_ICMP
    then show ?thesis using ok rules by (cases "t_stage th") (simp_all add: transport_thread_icmp_def)
  qed (use assms(2) in simp)
qed

lemma udp_thread_runs:
  assumes "race_runs envs ctxs R" "i < length ctxs" "tx_type (ctxs ! i) \<noteq> TRANSPORT_TCP"
  shows "udp_thread (r_threads R ! i)"
proof -
  have "length (r_threads R) = length ctxs \<and> udp_thread (r_threads R ! i)"
    using assms(1) unfolding race_runs_def
  proof (induction rule: rtranclp_induct)
    case base
    show ?case using assms(2) by (simp add: race0_def thread0_def result0_def udp_thread_def)
  next
    case (step Q Q')
    from step(2) show ?case
    proof cases
      case (thread k)
      then show ?thesis using step(3) assms(2,3) udp_thread_step by (cases "k = i") simp_all
    qed (use step(3) in simp_all)
  qed
  then show ?thesis by blast
qed

lemma race_winner:
  assumes "race_legal env" "r_main (ce_race env ctxs) = Done (Some i)" "ctxs = race_contexts udp ms ip port host"
  shows "\<exists>tr x. udp_live tr \<and> r_socket_fd (t_res (r_threads (ce_race env ctxs) ! i)) = app_fd tr \<and>
    r_transport (t_res (r_threads (ce_race env ctxs) ! i)) = Some tr \<and>
    r_ssl (t_res (r_threads (ce_race env ctxs) ! i)) = Some x \<and> r_ssl_ctx (t_res (r_threads (ce_race env ctxs) ! i)) = Some x"
proof -
  let ?R = "ce_race env ctxs" and ?th = "r_threads (ce_race env ctxs) ! i"
  obtain envs where e: "\<forall>j. env_ok (envs j)" "race_runs envs ctxs ?R" using assms(1,2) by (auto simp: race_legal_def)
  have inv: "race_inv ctxs ?R" using race_inv_runs [OF _ race_inv_start e(1)] e(2) by (simp add: race_runs_def)
  then have i: "i < length ctxs" and w: "seen_ok ?th" using assms(2) by (auto simp: race_inv_def choice_def)
  then have over: "t_stage ?th = Over" using inv assms(2) by (simp add: race_inv_def)
  have "racer_ok ?th" using inv i by (simp add: race_inv_def)
  then obtain l x where l: "published ?th l x" using over w by (auto simp: racer_ok_def seen_ok_def)
  have "tx_type (ctxs ! i) \<noteq> TRANSPORT_TCP" using race_types [of "ctxs ! i" udp ms ip port host] i assms(3) by simp
  from udp_thread_runs [OF e(2) i this] have "r_transport (t_res ?th) \<noteq> None"
    using over w by (simp add: udp_thread_def seen_ok_def)
  then show ?thesis using l by (cases l) (auto simp: published_def rudp_transport_get_fd_def)
qed

lemma race_result:
  assumes "race_legal env" "softether_connect_parallel_race env ip port host c = (r, c')" "cl_transport c = None"
  shows "r = -1 \<and> c' = c \<or> r = 0 \<and> promoted c' \<and> cstate (cl_conn c') = cstate (cl_conn c) \<and>
    conn_rudp (cl_conn c') = conn_rudp (cl_conn c) \<and> cl_enc c' = cl_enc c \<and> cl_dec c' = cl_dec c \<and> udp_only c' = udp_only c"
proof -
  let ?ctxs = "race_contexts (udp_port c) (timeout_ms c) ip port host"
  show ?thesis
  proof (cases "\<exists>i. r_main (ce_race env ?ctxs) = Done (Some i)")
    case True
    then obtain i where i: "r_main (ce_race env ?ctxs) = Done (Some i)" by blast
    from race_winner [OF assms(1) i refl] assms(2) i show ?thesis
      by (auto simp: softether_connect_parallel_race_def Let_def promote_def adopt_transport_def set_transport_def on_conn_def promoted_def)
  next
    case False
    then show ?thesis using assms(2)
      by (auto simp: softether_connect_parallel_race_def Let_def split: main_stage.splits option.splits)
  qed
qed

lemma promoted_facts:
  "promoted c \<Longrightarrow> paired c \<and> 0 \<le> socket_fd (cl_conn c) \<and> conn_ssl (cl_conn c) \<noteq> None \<and> using_nat_t (tun c) \<and> cl_transport c \<noteq> None"
  by (auto simp: promoted_def paired_def udp_live_def)

text \<open>The relay: a link over a transport, not secured yet, or nothing.\<close>

lemma relay_result:
  assumes "relay_ok env" "softether_try_nat_t_connect env ip c = Finished (e, c')" "released c"
  shows "udp_only c' = udp_only c \<and> cstate (cl_conn c') = cstate (cl_conn c) \<and> cl_left c' = cl_left c \<and>
    (if e = ERR_NONE then \<exists>tr. udp_live tr \<and> cl_transport c' = Some tr \<and> socket_fd (cl_conn c') = app_fd tr \<and>
        using_nat_t (tun c') \<and> conn_ssl (cl_conn c') = None \<and> conn_ssl_ctx (cl_conn c') = None \<and>
        conn_rudp (cl_conn c') = None \<and> cl_enc c' = None \<and> cl_dec c' = None
     else e = ERR_TCP_CONNECT \<and> released c')"
proof (cases "inet_pton ip")
  case None
  then show ?thesis using assms by (auto simp: softether_try_nat_t_connect_def)
next
  case (Some ip4)
  let ?n = "nat_t_connect (ce_fuel env) (ce_nat env) ip4 (Some NAT_T_SVC_NAME) (unat (word_of_int (timeout_ms c) :: u32))"
  have svc: "svc_ok (svc_of (Some NAT_T_SVC_NAME))" by (simp add: svc_ok_def svc_of_def NAT_T_SVC_NAME_def lit_def)
  obtain res where res: "?n = Some res" using assms(2) Some by (cases ?n) (auto simp: softether_try_nat_t_connect_def)
  obtain r st where st: "res = Ret (r, st)" "r \<noteq> 0 \<Longrightarrow> nt_open st = []"
    "r = 0 \<Longrightarrow> result_ip (nr st) \<noteq> 0 \<and> result_port (nr st) \<noteq> 0 \<and>
       (if same_lan (nr st) \<noteq> 0 then nat_udp_fd (nr st) = -1 \<and> nt_open st = []
        else nt_socket (ce_nat env) = Some (nat_udp_fd (nr st)) \<and> nt_open st = [nat_udp_fd (nr st)])"
    using connect_result [OF svc res] by auto
  show ?thesis
  proof (cases "r = 0")
    case False
    then show ?thesis using assms res st Some
      by (auto simp: softether_try_nat_t_connect_def relay_failed_def released_def)
  next
    case True
    note ok = st(3) [OF True]
    have rs: "relay_session env (nr st) (nt_open st) c = Finished (e, c')"
      using assms(2) res st(1) True Some by (simp add: softether_try_nat_t_connect_def)
    have fd: "same_lan (nr st) = 0 \<Longrightarrow> 0 \<le> nat_udp_fd (nr st)" using ok assms(1) by (auto simp: relay_ok_def)
    show ?thesis
    proof (cases "rudp_transport_create (ce_alloc env)")
      case None
      then show ?thesis using rs assms(3) ok fd
        by (auto simp: relay_session_def relay_failed_def released_def split: if_splits)
    next
      case (Some tr)
      let ?cfg = "udp_config (result_ip (nr st)) (result_port (nr st)) (if same_lan (nr st) \<noteq> 0 then -1 else nat_udp_fd (nr st))
            (word_of_int (timeout_ms c)) RUDP_T_MODE_UDP"
      obtain q t' where q: "rudp_transport_connect (ce_rt env) (ce_calls env) ?cfg
          (tr\<lparr>open_fds := nt_open st, udp_in := ce_arrive env\<rparr>) = (q, t')" by (rule prod.exhaust)
      have "q = 0 \<and> udp_live t' \<or> q = -1 \<and> fds t' = (-1, -1, -1, [], False)"
        by (rule fresh_connect [OF Some _ _ _ _ q]) (use assms(1) ok fd in \<open>auto simp: relay_ok_def udp_config_def\<close>)
      then show ?thesis
      proof
        assume "q = 0 \<and> udp_live t'"
        then show ?thesis using rs Some q assms(3)
          by (auto simp: relay_session_def Let_def on_conn_def adopt_transport_def set_transport_def rudp_transport_get_fd_def released_def)
      next
        assume "q = -1 \<and> fds t' = (-1, -1, -1, [], False)"
        then show ?thesis using rs Some q assms(3) destroy_closed [of t' "ce_rt env"]
          by (auto simp: relay_session_def relay_failed_def released_def)
      qed
    qed
  qed
qed

text \<open>The TCP attempt: a connected socket, or nothing but the state of the system has changed.\<close>

lemma dial_both_fd:
  assumes "tcp_dial_both env host port ms ip ks = (True, ip', k', s')"
  shows "0 \<le> sk_fd k'"
  using assms connect_fd
  by (auto simp: tcp_dial_both_def split: prod.splits if_splits option.splits)

lemma tcp_attempt_result:
  assumes "tcp_attempt env host port ip c = (ok, ip', c')"
  shows "\<exists>fd s. c' = set_os s (if ok then on_conn (\<lambda>k. k\<lparr>socket_fd := fd\<rparr>) c else c) \<and> (ok \<longrightarrow> 0 \<le> fd)"
proof (cases "ce_force_nat_t env")
  case True
  then show ?thesis using assms by (auto simp: tcp_attempt_def set_os_def intro!: exI [of _ "cl_os c"])
next
  case False
  obtain sk s where k: "socket_create (ce_os env) SOCKET_TYPE_TCP (cl_os c) = (sk, s)" by (rule prod.exhaust)
  show ?thesis
  proof (cases sk)
    case None
    then show ?thesis using assms False k by (auto simp: tcp_attempt_def)
  next
    case (Some q)
    obtain b ip1 q1 s1 where d: "tcp_dial_both (ce_os env) host port (timeout_ms c) ip (q, s) = (b, ip1, q1, s1)"
      by (metis prod_cases4)
    then show ?thesis using assms False k Some dial_both_fd [of "ce_os env" host port "timeout_ms c" ip "(q, s)" ip1 q1 s1]
      by (cases b) (auto simp: tcp_attempt_def)
  qed
qed

definition quiet_link :: "client_t \<Rightarrow> bool" where
  "quiet_link c \<longleftrightarrow> conn_rudp (cl_conn c) = None \<and> cl_enc c = None \<and> cl_dec c = None"

lemma tcp_tls_result:
  assumes "tcp_then_tls env host port ip c = (e, ip', c')" "released c" "up c"
  shows "up c'" "paired c'" "quiet_link c'" "udp_only c' = udp_only c" "\<not> using_nat_t (tun c')" "cl_transport c' = None"
proof -
  obtain ok ip1 c1 where t: "tcp_attempt env host port ip c = (ok, ip1, c1)" by (metis prod_cases3)
  have c1: "conn_ssl (cl_conn c1) = None" "conn_ssl_ctx (cl_conn c1) = None" "quiet_link c1" "up c1" "udp_only c1 = udp_only c"
    "\<not> using_nat_t (tun c1)" "cl_transport c1 = None" "ok \<longrightarrow> 0 \<le> socket_fd (cl_conn c1)"
  proof -
    obtain fd s where r: "c1 = set_os s (if ok then on_conn (\<lambda>k. k\<lparr>socket_fd := fd\<rparr>) c else c)" "ok \<longrightarrow> 0 \<le> fd"
      using tcp_attempt_result [OF t] by blast
    show "conn_ssl (cl_conn c1) = None" "conn_ssl_ctx (cl_conn c1) = None" "quiet_link c1" "up c1" "udp_only c1 = udp_only c"
      "\<not> using_nat_t (tun c1)" "cl_transport c1 = None" "ok \<longrightarrow> 0 \<le> socket_fd (cl_conn c1)"
      using assms(2,3) r(2) unfolding r(1) by (simp_all add: link_defs set_os_def quiet_link_def)
  qed
  have "up c' \<and> paired c' \<and> quiet_link c' \<and> udp_only c' = udp_only c \<and> \<not> using_nat_t (tun c') \<and> cl_transport c' = None"
  proof (cases ok)
    case False
    then show ?thesis using assms(1) t c1 by (simp add: tcp_then_tls_def paired_def)
  next
    case True
    obtain e2 c2 where h: "perform_tls_handshake env c1 = (e2, c2)" by (rule prod.exhaust)
    have c2: "up c2" "paired c2" "quiet_link c2" "udp_only c2 = udp_only c" "\<not> using_nat_t (tun c2)" "cl_transport c2 = None"
      using tls_result [OF h _ c1(1,2)] True c1(3-8) by (auto simp: quiet_link_def same_mode_def)
    show ?thesis
    proof (cases "e2 = ERR_NONE")
      case True
      then show ?thesis using assms(1) t h \<open>ok\<close> c2 by (simp add: tcp_then_tls_def)
    next
      case False
      then have "c' = on_conn (\<lambda>k. (Links.close_fd (socket_fd k) k)\<lparr>socket_fd := -1\<rparr>) c2"
        using assms(1) t h \<open>ok\<close> by (simp add: tcp_then_tls_def)
      then show ?thesis using c2 by (auto simp: link_defs quiet_link_def Links.close_fd_def)
    qed
  qed
  then show "up c'" "paired c'" "quiet_link c'" "udp_only c' = udp_only c" "\<not> using_nat_t (tun c')" "cl_transport c' = None"
    by blast+
qed

text \<open>
  Where a connect stands before the login: with a link in a state that can be taken down,
  with nothing, or with a link that the race has put into a connection already marked as
  disconnected.
\<close>

abbreviation halted :: "client_t \<Rightarrow> bool" where "halted c \<equiv> cstate (cl_conn c) = STATE_DISCONNECTED"

definition stands :: "client_t \<Rightarrow> bool" where
  "stands c \<longleftrightarrow> up c \<and> paired c \<or> halted c \<and> released c \<or> halted c \<and> promoted c \<and> quiet_link c \<and> \<not> udp_only c"

lemma halted_down: "halted c \<Longrightarrow> \<not> up c"
  by (simp add: up_def state_down_def)

lemma open_link_stands:
  assumes "race_legal env" "open_link env host port ip c = (ip', c')" "released c" "up c"
  shows "stands c' \<and> udp_only c' = udp_only c"
proof -
  have tr: "cl_transport c = None" using assms(3) by (simp add: released_def)
  show ?thesis
  proof (cases "udp_only c")
    case True
    obtain r c1 where q: "softether_connect_parallel_race env ip port host c = (r, c1)" by (rule prod.exhaust)
    then have "c' = c1" using assms(2) True by (simp add: open_link_def)
    then show ?thesis
      using race_result [OF assms(1) q tr] assms(3,4) released_paired [OF assms(3)] promoted_facts [of c1]
      by (auto simp: stands_def up_def state_down_def)
  next
    case False
    obtain e ip1 c1 where t: "tcp_then_tls env host port ip c = (e, ip1, c1)" by (metis prod_cases3)
    note c1 = tcp_tls_result [OF t assms(3,4)]
    show ?thesis
    proof (cases "e = ERR_NONE")
      case True
      then have "c' = c1" using assms(2) False t by (simp add: open_link_def)
      then show ?thesis using c1 by (simp add: stands_def)
    next
      case err: False
      let ?d = "softether_disconnect c1"
      have d: "released ?d" "halted ?d" "udp_only ?d = udp_only c"
        using disconnect_up [OF c1(1)] c1(2,4) by auto
      obtain r c2 where q: "softether_connect_parallel_race env ip1 port host ?d = (r, c2)" by (rule prod.exhaust)
      have "cl_transport ?d = None" using d(1) by (simp add: released_def)
      note w = race_result [OF assms(1) q this]
      have c2: "halted c2" using w d(2) by auto
      then have "c' = c2"
        using assms(2) False t err q disconnect_down [OF halted_down [OF c2]] by (auto simp: open_link_def race_fallback_def)
      then show ?thesis using c2 w d False by (auto simp: stands_def released_def quiet_link_def)
    qed
  qed
qed

section \<open>The login\<close>

text \<open>Where a login ends: in a state that can be taken down, with nothing, or as the race left it.\<close>

definition login_ends :: "err \<Rightarrow> client_t \<Rightarrow> bool" where
  "login_ends e c \<longleftrightarrow> (if e = ERR_NONE then up c \<and> paired c \<and> conn_ssl (cl_conn c) \<noteq> None \<and> conn_session_established (cl_conn c)
     else up c \<and> paired c \<or> halted c \<and> released c \<or>
       e = ERR_TLS_HANDSHAKE \<and> halted c \<and> promoted c \<and> quiet_link c \<and> \<not> udp_only c)"

lemma same_link_stands: "same_link c' c \<Longrightarrow> stands c \<Longrightarrow> stands c'"
  by (auto simp: same_link_def handles_def same_mode_def stands_def up_def state_down_def released_def promoted_def quiet_link_def
      paired_def)

lemma handles_paired: "handles c' = handles c \<Longrightarrow> paired c' = paired c"
  by (simp add: handles_def paired_def)

lemma stands_paired: "stands c \<Longrightarrow> paired c"
  using promoted_facts released_paired by (auto simp: stands_def)

text \<open>One login exchange over a link.\<close>

lemma protocol_login_ends:
  assumes "softether_protocol_login env host user pw use_tcp c = Finished (e, c')" "stands c"
  shows "udp_only c' = udp_only c \<and> using_nat_t (tun c') = using_nat_t (tun c) \<and>
    (if e = ERR_NONE then login_ends e c' else stands c' \<and> (e = ERR_TLS_HANDSHAKE \<or> up c'))"
proof -
  note r = protocol_login_result [OF assms(1)]
  have p: "paired c'" using r stands_paired [OF assms(2)] handles_paired by blast
  show ?thesis
  proof (cases "up c'")
    case True
    then show ?thesis using r p by (auto simp: login_ends_def stands_def same_mode_def handles_def)
  next
    case False
    then have "e = ERR_TLS_HANDSHAKE" "same_link c' c" using r by (auto split: if_splits)
    then show ?thesis using same_link_stands [OF _ assms(2)] r by (auto simp: same_mode_def)
  qed
qed

lemma login_over_relay_ends:
  assumes "relay_ok env" "login_over_relay env host user pw use_tcp ip c = Finished (e, c')" "up c \<and> paired c \<or> halted c \<and> released c"
  shows "login_ends e c' \<and> udp_only c' = udp_only c"
proof -
  have d: "halted (softether_disconnect c)" "released (softether_disconnect c)" "udp_only (softether_disconnect c) = udp_only c"
    using assms(3) disconnect_up [of c] disconnect_down [of c] halted_down by auto
  obtain e1 c1 where r: "softether_try_nat_t_connect env ip (softether_disconnect c) = Finished (e1, c1)"
    using assms(2) by (auto simp: login_over_relay_def run_bind_Finished)
  note r1 = relay_result [OF assms(1) r d(2)]
  show ?thesis
  proof (cases "e1 = ERR_NONE")
    case False
    then show ?thesis using assms(2) r r1 d(1,3) by (auto simp: login_over_relay_def login_ends_def)
  next
    case True
    then obtain tr where c1: "udp_live tr" "socket_fd (cl_conn c1) = app_fd tr"
      "conn_ssl (cl_conn c1) = None" "conn_ssl_ctx (cl_conn c1) = None" using r1 by auto
    obtain e2 c2 where h: "perform_tls_handshake env c1 = (e2, c2)" by (rule prod.exhaust)
    have c2: "up c2" "paired c2" "udp_only c2 = udp_only c"
      using tls_result [OF h _ c1(3,4)] c1(1,2) r1 d(3) by (auto simp: udp_live_def same_mode_def)
    show ?thesis
    proof (cases "e2 = ERR_NONE")
      case False
      then show ?thesis using assms(2) r True h c2 by (simp add: login_over_relay_def login_ends_def)
    next
      case ok: True
      then have l: "softether_protocol_login env host user pw use_tcp c2 = Finished (e, c')"
        using assms(2) r True h by (simp add: login_over_relay_def)
      have "handles c' = handles c2" "e = ERR_NONE \<or> up c' \<or> same_link c' c2"
        using protocol_login_result [OF l] by (auto split: if_splits)
      then have "e = ERR_NONE \<or> up c' \<and> paired c'"
        using c2 handles_paired [of c' c2] by (auto simp: same_link_def up_def state_down_def)
      then show ?thesis
        using protocol_login_ends [OF l] c2 by (auto simp: login_ends_def stands_def)
    qed
  qed
qed

lemma login_result:
  assumes "relay_ok env" "login env host user pw use_tcp ip c = Finished (e, c')" "stands c"
  shows "login_ends e c' \<and> udp_only c' = udp_only c"
proof -
  obtain e1 c1 where l: "softether_protocol_login env host user pw use_tcp c = Finished (e1, c1)"
    using assms(2) by (auto simp: login_def run_bind_Finished)
  note l1 = protocol_login_ends [OF l assms(3)]
  show ?thesis
  proof (cases "e1 \<noteq> ERR_NONE \<and> \<not> using_nat_t (tun c1)")
    case True
    then have "login_over_relay env host user pw use_tcp ip c1 = Finished (e, c')"
      using assms(2) l by (simp add: login_def)
    moreover have "up c1 \<and> paired c1 \<or> halted c1 \<and> released c1"
      using l1 True promoted_facts [of c1] by (auto simp: stands_def)
    ultimately show ?thesis using login_over_relay_ends [OF assms(1)] l1 by auto
  next
    case False
    then have "e1 = e" "c1 = c'" using assms(2) l by (auto simp: login_def)
    then show ?thesis using l1 halted_down [of c'] by (auto simp: login_ends_def stands_def split: if_splits)
  qed
qed

section \<open>After the login\<close>

text \<open>The fields that say that a session is up.\<close>

definition session_marks :: "conn_t \<Rightarrow> softether_state_t \<times> int \<times> nat option \<times> nat option \<times> bool" where
  "session_marks k = (cstate k, socket_fd k, conn_ssl k, conn_ssl_ctx k, conn_session_established k)"

lemma marks_exchange:
  "write_once fd bs c = (ok, c') \<Longrightarrow> session_marks c' = session_marks c"
  "read_response b fd c = (r, c') \<Longrightarrow> session_marks c' = session_marks c"
  by (auto simp: write_once_def read_response_def set_rx_def session_marks_def Let_def split: prod.splits)

lemma marks_signature: "link_signature env d ip fd c = (r, c') \<Longrightarrow> session_marks c' = session_marks c"
  by (auto simp: link_signature_def split: if_splits outcome.splits prod.splits dest!: marks_exchange)

lemma marks_auth: "link_auth env d ip k fd c = (r, c') \<Longrightarrow> session_marks c' = session_marks c"
  by (auto simp: link_auth_def split: if_splits outcome.splits prod.splits dest!: marks_exchange)

lemma marks_drop: "drop_link fd x t = (r, t') \<Longrightarrow> session_marks (tc t') = session_marks (tc t) \<and> max_connection t' = max_connection t"
  by (auto simp: drop_link_def link_failed_def Links.close_fd_def session_marks_def Let_def)

lemma marks_adopt: "adopt_link env i fd x dir t = (r, t') \<Longrightarrow> session_marks (tc t') = session_marks (tc t) \<and> max_connection t' = max_connection t"
  by (auto simp: adopt_link_def tick_now_def session_marks_def Let_def)

lemma marks_handshake:
  assumes "link_handshake env d slot fd x t = Ret (r, t')"
  shows "session_marks (tc t') = session_marks (tc t) \<and> max_connection t' = max_connection t"
proof -
  obtain o1 c1 where s: "link_signature env d (conn_server_ip t) fd (tc t) = (o1, c1)" by (rule prod.exhaust)
  obtain o2 c2 where a: "link_auth env d (conn_server_ip t) (conn_session_key t) fd c1 = (o2, c2)" by (rule prod.exhaust)
  show ?thesis
    using assms s a marks_signature [OF s] marks_auth [OF a]
      marks_drop [of fd x "t\<lparr>tc := c1\<rparr>" r t'] marks_drop [of fd x "t\<lparr>tc := c2\<rparr>" r t']
      marks_adopt [of env slot fd x _ "t\<lparr>tc := c2\<rparr>" r t']
    by (auto simp: link_handshake_def split: outcome.splits option.splits)
qed

lemma marks_additional:
  assumes "softether_additional_connect env t = Ret (r, t')"
  shows "session_marks (tc t') = session_marks (tc t) \<and> max_connection t' = max_connection t"
proof -
  let ?t = "t\<lparr>dial_i := dial_i t + 1\<rparr>"
  have h: "session_marks (tc t') = session_marks (tc t) \<and> max_connection t' = max_connection t"
    if "link_handshake env d slot fd x ?t = Ret (r, t')" for d slot fd x using marks_handshake [OF that] by simp
  show ?thesis
    using assms h marks_drop [of _ _ ?t r t']
    by (auto simp: softether_additional_connect_def link_failed_def Links.close_fd_def session_marks_def Let_def
        split: if_splits option.splits)
qed

lemma marks_first_additional:
  assumes "softether_establish_first_additional env t = Ret (r, t')"
  shows "session_marks (tc t') = session_marks (tc t) \<and> max_connection t' = max_connection t"
proof -
  obtain r1 t1 where a: "softether_additional_connect env t = Ret (r1, t1)"
    using assms by (auto simp: softether_establish_first_additional_def split: outcome.splits)
  show ?thesis using marks_additional [OF a] assms a
    by (auto simp: softether_establish_first_additional_def session_marks_def split: if_splits)
qed

lemma start_rudp_keeps:
  "session_marks (cl_conn (start_rudp env use_tcp c)) = session_marks (cl_conn c)" "cl_transport (start_rudp env use_tcp c) = cl_transport c"
  "max_connection (tun (start_rudp env use_tcp c)) = max_connection (tun c)"
  by (auto simp: start_rudp_def disable_rudp_def put_udp_def on_conn_def session_marks_def Let_def
      split: option.split prod.split bool.split)

lemma session_id_keeps:
  "session_marks (cl_conn (choose_session_id env c)) = session_marks (cl_conn c)"
  "max_connection (tun (choose_session_id env c)) = max_connection (tun c)"
  by (auto simp: choose_session_id_def on_conn_def session_marks_def Let_def)

lemma plan_links_keeps: "session_marks (cl_conn (plan_links env c)) = session_marks (cl_conn c)"
  by (simp add: plan_links_def session_marks_def tick_now_def Let_def)

lemma marks_set_state:
  "session_marks (cl_conn (set_state s c)) = (s, snd (session_marks (cl_conn c)))"
  "max_connection (tun (set_state s c)) = max_connection (tun c)"
  by (simp_all add: set_state_def on_conn_def session_marks_def)

lemma as_int_uint: "uint w < 8 \<Longrightarrow> as_int w = uint w"
proof -
  assume "uint w < 8"
  then have "nat (uint w) < nat 8" by (simp only: nat_mono_iff)
  then have "unat w < 8" by simp
  then show ?thesis using as_int_small [of "unat w"] by simp
qed

lemma clamp_bounds:
  assumes "1 \<le> m" "m \<le> 8"
  shows "1 \<le> clamp_connections sm m \<and> clamp_connections sm m \<le> 8"
proof -
  have u: "uint (word_of_int m :: u32) = m" using assms by (simp add: uint_word_of_int)
  have "1 \<le> as_int sm \<and> as_int sm < m" if "0 < sm" "sm < word_of_int m"
  proof -
    have "uint sm < m" "0 < uint sm" using that u by (simp_all only: word_less_def) simp_all
    then show ?thesis using as_int_uint [of sm] assms by simp
  qed
  then show ?thesis using assms unfolding clamp_connections_def Let_def MAX_SE_CONNECTIONS_def by auto
qed

lemma finish_result:
  assumes "finish_connect env use_tcp c = Finished (e, c')" "paired c" "conn_ssl (cl_conn c) \<noteq> None"
    "conn_session_established (cl_conn c)"
  shows "if e = ERR_NONE then cstate (cl_conn c') = STATE_CONNECTED \<and> 0 \<le> socket_fd (cl_conn c') \<and> paired c' \<and>
      conn_ssl (cl_conn c') \<noteq> None \<and> conn_session_established (cl_conn c')
    else halted c' \<and> released c'"
proof -
  define c1 where "c1 = choose_session_id env (set_state STATE_SESSION_SETUP (start_rudp env use_tcp c))"
  define c2 where "c2 = plan_links env (set_state STATE_CONNECTED c1)"
  have c1: "session_marks (cl_conn c1) = (STATE_SESSION_SETUP, snd (session_marks (cl_conn c)))"
    by (simp_all add: c1_def session_id_keeps marks_set_state start_rudp_keeps)
  have m: "session_marks (cl_conn c2) = (STATE_CONNECTED, socket_fd (cl_conn c), conn_ssl (cl_conn c), conn_ssl_ctx (cl_conn c), True)"
    using assms(4) by (simp add: c2_def plan_links_keeps marks_set_state c1) (simp add: session_marks_def)
  have up: "up c2" "paired c2" using m assms(2) by (auto simp: link_defs session_marks_def)
  have f: "finish_connect env use_tcp c = (if socket_fd (cl_conn c2) < 0 then Finished (ERR_TCP_CONNECT, softether_disconnect c2)
      else if half_connection (sess c2) = 0 then Finished (ERR_NONE, c2)
      else (case softether_establish_first_additional (te env) (tun c2) of
          Ret (_, t) \<Rightarrow> Finished (ERR_NONE, c2\<lparr>tun := t\<rparr>) | _ \<Rightarrow> Faulted))"
    unfolding finish_connect_def Let_def c1_def c2_def by (rule refl)
  show ?thesis
  proof (cases "socket_fd (cl_conn c2) < 0")
    case True
    then show ?thesis using assms(1) f disconnect_up [OF up(1)] up(2) by auto
  next
    case False
    note ge = this
    show ?thesis
    proof (cases "half_connection (sess c2) = 0")
      case True
      then show ?thesis using assms(1,3) f ge m up(2) by (auto simp: session_marks_def)
    next
      case False
      then obtain r t where a: "softether_establish_first_additional (te env) (tun c2) = Ret (r, t)"
        and c': "e = ERR_NONE" "c' = c2\<lparr>tun := t\<rparr>"
        using assms(1) f ge by (auto split: outcome.splits)
      show ?thesis using marks_first_additional [OF a] c' m ge assms(2,3) by (auto simp: session_marks_def paired_def)
    qed
  qed
qed

lemma begin_connect_result:
  assumes "released c"
  shows "released (begin_connect a c)" "up (begin_connect a c)" "udp_only (begin_connect a c) = udp_only c"
    "max_connection (tun (begin_connect a c)) = max_connection (tun c)"
  using assms
  by (auto simp: begin_connect_def store_hub_def store_client_info_def release_transport_def take_nat_t_transport_def
      adopt_transport_def set_transport_def link_defs Let_def split: option.split)

lemma store_server_keeps:
  "stands (store_server ip port c) = stands c" "udp_only (store_server ip port c) = udp_only c"
  "max_connection (tun (store_server ip port c)) = max_connection (tun c)"
  by (simp_all add: store_server_def stands_def up_def paired_def released_def promoted_def quiet_link_def)

text \<open>The whole connect, from a connection that holds nothing.\<close>

lemma connect_ends:
  assumes "race_legal env" "relay_ok env" "released c" "halted c"
    and "softether_connect_with_hub env a c = Finished (e, c')"
  shows "if e = ERR_NONE then cstate (cl_conn c') = STATE_CONNECTED \<and> 0 \<le> socket_fd (cl_conn c') \<and> paired c' \<and>
      conn_ssl (cl_conn c') \<noteq> None \<and> conn_session_established (cl_conn c')
    else halted c' \<and> (released c' \<or> e = ERR_TLS_HANDSHAKE \<and> promoted c' \<and> quiet_link c' \<and> \<not> udp_only c)"
proof (cases "a_host a = None \<or> a_username a = None \<or> a_password a = None")
  case True
  then have "e = ERR_UNKNOWN" "c' = c" using assms(5) by (auto simp: softether_connect_with_hub_def split: option.splits)
  then show ?thesis using assms(3,4) by simp
next
  case False
  then obtain host user pw where args: "a_host a = Some host" "a_username a = Some user" "a_password a = Some pw" by auto
  let ?b = "begin_connect a c"
  note b = begin_connect_result [OF assms(3), of a]
  obtain r s where q: "resolve_hostname (ce_os env) (Some host) 64 (cl_os ?b) = (r, s)" by (rule prod.exhaust)
  show ?thesis
  proof (cases r)
    case None
    then have "e = ERR_TCP_CONNECT" "c' = set_state STATE_DISCONNECTED (set_os s ?b)"
      using assms(5) args q by (simp_all add: softether_connect_with_hub_def)
    then show ?thesis using b(1) by (auto simp: link_defs set_os_def)
  next
    case (Some ip)
    have s: "released (set_os s ?b)" "up (set_os s ?b)" "udp_only (set_os s ?b) = udp_only c"
      using b by (simp_all add: released_def up_def set_os_def)
    obtain ip1 c1 where o: "open_link env host (a_port a) ip (set_os s ?b) = (ip1, c1)" by (rule prod.exhaust)
    note o1 = open_link_stands [OF assms(1) o s(1,2)]
    let ?s = "store_server ip1 (a_port a) c1"
    obtain e2 c2 where l: "login env host user pw (a_use_tcp a) ip1 ?s = Finished (e2, c2)"
      and f: "(if e2 \<noteq> ERR_NONE then Finished (e2, softether_disconnect c2) else finish_connect env (a_use_tcp a) c2) = Finished (e, c')"
      using assms(5) args q Some o
      by (auto simp: softether_connect_with_hub_def connect_resolved_def run_bind_Finished)
    have l1: "login_ends e2 c2" "udp_only c2 = udp_only c"
      using login_result [OF assms(2) l] o1 s(3) by (auto simp: store_server_keeps)
    show ?thesis
    proof (cases "e2 = ERR_NONE")
      case True
      then show ?thesis using finish_result [of env "a_use_tcp a" c2 e c'] f l1 by (auto simp: login_ends_def)
    next
      case False
      then have "e = e2" "c' = softether_disconnect c2" using f by auto
      then show ?thesis
        using False l1 disconnect_up [of c2] disconnect_down [OF halted_down, of c2] by (auto simp: login_ends_def)
    qed
  qed
qed

end
