(* ===== verification/Connect_Ledger.thy ===== *)
theory Connect_Ledger
  imports Connect_Result
begin

text \<open>
  What a connection has come to own and what it has given back, counted item by item over
  everything the connect does: the descriptors it opens as sockets or takes over with a
  transport, the descriptors of the transports themselves, the TLS contexts and the cipher
  contexts. \<open>outstanding\<close> is what has been acquired more often than given back, \<open>ledger\<close> is that
  less what the connection holds. Every step of a connect leaves the ledger as it was, so a
  connection that holds nothing has given back exactly what it acquired.
\<close>

section \<open>Accounts\<close>

text \<open>No additional connection is open or keeps a TLS context.\<close>

definition linkless :: "client_t \<Rightarrow> bool" where
  "linkless c \<longleftrightarrow> list_all (\<lambda>ts. \<not> ts_active ts \<and> ts_ctx ts = None) (additional (cl_conn c))"

text \<open>
  The application end of a transport is closed as the primary socket and once more with the
  transport, so it is entered in both of the first two accounts.
\<close>

definition fds_out :: "client_t \<Rightarrow> int \<Rightarrow> int" where
  "fds_out c x = os_net (cl_os c) x + int (count_list (map app_fd (cl_adopted c)) x) -
     int (count_list (closed_fds (cl_conn c)) x)"

definition transports_out :: "client_t \<Rightarrow> int \<Rightarrow> int" where
  "transports_out c x = int (count_list (concat (map transport_closes (cl_adopted c))) x) - int (count_list (cl_closed c) x)"

definition ctxs_out :: "client_t \<Rightarrow> nat \<Rightarrow> int" where
  "ctxs_out c x = int (count_list (cl_made c) x) - int (count_list (destroyed (cl_conn c)) x)"

definition evps_out :: "client_t \<Rightarrow> nat \<Rightarrow> int" where
  "evps_out c x = int (count_list (w_evp_made (cl_world c)) x) - int (count_list (w_evp_freed (cl_world c)) x)"

definition outstanding :: "client_t \<Rightarrow> (int \<Rightarrow> int) \<times> (int \<Rightarrow> int) \<times> (nat \<Rightarrow> int) \<times> (nat \<Rightarrow> int) \<times> int list" where
  "outstanding c = (fds_out c, transports_out c, ctxs_out c, evps_out c, cl_left c)"

definition udp_unit :: "rudp_context_t option \<Rightarrow> int \<Rightarrow> int" where
  "udp_unit ru x = (case ru of None \<Rightarrow> 0 | Some r \<Rightarrow> fd_unit (udp_fd r) x)"

definition transport_units :: "rudp_transport option \<Rightarrow> int \<Rightarrow> int" where
  "transport_units tr x = (case tr of None \<Rightarrow> 0 | Some t \<Rightarrow> int (count_list (transport_closes t) x))"

definition ledger :: "client_t \<Rightarrow> (int \<Rightarrow> int) \<times> (int \<Rightarrow> int) \<times> (nat \<Rightarrow> int) \<times> (nat \<Rightarrow> int) \<times> int list" where
  "ledger c = (\<lambda>x. fds_out c x - fd_unit (socket_fd (cl_conn c)) x - udp_unit (conn_rudp (cl_conn c)) x,
     \<lambda>x. transports_out c x - transport_units (cl_transport c) x,
     \<lambda>x. ctxs_out c x - has_item (conn_ssl_ctx (cl_conn c)) x,
     \<lambda>x. evps_out c x - has_item (cl_enc c) x - has_item (cl_dec c) x, cl_left c)"

lemmas out_defs = fds_out_def transports_out_def ctxs_out_def evps_out_def
lemmas ledger_defs = ledger_def out_defs udp_unit_def transport_units_def

lemma released_ledger: "released c \<Longrightarrow> ledger c = outstanding c"
  by (simp add: released_def ledger_def outstanding_def udp_unit_def transport_units_def has_item_def fd_unit_def)

text \<open>The fields the accounts depend on.\<close>

definition entries :: "client_t \<Rightarrow> (udp_world \<times> rudp_transport list \<times> int list \<times> int \<times> int option \<times> int list) \<times>
    (rudp_transport option \<times> nat list \<times> nat list \<times> nat option) \<times> (nat option \<times> nat option \<times> int list \<times> tcp_sock list)" where
  "entries c = ((cl_world c, cl_adopted c, closed_fds (cl_conn c), socket_fd (cl_conn c),
       map_option udp_fd (conn_rudp (cl_conn c)), cl_closed c),
     (cl_transport c, cl_made c, destroyed (cl_conn c), conn_ssl_ctx (cl_conn c)),
     (cl_enc c, cl_dec c, cl_left c, additional (cl_conn c)))"

lemma entries_ledger:
  assumes "entries c' = entries c"
  shows "ledger c' = ledger c" "linkless c' = linkless c" "cl_enc c' = cl_enc c" "cl_dec c' = cl_dec c"
proof -
  have "udp_unit (conn_rudp (cl_conn c')) = udp_unit (conn_rudp (cl_conn c))"
    using assms by (cases "conn_rudp (cl_conn c')"; cases "conn_rudp (cl_conn c)")
      (auto simp: entries_def udp_unit_def fun_eq_iff)
  then show "ledger c' = ledger c" using assms by (simp add: entries_def ledger_def out_defs)
  show "linkless c' = linkless c" "cl_enc c' = cl_enc c" "cl_dec c' = cl_dec c"
    using assms by (simp_all add: entries_def linkless_def)
qed

lemma entries_simps [simp]:
  "entries (set_state s c) = entries c" "entries (store_server ip port c) = entries c"
  "entries (c\<lparr>tls_i := n\<rparr>) = entries c" "entries (store_credentials user pw c) = entries c"
  by (simp_all add: entries_def set_state_def on_conn_def store_server_def store_credentials_def)

section \<open>The steps\<close>

lemma entries_exchange: "http_exchange n req c = (r, c') \<Longrightarrow> entries c' = entries c"
  by (drule http_exchange_keeps) (auto simp: entries_def on_conn_def)

lemma entries_answer: "entries (snd (watermark_answer h body c)) = entries c"
  by (simp add: watermark_answer_def store_random_def entries_def Let_def split: option.split)

lemma entries_watermark:
  assumes "send_vpnconnect_watermark env host c = Finished (r, c')"
  shows "entries c' = entries c"
  using assms entries_answer
  by (auto simp: send_vpnconnect_watermark_def split: if_splits outcome.splits prod.splits dest!: entries_exchange)
    (metis snd_conv)+

lemma entries_login_answer:
  assumes "login_answer h body c = (e, c')"
  shows "entries c' = entries c"
  using assms
  by (auto simp: login_answer_def login_store_def store_conn_def on_conn_def entries_def rudp_set_compress_def
      split: prod.splits if_splits option.splits)

lemma entries_authentication:
  assumes "perform_authentication_http env user pw c = Finished (e, c')"
  shows "entries c' = entries c"
  using assms
  by (auto simp: perform_authentication_http_def Let_def split: outcome.splits if_splits prod.splits
      dest!: entries_exchange entries_login_answer)

lemma put_udp_ledger:
  assumes "udp_net u w = udp_net (get_udp c) (cl_world c)" "evp_net u w = evp_net (get_udp c) (cl_world c)"
    and "cl_enc c = None" "cl_dec c = None"
  shows "ledger (put_udp u w c) = ledger c" "linkless (put_udp u w c) = linkless c"
proof -
  have g: "udp_net (get_udp c) (cl_world c) x = os_net (cl_os c) x - udp_unit (conn_rudp (cl_conn c)) x"
    "evp_net (get_udp c) (cl_world c) y = evps_out c y" for x y
    using assms(3,4) by (cases "conn_rudp (cl_conn c)";
      simp add: get_udp_def udp_net_def evp_net_def udp_unit_def u_fd_def evps_out_def has_item_def)+
  have p: "udp_net u w x = os_net (w_os w) x - udp_unit (map_option u_ctx u) x" for x
    by (cases u) (simp_all add: udp_net_def udp_unit_def u_fd_def)
  have q: "evp_net u w y = int (count_list (w_evp_made w) y) - int (count_list (w_evp_freed w) y) -
      has_item (Option.bind u u_enc) y - has_item (Option.bind u u_dec) y" for y
    by (cases u) (simp_all add: evp_net_def has_item_def)
  have "os_net (w_os w) x - udp_unit (map_option u_ctx u) x = os_net (cl_os c) x - udp_unit (conn_rudp (cl_conn c)) x" for x
    using fun_cong [OF assms(1), of x] g(1) [of x] p [of x] by simp
  moreover have "int (count_list (w_evp_made w) y) - int (count_list (w_evp_freed w) y) - has_item (Option.bind u u_enc) y -
      has_item (Option.bind u u_dec) y = evps_out c y" for y
    using fun_cong [OF assms(2), of y] g(2) [of y] q [of y] by simp
  ultimately show "ledger (put_udp u w c) = ledger c"
    using assms(3,4) by (simp add: ledger_def out_defs put_udp_def on_conn_def fun_eq_iff has_item_def [of None] algebra_simps)
  show "linkless (put_udp u w c) = linkless c" by (simp add: linkless_def put_udp_def on_conn_def)
qed

lemma open_rudp_ledger:
  assumes "open_rudp env c = Finished c'" "quiet_link c"
  shows "ledger c' = ledger c" "linkless c' = linkless c" "cl_enc c' = None" "cl_dec c' = None"
proof -
  have q: "get_udp c = None" "cl_enc c = None" "cl_dec c = None"
    using assms(2) by (simp_all add: quiet_link_def get_udp_def)
  obtain r w where r: "rudp_create (ce_os env) (ce_udp env) (renv (cenv (te env))) (cl_world c) = Some (r, w)"
    using assms(1) by (auto simp: open_rudp_def split: option.splits)
  note n = create_net [OF r]
  have "\<exists>u w. c' = put_udp u w c \<and> udp_net u w = udp_net None (cl_world c) \<and> evp_net u w = evp_net None (cl_world c) \<and>
    Option.bind u u_enc = None \<and> Option.bind u u_dec = None"
  proof (cases "r = None \<or> \<not> cl_is_ipv6 c")
    case True
    then have "c' = put_udp r w c" using assms(1) r by (auto simp: open_rudp_def split: option.splits)
    then show ?thesis using n by (intro exI [of _ r] exI [of _ w]) (cases r; simp)
  next
    case False
    then obtain u where u: "r = Some u" "cl_is_ipv6 c" by auto
    obtain b v w1 where f: "rudp_set_udp_family (ce_os env) (ce_udp env) AF_INET6 (u, w) = (b, v, w1)" by (metis prod_cases3)
    have e: "u_enc v = u_enc u" "u_dec v = u_dec u"
      using f by (auto simp: rudp_set_udp_family_def rudp_create_udp_socket_def set_udp_fd_def Let_def split: if_splits prod.splits)
    have "c' = (if b then put_udp (Some v) w1 c else put_udp None (rudp_destroy (Some v) w1) c)"
      using assms(1) r u f by (auto simp: open_rudp_def split: bool.splits)
    moreover have "udp_net (Some v) w1 = udp_net None (cl_world c)" "evp_net (Some v) w1 = evp_net None (cl_world c)"
      "u_enc v = None" "u_dec v = None"
      using n u e set_udp_family_net [OF f] by simp_all
    ultimately show ?thesis
      using destroy_net [of "Some v" w1]
      by (cases b) (metis Option.bind.bind_lunit, metis Option.bind.bind_lzero)
  qed
  then obtain u v where c': "c' = put_udp u v c" "udp_net u v = udp_net None (cl_world c)" "evp_net u v = evp_net None (cl_world c)"
    "Option.bind u u_enc = None" "Option.bind u u_dec = None" by blast
  show "ledger c' = ledger c" "linkless c' = linkless c" "cl_enc c' = None" "cl_dec c' = None"
    using put_udp_ledger [of u v c] c' q by (simp_all add: put_udp_def on_conn_def)
qed

text \<open>One login over a link.\<close>

lemma protocol_login_ledger:
  assumes "softether_protocol_login env host user pw use_tcp c = Finished (e, c')" "quiet_link c"
  shows "ledger c' = ledger c \<and> linkless c' = linkless c \<and> cl_enc c' = None \<and> cl_dec c' = None"
proof -
  obtain r c1 where w: "send_vpnconnect_watermark env host c = Finished (r, c1)"
    using assms(1) by (auto simp: softether_protocol_login_def run_bind_Finished)
  note c1 = entries_ledger [OF entries_watermark [OF w]]
  have q: "cl_enc c = None" "cl_dec c = None" using assms(2) by (simp_all add: quiet_link_def)
  show ?thesis
  proof (cases "r < 0")
    case True
    then have "c' = c1" using assms(1) w by (simp add: softether_protocol_login_def)
    then show ?thesis using c1 q by simp
  next
    case False
    then obtain c2 where c2: "(if \<not> use_tcp \<and> \<not> using_nat_t (tun c1) then open_rudp env c1
            else Finished (on_conn (\<lambda>k. k\<lparr>conn_rudp := None\<rparr>) c1)) = Finished c2"
      and a: "perform_authentication_http env user pw c2 = Finished (e, c')"
      using assms(1) w by (auto simp: softether_protocol_login_def run_bind_Finished)
    have q1: "quiet_link c1"
      using watermark_result(1) [OF w] assms(2) by (simp add: same_link_def quiet_link_def)
    have "ledger c2 = ledger c1 \<and> linkless c2 = linkless c1 \<and> cl_enc c2 = None \<and> cl_dec c2 = None"
    proof (cases "\<not> use_tcp \<and> \<not> using_nat_t (tun c1)")
      case True
      then show ?thesis using open_rudp_ledger [of env c1 c2] c2 q1 by simp
    next
      case False
      then have "c2 = on_conn (\<lambda>k. k\<lparr>conn_rudp := None\<rparr>) c1" using c2 by (simp split: if_splits)
      then have "entries c2 = entries c1" using q1 by (simp add: entries_def on_conn_def quiet_link_def)
      then show ?thesis using entries_ledger [of c2 c1] q1 by (simp add: quiet_link_def)
    qed
    then show ?thesis using c1 entries_ledger [OF entries_authentication [OF a]] by simp
  qed
qed

text \<open>Taking down what is up.\<close>

lemma close_links_closes:
  assumes "\<not> state_down (tc t)"
  shows "closed_fds (tc (close_links t)) = closed_fds (tc t) @ (if 0 \<le> socket_fd (tc t) then [socket_fd (tc t)] else []) @
      active_fds (additional (tc t))"
    "conn_ssl (tc t) = conn_ssl_ctx (tc t) \<Longrightarrow> destroyed (tc (close_links t)) = destroyed (tc t) @ slot_ctxs (additional (tc t)) @
      (case conn_ssl (tc t) of None \<Rightarrow> [] | Some x \<Rightarrow> [x])"
    "list_all (\<lambda>ts. \<not> ts_active ts \<and> ts_ctx ts = None) (additional (tc (close_links t)))"
proof -
  have j: "tc (join_thread t) = tc t" for t by (simp add: join_thread_def)
  let ?t2 = "(join_thread (t\<lparr>tc := (tc t)\<lparr>cstate := STATE_DISCONNECTING\<rparr>\<rparr>))\<lparr>tc := close_primary ((tc t)\<lparr>cstate := STATE_DISCONNECTING\<rparr>)\<rparr>"
  have p: "additional (tc ?t2) = additional (tc t)" "destroyed (tc ?t2) = destroyed (tc t)"
    "conn_ssl (tc ?t2) = conn_ssl (tc t)" "conn_ssl_ctx (tc ?t2) = conn_ssl_ctx (tc t)"
    "closed_fds (tc ?t2) = closed_fds (tc t) @ (if socket_fd (tc t) \<ge> 0 then [socket_fd (tc t)] else [])"
    by (simp_all add: close_primary_def)
  note c = close_additional_facts [of ?t2]
  have r: "tc (close_links t) = (destroy_primary (tc (softether_close_additional ?t2)))\<lparr>conn_rudp := None,
      conn_rudp_enabled := False, cstate := STATE_DISCONNECTED\<rparr>"
    using assms by (simp add: close_links_def j Let_def)
  have d: "closed_fds (destroy_primary k) = closed_fds k" "additional (destroy_primary k) = additional k" for k
    by (simp_all add: destroy_primary_def split: option.split)
  show "closed_fds (tc (close_links t)) = closed_fds (tc t) @ (if 0 \<le> socket_fd (tc t) then [socket_fd (tc t)] else []) @
      active_fds (additional (tc t))" using c(3) p by (simp add: r d close_primary_def)
  show "destroyed (tc (close_links t)) = destroyed (tc t) @ slot_ctxs (additional (tc t)) @
      (case conn_ssl (tc t) of None \<Rightarrow> [] | Some x \<Rightarrow> [x])" if "conn_ssl (tc t) = conn_ssl_ctx (tc t)"
    using that c p by (auto simp: r destroy_primary_def split: option.split)
  show "list_all (\<lambda>ts. \<not> ts_active ts \<and> ts_ctx ts = None) (additional (tc (close_links t)))"
    using c(1) by (auto simp: r d list_all_iff)
qed

lemma linkless_nothing: "linkless c \<Longrightarrow> active_fds (additional (cl_conn c)) = [] \<and> slot_ctxs (additional (cl_conn c)) = []"
  by (auto simp: linkless_def list_all_iff active_fds_def slot_ctxs_def List.map_filter_def filter_empty_conv)

lemma release_transport_ledger:
  "ledger (release_transport c) = ledger c" "linkless (release_transport c) = linkless c"
  by (auto simp: release_transport_def take_nat_t_transport_def set_transport_def ledger_defs linkless_def fun_eq_iff
      split: option.split)

lemma disconnect_ledger:
  assumes "up c" "paired c" "linkless c" "cl_enc c = None" "cl_dec c = None"
  shows "ledger (softether_disconnect c) = ledger c" "linkless (softether_disconnect c)"
proof -
  let ?k = "close_links (tun c)"
  have u: "\<not> state_down (cl_conn c)" using assms(1) by (simp add: up_def)
  have p: "conn_ssl (cl_conn c) = conn_ssl_ctx (cl_conn c)" using assms(2) by (simp add: paired_def)
  note cl = close_links_closes [OF u] and d = disconnect_links [OF u]
  define c1 where "c1 = c\<lparr>tun := ?k\<rparr>"
  define c2 where "c2 = release_transport c1"
  have s: "softether_disconnect c = (put_udp None (rudp_destroy (get_udp c) (cl_world c2)) c2)\<lparr>session_id := 0\<rparr>"
    using u by (simp add: softether_disconnect_def Let_def c1_def c2_def)
  have w: "cl_world c2 = cl_world c" "cl_enc c2 = None" "cl_dec c2 = None" "conn_rudp (cl_conn c2) = None"
    using assms(4,5) d(4) by (simp_all add: c2_def c1_def release_transport_def take_nat_t_transport_def set_transport_def split: option.split)
  have l1: "ledger c1 = (let (a, r) = ledger c in (\<lambda>x. a x + udp_unit (conn_rudp (cl_conn c)) x, r))"
    using cl(1) cl(2) [OF p] d(2,3,4) p linkless_nothing [OF assms(3)]
    by (cases "conn_ssl (cl_conn c)") (auto simp: c1_def ledger_def out_defs udp_unit_def fd_unit_def has_item_def fun_eq_iff)
  have l2: "ledger c2 = ledger c1" "linkless c2" using release_transport_ledger cl(3) by (simp_all add: c2_def c1_def linkless_def)
  have n: "udp_net None (rudp_destroy (get_udp c) (cl_world c)) = udp_net (get_udp c) (cl_world c)"
    "evp_net None (rudp_destroy (get_udp c) (cl_world c)) = evp_net (get_udp c) (cl_world c)" by (rule destroy_net)+
  have g: "udp_net (get_udp c) (cl_world c) x = os_net (cl_os c) x - udp_unit (conn_rudp (cl_conn c)) x"
    "evp_net (get_udp c) (cl_world c) y = evps_out c y" for x y
    using assms(4,5) by (cases "conn_rudp (cl_conn c)";
      simp add: get_udp_def udp_net_def evp_net_def udp_unit_def u_fd_def evps_out_def has_item_def)+
  have o: "os_net (w_os (rudp_destroy (get_udp c) (cl_world c))) x = os_net (cl_os c) x - udp_unit (conn_rudp (cl_conn c)) x"
    "int (count_list (w_evp_made (rudp_destroy (get_udp c) (cl_world c))) y) -
      int (count_list (w_evp_freed (rudp_destroy (get_udp c) (cl_world c))) y) = evps_out c y" for x y
    using fun_cong [OF n(1), of x] fun_cong [OF n(2), of y] g(1) [of x] g(2) [of y]
    by (simp_all add: udp_net_def [of None] evp_net_def [of None])
  have e: "ledger (softether_disconnect c) = (let (a, b, d, e, l) = ledger c2 in
      (\<lambda>x. a x - udp_unit (conn_rudp (cl_conn c)) x, b, d, evps_out c, l))"
    using o w unfolding s by (simp add: ledger_def out_defs put_udp_def on_conn_def udp_unit_def [of None] has_item_def [of None] fun_eq_iff)
  show "ledger (softether_disconnect c) = ledger c"
    using l1 l2(1) assms(4,5) unfolding e by (simp add: ledger_def [of c] has_item_def [of None])
  show "linkless (softether_disconnect c)"
    using l2(2) unfolding s by (simp add: linkless_def put_udp_def on_conn_def)
qed

section \<open>The links\<close>

definition kept :: "client_t \<Rightarrow> client_t \<Rightarrow> bool" where
  "kept c' c \<longleftrightarrow> ledger c' = ledger c \<and> (linkless c \<longrightarrow> linkless c')"

lemma kept_trans: "kept a b \<Longrightarrow> kept b c \<Longrightarrow> kept a c"
  by (simp add: kept_def)

lemma kept_entries: "entries c' = entries c \<Longrightarrow> kept c' c"
  using entries_ledger [of c' c] by (simp add: kept_def)

lemma kept_os:
  assumes "\<And>x. os_net s x - fd_unit fd x = os_net (cl_os c) x - fd_unit (socket_fd (cl_conn c)) x"
  shows "kept (set_os s (on_conn (\<lambda>k. k\<lparr>socket_fd := fd\<rparr>) c)) c"
proof -
  have "os_net s x = os_net (cl_os c) x - fd_unit (socket_fd (cl_conn c)) x + fd_unit fd x" for x
    using assms [of x] by simp
  then show ?thesis by (simp add: kept_def ledger_def out_defs linkless_def set_os_def on_conn_def fun_eq_iff)
qed

lemma resolve_net:
  "resolve_hostname env h n s = (r, s') \<Longrightarrow> os_net s' = os_net s"
  "resolve_hostname_family env h f n s = (r, s') \<Longrightarrow> os_net s' = os_net s"
  by (auto simp: resolve_hostname_def resolve_hostname_family_def os_getaddrinfo_def os_net_def fun_eq_iff
      split: option.splits if_splits list.splits prod.splits)

lemma dial_both_net:
  assumes "tcp_dial_both env host port ms ip (k, s) = (b, ip', k', s')"
  shows "sock_net (k', s') = sock_net (k, s)"
proof -
  have c: "sock_net (q, z) = sock_net (k, s)" if "socket_connect_timeout env h port ms (v, w) = (r, q, z)" "sock_net (v, w) = sock_net (k, s)"
    for h v w r q z using net_connect [of env h port ms "(v, w)"] that by simp
  have r: "sock_net (v, z) = sock_net (v, w)" if "resolve_hostname_family env h f 64 w = (a, z)" for h f w a z v
    using resolve_net(2) [OF that] by (simp add: sock_net_def fun_eq_iff)
  show ?thesis using assms
    by (auto simp: tcp_dial_both_def split: prod.splits if_splits option.splits) (metis c r)+
qed

lemma tcp_attempt_kept:
  assumes "tcp_attempt env host port ip c = (ok, ip', c')" "socket_fd (cl_conn c) < 0"
  shows "kept c' c"
proof (cases "ce_force_nat_t env")
  case True
  then show ?thesis using assms(1) by (auto simp: tcp_attempt_def kept_def)
next
  case False
  have os: "kept (set_os s c) c" if "os_net s = os_net (cl_os c)" for s
    using kept_os [of s "socket_fd (cl_conn c)" c] that by (simp add: on_conn_def)
  have none: "fd_unit (socket_fd (cl_conn c)) x = 0" for x using assms(2) by (simp add: fd_unit_def)
  obtain sk s where k: "socket_create (ce_os env) SOCKET_TYPE_TCP (cl_os c) = (sk, s)" by (rule prod.exhaust)
  show ?thesis
  proof (cases sk)
    case None
    then show ?thesis using assms(1) False k os [of s]
      by (auto simp: tcp_attempt_def socket_create_def os_open_def os_net_def set_nonblock_def fun_eq_iff Let_def split: if_splits)
  next
    case (Some q)
    have n: "sock_net (q, s) = os_net (cl_os c)"
      using k Some by (auto simp: socket_create_def os_open_def sock_net_def os_net_def fd_unit_def fun_eq_iff set_nonblock_def Let_def split: if_splits)
    obtain b ip1 q1 s1 where d: "tcp_dial_both (ce_os env) host port (timeout_ms c) ip (q, s) = (b, ip1, q1, s1)"
      by (metis prod_cases4)
    have m: "os_net s1 x - fd_unit (sk_fd q1) x = os_net (cl_os c) x" for x
      using dial_both_net [OF d] n by (auto simp: sock_net_def fun_eq_iff)
    show ?thesis
    proof (cases b)
      case True
      then have "c' = set_os s1 (on_conn (\<lambda>n. n\<lparr>socket_fd := sk_fd q1\<rparr>) c)"
        using assms(1) False k Some d by (simp add: tcp_attempt_def socket_destroy_def)
      then show ?thesis using kept_os [of s1 "sk_fd q1" c] m none by simp
    next
      case no: False
      then have c': "c' = set_os (socket_destroy (Some q1) s1) c" using assms(1) False k Some d by (simp add: tcp_attempt_def)
      have "os_net (socket_destroy (Some q1) s1) x = os_net s1 x - fd_unit (sk_fd q1) x" for x
        by (simp add: socket_destroy_def os_net_def fd_unit_def os_close_def)
      then show ?thesis using os m by (simp add: c' fun_eq_iff)
    qed
  qed
qed

lemma tls_kept: "perform_tls_handshake env c = (e, c') \<Longrightarrow> conn_ssl_ctx (cl_conn c) = None \<Longrightarrow> kept c' c"
  by (auto simp: perform_tls_handshake_def kept_def ledger_def out_defs linkless_def set_state_def on_conn_def has_item_def
      fun_eq_iff Let_def split: if_splits option.splits)

text \<open>A secured connection has a socket.\<close>

definition secured :: "client_t \<Rightarrow> bool" where
  "secured c \<longleftrightarrow> conn_ssl (cl_conn c) = None \<or> 0 \<le> socket_fd (cl_conn c)"

lemma handles_secured: "handles c' = handles c \<Longrightarrow> secured c' = secured c"
  by (simp add: handles_def secured_def)

lemma tcp_tls_kept:
  assumes "tcp_then_tls env host port ip c = (e, ip', c')" "released c"
  shows "kept c' c \<and> secured c'"
proof -
  obtain ok ip1 c1 where t: "tcp_attempt env host port ip c = (ok, ip1, c1)" by (metis prod_cases3)
  have k1: "kept c1 c" using tcp_attempt_kept [OF t] assms(2) by (simp add: released_def)
  obtain fd s where r: "c1 = set_os s (if ok then on_conn (\<lambda>k. k\<lparr>socket_fd := fd\<rparr>) c else c)" "ok \<longrightarrow> 0 \<le> fd"
    using tcp_attempt_result [OF t] by blast
  have n: "conn_ssl (cl_conn c1) = None" "conn_ssl_ctx (cl_conn c1) = None" "ok \<longrightarrow> 0 \<le> socket_fd (cl_conn c1)"
    using assms(2) r(2) unfolding r(1) by (simp_all add: set_os_def on_conn_def released_def)
  show ?thesis
  proof (cases ok)
    case False
    then show ?thesis using assms(1) t k1 n by (simp add: tcp_then_tls_def secured_def)
  next
    case True
    obtain e2 c2 where h: "perform_tls_handshake env c1 = (e2, c2)" by (rule prod.exhaust)
    have k2: "kept c2 c" using kept_trans [OF tls_kept [OF h n(2)] k1] .
    have f: "0 \<le> socket_fd (cl_conn c2)" "e2 \<noteq> ERR_NONE \<longrightarrow> conn_ssl (cl_conn c2) = None"
      using tls_result [OF h _ n(1,2)] n(3) True by (auto split: if_splits)
    show ?thesis
    proof (cases "e2 = ERR_NONE")
      case True
      then show ?thesis using assms(1) t h \<open>ok\<close> k2 f by (simp add: tcp_then_tls_def secured_def)
    next
      case False
      then have c': "c' = on_conn (\<lambda>k. (Links.close_fd (socket_fd k) k)\<lparr>socket_fd := -1\<rparr>) c2"
        using assms(1) t h \<open>ok\<close> by (simp add: tcp_then_tls_def)
      have "kept c' c2" using f(1)
        by (simp add: c' kept_def ledger_def out_defs linkless_def on_conn_def Links.close_fd_def fd_unit_def fun_eq_iff)
      then show ?thesis using kept_trans k2 f(2) False by (auto simp: secured_def c' on_conn_def Links.close_fd_def)
    qed
  qed
qed

lemma race_kept:
  assumes "race_legal env" "softether_connect_parallel_race env ip port host c = (r, c')" "released c"
  shows "kept c' c \<and> secured c'"
proof -
  let ?ctxs = "race_contexts (udp_port c) (timeout_ms c) ip port host"
  have n: "socket_fd (cl_conn c) < 0" "conn_ssl (cl_conn c) = None" "conn_ssl_ctx (cl_conn c) = None" "cl_transport c = None"
    using assms(3) by (simp_all add: released_def)
  show ?thesis
  proof (cases "\<exists>i. r_main (ce_race env ?ctxs) = Done (Some i)")
    case True
    then obtain i where i: "r_main (ce_race env ?ctxs) = Done (Some i)" by blast
    define res where "res = t_res (r_threads (ce_race env ?ctxs) ! i)"
    obtain tr x where w: "udp_live tr" "r_socket_fd res = app_fd tr" "r_transport res = Some tr" "r_ssl res = Some x" "r_ssl_ctx res = Some x"
      using race_winner [OF assms(1) i refl] by (auto simp: res_def)
    have c': "c' = promote env res c" using assms(2) i by (simp add: softether_connect_parallel_race_def Let_def res_def)
    show ?thesis using n w
      by (simp add: c' promote_def adopt_transport_def set_transport_def kept_def ledger_defs linkless_def on_conn_def
          has_item_def fd_unit_def fun_eq_iff udp_live_def secured_def Let_def)
  next
    case False
    then have "c' = c" using assms(2)
      by (auto simp: softether_connect_parallel_race_def Let_def split: main_stage.splits option.splits)
    then show ?thesis using n by (simp add: kept_def secured_def)
  qed
qed

lemma relay_shape:
  assumes "softether_try_nat_t_connect env ip c = Finished (e, c')"
  shows "(\<exists>l. c' = c\<lparr>cl_left := l\<rparr>) \<or>
    (\<exists>tr. c' = on_conn (\<lambda>k. k\<lparr>socket_fd := app_fd tr\<rparr>) (adopt_transport tr (c\<lparr>tun := (tun c)\<lparr>using_nat_t := True\<rparr>\<rparr>)))"
proof -
  have "\<exists>l. c = c\<lparr>cl_left := l\<rparr>" by (rule exI [of _ "cl_left c"]) simp
  then show ?thesis using assms
    by (auto simp: softether_try_nat_t_connect_def relay_session_def relay_failed_def rudp_transport_get_fd_def Let_def
        split: option.splits outcome.splits prod.splits if_splits)
qed

lemma relay_kept:
  assumes "relay_ok env" "softether_try_nat_t_connect env ip c = Finished (e, c')" "released c"
  shows "kept c' c \<and> secured c'"
  using relay_shape [OF assms(2)]
proof (elim disjE exE)
  fix l assume "c' = c\<lparr>cl_left := l\<rparr>"
  moreover have "cl_left c' = cl_left c" using relay_result [OF assms] by blast
  ultimately have "c' = c" by simp
  then show ?thesis using assms(3) by (simp add: kept_def secured_def released_def)
next
  fix tr assume c': "c' = on_conn (\<lambda>k. k\<lparr>socket_fd := app_fd tr\<rparr>) (adopt_transport tr (c\<lparr>tun := (tun c)\<lparr>using_nat_t := True\<rparr>\<rparr>))"
  have "0 \<le> app_fd tr"
    using relay_result [OF assms] by (auto simp: c' on_conn_def adopt_transport_def set_transport_def udp_live_def released_def split: if_splits)
  then show ?thesis using assms(3)
    by (simp add: c' adopt_transport_def set_transport_def kept_def ledger_defs linkless_def on_conn_def
        fd_unit_def fun_eq_iff released_def secured_def)
qed

lemma disconnect_kept:
  assumes "up c \<and> paired c \<or> halted c" "linkless c" "cl_enc c = None" "cl_dec c = None"
  shows "kept (softether_disconnect c) c"
  using assms disconnect_ledger [of c] disconnect_down [OF halted_down, of c] by (auto simp: kept_def)

lemma open_link_kept:
  assumes "race_legal env" "open_link env host port ip c = (ip', c')" "released c" "up c" "linkless c"
  shows "kept c' c \<and> secured c' \<and> quiet_link c'"
proof (cases "udp_only c")
  case True
  obtain r c1 where q: "softether_connect_parallel_race env ip port host c = (r, c1)" by (rule prod.exhaust)
  then have "c' = c1" using assms(2) True by (simp add: open_link_def)
  then show ?thesis using race_kept [OF assms(1) q assms(3)] race_result [OF assms(1) q] assms(3)
    by (auto simp: released_def quiet_link_def)
next
  case False
  obtain e ip1 c1 where t: "tcp_then_tls env host port ip c = (e, ip1, c1)" by (metis prod_cases3)
  note c1 = tcp_tls_result [OF t assms(3,4)] and k1 = tcp_tls_kept [OF t assms(3)]
  show ?thesis
  proof (cases "e = ERR_NONE")
    case True
    then have "c' = c1" using assms(2) False t by (simp add: open_link_def)
    then show ?thesis using c1(3) k1 by simp
  next
    case err: False
    let ?d = "softether_disconnect c1"
    have d: "released ?d" "halted ?d" using disconnect_up [OF c1(1)] c1(2) by auto
    have kd: "kept ?d c"
      using disconnect_kept [of c1] c1(1,2,3) k1 assms(5) kept_trans [of ?d c1 c] by (auto simp: kept_def quiet_link_def)
    obtain r c2 where q: "softether_connect_parallel_race env ip1 port host ?d = (r, c2)" by (rule prod.exhaust)
    have "cl_transport ?d = None" using d(1) by (simp add: released_def)
    note w = race_result [OF assms(1) q this] and kw = race_kept [OF assms(1) q d(1)]
    have "halted c2" using w d(2) by auto
    then have "c' = c2"
      using assms(2) False t err q disconnect_down [OF halted_down, of c2] by (auto simp: open_link_def race_fallback_def)
    then show ?thesis using kw kd kept_trans w d(1) by (auto simp: quiet_link_def released_def)
  qed
qed

section \<open>The login and the whole connect\<close>

definition quiet_evp :: "client_t \<Rightarrow> bool" where
  "quiet_evp c \<longleftrightarrow> cl_enc c = None \<and> cl_dec c = None"

lemma protocol_login_kept:
  assumes "softether_protocol_login env host user pw use_tcp c = Finished (e, c')" "quiet_link c" "secured c"
  shows "kept c' c \<and> secured c' \<and> quiet_evp c'"
  using protocol_login_ledger [OF assms(1,2)] protocol_login_result [OF assms(1)] handles_secured [of c' c] assms(3)
  by (simp add: kept_def quiet_evp_def)

lemma login_over_relay_kept:
  assumes "relay_ok env" "login_over_relay env host user pw use_tcp ip c = Finished (e, c')"
    and "up c \<and> paired c \<or> halted c \<and> released c" "linkless c" "quiet_evp c"
  shows "kept c' c \<and> secured c' \<and> quiet_evp c'"
proof -
  let ?d = "softether_disconnect c"
  have d: "released ?d" using assms(3) disconnect_up [of c] disconnect_down [of c] halted_down by auto
  have kd: "kept ?d c" using disconnect_kept [of c] assms(3-5) by (auto simp: quiet_evp_def)
  obtain e1 c1 where r: "softether_try_nat_t_connect env ip ?d = Finished (e1, c1)"
    using assms(2) by (auto simp: login_over_relay_def run_bind_Finished)
  note r1 = relay_result [OF assms(1) r d] and rk = relay_kept [OF assms(1) r d]
  have k1: "kept c1 c" "secured c1" using kept_trans kd rk by blast+
  show ?thesis
  proof (cases "e1 = ERR_NONE")
    case False
    then have "c' = c1" "released c1" using assms(2) r r1 by (auto simp: login_over_relay_def)
    then show ?thesis using k1 by (simp add: released_def quiet_evp_def)
  next
    case True
    then obtain tr where c1: "udp_live tr" "socket_fd (cl_conn c1) = app_fd tr" "conn_ssl (cl_conn c1) = None"
      "conn_ssl_ctx (cl_conn c1) = None" "quiet_link c1" using r1 by (auto simp: quiet_link_def)
    obtain e2 c2 where h: "perform_tls_handshake env c1 = (e2, c2)" by (rule prod.exhaust)
    have k2: "kept c2 c" using kept_trans tls_kept [OF h c1(4)] k1(1) by blast
    have q2: "quiet_link c2" "secured c2"
      using tls_result [OF h _ c1(3,4)] c1(1,2,5) by (auto simp: udp_live_def quiet_link_def secured_def)
    show ?thesis
    proof (cases "e2 = ERR_NONE")
      case False
      then have "c' = c2" using assms(2) r True h by (simp add: login_over_relay_def)
      then show ?thesis using k2 q2 by (simp add: quiet_link_def quiet_evp_def)
    next
      case ok: True
      then have l: "softether_protocol_login env host user pw use_tcp c2 = Finished (e, c')"
        using assms(2) r True h by (simp add: login_over_relay_def)
      show ?thesis using protocol_login_kept [OF l q2] kept_trans k2 by blast
    qed
  qed
qed

lemma login_kept:
  assumes "relay_ok env" "login env host user pw use_tcp ip c = Finished (e, c')" "stands c"
    and "linkless c" "quiet_link c" "secured c"
  shows "kept c' c \<and> secured c' \<and> quiet_evp c'"
proof -
  obtain e1 c1 where l: "softether_protocol_login env host user pw use_tcp c = Finished (e1, c1)"
    using assms(2) by (auto simp: login_def run_bind_Finished)
  note l1 = protocol_login_ends [OF l assms(3)] and k1 = protocol_login_kept [OF l assms(5,6)]
  show ?thesis
  proof (cases "e1 \<noteq> ERR_NONE \<and> \<not> using_nat_t (tun c1)")
    case True
    then have r: "login_over_relay env host user pw use_tcp ip c1 = Finished (e, c')" using assms(2) l by (simp add: login_def)
    have "up c1 \<and> paired c1 \<or> halted c1 \<and> released c1"
      using l1 True promoted_facts [of c1] by (auto simp: stands_def)
    then show ?thesis using login_over_relay_kept [OF assms(1) r] k1 assms(4) kept_trans by (auto simp: kept_def)
  next
    case False
    then have "c1 = c'" using assms(2) l by (auto simp: login_def)
    then show ?thesis using k1 by simp
  qed
qed

lemma finish_secured:
  assumes "finish_connect env use_tcp c = Finished (e, c')" "0 \<le> socket_fd (cl_conn c)"
  shows "e = ERR_NONE"
proof -
  let ?c = "plan_links env (set_state STATE_CONNECTED (choose_session_id env (set_state STATE_SESSION_SETUP (start_rudp env use_tcp c))))"
  have "session_marks (cl_conn ?c) = (STATE_CONNECTED, snd (session_marks (cl_conn c)))"
    by (simp add: plan_links_keeps marks_set_state session_id_keeps start_rudp_keeps)
  then have "\<not> socket_fd (cl_conn ?c) < 0" using assms(2) by (simp add: session_marks_def)
  then show ?thesis using assms(1) by (auto simp: finish_connect_def Let_def split: if_splits outcome.splits)
qed

lemma begin_connect_kept: "kept (begin_connect a c) c"
proof -
  let ?c = "if socket_fd (cl_conn c) < 0 then release_transport c else c"
  have "entries (begin_connect a c) = entries ?c"
    by (simp add: begin_connect_def store_hub_def store_client_info_def set_state_def on_conn_def entries_def Let_def)
  moreover have "kept ?c c" using release_transport_ledger [of c] by (simp add: kept_def)
  ultimately show ?thesis using kept_trans kept_entries by blast
qed

lemma connect_resolved_kept:
  assumes "race_legal env" "relay_ok env" "released c" "up c" "linkless c"
    and "connect_resolved env a host user pw ip c = Finished (e, c')" "e \<noteq> ERR_NONE"
  shows "kept c' c"
proof -
  obtain ip1 c1 where o: "open_link env host (a_port a) ip c = (ip1, c1)" by (rule prod.exhaust)
  note o1 = open_link_stands [OF assms(1) o assms(3,4)] and ok = open_link_kept [OF assms(1) o assms(3-5)]
  let ?s = "store_server ip1 (a_port a) c1"
  have ks: "kept ?s c" using kept_trans [OF kept_entries [OF entries_simps(2)] conjunct1 [OF ok]] .
  have s1: "secured ?s" "quiet_link ?s" "stands ?s" "linkless ?s"
    using o1 ok ks assms(5) by (simp_all add: store_server_keeps kept_def) (simp_all add: store_server_def secured_def quiet_link_def)
  obtain e2 c2 where l: "login env host user pw (a_use_tcp a) ip1 ?s = Finished (e2, c2)"
    and f: "(if e2 \<noteq> ERR_NONE then Finished (e2, softether_disconnect c2) else finish_connect env (a_use_tcp a) c2) = Finished (e, c')"
    using assms(6) o by (auto simp: connect_resolved_def run_bind_Finished)
  note l1 = login_result [OF assms(2) l s1(3)] and lk = login_kept [OF assms(2) l s1(3,4,2,1)]
  show ?thesis
  proof (cases "e2 = ERR_NONE")
    case True
    then have "e = ERR_NONE" using finish_secured [of env "a_use_tcp a" c2 e c'] f l1 lk by (auto simp: login_ends_def secured_def)
    then show ?thesis using assms(7) by simp
  next
    case False
    then have "c' = softether_disconnect c2" "up c2 \<and> paired c2 \<or> halted c2" using f l1 by (auto simp: login_ends_def)
    then show ?thesis using disconnect_kept [of c2] lk s1(4) ks by (auto simp: kept_def quiet_evp_def)
  qed
qed

text \<open>
  A connect that fails leaves the accounts of a connection without additional connections
  as they were: what it has acquired is given back or still held.
\<close>

lemma connect_kept:
  assumes "race_legal env" "relay_ok env" "released c" "linkless c"
    and "softether_connect_with_hub env a c = Finished (e, c')" "e \<noteq> ERR_NONE"
  shows "kept c' c"
proof (cases "a_host a = None \<or> a_username a = None \<or> a_password a = None")
  case True
  then have "c' = c" using assms(5) by (auto simp: softether_connect_with_hub_def split: option.splits)
  then show ?thesis by (simp add: kept_def)
next
  case False
  then obtain host user pw where args: "a_host a = Some host" "a_username a = Some user" "a_password a = Some pw" by auto
  let ?b = "begin_connect a c"
  note b = begin_connect_result [OF assms(3), of a]
  obtain r s where q: "resolve_hostname (ce_os env) (Some host) 64 (cl_os ?b) = (r, s)" by (rule prod.exhaust)
  have "kept (set_os s ?b) ?b"
    using kept_os [of s "socket_fd (cl_conn ?b)" ?b] resolve_net(1) [OF q] by (simp add: on_conn_def)
  then have k: "kept (set_os s ?b) c" using kept_trans begin_connect_kept by blast
  show ?thesis
  proof (cases r)
    case None
    then have "c' = set_state STATE_DISCONNECTED (set_os s ?b)" using assms(5) args q by (simp add: softether_connect_with_hub_def)
    then show ?thesis using kept_trans [OF kept_entries [OF entries_simps(1)] k] by simp
  next
    case (Some ip)
    have s: "released (set_os s ?b)" "up (set_os s ?b)" "linkless (set_os s ?b)"
      using b k assms(4) by (simp_all add: released_def up_def set_os_def kept_def)
    have "connect_resolved env a host user pw ip (set_os s ?b) = Finished (e, c')"
      using assms(5) args q Some by (simp add: softether_connect_with_hub_def)
    then show ?thesis using connect_resolved_kept [OF assms(1,2) s] assms(6) k kept_trans by blast
  qed
qed

end
