(* ===== verification/Connect_Bufs.thy ===== *)
theory Connect_Bufs
  imports Connect_Result
begin

text \<open>
  The fixed-size fields of a connection under the operations that set a session up and
  take it down: \<open>client_wf\<close> says that every text fits its array with its terminator and
  every key and address has its size, and no operation leaves it.
\<close>

section \<open>The sizes\<close>

definition info_wf :: "client_info \<Rightarrow> bool" where
  "info_wf i \<longleftrightarrow> length (client_product_name i) < 128 \<and> length (client_product_version i) < 32 \<and>
     length (client_os_name i) < 128 \<and> length (client_os_version i) < 64 \<and> length (client_os_product_id i) < 128 \<and>
     length (client_host_name i) < 128 \<and> length (client_ip_address i) < 64 \<and> length (server_host_name i) < 128 \<and>
     length (server_ip_address i) < 64 \<and> length (client_ip_v6 i) < 128"

definition client_wf :: "client_t \<Rightarrow> bool" where
  "client_wf c \<longleftrightarrow> length (client_mac (tun c)) = 6 \<and> length (conn_session_key (tun c)) = 20 \<and>
     length (conn_server_ip (tun c)) < 64 \<and> 1 \<le> max_connection (tun c) \<and> max_connection (tun c) \<le> 8 \<and>
     length (server_random c) = 20 \<and> length (username c) < 256 \<and> length (password c) < 256 \<and>
     length (cl_hub_name c) < 256 \<and> length (server_ip_v6 c) < 128 \<and> info_wf (cinfo c) \<and> session_bufs_ok (sess c)"

text \<open>The fields it is about.\<close>

definition bufs :: "client_t \<Rightarrow> (bytes \<times> bytes \<times> bytes \<times> int) \<times> (bytes \<times> bytes \<times> bytes \<times> bytes \<times> bytes) \<times> client_info \<times> session_t" where
  "bufs c = ((client_mac (tun c), conn_session_key (tun c), conn_server_ip (tun c), max_connection (tun c)),
     (server_random c, username c, password c, cl_hub_name c, server_ip_v6 c), cinfo c, sess c)"

lemma client_wf_cong: "bufs c' = bufs c \<Longrightarrow> client_wf c' = client_wf c"
  by (simp add: bufs_def client_wf_def)

section \<open>What leaves them alone\<close>

lemma bufs_simps [simp]:
  "bufs (on_conn f c) = bufs c" "bufs (set_state s c) = bufs c" "bufs (put_udp u w c) = bufs c"
  "bufs (set_transport tr c) = bufs c" "bufs (set_os q c) = bufs c" "bufs (disable_rudp c) = bufs c"
  "bufs (c\<lparr>tun := (tun c)\<lparr>using_nat_t := b\<rparr>\<rparr>) = bufs c" "bufs (c\<lparr>cl_closed := l\<rparr>) = bufs c"
  "bufs (c\<lparr>cl_left := l\<rparr>) = bufs c" "bufs (c\<lparr>tls_i := n\<rparr>) = bufs c" "bufs (c\<lparr>session_id := i\<rparr>) = bufs c"
  "bufs (c\<lparr>cl_made := m\<rparr>) = bufs c" "bufs (adopt_transport x c) = bufs c"
  by (simp_all add: bufs_def on_conn_def set_state_def put_udp_def adopt_transport_def set_transport_def set_os_def disable_rudp_def)

lemma bufs_release [simp]: "bufs (release_transport c) = bufs c"
  by (simp add: release_transport_def take_nat_t_transport_def split: option.split)

lemma disconnect_tun_keeps [simp]:
  "client_mac (close_links t) = client_mac t" "conn_session_key (close_links t) = conn_session_key t"
  "conn_server_ip (close_links t) = conn_server_ip t" "max_connection (close_links t) = max_connection t"
  by (simp_all add: close_links_def softether_close_additional_def join_thread_def Let_def)

lemma bufs_disconnect [simp]: "bufs (softether_disconnect c) = bufs c"
proof -
  have "bufs (c\<lparr>tun := close_links (tun c)\<rparr>) = bufs c" by (simp add: bufs_def)
  then show ?thesis by (simp add: softether_disconnect_def Let_def)
qed

lemma bufs_tls: "perform_tls_handshake env c = (e, c') \<Longrightarrow> bufs c' = bufs c"
  by (auto simp: perform_tls_handshake_def Let_def split: if_splits option.splits)

lemma bufs_exchange: "http_exchange n req c = (r, c') \<Longrightarrow> bufs c' = bufs c"
  by (drule http_exchange_keeps) auto

lemma bufs_open_rudp: "open_rudp env c = Finished c' \<Longrightarrow> bufs c' = bufs c"
  by (auto simp: open_rudp_def split: option.splits prod.splits bool.splits if_splits)

lemma bufs_start_rudp [simp]: "bufs (start_rudp env use_tcp c) = bufs c"
  by (simp add: start_rudp_def Let_def split: option.split prod.split bool.split)

lemma bufs_session_id [simp]: "bufs (choose_session_id env c) = bufs c"
  by (simp add: choose_session_id_def Let_def)

lemma bufs_promote [simp]: "bufs (promote env res c) = bufs c"
  by (simp add: promote_def Let_def split: option.split)

lemma bufs_race: "softether_connect_parallel_race env ip port host c = (r, c') \<Longrightarrow> bufs c' = bufs c"
  by (auto simp: softether_connect_parallel_race_def Let_def split: main_stage.splits option.splits)

lemma bufs_relay: "softether_try_nat_t_connect env ip c = Finished (e, c') \<Longrightarrow> bufs c' = bufs c"
  by (auto simp: softether_try_nat_t_connect_def relay_session_def relay_failed_def Let_def
      split: option.splits outcome.splits prod.splits if_splits)

lemma bufs_tcp: "tcp_then_tls env host port ip c = (e, ip', c') \<Longrightarrow> bufs c' = bufs c"
proof -
  assume a: "tcp_then_tls env host port ip c = (e, ip', c')"
  obtain ok ip1 c1 where t: "tcp_attempt env host port ip c = (ok, ip1, c1)" by (metis prod_cases3)
  have c1: "bufs c1 = bufs c" using tcp_attempt_result [OF t] by auto
  obtain e2 c2 where h: "perform_tls_handshake env c1 = (e2, c2)" by (rule prod.exhaust)
  show ?thesis using a t c1 h bufs_tls [OF h] by (cases ok) (auto simp: tcp_then_tls_def split: if_splits)
qed

lemma bufs_open_link: "open_link env host port ip c = (ip', c') \<Longrightarrow> bufs c' = bufs c"
  by (auto simp: open_link_def race_fallback_def dest!: bufs_race bufs_tcp split: if_splits prod.splits)
    (metis bufs_race bufs_disconnect prod.collapse)+

section \<open>What changes them\<close>

lemma hello_element_random:
  assumes "hello_element name ty n p i = Some (i', p')" "length (sh_random i) = 20"
  shows "length (sh_random i') = 20"
proof -
  have "length d \<le> 20" if "pack_read_data_safe q 20 = Some (d, r)" for q d r
    using that by (auto simp: pack_read_data_safe_def split: Option.bind_splits if_splits)
  then show ?thesis using assms
    by (fastforce simp: hello_element_def split: if_splits Option.bind_splits)
qed

lemma hello_elements_random:
  "hello_elements n p i = Some i' \<Longrightarrow> length (sh_random i) = 20 \<Longrightarrow> length (sh_random i') = 20"
proof (induction n p i rule: hello_elements.induct)
  case (2 n p i)
  obtain name ty k q i1 q1 where e: "proto_elem_header p = Some (name, ty, k, q)" "hello_element name ty k q i = Some (i1, q1)"
    "hello_elements n q1 i1 = Some i'" using 2(2) by (auto split: Option.bind_splits)
  show ?case using 2(1) [OF e(1) refl refl refl e(2) refl e(3)] hello_element_random [OF e(2) 2(3)] by simp
qed simp

lemma parse_server_hello_random: "parse_server_hello b = Some i \<Longrightarrow> length (sh_random i) = 20"
  by (auto simp: parse_server_hello_def hello0_def split: if_splits Option.bind_splits
      dest!: hello_elements_random)

lemma wf_watermark_answer: "client_wf c \<Longrightarrow> client_wf (snd (watermark_answer h b c))"
  by (auto simp: watermark_answer_def store_random_def client_wf_def Let_def dest: parse_server_hello_random split: option.split)

lemma wf_watermark:
  assumes "send_vpnconnect_watermark env host c = Finished (r, c')" "client_wf c"
  shows "client_wf c'"
proof -
  have x: "client_wf c1" if "http_exchange 4096 req c = (y, c1)" for req y c1
    using client_wf_cong [OF bufs_exchange [OF that]] assms(2) by simp
  show ?thesis
    using assms wf_watermark_answer x
    by (auto simp: send_vpnconnect_watermark_def split: if_splits outcome.splits option.splits prod.splits)
      (metis snd_conv)+
qed

lemma wf_login_answer:
  assumes "login_answer h b c = (e, c')" "client_wf c"
  shows "client_wf c'"
proof -
  obtain e1 s where r: "process_login_response h b (login_view c) = (e1, s)" by (rule prod.exhaust)
  have v: "session_bufs_ok (login_view c)" using assms(2) by (simp add: login_view_def client_wf_def session_bufs_ok_def)
  have "session_bufs_ok s" using login_response_bufs [OF v, of h b] r by simp
  then show ?thesis using assms r
    by (auto simp: login_answer_def login_store_def on_conn_def client_wf_def session_bufs_ok_def split: if_splits)
qed

lemma wf_credentials: "client_wf c \<Longrightarrow> client_wf (store_credentials user pw c)"
  by (auto simp: store_credentials_def set_state_def on_conn_def client_wf_def snprintf_s_def)

lemma wf_authentication:
  assumes "perform_authentication_http env user pw c = Finished (e, c')" "client_wf c"
  shows "client_wf c'"
proof -
  let ?c = "store_credentials user pw c"
  have x: "client_wf c1" if "http_exchange 8192 req ?c = (y, c1)" for req y c1
    using client_wf_cong [OF bufs_exchange [OF that]] wf_credentials [OF assms(2)] by simp
  show ?thesis
    using assms wf_credentials [OF assms(2)] wf_login_answer x
    by (auto simp: perform_authentication_http_def Let_def split: outcome.splits if_splits option.splits prod.splits)
qed

lemma wf_protocol_login:
  assumes "softether_protocol_login env host user pw use_tcp c = Finished (e, c')" "client_wf c"
  shows "client_wf c'"
proof -
  obtain r c1 where w: "send_vpnconnect_watermark env host c = Finished (r, c1)"
    using assms(1) by (auto simp: softether_protocol_login_def run_bind_Finished)
  note c1 = wf_watermark [OF w assms(2)]
  show ?thesis
  proof (cases "r < 0")
    case True
    then show ?thesis using assms(1) w c1 by (simp add: softether_protocol_login_def)
  next
    case False
    then obtain c2 where c2: "(if \<not> use_tcp \<and> \<not> using_nat_t (tun c1) then open_rudp env c1
            else Finished (on_conn (\<lambda>k. k\<lparr>conn_rudp := None\<rparr>) c1)) = Finished c2"
      and a: "perform_authentication_http env user pw c2 = Finished (e, c')"
      using assms w by (auto simp: softether_protocol_login_def run_bind_Finished)
    have "bufs c2 = bufs c1" using c2 bufs_open_rudp [of env c1 c2] by (auto split: if_splits)
    then show ?thesis using wf_authentication [OF a] client_wf_cong c1 by blast
  qed
qed

lemma wf_login_over_relay:
  assumes "login_over_relay env host user pw use_tcp ip c = Finished (e, c')" "client_wf c"
  shows "client_wf c'"
proof -
  obtain e1 c1 where r: "softether_try_nat_t_connect env ip (softether_disconnect c) = Finished (e1, c1)"
    using assms(1) by (auto simp: login_over_relay_def run_bind_Finished)
  obtain e2 c2 where h: "perform_tls_handshake env c1 = (e2, c2)" by (rule prod.exhaust)
  have "bufs c1 = bufs c" "bufs c2 = bufs c" using bufs_relay [OF r] bufs_tls [OF h] by simp_all
  then have "client_wf c1" "client_wf c2" using assms(2) client_wf_cong by blast+
  then show ?thesis
    using assms(1) r h wf_protocol_login [of env host user pw use_tcp c2 e c']
    by (auto simp: login_over_relay_def split: if_splits)
qed

lemma wf_login:
  assumes "login env host user pw use_tcp ip c = Finished (e, c')" "client_wf c"
  shows "client_wf c'"
proof -
  obtain e1 c1 where l: "softether_protocol_login env host user pw use_tcp c = Finished (e1, c1)"
    using assms(1) by (auto simp: login_def run_bind_Finished)
  show ?thesis
    using assms(1) l wf_protocol_login [OF l assms(2)] wf_login_over_relay [of env host user pw use_tcp ip c1 e c']
    by (auto simp: login_def split: if_splits)
qed

lemma put_str_fits: "length old < n \<Longrightarrow> length (put_str n s old) < n"
  by (auto simp: put_str_def snprintf_s_def)

lemma snprintf_fits: "0 < n \<Longrightarrow> length (snprintf_s n s) < n"
  by (simp add: snprintf_s_def)

lemma wf_client_info:
  assumes "client_wf c"
  shows "client_wf (store_client_info i c)"
proof -
  have w: "info_wf (cinfo (store_client_info i c))"
    using assms unfolding client_wf_def info_wf_def store_client_info_def Let_def
    by (simp add: put_str_fits snprintf_fits)
  have "length (server_ip_v6 (store_client_info i c)) < 128"
    using assms by (simp add: client_wf_def store_client_info_def snprintf_fits Let_def)
  then show ?thesis using assms w by (simp add: client_wf_def) (simp add: store_client_info_def Let_def)
qed

lemma wf_hub: "client_wf c \<Longrightarrow> client_wf (store_hub h c)"
  by (simp add: store_hub_def client_wf_def snprintf_fits lit_def split: option.split)

lemma wf_begin: "client_wf c \<Longrightarrow> client_wf (begin_connect a c)"
proof -
  assume w: "client_wf c"
  have "bufs (begin_connect a c) = bufs (store_hub (a_hub_name a) (store_client_info (a_info a) c))"
    by (simp add: begin_connect_def release_transport_def take_nat_t_transport_def adopt_transport_def set_transport_def store_hub_def
        store_client_info_def set_state_def on_conn_def bufs_def Let_def split: option.split)
  then show ?thesis using client_wf_cong wf_hub [OF wf_client_info [OF w]] by blast
qed

lemma wf_store_server: "client_wf c \<Longrightarrow> client_wf (store_server ip port c)"
  by (auto simp: store_server_def client_wf_def snprintf_s_def)

lemma wf_plan_links: "client_wf c \<Longrightarrow> client_wf (plan_links env c)"
  using clamp_bounds [of "max_connection (tun c)" "server_max_connection (sess c)"]
  by (auto simp: plan_links_def tick_now_def client_wf_def Let_def)

lemma additional_keeps_bufs:
  assumes "softether_additional_connect env t = Ret (r, t')"
  shows "client_mac t' = client_mac t \<and> conn_session_key t' = conn_session_key t \<and> conn_server_ip t' = conn_server_ip t"
  using assms
  by (auto simp: softether_additional_connect_def link_handshake_def link_failed_def drop_link_def adopt_link_def Let_def
      split: if_splits option.splits outcome.splits prod.splits)

lemma wf_first_additional:
  assumes "softether_establish_first_additional env (tun c) = Ret (r, t)" "client_wf c"
  shows "client_wf (c\<lparr>tun := t\<rparr>)"
proof -
  obtain r1 t1 where a: "softether_additional_connect env (tun c) = Ret (r1, t1)"
    using assms(1) by (auto simp: softether_establish_first_additional_def split: outcome.splits)
  have "client_mac t = client_mac t1 \<and> conn_session_key t = conn_session_key t1 \<and> conn_server_ip t = conn_server_ip t1"
    using assms(1) a by (auto simp: softether_establish_first_additional_def split: if_splits)
  then show ?thesis using marks_first_additional [OF assms(1)] additional_keeps_bufs [OF a] assms(2) by (simp add: client_wf_def)
qed

lemma wf_finish:
  assumes "finish_connect env use_tcp c = Finished (e, c')" "client_wf c"
  shows "client_wf c'"
proof -
  let ?c = "plan_links env (set_state STATE_CONNECTED (choose_session_id env (set_state STATE_SESSION_SETUP (start_rudp env use_tcp c))))"
  have w: "client_wf ?c" by (rule wf_plan_links, subst client_wf_cong [of _ c]) (simp_all add: assms(2))
  have d: "client_wf (softether_disconnect ?c)" using w client_wf_cong [of "softether_disconnect ?c" ?c] by simp
  show ?thesis
    using assms(1) w d wf_first_additional [of "te env" ?c] unfolding finish_connect_def Let_def
    by (auto split: if_splits outcome.splits)
qed

lemma wf_connect:
  assumes "softether_connect_with_hub env a c = Finished (e, c')" "client_wf c"
  shows "client_wf c'"
proof (cases "a_host a = None \<or> a_username a = None \<or> a_password a = None")
  case True
  then show ?thesis using assms by (auto simp: softether_connect_with_hub_def split: option.splits)
next
  case False
  then obtain host user pw where args: "a_host a = Some host" "a_username a = Some user" "a_password a = Some pw" by auto
  let ?b = "begin_connect a c"
  have b: "client_wf (set_os s ?b)" for s using wf_begin [OF assms(2)] client_wf_cong [of "set_os s ?b" ?b] by simp
  obtain r s where q: "resolve_hostname (ce_os env) (Some host) 64 (cl_os ?b) = (r, s)" by (rule prod.exhaust)
  show ?thesis
  proof (cases r)
    case None
    then show ?thesis using assms(1) args q b client_wf_cong [of "set_state STATE_DISCONNECTED (set_os s ?b)" "set_os s ?b"]
      by (simp add: softether_connect_with_hub_def) auto
  next
    case (Some ip)
    obtain ip1 c1 where o: "open_link env host (a_port a) ip (set_os s ?b) = (ip1, c1)" by (rule prod.exhaust)
    obtain e2 c2 where l: "login env host user pw (a_use_tcp a) ip1 (store_server ip1 (a_port a) c1) = Finished (e2, c2)"
      and f: "(if e2 \<noteq> ERR_NONE then Finished (e2, softether_disconnect c2) else finish_connect env (a_use_tcp a) c2) = Finished (e, c')"
      using assms(1) args q Some o
      by (auto simp: softether_connect_with_hub_def connect_resolved_def run_bind_Finished)
    have "client_wf c1" using client_wf_cong [OF bufs_open_link [OF o]] b by simp
    then have "client_wf c2" using wf_login [OF l] wf_store_server by blast
    then show ?thesis
      using f wf_finish client_wf_cong [of "softether_disconnect c2" c2] by (auto split: if_splits)
  qed
qed

section \<open>Every operation\<close>

text \<open>The operations of a connection's life, in any order and with any arguments.\<close>

inductive client_step :: "client_env \<Rightarrow> client_t \<Rightarrow> client_t \<Rightarrow> bool" for env where
  connect: "softether_connect_with_hub env a c = Finished (e, c') \<Longrightarrow> client_step env c c'"
| reconnect: "softether_reconnect env c = Finished (e, c') \<Longrightarrow> client_step env c c'"
| disconnect: "client_step env c (softether_disconnect c)"
| force: "client_step env c (softether_force_close_socket c)"
| auth_type: "client_step env c (softether_set_auth_type ty c)"
| mac: "length m = 6 \<Longrightarrow> client_step env c (softether_set_client_mac (Some m) c)"
| no_mac: "client_step env c (softether_set_client_mac None c)"

lemma bufs_force [simp]: "bufs (softether_force_close_socket c) = bufs c"
proof -
  have "bufs (fold shut_fd ns c) = bufs c" for ns c
    by (induction ns arbitrary: c) (simp_all add: shut_fd_def)
  then show ?thesis by (simp add: softether_force_close_socket_def)
qed

lemma client_step_wf: "client_step env c c' \<Longrightarrow> client_wf c \<Longrightarrow> client_wf c'"
proof (induction rule: client_step.induct)
  case (connect a c e c')
  then show ?case using wf_connect by blast
next
  case (reconnect c e c')
  have "client_wf (softether_disconnect c)" using reconnect.prems client_wf_cong [OF bufs_disconnect [of c]] by simp
  then show ?case using reconnect wf_connect by (auto simp: softether_reconnect_def Let_def split: if_splits)
next
  case (disconnect c)
  then show ?case using client_wf_cong [OF bufs_disconnect [of c]] by simp
next
  case (force c)
  then show ?case using client_wf_cong [OF bufs_force [of c]] by simp
qed (simp_all add: softether_set_auth_type_def softether_set_client_mac_def client_wf_def)

lemma created_wf: "softether_create env ok w = Some c \<Longrightarrow> client_wf c"
  by (auto simp: softether_create_def new_tun_def zero_session_def zero_info_def client_wf_def info_wf_def session_bufs_ok_def
      lit_def split: if_splits)

interpretation client_life: step_invariant "client_step env" client_wf for env
  by unfold_locales (rule client_step_wf)

lemma fields_fit: "softether_create env ok w = Some c \<Longrightarrow> (client_step env)\<^sup>*\<^sup>* c c' \<Longrightarrow> client_wf c'"
  using created_wf client_life.run_keeps by blast

end
