(* ===== verification/Connect_Live.thy ===== *)
theory Connect_Live
  imports Connect_Bufs
begin

text \<open>
  A connect that must succeed: what a server has to answer for \<^verbatim>\<open>softether_connect_with_hub\<close>
  to end in a session over TCP, and what it leaves in the streams.
\<close>

section \<open>One exchange\<close>

text \<open>A sink that takes whole requests until \<open>n\<close> bytes have gone.\<close>

definition roomy :: "nat \<Rightarrow> outstream \<Rightarrow> bool" where
  "roomy n s \<longleftrightarrow> n \<le> wroom s \<and> (\<forall>i. wroom s \<le> wchunk s i)"

lemma write_whole:
  assumes "roomy n (txs k fd)" "length bs \<le> n" "bs \<noteq> []"
  shows "\<exists>k'. write_once fd bs k = (True, k') \<and> rxs k' = rxs k \<and> roomy (n - length bs) (txs k' fd) \<and>
    written (txs k' fd) = written (txs k fd) @ bs"
proof -
  have "length bs \<le> wchunk (txs k fd) i" for i using assms unfolding roomy_def by (meson le_trans)
  then have "min (min (length bs) (Suc (wchunk (txs k fd) i))) (wroom (txs k fd)) = length bs" for i
    using assms(1,2) unfolding roomy_def by (simp add: le_SucI)
  then have "sock_write bs (txs k fd) = (length bs, (txs k fd)\<lparr>written := written (txs k fd) @ bs,
      wroom := wroom (txs k fd) - length bs, wcalls := wcalls (txs k fd) + 1\<rparr>)"
    by (simp add: sock_write_def Let_def)
  then show ?thesis
    using assms by (auto simp: write_once_def roomy_def intro: diff_le_mono le_trans [OF diff_le_self])
qed

text \<open>What an exchange needs of the connection, and what it leaves.\<close>

lemma exchange_whole:
  assumes "roomy n (txs (cl_conn c) (socket_fd (cl_conn c)))" "length req \<le> n" "req \<noteq> []"
    and "avail (rxs (cl_conn c) (socket_fd (cl_conn c))) = h @ b @ r" "http_head h"
    and "content_length_of h = word_of_nat (length b)" "length h + length b < N" "N < 2 ^ 31"
  shows "\<exists>c'. http_exchange N req c = (Ret (h, b), c') \<and>
    roomy (n - length req) (txs (cl_conn c') (socket_fd (cl_conn c))) \<and>
    written (txs (cl_conn c') (socket_fd (cl_conn c))) = written (txs (cl_conn c) (socket_fd (cl_conn c))) @ req \<and>
    avail (rxs (cl_conn c') (socket_fd (cl_conn c))) = r"
proof -
  let ?fd = "socket_fd (cl_conn c)"
  obtain k where k: "write_once ?fd req (cl_conn c) = (True, k)" "rxs k = rxs (cl_conn c)"
    "roomy (n - length req) (txs k ?fd)" "written (txs k ?fd) = written (txs (cl_conn c) ?fd) @ req"
    using write_whole [OF assms(1-3)] by blast
  have "avail (rxs k ?fd) = h @ b @ r" using k(2) assms(4) by simp
  note x = http_response_exact [OF assms(5) this assms(6-8)]
  obtain y s where y: "read_http_response N (rxs k ?fd) = (y, s)" by (rule prod.exhaust)
  then show ?thesis
    using k x by (auto simp: http_exchange_def set_rx_def on_conn_def)
qed

section \<open>The login PACK of a connection\<close>

lemma decimal_length5: "n < 100000 \<Longrightarrow> length (decimal n) \<le> 5"
  by (simp add: decimal.simps [of n] decimal.simps [of "n div 10"] decimal.simps [of "n div 10 div 10"]
      decimal.simps [of "n div 10 div 10 div 10"] decimal.simps [of "n div 10 div 10 div 10 div 10"])

lemma secure_password_length: "length (secure_password_of h pw user r) = 20"
  by (simp add: secure_password_of_def Let_def split: option.split)

lemma login_elems_small:
  assumes "info_wf (info a)" "length (hub_name a) < 256" "length (login_user a) < 256" "login_udp a = None"
    and "\<forall>h. secure_password a = Some h \<longrightarrow> length h = 20" "\<forall>p. plain_password a = Some p \<longrightarrow> length p < 256"
  shows "length (ser_pack (login_elems env a)) < 8000"
proof -
  obtain m where m: "rand env 0 mod 1000 = m" "m < 1000" by simp
  have l: "length (client_product_name (info a)) < 128" "length (client_os_name (info a)) < 128"
    "length (client_os_version (info a)) < 64" "length (client_os_product_id (info a)) < 128"
    "length (client_host_name (info a)) < 128" "length (server_host_name (info a)) < 128"
    "length (client_ip_v6 (info a)) < 128" using assms(1) by (simp_all add: info_wf_def)
  show ?thesis
    using assms(2-6) l m(2)
    by (cases "secure_password a"; cases "plain_password a"; cases "client_ip_v6 (info a) = []")
      (simp_all add: ser_pack_def login_elems_def call_elems_def login_calls_def pencore_of_def m(1) ser_elem_def
        client_hello_def lit_def Let_def)
qed

lemma login_pack_small:
  assumes "client_wf c" "conn_rudp (cl_conn c) = None" "length user < 256" "length pw < 256"
  shows "length (ser_pack (login_elems (ce_login env) (login_args_of env user pw c))) < 8000"
  by (rule login_elems_small) (use assms secure_password_length in
    \<open>auto simp: login_args_of_def get_udp_def client_wf_def info_wf_def Let_def split: if_splits\<close>)

section \<open>The login\<close>

text \<open>A complete response that fits the reader's buffer, and one that takes the login.\<close>

definition answers :: "nat \<Rightarrow> bytes \<Rightarrow> bytes \<Rightarrow> bool" where
  "answers n h b \<longleftrightarrow> http_head h \<and> content_length_of h = word_of_nat (length b) \<and> length h + length b < n"

definition accepts :: "bytes \<Rightarrow> pelem list \<Rightarrow> u32 \<Rightarrow> bool" where
  "accepts h es m \<longleftrightarrow> answers 8192 h (ser_pack es) \<and> cstring h \<and> is_prefix (lit ''HTTP/1.1 200'') h \<and>
     list_all elem_ok es \<and> length es \<le> PACK_MAX_ELEMENTS \<and> lookup_int es (lit ''error'') = Some 0 \<and>
     lookup_int es (lit ''half_connection'') = Some 0 \<and> lookup_int es (lit ''max_connection'') = Some m"

text \<open>Memory for the requests, a date, and a digest of the right size.\<close>

definition ready :: "client_env \<Rightarrow> bool" where
  "ready env \<longleftrightarrow> (\<forall>n. can_alloc (cl_heap env) n) \<and> length (ce_date env) \<le> 63 \<and>
     length (lsha1 (ce_login env) (lit ''SoftEtherVPN_Android_Client'')) = 20"

lemma auth_request_ok:
  assumes "\<forall>n. can_alloc h n" "length date \<le> 63" "length ip \<le> 63" "length pack < 100000"
  shows "auth_request h date ip pack = Ret (vpn_cgi_head date ip (length pack) @ pack)"
    "length (vpn_cgi_head date ip (length pack)) \<le> 500"
proof -
  show l: "length (vpn_cgi_head date ip (length pack)) \<le> 500"
    using assms decimal_length5 [OF assms(4)] by (simp add: vpn_cgi_head_def lit_def)
  then show "auth_request h date ip pack = Ret (vpn_cgi_head date ip (length pack) @ pack)"
    using assms(1) by (simp add: auth_request_def read_at_def Let_def)
qed

lemma view_half:
  assumes "accepts h es m"
  shows "\<exists>s. process_login_response h (ser_pack es) v = (ERR_NONE, s) \<and> half_connection s = 0 \<and>
    server_max_connection s = m \<and> session_established s"
proof -
  have ok: "\<forall>e \<in> set es. elem_ok e" "length es \<le> PACK_MAX_ELEMENTS" "cstring h" "is_prefix (lit ''HTTP/1.1 200'') h"
    "lookup_int es (lit ''error'') = Some 0" using assms by (simp_all add: accepts_def list_all_iff)
  have g: "get_int_or (ser_pack es) ''half_connection'' x = 0" "get_int_or (ser_pack es) ''max_connection'' x = m" for x
    using assms proto_get_int_ser [OF ok(1,2)] by (simp_all add: accepts_def get_int_or_def)
  show ?thesis
    unfolding login_response_cases [OF ok]
    by (simp add: g parse_udp_fields_def parse_session_fields_def Let_def)
qed

lemma authentication_succeeds:
  assumes c: "client_wf c" "conn_rudp (cl_conn c) = None" "length user < 256" "length pw < 256" "ready env"
    and s: "avail (rxs (cl_conn c) (socket_fd (cl_conn c))) = h @ ser_pack es @ r" "accepts h es m"
      "roomy 8500 (txs (cl_conn c) (socket_fd (cl_conn c)))"
  shows "\<exists>c'. perform_authentication_http env user pw c = Finished (ERR_NONE, c') \<and>
    avail (rxs (cl_conn c') (socket_fd (cl_conn c))) = r \<and> half_connection (sess c') = 0 \<and>
    server_max_connection (sess c') = m \<and> conn_rudp (cl_conn c') = None \<and> max_connection (tun c') = max_connection (tun c)"
proof -
  let ?c = "store_credentials user pw c" and ?fd = "socket_fd (cl_conn c)"
  have k: "client_wf ?c" "conn_rudp (cl_conn ?c) = None" "socket_fd (cl_conn ?c) = ?fd" "rxs (cl_conn ?c) = rxs (cl_conn c)"
    "txs (cl_conn ?c) = txs (cl_conn c)"
    using wf_credentials [OF c(1)] c(2) by (simp_all add: store_credentials_def set_state_def on_conn_def)
  let ?a = "login_args_of env user pw ?c"
  let ?p = "ser_pack (login_elems (ce_login env) ?a)"
  note small = login_pack_small [OF k(1,2) c(3,4), of env]
  have ok: "login_args_ok (ce_login env) ?a"
    using small c(5) k(2) secure_password_length
    by (auto simp: login_args_ok_def ready_def login_args_of_def get_udp_def Let_def)
  have b: "build_login_pack (ce_login env) ?a = Ret ?p" "?p \<noteq> []"
    using build_login_pack_ser [OF ok] c(5) by (auto simp: ready_def ser_pack_def put_be32_def)
  have ip: "length (conn_server_ip (tun ?c)) \<le> 63" using k(1) by (simp add: client_wf_def)
  note q = auth_request_ok [of "cl_heap env" "ce_date env" "conn_server_ip (tun ?c)" ?p]
  let ?q = "vpn_cgi_head (ce_date env) (conn_server_ip (tun ?c)) (length ?p) @ ?p"
  have q1: "auth_request (cl_heap env) (ce_date env) (conn_server_ip (tun ?c)) ?p = Ret ?q" "length ?q \<le> 8500" "?q \<noteq> []"
    using q ip small c(5) b(2) by (auto simp: ready_def)
  obtain c1 where x: "http_exchange 8192 ?q ?c = (Ret (h, ser_pack es), c1)" "avail (rxs (cl_conn c1) ?fd) = r"
    using exchange_whole [of 8500 ?c ?q h "ser_pack es" r 8192] s k q1(2,3) by (auto simp: accepts_def answers_def)
  obtain t where t: "process_login_response h (ser_pack es) (login_view c1) = (ERR_NONE, t)" "half_connection t = 0"
    "server_max_connection t = m" using view_half [OF s(2)] by blast
  have "conn_rudp (cl_conn c1) = None" using same_link_exchange [OF x(1)] k(2) by (simp add: same_link_def)
  moreover have "max_connection (tun c1) = max_connection (tun c)"
    using bufs_exchange [OF x(1)] by (simp add: bufs_def store_credentials_def set_state_def on_conn_def)
  ultimately show ?thesis
    using b q1(1) x t
    by (simp add: perform_authentication_http_def login_answer_def login_store_def store_conn_def on_conn_def Let_def)
qed

section \<open>The connect\<close>

lemma wf_open: "client_wf c \<Longrightarrow> bufs c' = bufs c \<Longrightarrow> client_wf c'"
  using client_wf_cong by blast

lemma watermark_succeeds:
  assumes "conn_ssl (cl_conn c) \<noteq> None" "ready env" "length host \<le> 908"
    and "avail (rxs (cl_conn c) (socket_fd (cl_conn c))) = h @ b @ r" "answers 4096 h b"
      "roomy n (txs (cl_conn c) (socket_fd (cl_conn c)))" "1033 \<le> n"
  shows "\<exists>v c'. send_vpnconnect_watermark env host c = Finished (v, c') \<and> 0 \<le> v \<and>
    avail (rxs (cl_conn c') (socket_fd (cl_conn c))) = r \<and> roomy (n - 1033) (txs (cl_conn c') (socket_fd (cl_conn c))) \<and>
    max_connection (tun c') = max_connection (tun c)"
proof -
  let ?fd = "socket_fd (cl_conn c)" and ?q = "vpnconnect_head host @ lit ''VPNCONNECT''"
  have l: "length (vpnconnect_head host) = 115 + length host" by (simp add: vpnconnect_head_def lit_def)
  then have q: "watermark_request host = Ret ?q" "length ?q \<le> 1033" "?q \<noteq> []"
    using assms(3) by (auto simp: watermark_request_def Let_def read_at_def lit_def)
  obtain c1 where x: "http_exchange 4096 ?q c = (Ret (h, b), c1)" "avail (rxs (cl_conn c1) ?fd) = r"
    "roomy (n - length ?q) (txs (cl_conn c1) ?fd)"
    using exchange_whole [of n c ?q h b r 4096] assms(4-7) q(2,3) by (auto simp: answers_def)
  obtain v c2 where a: "watermark_answer h b c1 = (v, c2)" by (rule prod.exhaust)
  have "0 \<le> v" using a by (auto simp: watermark_answer_def Let_def split: if_splits)
  moreover have "tun c2 = tun c1" using watermark_answer_keeps(1) [of h b c1] a by simp
  moreover have "max_connection (tun c1) = max_connection (tun c)" using bufs_exchange [OF x(1)] by (simp add: bufs_def)
  moreover have "roomy (n - 1033) (txs (cl_conn c1) ?fd)" using x(3) q(2) by (auto simp: roomy_def)
  moreover have "send_vpnconnect_watermark env host c = Finished (v, c2)"
    using assms(1,2) q(1) x(1) a by (auto simp: send_vpnconnect_watermark_def ready_def)
  ultimately show ?thesis using x(2) by auto
qed

text \<open>The login over a secured link whose server answers both requests.\<close>

lemma login_succeeds:
  assumes c: "client_wf c" "conn_ssl (cl_conn c) \<noteq> None" "ready env" "length host \<le> 908" "length user < 256" "length pw < 256"
    and s: "avail (rxs (cl_conn c) (socket_fd (cl_conn c))) = h1 @ b1 @ h2 @ ser_pack es @ r" "answers 4096 h1 b1"
      "accepts h2 es m" "roomy 16384 (txs (cl_conn c) (socket_fd (cl_conn c)))"
  shows "\<exists>c'. softether_protocol_login env host user pw True c = Finished (ERR_NONE, c') \<and>
    avail (rxs (cl_conn c') (socket_fd (cl_conn c))) = r \<and> half_connection (sess c') = 0 \<and>
    server_max_connection (sess c') = m \<and> conn_rudp (cl_conn c') = None \<and> max_connection (tun c') = max_connection (tun c)"
proof -
  obtain v c1 where w: "send_vpnconnect_watermark env host c = Finished (v, c1)" "0 \<le> v"
    "avail (rxs (cl_conn c1) (socket_fd (cl_conn c))) = h2 @ ser_pack es @ r"
    "roomy 15351 (txs (cl_conn c1) (socket_fd (cl_conn c)))" "max_connection (tun c1) = max_connection (tun c)"
    using watermark_succeeds [OF c(2-4) s(1,2,4)] by auto
  let ?c = "on_conn (\<lambda>k. k\<lparr>conn_rudp := None\<rparr>) c1"
  have f: "socket_fd (cl_conn c1) = socket_fd (cl_conn c)" using watermark_result(1) [OF w(1)] by (simp add: same_link_def handles_def)
  have k1: "client_wf ?c" by (rule wf_open [OF wf_watermark [OF w(1) c(1)]]) simp
  have k: "conn_rudp (cl_conn ?c) = None" "socket_fd (cl_conn ?c) = socket_fd (cl_conn c)"
    "rxs (cl_conn ?c) = rxs (cl_conn c1)" "txs (cl_conn ?c) = txs (cl_conn c1)" "max_connection (tun ?c) = max_connection (tun c)"
    using f w(5) by (simp_all add: on_conn_def [of _ c1])
  have "roomy 8500 (txs (cl_conn ?c) (socket_fd (cl_conn ?c)))" using w(4) k(2,4) by (simp add: roomy_def)
  from authentication_succeeds [OF k1 k(1) c(5,6,3) _ s(3) this, of r] w(3) k(2,3)
  obtain c' where "perform_authentication_http env user pw ?c = Finished (ERR_NONE, c')"
    "avail (rxs (cl_conn c') (socket_fd (cl_conn c))) = r" "half_connection (sess c') = 0"
    "server_max_connection (sess c') = m" "conn_rudp (cl_conn c') = None" "max_connection (tun c') = max_connection (tun c)"
    using k(5) by auto
  then show ?thesis using w(1,2) by (simp add: softether_protocol_login_def)
qed

lemma finish_succeeds:
  assumes "conn_rudp (cl_conn c) = None" "half_connection (sess c) = 0" "\<not> using_nat_t (tun c)" "0 \<le> socket_fd (cl_conn c)"
  shows "\<exists>c'. finish_connect env True c = Finished (ERR_NONE, c') \<and> rxs (cl_conn c') = rxs (cl_conn c) \<and>
    session_marks (cl_conn c') = (STATE_CONNECTED, snd (session_marks (cl_conn c))) \<and>
    max_connection (tun c') = clamp_connections (server_max_connection (sess c)) (max_connection (tun c))"
  using assms
  by (simp add: finish_connect_def start_rudp_def get_udp_def choose_session_id_def plan_links_def tick_now_def set_state_def
      on_conn_def session_marks_def Let_def)

lemma begin_connect_keeps:
  assumes "released c"
  shows "cl_os (begin_connect a c) = cl_os c" "tls_i (begin_connect a c) = tls_i c"
    "conn_ssl (cl_conn (begin_connect a c)) = None" "conn_ssl_ctx (cl_conn (begin_connect a c)) = None"
    "\<not> using_nat_t (tun (begin_connect a c))" "udp_only (begin_connect a c) = udp_only c"
    "max_connection (tun (begin_connect a c)) = max_connection (tun c)"
  using assms
  by (simp_all add: begin_connect_def store_hub_def store_client_info_def release_transport_def take_nat_t_transport_def
      adopt_transport_def set_transport_def set_state_def on_conn_def released_def Let_def split: option.split)

lemma connect_reaches:
  assumes client: "client_wf c" "released c" "\<not> udp_only c" "ready env"
    and args: "a_host a = Some host" "length host \<le> 908" "a_username a = Some user" "length user < 256"
      "a_password a = Some pw" "length pw < 256" "a_use_tcp a"
    and tcp: "resolve_hostname (ce_os env) (Some host) 64 (cl_os c) = (Some ip, s)"
      "tcp_attempt env host (a_port a) ip (set_os s (begin_connect a c)) = (True, ip1, c1)"
    and tls: "ce_ctx env (tls_i c) = Some x" "ce_tls env (tls_i c)"
    and server: "avail (ce_in env (tls_i c)) = h1 @ b1 @ h2 @ ser_pack es @ r" "answers 4096 h1 b1" "accepts h2 es m"
      "roomy 16384 (ce_out env (tls_i c))"
  shows "\<exists>c'. softether_connect_with_hub env a c = Finished (ERR_NONE, c') \<and> cstate (cl_conn c') = STATE_CONNECTED \<and>
    socket_fd (cl_conn c') = socket_fd (cl_conn c1) \<and> conn_ssl (cl_conn c') = Some x \<and>
    conn_session_established (cl_conn c') \<and> max_connection (tun c') = clamp_connections m (max_connection (tun c)) \<and>
    avail (rxs (cl_conn c') (socket_fd (cl_conn c'))) = r"
proof -
  let ?b = "set_os s (begin_connect a c)"
  note b = begin_connect_keeps [OF client(2), of a]
  obtain fd s1 where c1: "c1 = set_os s1 (on_conn (\<lambda>k. k\<lparr>socket_fd := fd\<rparr>) ?b)" "0 \<le> fd"
    using tcp_attempt_result [OF tcp(2)] by auto
  have w1: "client_wf c1" by (rule wf_open [OF wf_begin [OF client(1), of a]]) (simp add: c1(1))
  have k1: "tls_i c1 = tls_i c" "socket_fd (cl_conn c1) = fd" "\<not> using_nat_t (tun c1)" "max_connection (tun c1) = max_connection (tun c)"
    using b by (simp_all add: c1(1) set_os_def on_conn_def)
  define c2 where "c2 = snd (perform_tls_handshake env c1)"
  have t: "perform_tls_handshake env c1 = (ERR_NONE, c2)" using tls k1 c1(2) by (simp add: perform_tls_handshake_def c2_def Let_def)
  let ?c3 = "store_server ip1 (a_port a) c2"
  have w3: "client_wf ?c3" by (rule wf_store_server [OF wf_open [OF w1 bufs_tls [OF t]]])
  have k3: "socket_fd (cl_conn ?c3) = fd" "conn_ssl (cl_conn ?c3) = Some x" "\<not> using_nat_t (tun ?c3)"
    "rxs (cl_conn ?c3) fd = ce_in env (tls_i c)" "txs (cl_conn ?c3) fd = ce_out env (tls_i c)"
    "max_connection (tun ?c3) = max_connection (tun c)"
    using t tls k1 c1(2) by (auto simp: perform_tls_handshake_def store_server_def set_state_def on_conn_def Let_def)
  obtain c4 where l: "softether_protocol_login env host user pw True ?c3 = Finished (ERR_NONE, c4)"
    "avail (rxs (cl_conn c4) fd) = r" "half_connection (sess c4) = 0" "server_max_connection (sess c4) = m" "conn_rudp (cl_conn c4) = None"
    "max_connection (tun c4) = max_connection (tun c)"
    using login_succeeds [OF w3 _ client(4) args(2,4,6) _ server(2,3), of r] k3 server(1,4) by auto
  have k4: "handles c4 = handles ?c3" "same_mode c4 ?c3" "conn_session_established (cl_conn c4)"
    using protocol_login_result [OF l(1)] by simp_all
  have u4: "\<not> using_nat_t (tun c4)" "0 \<le> socket_fd (cl_conn c4)" using k4(1,2) k3(1,3) c1(2) by (simp_all add: handles_def same_mode_def)
  obtain c' where f: "finish_connect env True c4 = Finished (ERR_NONE, c')" "rxs (cl_conn c') = rxs (cl_conn c4)"
    "session_marks (cl_conn c') = (STATE_CONNECTED, snd (session_marks (cl_conn c4)))"
    "max_connection (tun c') = clamp_connections m (max_connection (tun c))"
    using finish_succeeds [OF l(5,3) u4, of env] l(4,6) by auto
  have o: "open_link env host (a_port a) ip ?b = (ip1, c2)"
    using client(3) tcp(2) t b(6) by (simp add: open_link_def tcp_then_tls_def set_os_def)
  have "softether_connect_with_hub env a c = Finished (ERR_NONE, c')"
    using args tcp(1) b(1) o l(1) f(1)
    by (simp add: softether_connect_with_hub_def connect_resolved_def login_def)
  then show ?thesis
    using f(2-4) k4 k3(1,2) k1(2) l(2) by (auto simp: session_marks_def handles_def)
qed

end
