(* ===== verification/Connect_Props.thy ===== *)
theory Connect_Props
  imports Connect_Live Connect_Ledger
begin

text \<open>
  The properties of setting up and taking down a session, and the runs they are exercised
  on: a server that accepts a login over TCP, and one that is reached over the race and
  then does not answer.
\<close>

section \<open>Connecting\<close>

text \<open>
  C6: a server that answers is reached. From a connection that holds nothing, with the name
  resolved, a TCP connection made and TLS set up, if the server's stream consists of any
  complete response to the first request and a response to the second that accepts the
  login without half connections, then the connect returns success: the session is up over
  that socket and that TLS context, the number of connections is what both sides allow, and
  the stream stands at the first byte behind the second response.
\<close>

theorem connect_completes:
  assumes client: "client_wf c" "released c" "\<not> udp_only c" "ready env"
    and args: "a_host a = Some host" "length host \<le> 908" "a_username a = Some user" "length user < 256"
      "a_password a = Some pw" "length pw < 256" "a_use_tcp a"
    and tcp: "resolve_hostname (ce_os env) (Some host) 64 (cl_os c) = (Some ip, s)"
      "tcp_attempt env host (a_port a) ip (set_os s (begin_connect a c)) = (True, ip1, c1)"
    and tls: "ce_ctx env (tls_i c) = Some x" "ce_tls env (tls_i c)"
    and server: "avail (ce_in env (tls_i c)) = h1 @ b1 @ h2 @ ser_pack es @ r" "answers 4096 h1 b1" "accepts h2 es m"
      "roomy 16384 (ce_out env (tls_i c))"
  shows "\<exists>c'. softether_connect_with_hub env a c = Finished (ERR_NONE, c') \<and> cstate (cl_conn c') = STATE_CONNECTED \<and>
    socket_fd (cl_conn c') = socket_fd (cl_conn c1) \<and> conn_ssl (cl_conn c') = Some x \<and>
    conn_session_established (cl_conn c') \<and> max_connection (tun c') = clamp_connections m (max_connection (tun c)) \<and>
    avail (rxs (cl_conn c') (socket_fd (cl_conn c'))) = r"
  by (rule connect_reaches [OF assms])

text \<open>
  C7: a connect that reports success has a session: from a connection that holds nothing,
  whatever the way (TCP, the race, the relay after a refused login), the state is
  \<^verbatim>\<open>STATE_CONNECTED\<close>, the primary descriptor is open, one TLS context serves both pointers,
  and the server has accepted the login.
\<close>

theorem connect_established:
  assumes "race_legal env" "relay_ok env" "released c" "halted c"
    and "softether_connect_with_hub env a c = Finished (ERR_NONE, c')"
  shows "cstate (cl_conn c') = STATE_CONNECTED \<and> 0 \<le> socket_fd (cl_conn c') \<and>
    conn_ssl (cl_conn c') \<noteq> None \<and> conn_ssl_ctx (cl_conn c') = conn_ssl (cl_conn c') \<and> conn_session_established (cl_conn c')"
proof -
  have "cstate (cl_conn c') = STATE_CONNECTED" "0 \<le> socket_fd (cl_conn c')" "paired c'" "conn_ssl (cl_conn c') \<noteq> None"
    "conn_session_established (cl_conn c')" using connect_ends [OF assms] by simp_all
  then show ?thesis by (metis paired_def)
qed


text \<open>
  The fields of a connection keep their types. From its creation on, whatever is connected,
  reconnected, disconnected or set, with any arguments, any answers of servers and any
  course of the attempts, every text fits its array with a terminator, the MAC address, the
  session key and the server's random have their sizes, the recorded key sizes stay within
  the key arrays, and the number of connections asked for is between 1 and 8.
\<close>

theorem client_fields_fit:
  assumes "softether_create env ok w = Some c" "(client_step env)\<^sup>*\<^sup>* c c'"
  shows "client_wf c'"
  by (rule fields_fit [OF assms])

section \<open>Disconnecting\<close>

lemma disconnect_closes:
  assumes "\<not> state_down (tc t)" "0 \<le> socket_fd (tc t)"
  shows "\<exists>l. closed_fds (tc (close_links t)) = closed_fds (tc t) @ socket_fd (tc t) # l"
proof -
  have j: "tc (join_thread t) = tc t" for t by (simp add: join_thread_def)
  have d: "closed_fds (destroy_primary c) = closed_fds c" for c by (simp add: destroy_primary_def split: option.split)
  show ?thesis
    using assms by (simp add: close_links_def softether_close_additional_def close_primary_def j d Let_def)
qed

lemma disconnect_fields:
  assumes "up c"
  shows "\<exists>ru. cl_conn (softether_disconnect c) = (tc (close_links (tun c)))\<lparr>conn_rudp := ru\<rparr>"
    "cl_closed (softether_disconnect c) = cl_closed c @ (case cl_transport c of None \<Rightarrow> [] | Some tr \<Rightarrow> transport_closes tr)"
    "cl_world (softether_disconnect c) = rudp_destroy (get_udp c) (cl_world c)"
  using assms
  by (auto simp: softether_disconnect_def up_def put_udp_def on_conn_def release_transport_def take_nat_t_transport_def
      set_transport_def Let_def split: option.split)

lemma destroy_frees:
  "os_closed (w_os (rudp_destroy (get_udp c) (cl_world c))) = os_closed (cl_os c) @
     (case conn_rudp (cl_conn c) of None \<Rightarrow> [] | Some ru \<Rightarrow> if 0 \<le> udp_fd ru then [udp_fd ru] else [])"
  "w_evp_freed (rudp_destroy (get_udp c) (cl_world c)) = w_evp_freed (cl_world c) @
     (case conn_rudp (cl_conn c) of None \<Rightarrow> [] | Some ru \<Rightarrow> (case cl_enc c of None \<Rightarrow> [] | Some x \<Rightarrow> [x]) @
       (case cl_dec c of None \<Rightarrow> [] | Some x \<Rightarrow> [x]))"
  by (auto simp: rudp_destroy_def get_udp_def free_evp_def os_close_def u_fd_def Let_def split: option.split)

text \<open>
  C25: disconnecting a connection that is up ends it and releases all it holds: it is disconnected
  and holds no descriptor, context or transport; the sockets closed are exactly its
  active ones, primary first, each listed once; the transport, when there is one, is destroyed with
  its descriptors, the UDP context with its socket and its two cipher contexts; every TLS
  context the connection owned (the primary one and those of the slots) is destroyed exactly
  once and none of the earlier ones again; no socket is left to send to or receive from,
  the invariant is intact, and disconnecting again does nothing. The frames received but not
  yet read stay queued. Without a transport, each descriptor is so closed once; with one,
  its application end is among the descriptors of the transport and is also the primary
  socket, and is closed as both.
\<close>

theorem disconnect_releases:
  assumes inv: "conn_inv (cl_conn c)" and up: "up c" and c': "c' = softether_disconnect c"
  shows "halted c' \<and> released c' \<and> conn_inv (cl_conn c') \<and> softether_disconnect c' = c' \<and>
     closed_fds (cl_conn c') = closed_fds (cl_conn c) @ softether_get_active_socket_fds 9 (tun c) \<and>
     cl_closed c' = cl_closed c @ (case cl_transport c of None \<Rightarrow> [] | Some tr \<Rightarrow> transport_closes tr) \<and>
     os_closed (cl_os c') = os_closed (cl_os c) @
       (case conn_rudp (cl_conn c) of None \<Rightarrow> [] | Some ru \<Rightarrow> if 0 \<le> udp_fd ru then [udp_fd ru] else []) \<and>
     w_evp_freed (cl_world c') = w_evp_freed (cl_world c) @
       (case conn_rudp (cl_conn c) of None \<Rightarrow> [] | Some ru \<Rightarrow> (case cl_enc c of None \<Rightarrow> [] | Some x \<Rightarrow> [x]) @
         (case cl_dec c of None \<Rightarrow> [] | Some x \<Rightarrow> [x])) \<and>
     distinct (destroyed (cl_conn c')) \<and>
     set (destroyed (cl_conn c')) = set (destroyed (cl_conn c)) \<union> set_option (conn_ssl (cl_conn c)) \<union>
       set (slot_ctxs (additional (cl_conn c))) \<and>
     softether_get_num_connections (tun c') = 0 \<and> send_candidates (cl_conn c') = [] \<and> recv_sockets (cl_conn c') = [] \<and>
     recv_queue (cl_conn c') = recv_queue (cl_conn c)"
proof -
  let ?t = "close_links (tun c)"
  have pr: "paired c" using inv by (simp add: paired_def conn_inv_def)
  have "\<not> state_down (cl_conn c)" using up by (simp add: up_def)
  note l = disconnect_ok [OF inv this refl] and d = disconnect_up [OF up] and f = disconnect_fields [OF up]
  obtain ru where ru: "cl_conn c' = (tc ?t)\<lparr>conn_rudp := ru\<rparr>" using f(1) c' by blast
  have k: "conn_inv (cl_conn c') = conn_inv (tc ?t)" "send_candidates (cl_conn c') = send_candidates (tc ?t)"
    "recv_sockets (cl_conn c') = recv_sockets (tc ?t)" "softether_get_num_connections (tun c') = softether_get_num_connections ?t"
    by (simp_all add: ru conn_inv_def ctx_owned_def send_candidates_def primary_sendable_def send_slots_def recv_sockets_def
        softether_get_num_connections_def Let_def)
  have "halted c'" "released c'" "softether_disconnect c' = c'"
    using d(1,2) pr c' disconnect_down [OF halted_down [OF d(1)]] by simp_all
  then show ?thesis using l f(2,3) k destroy_frees [of c] by (simp add: c' [symmetric] ru)
qed

text \<open>
  C40: disconnecting a session over a transport closes a descriptor twice. The primary descriptor
  of such a session is the application end of the transport. It is closed first, as the
  primary socket; the transport, which still has its number, is destroyed afterwards and
  closes it again.
\<close>

theorem disconnect_closes_twice:
  assumes "up c" "promoted c"
  shows "\<exists>tr l. cl_transport c = Some tr \<and>
    closed_fds (cl_conn (softether_disconnect c)) = closed_fds (cl_conn c) @ app_fd tr # l \<and>
    cl_closed (softether_disconnect c) = cl_closed c @ [worker_fd tr, app_fd tr, t_udp_fd tr]"
proof -
  obtain tr where tr: "udp_live tr" "cl_transport c = Some tr" "socket_fd (cl_conn c) = app_fd tr"
    using assms(2) by (auto simp: promoted_def)
  have "transport_closes tr = [worker_fd tr, app_fd tr, t_udp_fd tr]" using tr(1) by (simp add: transport_closes_def udp_live_def)
  then show ?thesis
    using disconnect_closes [of "tun c"] assms(1) tr
    by (auto simp: softether_disconnect_def up_def udp_live_def put_udp_def release_transport_def take_nat_t_transport_def
        adopt_transport_def set_transport_def on_conn_def Let_def)
qed

section \<open>A login over TCP\<close>

definition head1 :: bytes where
  "head1 = lit ''HTTP/1.1 200 OK'' @ [13, 10] @ lit ''Content-Length: 1'' @ CRLF2"

definition elems2 :: "pelem list" where
  "elems2 = [(lit ''error'', VInt 0), (lit ''half_connection'', VInt 0), (lit ''max_connection'', VInt 2)]"

definition head2 :: bytes where
  "head2 = lit ''HTTP/1.1 200 OK'' @ [13, 10] @ lit ''Content-Length: 86'' @ CRLF2"

definition os_env1 :: os_env where
  "os_env1 = os_env0\<lparr>os_resolve := (\<lambda>_ _ _ _. Some [Sin 1 443]), os_connect := (\<lambda>_. Conn_ok)\<rparr>"

definition client_env0 :: client_env where
  "client_env0 = \<lparr>te = tenv0, ce_os = os_env1, ce_udp = udp_calls0, ce_login = Login.env0, ce_date = [],
     ce_force_nat_t = False, ce_ctx = (\<lambda>_. Some 9), ce_tls = (\<lambda>_. True),
     ce_in = (\<lambda>_. \<lparr>avail = head1 @ [7] @ head2 @ ser_pack elems2 @ [1, 2, 3], chunk = (\<lambda>n. n), calls = 0\<rparr>),
     ce_out = (\<lambda>_. \<lparr>written = [], wroom = 20000, wchunk = (\<lambda>_. 20000), wcalls = 0\<rparr>),
     ce_race = race0, ce_nat = nat_env0, ce_fuel = 300, ce_alloc = True, ce_rt = rt_env0, ce_calls = rt_calls1, ce_arrive = []\<rparr>"

definition client0 :: client_t where
  "client0 = the (softether_create client_env0 True udp_world0)"

definition args_vpn :: connect_args where
  "args_vpn = \<lparr>a_host = Some (lit ''vpn''), a_port = 443, a_username = Some (lit ''user''), a_password = Some (lit ''secret''),
     a_hub_name = None, a_use_tcp = True, a_info = zero_info\<rparr>"

lemma head1_answers: "answers 4096 head1 [7]"
  by code_simp

lemma head2_accepts: "accepts head2 elems2 2"
proof -
  have "answers 8192 head2 (ser_pack elems2)" by code_simp
  moreover have "cstring head2" "is_prefix (lit ''HTTP/1.1 200'') head2"
    by (simp_all add: cstring_def head2_def lit_def is_prefix_def CRLF2_def)
  moreover have "list_all elem_ok elems2" "length elems2 \<le> PACK_MAX_ELEMENTS"
    by (simp_all add: elems2_def elem_ok_def ser_elem_def lit_def PACK_MAX_ELEMENTS_def)
  moreover have "lookup_int elems2 (lit ''error'') = Some 0" "lookup_int elems2 (lit ''half_connection'') = Some 0"
    "lookup_int elems2 (lit ''max_connection'') = Some 2"
    by (simp_all add: elems2_def lookup_int_def pack_lookup_def)
  ultimately show ?thesis unfolding accepts_def by blast
qed

lemma client0_created: "softether_create client_env0 True udp_world0 = Some client0"
  by (simp add: client0_def softether_create_def)

lemma client0_start: "released client0" "halted client0" "\<not> udp_only client0" "tls_i client0 = 0" "cl_os client0 = os0"
  by (simp_all add: client0_def softether_create_def released_def new_tun_def new_conn_def udp_world0_def)

lemma env0_ready: "ready client_env0" "race_legal client_env0" "relay_ok client_env0"
proof -
  show "ready client_env0" by (simp add: ready_def client_env0_def Login.env0_def)
  show "race_legal client_env0" by (simp add: race_legal_def client_env0_def race0_def)
  show "relay_ok client_env0" using race_env0_ok
    by (simp add: relay_ok_def client_env0_def env_ok_def race_env0_def)
qed

lemma ntop_1: "inet_ntop 1 64 = Some (lit ''1.0.0.0'')"
  by code_simp

lemma vpn_no_address: "inet_pton (lit ''vpn'') = None"
  by code_simp

lemma resolve_vpn:
  "resolve_hostname os_env1 (Some (lit ''vpn'')) 64 os0 = (Some (lit ''1.0.0.0''), os0\<lparr>gai_i := 1\<rparr>)"
  by (simp add: resolve_hostname_def os_env1_def os_env0_def os0_def vpn_no_address os_getaddrinfo_def address_text_def ntop_1)

lemma attempt_vpn: "\<exists>ip1 c1. tcp_attempt client_env0 (lit ''vpn'') (a_port args_vpn) ip c = (True, ip1, c1)"
  by (simp add: tcp_attempt_def args_vpn_def client_env0_def os_env1_def os_env0_def socket_create_def os_open_def kind_of_def
      tcp_dial_both_def socket_connect_timeout_def os_getaddrinfo_def first_family_def try_connect_addr_def
      socket_recreate_for_family_def connect_succeeds_def connected_socket_def set_nonblock_def SOCKET_TYPE_TCP_def Let_def)

lemma client0_server:
  "avail (ce_in client_env0 (tls_i client0)) = head1 @ [7] @ head2 @ ser_pack elems2 @ [1, 2, 3]"
  "roomy 16384 (ce_out client_env0 (tls_i client0))" "ce_ctx client_env0 (tls_i client0) = Some 9" "ce_tls client_env0 (tls_i client0)"
  "ce_os client_env0 = os_env1"
  by (simp_all add: client_env0_def roomy_def)

lemma args_vpn_fields:
  "a_host args_vpn = Some (lit ''vpn'')" "length (lit ''vpn'') \<le> 908" "a_username args_vpn = Some (lit ''user'')"
  "length (lit ''user'') < 256" "a_password args_vpn = Some (lit ''secret'')" "length (lit ''secret'') < 256" "a_use_tcp args_vpn"
  by (simp_all add: args_vpn_def lit_def)

lemma resolve_client0: "resolve_hostname (ce_os client_env0) (Some (lit ''vpn'')) 64 (cl_os client0) =
    (Some (lit ''1.0.0.0''), os0\<lparr>gai_i := 1\<rparr>)"
  by (simp add: client0_server(5) client0_start(5) resolve_vpn)

theorem connect_completes_witness:
  "\<exists>c'. softether_connect_with_hub client_env0 args_vpn client0 = Finished (ERR_NONE, c') \<and>
    cstate (cl_conn c') = STATE_CONNECTED \<and> avail (rxs (cl_conn c') (socket_fd (cl_conn c'))) = [1, 2, 3]"
proof -
  obtain ip1 c1 where t: "tcp_attempt client_env0 (lit ''vpn'') (a_port args_vpn) (lit ''1.0.0.0'')
      (set_os (os0\<lparr>gai_i := 1\<rparr>) (begin_connect args_vpn client0)) = (True, ip1, c1)"
    using attempt_vpn by blast
  show ?thesis
    using connect_completes [OF created_wf [OF client0_created] client0_start(1,3) env0_ready(1) args_vpn_fields
        resolve_client0 t client0_server(3,4,1) head1_answers head2_accepts client0_server(2)] by blast
qed

lemma connect_vpn: "\<exists>c'. softether_connect_with_hub client_env0 args_vpn client0 = Finished (ERR_NONE, c')"
proof -
  obtain ip1 c1 where t: "tcp_attempt client_env0 (lit ''vpn'') (a_port args_vpn) (lit ''1.0.0.0'')
      (set_os (os0\<lparr>gai_i := 1\<rparr>) (begin_connect args_vpn client0)) = (True, ip1, c1)"
    using attempt_vpn by blast
  show ?thesis
    using connect_reaches [OF created_wf [OF client0_created] client0_start(1,3) env0_ready(1) args_vpn_fields
        resolve_client0 t client0_server(3,4,1) head1_answers head2_accepts client0_server(2)] by blast
qed

theorem connect_established_witness:
  "\<exists>c'. softether_connect_with_hub client_env0 args_vpn client0 = Finished (ERR_NONE, c') \<and>
    cstate (cl_conn c') = STATE_CONNECTED \<and> conn_session_established (cl_conn c')"
proof -
  obtain c' where c': "softether_connect_with_hub client_env0 args_vpn client0 = Finished (ERR_NONE, c')"
    using connect_vpn by blast
  then show ?thesis using connect_established [OF env0_ready(2,3) client0_start(1,2) c'] by blast
qed

theorem client_fields_fit_witness:
  "\<exists>c'. softether_connect_with_hub client_env0 args_vpn client0 = Finished (ERR_NONE, c') \<and> client_wf (softether_disconnect c')"
proof -
  obtain c' where c': "softether_connect_with_hub client_env0 args_vpn client0 = Finished (ERR_NONE, c')"
    using connect_vpn by blast
  have "(client_step client_env0)\<^sup>*\<^sup>* client0 (softether_disconnect c')"
    using client_step.connect [OF c'] client_step.disconnect [of client_env0 c']
    by (meson r_into_rtranclp rtranclp.rtrancl_into_rtrancl)
  then show ?thesis using client_fields_fit [OF client0_created] c' by blast
qed

section \<open>A race that is won and a login that fails\<close>

definition client_env1 :: client_env where
  "client_env1 = client_env0\<lparr>ce_force_nat_t := True, ce_race := (\<lambda>ctxs. if ctxs = ctxs0 then race2 else race0 ctxs),
     ce_out := (\<lambda>_. \<lparr>written = [], wroom = 0, wchunk = (\<lambda>_. 20000), wcalls = 0\<rparr>)\<rparr>"

definition client1 :: client_t where
  "client1 = client0\<lparr>udp_port := 5555, timeout_ms := 5000\<rparr>"




lemma tr0_live: "udp_live tr0"
proof -
  have "rt_hello = rt_created\<lparr>open_fds := [], udp_in := [(1, 5555, peer_datagram 1 [42])]\<rparr>"
    by (simp add: rt_hello_def rt_created_def rudp_transport_create_def)
  then have "rudp_transport_connect rt_env0 rt_calls1 rt_cfg1 (rt_created\<lparr>open_fds := [], udp_in := [(1, 5555, peer_datagram 1 [42])]\<rparr>) = (0, tr0)"
    using hello_connects by (simp add: tr0_def prod_eq_iff)
  from fresh_connect [OF rt_created _ _ _ _ this] show ?thesis
    using race_env0_ok by (auto simp: env_ok_def race_env0_def rt_cfg1_def rt_cfg0_def)
qed








definition client2 :: client_t where
  "client2 = set_state STATE_CONNECTED (promote client_env1 (t_res won0) client1)"

lemma client2_promoted: "up client2" "promoted client2"
  using tr0_live
  by (auto simp: client2_def promoted_def up_def state_down_def set_state_def promote_def won0_result on_conn_def
      adopt_transport_def set_transport_def Let_def)

lemma client2_inv: "conn_inv (cl_conn client2)"
proof -
  let ?k = "cl_conn client2"
  have k: "additional ?k = replicate 8 free_sock" "num_additional ?k = 0" "recv_queue ?k = ring_new 64 []" "destroyed ?k = []"
    "conn_ssl ?k = Some 9" "conn_ssl_ctx ?k = Some 9"
    by (simp_all add: client2_def set_state_def promote_def won0_result on_conn_def adopt_transport_def set_transport_def Let_def
        client1_def client0_def softether_create_def new_tun_def new_conn_def MAX_SE_CONNECTIONS_def)
  have "ctx_owned ?k" by (rule ctx_ownedI) (auto simp: k free_sock_def)
  then show ?thesis by (simp add: conn_inv_def k active_count_def free_sock_def ring_inv_new)
qed

theorem disconnect_releases_witness:
  "released (softether_disconnect client2) \<and> destroyed (cl_conn (softether_disconnect client2)) = [9] \<and>
    closed_fds (cl_conn (softether_disconnect client2)) = [app_fd tr0] \<and>
    cl_closed (softether_disconnect client2) = [worker_fd tr0, app_fd tr0, t_udp_fd tr0]"
proof -
  have k: "closed_fds (cl_conn client2) = []" "destroyed (cl_conn client2) = []" "conn_ssl (cl_conn client2) = Some 9"
    "additional (cl_conn client2) = replicate 8 free_sock" "cl_closed client2 = []" "cl_transport client2 = Some tr0"
    "socket_fd (cl_conn client2) = app_fd tr0"
    by (simp_all add: client2_def set_state_def promote_def won0_result on_conn_def adopt_transport_def set_transport_def Let_def
        client1_def client0_def softether_create_def new_tun_def new_conn_def MAX_SE_CONNECTIONS_def)
  have t: "transport_closes tr0 = [worker_fd tr0, app_fd tr0, t_udp_fd tr0]" "0 \<le> app_fd tr0"
    using tr0_live by (simp_all add: transport_closes_def udp_live_def)
  have f: "softether_get_active_socket_fds 9 (tun client2) = [app_fd tr0]"
    using t(2) by (simp add: softether_get_active_socket_fds_def active_fds_def k free_sock_def)
  have s: "slot_ctxs (additional (cl_conn client2)) = []"
    by (simp add: slot_ctxs_def List.map_filter_def k free_sock_def)
  note r = disconnect_releases [OF client2_inv client2_promoted(1) refl]
  have "distinct (destroyed (cl_conn (softether_disconnect client2)))" "set (destroyed (cl_conn (softether_disconnect client2))) = {9}"
    using r k s by simp_all
  then have "destroyed (cl_conn (softether_disconnect client2)) = [9]"
    by (cases "destroyed (cl_conn (softether_disconnect client2))"; cases "tl (destroyed (cl_conn (softether_disconnect client2)))") auto
  then show ?thesis using r k t f by simp
qed

theorem disconnect_closes_twice_witness:
  "app_fd tr0 \<in> set (closed_fds (cl_conn (softether_disconnect client2))) \<and> app_fd tr0 \<in> set (cl_closed (softether_disconnect client2))"
proof -
  have "cl_transport client2 = Some tr0"
    by (simp add: client2_def set_state_def promote_def won0_result on_conn_def adopt_transport_def set_transport_def Let_def)
  then show ?thesis using disconnect_closes_twice [OF client2_promoted] by auto
qed

end
