(* ===== verification/Tls.thy ===== *)
theory Tls
  imports Net_Io "HOL-Library.Multiset"
begin

text \<open>
  The wrapper around OpenSSL (\<^verbatim>\<open>aes_wrapper.c\<close>): TLS contexts, digests, random bytes, HMAC
  and AES. OpenSSL itself is the environment \<open>tls_lib\<close>, which gives the answer of each call
  by its number. What the wrapper adds is modelled in full: which calls it makes and in what
  order, under which of its three global locks, how often it retries, and which objects it
  creates and frees. Every operation leaves its calls and lock operations in a trace.
  \<open>Net_Io\<close> describes a TLS connection as a byte stream; \<open>ssl_read_stream\<close> below is what ties
  \<^verbatim>\<open>ssl_read\<close> to it.
\<close>

section \<open>Locks and calls\<close>

text \<open>\<open>Use\<close> is \<^verbatim>\<open>g_tls_use_lock\<close>, a read-write lock; the other two are mutexes.\<close>

datatype mutex = Openssl_lock | Ctx_create_lock

datatype lib_call = SSL_CTX_new | SSL_CTX_free | SSL_new | SSL_free | SSL_set_fd | SSL_do_handshake | SSL_read | SSL_write
  | SSL_shutdown | SSL_pending | MD_CTX_new | MD_CTX_free | DigestInit | DigestUpdate | DigestFinal | RAND_bytes | HMAC
  | CIPHER_CTX_new | CIPHER_CTX_free | CipherInit | CipherUpdate | CipherFinal

datatype tls_event = Use_rdlock | Use_wrlock | Use_unlock | Lock mutex | Unlock mutex | Lib lib_call

datatype use_mode = Free | Shared | Exclusive

record held =
  h_use :: use_mode
  h_openssl :: bool
  h_create :: bool

definition no_locks :: held where
  "no_locks = \<lparr>h_use = Free, h_openssl = False, h_create = False\<rparr>"

text \<open>
  One event under the locks a thread holds; \<open>None\<close> is a lock taken twice, a release of a lock
  not held, or \<open>Use\<close> taken after \<open>Openssl_lock\<close> against the order the comments lay down.
\<close>

fun lock_step :: "tls_event \<Rightarrow> held \<Rightarrow> held option" where
  "lock_step Use_rdlock h = (if h_use h = Free \<and> \<not> h_openssl h then Some (h\<lparr>h_use := Shared\<rparr>) else None)"
| "lock_step Use_wrlock h = (if h_use h = Free \<and> \<not> h_openssl h then Some (h\<lparr>h_use := Exclusive\<rparr>) else None)"
| "lock_step Use_unlock h = (if h_use h \<noteq> Free then Some (h\<lparr>h_use := Free\<rparr>) else None)"
| "lock_step (Lock Openssl_lock) h = (if \<not> h_openssl h then Some (h\<lparr>h_openssl := True\<rparr>) else None)"
| "lock_step (Unlock Openssl_lock) h = (if h_openssl h then Some (h\<lparr>h_openssl := False\<rparr>) else None)"
| "lock_step (Lock Ctx_create_lock) h = (if \<not> h_create h \<and> h_use h = Free \<and> \<not> h_openssl h
     then Some (h\<lparr>h_create := True\<rparr>) else None)"
| "lock_step (Unlock Ctx_create_lock) h = (if h_create h then Some (h\<lparr>h_create := False\<rparr>) else None)"
| "lock_step (Lib f) h = Some h"

fun lock_run :: "tls_event list \<Rightarrow> held \<Rightarrow> held option" where
  "lock_run [] h = Some h"
| "lock_run (e # es) h = (case lock_step e h of None \<Rightarrow> None | Some h \<Rightarrow> lock_run es h)"

text \<open>The calls that reach OpenSSL's shared provider state, and those of them made without \<open>Openssl_lock\<close>.\<close>

definition provider_call :: "lib_call \<Rightarrow> bool" where
  "provider_call f \<longleftrightarrow> f \<in> {SSL_do_handshake, SSL_read, SSL_write, SSL_shutdown, DigestInit, DigestUpdate, DigestFinal,
     RAND_bytes, HMAC, CipherInit, CipherUpdate, CipherFinal}"

fun unguarded :: "tls_event list \<Rightarrow> bool \<Rightarrow> lib_call list" where
  "unguarded [] g = []"
| "unguarded (Lib f # es) g = (if provider_call f \<and> \<not> g then f # unguarded es g else unguarded es g)"
| "unguarded (Lock Openssl_lock # es) g = unguarded es True"
| "unguarded (Unlock Openssl_lock # es) g = unguarded es False"
| "unguarded (e # es) g = unguarded es g"

section \<open>Environment and state\<close>

datatype handshake_answer = Hs_done | Hs_want | Hs_error

text \<open>\<open>Rd_want\<close> covers \<^verbatim>\<open>WANT_READ\<close>, \<^verbatim>\<open>WANT_WRITE\<close>, and \<^verbatim>\<open>EINTR\<close> or \<^verbatim>\<open>EAGAIN\<close> of the system call.\<close>

datatype read_answer = Rd_data bytes | Rd_zero | Rd_want | Rd_error

datatype digest = Md5 | Sha1 | Sha256

datatype md_call = Md_new | Md_init | Md_update | Md_final

record tls_lib =
  l_calloc :: "nat \<Rightarrow> bool"
  l_ctx_new :: "nat \<Rightarrow> bool"
  l_ssl_new :: "nat \<Rightarrow> bool"
  l_set_fd :: "nat \<Rightarrow> bool"
  l_handshake :: "nat \<Rightarrow> handshake_answer"
  l_read :: "nat \<Rightarrow> nat \<Rightarrow> read_answer"
  l_write :: "nat \<Rightarrow> bytes \<Rightarrow> int"
  l_pending :: "nat \<Rightarrow> int"
  l_md :: "nat \<Rightarrow> md_call \<Rightarrow> bool"
  l_digest :: "digest \<Rightarrow> bytes \<Rightarrow> bytes"
  l_rand :: "nat \<Rightarrow> bytes option"
  l_hmac :: "bytes \<Rightarrow> bytes \<Rightarrow> bytes"
  l_cipher_new :: "nat \<Rightarrow> bool"
  l_cipher_init :: "nat \<Rightarrow> bool"
  l_cipher :: "nat \<Rightarrow> bytes \<Rightarrow> (bytes \<times> bytes option) option"

text \<open>
  The trace, a counter for the calls, and the objects made and freed; an object is named by
  the number of the call that made it.
\<close>

record tls_world =
  trace :: "tls_event list"
  call_i :: nat
  made :: "nat multiset"
  freed :: "nat multiset"

record ssl_context =
  sx_ctx :: "nat option"
  sx_ssl :: "nat option"
  sx_connected :: bool

definition ev :: "tls_event list \<Rightarrow> tls_world \<Rightarrow> tls_world" where
  "ev es w = w\<lparr>trace := trace w @ es, call_i := call_i w + 1\<rparr>"

definition new_object :: "lib_call \<Rightarrow> (nat \<Rightarrow> bool) \<Rightarrow> tls_world \<Rightarrow> nat option \<times> tls_world" where
  "new_object f ok w = (let n = call_i w; w = ev [Lib f] w in
     if ok n then (Some n, w\<lparr>made := add_mset n (made w)\<rparr>) else (None, w))"

definition free_object :: "lib_call \<Rightarrow> nat option \<Rightarrow> tls_world \<Rightarrow> tls_world" where
  "free_object f x w = (case x of None \<Rightarrow> w | Some n \<Rightarrow> (ev [Lib f] w)\<lparr>freed := add_mset n (freed w)\<rparr>)"

section \<open>TLS\<close>

definition ssl_create_client :: "tls_lib \<Rightarrow> tls_world \<Rightarrow> ssl_context option \<times> tls_world" where
  "ssl_create_client l w = (if \<not> l_calloc l (call_i w) then (None, w)
     else (case new_object SSL_CTX_new (l_ctx_new l) (ev [Lock Ctx_create_lock] w) of
         (None, w) \<Rightarrow> (None, ev [Unlock Ctx_create_lock] w)
       | (Some c, w) \<Rightarrow> (Some \<lparr>sx_ctx = Some c, sx_ssl = None, sx_connected = False\<rparr>, ev [Unlock Ctx_create_lock] w)))"

definition ssl_destroy :: "ssl_context option \<Rightarrow> tls_world \<Rightarrow> tls_world" where
  "ssl_destroy x w = (case x of
     None \<Rightarrow> w
   | Some c \<Rightarrow> ev [Use_unlock] (free_object SSL_CTX_free (sx_ctx c) (free_object SSL_free (sx_ssl c) (ev [Use_wrlock] w))))"

text \<open>The handshake, one call of \<^verbatim>\<open>SSL_do_handshake\<close> per attempt.\<close>

fun handshake_loop :: "tls_lib \<Rightarrow> nat \<Rightarrow> tls_world \<Rightarrow> bool \<times> tls_world" where
  "handshake_loop l 0 w = (False, w)"
| "handshake_loop l (Suc n) w =
     (let a = l_handshake l (call_i w); w = ev [Lock Openssl_lock, Lib SSL_do_handshake, Unlock Openssl_lock] w in
      case a of Hs_done \<Rightarrow> (True, w) | Hs_want \<Rightarrow> handshake_loop l n w | Hs_error \<Rightarrow> (False, w))"

definition MAX_ATTEMPTS :: nat where "MAX_ATTEMPTS = 100"

definition ssl_connect :: "tls_lib \<Rightarrow> ssl_context option \<Rightarrow> tls_world \<Rightarrow> int \<times> ssl_context option \<times> tls_world" where
  "ssl_connect l x w = (case x of
     None \<Rightarrow> (-1, x, w)
   | Some c \<Rightarrow> if sx_ctx c = None then (-1, x, w)
       else (case new_object SSL_new (l_ssl_new l) (ev [Use_wrlock] w) of
           (None, w) \<Rightarrow> (-1, Some (c\<lparr>sx_ssl := None\<rparr>), ev [Use_unlock] w)
         | (Some s, w) \<Rightarrow> (let ok = l_set_fd l (call_i w); w = ev [Lib SSL_set_fd] w in
             if \<not> ok then (-1, Some (c\<lparr>sx_ssl := None\<rparr>), ev [Use_unlock] (free_object SSL_free (Some s) w))
             else (case handshake_loop l MAX_ATTEMPTS (ev [Use_unlock, Use_rdlock] w) of
                 (True, w) \<Rightarrow> (0, Some (c\<lparr>sx_ssl := Some s, sx_connected := True\<rparr>), ev [Use_unlock] w)
               | (False, w) \<Rightarrow> (-1, Some (c\<lparr>sx_ssl := None\<rparr>), free_object SSL_free (Some s) (ev [Use_unlock] w))))))"

text \<open>
  \<^verbatim>\<open>connected\<close> is looked at again before every attempt; the lock keeps \<^verbatim>\<open>ssl_shutdown\<close>, which
  alone clears it, out, so the second look sees what the first saw.
\<close>

definition MAX_RETRIES :: nat where "MAX_RETRIES = 5"

fun read_loop :: "tls_lib \<Rightarrow> nat \<Rightarrow> nat \<Rightarrow> tls_world \<Rightarrow> int \<times> bytes \<times> tls_world" where
  "read_loop l len 0 w = (-1, [], w)"
| "read_loop l len (Suc n) w =
     (let a = l_read l (call_i w) len; w = ev [Lock Openssl_lock, Lib SSL_read, Unlock Openssl_lock] w in
      case a of Rd_data bs \<Rightarrow> (int (length bs), bs, w) | Rd_zero \<Rightarrow> (0, [], w)
        | Rd_want \<Rightarrow> read_loop l len n w | Rd_error \<Rightarrow> (-1, [], w))"

definition usable :: "ssl_context option \<Rightarrow> bool" where
  "usable x \<longleftrightarrow> (case x of None \<Rightarrow> False | Some c \<Rightarrow> sx_ssl c \<noteq> None \<and> sx_connected c)"

definition ssl_read :: "tls_lib \<Rightarrow> nat \<Rightarrow> ssl_context option \<Rightarrow> tls_world \<Rightarrow> int \<times> bytes \<times> tls_world" where
  "ssl_read l len x w = (if \<not> usable x then (-1, [], w)
     else (case read_loop l len MAX_RETRIES (ev [Use_rdlock, Lib SSL_pending] w) of (r, bs, w) \<Rightarrow> (r, bs, ev [Use_unlock] w)))"

definition ssl_write :: "tls_lib \<Rightarrow> bytes \<Rightarrow> ssl_context option \<Rightarrow> tls_world \<Rightarrow> int \<times> tls_world" where
  "ssl_write l data x w = (if \<not> usable x then (-1, w)
     else (l_write l (call_i w) data, ev [Use_wrlock, Lock Openssl_lock, Lib SSL_write, Unlock Openssl_lock, Use_unlock] w))"

definition ssl_shutdown :: "ssl_context option \<Rightarrow> tls_world \<Rightarrow> ssl_context option \<times> tls_world" where
  "ssl_shutdown x w = (case x of
     None \<Rightarrow> (None, w)
   | Some c \<Rightarrow> if sx_ssl c = None then (x, w)
       else (Some (c\<lparr>sx_connected := False\<rparr>), ev [Use_wrlock, Lib SSL_shutdown, Use_unlock] w))"

definition ssl_has_pending :: "tls_lib \<Rightarrow> ssl_context option \<Rightarrow> tls_world \<Rightarrow> int \<times> tls_world" where
  "ssl_has_pending l x w = (case x of
     None \<Rightarrow> (0, w)
   | Some c \<Rightarrow> if sx_ssl c = None then (0, w)
       else (if 0 < l_pending l (call_i w) then 1 else 0, ev [Use_rdlock, Lib SSL_pending, Use_unlock] w))"

section \<open>Digests, random bytes, HMAC\<close>

text \<open>
  The steps of a digest: \<open>None\<close> when one of them fails. The context is freed on every path
  but the one on which it could not be made.
\<close>

definition evp_digest :: "tls_lib \<Rightarrow> digest \<Rightarrow> bytes \<Rightarrow> tls_world \<Rightarrow> bytes option \<times> tls_world" where
  "evp_digest l d data w = (let ok = l_md l (call_i w) in
     case new_object MD_CTX_new (\<lambda>_. ok Md_new) (ev [Lock Openssl_lock] w) of
       (None, w) \<Rightarrow> (None, ev [Unlock Openssl_lock] w)
     | (Some m, w) \<Rightarrow> (let
           calls = [DigestInit] @ (if ok Md_init then [DigestUpdate] @ (if ok Md_update then [DigestFinal] else []) else []);
           w = ev [Unlock Openssl_lock] (free_object MD_CTX_free (Some m) (ev (map Lib calls) w))
         in (if ok Md_init \<and> ok Md_update \<and> ok Md_final then Some (l_digest l d data) else None, w)))"

text \<open>
  The buffer a digest function is given, and what it leaves in it: \<^verbatim>\<open>md5_hash\<close> and
  \<^verbatim>\<open>sha1_hash\<close> copy a digest of the right size, \<^verbatim>\<open>sha256_hash\<close> lets OpenSSL write into it.
\<close>

definition sized_hash :: "tls_lib \<Rightarrow> digest \<Rightarrow> nat \<Rightarrow> bytes option \<Rightarrow> bytes option \<Rightarrow> tls_world \<Rightarrow> bytes option \<times> tls_world" where
  "sized_hash l d n data hash w = (case (data, hash) of
     (Some bs, Some out) \<Rightarrow> (case evp_digest l d bs w of
         (Some md, w) \<Rightarrow> (Some (if length md = n then md @ drop n out else out), w)
       | (None, w) \<Rightarrow> (Some out, w))
   | _ \<Rightarrow> (hash, w))"

definition MD5_HASH_SIZE :: nat where "MD5_HASH_SIZE = 16"
definition SHA1_HASH_SIZE :: nat where "SHA1_HASH_SIZE = 20"

definition md5_hash :: "tls_lib \<Rightarrow> bytes option \<Rightarrow> bytes option \<Rightarrow> tls_world \<Rightarrow> bytes option \<times> tls_world" where
  "md5_hash l = sized_hash l Md5 MD5_HASH_SIZE"

definition sha1_hash :: "tls_lib \<Rightarrow> bytes option \<Rightarrow> bytes option \<Rightarrow> tls_world \<Rightarrow> bytes option \<times> tls_world" where
  "sha1_hash l = sized_hash l Sha1 SHA1_HASH_SIZE"

definition sha256_hash :: "tls_lib \<Rightarrow> bytes option \<Rightarrow> bytes option \<Rightarrow> tls_world \<Rightarrow> bytes option \<times> tls_world" where
  "sha256_hash l data hash w = (case (data, hash) of
     (Some bs, Some out) \<Rightarrow> (case evp_digest l Sha256 bs w of
         (Some md, w) \<Rightarrow> (Some (md @ drop (length md) out), w)
       | (None, w) \<Rightarrow> (Some out, w))
   | _ \<Rightarrow> (hash, w))"

definition generate_random_bytes :: "tls_lib \<Rightarrow> bytes option \<Rightarrow> tls_world \<Rightarrow> int \<times> bytes option \<times> tls_world" where
  "generate_random_bytes l buf w = (case buf of
     None \<Rightarrow> (-1, None, w)
   | Some out \<Rightarrow> if out = [] then (-1, buf, w)
       else (case l_rand l (call_i w) of
           None \<Rightarrow> (-1, buf, ev [Lock Openssl_lock, Lib RAND_bytes, Unlock Openssl_lock] w)
         | Some bs \<Rightarrow> (0, Some (take (length out) bs), ev [Lock Openssl_lock, Lib RAND_bytes, Unlock Openssl_lock] w)))"

definition hmac_sha256 :: "tls_lib \<Rightarrow> bytes option \<Rightarrow> bytes option \<Rightarrow> bytes option \<Rightarrow> tls_world \<Rightarrow> bytes option \<times> tls_world" where
  "hmac_sha256 l key data mac w = (case (key, data, mac) of
     (Some k, Some d, Some out) \<Rightarrow> (Some (l_hmac l k d @ drop (length (l_hmac l k d)) out), ev [Lib HMAC] w)
   | _ \<Rightarrow> (mac, w))"

section \<open>AES\<close>

datatype aes_cipher = Aes_cbc nat | Aes_gcm nat

record aes_context =
  ax_enc :: "nat option"
  ax_dec :: "nat option"
  ax_mode :: int
  ax_key :: bytes
  ax_iv :: bytes
  ax_cipher :: aes_cipher

definition AES_MODE_CBC :: int where "AES_MODE_CBC = 0"

definition cipher_of :: "int \<Rightarrow> nat \<Rightarrow> aes_cipher" where
  "cipher_of mode key_len = (if mode = AES_MODE_CBC then Aes_cbc (8 * key_len) else Aes_gcm (8 * key_len))"

definition aes_destroy :: "aes_context option \<Rightarrow> tls_world \<Rightarrow> tls_world" where
  "aes_destroy x w = (case x of
     None \<Rightarrow> w | Some c \<Rightarrow> free_object CIPHER_CTX_free (ax_dec c) (free_object CIPHER_CTX_free (ax_enc c) w))"

definition aes_create :: "tls_lib \<Rightarrow> int \<Rightarrow> bytes option \<Rightarrow> bytes option \<Rightarrow> tls_world \<Rightarrow> aes_context option \<times> tls_world" where
  "aes_create l mode key iv w = (case key of
     None \<Rightarrow> (None, w)
   | Some k \<Rightarrow> if length k \<notin> {16, 24, 32} \<or> \<not> l_calloc l (call_i w) then (None, w)
       else let (enc, w) = new_object CIPHER_CTX_new (l_cipher_new l) w; (dec, w) = new_object CIPHER_CTX_new (l_cipher_new l) w;
                i = (case iv of None \<Rightarrow> [] | Some v \<Rightarrow> take 16 v);
                c = \<lparr>ax_enc = enc, ax_dec = dec, ax_mode = mode, ax_key = k, ax_iv = i @ replicate (16 - length i) 0,
                     ax_cipher = cipher_of mode (length k)\<rparr>
         in if enc = None \<or> dec = None then (None, aes_destroy (Some c) w)
            else if \<not> l_cipher_init l (call_i w) then (None, aes_destroy (Some c) (ev [Lib CipherInit] w))
            else if \<not> l_cipher_init l (call_i w + 1) then (None, aes_destroy (Some c) (ev [Lib CipherInit] (ev [Lib CipherInit] w)))
            else (Some c, ev [Lib CipherInit] (ev [Lib CipherInit] w)))"

text \<open>The three steps that \<^verbatim>\<open>aes_encrypt\<close> and \<^verbatim>\<open>aes_decrypt\<close> share, each on its own context.\<close>

definition cipher_run :: "tls_lib \<Rightarrow> bytes \<Rightarrow> tls_world \<Rightarrow> bytes option \<times> tls_world" where
  "cipher_run l bs w = (if \<not> l_cipher_init l (call_i w) then (None, ev [Lib CipherInit] w)
     else let w = ev [Lib CipherInit] w in
       (case l_cipher l (call_i w) bs of
         None \<Rightarrow> (None, ev [Lib CipherUpdate] w)
       | Some (u, None) \<Rightarrow> (None, ev [Lib CipherUpdate, Lib CipherFinal] w)
       | Some (u, Some f) \<Rightarrow> (Some (u @ f), ev [Lib CipherUpdate, Lib CipherFinal] w)))"

definition aes_encrypt :: "tls_lib \<Rightarrow> aes_context option \<Rightarrow> bytes \<Rightarrow> tls_world \<Rightarrow> bytes option \<times> tls_world" where
  "aes_encrypt l x plain w = (case x of
     None \<Rightarrow> (None, w) | Some c \<Rightarrow> if ax_enc c = None then (None, w) else cipher_run l plain w)"

definition aes_decrypt :: "tls_lib \<Rightarrow> aes_context option \<Rightarrow> bytes \<Rightarrow> tls_world \<Rightarrow> bytes option \<times> tls_world" where
  "aes_decrypt l x ciph w = (case x of
     None \<Rightarrow> (None, w) | Some c \<Rightarrow> if ax_dec c = None then (None, w) else cipher_run l ciph w)"

section \<open>Lock discipline\<close>

lemma lock_run_append: "lock_run (a @ b) h = (case lock_run a h of None \<Rightarrow> None | Some h \<Rightarrow> lock_run b h)"
  by (induction a arbitrary: h) (auto split: option.split)

lemma ev_fields [simp]:
  "trace (ev es w) = trace w @ es" "call_i (ev es w) = call_i w + 1" "made (ev es w) = made w" "freed (ev es w) = freed w"
  by (simp_all add: ev_def)

lemma free_fields [simp]:
  "trace (free_object f x w) = trace w @ (case x of None \<Rightarrow> [] | Some _ \<Rightarrow> [Lib f])"
  "made (free_object f x w) = made w" "freed (free_object f x w) = freed w + (case x of None \<Rightarrow> {#} | Some n \<Rightarrow> {#n#})"
  by (simp_all add: free_object_def split: option.split)

text \<open>The locks held after the trace of a world; the calls left unguarded so far, and whether the lock is held now.\<close>

definition locks :: "tls_world \<Rightarrow> held option" where
  "locks w = lock_run (trace w) no_locks"

fun guard_after :: "tls_event list \<Rightarrow> bool \<Rightarrow> bool" where
  "guard_after [] g = g"
| "guard_after (Lock Openssl_lock # es) g = guard_after es True"
| "guard_after (Unlock Openssl_lock # es) g = guard_after es False"
| "guard_after (e # es) g = guard_after es g"

definition strays :: "tls_world \<Rightarrow> lib_call list \<times> bool" where
  "strays w = (unguarded (trace w) False, guard_after (trace w) False)"

lemma unguarded_append: "unguarded (a @ b) g = unguarded a g @ unguarded b (guard_after a g)"
  by (induction a g rule: unguarded.induct) auto

lemma guard_after_append: "guard_after (a @ b) g = guard_after b (guard_after a g)"
  by (induction a g rule: guard_after.induct) auto

lemma locks_ev [simp]: "locks (ev es w) = (case locks w of None \<Rightarrow> None | Some h \<Rightarrow> lock_run es h)"
  by (simp add: locks_def lock_run_append)

lemma locks_free [simp]: "locks (free_object f x w) = locks w"
  by (simp add: locks_def lock_run_append split: option.split)

lemma strays_ev [simp]: "strays (ev es w) = (fst (strays w) @ unguarded es (snd (strays w)), guard_after es (snd (strays w)))"
  by (simp add: strays_def unguarded_append guard_after_append)

lemma strays_free [simp]: "\<not> provider_call f \<Longrightarrow> strays (free_object f x w) = strays w"
  by (simp add: strays_def unguarded_append guard_after_append split: option.split)

lemma world_upd [simp]: "locks (w\<lparr>made := m\<rparr>) = locks w" "strays (w\<lparr>made := m\<rparr>) = strays w"
  by (simp_all add: locks_def strays_def)

lemma new_object_world:
  assumes "new_object f ok w = (x, w')"
  shows "locks w' = locks w" "made w' = made w + (case x of None \<Rightarrow> {#} | Some n \<Rightarrow> {#n#})" "freed w' = freed w"
    "\<not> provider_call f \<Longrightarrow> strays w' = strays w"
  using assms by (auto simp: new_object_def Let_def split: if_splits option.split)

lemma handshake_loop_world:
  assumes "handshake_loop l n w = (r, w')" "locks w = Some h" "\<not> h_openssl h"
  shows "locks w' = Some h \<and> made w' = made w \<and> freed w' = freed w \<and> (strays w = ([], False) \<longrightarrow> strays w' = ([], False))"
  using assms
proof (induction l n w rule: handshake_loop.induct)
  case (2 l n w)
  then show ?case by (cases "l_handshake l (call_i w)") (auto simp: Let_def)
qed simp

lemma read_loop_world:
  assumes "read_loop l len n w = (r, bs, w')" "locks w = Some h" "\<not> h_openssl h"
  shows "locks w' = Some h \<and> made w' = made w \<and> freed w' = freed w \<and> (strays w = ([], False) \<longrightarrow> strays w' = ([], False))"
  using assms
proof (induction l len n w rule: read_loop.induct)
  case (2 l len n w)
  then show ?case by (cases "l_read l (call_i w) len") (auto simp: Let_def)
qed simp

text \<open>What a context holds.\<close>

definition objects :: "ssl_context option \<Rightarrow> nat multiset" where
  "objects x = (case x of None \<Rightarrow> {#} | Some c \<Rightarrow> mset_set (set_option (sx_ctx c)) + mset_set (set_option (sx_ssl c)))"

definition tls_ok :: "ssl_context option \<Rightarrow> tls_world \<Rightarrow> bool" where
  "tls_ok x w \<longleftrightarrow> locks w = Some no_locks \<and> made w = freed w + objects x"

lemma no_locks_simps [simp]: "h_use no_locks = Free" "\<not> h_openssl no_locks" "\<not> h_create no_locks"
  by (simp_all add: no_locks_def)

lemma no_locks_upd [simp]: "no_locks\<lparr>h_use := Free\<rparr> = no_locks" "no_locks\<lparr>h_openssl := False\<rparr> = no_locks" "no_locks\<lparr>h_create := False\<rparr> = no_locks"
  by (simp_all add: no_locks_def)

lemma create_ok:
  assumes "tls_ok None w" "ssl_create_client l w = (x, w')"
  shows "tls_ok x w' \<and> (strays w = ([], False) \<longrightarrow> strays w' = ([], False))"
proof -
  obtain y w1 where n: "new_object SSL_CTX_new (l_ctx_new l) (ev [Lock Ctx_create_lock] w) = (y, w1)" by (rule prod.exhaust)
  show ?thesis
    using assms n new_object_world [OF n]
    by (auto simp: ssl_create_client_def tls_ok_def objects_def provider_call_def split: if_splits option.splits)
qed

lemma destroy_ok:
  "tls_ok x w \<Longrightarrow> tls_ok None (ssl_destroy x w) \<and> (strays w = ([], False) \<longrightarrow> strays (ssl_destroy x w) = ([], False))"
  by (cases x) (auto simp: ssl_destroy_def tls_ok_def objects_def provider_call_def split: option.split)

lemma connect_ok:
  assumes "tls_ok (Some c) w" "sx_ssl c = None" "ssl_connect l (Some c) w = (r, x, w')"
  shows "tls_ok x w' \<and> (strays w = ([], False) \<longrightarrow> strays w' = ([], False))"
proof (cases "sx_ctx c = None")
  case True
  then show ?thesis using assms by (simp add: ssl_connect_def)
next
  case False
  obtain y w1 where n: "new_object SSL_new (l_ssl_new l) (ev [Use_wrlock] w) = (y, w1)" by (rule prod.exhaust)
  note n1 = new_object_world [OF n]
  let ?w = "ev [Use_unlock, Use_rdlock] (ev [Lib SSL_set_fd] w1)"
  obtain ok w2 where h: "handshake_loop l MAX_ATTEMPTS ?w = (ok, w2)" by (rule prod.exhaust)
  have k: "locks ?w = Some (no_locks\<lparr>h_use := Shared\<rparr>)" using n1(1) assms(1) by (simp add: tls_ok_def)
  note h1 = handshake_loop_world [OF h k]
  show ?thesis
    using assms False n n1 h h1
    by (cases ok) (auto simp: ssl_connect_def tls_ok_def objects_def provider_call_def Let_def split: option.splits if_splits)
qed

lemma read_ok:
  assumes "tls_ok x w" "ssl_read l len x w = (r, bs, w')"
  shows "tls_ok x w' \<and> (strays w = ([], False) \<longrightarrow> strays w' = ([], False))"
proof (cases "usable x")
  case True
  let ?w = "ev [Use_rdlock, Lib SSL_pending] w"
  obtain q b w1 where rl: "read_loop l len MAX_RETRIES ?w = (q, b, w1)" by (metis prod_cases3)
  have "locks ?w = Some (no_locks\<lparr>h_use := Shared\<rparr>)" using assms(1) by (simp add: tls_ok_def)
  from read_loop_world [OF rl this] show ?thesis
    using assms rl True by (auto simp: ssl_read_def tls_ok_def provider_call_def)
qed (use assms in \<open>simp add: ssl_read_def\<close>)

lemma write_ok:
  "tls_ok x w \<Longrightarrow> ssl_write l data x w = (r, w') \<Longrightarrow> tls_ok x w' \<and> (strays w = ([], False) \<longrightarrow> strays w' = ([], False))"
  by (auto simp: ssl_write_def tls_ok_def split: if_splits)

lemma pending_ok:
  "tls_ok x w \<Longrightarrow> ssl_has_pending l x w = (r, w') \<Longrightarrow> tls_ok x w' \<and> (strays w = ([], False) \<longrightarrow> strays w' = ([], False))"
  by (auto simp: ssl_has_pending_def tls_ok_def provider_call_def split: if_splits option.splits)

lemma digest_ok:
  assumes "tls_ok x w" "evp_digest l d data w = (r, w')"
  shows "tls_ok x w' \<and> (strays w = ([], False) \<longrightarrow> strays w' = ([], False))"
proof -
  obtain y w1 where n: "new_object MD_CTX_new (\<lambda>_. l_md l (call_i w) Md_new) (ev [Lock Openssl_lock] w) = (y, w1)" by (rule prod.exhaust)
  show ?thesis
    using assms n new_object_world [OF n]
    by (auto simp: evp_digest_def tls_ok_def provider_call_def Let_def split: option.splits)
qed

lemma hash_ok:
  assumes "tls_ok x w" "sized_hash l d n data hash w = (r, w') \<or> sha256_hash l data hash w = (r, w')"
  shows "tls_ok x w' \<and> (strays w = ([], False) \<longrightarrow> strays w' = ([], False))"
proof (cases "data = None \<or> hash = None")
  case True
  then show ?thesis using assms by (auto simp: sized_hash_def sha256_hash_def split: option.splits)
next
  case False
  then obtain bs out where d: "data = Some bs" "hash = Some out" by auto
  obtain a b where e: "evp_digest l d bs w = (a, b)" by (rule prod.exhaust)
  obtain a' b' where e': "evp_digest l Sha256 bs w = (a', b')" by (rule prod.exhaust)
  show ?thesis
    using assms(2) d e e' digest_ok [OF assms(1) e] digest_ok [OF assms(1) e']
    by (auto simp: sized_hash_def sha256_hash_def split: option.splits)
qed

lemma random_ok:
  "tls_ok x w \<Longrightarrow> generate_random_bytes l buf w = (r, b, w') \<Longrightarrow> tls_ok x w' \<and> (strays w = ([], False) \<longrightarrow> strays w' = ([], False))"
  by (auto simp: generate_random_bytes_def tls_ok_def split: if_splits option.splits)

lemma shutdown_ok: "tls_ok x w \<Longrightarrow> ssl_shutdown x w = (x', w') \<Longrightarrow> tls_ok x' w'"
  by (auto simp: ssl_shutdown_def tls_ok_def objects_def split: if_splits option.splits)

lemma hmac_ok: "tls_ok x w \<Longrightarrow> hmac_sha256 l k d m w = (r, w') \<Longrightarrow> tls_ok x w'"
  by (auto simp: hmac_sha256_def tls_ok_def split: option.splits)

definition aes_objects :: "aes_context option \<Rightarrow> nat multiset" where
  "aes_objects a = (case a of None \<Rightarrow> {#} | Some c \<Rightarrow> mset_set (set_option (ax_enc c)) + mset_set (set_option (ax_dec c)))"

text \<open>An AES context beside a TLS context.\<close>

lemma aes_create_ok:
  assumes "tls_ok x w" "aes_create l mode key iv w = (a, w')"
  shows "locks w' = Some no_locks \<and> made w' = freed w' + objects x + aes_objects a"
proof -
  obtain e w1 where n: "new_object CIPHER_CTX_new (l_cipher_new l) w = (e, w1)" by (rule prod.exhaust)
  obtain d w2 where m: "new_object CIPHER_CTX_new (l_cipher_new l) w1 = (d, w2)" by (rule prod.exhaust)
  show ?thesis
    using assms n m new_object_world [OF n] new_object_world [OF m]
    by (auto simp: aes_create_def aes_destroy_def tls_ok_def aes_objects_def Let_def split: option.splits if_splits)
qed

lemma cipher_run_ok:
  "cipher_run l bs w = (r, w') \<Longrightarrow> locks w' = locks w \<and> made w' = made w \<and> freed w' = freed w"
  by (auto simp: cipher_run_def Let_def split: if_splits option.splits prod.splits)

lemma aes_destroy_ok:
  "locks w = Some no_locks \<Longrightarrow> made w = freed w + objects x + aes_objects a \<Longrightarrow> tls_ok x (aes_destroy a w)"
  by (cases a) (auto simp: aes_destroy_def tls_ok_def aes_objects_def split: option.splits)

section \<open>Every order of the operations\<close>

text \<open>
  The operations on one TLS context, and those that need none. A context is created when
  there is none and connected when it has no connection, as the callers do.
\<close>

inductive tls_step :: "tls_lib \<Rightarrow> ssl_context option \<times> tls_world \<Rightarrow> ssl_context option \<times> tls_world \<Rightarrow> bool" for l where
  create: "ssl_create_client l w = (x, w') \<Longrightarrow> tls_step l (None, w) (x, w')"
| connect: "sx_ssl c = None \<Longrightarrow> ssl_connect l (Some c) w = (r, x, w') \<Longrightarrow> tls_step l (Some c, w) (x, w')"
| reading: "ssl_read l len x w = (r, bs, w') \<Longrightarrow> tls_step l (x, w) (x, w')"
| writing: "ssl_write l data x w = (r, w') \<Longrightarrow> tls_step l (x, w) (x, w')"
| pending: "ssl_has_pending l x w = (r, w') \<Longrightarrow> tls_step l (x, w) (x, w')"
| destroy: "tls_step l (x, w) (None, ssl_destroy x w)"
| md5: "md5_hash l data hash w = (r, w') \<Longrightarrow> tls_step l (x, w) (x, w')"
| sha1: "sha1_hash l data hash w = (r, w') \<Longrightarrow> tls_step l (x, w) (x, w')"
| sha256: "sha256_hash l data hash w = (r, w') \<Longrightarrow> tls_step l (x, w) (x, w')"
| random: "generate_random_bytes l buf w = (r, b, w') \<Longrightarrow> tls_step l (x, w) (x, w')"

text \<open>The operations that do not take \<open>Openssl_lock\<close>; an AES context from its creation to its release.\<close>

inductive stray_step :: "tls_lib \<Rightarrow> ssl_context option \<times> tls_world \<Rightarrow> ssl_context option \<times> tls_world \<Rightarrow> bool" for l where
  shutdown: "ssl_shutdown x w = (x', w') \<Longrightarrow> stray_step l (x, w) (x', w')"
| hmac: "hmac_sha256 l k d m w = (r, w') \<Longrightarrow> stray_step l (x, w) (x, w')"
| aes: "aes_create l mode key iv w = (a, w1) \<Longrightarrow> aes_encrypt l a p w1 = (q, w2) \<Longrightarrow> aes_decrypt l a p' w2 = (q', w3) \<Longrightarrow>
    stray_step l (x, w) (x, aes_destroy a w3)"

definition world0 :: tls_world where
  "world0 = \<lparr>trace = [], call_i = 0, made = {#}, freed = {#}\<rparr>"

lemma world0_ok: "tls_ok None world0" "strays world0 = ([], False)"
  by (simp_all add: tls_ok_def objects_def world0_def locks_def strays_def)

lemma tls_step_ok:
  assumes "tls_step l s s'" "tls_ok (fst s) (snd s)"
  shows "tls_ok (fst s') (snd s') \<and> (strays (snd s) = ([], False) \<longrightarrow> strays (snd s') = ([], False))"
  using assms
proof (induction rule: tls_step.induct)
  case (create w x w')
  then show ?case using create_ok by simp
next
  case (connect c w r x w')
  then show ?case using connect_ok [of c w l r x w'] by simp
next
  case (reading len x w r bs w')
  then show ?case using read_ok [of x w l len r bs w'] by simp
next
  case (writing data x w r w')
  then show ?case using write_ok [of x w l data r w'] by simp
next
  case (pending x w r w')
  then show ?case using pending_ok [of x w l r w'] by simp
next
  case (destroy x w)
  then show ?case using destroy_ok [of x w] by simp
next
  case (md5 data hash w r w' x)
  then show ?case using hash_ok [of x w l Md5 MD5_HASH_SIZE data hash r w'] by (simp add: md5_hash_def)
next
  case (sha1 data hash w r w' x)
  then show ?case using hash_ok [of x w l Sha1 SHA1_HASH_SIZE data hash r w'] by (simp add: sha1_hash_def)
next
  case (sha256 data hash w r w' x)
  then show ?case using hash_ok [of x w l Sha256 0 data hash r w'] by simp
next
  case (random buf w r b w' x)
  then show ?case using random_ok [of x w l buf r b w'] by simp
qed

lemma stray_step_ok: "stray_step l s s' \<Longrightarrow> tls_ok (fst s) (snd s) \<Longrightarrow> tls_ok (fst s') (snd s')"
proof (induction rule: stray_step.induct)
  case (shutdown x w x' w')
  then show ?case using shutdown_ok by simp
next
  case (hmac k d m w r w' x)
  then show ?case using hmac_ok by simp
next
  case (aes mode key iv w a w1 p q w2 p' q' w3 x)
  have e: "locks w3 = locks w1 \<and> made w3 = made w1 \<and> freed w3 = freed w1"
    using aes(2,3) cipher_run_ok by (auto simp: aes_encrypt_def aes_decrypt_def split: option.splits if_splits)
  then show ?case using aes_create_ok [OF _ aes(1), of x] aes(4) aes_destroy_ok [of w3 x a] by simp
qed

interpretation tls_life: step_invariant "sup (tls_step l) (stray_step l)" "\<lambda>s. tls_ok (fst s) (snd s)" for l
  by unfold_locales (auto dest: tls_step_ok stray_step_ok)

interpretation tls_guarded: step_invariant "tls_step l" "\<lambda>s. tls_ok (fst s) (snd s) \<and> strays (snd s) = ([], False)" for l
  by unfold_locales (auto dest: tls_step_ok)

lemma tls_runs_ok: "(sup (tls_step l) (stray_step l))\<^sup>*\<^sup>* s s' \<Longrightarrow> tls_ok (fst s) (snd s) \<Longrightarrow> tls_ok (fst s') (snd s')"
  using tls_life.run_keeps by blast

lemma tls_runs_strays:
  "(tls_step l)\<^sup>*\<^sup>* s s' \<Longrightarrow> tls_ok (fst s) (snd s) \<Longrightarrow> strays (snd s) = ([], False) \<Longrightarrow>
    tls_ok (fst s') (snd s') \<and> strays (snd s') = ([], False)"
  using tls_guarded.run_keeps by blast

text \<open>
  C38: the locks and objects of the OpenSSL wrapper. In every order of its operations, whatever
  OpenSSL answers and on every error path, no lock is left held, none is taken twice or
  released without being held, the lock on TLS objects is never taken behind the one on the
  library, and every object made is freed or in the hands of the context.
\<close>

theorem tls_lock_discipline:
  assumes "(sup (tls_step l) (stray_step l))\<^sup>*\<^sup>* (None, world0) (x, w)"
  shows "lock_run (trace w) no_locks = Some no_locks \<and> made w = freed w + objects x"
  using tls_runs_ok [OF assms] world0_ok(1) by (simp add: tls_ok_def locks_def)

text \<open>
  C39: which calls are serialised. The comment at the lock says that every entry point into
  OpenSSL's cryptography takes it. Creating, connecting, reading, writing and destroying, the
  digests and the random bytes, in any order, make every handshake, record, digest and RAND
  call under it; shutting a connection down, the HMAC and AES make theirs without.
\<close>

theorem tls_serialized:
  shows "((tls_step l)\<^sup>*\<^sup>* (None, world0) (x, w) \<longrightarrow> unguarded (trace w) False = []) \<and>
    (sx_ssl c \<noteq> None \<longrightarrow> unguarded (trace (snd (ssl_shutdown (Some c) world0))) False = [SSL_shutdown]) \<and>
    unguarded (trace (snd (hmac_sha256 l (Some k) (Some d) (Some m) world0))) False = [HMAC] \<and>
    (ax_enc a \<noteq> None \<longrightarrow> CipherInit \<in> set (unguarded (trace (snd (aes_encrypt l (Some a) p world0))) False))"
proof (intro conjI impI)
  show "unguarded (trace w) False = []" if "(tls_step l)\<^sup>*\<^sup>* (None, world0) (x, w)"
    using tls_runs_strays [OF that] world0_ok by (simp add: strays_def)
  show "CipherInit \<in> set (unguarded (trace (snd (aes_encrypt l (Some a) p world0))) False)" if "ax_enc a \<noteq> None"
    using that by (auto simp: aes_encrypt_def cipher_run_def world0_def ev_def provider_call_def Let_def split: option.split)
qed (auto simp: ssl_shutdown_def hmac_sha256_def world0_def ev_def provider_call_def)

section \<open>Retries\<close>

text \<open>The first answer that is not a request to come back, among the first \<open>n\<close>.\<close>

definition decided_at :: "(nat \<Rightarrow> 'a) \<Rightarrow> 'a \<Rightarrow> nat \<Rightarrow> nat \<Rightarrow> bool" where
  "decided_at f want n k \<longleftrightarrow> k < n \<and> f k \<noteq> want \<and> (\<forall>j < k. f j = want)"

lemma decided_0 [simp]: "\<not> decided_at f want 0 k"
  by (simp add: decided_at_def)

lemma decided_Suc:
  "decided_at f want (Suc n) k \<longleftrightarrow> (if f 0 = want then 0 < k \<and> decided_at (\<lambda>i. f (Suc i)) want n (k - 1) else k = 0)"
  by (cases k) (auto simp: decided_at_def less_Suc_eq_0_disj)

lemma handshake_loop_decided:
  "fst (handshake_loop l n w) \<longleftrightarrow> (\<exists>k. decided_at (\<lambda>i. l_handshake l (call_i w + i)) Hs_want n k \<and> l_handshake l (call_i w + k) = Hs_done)"
proof (induction l n w rule: handshake_loop.induct)
  case (2 l n w)
  let ?f = "\<lambda>i. l_handshake l (call_i w + i)"
  have s: "(\<exists>k. (0 < k \<and> decided_at (\<lambda>i. ?f (Suc i)) Hs_want n (k - 1)) \<and> ?f k = Hs_done) \<longleftrightarrow>
      (\<exists>k. decided_at (\<lambda>i. ?f (Suc i)) Hs_want n k \<and> ?f (Suc k) = Hs_done)"
    by (metis Suc_pred diff_Suc_1 zero_less_Suc)
  show ?case
    using 2 s by (cases "l_handshake l (call_i w)") (auto simp: decided_Suc Let_def)
qed simp

lemma handshake_loop_calls:
  "count_list (trace (snd (handshake_loop l n w))) (Lib SSL_do_handshake) \<le> count_list (trace w) (Lib SSL_do_handshake) + n"
proof (induction l n w rule: handshake_loop.induct)
  case (2 l n w)
  then show ?case by (cases "l_handshake l (call_i w)") (auto simp: Let_def)
qed simp

text \<open>
  The handshake. A connect succeeds exactly when the TLS object could be made and attached
  and the first answer that does not ask to come back is the completed handshake, within
  100 attempts; it never makes more. When it fails, whatever the reason, the object is gone
  and the context is as before, so that a later read or write refuses to use it.
\<close>

theorem ssl_connect_outcome:
  assumes "sx_ctx c \<noteq> None" "ssl_connect l (Some c) w = (r, x, w')"
  shows "(r = 0 \<longleftrightarrow> l_ssl_new l (call_i w + 1) \<and> l_set_fd l (call_i w + 2) \<and>
      (\<exists>k. decided_at (\<lambda>i. l_handshake l (call_i w + 4 + i)) Hs_want 100 k \<and> l_handshake l (call_i w + 4 + k) = Hs_done)) \<and>
    (if r = 0 then usable x else r = -1 \<and> x = Some (c\<lparr>sx_ssl := None\<rparr>) \<and> \<not> usable x) \<and>
    count_list (trace w') (Lib SSL_do_handshake) \<le> count_list (trace w) (Lib SSL_do_handshake) + 100"
proof -
  let ?w = "ev [Use_unlock, Use_rdlock] (ev [Lib SSL_set_fd] (snd (new_object SSL_new (l_ssl_new l) (ev [Use_wrlock] w))))"
  have i: "l_ssl_new l (call_i w + 1) \<Longrightarrow> call_i ?w = call_i w + 4" by (simp add: new_object_def)
  have t: "count_list (trace ?w) (Lib SSL_do_handshake) = count_list (trace w) (Lib SSL_do_handshake)"
    by (simp add: new_object_def Let_def)
  obtain ok w2 where h: "handshake_loop l 100 ?w = (ok, w2)" by (rule prod.exhaust)
  have d: "l_ssl_new l (call_i w + 1) \<Longrightarrow> ok \<longleftrightarrow> (\<exists>k. decided_at (\<lambda>i. l_handshake l (call_i w + 4 + i)) Hs_want 100 k \<and>
      l_handshake l (call_i w + 4 + k) = Hs_done)"
    using handshake_loop_decided [of l 100 ?w] unfolding h fst_conv by (simp only: i)
  have n: "count_list (trace w2) (Lib SSL_do_handshake) \<le> count_list (trace w) (Lib SSL_do_handshake) + 100"
    using handshake_loop_calls [of l 100 ?w] h t by simp
  have 1: "r = 0 \<longleftrightarrow> l_ssl_new l (call_i w + 1) \<and> l_set_fd l (call_i w + 2) \<and>
      (\<exists>k. decided_at (\<lambda>i. l_handshake l (call_i w + 4 + i)) Hs_want 100 k \<and> l_handshake l (call_i w + 4 + k) = Hs_done)"
    using assms h d by (cases ok) (auto simp: ssl_connect_def new_object_def MAX_ATTEMPTS_def Let_def split: if_splits)
  have 2: "if r = 0 then usable x else r = -1 \<and> x = Some (c\<lparr>sx_ssl := None\<rparr>) \<and> \<not> usable x"
    using assms h by (cases ok) (auto simp: ssl_connect_def new_object_def MAX_ATTEMPTS_def usable_def Let_def split: if_splits)
  have 3: "count_list (trace w') (Lib SSL_do_handshake) \<le> count_list (trace w) (Lib SSL_do_handshake) + 100"
    using assms h n by (cases ok) (auto simp: ssl_connect_def new_object_def MAX_ATTEMPTS_def Let_def split: if_splits)
  show ?thesis using 1 2 3 by blast
qed

lemma read_loop_decided:
  assumes "decided_at (\<lambda>i. l_read l (call_i w + i) len) Rd_want n k"
  shows "\<exists>w'. read_loop l len n w = (case l_read l (call_i w + k) len of
    Rd_data bs \<Rightarrow> (int (length bs), bs, w') | Rd_zero \<Rightarrow> (0, [], w') | _ \<Rightarrow> (-1, [], w'))"
  using assms
proof (induction l len n w arbitrary: k rule: read_loop.induct)
  case (2 l len n w)
  let ?w = "ev [Lock Openssl_lock, Lib SSL_read, Unlock Openssl_lock] w"
  show ?case
  proof (cases "l_read l (call_i w) len = Rd_want")
    case True
    then obtain j where j: "k = Suc j" "decided_at (\<lambda>i. l_read l (call_i ?w + i) len) Rd_want n j"
      using 2(2) by (cases k) (auto simp: decided_Suc)
    have "l_read l (call_i w + k) len = l_read l (call_i ?w + j) len" using j(1) by simp
    then show ?thesis using 2(1) [OF refl refl True j(2)] True by (simp add: Let_def)
  next
    case False
    then have "k = 0" using 2(2) by (simp add: decided_Suc)
    then show ?thesis using False by (cases "l_read l (call_i w) len") (auto simp: Let_def)
  qed
qed simp

lemma read_loop_undecided:
  "\<forall>i < n. l_read l (call_i w + i) len = Rd_want \<Longrightarrow> \<exists>w'. read_loop l len n w = (-1, [], w')"
proof (induction l len n w rule: read_loop.induct)
  case (2 l len n w)
  let ?w = "ev [Lock Openssl_lock, Lib SSL_read, Unlock Openssl_lock] w"
  have w: "l_read l (call_i w) len = Rd_want" using 2(2) by auto
  have "\<forall>i < n. l_read l (call_i ?w + i) len = Rd_want" using 2(2) by auto
  from 2(1) [OF refl refl w this] show ?case using w by (simp add: Let_def)
qed simp

text \<open>
  Reading is reading from a stream: when OpenSSL delivers, after at most four requests to
  come back, what a read from the stream \<open>s\<close> gives, or reports its end, \<^verbatim>\<open>ssl_read\<close> returns those
  bytes and their number, or a result that is not positive. Five requests in a row end in the
  same result as an error, although the connection is alive.
\<close>

theorem ssl_read_stream:
  assumes "usable x" "sock_read len s = (bs, s')" "k < 5" "\<forall>j < k. l_read l (call_i w + 1 + j) len = Rd_want"
    and "if bs = [] then l_read l (call_i w + 1 + k) len \<in> {Rd_zero, Rd_error} else l_read l (call_i w + 1 + k) len = Rd_data bs"
  shows "(\<exists>w'. ssl_read l len x w = (int (length bs), bs, w') \<or> bs = [] \<and> ssl_read l len x w = (-1, [], w')) \<and>
    ((\<forall>j < 5. l_read l' (call_i w + 1 + j) len = Rd_want) \<longrightarrow> (\<exists>w'. ssl_read l' len x w = (-1, [], w')))"
proof -
  let ?w = "ev [Use_rdlock, Lib SSL_pending] w"
  have d: "decided_at (\<lambda>i. l_read l (call_i ?w + i) len) Rd_want 5 k"
    using assms(3-5) by (auto simp: decided_at_def split: if_splits)
  obtain w' where r: "read_loop l len 5 ?w = (case l_read l (call_i ?w + k) len of
      Rd_data bs \<Rightarrow> (int (length bs), bs, w') | Rd_zero \<Rightarrow> (0, [], w') | _ \<Rightarrow> (-1, [], w'))"
    using read_loop_decided [OF d] by blast
  have 1: "ssl_read l len x w = (int (length bs), bs, ev [Use_unlock] w') \<or> bs = [] \<and> ssl_read l len x w = (-1, [], ev [Use_unlock] w')"
    using r assms(1,5) by (auto simp: ssl_read_def MAX_RETRIES_def split: if_splits)
  have 2: "\<exists>w'. ssl_read l' len x w = (-1, [], w')" if "\<forall>j < 5. l_read l' (call_i w + 1 + j) len = Rd_want"
    using read_loop_undecided [of 5 l' ?w len] that assms(1) by (auto simp: ssl_read_def MAX_RETRIES_def)
  show ?thesis using 1 2 by blast
qed

text \<open>
  A digest that fails is silent: whichever step of OpenSSL fails, or when the digest has an
  unexpected size, the caller finds in its buffer what was there before, with no sign of it.
\<close>

theorem sha1_hash_result:
  "fst (sha1_hash l (Some data) (Some out) w) = Some (if (\<forall>m. l_md l (call_i w) m) \<and> length (l_digest l Sha1 data) = 20
     then l_digest l Sha1 data @ drop 20 out else out)"
proof -
  have all: "(\<forall>m. f m) \<longleftrightarrow> f Md_new \<and> f Md_init \<and> f Md_update \<and> f Md_final" for f
    by (metis md_call.exhaust)
  show ?thesis
    unfolding sha1_hash_def sized_hash_def evp_digest_def new_object_def SHA1_HASH_SIZE_def all
    by (simp add: Let_def)
qed

section \<open>Witnesses\<close>

definition tls_lib0 :: tls_lib where
  "tls_lib0 = \<lparr>l_calloc = (\<lambda>_. True), l_ctx_new = (\<lambda>_. True), l_ssl_new = (\<lambda>_. True), l_set_fd = (\<lambda>_. True),
     l_handshake = (\<lambda>n. if n < 8 then Hs_want else Hs_done), l_read = (\<lambda>n len. if n < 2 then Rd_want else Rd_data [7]),
     l_write = (\<lambda>_ bs. int (length bs)), l_pending = (\<lambda>_. 0), l_md = (\<lambda>_ _. True), l_digest = (\<lambda>_ _. replicate 20 1),
     l_rand = (\<lambda>_. None), l_hmac = (\<lambda>_ _. replicate 32 2), l_cipher_new = (\<lambda>_. True), l_cipher_init = (\<lambda>_. True),
     l_cipher = (\<lambda>_ bs. Some (bs, Some []))\<rparr>"

definition ssl0 :: ssl_context where
  "ssl0 = \<lparr>sx_ctx = Some 1, sx_ssl = None, sx_connected = False\<rparr>"

definition world1 :: tls_world where
  "world1 = snd (ssl_create_client tls_lib0 world0)"

lemma tls_create0: "ssl_create_client tls_lib0 world0 = (Some ssl0, world1)"
  by (simp add: world1_def ssl_create_client_def tls_lib0_def new_object_def world0_def ssl0_def)

definition world2 :: tls_world where
  "world2 = snd (snd (ssl_connect tls_lib0 (Some ssl0) world1))"

definition ssl1 :: ssl_context where
  "ssl1 = \<lparr>sx_ctx = Some 1, sx_ssl = Some 4, sx_connected = True\<rparr>"

lemma world1_i: "call_i world1 = 3"
  by (simp add: world1_def ssl_create_client_def tls_lib0_def new_object_def world0_def)

lemma tls_connect0: "ssl_connect tls_lib0 (Some ssl0) world1 = (0, Some ssl1, world2)"
proof -
  have h: "fst (handshake_loop tls_lib0 100 w)" if "call_i w = 7" for w
    using that by (simp add: handshake_loop_decided) (rule exI [of _ 1], simp add: decided_at_def tls_lib0_def)
  let ?w = "ev [Use_unlock, Use_rdlock] (ev [Lib SSL_set_fd] ((ev [Lib SSL_new] (ev [Use_wrlock] world1))\<lparr>made := add_mset 4 (made world1)\<rparr>))"
  have "fst (handshake_loop tls_lib0 100 ?w)" by (rule h) (simp add: world1_i)
  then show ?thesis
    by (auto simp: world2_def ssl_connect_def new_object_def tls_lib0_def [THEN arg_cong, of l_ssl_new]
        tls_lib0_def [THEN arg_cong, of l_set_fd] MAX_ATTEMPTS_def ssl0_def ssl1_def world1_i Let_def split: prod.splits bool.splits)
qed

lemma tls_run0: "(tls_step tls_lib0)\<^sup>*\<^sup>* (None, world0) (Some ssl1, world2)"
proof -
  have "tls_step tls_lib0 (None, world0) (Some ssl0, world1)" by (rule tls_step.create [OF tls_create0])
  moreover have "tls_step tls_lib0 (Some ssl0, world1) (Some ssl1, world2)"
    by (rule tls_step.connect [OF _ tls_connect0]) (simp add: ssl0_def)
  ultimately show ?thesis by (meson r_into_rtranclp rtranclp.rtrancl_into_rtrancl)
qed

theorem tls_lock_discipline_witness:
  "lock_run (trace (ssl_destroy (Some ssl1) world2)) no_locks = Some no_locks \<and>
   made (ssl_destroy (Some ssl1) world2) = freed (ssl_destroy (Some ssl1) world2)"
proof -
  have "(sup (tls_step tls_lib0) (stray_step tls_lib0))\<^sup>*\<^sup>* (None, world0) (Some ssl1, world2)"
    using tls_run0 by (rule rtranclp_mono [THEN predicate2D, rotated]) simp
  moreover have "sup (tls_step tls_lib0) (stray_step tls_lib0) (Some ssl1, world2) (None, ssl_destroy (Some ssl1) world2)"
    using tls_step.destroy by simp
  ultimately have "(sup (tls_step tls_lib0) (stray_step tls_lib0))\<^sup>*\<^sup>* (None, world0) (None, ssl_destroy (Some ssl1) world2)"
    by (rule rtranclp.rtrancl_into_rtrancl)
  from tls_lock_discipline [OF this] show ?thesis by (simp add: objects_def)
qed

theorem tls_serialized_witness:
  "unguarded (trace world2) False = [] \<and> unguarded (trace (snd (ssl_shutdown (Some ssl1) world0))) False = [SSL_shutdown]"
  using tls_serialized [of tls_lib0 "Some ssl1" world2 ssl1] tls_run0 by (simp add: ssl1_def)

theorem ssl_connect_outcome_witness:
  "usable (Some ssl1) \<and> count_list (trace world2) (Lib SSL_do_handshake) \<le> count_list (trace world1) (Lib SSL_do_handshake) + 100"
  using ssl_connect_outcome [OF _ tls_connect0] by (simp add: ssl0_def)

end
