(* ===== verification/Jni.thy ===== *)
theory Jni
  imports Connect_Props Dhcp
begin

text \<open>
  The entry points of the library (\<^verbatim>\<open>softether_jni.c\<close>). Each checks its handle, gets the
  contents of the Java strings and arrays it was given, calls the operation and gives the
  contents back. A handle is an \<open>option\<close>, \<open>None\<close> being 0; a string or array argument is what
  the virtual machine returns for it, \<open>None\<close> being NULL; the strings and arrays got and given
  back are left in a list, each by the position of its argument. An access outside a Java
  array is \<open>Fault\<close>. The mutex around connecting is not modelled.
\<close>

section \<open>Strings and arrays\<close>

datatype jni_event = Pin nat | Unpin nat

fun pins_run :: "jni_event list \<Rightarrow> nat list \<Rightarrow> nat list option" where
  "pins_run [] ps = Some ps"
| "pins_run (Pin i # es) ps = (if i \<in> set ps then None else pins_run es (i # ps))"
| "pins_run (Unpin i # es) ps = (if i \<in> set ps then pins_run es (remove1 i ps) else None)"

text \<open>Everything got is given back once.\<close>

definition balanced :: "jni_event list \<Rightarrow> bool" where
  "balanced es \<longleftrightarrow> pins_run es [] = Some []"

definition got :: "bytes option list \<Rightarrow> nat list" where
  "got strs = filter (\<lambda>i. strs ! i \<noteq> None) [0..<length strs]"

definition pin_strings :: "bytes option list \<Rightarrow> jni_event list" where
  "pin_strings strs = map Pin (got strs)"

definition unpin_strings :: "bytes option list \<Rightarrow> jni_event list" where
  "unpin_strings strs = map Unpin (got strs)"

text \<open>A \<^verbatim>\<open>jint\<close> converted to \<^verbatim>\<open>size_t\<close>, and a \<^verbatim>\<open>jlong\<close> to \<^verbatim>\<open>int\<close>.\<close>

definition size_of_jint :: "int \<Rightarrow> nat" where
  "size_of_jint n = nat (n mod 2 ^ 64)"

definition int_of_jlong :: "int \<Rightarrow> int" where
  "int_of_jlong v = as_int (word_of_int v)"

section \<open>Life of a connection\<close>

definition nativeCreate :: "client_env \<Rightarrow> bool \<Rightarrow> udp_world \<Rightarrow> client_t option" where
  "nativeCreate env ok w = softether_create env ok w"

definition nativeDestroy :: "client_env \<Rightarrow> client_t option \<Rightarrow> client_t option run" where
  "nativeDestroy env h = (case h of
     None \<Rightarrow> Finished None | Some c \<Rightarrow> run_bind (softether_destroy env c) (\<lambda>c. Finished (Some c)))"

definition connected_handle :: "(err \<times> client_t) run \<Rightarrow> (err \<times> client_t option) run" where
  "connected_handle r = run_bind r (\<lambda>(e, c). Finished (e, Some c))"

definition nativeConnect :: "client_env \<Rightarrow> bytes option \<Rightarrow> int \<Rightarrow> bytes option \<Rightarrow> bytes option \<Rightarrow> client_t option \<Rightarrow>
    (err \<times> client_t option) run \<times> jni_event list" where
  "nativeConnect env host port user pw h = (case h of
     None \<Rightarrow> (Finished (ERR_UNKNOWN, None), [])
   | Some c \<Rightarrow> let strs = [host, user, pw] in
       if None \<in> set strs then (Finished (ERR_UNKNOWN, Some c), pin_strings strs @ unpin_strings strs)
       else (connected_handle (softether_connect env host port user pw c), pin_strings strs @ unpin_strings strs))"

text \<open>The thirteen strings of \<^verbatim>\<open>nativeConnectWithHub\<close>, in the order they are got.\<close>

definition hub_args :: "bytes option list \<Rightarrow> int \<Rightarrow> bool \<Rightarrow> int \<Rightarrow> int \<Rightarrow> int \<Rightarrow> connect_args" where
  "hub_args strs port use_tcp build cport sport = \<lparr>a_host = strs ! 0, a_port = port, a_username = strs ! 1,
     a_password = strs ! 2, a_hub_name = strs ! 3, a_use_tcp = use_tcp,
     a_info = \<lparr>client_product_name = the (strs ! 4), client_product_version = the (strs ! 5), client_product_build = build,
       client_os_name = the (strs ! 6), client_os_version = the (strs ! 7), client_os_product_id = the (strs ! 8),
       client_host_name = the (strs ! 9), client_ip_address = the (strs ! 10), client_port = cport,
       server_host_name = the (strs ! 11), server_ip_address = the (strs ! 12), server_port_reported = sport,
       client_ip_v6 = [], ci_half_connection = False, ci_socket_fd = -1\<rparr>\<rparr>"

definition nativeConnectWithHub :: "client_env \<Rightarrow> bytes option list \<Rightarrow> int \<Rightarrow> bool \<Rightarrow> int \<Rightarrow> int \<Rightarrow> int \<Rightarrow> client_t option \<Rightarrow>
    (err \<times> client_t option) run \<times> jni_event list" where
  "nativeConnectWithHub env strs port use_tcp build cport sport h = (case h of
     None \<Rightarrow> (Finished (ERR_UNKNOWN, None), [])
   | Some c \<Rightarrow> if None \<in> set strs then (Finished (ERR_UNKNOWN, Some c), pin_strings strs @ unpin_strings strs)
       else (connected_handle (softether_connect_with_hub env (hub_args strs port use_tcp build cport sport) c),
         pin_strings strs @ unpin_strings strs))"

definition nativeSetAuthType :: "int \<Rightarrow> client_t option \<Rightarrow> client_t option" where
  "nativeSetAuthType ty h = map_option (softether_set_auth_type ty) h"

definition nativeDisconnect :: "client_t option \<Rightarrow> client_t option" where
  "nativeDisconnect h = (case h of
     None \<Rightarrow> None
   | Some c \<Rightarrow> if softether_get_state h = STATE_DISCONNECTED \<or> softether_get_state h = STATE_DISCONNECTING then h
       else Some (softether_disconnect c))"

definition nativeGetState :: "client_t option \<Rightarrow> softether_state_t" where
  "nativeGetState h = softether_get_state h"

definition nativeForceCloseSocket :: "client_t option \<Rightarrow> client_t option" where
  "nativeForceCloseSocket h = map_option softether_force_close_socket h"

section \<open>Settings\<close>

definition nativeSetMaxConnection :: "int \<Rightarrow> client_t option \<Rightarrow> client_t option" where
  "nativeSetMaxConnection n h = map_option (\<lambda>c.
     let n = (if n < 1 then 1 else n); n = (if n > int MAX_SE_CONNECTIONS then int MAX_SE_CONNECTIONS else n)
     in c\<lparr>tun := (tun c)\<lparr>max_connection := n\<rparr>\<rparr>) h"

definition nativeSetHalfConnection :: "bool \<Rightarrow> client_t option \<Rightarrow> client_t option" where
  "nativeSetHalfConnection b h = map_option (\<lambda>c. c\<lparr>sess := (sess c)\<lparr>half_connection := (if b then 1 else 0)\<rparr>\<rparr>) h"

definition nativeSetOption :: "int \<Rightarrow> int \<Rightarrow> client_t option \<Rightarrow> client_t option" where
  "nativeSetOption opt v h = map_option (\<lambda>c.
     if opt = 1 then c\<lparr>timeout_ms := int_of_jlong v\<rparr>
     else if opt = 4 then c\<lparr>udp_port := int_of_jlong v\<rparr>
     else if opt = 5 then c\<lparr>udp_only := int_of_jlong v \<noteq> 0\<rparr>
     else c) h"

text \<open>Six bytes are read from the array, whatever its length.\<close>

definition nativeSetClientMac :: "bytes option \<Rightarrow> client_t option \<Rightarrow> client_t option outcome \<times> jni_event list" where
  "nativeSetClientMac mac h = (case (h, mac) of
     (Some c, Some m) \<Rightarrow> (case read_at m 0 6 of
         None \<Rightarrow> (Fault, [Pin 0, Unpin 0]) | Some b \<Rightarrow> (Ret (Some (softether_set_client_mac (Some b) c)), [Pin 0, Unpin 0]))
   | _ \<Rightarrow> (Ret h, []))"

section \<open>Queries\<close>

definition nativeGetClientMac :: "bool \<Rightarrow> client_t option \<Rightarrow> bytes option" where
  "nativeGetClientMac room h = (case h of None \<Rightarrow> None | Some c \<Rightarrow> if room then Some (client_mac (tun c)) else None)"

definition nativeGetSocketFd :: "client_t option \<Rightarrow> int" where
  "nativeGetSocketFd h = (case h of None \<Rightarrow> -1 | Some c \<Rightarrow> socket_fd (cl_conn c))"

definition nativeGetNumConnections :: "client_t option \<Rightarrow> int" where
  "nativeGetNumConnections h = (case h of None \<Rightarrow> 0 | Some c \<Rightarrow> softether_get_num_connections (tun c))"

definition nativeGetAllSocketFds :: "bool \<Rightarrow> client_t option \<Rightarrow> int list option" where
  "nativeGetAllSocketFds room h = (case h of
     None \<Rightarrow> None
   | Some c \<Rightarrow> let fds = softether_get_active_socket_fds (MAX_SE_CONNECTIONS + 1) (tun c) in
       if fds = [] \<or> \<not> room then None else Some fds)"

definition nativeGetRudpSocketFd :: "client_t option \<Rightarrow> int" where
  "nativeGetRudpSocketFd h = (case h of
     None \<Rightarrow> -1 | Some c \<Rightarrow> (case conn_rudp (cl_conn c) of None \<Rightarrow> -1 | Some ru \<Rightarrow> rudp_get_udp_fd ru))"

definition nativeGetNatTUdpSocketFd :: "client_t option \<Rightarrow> int" where
  "nativeGetNatTUdpSocketFd h = (case h of
     None \<Rightarrow> -1
   | Some c \<Rightarrow> (case cl_transport c of
         None \<Rightarrow> -1 | Some tr \<Rightarrow> if using_nat_t (tun c) then rudp_transport_get_udp_fd tr else -1))"

text \<open>The nine counters; without a UDP context its four are zero.\<close>

definition nativeGetStats :: "bool \<Rightarrow> client_t option \<Rightarrow> int list option" where
  "nativeGetStats room h = (case h of
     None \<Rightarrow> None
   | Some c \<Rightarrow> let st = softether_get_stats (tun c) in
       if \<not> room then None
       else Some ([int (st_tx_packets st), int (st_tx_bytes st), int (Tunnel.st_rx_packets st), int (st_rx_bytes st),
         uint (st_rx_skipped_blocks st)] @
         (case st_rudp st of None \<Rightarrow> [0, 0, 0, 0]
          | Some r \<Rightarrow> [uint (st_overflow r), uint (Rudp_Accel.st_rx_packets r), uint (st_gap_events r), if st_suspended r then 1 else 0])))"

section \<open>Data\<close>

text \<open>
  What \<^verbatim>\<open>softether_send\<close> refuses before it looks at the data; a length beyond the array is only
  harmless then.
\<close>

definition send_refuses :: "nat \<Rightarrow> tun_t \<Rightarrow> bool" where
  "send_refuses n t \<longleftrightarrow> n = 0 \<or> cstate (tc t) \<noteq> STATE_CONNECTED \<or> send_block_cap (tc t) = 0 \<or>
     n > send_block_cap (tc t) - 8 - ETH_HEADER_SIZE \<or> conn_ssl (tc t) = None"

definition sent_bytes :: "nat option \<times> tun_t \<Rightarrow> client_t \<Rightarrow> int \<times> client_t option" where
  "sent_bytes rt c = (case rt of (r, t) \<Rightarrow> (case r of None \<Rightarrow> -1 | Some k \<Rightarrow> int k, Some (c\<lparr>tun := t\<rparr>)))"

definition send_part :: "client_env \<Rightarrow> bytes \<Rightarrow> nat \<Rightarrow> nat \<Rightarrow> client_t \<Rightarrow> (int \<times> client_t option) outcome" where
  "send_part env arr pos n c = (case read_at arr pos n of
     Some d \<Rightarrow> Ret (sent_bytes (softether_send (te env) d (tun c)) c)
   | None \<Rightarrow> if send_refuses n (tun c) then Ret (-1, Some c) else Fault)"

definition nativeSend :: "client_env \<Rightarrow> bytes option \<Rightarrow> int \<Rightarrow> client_t option \<Rightarrow> (int \<times> client_t option) outcome \<times> jni_event list" where
  "nativeSend env data len h = (case (h, data) of
     (Some c, Some arr) \<Rightarrow> (send_part env arr 0 (size_of_jint len) c, [Pin 0, Unpin 0])
   | _ \<Rightarrow> (Ret (-1, h), []))"

text \<open>\<open>arr\<close> is the array, \<open>data\<close> its elements when they could be got.\<close>

definition nativeSendSlice :: "client_env \<Rightarrow> bytes \<Rightarrow> bool \<Rightarrow> int \<Rightarrow> int \<Rightarrow> client_t option \<Rightarrow>
    (int \<times> client_t option) outcome \<times> jni_event list" where
  "nativeSendSlice env arr ok pos len h = (case h of
     None \<Rightarrow> (Ret (-1, None), [])
   | Some c \<Rightarrow> if pos < 0 \<or> len < 0 \<or> pos + len > int (length arr) \<or> \<not> ok then (Ret (-1, h), [])
       else (send_part env arr (nat pos) (size_of_jint len) c, [Pin 0, Unpin 0]))"

text \<open>
  A length beyond the array is a \<open>Fault\<close> whenever the connection is up, although a check further
  down may still refuse it.
\<close>

definition nativeSendRaw :: "client_env \<Rightarrow> bytes option \<Rightarrow> int \<Rightarrow> client_t option \<Rightarrow> (int \<times> client_t option) outcome \<times> jni_event list" where
  "nativeSendRaw env data len h = (case (h, data) of
     (Some c, Some arr) \<Rightarrow> if len \<le> 0 then (Ret (-1, h), [])
       else (case read_at arr 0 (size_of_jint len) of
           Some d \<Rightarrow> Ret (sent_bytes (softether_send_raw (te env) d (tun c)) c)
         | None \<Rightarrow> if cstate (cl_conn c) \<noteq> STATE_CONNECTED then Ret (-1, h) else Fault, [Pin 0, Unpin 0])
   | _ \<Rightarrow> (Ret (-1, h), []))"

text \<open>The contents of the array afterwards: written back only when something was received.\<close>

definition nativeReceive :: "client_env \<Rightarrow> bytes option \<Rightarrow> int \<Rightarrow> client_t option \<Rightarrow>
    (int \<times> bytes option \<times> client_t option) outcome \<times> jni_event list" where
  "nativeReceive env buf len h = (case (h, buf) of
     (Some c, Some arr) \<Rightarrow> (case softether_receive (te env) (size_of_jint len) (tun c) of
         (Rx_packet p, t) \<Rightarrow> (if length p \<le> length arr
           then Ret (int (length p), Some (p @ drop (length p) arr), Some (c\<lparr>tun := t\<rparr>)) else Fault, [Pin 0, Unpin 0])
       | (Rx_none, t) \<Rightarrow> (Ret (0, buf, Some (c\<lparr>tun := t\<rparr>)), [Pin 0, Unpin 0])
       | (Rx_error, t) \<Rightarrow> (Ret (-1, buf, Some (c\<lparr>tun := t\<rparr>)), [Pin 0, Unpin 0]))
   | _ \<Rightarrow> (Ret (-1, buf, h), []))"

text \<open>
  The packets go into \<open>buffer\<close>, their lengths into \<open>lengths\<close>, whose entries behind them are set
  to zero up to \<^verbatim>\<open>maxPackets\<close>. \<open>ok\<close> is whether the elements of the second array could be got.
\<close>

definition nativeReceiveBatch :: "client_env \<Rightarrow> bytes option \<Rightarrow> int \<Rightarrow> int list \<Rightarrow> bool \<Rightarrow> int \<Rightarrow> client_t option \<Rightarrow>
    (int \<times> bytes option \<times> int list \<times> client_t option) outcome \<times> jni_event list" where
  "nativeReceiveBatch env buf max_len lens ok max_packets h = (case (h, buf) of
     (Some c, Some arr) \<Rightarrow>
       if max_packets \<le> 0 \<or> max_len \<le> 0 then (Ret (-1, buf, lens, h), [])
       else if \<not> ok then (Ret (-1, buf, lens, h), [Pin 0, Unpin 0])
       else (case softether_receive_batch (te env) (nat max_len) (nat max_packets) (tun c) of
           (None, t) \<Rightarrow> (Ret (-1, buf, lens, Some (c\<lparr>tun := t\<rparr>)), [Pin 0, Pin 1, Unpin 1, Unpin 0])
         | (Some ps, t) \<Rightarrow> (if length (concat ps) \<le> length arr \<and> nat max_packets \<le> length lens
             then Ret (int (length (concat ps)), Some (concat ps @ drop (length (concat ps)) arr),
               map (\<lambda>p. int (length p)) ps @ replicate (nat max_packets - length ps) 0 @ drop (nat max_packets) lens,
               Some (c\<lparr>tun := t\<rparr>))
             else Fault, [Pin 0, Pin 1, Unpin 1, Unpin 0]))
   | _ \<Rightarrow> (Ret (-1, buf, lens, h), []))"

section \<open>DHCP\<close>

definition resolve_after_dhcp :: "tun_env \<Rightarrow> int \<Rightarrow> dhcp_result_t \<Rightarrow> tun_t \<Rightarrow> tun_t" where
  "resolve_after_dhcp env ret r t =
     (if ret = 0 \<and> dr_success r \<and> dr_gateway r \<noteq> 0
      then (case softether_resolve_gateway env (dr_gateway r) (t\<lparr>assigned_ip := dr_assigned_ip r\<rparr>) of
          (True, t) \<Rightarrow> t
        | (False, t) \<Rightarrow> if dr_dns_server r \<noteq> 0 then snd (softether_resolve_gateway env (dr_dns_server r) t) else t)
      else t)"

definition nativeDoDhcp :: "nat \<Rightarrow> client_env \<Rightarrow> bool \<Rightarrow> client_t option \<Rightarrow> (int list option \<times> client_t option) run" where
  "nativeDoDhcp fuel env room h = (case h of
     None \<Rightarrow> Finished (None, None)
   | Some c \<Rightarrow> (case softether_do_dhcp fuel (te env) dhcp_zero (tun c) of
         None \<Rightarrow> Unfinished
       | Some (ret, r, t) \<Rightarrow> Finished (if room then Some [if ret = 0 \<and> dr_success r then 1 else 0, as_int (dr_assigned_ip r),
             as_int (dr_subnet_mask r), as_int (dr_gateway r), as_int (dr_dns_server r), as_int (dr_dns_server2 r),
             as_int (dr_lease_time r)] else None,
           Some (c\<lparr>tun := resolve_after_dhcp (te env) ret r t\<rparr>))))"

section \<open>Everything got is given back\<close>

lemma pins_run_pins: "distinct is \<Longrightarrow> set is \<inter> set ps = {} \<Longrightarrow> pins_run (map Pin is @ es) ps = pins_run es (rev is @ ps)"
proof (induction "is" arbitrary: ps)
  case (Cons i "is")
  then show ?case using Cons.IH [of "i # ps"] by auto
qed simp

lemma pins_run_unpins: "distinct ps \<Longrightarrow> distinct is \<Longrightarrow> set is = set ps \<Longrightarrow> pins_run (map Unpin is) ps = Some []"
proof (induction "is" arbitrary: ps)
  case (Cons i "is")
  have "set is = set (remove1 i ps)" using Cons.prems by (auto simp: set_remove1_eq)
  then show ?case using Cons.IH [of "remove1 i ps"] Cons.prems by auto
qed simp

lemma balanced_strings: "balanced (pin_strings strs @ unpin_strings strs)"
proof -
  have "distinct (got strs)" by (simp add: got_def)
  then show ?thesis
    using pins_run_pins [of "got strs" "[]" "unpin_strings strs"] pins_run_unpins [of "rev (got strs)" "got strs"]
    by (simp add: balanced_def pin_strings_def unpin_strings_def)
qed

lemma balanced_simps [simp]: "balanced []" "balanced [Pin 0, Unpin 0]" "balanced [Pin 0, Pin (Suc 0), Unpin (Suc 0), Unpin 0]"
  by (simp_all add: balanced_def)

text \<open>
  No entry point keeps a Java string or array: on every path, with any of the thirteen
  strings of a connect missing, what was got is given back exactly once, and nothing else is.
\<close>

theorem native_pins_balanced:
  "balanced (snd (nativeConnect env host port user pw h)) \<and>
   balanced (snd (nativeConnectWithHub env strs port tcp build cport sport h)) \<and>
   balanced (snd (nativeSend env data len h)) \<and> balanced (snd (nativeSendSlice env arr ok pos len h)) \<and>
   balanced (snd (nativeSendRaw env data len h)) \<and> balanced (snd (nativeReceive env data len h)) \<and>
   balanced (snd (nativeReceiveBatch env data len lens ok n h)) \<and> balanced (snd (nativeSetClientMac data h))"
proof -
  have "balanced (snd (nativeConnect env host port user pw h))"
    using balanced_strings [of "[host, user, pw]"] by (auto simp: nativeConnect_def Let_def split: option.split)
  moreover have "balanced (snd (nativeConnectWithHub env strs port tcp build cport sport h))"
    using balanced_strings [of strs] by (auto simp: nativeConnectWithHub_def split: option.split)
  moreover have "balanced (snd (nativeReceive env data len h))" "balanced (snd (nativeReceiveBatch env data len lens ok n h))"
    by (auto simp: nativeReceive_def nativeReceiveBatch_def split: option.split prod.split rx.split)
  moreover have "balanced (snd (nativeSend env data len h))" "balanced (snd (nativeSendSlice env arr ok pos len h))"
    "balanced (snd (nativeSendRaw env data len h))" "balanced (snd (nativeSetClientMac data h))"
    by (auto simp: nativeSend_def nativeSendSlice_def nativeSendRaw_def nativeSetClientMac_def split: option.split)
  ultimately show ?thesis by blast
qed

section \<open>Array bounds\<close>

lemma size_of_jint_nat: "0 \<le> n \<Longrightarrow> n < 2 ^ 31 \<Longrightarrow> size_of_jint n = nat n"
  by (simp add: size_of_jint_def)

lemma receive_fits:
  "softether_receive env m t = (Rx_packet p, t') \<Longrightarrow> length p \<le> m"
  by (auto simp: softether_receive_def receive_frame_def Let_def split: if_splits prod.splits)

text \<open>
  C34: sending a slice is safe: whatever offset and length Java passes, no byte outside the array
  is read; a slice that is not inside the array is refused, and one that is sends exactly
  its bytes.
\<close>

theorem native_slice_safe:
  assumes "len < 2 ^ 31"
  shows "fst (nativeSendSlice env arr ok pos len h) =
    (case h of None \<Rightarrow> Ret (-1, None)
     | Some c \<Rightarrow> if 0 \<le> pos \<and> 0 \<le> len \<and> pos + len \<le> int (length arr) \<and> ok
         then Ret (sent_bytes (softether_send (te env) (take (nat len) (drop (nat pos) arr)) (tun c)) c)
         else Ret (-1, h))"
proof -
  have "read_at arr (nat pos) (nat len) = Some (take (nat len) (drop (nat pos) arr))"
    if "0 \<le> pos" "0 \<le> len" "pos + len \<le> int (length arr)" using that by (simp add: read_at_def)
  then show ?thesis
    using size_of_jint_nat [OF _ assms] by (auto simp: nativeSendSlice_def send_part_def split: option.split)
qed

theorem native_slice_safe_witness:
  "fst (nativeSendSlice client_env0 [1, 2, 3] True 1 2 (Some client0)) =
     Ret (sent_bytes (softether_send tenv0 [2, 3] (tun client0)) client0) \<and>
   fst (nativeSendSlice client_env0 [1, 2, 3] True 2 2147483647 (Some client0)) = Ret (-1, Some client0)"
  using native_slice_safe [of 2 client_env0 "[1, 2, 3]" True 1 "Some client0"]
    native_slice_safe [of 2147483647 client_env0 "[1, 2, 3]" True 2 "Some client0"]
  by (simp add: client_env0_def numeral_2_eq_2)

text \<open>
  The other entry points trust the lengths they are given. Sending reads outside the array
  exactly when the length exceeds it and is one the connection would send; setting the MAC
  address exactly when the array has fewer than six bytes; receiving writes outside it
  exactly when the packet taken from the queue is longer than the array, of which only the
  length passed is checked.
\<close>

theorem native_lengths_trusted:
  "(fst (nativeSend env (Some arr) len (Some c)) = Fault \<longleftrightarrow>
      length arr < size_of_jint len \<and> \<not> send_refuses (size_of_jint len) (tun c)) \<and>
   (fst (nativeSetClientMac (Some arr) (Some c)) = Fault \<longleftrightarrow> length arr < 6) \<and>
   (fst (nativeReceive env (Some arr) len (Some c)) = Fault \<longleftrightarrow>
      (\<exists>p. fst (softether_receive (te env) (size_of_jint len) (tun c)) = Rx_packet p \<and> length arr < length p \<and>
        length p \<le> size_of_jint len))"
proof -
  have "fst (nativeReceive env (Some arr) len (Some c)) = Fault \<longleftrightarrow>
      (\<exists>p. fst (softether_receive (te env) (size_of_jint len) (tun c)) = Rx_packet p \<and> length arr < length p \<and>
        length p \<le> size_of_jint len)"
    using receive_fits [of "te env" "size_of_jint len" "tun c"]
    by (auto simp: nativeReceive_def split: prod.splits rx.splits if_splits)
  then show ?thesis
    by (auto simp: nativeSend_def send_part_def nativeSetClientMac_def read_at_def)
qed

text \<open>
  C33: receiving a batch into arrays of the sizes passed never writes outside them: the packets of
  the abstract batch stand one behind the other at the front of the buffer, their lengths
  at the front of the other array with zeros up to the packet count, everything behind is
  untouched, and the frames that did not fit are still queued.
\<close>

theorem native_batch_safe:
  assumes ok: "queue_ok (tun c)" "queued (tun c) \<noteq> []" and st: "cstate (cl_conn c) = STATE_CONNECTED"
    and m: "0 < max_len" "max_len < 2 ^ 31" "max_len \<le> int (length arr)" "0 < n" "n \<le> int (length lens)"
  shows "\<exists>ps t. fst (nativeReceiveBatch env (Some arr) max_len lens True n (Some c)) =
      Ret (int (length (concat ps)), Some (concat ps @ drop (length (concat ps)) arr),
        map (\<lambda>p. int (length p)) ps @ replicate (nat n - length ps) 0 @ drop (nat n) lens, Some (c\<lparr>tun := t\<rparr>)) \<and>
    (ps, queued t) = batch_spec (nat max_len) (nat n) (queued (tun c)) \<and>
    length (concat ps @ drop (length (concat ps)) arr) = length arr \<and>
    length (map (\<lambda>p. int (length p)) ps @ replicate (nat n - length ps) 0 @ drop (nat n) lens) = length lens"
proof -
  have "nat max_len < 2 ^ 31" using m(2) by (simp add: nat_less_iff)
  then obtain ps t where b: "softether_receive_batch (te env) (nat max_len) (nat n) (tun c) = (Some ps, t)"
      "(ps, queued t) = batch_spec (nat max_len) (nat n) (queued (tun c))" "length (concat ps) \<le> nat max_len" "length ps \<le> nat n"
    using receive_batch_spec [OF ok, of "nat max_len" "nat n" "te env"] st m by auto
  have le: "length (concat ps) \<le> length arr" "nat n \<le> length lens" using b(3) m by linarith+
  have "fst (nativeReceiveBatch env (Some arr) max_len lens True n (Some c)) =
      Ret (int (length (concat ps)), Some (concat ps @ drop (length (concat ps)) arr),
        map (\<lambda>p. int (length p)) ps @ replicate (nat n - length ps) 0 @ drop (nat n) lens, Some (c\<lparr>tun := t\<rparr>))"
    using m b(1) le by (simp add: nativeReceiveBatch_def)
  then show ?thesis using b(2,4) le by fastforce
qed

theorem native_batch_safe_witness:
  "\<exists>c. fst (nativeReceiveBatch client_env0 (Some (replicate 5 9)) 5 [7, 7, 7] True 2 (Some (client0\<lparr>tun := tun2\<rparr>))) =
     Ret (3, Some [0x45, 1, 2, 9, 9], [3, 0, 7], Some c)"
  using native_batch_safe [of "client0\<lparr>tun := tun2\<rparr>" 5 "replicate 5 9" 2 "[7, 7, 7]" client_env0] tun2_queue
  by (auto simp: numeral_eq_Suc)

section \<open>Every sequence of calls\<close>

text \<open>
  The calls Java can make on a handle, with any arguments, and the completion of the thread
  that opens additional connections, in any order.
\<close>

inductive native_step :: "client_env \<Rightarrow> client_t \<Rightarrow> client_t \<Rightarrow> bool" for env where
  connect: "fst (nativeConnect env host port user pw (Some c)) = Finished (e, Some c') \<Longrightarrow> native_step env c c'"
| connect_hub: "fst (nativeConnectWithHub env strs port tcp build cport sport (Some c)) = Finished (e, Some c') \<Longrightarrow>
    native_step env c c'"
| auth: "nativeSetAuthType ty (Some c) = Some c' \<Longrightarrow> native_step env c c'"
| disconnect: "nativeDisconnect (Some c) = Some c' \<Longrightarrow> native_step env c c'"
| force: "nativeForceCloseSocket (Some c) = Some c' \<Longrightarrow> native_step env c c'"
| max_conn: "nativeSetMaxConnection n (Some c) = Some c' \<Longrightarrow> native_step env c c'"
| half: "nativeSetHalfConnection b (Some c) = Some c' \<Longrightarrow> native_step env c c'"
| option: "nativeSetOption opt v (Some c) = Some c' \<Longrightarrow> native_step env c c'"
| mac: "fst (nativeSetClientMac m (Some c)) = Ret (Some c') \<Longrightarrow> native_step env c c'"
| send: "fst (nativeSend env data len (Some c)) = Ret (r, Some c') \<Longrightarrow> native_step env c c'"
| slice: "fst (nativeSendSlice env arr ok pos len (Some c)) = Ret (r, Some c') \<Longrightarrow> native_step env c c'"
| raw: "fst (nativeSendRaw env data len (Some c)) = Ret (r, Some c') \<Longrightarrow> native_step env c c'"
| receive: "fst (nativeReceive env data len (Some c)) = Ret (r, b, Some c') \<Longrightarrow> native_step env c c'"
| batch: "fst (nativeReceiveBatch env data len lens ok n (Some c)) = Ret (r, b, l, Some c') \<Longrightarrow> native_step env c c'"
| dhcp: "nativeDoDhcp fuel env room (Some c) = Finished (r, Some c') \<Longrightarrow> native_step env c c'"
| background: "additional_connect_thread_routine (te env) (tun c) = Ret t \<Longrightarrow> native_step env c (c\<lparr>tun := t\<rparr>)"

text \<open>The fields of a connection that live beside its links.\<close>

definition tun_bufs :: "tun_t \<Rightarrow> bytes \<times> bytes \<times> bytes \<times> int" where
  "tun_bufs t = (client_mac t, conn_session_key t, conn_server_ip t, max_connection t)"

lemma tun_bufs_simps [simp]:
  "tun_bufs (t\<lparr>tc := c\<rparr>) = tun_bufs t" "tun_bufs (t\<lparr>gateway_ip := i\<rparr>) = tun_bufs t"
  "tun_bufs (t\<lparr>gateway_mac := m, gateway_mac_resolved := b\<rparr>) = tun_bufs t" "tun_bufs (t\<lparr>assigned_ip := i\<rparr>) = tun_bufs t"
  "tun_bufs (t\<lparr>stats_tx_packets := j, stats_tx_bytes := k\<rparr>) = tun_bufs t"
  "tun_bufs (t\<lparr>stats_rx_packets := j, stats_rx_bytes := k\<rparr>) = tun_bufs t" "tun_bufs (dequeue t) = tun_bufs t"
  "tun_bufs (t\<lparr>lpoll_i := k\<rparr>) = tun_bufs t"
  by (simp_all add: tun_bufs_def dequeue_def)

lemma client_wf_tun: "client_wf c \<Longrightarrow> tun_bufs t = tun_bufs (tun c) \<Longrightarrow> client_wf (c\<lparr>tun := t\<rparr>)"
  by (simp add: client_wf_def tun_bufs_def)

lemma tun_bufs_send [simp]: "tun_bufs (snd (softether_send env d t)) = tun_bufs t"
  by (simp add: softether_send_def Let_def split: prod.split option.split)

lemma tun_bufs_send_raw [simp]: "tun_bufs (snd (softether_send_raw env d t)) = tun_bufs t"
  by (simp add: softether_send_raw_def softether_send_data_def Let_def split: prod.split)

lemma tun_bufs_arp [simp]: "tun_bufs (softether_reply_arp_request env d t) = tun_bufs t"
  by (simp add: softether_reply_arp_request_def)

lemma tun_bufs_fill [simp]: "tun_bufs (snd (fill env t)) = tun_bufs t"
  by (simp add: fill_def split: prod.split)

lemma tun_bufs_launch [simp]: "tun_bufs (launch_additional env t) = tun_bufs t"
  by (simp add: launch_additional_def tun_bufs_def Let_def split: prod.split option.split)

lemma tun_bufs_cleanup [simp]: "tun_bufs (cleanup_links env is t) = tun_bufs t"
  by (induction env "is" t rule: cleanup_links.induct) (simp_all add: Let_def)

lemma tun_bufs_maintain [simp]: "tun_bufs (softether_maintain_links env t) = tun_bufs t"
  by (simp add: softether_maintain_links_def Let_def)

lemma tun_bufs_receive [simp]: "tun_bufs (snd (softether_receive env n t)) = tun_bufs t"
  by (simp add: softether_receive_def receive_frame_def Let_def case_prod_beta)

lemma tun_bufs_receive_raw [simp]: "tun_bufs (snd (softether_receive_raw env n t)) = tun_bufs t"
  by (simp add: softether_receive_raw_def Let_def case_prod_beta)

lemma tun_bufs_batch_loop [simp]: "tun_bufs (snd (batch_loop k env m n ps t)) = tun_bufs t"
  by (induction k env m n ps t rule: batch_loop.induct) (simp_all add: Let_def)

lemma tun_bufs_batch [simp]: "tun_bufs (snd (softether_receive_batch env m n t)) = tun_bufs t"
  by (simp add: softether_receive_batch_def Let_def case_prod_beta)

text \<open>The same with the pair taken apart.\<close>

lemma tun_bufs_eqs:
  "softether_send env d t = (r, t') \<Longrightarrow> tun_bufs t' = tun_bufs t"
  "softether_send_raw env d t = (r, t') \<Longrightarrow> tun_bufs t' = tun_bufs t"
  "softether_receive env n t = (x, t') \<Longrightarrow> tun_bufs t' = tun_bufs t"
  "softether_receive_raw env n t = (y, t') \<Longrightarrow> tun_bufs t' = tun_bufs t"
  "softether_receive_batch env m n t = (z, t') \<Longrightarrow> tun_bufs t' = tun_bufs t"
  using tun_bufs_send [of env d t] tun_bufs_send_raw [of env d t] tun_bufs_receive [of env n t]
    tun_bufs_receive_raw [of env n t] tun_bufs_batch [of env m n t] by force+

lemma tun_bufs_poll: "resolve_poll k env ip t = (b, t') \<Longrightarrow> tun_bufs t' = tun_bufs t"
proof (induction k arbitrary: t)
  case (Suc k)
  obtain f t1 where f: "softether_receive_raw env 2048 t = (f, t1)" by fastforce
  then have "tun_bufs t1 = tun_bufs t" by (rule tun_bufs_eqs)
  then show ?case using Suc f by (auto split: option.splits if_splits)
qed simp

lemma tun_bufs_attempts: "resolve_attempts k env ip req t = (b, t') \<Longrightarrow> tun_bufs t' = tun_bufs t"
proof (induction k arbitrary: t)
  case (Suc k)
  obtain f t1 where f: "resolve_poll 40 env ip t = (f, t1)" by fastforce
  then have "tun_bufs t1 = tun_bufs t" by (rule tun_bufs_poll)
  then show ?case using Suc.prems Suc.IH [of "snd (softether_send_raw env req t1)"] f by (auto split: bool.splits)
qed simp

lemma tun_bufs_resolve: "softether_resolve_gateway env ip t = (b, t') \<Longrightarrow> tun_bufs t' = tun_bufs t"
  by (auto simp: softether_resolve_gateway_def Let_def split: if_splits dest!: tun_bufs_attempts)

lemma tun_bufs_dhcp_rand [simp]: "tun_bufs (snd (dhcp_rand env t)) = tun_bufs t"
  by (simp add: dhcp_rand_def)

lemma tun_bufs_dhcp_send: "dhcp_send env xid m ip sid t = (b, t') \<Longrightarrow> tun_bufs t' = tun_bufs t"
  by (auto simp: dhcp_send_def Let_def case_prod_beta split: option.splits)

lemma tun_bufs_dhcp_poll: "dhcp_poll env t = (p, t') \<Longrightarrow> tun_bufs t' = tun_bufs t"
  by (auto simp: dhcp_poll_def Let_def split: if_splits)

lemma tun_bufs_wait: "wait_dhcp_response k env xid tl0 e o1 t = Some (r, o2, t') \<Longrightarrow> tun_bufs t' = tun_bufs t"
proof (induction k arbitrary: e o1 t)
  case (Suc k)
  obtain p t1 where p: "dhcp_poll env t = (p, t1)" by fastforce
  obtain f t2 where f: "softether_receive_raw env 2048 t1 = (f, t2)" by fastforce
  have eq: "tun_bufs t1 = tun_bufs t" "tun_bufs t2 = tun_bufs t"
    using tun_bufs_dhcp_poll [OF p] tun_bufs_eqs(4) [OF f] by simp_all
  show ?case
    using Suc.prems eq Suc.IH [of "e + 100" o1 t1] Suc.IH [of "e + 100" o1 t2] Suc.IH [of e _ t2]
    by (auto simp: wait_dhcp_response.simps p f split: if_splits option.splits bool.splits)
qed (simp add: wait_dhcp_response.simps)

lemma tun_bufs_dhcp_attempts: "dhcp_attempts fuel k env xid o1 t = Some (r, d, t') \<Longrightarrow> tun_bufs t' = tun_bufs t"
proof (induction k arbitrary: o1 t)
  case (Suc k)
  then show ?case
    by (auto simp: Let_def split: prod.splits if_splits option.splits dest!: Suc.IH tun_bufs_wait tun_bufs_dhcp_send)
qed simp

lemma tun_bufs_dhcp: "softether_do_dhcp fuel env r0 t = Some (r, d, t') \<Longrightarrow> tun_bufs t' = tun_bufs t"
  by (auto simp: softether_do_dhcp_def Let_def case_prod_beta split: if_splits dest!: tun_bufs_dhcp_attempts)

lemma tun_bufs_after_dhcp [simp]: "tun_bufs (resolve_after_dhcp env ret r t) = tun_bufs t"
proof -
  have r: "tun_bufs (snd (softether_resolve_gateway env ip u)) = tun_bufs u" for ip u
    using tun_bufs_resolve [of env ip u] by (cases "softether_resolve_gateway env ip u") simp
  show ?thesis
    using tun_bufs_resolve [of env "dr_gateway r" "t\<lparr>assigned_ip := dr_assigned_ip r\<rparr>"]
    by (auto simp: resolve_after_dhcp_def r split: prod.split bool.split)
qed

lemma tun_bufs_background:
  assumes "additional_connect_thread_routine env t = Ret t'"
  shows "tun_bufs t' = tun_bufs t"
proof -
  obtain r t1 where a: "softether_additional_connect env t = Ret (r, t1)"
      "t' = t1\<lparr>additional_connect_result := r, additional_connecting := False\<rparr>"
    using assms by (auto simp: additional_connect_thread_routine_def split: outcome.splits)
  show ?thesis using marks_additional [OF a(1)] additional_keeps_bufs [OF a(1)] a(2) by (simp add: tun_bufs_def)
qed

lemma wf_send_part: "send_part env arr pos n c = Ret (r, Some c') \<Longrightarrow> client_wf c \<Longrightarrow> client_wf c'"
  by (auto simp: send_part_def sent_bytes_def split: option.splits if_splits prod.splits
      intro!: client_wf_tun dest!: tun_bufs_eqs)

lemma wf_connected_handle:
  "connected_handle (softether_connect_with_hub env a c) = Finished (e, Some c') \<Longrightarrow> client_wf c \<Longrightarrow> client_wf c'"
  using wf_connect [of env a c]
  by (cases "softether_connect_with_hub env a c") (auto simp: connected_handle_def)

lemma native_step_wf: "native_step env c c' \<Longrightarrow> client_wf c \<Longrightarrow> client_wf c'"
proof (induction rule: native_step.induct)
  case (connect host port user pw c e c')
  then show ?case by (auto simp: nativeConnect_def softether_connect_def Let_def split: if_splits dest: wf_connected_handle)
next
  case (connect_hub strs port tcp build cport sport c e c')
  then show ?case by (auto simp: nativeConnectWithHub_def split: if_splits dest: wf_connected_handle)
next
  case (disconnect c c')
  then show ?case using client_wf_cong [OF bufs_disconnect [of c]] by (auto simp: nativeDisconnect_def split: if_splits)
next
  case (force c c')
  then show ?case using client_wf_cong [OF bufs_force [of c]] by (auto simp: nativeForceCloseSocket_def)
next
  case (max_conn n c c')
  then show ?case by (auto simp: nativeSetMaxConnection_def MAX_SE_CONNECTIONS_def client_wf_def Let_def)
next
  case (mac m c c')
  then show ?case
    by (auto simp: nativeSetClientMac_def softether_set_client_mac_def read_at_def client_wf_def split: option.splits if_splits)
next
  case (send data len c r c')
  then show ?case by (auto simp: nativeSend_def split: option.splits dest: wf_send_part)
next
  case (slice arr ok pos len c r c')
  then show ?case by (auto simp: nativeSendSlice_def split: if_splits dest: wf_send_part)
next
  case (raw data len c r c')
  then show ?case
    by (auto simp: nativeSendRaw_def sent_bytes_def split: option.splits if_splits prod.splits
        intro!: client_wf_tun dest!: tun_bufs_eqs)
next
  case (receive data len c r b c')
  then show ?case
    by (auto simp: nativeReceive_def split: option.splits if_splits prod.splits rx.splits
        intro!: client_wf_tun dest!: tun_bufs_eqs)
next
  case (batch data len lens ok n c r b l c')
  then show ?case
    by (auto simp: nativeReceiveBatch_def split: option.splits if_splits prod.splits
        intro!: client_wf_tun dest!: tun_bufs_eqs)
next
  case (dhcp fuel room c r c')
  then show ?case
    by (auto simp: nativeDoDhcp_def split: option.splits prod.splits intro!: client_wf_tun dest!: tun_bufs_dhcp)
next
  case (background c t)
  then show ?case by (auto intro!: client_wf_tun tun_bufs_background)
qed (auto simp: nativeSetAuthType_def nativeSetHalfConnection_def nativeSetOption_def softether_set_auth_type_def
    client_wf_def session_bufs_ok_def Let_def)

interpretation native_life: step_invariant "native_step env" client_wf for env
  by unfold_locales (rule native_step_wf)

text \<open>
  C32: from creation on, no sequence of calls Java can make, with whatever arguments, overruns a
  field of the connection: every text fits its array with its terminator, keys and addresses
  keep their sizes, and the number of connections stays between one and eight.
\<close>

theorem native_fields_fit:
  assumes "nativeCreate env ok w = Some c" "(native_step env)\<^sup>*\<^sup>* c c'"
  shows "client_wf c'"
  using native_life.run_keeps [OF assms(2)] created_wf assms(1) by (simp add: nativeCreate_def)

theorem native_fields_fit_witness:
  "client_wf (the (nativeSetMaxConnection 1000 (Some client0)))"
proof -
  have "native_step client_env0 client0 (the (nativeSetMaxConnection 1000 (Some client0)))"
    by (rule native_step.max_conn [of 1000]) (simp add: nativeSetMaxConnection_def)
  then show ?thesis
    using native_fields_fit [of client_env0 True udp_world0 client0] client0_created by (auto simp: nativeCreate_def)
qed

end
