(* ===== verification/Serializer.thy ===== *)
theory Serializer
  imports Prelude "HOL-Library.Monad_Syntax"
begin

text \<open>
  The legacy packet serializer (\<^verbatim>\<open>serializer.c\<close>): a header of six fields in network byte
  order with a payload behind it. No source uses it, and the size of the header, the
  signature, the version, the largest payload and most command codes are defined nowhere:
  they are the parameters \<open>ser_consts\<close>. The fields have the widths of the variables they are
  converted through, which are also those of the arguments of \<^verbatim>\<open>create_packet_header\<close>. A NULL
  argument is \<open>None\<close>; an access outside a buffer is \<open>Fault\<close>.
\<close>

section \<open>Headers\<close>

record softether_header_t =
  signature :: u32
  version :: u16
  command :: u16
  payload_length :: u32
  session_id :: u32
  sequence_num :: u32

datatype cmd_name = CONNECT | CONNECT_ACK | AUTH | AUTH_CHALLENGE | AUTH_RESPONSE | AUTH_SUCCESS | AUTH_FAIL
  | SESSION_REQUEST | SESSION_ASSIGN | CONFIG_REQUEST | CONFIG_RESPONSE | DATA | KEEPALIVE | KEEPALIVE_ACK
  | DISCONNECT | DISCONNECT_ACK | ERROR

record ser_consts =
  SOFTETHER_HEADER_SIZE :: nat
  SOFTETHER_SIGNATURE :: u32
  SOFTETHER_VERSION :: u16
  SOFTETHER_MAX_PAYLOAD :: nat
  other_code :: "cmd_name \<Rightarrow> u16"

definition serialize_header :: "ser_consts \<Rightarrow> softether_header_t option \<Rightarrow> bytes option \<Rightarrow> (nat \<times> bytes) outcome" where
  "serialize_header k header buffer = (case (header, buffer) of
     (Some h, Some buf) \<Rightarrow>
       if length buf < SOFTETHER_HEADER_SIZE k then Fail
       else (case do {
           c \<leftarrow> emit (put_be32 (signature h)) (buf, 0);
           c \<leftarrow> emit (put_be16 (version h)) c;
           c \<leftarrow> emit (put_be16 (command h)) c;
           c \<leftarrow> emit (put_be32 (payload_length h)) c;
           c \<leftarrow> emit (put_be32 (session_id h)) c;
           emit (put_be32 (sequence_num h)) c } of
         None \<Rightarrow> Fault | Some (b, off) \<Rightarrow> Ret (off, b))
   | _ \<Rightarrow> Fail)"

definition deserialize_header :: "ser_consts \<Rightarrow> bytes option \<Rightarrow> softether_header_t option \<Rightarrow> (nat \<times> softether_header_t) outcome" where
  "deserialize_header k buffer header = (case (header, buffer) of
     (Some h, Some buf) \<Rightarrow>
       if length buf < SOFTETHER_HEADER_SIZE k then Fail
       else (case do {
           sig \<leftarrow> read_at buf 0 4; ver \<leftarrow> read_at buf 4 2; cmd \<leftarrow> read_at buf 6 2;
           len \<leftarrow> read_at buf 8 4; sid \<leftarrow> read_at buf 12 4; num \<leftarrow> read_at buf 16 4;
           Some \<lparr>signature = get_be32 sig, version = get_be16 ver, command = get_be16 cmd, payload_length = get_be32 len,
             session_id = get_be32 sid, sequence_num = get_be32 num\<rparr> } of
         None \<Rightarrow> Fault | Some h \<Rightarrow> Ret (20, h))
   | _ \<Rightarrow> Fail)"

definition create_packet_header :: "ser_consts \<Rightarrow> u16 \<Rightarrow> u32 \<Rightarrow> u32 \<Rightarrow> u32 \<Rightarrow> softether_header_t option \<Rightarrow> softether_header_t option" where
  "create_packet_header k cmd len sid num header = map_option (\<lambda>_. \<lparr>signature = SOFTETHER_SIGNATURE k,
     version = SOFTETHER_VERSION k, command = cmd, payload_length = len, session_id = sid, sequence_num = num\<rparr>) header"

section \<open>Packets\<close>

text \<open>The return values are converted to \<^verbatim>\<open>int\<close>.\<close>

definition serialize_packet :: "ser_consts \<Rightarrow> softether_header_t option \<Rightarrow> bytes option \<Rightarrow> bytes option \<Rightarrow> (int \<times> bytes) outcome" where
  "serialize_packet k header payload buffer = (case (header, buffer) of
     (Some h, Some buf) \<Rightarrow> (let n = unat (payload_length h) in
       if length buf < SOFTETHER_HEADER_SIZE k \<or> 0 < n \<and> payload = None then Fail
       else if length buf < SOFTETHER_HEADER_SIZE k + n then Fail
       else (case serialize_header k header buffer of
           Ret (off, buf) \<Rightarrow>
             if n = 0 then Ret (sint (word_of_nat off + payload_length h), buf)
             else (case do { p \<leftarrow> payload; d \<leftarrow> read_at p 0 n; write_at buf off d } of
                 None \<Rightarrow> Fault | Some buf \<Rightarrow> Ret (sint (word_of_nat off + payload_length h), buf))
         | Fail \<Rightarrow> Fail
         | Fault \<Rightarrow> Fault))
   | _ \<Rightarrow> Fail)"

text \<open>
  The header is written before it is checked, so that a refused packet leaves it changed;
  \<open>payload\<close> is the caller's buffer with the size it announces.
\<close>

definition deserialize_packet ::
  "ser_consts \<Rightarrow> bytes option \<Rightarrow> softether_header_t option \<Rightarrow> bytes option \<Rightarrow> nat \<Rightarrow>
   (int \<times> softether_header_t option \<times> bytes option) outcome" where
  "deserialize_packet k buffer header payload max_payload_size = (case (header, buffer) of
     (Some _, Some buf) \<Rightarrow> (case deserialize_header k buffer header of
         Fail \<Rightarrow> Ret (-1, header, payload)
       | Fault \<Rightarrow> Fault
       | Ret (off, h) \<Rightarrow> (let n = unat (payload_length h); total = SOFTETHER_HEADER_SIZE k + n in
           if signature h \<noteq> SOFTETHER_SIGNATURE k \<or> n > SOFTETHER_MAX_PAYLOAD k \<or> length buf < total
           then Ret (-1, Some h, payload)
           else (case payload of
               None \<Rightarrow> Ret (sint (word_of_nat total :: u32), Some h, None)
             | Some out \<Rightarrow>
                 if n = 0 then Ret (sint (word_of_nat total :: u32), Some h, payload)
                 else if max_payload_size < n then Ret (-1, Some h, payload)
                 else (case do { d \<leftarrow> read_at buf off n; write_at out 0 d } of
                     None \<Rightarrow> Fault | Some out \<Rightarrow> Ret (sint (word_of_nat total :: u32), Some h, Some out)))))
   | _ \<Rightarrow> Ret (-1, header, payload))"

definition calculate_packet_size :: "ser_consts \<Rightarrow> u32 \<Rightarrow> nat" where
  "calculate_packet_size k len = SOFTETHER_HEADER_SIZE k + unat len"

definition validate_packet_buffer :: "ser_consts \<Rightarrow> bytes option \<Rightarrow> int outcome" where
  "validate_packet_buffer k buffer = (case buffer of
     None \<Rightarrow> Ret (-1)
   | Some buf \<Rightarrow> if length buf < SOFTETHER_HEADER_SIZE k then Ret (-1)
       else (case read_at buf 0 4 of
           None \<Rightarrow> Fault | Some sig \<Rightarrow> Ret (if get_be32 sig \<noteq> SOFTETHER_SIGNATURE k then -1 else 0)))"

definition peek_payload_length :: "ser_consts \<Rightarrow> bytes option \<Rightarrow> u32 option outcome" where
  "peek_payload_length k buffer = (case buffer of
     None \<Rightarrow> Ret None
   | Some buf \<Rightarrow> if length buf < SOFTETHER_HEADER_SIZE k then Ret None
       else (case read_at buf 8 4 of None \<Rightarrow> Fault | Some len \<Rightarrow> Ret (Some (get_be32 len))))"

section \<open>Command names\<close>

definition cmd_names :: "cmd_name list" where
  "cmd_names = [CONNECT, CONNECT_ACK, AUTH, AUTH_CHALLENGE, AUTH_RESPONSE, AUTH_SUCCESS, AUTH_FAIL, SESSION_REQUEST,
     SESSION_ASSIGN, CONFIG_REQUEST, CONFIG_RESPONSE, DATA, KEEPALIVE, KEEPALIVE_ACK, DISCONNECT, DISCONNECT_ACK, ERROR]"

text \<open>The four codes that \<^verbatim>\<open>softether_protocol.h\<close> still defines.\<close>

definition cmd_code :: "ser_consts \<Rightarrow> cmd_name \<Rightarrow> u16" where
  "cmd_code k n = (case n of DATA \<Rightarrow> 0x0C | KEEPALIVE \<Rightarrow> 0x0D | KEEPALIVE_ACK \<Rightarrow> 0x0E | DISCONNECT \<Rightarrow> 0x0F | _ \<Rightarrow> other_code k n)"

text \<open>\<open>None\<close> is the text \<^verbatim>\<open>UNKNOWN\<close>.\<close>

definition command_to_string :: "ser_consts \<Rightarrow> u16 \<Rightarrow> cmd_name option" where
  "command_to_string k c = List.find (\<lambda>n. cmd_code k n = c) cmd_names"

section \<open>What is written is read back\<close>

definition header_bytes :: "softether_header_t \<Rightarrow> bytes" where
  "header_bytes h = put_be32 (signature h) @ put_be16 (version h) @ put_be16 (command h) @ put_be32 (payload_length h) @
     put_be32 (session_id h) @ put_be32 (sequence_num h)"

lemma header_bytes_length [simp]: "length (header_bytes h) = 20"
  by (simp add: header_bytes_def)

lemma serialize_header_bytes:
  assumes "20 \<le> length buf" "SOFTETHER_HEADER_SIZE k \<le> length buf"
  shows "serialize_header k (Some h) (Some buf) = Ret (20, header_bytes h @ drop 20 buf)"
proof -
  let ?w = "\<lambda>c. do { c \<leftarrow> emit (put_be32 (signature h)) c; c \<leftarrow> emit (put_be16 (version h)) c; c \<leftarrow> emit (put_be16 (command h)) c;
      c \<leftarrow> emit (put_be32 (payload_length h)) c; c \<leftarrow> emit (put_be32 (session_id h)) c; emit (put_be32 (sequence_num h)) c }"
  have "writes ?w (header_bytes h)"
    unfolding header_bytes_def by (intro writes_comp writes_emit)
  from writesD [OF this, of 0 buf] show ?thesis
    using assms by (simp add: serialize_header_def)
qed

lemma header_fields:
  assumes "length buf \<ge> 20"
  shows "\<exists>h. deserialize_header k (Some buf) (Some h0) = (if length buf < SOFTETHER_HEADER_SIZE k then Fail else Ret (20, h)) \<and>
    take 20 buf = header_bytes h \<and> signature h = get_be32 (take 4 buf) \<and> payload_length h = get_be32 (take 4 (drop 8 buf))"
proof -
  let ?h = "\<lparr>signature = get_be32 (take 4 buf), version = get_be16 (take 2 (drop 4 buf)), command = get_be16 (take 2 (drop 6 buf)),
    payload_length = get_be32 (take 4 (drop 8 buf)), session_id = get_be32 (take 4 (drop 12 buf)),
    sequence_num = get_be32 (take 4 (drop 16 buf))\<rparr>"
  have t: "take (a + b) buf = take a buf @ take b (drop a buf)" for a b by (rule take_add)
  have "take 20 buf = take 4 buf @ take 2 (drop 4 buf) @ take 2 (drop 6 buf) @ take 4 (drop 8 buf) @ take 4 (drop 12 buf) @
      take 4 (drop 16 buf)"
    using t [of 4 2] t [of 6 2] t [of 8 4] t [of 12 4] t [of 16 4] by simp
  then have "take 20 buf = header_bytes ?h" using assms by (simp add: header_bytes_def put_get_be32 put_get_be16)
  then show ?thesis using assms by (intro exI [of _ ?h]) (simp add: deserialize_header_def read_at_def)
qed

lemma header_bytes_inject: "header_bytes h = header_bytes h' \<Longrightarrow> h = h'"
  by (cases h, cases h')
    (simp add: header_bytes_def be32.enc_append_inject be16.enc_append_inject be32.enc_inject)

lemma deserialize_header_bytes:
  assumes "SOFTETHER_HEADER_SIZE k \<le> length (header_bytes h @ r)"
  shows "deserialize_header k (Some (header_bytes h @ r)) (Some h0) = Ret (20, h)"
  using header_fields [of "header_bytes h @ r" k h0] assms header_bytes_inject by auto

text \<open>
  A packet is read back as it was written, whatever is in the buffers, and the two
  functions that look at a packet without reading it agree.
\<close>

theorem packet_roundtrip:
  assumes k: "SOFTETHER_HEADER_SIZE k = 20" "signature h = SOFTETHER_SIGNATURE k" "unat (payload_length h) = length p"
      "length p \<le> SOFTETHER_MAX_PAYLOAD k" "20 + length p < 2 ^ 31"
    and room: "20 + length p \<le> length buf" "length p \<le> length out"
  shows "\<exists>b. serialize_packet k (Some h) (Some p) (Some buf) = Ret (int (20 + length p), b) \<and> length b = length buf \<and>
    deserialize_packet k (Some b) (Some h0) (Some out) (length out) = Ret (int (20 + length p), Some h, Some (p @ drop (length p) out)) \<and>
    validate_packet_buffer k (Some b) = Ret 0 \<and> peek_payload_length k (Some b) = Ret (Some (payload_length h))"
proof -
  let ?b = "header_bytes h @ p @ drop (20 + length p) buf"
  have w: "sint (word_of_nat (20 + length p) :: u32) = int (20 + length p)"
    using k(5) by (simp add: signed_of_nat signed_take_bit_int_eq_self del: of_nat_add of_nat_numeral)
  have len: "payload_length h = word_of_nat (length p)" using k(3) by (metis of_nat_unat ucast_id)
  have w': "sint (word_of_nat 20 + payload_length h) = int (20 + length p)" using w by (simp add: len)
  have s: "serialize_packet k (Some h) (Some p) (Some buf) = Ret (int (20 + length p), ?b)"
    using room k w' serialize_header_bytes [of buf k h]
    by (auto simp: serialize_packet_def read_at_def write_at_def add.commute Let_def)
  have d: "deserialize_header k (Some ?b) (Some h0) = Ret (20, h)"
    by (rule deserialize_header_bytes) (simp add: k(1))
  have f: "take 4 ?b = put_be32 (signature h)" "take 4 (drop 8 ?b) = put_be32 (payload_length h)"
    by (simp_all add: header_bytes_def)
  show ?thesis
    using s d f room k w
    by (auto simp: deserialize_packet_def validate_packet_buffer_def peek_payload_length_def read_at_def write_at_def Let_def)
qed

text \<open>
  Reading is memory safe when the header size is at least the twenty bytes the fields
  take: whatever the bytes are, nothing outside the two buffers is touched, and a packet
  that is accepted has the signature, a payload that was all there, and the length that
  peeking finds.
\<close>

theorem deserialize_safe:
  assumes "20 \<le> SOFTETHER_HEADER_SIZE k"
  shows "\<exists>r h q. deserialize_packet k (Some b) (Some h0) (Some out) (length out) = Ret (r, Some h, Some q) \<and>
    length q = length out \<and>
    (r \<noteq> -1 \<longrightarrow> validate_packet_buffer k (Some b) = Ret 0 \<and> peek_payload_length k (Some b) = Ret (Some (payload_length h)) \<and>
      calculate_packet_size k (payload_length h) \<le> length b)"
proof (cases "length b < SOFTETHER_HEADER_SIZE k")
  case True
  then show ?thesis by (simp add: deserialize_packet_def deserialize_header_def)
next
  case False
  then have "20 \<le> length b" using assms by simp
  from header_fields [OF this, of k h0] False obtain h where h: "deserialize_header k (Some b) (Some h0) = Ret (20, h)"
      "signature h = get_be32 (take 4 b)" "payload_length h = get_be32 (take 4 (drop 8 b))" by auto
  then show ?thesis
    using False assms
    by (auto simp: deserialize_packet_def validate_packet_buffer_def peek_payload_length_def calculate_packet_size_def
        read_at_def write_at_def Let_def)
qed

text \<open>Every name is found under its code when the codes differ.\<close>

lemma command_names:
  assumes "inj (cmd_code k)"
  shows "command_to_string k (cmd_code k n) = Some n"
proof -
  have "cmd_code k m = cmd_code k n \<longleftrightarrow> m = n" for m using assms by (auto dest: injD)
  then show ?thesis by (cases n) (simp_all add: command_to_string_def cmd_names_def)
qed

end
