(* ===== verification/Spec2Isabelle.thy ===== *)
theory Spec2Isabelle
  imports Ring_Queue Byte_Fifo Crypto Checksum Pack Net_Io Http Login Rudp_Accel Data_Channel Links Tunnel
    Rudp_Transport Rudp_Stream Dhcp Inet Nat_T Tcp_Socket Rudp_Connect Race
    Rudp_Setup Connect Connect_Result Connect_Ledger Connect_Bufs Connect_Live Connect_Props Tls Jni Serializer
begin

text \<open>
  A verification of the native core of the SoftEther VPN client for Android
  (\<^verbatim>\<open>src/src/main/cpp\<close>).

  \<^bold>\<open>The program.\<close> Java calls the entry points of \<^verbatim>\<open>jni/softether_jni.c\<close>. They drive one
  \<^verbatim>\<open>softether_connection_t\<close>, created, connected, used and destroyed by
  \<^verbatim>\<open>softether-core/src/proto/softether_protocol.c\<close>. Connecting resolves the server, opens a TCP
  connection (\<^verbatim>\<open>socket/tcp_socket.c\<close>), or, when that fails or is not wanted, runs a race of
  transports in threads: TCP, and byte streams over UDP, DNS or ICMP datagrams
  (\<^verbatim>\<open>proto/rudp_transport.c\<close>), one of them after a rendezvous with a relay
  (\<^verbatim>\<open>proto/softether_nat_t.c\<close>). Over the winner a TLS connection is set up
  (\<^verbatim>\<open>crypto/aes_wrapper.c\<close>), and two HTTP exchanges log in with PACK containers
  (\<^verbatim>\<open>proto/softether_pack.c\<close>). The session then carries Ethernet frames in blocks over the
  primary and up to eight additional TCP connections (\<^verbatim>\<open>packet/packet_handler.c\<close>), and, when both
  sides agree, over a second datagram path, UDP acceleration (\<^verbatim>\<open>proto/softether_rudp.c\<close>,
  \<^verbatim>\<open>crypto/compress.c\<close>). On top of it the client sends and receives IP packets, answers ARP,
  resolves the gateway, and asks for an address by DHCP (\<^verbatim>\<open>net/dhcp_client.c\<close>).

  \<^bold>\<open>How it is modelled.\<close> Machine integers are words (\<open>byte\<close>, \<open>u16\<close>, \<open>u32\<close>, \<open>u64\<close>); a
  signed counter, port, timeout or descriptor is an \<open>int\<close>, and where the sum of two signed
  integers depends on what a server sends, in the three checks of a Content-Length
  (\<^verbatim>\<open>softether_protocol.c\<close> 830, 3642, 3771), its overflow is an outcome of its own; buffers are byte lists with their capacity where it
  matters. An operation is a function from the state, a record with the fields of the C
  structure, to the result and the new state. What the system, the peer, OpenSSL and zlib
  answer is an argument: a record of functions of the number of the call, so that every answer
  at every time is covered; what a call has done (bytes written, descriptors opened and closed,
  objects made and freed) is recorded in the state. An error is a value: \<open>option\<close> for a
  negative return value, \<open>outcome\<close> (\<open>Ret\<close>, \<open>Fail\<close>, and \<open>Fault\<close> for an access outside a
  buffer or a signed overflow), \<open>run\<close> (\<open>Finished\<close>, \<open>Faulted\<close>, \<open>Unfinished\<close>) where a called loop may also not
  have ended. Operations that interleave are steps of an inductive relation.

  \<^bold>\<open>Theories and code.\<close>

  \<^item> \<open>Prelude\<close>: words, byte buffers, wire fields (locale \<open>wire_field\<close>), writers that fill a
    buffer, and the invariant of a step relation (locale \<open>step_invariant\<close>, interpreted by every
    running component below). \<open>Net_Io\<close>: byte streams in both directions, read and written in
    chunks of any size. \<open>Inet\<close>: addresses as text. \<open>Checksum\<close>: the Internet checksum, computed
    in two ways.
  \<^item> \<open>Ring_Queue\<close> (locale \<open>bounded_queue\<close>): the two frame queues. \<open>Byte_Fifo\<close> (locale
    \<open>byte_stream\<close>): \<^verbatim>\<open>rt_fifo_t\<close>. \<open>Crypto\<close> (locale \<open>stream_cipher\<close>): \<^verbatim>\<open>rc4_crypt\<close>, \<^verbatim>\<open>sha0_hash\<close>.
  \<^item> \<open>Pack\<close>: \<^verbatim>\<open>softether_pack.c\<close>, builder and readers. The builder refines appending to a list of
    elements; the readers return what a lookup in that list returns.
  \<^item> \<open>Http\<close>, \<open>Login\<close>: \<^verbatim>\<open>read_http_response\<close>, the requests, the server's Hello, the password chain,
    \<^verbatim>\<open>build_login_pack\<close> and the decoding of the answer, with the private copies of the PACK readers.
  \<^item> \<open>Tls\<close>: the wrapper of OpenSSL, as a trace of library calls and lock operations.
  \<^item> \<open>Tcp_Socket\<close>, \<open>Nat_T\<close>, \<open>Rudp_Transport\<close>, \<open>Rudp_Stream\<close>, \<open>Rudp_Connect\<close>: sockets, rendezvous and
    the stream transport; the second of the last three has the worker, the network and the
    application as a step relation and shows that the bytes handed over are the peer's.
  \<^item> \<open>Race\<close> (locale \<open>race_thread\<close>, interpreted by each of the five thread functions): the race
    in every interleaving of the threads and the main thread.
  \<^item> \<open>Rudp_Accel\<close>, \<open>Rudp_Setup\<close>: UDP acceleration, packet path and life of a context.
  \<^item> \<open>Data_Channel\<close>, \<open>Links\<close>, \<open>Tunnel\<close>: \<^verbatim>\<open>packet_handler.c\<close>, the additional connections, and the
    layer-2 operations, ending in the step relation of a session with its background thread;
    \<open>close_links\<close> is the part of \<^verbatim>\<open>softether_disconnect\<close> on the TCP connections.
  \<^item> \<open>Dhcp\<close>: \<^verbatim>\<open>dhcp_client.c\<close>.
  \<^item> \<open>Connect\<close>, \<open>Connect_Result\<close>, \<open>Connect_Ledger\<close>, \<open>Connect_Bufs\<close>, \<open>Connect_Live\<close>, \<open>Connect_Props\<close>:
    creation, connect on every way, the whole of \<^verbatim>\<open>softether_disconnect\<close>, reconnect and
    destruction over all of the above; what a connect ends in, the accounts of what it acquires
    and gives back (over the lists \<open>opened\<close>, \<open>cl_made\<close>, \<open>cl_adopted\<close>, \<open>closed_fds\<close>, \<open>cl_closed\<close>,
    \<open>destroyed\<close>, which record what was done and which no operation reads), the sizes of the
    fields, a connect that must succeed, and the properties.
  \<^item> \<open>Jni\<close>: the entry points.
  \<^item> \<open>Serializer\<close>: \<^verbatim>\<open>packet/serializer.c\<close>. It is not part of the build and cannot be compiled, since
    the header type, its size, the signature and most of the command codes it uses are defined
    nowhere; these are parameters.

  \<^bold>\<open>What is shown.\<close> Memory safety: the readers of PACK, Hello, DHCP and relay data do not
  leave their buffers; the readers of HTTP responses stay within theirs, too, unless the
  announced length overflows the sum that checks it, which a server can bring about; the
  size computed for the login PACK is that of the PACK; the fields of a connection keep
  their sizes under every sequence of calls from Java, and a Java slice or batch stays within
  its array. Function: blocks, segments in each framing, UDP packets, PACKs and IP packets arrive
  as they were sent; what the application writes into a transport is sent but for the chunks
  its FIFO has no room for; a block is sent exactly when one of the open sockets takes it; a server that answers is
  connected to. Ownership: descriptors, TLS contexts and cipher contexts are accounted for
  over the operations of sockets, UDP contexts and the TLS wrapper in every order, over the
  additional connections, and over a connect that fails, on each of its paths. Concurrency: the outcome of the race, the
  byte stream of a transport and the contexts of a session hold in every interleaving.
  A thread of the race that the
  cancel flag reaches in time ends with nothing held. Termination: a context is created, loops
  with a deadline return, and the join of the race ends if the rendezvous of its threads does
  (\<open>meets\<close>; the other blocking calls of a thread are single steps). Where the
  code does not have a property one would expect, the exception is part of the theorem: the
  transports a lost race leaves open, the descriptors a failed set-up of a transport leaves
  open, the link a failed login leaves open, the descriptor that
  is closed twice, the library calls made without their lock.

  \<^bold>\<open>Bounds and fuel.\<close> The batch loop runs for as many rounds as frames are queued, which is
  all it can; the handshake makes 100 attempts and the read 5, as in the code. The waits of DHCP
  and of the relay client have fuel, \<open>None\<close> and \<open>Unfinished\<close> being a wait that has not returned;
  the theorems that they return give fuel that is enough. The worker of a transport is given
  the events of each of its turns, a connect the turns until it is answered. The choice of a
  cookie is a partial function, shown to end when the random source leaves the excluded values.
  Offsets into buffers have no upper limit, so that a pointer sum that wraps in a 32-bit
  address space is not covered. Sequence numbers of a transport are taken below 2 to the 63rd. A connect takes the final state of
  the race as an answer of the environment, constrained to states the race can reach
  (\<open>race_legal\<close>).

  \<^bold>\<open>Hypotheses.\<close> Properties that need them assume of OpenSSL's AEAD that opening what was
  sealed gives it back (\<open>aead_ok\<close>), of SHA-1 that its value has 20 bytes, of a random source that
  it does not stay on two values, of a server what it answers; each is met by the run of the
  property's witness.

  \<^bold>\<open>Not modelled.\<close> The insides of OpenSSL, zlib, the C library and the Java virtual machine.
  The mutexes of a connection (\<^verbatim>\<open>connect_mutex\<close>, \<^verbatim>\<open>write_mutex\<close>, \<^verbatim>\<open>ssl_lifetime_lock\<close>): operations of
  one connection are atomic steps, apart from the background thread and the race. Time spent in
  a blocking call. The bytes a string search reads behind the end of a response. Logging.
  The raw socket variants of the block reader and writer, used when the server answers that
  data is not encrypted, loop like the TLS ones and share their definitions.
\<close>

end
